(* ===== verification/Bytes.thy ===== *)
theory Bytes
  imports Prelude
begin

text \<open>
  Byte-addressed memory and the little-endian encoding of machine words, shared by the
  emulator's physical memory, the simulator's device space and the C string routines.
  All hosts and the guest of this repository are little-endian.
\<close>

section \<open>Little-endian encoding\<close>

type_synonym bytes = "nat \<Rightarrow> u8"

fun word_of_bytes :: "u8 list \<Rightarrow> 'a::len word" where
  "word_of_bytes [] = 0"
| "word_of_bytes (b # bs) = ucast b OR push_bit 8 (word_of_bytes bs)"

definition bytes_of_word :: "nat \<Rightarrow> 'a::len word \<Rightarrow> u8 list" where
  "bytes_of_word n w = map (\<lambda>i. ucast (drop_bit (8 * i) w)) [0..<n]"

named_theorems byte_simps \<open>loads, stores and byte encodings\<close>

lemma length_bytes_of_word [simp]: "length (bytes_of_word n w) = n"
  by (simp add: bytes_of_word_def)

lemma nth_bytes_of_word: "i < n \<Longrightarrow> bytes_of_word n w ! i = ucast (drop_bit (8 * i) w)"
  by (simp add: bytes_of_word_def)

lemma bit_word_of_bytes:
  "bit (word_of_bytes bs :: 'a::len word) i \<longleftrightarrow>
     i < LENGTH('a) \<and> i div 8 < length bs \<and> bit (bs ! (i div 8)) (i mod 8)"
proof (induction bs arbitrary: i)
  case Nil
  then show ?case by simp
next
  case (Cons b bs)
  show ?case
  proof (cases "i < 8")
    case True
    then show ?thesis by (auto simp: bit_simps)
  next
    case False
    then obtain j where j: "i = j + 8" by (metis add.commute le_add_diff_inverse not_less)
    then have "\<not> bit b i" by (auto dest: bit_imp_le_length)
    moreover have "(j + 8) div 8 = Suc (j div 8)" "(j + 8) mod 8 = j mod 8" by simp_all
    ultimately show ?thesis using Cons.IH [of j]
      by (auto simp: bit_simps j)
  qed
qed

lemma word_of_bytes_of_word [byte_simps]:
  "word_of_bytes (bytes_of_word n w) = (take_bit (8 * n) w :: 'a::len word)"
proof (rule bit_word_eqI)
  fix i assume i: "i < LENGTH('a)"
  have "i div 8 < n \<longleftrightarrow> i < 8 * n" by auto
  moreover have "8 * (i div 8) + i mod 8 = i" by simp
  ultimately show "bit (word_of_bytes (bytes_of_word n w) :: 'a word) i = bit (take_bit (8 * n) w) i"
    using i by (auto simp: bit_word_of_bytes nth_bytes_of_word bit_simps)
qed

lemma bytes_of_word_of_bytes:
  assumes "8 * length bs \<le> LENGTH('a::len)"
  shows "bytes_of_word (length bs) (word_of_bytes bs :: 'a word) = bs"
proof (rule nth_equalityI)
  fix i assume "i < length (bytes_of_word (length bs) (word_of_bytes bs :: 'a word))"
  then have i: "i < length bs" by simp
  show "bytes_of_word (length bs) (word_of_bytes bs :: 'a word) ! i = bs ! i"
  proof (rule bit_word_eqI)
    fix k assume "k < LENGTH(8)"
    then have "k < 8" by simp
    with i assms show "bit (bytes_of_word (length bs) (word_of_bytes bs :: 'a word) ! i) k = bit (bs ! i) k"
      by (auto simp: nth_bytes_of_word bit_simps bit_word_of_bytes)
  qed
qed simp

section \<open>Loads and stores\<close>

definition load :: "bytes \<Rightarrow> nat \<Rightarrow> nat \<Rightarrow> u8 list" where
  "load m a n = map m [a..<a + n]"

definition store :: "bytes \<Rightarrow> nat \<Rightarrow> u8 list \<Rightarrow> bytes" where
  "store m a bs = (\<lambda>x. if a \<le> x \<and> x < a + length bs then bs ! (x - a) else m x)"

lemma length_load [simp]: "length (load m a n) = n"
  by (simp add: load_def)

lemma nth_load: "i < n \<Longrightarrow> load m a n ! i = m (a + i)"
  by (simp add: load_def)

lemma load_0 [simp]: "load m a 0 = []"
  by (simp add: load_def)

lemma load_Suc: "load m a (Suc n) = m a # load m (Suc a) n"
  by (simp add: load_def upt_conv_Cons del: upt_Suc)

lemma load_add: "load m a (n + k) = load m a n @ load m (a + n) k"
  by (induction n arbitrary: a) (simp_all add: load_Suc)

lemma store_Nil [simp]: "store m a [] = m"
  by (rule ext) (auto simp: store_def)

lemma store_Cons: "store m a (b # bs) = (store m (Suc a) bs)(a := b)"
  by (rule ext) (auto simp: store_def nth_Cons')

lemma load_store_same [simp, byte_simps]: "n = length bs \<Longrightarrow> load (store m a bs) a n = bs"
  by (rule nth_equalityI) (auto simp: nth_load store_def)

lemma load_store_disjoint [byte_simps]:
  "a + length bs \<le> b \<or> b + n \<le> a \<Longrightarrow> load (store m a bs) b n = load m b n"
  by (auto simp: load_def store_def)

lemma store_outside: "x < a \<or> a + length bs \<le> x \<Longrightarrow> store m a bs x = m x"
  by (auto simp: store_def)

lemma store_load_id [simp]: "store m a (load m a n) = m"
  by (rule ext) (auto simp: store_def nth_load)

lemma store_store_commute:
  "a + length bs \<le> b \<or> b + length cs \<le> a \<Longrightarrow>
     store (store m a bs) b cs = store (store m b cs) a bs"
  by (rule ext) (auto simp: store_def)

lemma load_cong: "(\<And>x. a \<le> x \<Longrightarrow> x < a + n \<Longrightarrow> m x = m' x) \<Longrightarrow> load m a n = load m' a n"
  by (simp add: load_def)

lemma store_append: "b = a + length bs \<Longrightarrow> store (store m a bs) b cs = store m a (bs @ cs)"
  by (rule ext) (auto simp: store_def nth_append)

lemma load_store_within:
  "a \<le> b \<Longrightarrow> b + n \<le> a + length bs \<Longrightarrow> load (store m a bs) b n = take n (drop (b - a) bs)"
  by (rule nth_equalityI) (auto simp: nth_load store_def)

section \<open>Strings\<close>

text \<open>A C string is the list of its bytes without the terminating zero.\<close>

definition cstr :: "string \<Rightarrow> u8 list" where
  "cstr = map of_char"

abbreviation chr :: "char \<Rightarrow> u8" where
  "chr \<equiv> of_char"

end
