(* ===== verification/Nemu_Memory.thy ===== *)
theory Nemu_Memory
  imports Bytes
begin

text \<open>
  The physical memory of the reference emulator: \<open>simulator/nemu/src/memory/paddr.c\<close>,
  \<open>include/memory/host.h\<close> and \<open>include/memory/paddr.h\<close>. The C array \<open>pmem\<close> is a function from
  offsets to bytes; a host pointer into it is its (possibly negative) offset.
\<close>

section \<open>Layout\<close>

definition CONFIG_MBASE :: paddr_t where "CONFIG_MBASE = 0x80000000"
definition CONFIG_MSIZE :: nat where "CONFIG_MSIZE = 0x8000000"
definition CONFIG_PC_RESET_OFFSET :: paddr_t where "CONFIG_PC_RESET_OFFSET = 0"

definition PMEM_LEFT :: paddr_t where "PMEM_LEFT = CONFIG_MBASE"
definition PMEM_RIGHT :: paddr_t where
  "PMEM_RIGHT = CONFIG_MBASE + of_nat CONFIG_MSIZE - 1"
definition RESET_VECTOR :: vaddr_t where
  "RESET_VECTOR = PMEM_LEFT + CONFIG_PC_RESET_OFFSET"

named_theorems layout_defs \<open>constants of the memory layout\<close>

lemmas [layout_defs] = CONFIG_MBASE_def CONFIG_MSIZE_def CONFIG_PC_RESET_OFFSET_def
  PMEM_LEFT_def PMEM_RIGHT_def RESET_VECTOR_def

text \<open>The comparison is on \<open>uint32_t\<close>: an address below the base wraps to a large value.\<close>

definition in_pmem :: "paddr_t \<Rightarrow> bool" where
  "in_pmem addr \<longleftrightarrow> addr - CONFIG_MBASE < of_nat CONFIG_MSIZE"

definition guest_to_host :: "paddr_t \<Rightarrow> int" where
  "guest_to_host paddr = uint paddr - uint CONFIG_MBASE"

definition host_to_guest :: "int \<Rightarrow> paddr_t" where
  "host_to_guest haddr = word_of_int (haddr + uint CONFIG_MBASE)"

section \<open>Host accesses\<close>

text \<open>An access of \<open>n\<close> bytes at host pointer \<open>p\<close> stays inside the array \<open>pmem\<close>.\<close>

definition in_object :: "int \<Rightarrow> nat \<Rightarrow> bool" where
  "in_object p n \<longleftrightarrow> 0 \<le> p \<and> p + int n \<le> int CONFIG_MSIZE"

definition raw_read :: "bytes \<Rightarrow> int \<Rightarrow> nat \<Rightarrow> word_t res" where
  "raw_read m p n =
     rbind (rassert Out_of_bounds (in_object p n)) (\<lambda>_. Inr (word_of_bytes (load m (nat p) n)))"

definition raw_write :: "bytes \<Rightarrow> int \<Rightarrow> nat \<Rightarrow> word_t \<Rightarrow> bytes res" where
  "raw_write m p n d =
     rbind (rassert Out_of_bounds (in_object p n)) (\<lambda>_. Inr (store m (nat p) (bytes_of_word n d)))"

text \<open>The 64-bit cases return the low word and store a zero-extended word, as the C conversions do.\<close>

definition host_read :: "bytes \<Rightarrow> int \<Rightarrow> nat \<Rightarrow> word_t res" where
  "host_read m addr len =
     (if len = 1 then raw_read m addr 1
      else if len = 2 then raw_read m addr 2
      else if len = 4 then raw_read m addr 4
      else if len = 8 then raw_read m addr 8
      else Inl Assertion)"

definition host_write :: "bytes \<Rightarrow> int \<Rightarrow> nat \<Rightarrow> word_t \<Rightarrow> bytes res" where
  "host_write m addr len data =
     (if len = 1 then raw_write m addr 1 data
      else if len = 2 then raw_write m addr 2 data
      else if len = 4 then raw_write m addr 4 data
      else if len = 8 then raw_write m addr 8 data
      else Inl Assertion)"

section \<open>Physical memory\<close>

definition pmem_read :: "bytes \<Rightarrow> paddr_t \<Rightarrow> nat \<Rightarrow> word_t res" where
  "pmem_read m addr len = host_read m (guest_to_host addr) len"

definition pmem_write :: "bytes \<Rightarrow> paddr_t \<Rightarrow> nat \<Rightarrow> word_t \<Rightarrow> bytes res" where
  "pmem_write m addr len data = host_write m (guest_to_host addr) len data"

definition paddr_read :: "bytes \<Rightarrow> paddr_t \<Rightarrow> nat \<Rightarrow> word_t res" where
  "paddr_read m addr len = (if in_pmem addr then pmem_read m addr len else Inr 0)"

definition paddr_write :: "bytes \<Rightarrow> paddr_t \<Rightarrow> nat \<Rightarrow> word_t \<Rightarrow> bytes res" where
  "paddr_write m addr len data = (if in_pmem addr then pmem_write m addr len data else Inr m)"

text \<open>\<open>rnd i\<close> is what the \<open>i\<close>-th call of the C library's \<open>rand\<close> returns.\<close>

definition init_mem :: "(nat \<Rightarrow> u32) \<Rightarrow> bytes \<Rightarrow> bytes" where
  "init_mem rnd m =
     fold (\<lambda>i m. store m (4 * i) (bytes_of_word 4 (rnd i))) [0..<CONFIG_MSIZE div 4] m"

section \<open>Addresses\<close>

abbreviation offset_of :: "paddr_t \<Rightarrow> nat" where
  "offset_of addr \<equiv> unat addr - 0x80000000"

lemma in_pmem_iff: "in_pmem addr \<longleftrightarrow> 0x80000000 \<le> unat addr \<and> unat addr < 0x88000000"
proof -
  have "in_pmem addr \<longleftrightarrow> unat (addr - 0x80000000) < 0x8000000"
    by (simp add: in_pmem_def layout_defs word_less_nat_alt)
  also have "\<dots> \<longleftrightarrow> 0x80000000 \<le> unat addr \<and> unat addr < 0x88000000"
    using unsigned_less [of addr, where ?'a = nat]
    by (simp add: unat_sub_if' word_le_nat_alt) auto
  finally show ?thesis .
qed

lemma guest_to_host_eq: "guest_to_host addr = int (unat addr) - 0x80000000"
  by (simp add: guest_to_host_def layout_defs)

lemma guest_to_host_in_pmem:
  assumes "in_pmem addr" shows "guest_to_host addr = int (offset_of addr)"
proof -
  have "0x80000000 \<le> unat addr" using assms by (simp add: in_pmem_iff)
  then show ?thesis unfolding guest_to_host_eq by linarith
qed

lemma host_to_guest_guest_to_host [simp]: "host_to_guest (guest_to_host a) = a"
  by (simp add: host_to_guest_def guest_to_host_def)

lemma in_object_guest:
  assumes "in_pmem addr"
  shows "in_object (guest_to_host addr) n \<longleftrightarrow> unat addr + n \<le> 0x88000000"
proof -
  have "0x80000000 \<le> unat addr" using assms by (simp add: in_pmem_iff)
  then show ?thesis unfolding in_object_def guest_to_host_eq CONFIG_MSIZE_def by linarith
qed

section \<open>Accesses inside the memory\<close>

text \<open>The accesses the instruction set makes: one, two or four bytes, all inside \<open>pmem\<close>.\<close>

definition valid_access :: "paddr_t \<Rightarrow> nat \<Rightarrow> bool" where
  "valid_access a n \<longleftrightarrow> n \<in> {1, 2, 4} \<and> 0x80000000 \<le> unat a \<and> unat a + n \<le> 0x88000000"

definition disjoint_access :: "paddr_t \<Rightarrow> nat \<Rightarrow> paddr_t \<Rightarrow> nat \<Rightarrow> bool" where
  "disjoint_access a n b k \<longleftrightarrow> unat a + n \<le> unat b \<or> unat b + k \<le> unat a"

lemma valid_access_in_pmem: "valid_access a n \<Longrightarrow> in_pmem a"
  by (auto simp: valid_access_def in_pmem_iff)

lemma nat_guest_to_host: "in_pmem a \<Longrightarrow> nat (guest_to_host a) = offset_of a"
  by (simp add: guest_to_host_in_pmem)

lemma host_access_sizes:
  "len \<in> {1, 2, 4, 8} \<Longrightarrow> host_read m p len = raw_read m p len"
  "len \<in> {1, 2, 4, 8} \<Longrightarrow> host_write m p len d = raw_write m p len d"
  "len \<notin> {1, 2, 4, 8} \<Longrightarrow> host_read m p len = Inl Assertion"
  "len \<notin> {1, 2, 4, 8} \<Longrightarrow> host_write m p len d = Inl Assertion"
  by (auto simp: host_read_def host_write_def)

lemma paddr_read_valid:
  assumes "valid_access a n"
  shows "paddr_read m a n = Inr (word_of_bytes (load m (offset_of a) n))"
proof -
  have n: "n \<in> {1, 2, 4, 8}" and b: "unat a + n \<le> 0x88000000"
    using assms by (auto simp: valid_access_def)
  have "in_object (guest_to_host a) n"
    using valid_access_in_pmem [OF assms] b by (simp add: in_object_guest)
  then show ?thesis using valid_access_in_pmem [OF assms]
    by (simp add: paddr_read_def pmem_read_def host_access_sizes(1) [OF n] raw_read_def
        nat_guest_to_host)
qed

lemma paddr_write_valid:
  assumes "valid_access a n"
  shows "paddr_write m a n d = Inr (store m (offset_of a) (bytes_of_word n d))"
proof -
  have n: "n \<in> {1, 2, 4, 8}" and b: "unat a + n \<le> 0x88000000"
    using assms by (auto simp: valid_access_def)
  have "in_object (guest_to_host a) n"
    using valid_access_in_pmem [OF assms] b by (simp add: in_object_guest)
  then show ?thesis using valid_access_in_pmem [OF assms]
    by (simp add: paddr_write_def pmem_write_def host_access_sizes(2) [OF n] raw_write_def
        nat_guest_to_host)
qed

lemma paddr_outside:
  "\<not> in_pmem a \<Longrightarrow> paddr_read m a n = Inr 0"
  "\<not> in_pmem a \<Longrightarrow> paddr_write m a n d = Inr m"
  by (simp_all add: paddr_read_def paddr_write_def)

lemma offset_disjoint:
  assumes "valid_access a n" and "valid_access b k" and "disjoint_access a n b k"
  shows "offset_of a + n \<le> offset_of b \<or> offset_of b + k \<le> offset_of a"
proof -
  have "0x80000000 \<le> unat a" "0x80000000 \<le> unat b"
    using assms(1,2) by (simp_all add: valid_access_def)
  then show ?thesis using assms(3) unfolding disjoint_access_def by linarith
qed

section \<open>The memory interface\<close>

text \<open>
  What the instruction interpreter relies on: accesses that are \<open>valid\<close> do not fault, a read
  after a write of the same place returns the written bits, and disjoint places do not interfere.
\<close>

locale word_memory =
  fixes rd :: "'m \<Rightarrow> paddr_t \<Rightarrow> nat \<Rightarrow> word_t res"
    and wr :: "'m \<Rightarrow> paddr_t \<Rightarrow> nat \<Rightarrow> word_t \<Rightarrow> 'm res"
    and valid :: "paddr_t \<Rightarrow> nat \<Rightarrow> bool"
    and disjnt :: "paddr_t \<Rightarrow> nat \<Rightarrow> paddr_t \<Rightarrow> nat \<Rightarrow> bool"
  assumes rd_total: "valid a n \<Longrightarrow> \<exists>v. rd m a n = Inr v"
    and wr_total: "valid a n \<Longrightarrow> \<exists>m'. wr m a n d = Inr m'"
    and rd_wr_same: "valid a n \<Longrightarrow> wr m a n d = Inr m' \<Longrightarrow> rd m' a n = Inr (take_bit (8 * n) d)"
    and rd_wr_other: "valid a n \<Longrightarrow> valid b k \<Longrightarrow> disjnt a n b k \<Longrightarrow>
           wr m a n d = Inr m' \<Longrightarrow> rd m' b k = rd m b k"
begin

lemma write_read:
  assumes "valid a n"
  shows "\<exists>m'. wr m a n d = Inr m' \<and> rd m' a n = Inr (take_bit (8 * n) d) \<and>
           (\<forall>b k. valid b k \<and> disjnt a n b k \<longrightarrow> rd m' b k = rd m b k)"
  using wr_total [OF assms, of m d] rd_wr_same [OF assms] rd_wr_other [OF assms] by blast

lemma rd_wr_wr:
  assumes "valid a n" "valid b k" "disjnt b k a n"
    and "wr m a n d = Inr m1" "wr m1 b k e = Inr m2"
  shows "rd m2 a n = Inr (take_bit (8 * n) d)" "rd m2 b k = Inr (take_bit (8 * k) e)"
  using assms rd_wr_same rd_wr_other by metis+

end

interpretation pm: word_memory paddr_read paddr_write valid_access disjoint_access
proof
  fix m a n m' d
  assume v: "valid_access a n"
  show "\<exists>v. paddr_read m a n = Inr v" using v by (simp add: paddr_read_valid)
  show "\<exists>m'. paddr_write m a n d = Inr m'" using v by (simp add: paddr_write_valid)
  assume w: "paddr_write m a n d = Inr m'"
  then show "paddr_read m' a n = Inr (take_bit (8 * n) d)"
    using v by (auto simp: paddr_read_valid paddr_write_valid byte_simps)
  fix b k
  assume "valid_access b k" "disjoint_access a n b k"
  then show "paddr_read m' b k = paddr_read m b k"
    using v w offset_disjoint [OF v, of b k]
    by (auto simp: paddr_read_valid paddr_write_valid load_store_disjoint)
qed

section \<open>Properties\<close>

text \<open>A write inside the physical memory succeeds, reading the same place back returns the
  written value truncated to the access width, and every disjoint place keeps its contents.\<close>

lemma paddr_write_read:
  assumes "valid_access a n"
  shows "\<exists>m'. paddr_write m a n d = Inr m' \<and> paddr_read m' a n = Inr (take_bit (8 * n) d) \<and>
           (\<forall>b k. valid_access b k \<and> disjoint_access a n b k \<longrightarrow>
              paddr_read m' b k = paddr_read m b k)"
  by (rule pm.write_read [OF assms])

lemma paddr_write_read_witness:
  "\<exists>m'. paddr_write (\<lambda>_. 0) 0x80001003 2 0xABCD1234 = Inr m' \<and>
        paddr_read m' 0x80001003 2 = Inr 0x1234"
proof -
  have v: "valid_access 0x80001003 2" by (simp add: valid_access_def)
  show ?thesis using paddr_write_read [OF v, of "\<lambda>_. 0" "0xABCD1234"] by auto
qed

text \<open>The bounds test looks at the first byte only: an access faults exactly when it starts
  inside the memory and its last byte lies beyond the end; accesses that start outside are harmless
  (reads give 0, writes are dropped).\<close>

lemma paddr_access_fault_iff:
  assumes "n \<in> {1, 2, 4, 8}"
  shows "(paddr_read m a n = Inl Out_of_bounds \<longleftrightarrow>
            unat a < 0x88000000 \<and> 0x88000000 < unat a + n) \<and>
         (paddr_write m a n d = Inl Out_of_bounds \<longleftrightarrow>
            unat a < 0x88000000 \<and> 0x88000000 < unat a + n)"
proof (cases "in_pmem a")
  case True
  then show ?thesis
    by (auto simp: paddr_read_def pmem_read_def host_access_sizes(1) [OF assms] raw_read_def
        paddr_write_def pmem_write_def host_access_sizes(2) [OF assms] raw_write_def
        rbind_eq_Inl_iff in_object_guest in_pmem_iff)
next
  case False
  moreover have "n \<le> 8" using assms by auto
  ultimately show ?thesis by (auto simp: paddr_outside in_pmem_iff)
qed

lemma paddr_access_fault_iff_witness:
  "paddr_read (\<lambda>_. 0) 0x87fffffe 4 = Inl Out_of_bounds \<and>
   paddr_write (\<lambda>_. 0) 0x7ffffffe 4 1 \<noteq> Inl Out_of_bounds"
  using paddr_access_fault_iff [of 4 "\<lambda>_. 0" "0x87fffffe"]
    paddr_access_fault_iff [of 4 "\<lambda>_. 0" "0x7ffffffe" 1] by simp

end
