(* ===== verification/Nemu_Pattern.thy ===== *)
theory Nemu_Pattern
  imports Prelude
begin

text \<open>
  The pattern strings of the instruction table, \<open>simulator/nemu/include/cpu/decode.h\<close>:
  \<open>pattern_decode\<close> and \<open>pattern_decode_hex\<close> compile a string to a key, a mask and a shift,
  and \<open>INSTPAT\<close> compares an instruction word with them. The lemmas show that the compiled test
  is the digit-by-digit comparison the string describes.
\<close>

section \<open>Compiling a pattern\<close>

type_synonym compiled = "u64 \<times> u64 \<times> u64"

definition pattern_char :: "char \<Rightarrow> compiled \<Rightarrow> compiled res" where
  "pattern_char c kms = (case kms of (key, msk, shift) \<Rightarrow>
     if c \<noteq> CHR '' '' then
       rbind (rassert Assertion (c = CHR ''0'' \<or> c = CHR ''1'' \<or> c = CHR ''?'')) (\<lambda>_.
         Inr (push_bit 1 key OR (if c = CHR ''1'' then 1 else 0),
              push_bit 1 msk OR (if c = CHR ''?'' then 0 else 1),
              (if c = CHR ''?'' then shift + 1 else 0)))
     else Inr (key, msk, shift))"

text \<open>The macro is unrolled 64 times; a string that has not ended by then panics.\<close>

definition pattern_decode :: "string \<Rightarrow> compiled res" where
  "pattern_decode str =
     rbind (rfold pattern_char (take 64 str) (0, 0, 0)) (\<lambda>(key, msk, shift).
       if length str < 64 then Inr (drop_bit (unat shift) key, drop_bit (unat shift) msk, shift)
       else Inl Panic)"

definition is_hex_char :: "char \<Rightarrow> bool" where
  "is_hex_char c \<longleftrightarrow>
     (of_char (CHR ''0'') \<le> (of_char c :: nat) \<and> of_char c \<le> (of_char (CHR ''9'') :: nat)) \<or>
     (of_char (CHR ''a'') \<le> (of_char c :: nat) \<and> of_char c \<le> (of_char (CHR ''f'') :: nat))"

definition hex_value :: "char \<Rightarrow> u64" where
  "hex_value c =
     (if of_char (CHR ''0'') \<le> (of_char c :: nat) \<and> of_char c \<le> (of_char (CHR ''9'') :: nat)
      then of_nat (of_char c - of_char (CHR ''0''))
      else of_nat (of_char c - of_char (CHR ''a'') + 10))"

definition pattern_char_hex :: "char \<Rightarrow> compiled \<Rightarrow> compiled res" where
  "pattern_char_hex c kms = (case kms of (key, msk, shift) \<Rightarrow>
     if c \<noteq> CHR '' '' then
       rbind (rassert Assertion (is_hex_char c \<or> c = CHR ''?'')) (\<lambda>_.
         Inr (push_bit 4 key OR (if c = CHR ''?'' then 0 else hex_value c),
              push_bit 4 msk OR (if c = CHR ''?'' then 0 else 0xf),
              (if c = CHR ''?'' then shift + 4 else 0)))
     else Inr (key, msk, shift))"

definition pattern_decode_hex :: "string \<Rightarrow> compiled res" where
  "pattern_decode_hex str =
     rbind (rfold pattern_char_hex (take 16 str) (0, 0, 0)) (\<lambda>(key, msk, shift).
       if length str < 16 then Inr (drop_bit (unat shift) key, drop_bit (unat shift) msk, shift)
       else Inl Panic)"

text \<open>The test of \<open>INSTPAT\<close>, on the instruction word widened to 64 bits.\<close>

definition instpat_test :: "compiled \<Rightarrow> u64 \<Rightarrow> bool" where
  "instpat_test kms inst = (case kms of (key, msk, shift) \<Rightarrow>
     (drop_bit (unat shift) inst AND msk) = key)"

section \<open>Digits\<close>

text \<open>
  Both compilers shift in one digit of \<open>w\<close> bits per character (\<open>w\<close> is 1 or 4): \<open>None\<close> is a
  wildcard, \<open>Some v\<close> a digit of value \<open>v\<close>. \<open>digits_inv\<close> describes key, mask and shift after the
  digits \<open>ds\<close>.
\<close>

definition digit_step :: "nat \<Rightarrow> u64 option \<Rightarrow> compiled \<Rightarrow> compiled" where
  "digit_step w d kms = (case kms of (k, m, s) \<Rightarrow>
     (push_bit w k OR (case d of None \<Rightarrow> 0 | Some v \<Rightarrow> v),
      push_bit w m OR (case d of None \<Rightarrow> 0 | Some _ \<Rightarrow> mask w),
      (case d of None \<Rightarrow> s + of_nat w | Some _ \<Rightarrow> 0)))"

definition digits_ok :: "nat \<Rightarrow> u64 option list \<Rightarrow> bool" where
  "digits_ok w ds \<longleftrightarrow> 0 < w \<and> w * length ds < 64 \<and> (\<forall>v. Some v \<in> set ds \<longrightarrow> take_bit w v = v)"

definition digits_inv :: "nat \<Rightarrow> u64 option list \<Rightarrow> compiled \<Rightarrow> bool" where
  "digits_inv w ds kms = (case kms of (k, m, s) \<Rightarrow>
     (\<forall>i. bit k i \<longleftrightarrow> i < w * length ds \<and>
        (case rev ds ! (i div w) of None \<Rightarrow> False | Some v \<Rightarrow> bit v (i mod w))) \<and>
     (\<forall>i. bit m i \<longleftrightarrow> i < w * length ds \<and> rev ds ! (i div w) \<noteq> None) \<and>
     unat s = w * length (takeWhile (\<lambda>d. d = None) (rev ds)))"

lemma digits_inv_Nil [simp]: "digits_inv w [] (0, 0, 0)"
  by (simp add: digits_inv_def)

lemma bit_of_small: "take_bit w v = v \<Longrightarrow> bit (v :: u64) i \<Longrightarrow> i < w"
  by (metis bit_take_bit_iff)

lemma digits_inv_step:
  assumes "digits_inv w ds (k, m, s)" and ok: "digits_ok w (ds @ [d])"
  shows "digits_inv w (ds @ [d]) (digit_step w d (k, m, s))"
proof -
  have w: "0 < w" and len: "w + w * length ds < 64"
    and small: "\<And>v. d = Some v \<Longrightarrow> take_bit w v = v"
    using ok by (auto simp: digits_ok_def)
  have k: "\<And>i. bit k i \<longleftrightarrow> i < w * length ds \<and>
        (case rev ds ! (i div w) of None \<Rightarrow> False | Some v \<Rightarrow> bit v (i mod w))"
    and m: "\<And>i. bit m i \<longleftrightarrow> i < w * length ds \<and> rev ds ! (i div w) \<noteq> None"
    and s: "unat s = w * length (takeWhile (\<lambda>d. d = None) (rev ds))"
    using assms(1) by (auto simp: digits_inv_def)
  have step: "(i - w) div w = i div w - 1" "(i - w) mod w = i mod w" "0 < i div w"
    if "w \<le> i" for i
    using that w by (simp_all add: le_div_geq le_mod_geq)
  have low: "i div w = 0" "i mod w = i" if "i < w" for i using that by simp_all
  have K: "bit (push_bit w k OR (case d of None \<Rightarrow> 0 | Some v \<Rightarrow> v)) i \<longleftrightarrow> i < w * Suc (length ds) \<and>
        (case (d # rev ds) ! (i div w) of None \<Rightarrow> False | Some v \<Rightarrow> bit v (i mod w))" for i
  proof (cases "i < w")
    case True
    then show ?thesis by (auto simp: bit_simps low dest: bit_imp_le_length split: option.split)
  next
    case False
    then have "\<not> bit (case d of None \<Rightarrow> 0 | Some v \<Rightarrow> v) i"
      using bit_of_small small by (auto split: option.split)
    then have "bit (push_bit w k OR (case d of None \<Rightarrow> 0 | Some v \<Rightarrow> v)) i \<longleftrightarrow> bit k (i - w)"
      using False len by (auto simp: bit_or_iff bit_push_bit_iff k)
    then show ?thesis using False step [of i] k [of "i - w"]
      by (auto simp: nth_Cons' split: option.splits)
  qed
  have M: "bit (push_bit w m OR (case d of None \<Rightarrow> 0 | Some _ \<Rightarrow> mask w)) i \<longleftrightarrow>
        i < w * Suc (length ds) \<and> (d # rev ds) ! (i div w) \<noteq> None" for i
  proof (cases "i < w")
    case True
    then show ?thesis using len by (auto simp: bit_simps low split: option.split)
  next
    case False
    then have "bit (push_bit w m OR (case d of None \<Rightarrow> 0 | Some _ \<Rightarrow> mask w)) i \<longleftrightarrow> bit m (i - w)"
      using len by (auto simp: bit_or_iff bit_push_bit_iff m bit_mask_iff split: option.split)
    then show ?thesis using False step [of i] m [of "i - w"] by (auto simp: nth_Cons')
  qed
  have tw: "length (takeWhile (\<lambda>d. d = None) (rev ds)) \<le> length ds"
    by (metis length_rev length_takeWhile_le)
  have "w * length (takeWhile (\<lambda>d. d = None) (rev ds)) \<le> w * length ds"
    using tw by simp
  then have "unat s + w < 64" using s len by linarith
  then have S: "unat (s + of_nat w) = unat s + w"
    by (simp add: unat_word_ariths unsigned_of_nat take_bit_nat_eq_self)
  show ?thesis using K M S s
    by (simp add: digits_inv_def digit_step_def split: option.split)
qed

lemma digits_inv_fold:
  "digits_ok w ds \<Longrightarrow> digits_inv w ds (fold (digit_step w) ds (0, 0, 0))"
proof (induction ds rule: rev_induct)
  case Nil
  then show ?case by simp
next
  case (snoc d ds)
  have "digits_ok w ds" using snoc.prems by (auto simp: digits_ok_def)
  then have "digits_inv w ds (fold (digit_step w) ds (0, 0, 0))" by (rule snoc.IH)
  then show ?case
    using digits_inv_step [OF _ snoc.prems] by (cases "fold (digit_step w) ds (0, 0, 0)") auto
qed

text \<open>The comparison a digit string describes: bit \<open>i\<close> belongs to digit \<open>i div w\<close> from the right.\<close>

definition digits_match :: "nat \<Rightarrow> u64 option list \<Rightarrow> u64 \<Rightarrow> bool" where
  "digits_match w ds x \<longleftrightarrow> (\<forall>i < w * length ds.
     case rev ds ! (i div w) of None \<Rightarrow> True | Some v \<Rightarrow> bit x i = bit v (i mod w))"

lemma instpat_test_digits:
  assumes "digits_ok w ds" and "fold (digit_step w) ds (0, 0, 0) = (k, m, s)"
  shows "instpat_test (drop_bit (unat s) k, drop_bit (unat s) m, s) x \<longleftrightarrow> digits_match w ds x"
proof -
  let ?wild = "takeWhile (\<lambda>d. d = None) (rev ds)"
  have "digits_inv w ds (k, m, s)" using digits_inv_fold [OF assms(1)] assms(2) by simp
  then have k: "\<And>i. bit k i \<longleftrightarrow> i < w * length ds \<and>
        (case rev ds ! (i div w) of None \<Rightarrow> False | Some v \<Rightarrow> bit v (i mod w))"
    and m: "\<And>i. bit m i \<longleftrightarrow> i < w * length ds \<and> rev ds ! (i div w) \<noteq> None"
    and s: "unat s = w * length ?wild"
    by (auto simp: digits_inv_def)
  have w: "0 < w" and len: "w * length ds < 64" using assms(1) by (auto simp: digits_ok_def)
  have wild: "rev ds ! (i div w) = None" if "i < unat s" for i
  proof -
    have "i div w < length ?wild" using that s w by (simp add: div_less_iff_less_mult mult.commute)
    then show ?thesis by (metis (mono_tags, lifting) nth_mem set_takeWhileD takeWhile_nth)
  qed
  have "instpat_test (drop_bit (unat s) k, drop_bit (unat s) m, s) x \<longleftrightarrow>
      (\<forall>j. (bit x (j + unat s) \<and> bit m (j + unat s)) = bit k (j + unat s))"
    by (simp add: instpat_test_def word_bit_eq_iff bit_and_iff bit_drop_bit_eq add.commute)
  also have "\<dots> \<longleftrightarrow> (\<forall>i\<ge>unat s. (bit x i \<and> bit m i) = bit k i)"
    by (rule all_shift_iff)
  also have "\<dots> \<longleftrightarrow> digits_match w ds x"
  proof -
    have "(unat s \<le> i \<longrightarrow> (bit x i \<and> bit m i) = bit k i) \<longleftrightarrow> (i < w * length ds \<longrightarrow>
        (case rev ds ! (i div w) of None \<Rightarrow> True | Some v \<Rightarrow> bit x i = bit v (i mod w)))" for i
      using wild [of i] by (cases "rev ds ! (i div w)") (auto simp: k m not_le)
    then show ?thesis unfolding digits_match_def by blast
  qed
  finally show ?thesis .
qed

section \<open>Characters to digits\<close>

definition bin_digit :: "char \<Rightarrow> u64 option" where
  "bin_digit c = (if c = CHR ''?'' then None else Some (if c = CHR ''1'' then 1 else 0))"

definition hex_digit :: "char \<Rightarrow> u64 option" where
  "hex_digit c = (if c = CHR ''?'' then None else Some (hex_value c))"

abbreviation significant :: "string \<Rightarrow> string" where
  "significant str \<equiv> filter (\<lambda>c. c \<noteq> CHR '' '') str"

definition bin_pattern :: "string \<Rightarrow> bool" where
  "bin_pattern str \<longleftrightarrow> length str < 64 \<and> set (significant str) \<subseteq> {CHR ''0'', CHR ''1'', CHR ''?''}"

definition hex_pattern :: "string \<Rightarrow> bool" where
  "hex_pattern str \<longleftrightarrow> length str < 16 \<and> (\<forall>c \<in> set (significant str). is_hex_char c \<or> c = CHR ''?'')"

lemma pattern_char_digit:
  "c \<noteq> CHR '' '' \<Longrightarrow> c \<in> {CHR ''0'', CHR ''1'', CHR ''?''} \<Longrightarrow>
     pattern_char c kms = Inr (digit_step 1 (bin_digit c) kms)"
  by (auto simp: pattern_char_def digit_step_def bin_digit_def mask_eq_exp_minus_1 split: prod.split)

lemma pattern_char_hex_digit:
  "c \<noteq> CHR '' '' \<Longrightarrow> is_hex_char c \<or> c = CHR ''?'' \<Longrightarrow>
     pattern_char_hex c kms = Inr (digit_step 4 (hex_digit c) kms)"
  by (auto simp: pattern_char_hex_def digit_step_def hex_digit_def mask_eq_exp_minus_1 split: prod.split)

lemma rfold_digits:
  assumes "\<And>c kms. c \<in> set (significant str) \<Longrightarrow> f c kms = Inr (g (h c) kms)"
    and "\<And>kms. f (CHR '' '') kms = Inr kms"
  shows "rfold f str kms = Inr (fold g (map h (significant str)) kms)"
  using assms(1)
proof (induction str arbitrary: kms)
  case (Cons c str)
  then show ?case by (cases "c = CHR '' ''") (simp_all add: assms(2))
qed simp

lemma hex_value_small: "is_hex_char c \<Longrightarrow> take_bit 4 (hex_value c) = hex_value c"
proof -
  assume "is_hex_char c"
  then obtain n where n: "n < 16" "hex_value c = of_nat n"
  proof (cases "of_char (CHR ''0'') \<le> (of_char c :: nat) \<and> of_char c \<le> (of_char (CHR ''9'') :: nat)")
    case True
    then show ?thesis
      by (intro that [of "of_char c - of_char (CHR ''0'')"]) (auto simp: hex_value_def)
  next
    case False
    with \<open>is_hex_char c\<close> show ?thesis
      by (intro that [of "of_char c - of_char (CHR ''a'') + 10"])
        (auto simp: hex_value_def is_hex_char_def)
  qed
  then have "unat (hex_value c) < 16" by (simp add: unsigned_of_nat take_bit_nat_eq_self)
  then show ?thesis by (simp add: take_bit_word_self)
qed

lemma bin_digits_ok:
  assumes "bin_pattern str" shows "digits_ok 1 (map bin_digit (significant str))"
proof -
  have "length (significant str) < 64"
    using assms le_less_trans [OF length_filter_le] by (auto simp: bin_pattern_def)
  then show ?thesis by (auto simp: digits_ok_def bin_digit_def split: if_splits)
qed

lemma hex_digits_ok:
  assumes "hex_pattern str" shows "digits_ok 4 (map hex_digit (significant str))"
proof -
  have "length (significant str) < 16"
    using assms le_less_trans [OF length_filter_le] by (auto simp: hex_pattern_def)
  then show ?thesis using assms
    by (auto simp: digits_ok_def hex_pattern_def hex_digit_def hex_value_small split: if_splits)
qed

lemma digits_match_nibbles:
  assumes "\<forall>c \<in> set cs. is_hex_char c \<or> c = CHR ''?''"
  shows "digits_match 4 (map hex_digit cs) x \<longleftrightarrow>
    (\<forall>i < length cs. rev cs ! i = CHR ''?'' \<or> take_bit 4 (drop_bit (4 * i) x) = hex_value (rev cs ! i))"
    (is "?L \<longleftrightarrow> ?R")
proof -
  have nib: "take_bit 4 (drop_bit (4 * i) x) = v \<longleftrightarrow> (\<forall>j<4. bit x (4 * i + j) = bit v j)"
    if "take_bit 4 v = v" for i and v :: u64
    using that bit_of_small [of 4 v]
    by (auto simp: word_bit_eq_iff bit_take_bit_iff bit_drop_bit_eq)
  have small: "take_bit 4 (hex_value (rev cs ! i)) = hex_value (rev cs ! i)"
    if "i < length cs" "rev cs ! i \<noteq> CHR ''?''" for i
    using assms that hex_value_small nth_mem [of i "rev cs"] by auto
  have split: "(\<forall>j < 4 * n. P (j div 4) j) \<longleftrightarrow> (\<forall>i < n. \<forall>j < 4. P i (4 * i + j))" for P and n :: nat
  proof safe
    fix j :: nat assume all: "\<forall>i<n. \<forall>j<4. P i (4 * i + j)" and "j < 4 * n"
    then have "j div 4 < n" "j mod 4 < 4" by auto
    with all have "P (j div 4) (4 * (j div 4) + j mod 4)" by blast
    then show "P (j div 4) j" by simp
  next
    fix i j :: nat assume all: "\<forall>j<4 * n. P (j div 4) j" and "i < n" "j < 4"
    then have "4 * i + j < 4 * n" "(4 * i + j) div 4 = i" by auto
    with all show "P i (4 * i + j)" by metis
  qed
  have "?L \<longleftrightarrow> (\<forall>i < length cs. \<forall>j < 4. rev cs ! i = CHR ''?'' \<or>
      bit x (4 * i + j) = bit (hex_value (rev cs ! i)) j)"
    unfolding digits_match_def length_map
    by (subst split [where P = "\<lambda>i j. case rev (map hex_digit cs) ! i of None \<Rightarrow> True
          | Some v \<Rightarrow> bit x j = bit v (j mod 4)"])
      (auto simp: rev_map hex_digit_def)
  also have "\<dots> \<longleftrightarrow> ?R" using nib small by blast
  finally show ?thesis .
qed

section \<open>Properties\<close>

text \<open>The value of the characters of a pattern, read from the right.\<close>

definition pattern_bit_ok :: "char \<Rightarrow> bool \<Rightarrow> bool" where
  "pattern_bit_ok c b \<longleftrightarrow> c = CHR ''?'' \<or> (b \<longleftrightarrow> c = CHR ''1'')"

lemma pattern_decode_bits:
  assumes "bin_pattern str"
  shows "\<exists>kms. pattern_decode str = Inr kms \<and>
           (\<forall>x. instpat_test kms x \<longleftrightarrow>
              (\<forall>i < length (significant str). pattern_bit_ok (rev (significant str) ! i) (bit x i)))"
proof -
  let ?ds = "map bin_digit (significant str)"
  obtain k m s where kms: "fold (digit_step 1) ?ds (0, 0, 0) = (k, m, s)" by (metis prod_cases3)
  have str: "length str < 64" "set (significant str) \<subseteq> {CHR ''0'', CHR ''1'', CHR ''?''}"
    using assms by (auto simp: bin_pattern_def)
  have "rfold pattern_char str (0, 0, 0) = Inr (fold (digit_step 1) ?ds (0, 0, 0))"
  proof (rule rfold_digits)
    show "pattern_char c kms = Inr (digit_step 1 (bin_digit c) kms)" if "c \<in> set (significant str)" for c kms
      using that str(2) by (intro pattern_char_digit) auto
    show "pattern_char (CHR '' '') kms = Inr kms" for kms by (simp add: pattern_char_def split: prod.split)
  qed
  then have "pattern_decode str = Inr (drop_bit (unat s) k, drop_bit (unat s) m, s)"
    using str(1) kms by (simp add: pattern_decode_def)
  moreover have "digits_match 1 ?ds x \<longleftrightarrow>
      (\<forall>i < length (significant str). pattern_bit_ok (rev (significant str) ! i) (bit x i))" for x
    by (auto simp: digits_match_def pattern_bit_ok_def rev_map bin_digit_def)
  ultimately show ?thesis using instpat_test_digits [OF bin_digits_ok [OF assms] kms] by blast
qed

text \<open>A binary pattern string compiles, and the compiled test (shift, mask, compare) accepts
  exactly the words whose bit \<open>i\<close> agrees with the \<open>i\<close>-th significant character from the right.\<close>

lemma pattern_decode_correct:
  assumes "bin_pattern str"
  shows "\<exists>kms. pattern_decode str = Inr kms \<and>
           (\<forall>x. instpat_test kms x \<longleftrightarrow>
              (\<forall>i < length (significant str). pattern_bit_ok (rev (significant str) ! i) (bit x i)))"
  by (rule pattern_decode_bits [OF assms])

lemma pattern_decode_correct_witness:
  "\<exists>kms. pattern_decode ''01?0 ?'' = Inr kms \<and> instpat_test kms 0b111101 \<noteq> instpat_test kms 0b101001"
proof -
  have "bin_pattern ''01?0 ?''" by (simp add: bin_pattern_def)
  from pattern_decode_correct [OF this] obtain kms where "pattern_decode ''01?0 ?'' = Inr kms"
    and test: "\<forall>x. instpat_test kms x \<longleftrightarrow> (\<forall>i < length (significant ''01?0 ?'').
      pattern_bit_ok (rev (significant ''01?0 ?'') ! i) (bit x i))" by blast
  moreover have "\<not> instpat_test kms 0b111101" unfolding test [rule_format] by code_simp
  moreover have "instpat_test kms 0b101001" unfolding test [rule_format] by code_simp
  ultimately show ?thesis by blast
qed

text \<open>The hexadecimal compiler likewise: the test compares each nibble with its digit and skips
  the wildcards.\<close>

lemma pattern_decode_hex_correct:
  assumes "hex_pattern str"
  shows "\<exists>kms. pattern_decode_hex str = Inr kms \<and>
           (\<forall>x. instpat_test kms x \<longleftrightarrow>
              (\<forall>i < length (significant str). rev (significant str) ! i = CHR ''?'' \<or>
                 take_bit 4 (drop_bit (4 * i) x) = hex_value (rev (significant str) ! i)))"
proof -
  let ?ds = "map hex_digit (significant str)"
  obtain k m s where kms: "fold (digit_step 4) ?ds (0, 0, 0) = (k, m, s)" by (metis prod_cases3)
  have str: "length str < 16" "\<forall>c \<in> set (significant str). is_hex_char c \<or> c = CHR ''?''"
    using assms by (auto simp: hex_pattern_def)
  have "rfold pattern_char_hex str (0, 0, 0) = Inr (fold (digit_step 4) ?ds (0, 0, 0))"
  proof (rule rfold_digits)
    show "pattern_char_hex c kms = Inr (digit_step 4 (hex_digit c) kms)" if "c \<in> set (significant str)" for c kms
      using that str(2) by (intro pattern_char_hex_digit) auto
    show "pattern_char_hex (CHR '' '') kms = Inr kms" for kms by (simp add: pattern_char_hex_def split: prod.split)
  qed
  then have "pattern_decode_hex str = Inr (drop_bit (unat s) k, drop_bit (unat s) m, s)"
    using str(1) kms by (simp add: pattern_decode_hex_def)
  moreover have "digits_match 4 ?ds x \<longleftrightarrow>
      (\<forall>i < length (significant str). rev (significant str) ! i = CHR ''?'' \<or>
         take_bit 4 (drop_bit (4 * i) x) = hex_value (rev (significant str) ! i))" for x
    using str(2) by (rule digits_match_nibbles)
  ultimately show ?thesis using instpat_test_digits [OF hex_digits_ok [OF assms] kms] by blast
qed

lemma pattern_decode_hex_correct_witness:
  "\<exists>kms. pattern_decode_hex ''a?'' = Inr kms \<and> instpat_test kms 0xa7 \<noteq> instpat_test kms 0xb7"
proof -
  have "hex_pattern ''a?''" by (simp add: hex_pattern_def is_hex_char_def)
  from pattern_decode_hex_correct [OF this] obtain kms where "pattern_decode_hex ''a?'' = Inr kms"
    and test: "\<forall>x. instpat_test kms x \<longleftrightarrow> (\<forall>i < length (significant ''a?'').
      rev (significant ''a?'') ! i = CHR ''?'' \<or>
      take_bit 4 (drop_bit (4 * i) x) = hex_value (rev (significant ''a?'') ! i))" by blast
  moreover have "instpat_test kms 0xa7" unfolding test [rule_format] by code_simp
  moreover have "\<not> instpat_test kms 0xb7" unfolding test [rule_format] by code_simp
  ultimately show ?thesis by blast
qed

end
