(* ===== verification/Nemu_Isa.thy ===== *)
theory Nemu_Isa
  imports Nemu_Memory Nemu_Pattern "HOL-Library.Signed_Division"
begin

text \<open>
  The instruction interpreter of the reference emulator: registers and CSRs
  (\<open>simulator/nemu/src/isa/riscv32/include/isa-def.h\<close>, \<open>local-include/reg.h\<close>, \<open>reg.c\<close>), the field
  macros of \<open>include/macro.h\<close>, and \<open>decode_operand\<close>, \<open>csr_read\<close>, \<open>csr_write\<close>, the trap entry and
  return, the instruction table and \<open>decode_exec\<close> of \<open>src/isa/riscv32/inst.c\<close>.
\<close>

section \<open>State\<close>

record CSR =
  mepc :: word_t
  mstatus :: word_t
  mcause :: word_t
  mtvec :: word_t

record CPU_state =
  gpr :: "nat \<Rightarrow> word_t"
  pc :: vaddr_t
  csr :: CSR

text \<open>What the emulator prints: the end of a run (\<open>set_nemu_state\<close>) and invalid opcodes.\<close>

datatype nemu_event = Nemu_end | Invalid_opcode vaddr_t word_t word_t

record machine =
  cpu :: CPU_state
  pmem :: bytes
  g_nr_guest_inst :: u64
  printed :: "nemu_event list"

text \<open>\<open>Decode\<close> of \<open>include/cpu/decode.h\<close>; \<open>s_pc\<close> is its field \<open>pc\<close>.\<close>

record Decode =
  s_pc :: vaddr_t
  snpc :: vaddr_t
  dnpc :: vaddr_t
  inst_val :: u32

section \<open>Field macros\<close>

text \<open>\<open>BITMASK\<close> is an \<open>unsigned long long\<close>, so \<open>BITS\<close> and \<open>SEXT\<close> compute with 64 bits.\<close>

definition BITMASK :: "nat \<Rightarrow> u64" where
  "BITMASK bits = push_bit bits 1 - 1"

definition BITS :: "u32 \<Rightarrow> nat \<Rightarrow> nat \<Rightarrow> u64" where
  "BITS x hi lo = ucast (drop_bit lo x) AND BITMASK (hi - lo + 1)"

definition SEXT :: "u64 \<Rightarrow> nat \<Rightarrow> u64" where
  "SEXT x len = signed_take_bit (len - 1) x"

section \<open>Registers\<close>

definition check_reg_idx :: "nat \<Rightarrow> nat res" where
  "check_reg_idx idx = rbind (rassert Assertion (idx < 32)) (\<lambda>_. Inr idx)"

definition get_R :: "nat \<Rightarrow> CPU_state \<Rightarrow> word_t res" where
  "get_R i c = rbind (check_reg_idx i) (\<lambda>i. Inr (gpr c i))"

definition set_R :: "nat \<Rightarrow> word_t \<Rightarrow> CPU_state \<Rightarrow> CPU_state res" where
  "set_R i v c = rbind (check_reg_idx i) (\<lambda>i. Inr (c\<lparr>gpr := (gpr c)(i := v)\<rparr>))"

definition regs :: "string list" where
  "regs = [''$0'', ''ra'', ''sp'', ''gp'', ''tp'', ''t0'', ''t1'', ''t2'',
           ''s0'', ''s1'', ''a0'', ''a1'', ''a2'', ''a3'', ''a4'', ''a5'',
           ''a6'', ''a7'', ''s2'', ''s3'', ''s4'', ''s5'', ''s6'', ''s7'',
           ''s8'', ''s9'', ''s10'', ''s11'', ''t3'', ''t4'', ''t5'', ''t6'']"

text \<open>The search loop of \<open>isa_reg_str2val\<close>, from index \<open>i\<close>; \<open>None\<close> is \<open>*success = false\<close>.\<close>

fun find_reg :: "string \<Rightarrow> string list \<Rightarrow> nat \<Rightarrow> nat option" where
  "find_reg s [] i = None"
| "find_reg s (r # rs) i = (if s = r then Some i else find_reg s rs (Suc i))"

definition isa_reg_str2val :: "string \<Rightarrow> CPU_state \<Rightarrow> word_t option" where
  "isa_reg_str2val s c =
     (if s = ''pc'' then Some (pc c)
      else case find_reg s regs 0 of Some i \<Rightarrow> Some (gpr c i) | None \<Rightarrow> None)"

section \<open>Operands\<close>

datatype inst_type = TYPE_I | TYPE_U | TYPE_S | TYPE_J | TYPE_B | TYPE_R | TYPE_RI | TYPE_N

record operands =
  rd :: nat
  src1 :: word_t
  src2 :: word_t
  imm :: word_t

definition immI :: "u32 \<Rightarrow> word_t" where
  "immI i = ucast (SEXT (BITS i 31 20) 12)"

definition immU :: "u32 \<Rightarrow> word_t" where
  "immU i = ucast (push_bit 12 (SEXT (BITS i 31 12) 20))"

definition immS :: "u32 \<Rightarrow> word_t" where
  "immS i = ucast (push_bit 5 (SEXT (BITS i 31 25) 7) OR BITS i 11 7)"

definition immJ :: "u32 \<Rightarrow> word_t" where
  "immJ i = ucast (push_bit 20 (SEXT (BITS i 31 31) 1) OR push_bit 12 (BITS i 19 12) OR
                   push_bit 11 (BITS i 20 20) OR push_bit 1 (BITS i 30 21))"

definition immB :: "u32 \<Rightarrow> word_t" where
  "immB i = ucast (push_bit 12 (SEXT (BITS i 31 31) 1) OR push_bit 11 (BITS i 7 7) OR
                   push_bit 5 (BITS i 30 25) OR push_bit 1 (BITS i 11 8))"

definition immRI :: "u32 \<Rightarrow> word_t" where
  "immRI i = ucast (BITS i 24 20)"

definition decode_operand :: "CPU_state \<Rightarrow> u32 \<Rightarrow> inst_type \<Rightarrow> operands \<Rightarrow> operands res" where
  "decode_operand c i ty ops =
     (let rs1 = unat (BITS i 19 15); rs2 = unat (BITS i 24 20);
          ops = ops\<lparr>rd := unat (BITS i 11 7)\<rparr>;
          src1R = (\<lambda>p. rbind (get_R rs1 c) (\<lambda>v. Inr (p\<lparr>src1 := v\<rparr>)));
          src2R = (\<lambda>p. rbind (get_R rs2 c) (\<lambda>v. Inr (p\<lparr>src2 := v\<rparr>)))
      in case ty of
        TYPE_I \<Rightarrow> rbind (src1R ops) (\<lambda>p. Inr (p\<lparr>imm := immI i\<rparr>))
      | TYPE_U \<Rightarrow> Inr (ops\<lparr>imm := immU i\<rparr>)
      | TYPE_S \<Rightarrow> rbind (rbind (src1R ops) src2R) (\<lambda>p. Inr (p\<lparr>imm := immS i\<rparr>))
      | TYPE_J \<Rightarrow> Inr (ops\<lparr>imm := immJ i\<rparr>)
      | TYPE_B \<Rightarrow> rbind (rbind (src1R ops) src2R) (\<lambda>p. Inr (p\<lparr>imm := immB i\<rparr>))
      | TYPE_R \<Rightarrow> rbind (src1R ops) src2R
      | TYPE_RI \<Rightarrow> rbind (src1R ops) (\<lambda>p. Inr (p\<lparr>imm := immRI i\<rparr>))
      | TYPE_N \<Rightarrow> Inr ops)"

definition mmsextb :: "word_t \<Rightarrow> word_t" where
  "mmsextb i = ucast (SEXT (BITS i 7 0) 8)"

definition mmsexth :: "word_t \<Rightarrow> word_t" where
  "mmsexth i = ucast (SEXT (BITS i 15 0) 16)"

section \<open>CSRs, trap entry and return\<close>

definition csr_read :: "word_t \<Rightarrow> CPU_state \<Rightarrow> word_t res" where
  "csr_read index c =
     (if index = 0x300 then Inr (mstatus (csr c))
      else if index = 0x305 then Inr (mtvec (csr c))
      else if index = 0x341 then Inr (mepc (csr c))
      else if index = 0x342 then Inr (mcause (csr c))
      else Inl Assertion)"

definition csr_write :: "word_t \<Rightarrow> word_t \<Rightarrow> CPU_state \<Rightarrow> CPU_state res" where
  "csr_write index wdata c =
     (if index = 0x300 then Inr (c\<lparr>csr := (csr c)\<lparr>mstatus := wdata\<rparr>\<rparr>)
      else if index = 0x305 then Inr (c\<lparr>csr := (csr c)\<lparr>mtvec := wdata\<rparr>\<rparr>)
      else if index = 0x341 then Inr (c\<lparr>csr := (csr c)\<lparr>mepc := wdata\<rparr>\<rparr>)
      else if index = 0x342 then Inr (c\<lparr>csr := (csr c)\<lparr>mcause := wdata\<rparr>\<rparr>)
      else Inl Assertion)"

definition isa_raise_intr :: "word_t \<Rightarrow> word_t \<Rightarrow> CPU_state \<Rightarrow> word_t \<times> CPU_state" where
  "isa_raise_intr NO epc c =
     (let c = c\<lparr>csr := (csr c)\<lparr>mepc := epc, mcause := NO\<rparr>\<rparr> in (mtvec (csr c), c))"

definition push_prv :: "word_t \<Rightarrow> word_t" where
  "push_prv ms = (let tem = push_bit 3 (ms AND 0x1ff) OR 0x6 in (ms AND NOT 0xfff) OR tem)"

definition pop_prv :: "word_t \<Rightarrow> word_t" where
  "pop_prv ms =
     (let tem = drop_bit 3 (ms AND push_bit 3 0x1ff) OR push_bit 9 1 in (ms AND NOT 0xfff) OR tem)"

section \<open>Instruction fetch and host calls\<close>

text \<open>\<open>inst_fetch\<close> of \<open>include/cpu/ifetch.h\<close>: the word at \<open>pc\<close> and the advanced \<open>pc\<close>.\<close>

definition inst_fetch :: "bytes \<Rightarrow> vaddr_t \<Rightarrow> nat \<Rightarrow> (u32 \<times> vaddr_t) res" where
  "inst_fetch m here len = rbind (paddr_read m here len) (\<lambda>inst. Inr (inst, here + of_nat len))"

text \<open>\<open>src/engine/interpreter/hostcall.c\<close>: neither changes the machine, they only print.\<close>

definition set_nemu_state :: "machine \<Rightarrow> machine" where
  "set_nemu_state m = m\<lparr>printed := printed m @ [Nemu_end]\<rparr>"

definition invalid_inst :: "vaddr_t \<Rightarrow> machine \<Rightarrow> machine res" where
  "invalid_inst thispc m =
     rbind (inst_fetch (pmem m) thispc 4) (\<lambda>(t0, next).
     rbind (inst_fetch (pmem m) next 4) (\<lambda>(t1, _).
       Inr (m\<lparr>printed := printed m @ [Invalid_opcode thispc t0 t1]\<rparr>)))"

end
