(* ===== verification/Nemu_Exec.thy ===== *)
theory Nemu_Exec
  imports Nemu_Isa
begin

text \<open>
  \<open>decode_exec\<close> and \<open>isa_exec_once\<close> of \<open>simulator/nemu/src/isa/riscv32/inst.c\<close>: the table of
  patterns in source order, the search for the first match, and the body of every entry.
\<close>

section \<open>The instruction table\<close>

text \<open>The names of the table, grouped by the shape of their bodies.\<close>

datatype alu_op =
    I_lui | I_auipc | I_addi | I_slti | I_sltiu | I_xori | I_ori | I_andi | I_slli | I_srli | I_srai
  | I_add | I_sub | I_sll | I_slt | I_sltu | I_xor | I_srl | I_sra | I_or | I_and

datatype muldiv_op = I_mul | I_mulh | I_mulhsu | I_mulhu | I_div | I_divu | I_rem | I_remu

datatype branch_op = I_beq | I_bne | I_blt | I_bge | I_bltu | I_bgeu

datatype load_op = I_lb | I_lh | I_lw | I_lbu | I_lhu

datatype store_op = I_sb | I_sh | I_sw

datatype csr_op = I_csrrw | I_csrrs | I_csrrc | I_csrrwi | I_csrrsi | I_csrrci

datatype inst_name =
    Alu alu_op | Muldiv muldiv_op | Branch branch_op | Load load_op | Store store_op | Csr csr_op
  | I_jal | I_jalr | I_fence_i | I_fence | I_ecall | I_mret | I_ebreak | I_inv

type_synonym instpat = "string \<times> inst_name \<times> inst_type"

definition instpats :: "instpat list" where
  "instpats = [
    (''??????? ????? ????? ??? ????? 01101 11'', Alu I_lui, TYPE_U),
    (''??????? ????? ????? ??? ????? 00101 11'', Alu I_auipc, TYPE_U),
    (''??????? ????? ????? ??? ????? 11011 11'', I_jal, TYPE_J),
    (''??????? ????? ????? 000 ????? 11001 11'', I_jalr, TYPE_I),
    (''??????? ????? ????? 000 ????? 11000 11'', Branch I_beq, TYPE_B),
    (''??????? ????? ????? 001 ????? 11000 11'', Branch I_bne, TYPE_B),
    (''??????? ????? ????? 100 ????? 11000 11'', Branch I_blt, TYPE_B),
    (''??????? ????? ????? 101 ????? 11000 11'', Branch I_bge, TYPE_B),
    (''??????? ????? ????? 110 ????? 11000 11'', Branch I_bltu, TYPE_B),
    (''??????? ????? ????? 111 ????? 11000 11'', Branch I_bgeu, TYPE_B),
    (''??????? ????? ????? 000 ????? 00000 11'', Load I_lb, TYPE_I),
    (''??????? ????? ????? 001 ????? 00000 11'', Load I_lh, TYPE_I),
    (''??????? ????? ????? 010 ????? 00000 11'', Load I_lw, TYPE_I),
    (''??????? ????? ????? 100 ????? 00000 11'', Load I_lbu, TYPE_I),
    (''??????? ????? ????? 101 ????? 00000 11'', Load I_lhu, TYPE_I),
    (''??????? ????? ????? 000 ????? 01000 11'', Store I_sb, TYPE_S),
    (''??????? ????? ????? 001 ????? 01000 11'', Store I_sh, TYPE_S),
    (''??????? ????? ????? 010 ????? 01000 11'', Store I_sw, TYPE_S),
    (''??????? ????? ????? 000 ????? 00100 11'', Alu I_addi, TYPE_I),
    (''??????? ????? ????? 010 ????? 00100 11'', Alu I_slti, TYPE_I),
    (''??????? ????? ????? 011 ????? 00100 11'', Alu I_sltiu, TYPE_I),
    (''??????? ????? ????? 100 ????? 00100 11'', Alu I_xori, TYPE_I),
    (''??????? ????? ????? 110 ????? 00100 11'', Alu I_ori, TYPE_I),
    (''??????? ????? ????? 111 ????? 00100 11'', Alu I_andi, TYPE_I),
    (''000000? ????? ????? 001 ????? 00100 11'', Alu I_slli, TYPE_RI),
    (''000000? ????? ????? 101 ????? 00100 11'', Alu I_srli, TYPE_RI),
    (''010000? ????? ????? 101 ????? 00100 11'', Alu I_srai, TYPE_RI),
    (''0000000 ????? ????? 000 ????? 01100 11'', Alu I_add, TYPE_R),
    (''0100000 ????? ????? 000 ????? 01100 11'', Alu I_sub, TYPE_R),
    (''0000000 ????? ????? 001 ????? 01100 11'', Alu I_sll, TYPE_R),
    (''0000000 ????? ????? 010 ????? 01100 11'', Alu I_slt, TYPE_R),
    (''0000000 ????? ????? 011 ????? 01100 11'', Alu I_sltu, TYPE_R),
    (''0000000 ????? ????? 100 ????? 01100 11'', Alu I_xor, TYPE_R),
    (''0000000 ????? ????? 101 ????? 01100 11'', Alu I_srl, TYPE_R),
    (''0100000 ????? ????? 101 ????? 01100 11'', Alu I_sra, TYPE_R),
    (''0000000 ????? ????? 110 ????? 01100 11'', Alu I_or, TYPE_R),
    (''0000000 ????? ????? 111 ????? 01100 11'', Alu I_and, TYPE_R),
    (''0000001 ????? ????? 000 ????? 01100 11'', Muldiv I_mul, TYPE_R),
    (''0000001 ????? ????? 001 ????? 01100 11'', Muldiv I_mulh, TYPE_R),
    (''0000001 ????? ????? 010 ????? 01100 11'', Muldiv I_mulhsu, TYPE_R),
    (''0000001 ????? ????? 011 ????? 01100 11'', Muldiv I_mulhu, TYPE_R),
    (''0000001 ????? ????? 100 ????? 01100 11'', Muldiv I_div, TYPE_R),
    (''0000001 ????? ????? 101 ????? 01100 11'', Muldiv I_divu, TYPE_R),
    (''0000001 ????? ????? 110 ????? 01100 11'', Muldiv I_rem, TYPE_R),
    (''0000001 ????? ????? 111 ????? 01100 11'', Muldiv I_remu, TYPE_R),
    (''??????? ????? ????? 001 ????? 11100 11'', Csr I_csrrw, TYPE_I),
    (''??????? ????? ????? 010 ????? 11100 11'', Csr I_csrrs, TYPE_I),
    (''??????? ????? ????? 011 ????? 11100 11'', Csr I_csrrc, TYPE_I),
    (''??????? ????? ????? 101 ????? 11100 11'', Csr I_csrrwi, TYPE_I),
    (''??????? ????? ????? 110 ????? 11100 11'', Csr I_csrrsi, TYPE_I),
    (''??????? ????? ????? 111 ????? 11100 11'', Csr I_csrrci, TYPE_I),
    (''0000000 00000 00000 001 00000 00011 11'', I_fence_i, TYPE_N),
    (''0000??? ????? 00000 000 00000 00011 11'', I_fence, TYPE_N),
    (''0000000 00000 00000 000 00000 11100 11'', I_ecall, TYPE_N),
    (''0011000 00010 00000 000 00000 11100 11'', I_mret, TYPE_N),
    (''0000000 00001 00000 000 00000 11100 11'', I_ebreak, TYPE_N),
    (''??????? ????? ????? ??? ????? ????? ??'', I_inv, TYPE_N)]"

text \<open>Each \<open>INSTPAT\<close> compiles its string, tests, and jumps to the end after its body.\<close>

fun instpat_search :: "instpat list \<Rightarrow> u32 \<Rightarrow> (inst_name \<times> inst_type) option res" where
  "instpat_search [] inst = Inr None"
| "instpat_search ((str, name, ty) # ps) inst =
     rbind (pattern_decode str) (\<lambda>kms.
       if instpat_test kms (ucast inst) then Inr (Some (name, ty)) else instpat_search ps inst)"

section \<open>The bodies\<close>

definition Mr :: "machine \<Rightarrow> word_t \<Rightarrow> nat \<Rightarrow> word_t res" where
  "Mr m addr len = paddr_read (pmem m) addr len"

definition Mw :: "word_t \<Rightarrow> nat \<Rightarrow> word_t \<Rightarrow> machine \<Rightarrow> machine res" where
  "Mw addr len data m = rbind (paddr_write (pmem m) addr len data) (\<lambda>p. Inr (m\<lparr>pmem := p\<rparr>))"

text \<open>\<open>R(i) = v\<close>, \<open>csr_read\<close> and \<open>csr_write\<close> on the machine.\<close>

definition put_R :: "nat \<Rightarrow> word_t \<Rightarrow> machine \<Rightarrow> machine res" where
  "put_R i v m = rbind (set_R i v (cpu m)) (\<lambda>c. Inr (m\<lparr>cpu := c\<rparr>))"

definition put_csr :: "word_t \<Rightarrow> word_t \<Rightarrow> machine \<Rightarrow> machine res" where
  "put_csr index v m = rbind (csr_write index v (cpu m)) (\<lambda>c. Inr (m\<lparr>cpu := c\<rparr>))"

text \<open>The pure results: what the table writes to \<open>R(rd)\<close>, from the operands and the pc.\<close>

definition flag :: "bool \<Rightarrow> word_t" where
  "flag b = (if b then 1 else 0)"

definition alu_value :: "alu_op \<Rightarrow> operands \<Rightarrow> vaddr_t \<Rightarrow> word_t" where
  "alu_value op p here =
     (case op of
        I_lui \<Rightarrow> imm p
      | I_auipc \<Rightarrow> here + imm p
      | I_addi \<Rightarrow> src1 p + imm p
      | I_slti \<Rightarrow> flag (sint (src1 p) < sint (imm p))
      | I_sltiu \<Rightarrow> flag (src1 p < imm p)
      | I_xori \<Rightarrow> src1 p XOR imm p
      | I_ori \<Rightarrow> src1 p OR imm p
      | I_andi \<Rightarrow> src1 p AND imm p
      | I_slli \<Rightarrow> push_bit (unat (imm p)) (src1 p)
      | I_srli \<Rightarrow> drop_bit (unat (imm p)) (src1 p)
      | I_srai \<Rightarrow> signed_drop_bit (unat (imm p)) (src1 p)
      | I_add \<Rightarrow> src1 p + src2 p
      | I_sub \<Rightarrow> src1 p - src2 p
      | I_sll \<Rightarrow> push_bit (unat (BITS (src2 p) 4 0)) (src1 p)
      | I_slt \<Rightarrow> flag (sint (src1 p) < sint (src2 p))
      | I_sltu \<Rightarrow> flag (src1 p < src2 p)
      | I_xor \<Rightarrow> src1 p XOR src2 p
      | I_srl \<Rightarrow> drop_bit (unat (BITS (src2 p) 4 0)) (src1 p)
      | I_sra \<Rightarrow> signed_drop_bit (unat (BITS (src2 p) 4 0)) (src1 p)
      | I_or \<Rightarrow> src1 p OR src2 p
      | I_and \<Rightarrow> src1 p AND src2 p)"

text \<open>
  Products and quotients. The C products of 32-bit signed operands are taken modulo \<open>2 ^ 32\<close>,
  what the compiled code computes; \<open>/\<close> and \<open>%\<close> on \<open>sword_t\<close> truncate.
\<close>

definition muldiv_value :: "muldiv_op \<Rightarrow> operands \<Rightarrow> word_t" where
  "muldiv_value op p =
     (case op of
        I_mul \<Rightarrow> src1 p * src2 p
      | I_mulh \<Rightarrow> ucast (signed_drop_bit 32 (scast (src1 p) * scast (src2 p) :: u64))
      | I_mulhsu \<Rightarrow> ucast (drop_bit 32 (scast (src1 p) * ucast (src2 p) :: u64))
      | I_mulhu \<Rightarrow> ucast (drop_bit 32 (ucast (src1 p) * ucast (src2 p) :: u64))
      | I_div \<Rightarrow> (if src1 p = 0x80000000 \<and> src2 p = 0xffffffff then 0x80000000
                else if sint (src2 p) \<noteq> 0 then word_of_int (sint (src1 p) sdiv sint (src2 p)) else - 1)
      | I_divu \<Rightarrow> (if src2 p \<noteq> 0 then src1 p div src2 p else - 1)
      | I_rem \<Rightarrow> (if src1 p = 0x80000000 \<and> src2 p = 0xffffffff then 0
                else if sint (src2 p) \<noteq> 0 then word_of_int (sint (src1 p) smod sint (src2 p)) else src1 p)
      | I_remu \<Rightarrow> (if src2 p \<noteq> 0 then src1 p mod src2 p else src1 p))"

text \<open>The branch conditions.\<close>

definition branch_taken :: "branch_op \<Rightarrow> operands \<Rightarrow> bool" where
  "branch_taken op p =
     (case op of
        I_beq \<Rightarrow> src1 p = src2 p
      | I_bne \<Rightarrow> src1 p \<noteq> src2 p
      | I_blt \<Rightarrow> sint (src1 p) < sint (src2 p)
      | I_bge \<Rightarrow> sint (src1 p) \<ge> sint (src2 p)
      | I_bltu \<Rightarrow> src1 p < src2 p
      | I_bgeu \<Rightarrow> src1 p \<ge> src2 p)"

text \<open>Loads: the value read, extended to a word.\<close>

definition load_value :: "load_op \<Rightarrow> operands \<Rightarrow> machine \<Rightarrow> word_t res" where
  "load_value op p m =
     (case op of
        I_lb \<Rightarrow> rbind (Mr m (src1 p + imm p) 1) (\<lambda>v. Inr (mmsextb v))
      | I_lh \<Rightarrow> rbind (Mr m (src1 p + imm p) 2) (\<lambda>v. Inr (mmsexth v))
      | I_lw \<Rightarrow> Mr m (src1 p + imm p) 4
      | I_lbu \<Rightarrow> Mr m (src1 p + imm p) 1
      | I_lhu \<Rightarrow> Mr m (src1 p + imm p) 2)"

definition exec_store :: "store_op \<Rightarrow> operands \<Rightarrow> machine \<Rightarrow> machine res" where
  "exec_store op p m =
     (case op of
        I_sb \<Rightarrow> Mw (src1 p + imm p) 1 (src2 p) m
      | I_sh \<Rightarrow> Mw (src1 p + imm p) 2 (src2 p) m
      | I_sw \<Rightarrow> Mw (src1 p + imm p) 4 (src2 p) m)"

text \<open>
  The CSR instructions, statement by statement: the read goes to \<open>R(rd)\<close> first and the set and
  clear forms then read \<open>R(rd)\<close> back. \<open>zimm\<close> is the five-bit immediate, a 64-bit \<open>BITS\<close> value.
\<close>

definition zimm :: "u32 \<Rightarrow> u64" where
  "zimm i = BITS i 19 15"

definition read_csr_to_R :: "operands \<Rightarrow> machine \<Rightarrow> machine res" where
  "read_csr_to_R p m = rbind (csr_read (imm p) (cpu m)) (\<lambda>old. put_R (rd p) old m)"

definition exec_csr :: "csr_op \<Rightarrow> operands \<Rightarrow> u32 \<Rightarrow> machine \<Rightarrow> machine res" where
  "exec_csr op p i m =
     (case op of
        I_csrrw \<Rightarrow>
          rbind (if rd p \<noteq> 0 then read_csr_to_R p m else Inr m) (\<lambda>m. put_csr (imm p) (src1 p) m)
      | I_csrrs \<Rightarrow>
          rbind (read_csr_to_R p m) (\<lambda>m.
          rbind (get_R (rd p) (cpu m)) (\<lambda>r. put_csr (imm p) (src1 p OR r) m))
      | I_csrrc \<Rightarrow>
          rbind (read_csr_to_R p m) (\<lambda>m.
          rbind (get_R (rd p) (cpu m)) (\<lambda>r. put_csr (imm p) (NOT (src1 p) AND r) m))
      | I_csrrwi \<Rightarrow>
          rbind (read_csr_to_R p m) (\<lambda>m. put_csr (imm p) (ucast (zimm i)) m)
      | I_csrrsi \<Rightarrow>
          rbind (read_csr_to_R p m) (\<lambda>m.
          rbind (get_R (rd p) (cpu m)) (\<lambda>r. put_csr (imm p) (ucast (zimm i OR ucast r)) m))
      | I_csrrci \<Rightarrow>
          rbind (read_csr_to_R p m) (\<lambda>m.
          rbind (get_R (rd p) (cpu m)) (\<lambda>r. put_csr (imm p) (ucast (NOT (zimm i) AND ucast r)) m)))"

definition exec_ecall :: "Decode \<Rightarrow> machine \<Rightarrow> machine \<times> Decode" where
  "exec_ecall s m =
     (case isa_raise_intr 11 (s_pc s) (cpu m) of (vec, c) \<Rightarrow>
        let c = c\<lparr>csr := (csr c)\<lparr>mstatus := push_prv (mstatus (csr c))\<rparr>\<rparr>
        in (m\<lparr>cpu := c\<rparr>, s\<lparr>dnpc := vec\<rparr>))"

definition exec_mret :: "Decode \<Rightarrow> machine \<Rightarrow> machine \<times> Decode" where
  "exec_mret s m =
     (let s = s\<lparr>dnpc := mepc (csr (cpu m))\<rparr>;
          c = (cpu m)\<lparr>csr := (csr (cpu m))\<lparr>mstatus := pop_prv (mstatus (csr (cpu m)))\<rparr>\<rparr>
      in (m\<lparr>cpu := c\<rparr>, s))"

definition exec_body :: "inst_name \<Rightarrow> operands \<Rightarrow> Decode \<Rightarrow> machine \<Rightarrow> (machine \<times> Decode) res" where
  "exec_body name p s m =
     (case name of
        Alu op \<Rightarrow> rbind (put_R (rd p) (alu_value op p (s_pc s)) m) (\<lambda>m. Inr (m, s))
      | Muldiv op \<Rightarrow> rbind (put_R (rd p) (muldiv_value op p) m) (\<lambda>m. Inr (m, s))
      | I_jal \<Rightarrow>
          (let s = s\<lparr>dnpc := s_pc s + imm p\<rparr> in rbind (put_R (rd p) (s_pc s + 4) m) (\<lambda>m. Inr (m, s)))
      | I_jalr \<Rightarrow>
          (let s = s\<lparr>dnpc := src1 p + imm p\<rparr> in rbind (put_R (rd p) (s_pc s + 4) m) (\<lambda>m. Inr (m, s)))
      | Branch op \<Rightarrow> Inr (m, if branch_taken op p then s\<lparr>dnpc := s_pc s + imm p\<rparr> else s)
      | Load op \<Rightarrow> rbind (load_value op p m) (\<lambda>v. rbind (put_R (rd p) v m) (\<lambda>m. Inr (m, s)))
      | Store op \<Rightarrow> rbind (exec_store op p m) (\<lambda>m. Inr (m, s))
      | Csr op \<Rightarrow> rbind (exec_csr op p (inst_val s) m) (\<lambda>m. Inr (m, s))
      | I_fence_i \<Rightarrow> Inr (m, s)
      | I_fence \<Rightarrow> Inr (m, s)
      | I_ecall \<Rightarrow> Inr (exec_ecall s m)
      | I_mret \<Rightarrow> Inr (exec_mret s m)
      | I_ebreak \<Rightarrow> rbind (get_R 10 (cpu m)) (\<lambda>_. Inr (set_nemu_state m, s))
      | I_inv \<Rightarrow> rbind (invalid_inst (s_pc s) m) (\<lambda>m. Inr (m, s)))"

section \<open>One instruction\<close>

definition no_operands :: operands where
  "no_operands = \<lparr>rd = 0, src1 = 0, src2 = 0, imm = 0\<rparr>"

definition decode_exec :: "machine \<Rightarrow> Decode \<Rightarrow> (machine \<times> Decode) res" where
  "decode_exec m s =
     (let s = s\<lparr>dnpc := snpc s\<rparr> in
      rbind (instpat_search instpats (inst_val s)) (\<lambda>hit.
      rbind (case hit of
               None \<Rightarrow> Inr (m, s)
             | Some (name, ty) \<Rightarrow>
                 rbind (decode_operand (cpu m) (inst_val s) ty no_operands) (\<lambda>p. exec_body name p s m))
        (\<lambda>(m, s). rbind (put_R 0 0 m) (\<lambda>m. Inr (m, s)))))"

definition isa_exec_once :: "machine \<Rightarrow> Decode \<Rightarrow> (machine \<times> Decode) res" where
  "isa_exec_once m s =
     rbind (inst_fetch (pmem m) (snpc s) 4) (\<lambda>(inst, snpc').
       decode_exec m (s\<lparr>inst_val := inst, snpc := snpc'\<rparr>))"

end
