(* ===== verification/Nemu_Decode.thy ===== *)
theory Nemu_Decode
  imports Nemu_Exec
begin

text \<open>
  The instruction table against the field layout of the RISC-V manual: \<open>rv_decode\<close> is the decoder
  by opcode, funct3 and funct7, and the search over \<open>instpats\<close> computes it for every word; the
  operand fields and immediates of \<open>decode_operand\<close> are inverses of the manual's encodings.
\<close>

section \<open>Fields of an instruction word\<close>

definition opcode :: "u32 \<Rightarrow> u32" where "opcode i = take_bit 7 i"
definition rd_field :: "u32 \<Rightarrow> u32" where "rd_field i = take_bit 5 (drop_bit 7 i)"
definition funct3 :: "u32 \<Rightarrow> u32" where "funct3 i = take_bit 3 (drop_bit 12 i)"
definition rs1_field :: "u32 \<Rightarrow> u32" where "rs1_field i = take_bit 5 (drop_bit 15 i)"
definition rs2_field :: "u32 \<Rightarrow> u32" where "rs2_field i = take_bit 5 (drop_bit 20 i)"
definition funct7 :: "u32 \<Rightarrow> u32" where "funct7 i = take_bit 7 (drop_bit 25 i)"

lemmas field_defs = opcode_def rd_field_def funct3_def rs1_field_def rs2_field_def funct7_def

lemma field_eq_iff:
  assumes "take_bit n v = v"
  shows "take_bit n (drop_bit k i) = v \<longleftrightarrow> (\<forall>j<n. bit (i :: u32) (k + j) = bit v j)"
proof -
  have "bit v j \<Longrightarrow> j < n" for j using assms by (metis bit_take_bit_iff)
  then show ?thesis by (auto simp: word_bit_eq_iff bit_take_bit_iff bit_drop_bit_eq)
qed

section \<open>Searching the table by fields\<close>

text \<open>The specification of one pattern, on the instruction word itself.\<close>

fun chars_match :: "string \<Rightarrow> nat \<Rightarrow> u32 \<Rightarrow> bool" where
  "chars_match [] k i \<longleftrightarrow> True"
| "chars_match (c # cs) k i \<longleftrightarrow> pattern_bit_ok c (bit i k) \<and> chars_match cs (k + 1) i"

definition pattern_match :: "string \<Rightarrow> u32 \<Rightarrow> bool" where
  "pattern_match str i \<longleftrightarrow> chars_match (rev (significant str)) 0 i"

lemma chars_match_iff:
  "chars_match cs k i \<longleftrightarrow> (\<forall>j < length cs. pattern_bit_ok (cs ! j) (bit i (k + j)))"
proof (induction cs arbitrary: k)
  case (Cons c cs)
  then show ?case by (auto simp: less_Suc_eq_0_disj)
qed simp

lemma instpat_search_eq:
  assumes "\<forall>(str, _) \<in> set ps. bin_pattern str \<and> length (significant str) \<le> 32"
  shows "instpat_search ps i =
           Inr (map_option snd (find (\<lambda>(str, _). pattern_match str i) ps))"
  using assms
proof (induction ps)
  case (Cons p ps)
  obtain str name ty where p: "p = (str, name, ty)" by (cases p)
  from Cons.prems p obtain kms where kms: "pattern_decode str = Inr kms"
    and test: "\<And>x. instpat_test kms x \<longleftrightarrow>
      (\<forall>j < length (significant str). pattern_bit_ok (rev (significant str) ! j) (bit x j))"
    using pattern_decode_bits [of str] by auto
  have "bit (ucast i :: u64) j = bit i j" if "j < 32" for j
    using that by (simp add: bit_ucast_iff)
  then have "instpat_test kms (ucast i) \<longleftrightarrow> pattern_match str i"
    using Cons.prems p by (simp add: test pattern_match_def chars_match_iff)
  then show ?case using Cons p kms by auto
qed simp

lemma take0: "take_bit n v = v \<Longrightarrow> take_bit n (i::u32) = v \<longleftrightarrow> (\<forall>j<n. bit (i :: u32) (j) = bit v j)"
  using field_eq_iff [of n v 0 i] by simp

text \<open>Every entry of the table, as equations between fields.\<close>

lemma pattern_fields:
  "pattern_match ''??????? ????? ????? ??? ????? 01101 11'' i \<longleftrightarrow> opcode i = 0x37"
  "pattern_match ''??????? ????? ????? ??? ????? 00101 11'' i \<longleftrightarrow> opcode i = 0x17"
  "pattern_match ''??????? ????? ????? ??? ????? 11011 11'' i \<longleftrightarrow> opcode i = 0x6f"
  "pattern_match ''??????? ????? ????? 000 ????? 11001 11'' i \<longleftrightarrow> opcode i = 0x67 \<and> funct3 i = 0"
  "pattern_match ''??????? ????? ????? 000 ????? 11000 11'' i \<longleftrightarrow> opcode i = 0x63 \<and> funct3 i = 0"
  "pattern_match ''??????? ????? ????? 001 ????? 11000 11'' i \<longleftrightarrow> opcode i = 0x63 \<and> funct3 i = 1"
  "pattern_match ''??????? ????? ????? 100 ????? 11000 11'' i \<longleftrightarrow> opcode i = 0x63 \<and> funct3 i = 4"
  "pattern_match ''??????? ????? ????? 101 ????? 11000 11'' i \<longleftrightarrow> opcode i = 0x63 \<and> funct3 i = 5"
  "pattern_match ''??????? ????? ????? 110 ????? 11000 11'' i \<longleftrightarrow> opcode i = 0x63 \<and> funct3 i = 6"
  "pattern_match ''??????? ????? ????? 111 ????? 11000 11'' i \<longleftrightarrow> opcode i = 0x63 \<and> funct3 i = 7"
  "pattern_match ''??????? ????? ????? 000 ????? 00000 11'' i \<longleftrightarrow> opcode i = 0x03 \<and> funct3 i = 0"
  "pattern_match ''??????? ????? ????? 001 ????? 00000 11'' i \<longleftrightarrow> opcode i = 0x03 \<and> funct3 i = 1"
  "pattern_match ''??????? ????? ????? 010 ????? 00000 11'' i \<longleftrightarrow> opcode i = 0x03 \<and> funct3 i = 2"
  "pattern_match ''??????? ????? ????? 100 ????? 00000 11'' i \<longleftrightarrow> opcode i = 0x03 \<and> funct3 i = 4"
  "pattern_match ''??????? ????? ????? 101 ????? 00000 11'' i \<longleftrightarrow> opcode i = 0x03 \<and> funct3 i = 5"
  "pattern_match ''??????? ????? ????? 000 ????? 01000 11'' i \<longleftrightarrow> opcode i = 0x23 \<and> funct3 i = 0"
  "pattern_match ''??????? ????? ????? 001 ????? 01000 11'' i \<longleftrightarrow> opcode i = 0x23 \<and> funct3 i = 1"
  "pattern_match ''??????? ????? ????? 010 ????? 01000 11'' i \<longleftrightarrow> opcode i = 0x23 \<and> funct3 i = 2"
  "pattern_match ''??????? ????? ????? 000 ????? 00100 11'' i \<longleftrightarrow> opcode i = 0x13 \<and> funct3 i = 0"
  "pattern_match ''??????? ????? ????? 010 ????? 00100 11'' i \<longleftrightarrow> opcode i = 0x13 \<and> funct3 i = 2"
  "pattern_match ''??????? ????? ????? 011 ????? 00100 11'' i \<longleftrightarrow> opcode i = 0x13 \<and> funct3 i = 3"
  "pattern_match ''??????? ????? ????? 100 ????? 00100 11'' i \<longleftrightarrow> opcode i = 0x13 \<and> funct3 i = 4"
  "pattern_match ''??????? ????? ????? 110 ????? 00100 11'' i \<longleftrightarrow> opcode i = 0x13 \<and> funct3 i = 6"
  "pattern_match ''??????? ????? ????? 111 ????? 00100 11'' i \<longleftrightarrow> opcode i = 0x13 \<and> funct3 i = 7"
  "pattern_match ''000000? ????? ????? 001 ????? 00100 11'' i \<longleftrightarrow> opcode i = 0x13 \<and> funct3 i = 1 \<and> take_bit 6 (drop_bit 26 i) = 0x00"
  "pattern_match ''000000? ????? ????? 101 ????? 00100 11'' i \<longleftrightarrow> opcode i = 0x13 \<and> funct3 i = 5 \<and> take_bit 6 (drop_bit 26 i) = 0x00"
  "pattern_match ''010000? ????? ????? 101 ????? 00100 11'' i \<longleftrightarrow> opcode i = 0x13 \<and> funct3 i = 5 \<and> take_bit 6 (drop_bit 26 i) = 0x10"
  "pattern_match ''0000000 ????? ????? 000 ????? 01100 11'' i \<longleftrightarrow> opcode i = 0x33 \<and> funct3 i = 0 \<and> funct7 i = 0x00"
  "pattern_match ''0100000 ????? ????? 000 ????? 01100 11'' i \<longleftrightarrow> opcode i = 0x33 \<and> funct3 i = 0 \<and> funct7 i = 0x20"
  "pattern_match ''0000000 ????? ????? 001 ????? 01100 11'' i \<longleftrightarrow> opcode i = 0x33 \<and> funct3 i = 1 \<and> funct7 i = 0x00"
  "pattern_match ''0000000 ????? ????? 010 ????? 01100 11'' i \<longleftrightarrow> opcode i = 0x33 \<and> funct3 i = 2 \<and> funct7 i = 0x00"
  "pattern_match ''0000000 ????? ????? 011 ????? 01100 11'' i \<longleftrightarrow> opcode i = 0x33 \<and> funct3 i = 3 \<and> funct7 i = 0x00"
  "pattern_match ''0000000 ????? ????? 100 ????? 01100 11'' i \<longleftrightarrow> opcode i = 0x33 \<and> funct3 i = 4 \<and> funct7 i = 0x00"
  "pattern_match ''0000000 ????? ????? 101 ????? 01100 11'' i \<longleftrightarrow> opcode i = 0x33 \<and> funct3 i = 5 \<and> funct7 i = 0x00"
  "pattern_match ''0100000 ????? ????? 101 ????? 01100 11'' i \<longleftrightarrow> opcode i = 0x33 \<and> funct3 i = 5 \<and> funct7 i = 0x20"
  "pattern_match ''0000000 ????? ????? 110 ????? 01100 11'' i \<longleftrightarrow> opcode i = 0x33 \<and> funct3 i = 6 \<and> funct7 i = 0x00"
  "pattern_match ''0000000 ????? ????? 111 ????? 01100 11'' i \<longleftrightarrow> opcode i = 0x33 \<and> funct3 i = 7 \<and> funct7 i = 0x00"
  "pattern_match ''0000001 ????? ????? 000 ????? 01100 11'' i \<longleftrightarrow> opcode i = 0x33 \<and> funct3 i = 0 \<and> funct7 i = 0x01"
  "pattern_match ''0000001 ????? ????? 001 ????? 01100 11'' i \<longleftrightarrow> opcode i = 0x33 \<and> funct3 i = 1 \<and> funct7 i = 0x01"
  "pattern_match ''0000001 ????? ????? 010 ????? 01100 11'' i \<longleftrightarrow> opcode i = 0x33 \<and> funct3 i = 2 \<and> funct7 i = 0x01"
  "pattern_match ''0000001 ????? ????? 011 ????? 01100 11'' i \<longleftrightarrow> opcode i = 0x33 \<and> funct3 i = 3 \<and> funct7 i = 0x01"
  "pattern_match ''0000001 ????? ????? 100 ????? 01100 11'' i \<longleftrightarrow> opcode i = 0x33 \<and> funct3 i = 4 \<and> funct7 i = 0x01"
  "pattern_match ''0000001 ????? ????? 101 ????? 01100 11'' i \<longleftrightarrow> opcode i = 0x33 \<and> funct3 i = 5 \<and> funct7 i = 0x01"
  "pattern_match ''0000001 ????? ????? 110 ????? 01100 11'' i \<longleftrightarrow> opcode i = 0x33 \<and> funct3 i = 6 \<and> funct7 i = 0x01"
  "pattern_match ''0000001 ????? ????? 111 ????? 01100 11'' i \<longleftrightarrow> opcode i = 0x33 \<and> funct3 i = 7 \<and> funct7 i = 0x01"
  "pattern_match ''??????? ????? ????? 001 ????? 11100 11'' i \<longleftrightarrow> opcode i = 0x73 \<and> funct3 i = 1"
  "pattern_match ''??????? ????? ????? 010 ????? 11100 11'' i \<longleftrightarrow> opcode i = 0x73 \<and> funct3 i = 2"
  "pattern_match ''??????? ????? ????? 011 ????? 11100 11'' i \<longleftrightarrow> opcode i = 0x73 \<and> funct3 i = 3"
  "pattern_match ''??????? ????? ????? 101 ????? 11100 11'' i \<longleftrightarrow> opcode i = 0x73 \<and> funct3 i = 5"
  "pattern_match ''??????? ????? ????? 110 ????? 11100 11'' i \<longleftrightarrow> opcode i = 0x73 \<and> funct3 i = 6"
  "pattern_match ''??????? ????? ????? 111 ????? 11100 11'' i \<longleftrightarrow> opcode i = 0x73 \<and> funct3 i = 7"
  "pattern_match ''0000000 00000 00000 001 00000 00011 11'' i \<longleftrightarrow> opcode i = 0x0f \<and> funct3 i = 1 \<and> funct7 i = 0x00 \<and> rs2_field i = 0 \<and> rs1_field i = 0 \<and> rd_field i = 0"
  "pattern_match ''0000??? ????? 00000 000 00000 00011 11'' i \<longleftrightarrow> opcode i = 0x0f \<and> funct3 i = 0 \<and> take_bit 4 (drop_bit 28 i) = 0 \<and> rs1_field i = 0 \<and> rd_field i = 0"
  "pattern_match ''0000000 00000 00000 000 00000 11100 11'' i \<longleftrightarrow> opcode i = 0x73 \<and> funct3 i = 0 \<and> funct7 i = 0x00 \<and> rs2_field i = 0 \<and> rs1_field i = 0 \<and> rd_field i = 0"
  "pattern_match ''0011000 00010 00000 000 00000 11100 11'' i \<longleftrightarrow> opcode i = 0x73 \<and> funct3 i = 0 \<and> funct7 i = 0x18 \<and> rs2_field i = 2 \<and> rs1_field i = 0 \<and> rd_field i = 0"
  "pattern_match ''0000000 00001 00000 000 00000 11100 11'' i \<longleftrightarrow> opcode i = 0x73 \<and> funct3 i = 0 \<and> funct7 i = 0x00 \<and> rs2_field i = 1 \<and> rs1_field i = 0 \<and> rd_field i = 0"
  by (simp_all add: pattern_match_def pattern_bit_ok_def numeral_2_eq_2 [symmetric]
     field_defs field_eq_iff take0 all_less_numeral bit_drop_bit_eq) blast+

lemma pf_inv: "pattern_match ''??????? ????? ????? ??? ????? ????? ??'' i"
  by (simp add: pattern_match_def pattern_bit_ok_def)

section \<open>The decoder of the manual\<close>

text \<open>RV32IM with Zicsr and Zifencei by opcode, funct3 and funct7; everything else is illegal.\<close>

definition rv_decode :: "u32 \<Rightarrow> inst_name \<times> inst_type" where
  "rv_decode i =
     (let f3 = funct3 i; f7 = funct7 i; inv = (I_inv, TYPE_N) in
      if opcode i = 0x37 then (Alu I_lui, TYPE_U)
      else if opcode i = 0x17 then (Alu I_auipc, TYPE_U)
      else if opcode i = 0x6f then (I_jal, TYPE_J)
      else if opcode i = 0x67 then (if f3 = 0 then (I_jalr, TYPE_I) else inv)
      else if opcode i = 0x63 then
        (if f3 = 0 then (Branch I_beq, TYPE_B) else if f3 = 1 then (Branch I_bne, TYPE_B)
         else if f3 = 4 then (Branch I_blt, TYPE_B) else if f3 = 5 then (Branch I_bge, TYPE_B)
         else if f3 = 6 then (Branch I_bltu, TYPE_B) else if f3 = 7 then (Branch I_bgeu, TYPE_B)
         else inv)
      else if opcode i = 0x03 then
        (if f3 = 0 then (Load I_lb, TYPE_I) else if f3 = 1 then (Load I_lh, TYPE_I)
         else if f3 = 2 then (Load I_lw, TYPE_I) else if f3 = 4 then (Load I_lbu, TYPE_I)
         else if f3 = 5 then (Load I_lhu, TYPE_I) else inv)
      else if opcode i = 0x23 then
        (if f3 = 0 then (Store I_sb, TYPE_S) else if f3 = 1 then (Store I_sh, TYPE_S)
         else if f3 = 2 then (Store I_sw, TYPE_S) else inv)
      else if opcode i = 0x13 then
        (if f3 = 0 then (Alu I_addi, TYPE_I) else if f3 = 2 then (Alu I_slti, TYPE_I)
         else if f3 = 3 then (Alu I_sltiu, TYPE_I) else if f3 = 4 then (Alu I_xori, TYPE_I)
         else if f3 = 6 then (Alu I_ori, TYPE_I) else if f3 = 7 then (Alu I_andi, TYPE_I)
         else if f3 = 1 \<and> f7 = 0 then (Alu I_slli, TYPE_RI)
         else if f3 = 5 \<and> f7 = 0 then (Alu I_srli, TYPE_RI)
         else if f3 = 5 \<and> f7 = 0x20 then (Alu I_srai, TYPE_RI) else inv)
      else if opcode i = 0x33 then
        (if f7 = 0 then
           (if f3 = 0 then Alu I_add else if f3 = 1 then Alu I_sll else if f3 = 2 then Alu I_slt
            else if f3 = 3 then Alu I_sltu else if f3 = 4 then Alu I_xor else if f3 = 5 then Alu I_srl
            else if f3 = 6 then Alu I_or else Alu I_and, TYPE_R)
         else if f7 = 1 then
           (if f3 = 0 then Muldiv I_mul else if f3 = 1 then Muldiv I_mulh
            else if f3 = 2 then Muldiv I_mulhsu else if f3 = 3 then Muldiv I_mulhu
            else if f3 = 4 then Muldiv I_div else if f3 = 5 then Muldiv I_divu
            else if f3 = 6 then Muldiv I_rem else Muldiv I_remu, TYPE_R)
         else if f7 = 0x20 \<and> f3 = 0 then (Alu I_sub, TYPE_R)
         else if f7 = 0x20 \<and> f3 = 5 then (Alu I_sra, TYPE_R) else inv)
      else if opcode i = 0x0f then
        (if f3 = 0 then (I_fence, TYPE_N) else if f3 = 1 then (I_fence_i, TYPE_N) else inv)
      else if opcode i = 0x73 then
        (if f3 = 1 then (Csr I_csrrw, TYPE_I) else if f3 = 2 then (Csr I_csrrs, TYPE_I)
         else if f3 = 3 then (Csr I_csrrc, TYPE_I) else if f3 = 5 then (Csr I_csrrwi, TYPE_I)
         else if f3 = 6 then (Csr I_csrrsi, TYPE_I) else if f3 = 7 then (Csr I_csrrci, TYPE_I)
         else if i = 0x00000073 then (I_ecall, TYPE_N)
         else if i = 0x30200073 then (I_mret, TYPE_N)
         else if i = 0x00100073 then (I_ebreak, TYPE_N) else inv)
      else inv)"

lemma funct3_cases: "funct3 i \<in> {0, 1, 2, 3, 4, 5, 6, 7}"
proof -
  have "unat (funct3 i) < 8" using unat_take_bit_less [of 3] by (simp add: funct3_def)
  then have "unat (funct3 i) \<in> {0, 1, 2, 3, 4, 5, 6, 7}" by auto
  then show ?thesis by (simp add: word_unat_eq_iff)
qed

lemma same_field_iff:
  "take_bit n (drop_bit k (i :: u32)) = take_bit n (drop_bit k j) \<longleftrightarrow>
     (\<forall>b. k \<le> b \<and> b < k + n \<longrightarrow> bit i b = bit j b)"
proof
  assume e: "take_bit n (drop_bit k i) = take_bit n (drop_bit k j)"
  have "bit i b = bit j b" if "k \<le> b" "b < k + n" for b
  proof -
    have "bit (take_bit n (drop_bit k i)) (b - k) = bit (take_bit n (drop_bit k j)) (b - k)"
      by (simp add: e)
    moreover have "b - k < n" using that by linarith
    ultimately show ?thesis using that(1) by (simp add: bit_take_bit_iff bit_drop_bit_eq)
  qed
  then show "\<forall>b. k \<le> b \<and> b < k + n \<longrightarrow> bit i b = bit j b" by blast
next
  assume "\<forall>b. k \<le> b \<and> b < k + n \<longrightarrow> bit i b = bit j b"
  then show "take_bit n (drop_bit k i) = take_bit n (drop_bit k j)"
    by (intro bit_word_eqI) (auto simp: bit_take_bit_iff bit_drop_bit_eq)
qed

lemma same_fields:
  assumes "opcode i = opcode j" "rd_field i = rd_field j" "funct3 i = funct3 j"
    "rs1_field i = rs1_field j" "rs2_field i = rs2_field j" "funct7 i = funct7 j"
  shows "i = j"
proof (rule bit_word_eqI)
  fix n assume "n < LENGTH(32)"
  then consider "n < 7" | "7 \<le> n" "n < 12" | "12 \<le> n" "n < 15" | "15 \<le> n" "n < 20"
    | "20 \<le> n" "n < 25" | "25 \<le> n" "n < 32" by force
  moreover have "\<forall>b. 0 \<le> b \<and> b < 0 + 7 \<longrightarrow> bit i b = bit j b"
    using assms(1) unfolding same_field_iff [symmetric] by (simp add: opcode_def)
  ultimately show "bit i n = bit j n"
    using assms(2-) unfolding field_defs same_field_iff by cases simp_all
qed

lemma funct7_bit25: "bit (funct7 i) 0 = bit i 25"
  by (simp add: funct7_def bit_take_bit_iff bit_drop_bit_eq)

lemma top6: "take_bit 6 (drop_bit 26 i) = drop_bit 1 (funct7 i)"
  by (simp add: funct7_def drop_bit_take_bit)

lemma top6_iff:
  assumes "\<not> bit i 25"
  shows "take_bit 6 (drop_bit 26 i) = 0 \<longleftrightarrow> funct7 i = 0"
    "take_bit 6 (drop_bit 26 i) = 0x10 \<longleftrightarrow> funct7 i = 0x20"
proof -
  have "even (funct7 i)" using assms by (simp add: funct7_bit25 [symmetric] bit_0)
  then have e: "push_bit 1 (drop_bit 1 (funct7 i)) = funct7 i"
    using div_mult_mod_eq [of "funct7 i" 2]
    by (simp add: drop_bit_Suc push_bit_Suc even_iff_mod_2_eq_zero)
  show "take_bit 6 (drop_bit 26 i) = 0 \<longleftrightarrow> funct7 i = 0"
    unfolding top6 by (metis e drop_bit_of_0 push_bit_of_0)
  show "take_bit 6 (drop_bit 26 i) = 0x10 \<longleftrightarrow> funct7 i = 0x20"
  proof
    assume "take_bit 6 (drop_bit 26 i) = 0x10"
    then show "funct7 i = 0x20" using e by (simp add: top6)
  qed (simp add: top6)
qed

text \<open>
  Where the table departs from the manual: it takes its shift-immediate patterns from RV64 and so
  ignores bit 25, and it wants the reserved fields of the fences to be zero.
\<close>

definition decode_defined :: "u32 \<Rightarrow> bool" where
  "decode_defined i \<longleftrightarrow>
     (opcode i = 0x13 \<and> funct3 i \<in> {1, 5} \<longrightarrow> \<not> bit i 25) \<and>
     (opcode i = 0x0f \<and> funct3 i = 0 \<longrightarrow>
        take_bit 4 (drop_bit 28 i) = 0 \<and> rs1_field i = 0 \<and> rd_field i = 0) \<and>
     (opcode i = 0x0f \<and> funct3 i = 1 \<longrightarrow>
        funct7 i = 0 \<and> rs2_field i = 0 \<and> rs1_field i = 0 \<and> rd_field i = 0)"

lemma instpats_ok: "\<forall>(str, _) \<in> set instpats. bin_pattern str \<and> length (significant str) \<le> 32"
  by (simp add: instpats_def bin_pattern_def del: set_filter)

lemma word_eq_fields:
  "i = w \<longleftrightarrow> opcode i = opcode w \<and> funct3 i = funct3 w \<and> funct7 i = funct7 w \<and>
     rs2_field i = rs2_field w \<and> rs1_field i = rs1_field w \<and> rd_field i = rd_field w"
  using same_fields [of i w] by blast

lemma system_words:
  "i = 0x00000073 \<longleftrightarrow> opcode i = 0x73 \<and> funct3 i = 0 \<and> funct7 i = 0x00 \<and> rs2_field i = 0 \<and> rs1_field i = 0 \<and> rd_field i = 0"
  "i = 0x30200073 \<longleftrightarrow> opcode i = 0x73 \<and> funct3 i = 0 \<and> funct7 i = 0x18 \<and> rs2_field i = 2 \<and> rs1_field i = 0 \<and> rd_field i = 0"
  "i = 0x00100073 \<longleftrightarrow> opcode i = 0x73 \<and> funct3 i = 0 \<and> funct7 i = 0x00 \<and> rs2_field i = 1 \<and> rs1_field i = 0 \<and> rd_field i = 0"
  by (subst word_eq_fields, simp add: field_defs)+

lemma find_Cons: "find P (x # xs) = (if P x then Some x else find P xs)" by simp

lemma if_option: "map_option f (if b then x else y) = (if b then map_option f x else map_option f y)"
  by simp

lemma search_rv_decode:
  assumes "decode_defined i"
  shows "instpat_search instpats i = Inr (Some (rv_decode i))"
proof -
  have F: "find (\<lambda>(str, _). pattern_match str i) instpats = Some (str, x) \<Longrightarrow>
    instpat_search instpats i = Inr (Some x)" for str x
    by (simp add: instpat_search_eq [OF instpats_ok])
  have "map_option snd (find (\<lambda>(str, _). pattern_match str i) instpats) = Some (rv_decode i)"
  proof (unfold instpats_def find_Cons prod.case pattern_fields eqTrueI [OF pf_inv] if_True if_option option.map
      snd_conv, goal_cases)
    case 1
    consider "opcode i = 0x37" | "opcode i = 0x17" | "opcode i = 0x6f" | "opcode i = 0x67"
      | "opcode i = 0x63" | "opcode i = 0x03" | "opcode i = 0x23" | "opcode i = 0x13"
      | "opcode i = 0x33" | "opcode i = 0x0f" | "opcode i = 0x73"
      | "opcode i \<notin> {0x37, 0x17, 0x6f, 0x67, 0x63, 0x03, 0x23, 0x13, 0x33, 0x0f, 0x73}"
      by blast
    then show ?case
    proof cases
      case 1 then show ?thesis by (simp add: rv_decode_def)
    next
      case 2 then show ?thesis by (simp add: rv_decode_def)
    next
      case 3 then show ?thesis by (simp add: rv_decode_def)
    next
      case 4 then show ?thesis by (simp add: rv_decode_def)
    next
      case 5 then show ?thesis by (simp add: rv_decode_def Let_def)
    next
      case 6 then show ?thesis by (simp add: rv_decode_def Let_def)
    next
      case 7 then show ?thesis by (simp add: rv_decode_def Let_def)
    next
      case 8
      then have "funct3 i \<in> {1, 5} \<Longrightarrow> \<not> bit i 25" using assms by (simp add: decode_defined_def)
      then show ?thesis using 8 top6_iff [of i] by (simp add: rv_decode_def Let_def)
    next
      case 9
      show ?thesis using funct3_cases [of i]
        by (elim insertE emptyE; cases "funct7 i = 0"; cases "funct7 i = 1"; cases "funct7 i = 0x20";
            simp add: 9 rv_decode_def Let_def)
    next
      case 10
      have legal: "funct3 i = 0 \<Longrightarrow> take_bit 4 (drop_bit 28 i) = 0 \<and> rs1_field i = 0 \<and> rd_field i = 0"
        "funct3 i = 1 \<Longrightarrow> funct7 i = 0 \<and> rs2_field i = 0 \<and> rs1_field i = 0 \<and> rd_field i = 0"
        using assms 10 by (simp_all add: decode_defined_def)
      show ?thesis
        by (cases "funct3 i = 0"; cases "funct3 i = 1"; simp add: 10 legal rv_decode_def Let_def)
    next
      case 11
      show ?thesis using funct3_cases [of i]
        by (elim insertE emptyE) (simp_all add: 11 rv_decode_def Let_def system_words)
    next
      case 12 then show ?thesis by (simp add: rv_decode_def)
    qed
  qed
  then show ?thesis by (auto simp: instpat_search_eq [OF instpats_ok])
qed

text \<open>C11: Outside those encodings, the search over the 57 patterns (compiled, shifted, masked and
  compared one by one) finds exactly the instruction the manual's decoder assigns to the word.\<close>

theorem decode_matches_manual:
  assumes "decode_defined i"
  shows "instpat_search instpats i = Inr (Some (rv_decode i))"
  by (rule search_rv_decode [OF assms])

lemma decode_matches_manual_witness:
  "instpat_search instpats 0x00b50533 = Inr (Some (Alu I_add, TYPE_R)) \<and>
   instpat_search instpats 0x30200073 = Inr (Some (I_mret, TYPE_N))"
proof -
  have "decode_defined 0x00b50533" "decode_defined 0x30200073" by (code_simp, code_simp)
  moreover have "rv_decode 0x00b50533 = (Alu I_add, TYPE_R)" "rv_decode 0x30200073 = (I_mret, TYPE_N)"
    by (code_simp, code_simp)
  ultimately show ?thesis
    using decode_matches_manual [of "0x00b50533"] decode_matches_manual [of "0x30200073"] by simp
qed

text \<open>A shift-immediate word with bit 25 set, which the manual's decoder for RV32 rejects, is
  executed by the table as the shift with the low five bits of the amount.\<close>

lemma decode_reserved_shift:
  assumes "opcode i = 0x13" and "funct3 i = 1" and "funct7 i = 1"
  shows "instpat_search instpats i = Inr (Some (Alu I_slli, TYPE_RI)) \<and> rv_decode i = (I_inv, TYPE_N)"
proof -
  have "map_option snd (find (\<lambda>(str, _). pattern_match str i) instpats) = Some (Alu I_slli, TYPE_RI)"
    unfolding instpats_def find_Cons prod.case pattern_fields by (simp add: assms top6)
  then show ?thesis by (simp add: instpat_search_eq [OF instpats_ok] rv_decode_def assms)
qed

lemma decode_reserved_shift_witness:
  "instpat_search instpats 0x02109093 = Inr (Some (Alu I_slli, TYPE_RI))"
  using decode_reserved_shift [of "0x02109093"] by (simp add: field_defs)

section \<open>Immediates\<close>

lemma bit_BITS: "bit (BITS x hi lo) n \<longleftrightarrow> n \<le> hi - lo \<and> bit x (lo + n)"
proof -
  have "BITMASK b = mask b" for b by (simp add: BITMASK_def mask_eq_exp_minus_1)
  then show ?thesis
    by (auto simp: BITS_def bit_and_iff bit_mask_iff bit_ucast_iff bit_drop_bit_eq
        dest: bit_imp_le_length)
qed

lemma bit_SEXT: "n < 64 \<Longrightarrow> bit (SEXT x len) n \<longleftrightarrow> bit x (min (len - 1) n)"
  by (simp add: SEXT_def bit_signed_take_bit_iff)

lemma bit_to_word: "bit (ucast (x :: u64) :: u32) n \<longleftrightarrow> n < 32 \<and> bit x n"
  by (simp add: bit_ucast_iff)

lemmas imm_defs = immI_def immU_def immS_def immJ_def immB_def immRI_def
lemmas imm_bit_simps = bit_to_word bit_or_iff bit_push_bit_iff bit_SEXT bit_BITS

lemma imm_bits_below:
  "(\<forall>n<32. bit (immI i) n = bit i (if n < 11 then n + 20 else 31)) \<and>
   (\<forall>n<32. bit (immS i) n = bit i (if n < 5 then n + 7 else if n < 11 then n + 20 else 31)) \<and>
   (\<forall>n<32. bit (immB i) n = (n \<noteq> 0 \<and> bit i (if n < 5 then n + 7 else if n < 11 then n + 20
                                        else if n = 11 then 7 else 31))) \<and>
   (\<forall>n<32. bit (immU i) n = (12 \<le> n \<and> bit i n)) \<and>
   (\<forall>n<32. bit (immJ i) n = (n \<noteq> 0 \<and> bit i (if n < 11 then n + 20 else if n = 11 then 20
                                        else if n < 20 then n else 31))) \<and>
   (\<forall>n<32. bit (immRI i) n = (n < 5 \<and> bit i (n + 20)))"
  by (intro conjI; simp add: all_less_numeral imm_defs imm_bit_simps numeral_2_eq_2 [symmetric]
        del: push_bit_Suc)

text \<open>The immediate of each format has, at every position, the bit of the instruction word that
  the manual's table of immediates names (bit 31 is the sign of all of them).\<close>

lemma imm_bits:
  "(bit (immI i) n \<longleftrightarrow> n < 32 \<and> bit i (if n < 11 then n + 20 else 31)) \<and>
   (bit (immS i) n \<longleftrightarrow> n < 32 \<and> bit i (if n < 5 then n + 7 else if n < 11 then n + 20 else 31)) \<and>
   (bit (immB i) n \<longleftrightarrow> n < 32 \<and> n \<noteq> 0 \<and> bit i (if n < 5 then n + 7 else if n < 11 then n + 20
                                        else if n = 11 then 7 else 31)) \<and>
   (bit (immU i) n \<longleftrightarrow> n < 32 \<and> 12 \<le> n \<and> bit i n) \<and>
   (bit (immJ i) n \<longleftrightarrow> n < 32 \<and> n \<noteq> 0 \<and> bit i (if n < 11 then n + 20 else if n = 11 then 20
                                        else if n < 20 then n else 31)) \<and>
   (bit (immRI i) n \<longleftrightarrow> n < 32 \<and> n < 5 \<and> bit i (n + 20))"
proof (cases "n < 32")
  case True
  then show ?thesis using imm_bits_below [of i] by simp
next
  case False
  then have "\<not> bit (w :: u32) n" for w using bit_imp_le_length [of w n] by auto
  then show ?thesis using False by simp
qed

section \<open>Encodings\<close>

text \<open>The formats of the manual, as an assembler packs them.\<close>

definition fields :: "u32 \<Rightarrow> u32 \<Rightarrow> u32 \<Rightarrow> u32 \<Rightarrow> u32 \<Rightarrow> u32 \<Rightarrow> u32" where
  "fields f7 r2 r1 f3 d opc =
     push_bit 25 f7 OR push_bit 20 (take_bit 5 r2) OR push_bit 15 (take_bit 5 r1) OR
     push_bit 12 (take_bit 3 f3) OR push_bit 7 (take_bit 5 d) OR take_bit 7 opc"

definition encode_I :: "word_t \<Rightarrow> u32 \<Rightarrow> u32 \<Rightarrow> u32 \<Rightarrow> u32 \<Rightarrow> u32" where
  "encode_I v r1 f3 d opc = fields (drop_bit 5 v) v r1 f3 d opc"

definition encode_S :: "word_t \<Rightarrow> u32 \<Rightarrow> u32 \<Rightarrow> u32 \<Rightarrow> u32 \<Rightarrow> u32" where
  "encode_S v r2 r1 f3 opc = fields (drop_bit 5 v) r2 r1 f3 v opc"

definition encode_B :: "word_t \<Rightarrow> u32 \<Rightarrow> u32 \<Rightarrow> u32 \<Rightarrow> u32 \<Rightarrow> u32" where
  "encode_B v r2 r1 f3 opc =
     fields (push_bit 6 (drop_bit 12 v) OR take_bit 6 (drop_bit 5 v)) r2 r1 f3
       (push_bit 1 (take_bit 4 (drop_bit 1 v)) OR take_bit 1 (drop_bit 11 v)) opc"

definition encode_U :: "word_t \<Rightarrow> u32 \<Rightarrow> u32 \<Rightarrow> u32" where
  "encode_U v d opc = push_bit 12 (drop_bit 12 v) OR push_bit 7 (take_bit 5 d) OR take_bit 7 opc"

definition encode_J :: "word_t \<Rightarrow> u32 \<Rightarrow> u32 \<Rightarrow> u32" where
  "encode_J v d opc =
     push_bit 31 (drop_bit 20 v) OR push_bit 21 (take_bit 10 (drop_bit 1 v)) OR
     push_bit 20 (take_bit 1 (drop_bit 11 v)) OR push_bit 12 (take_bit 8 (drop_bit 12 v)) OR
     push_bit 7 (take_bit 5 d) OR take_bit 7 opc"

lemmas encode_defs = fields_def encode_I_def encode_S_def encode_B_def encode_U_def encode_J_def

lemma word32_eq_iff: "(a :: u32) = b \<longleftrightarrow> (\<forall>n<32. bit a n = bit b n)"
  by (auto intro: bit_word_eqI)

lemma even_bit0: "even (v :: u32) \<longleftrightarrow> \<not> bit v 0"
  by (simp add: bit_0)

lemma imm_encode:
  "signed_take_bit 11 v = v \<Longrightarrow> immI (encode_I v r1 f3 d opc) = v"
  "signed_take_bit 11 v = v \<Longrightarrow> immS (encode_S v r2 r1 f3 opc) = v"
  "signed_take_bit 12 v = v \<Longrightarrow> even v \<Longrightarrow> immB (encode_B v r2 r1 f3 opc) = v"
  "signed_take_bit 20 v = v \<Longrightarrow> even v \<Longrightarrow> immJ (encode_J v d opc) = v"
  "take_bit 12 v = 0 \<Longrightarrow> immU (encode_U v d opc) = v"
  by (simp_all add: word32_eq_iff even_bit0 imm_defs imm_bit_simps encode_defs all_less_numeral
   bit_signed_take_bit_iff bit_take_bit_iff bit_drop_bit_eq numeral_2_eq_2 [symmetric] del: push_bit_Suc drop_bit_Suc) (elim conjE; simp)+

lemma BITS_reg_eq:
  "BITS x (k + 4) k = ucast (take_bit 5 (r :: u32)) \<longleftrightarrow> (\<forall>n<5. bit x (k + n) = bit r n)"
  unfolding word_bit_eq_iff
  by (intro arg_cong [where f = All] ext) (auto simp: bit_BITS bit_ucast_iff bit_take_bit_iff)

lemma reg_fields_encode:
  "BITS (fields f7 r2 r1 f3 d opc) 11 7 = ucast (take_bit 5 d)"
  "BITS (fields f7 r2 r1 f3 d opc) 19 15 = ucast (take_bit 5 r1)"
  "BITS (fields f7 r2 r1 f3 d opc) 24 20 = ucast (take_bit 5 r2)"
  "BITS (encode_U v d opc) 11 7 = ucast (take_bit 5 d)"
  "BITS (encode_J v d opc) 11 7 = ucast (take_bit 5 d)"
  using BITS_reg_eq [of _ 7] BITS_reg_eq [of _ 15] BITS_reg_eq [of _ 20]
  by (simp_all add: encode_defs all_less_numeral bit_or_iff bit_push_bit_iff bit_take_bit_iff
      bit_drop_bit_eq numeral_2_eq_2 [symmetric] del: push_bit_Suc drop_bit_Suc)

lemma reg_fields_encode_B:
  "BITS (encode_B v r2 r1 f3 opc) 19 15 = ucast (take_bit 5 r1)"
  "BITS (encode_B v r2 r1 f3 opc) 24 20 = ucast (take_bit 5 r2)"
  unfolding encode_B_def by (rule reg_fields_encode)+

lemma get_R_eq: "i < 32 \<Longrightarrow> get_R i c = Inr (gpr c i)"
  by (simp add: get_R_def check_reg_idx_def)

lemma unat_reg: "unat (ucast (take_bit 5 (r :: u32)) :: u64) = unat r mod 32"
proof -
  have "unat (take_bit 5 r) = unat r mod 32"
    by (subst unsigned_take_bit_eq) (simp add: take_bit_eq_mod)
  then show ?thesis by (simp add: unsigned_ucast_eq take_bit_nat_eq_self)
qed

abbreviation reg_of :: "u32 \<Rightarrow> nat" where "reg_of r \<equiv> unat r mod 32"

lemma decode_encode:
  "signed_take_bit 11 v = v \<Longrightarrow> decode_operand c (encode_I v r1 f3 d opc) TYPE_I ops =
     Inr (ops\<lparr>rd := reg_of d, src1 := gpr c (reg_of r1), imm := v\<rparr>)"
  "signed_take_bit 11 v = v \<Longrightarrow> decode_operand c (encode_S v r2 r1 f3 opc) TYPE_S ops =
     Inr (ops\<lparr>rd := reg_of v, src1 := gpr c (reg_of r1), src2 := gpr c (reg_of r2), imm := v\<rparr>)"
  "signed_take_bit 20 v = v \<Longrightarrow> even v \<Longrightarrow> decode_operand c (encode_J v d opc) TYPE_J ops =
     Inr (ops\<lparr>rd := reg_of d, imm := v\<rparr>)"
  "take_bit 12 v = 0 \<Longrightarrow> decode_operand c (encode_U v d opc) TYPE_U ops =
     Inr (ops\<lparr>rd := reg_of d, imm := v\<rparr>)"
  "decode_operand c (fields f7 r2 r1 f3 d opc) TYPE_R ops =
     Inr (ops\<lparr>rd := reg_of d, src1 := gpr c (reg_of r1), src2 := gpr c (reg_of r2)\<rparr>)"
  using imm_encode [of v]
  by (simp_all add: decode_operand_def reg_fields_encode get_R_eq unat_reg encode_I_def encode_S_def)

text \<open>C23: Packing an immediate that fits its format, with register numbers, into an instruction word
  as the manual lays it out and decoding that word gives back the immediate, the destination
  register and the values of the source registers.\<close>

theorem decode_operand_encode:
  assumes "signed_take_bit 11 v = v" and "signed_take_bit 12 w = w" and "even w"
    and "signed_take_bit 20 j = j" and "even j" and "take_bit 12 u = 0"
  shows "decode_operand c (encode_I v r1 f3 d opc) TYPE_I ops =
           Inr (ops\<lparr>rd := reg_of d, src1 := gpr c (reg_of r1), imm := v\<rparr>) \<and>
         decode_operand c (encode_S v r2 r1 f3 opc) TYPE_S ops =
           Inr (ops\<lparr>rd := reg_of v, src1 := gpr c (reg_of r1), src2 := gpr c (reg_of r2), imm := v\<rparr>) \<and>
         (\<exists>x. decode_operand c (encode_B w r2 r1 f3 opc) TYPE_B ops =
           Inr (ops\<lparr>rd := x, src1 := gpr c (reg_of r1), src2 := gpr c (reg_of r2), imm := w\<rparr>)) \<and>
         decode_operand c (encode_J j d opc) TYPE_J ops = Inr (ops\<lparr>rd := reg_of d, imm := j\<rparr>) \<and>
         decode_operand c (encode_U u d opc) TYPE_U ops = Inr (ops\<lparr>rd := reg_of d, imm := u\<rparr>) \<and>
         decode_operand c (fields f7 r2 r1 f3 d opc) TYPE_R ops =
           Inr (ops\<lparr>rd := reg_of d, src1 := gpr c (reg_of r1), src2 := gpr c (reg_of r2)\<rparr>)"
proof -
  have "\<exists>x. decode_operand c (encode_B w r2 r1 f3 opc) TYPE_B ops =
           Inr (ops\<lparr>rd := x, src1 := gpr c (reg_of r1), src2 := gpr c (reg_of r2), imm := w\<rparr>)"
    by (intro exI [of _ "unat (BITS (encode_B w r2 r1 f3 opc) 11 7)"])
      (simp add: decode_operand_def reg_fields_encode_B get_R_eq unat_reg
        imm_encode(3) [OF assms(2,3)])
  then show ?thesis using assms by (simp add: decode_encode)
qed

lemma decode_operand_encode_witness:
  "\<forall>c. decode_operand c (encode_I (- 4) 2 0 1 0x13) TYPE_I no_operands =
     Inr \<lparr>rd = 1, src1 = gpr c 2, src2 = 0, imm = - 4\<rparr>"
  using decode_operand_encode [of "- 4" "0xfffff000" "0x000ffffe" "0x1000" _ 2 0 1 "0x13" no_operands]
  by (simp add: no_operands_def)

end
