(* ===== verification/Nemu_Semantics.thy ===== *)
theory Nemu_Semantics
  imports Nemu_Decode
begin

text \<open>
  What the bodies of the instruction table compute, against the RISC-V manual: multiplication and
  division over the integers, shifts, the CSR instructions, trap entry and return, and loads and
  stores over the memory interface, which \<open>Mr\<close> and \<open>Mw\<close> provide on whole machine states.
\<close>

section \<open>Multiplication and division\<close>

lemma high_word: "(ucast (drop_bit 32 (word_of_int p :: u64)) :: u32) = word_of_int (p div 2 ^ 32)"
proof (rule bit_word_eqI)
  fix n assume "n < LENGTH(32)"
  then show "bit (ucast (drop_bit 32 (word_of_int p :: u64)) :: u32) n = bit (word_of_int (p div 2 ^ 32) :: u32) n"
    by (simp add: bit_ucast_iff bit_drop_bit_eq bit_word_of_int_iff drop_bit_eq_div [of 32 p, symmetric]
        del: power_numeral)
qed

lemma high_word_signed:
  "(ucast (signed_drop_bit 32 (w :: u64)) :: u32) = ucast (drop_bit 32 w)"
  by (rule bit_word_eqI) (simp add: bit_ucast_iff bit_signed_drop_bit_iff bit_drop_bit_eq)

lemma mulh_values:
  "muldiv_value I_mulh p = word_of_int (sint (src1 p) * sint (src2 p) div 2 ^ 32)"
  "muldiv_value I_mulhsu p = word_of_int (sint (src1 p) * uint (src2 p) div 2 ^ 32)"
  "muldiv_value I_mulhu p = word_of_int (uint (src1 p) * uint (src2 p) div 2 ^ 32)"
proof -
  have s: "scast (w :: u32) = (word_of_int (sint w) :: u64)" for w by simp
  have u: "ucast (w :: u32) = (word_of_int (uint w) :: u64)" for w by simp
  show "muldiv_value I_mulh p = word_of_int (sint (src1 p) * sint (src2 p) div 2 ^ 32)"
    "muldiv_value I_mulhsu p = word_of_int (sint (src1 p) * uint (src2 p) div 2 ^ 32)"
    "muldiv_value I_mulhu p = word_of_int (uint (src1 p) * uint (src2 p) div 2 ^ 32)"
    using high_word [of "sint (src1 p) * sint (src2 p)"] high_word [of "sint (src1 p) * uint (src2 p)"]
     high_word [of "uint (src1 p) * uint (src2 p)"]
    by (simp_all add: muldiv_value_def high_word_signed)
qed


lemma smod_bound: "b \<noteq> 0 \<Longrightarrow> \<bar>(a :: int) smod b\<bar> < \<bar>b\<bar>"
  by (simp add: signed_modulo_int_def abs_mult)

lemma smod_sign:
  assumes "(b :: int) \<noteq> 0" shows "a smod b = 0 \<or> sgn (a smod b) = sgn a"
proof -
  have "\<bar>a\<bar> mod \<bar>b\<bar> = 0 \<or> 0 < \<bar>a\<bar> mod \<bar>b\<bar>"
    using assms by (metis zero_less_abs_iff pos_mod_sign order_le_less)
  then show ?thesis by (auto simp: signed_modulo_int_def sgn_mult)
qed

lemma sint_bounds: "- (2 ^ 31) \<le> sint (w :: u32)" "sint w < 2 ^ 31"
  using sint_greater_eq [of w] sint_less [of w] by simp_all

lemma sint_word_of_int_smod:
  assumes "sint (b :: u32) \<noteq> 0"
  shows "sint (word_of_int (x smod sint b) :: u32) = x smod sint b"
  using smod_bound [OF assms, of x] sint_bounds [of b]
  by (simp add: signed_of_int signed_take_bit_int_eq_self)

lemma div_rem:
  assumes "src2 p \<noteq> 0"
  shows "muldiv_value I_div p * src2 p + muldiv_value I_rem p = src1 p"
proof (cases "src1 p = 0x80000000 \<and> src2 p = 0xffffffff")
  case True then show ?thesis by (simp add: muldiv_value_def)
next
  case False
  have nz: "sint (src2 p) \<noteq> 0" using assms by (simp add: signed_eq_0_iff)
  have "word_of_int (sint (src1 p) sdiv sint (src2 p)) * src2 p +
     word_of_int (sint (src1 p) smod sint (src2 p)) =
    (word_of_int (sint (src1 p) sdiv sint (src2 p) * sint (src2 p) + sint (src1 p) smod sint (src2 p)) :: u32)"
    by (simp)
  also have "\<dots> = src1 p" by (simp add: sdiv_mult_smod_eq)
  finally have "word_of_int (sint (src1 p) sdiv sint (src2 p)) * src2 p +
     word_of_int (sint (src1 p) smod sint (src2 p)) = src1 p" .
  moreover from False nz have "muldiv_value I_div p = word_of_int (sint (src1 p) sdiv sint (src2 p))"
    "muldiv_value I_rem p = word_of_int (sint (src1 p) smod sint (src2 p))"
    unfolding muldiv_value_def muldiv_op.case by presburger+
  ultimately show ?thesis by simp
qed

text \<open>The high-part multiplications are the high words of the mathematical products of the
  operands, read as signed or unsigned numbers.\<close>

lemma mulh_correct:
  "muldiv_value I_mulh p = word_of_int (sint (src1 p) * sint (src2 p) div 2 ^ 32) \<and>
   muldiv_value I_mulhsu p = word_of_int (sint (src1 p) * uint (src2 p) div 2 ^ 32) \<and>
   muldiv_value I_mulhu p = word_of_int (uint (src1 p) * uint (src2 p) div 2 ^ 32)"
  by (simp only: mulh_values simp_thms)

lemma rem_range:
  assumes "src2 p \<noteq> 0"
  shows "\<bar>sint (muldiv_value I_rem p)\<bar> < \<bar>sint (src2 p)\<bar> \<and>
    (muldiv_value I_rem p = 0 \<or> sgn (sint (muldiv_value I_rem p)) = sgn (sint (src1 p)))"
proof (cases "src1 p = 0x80000000 \<and> src2 p = 0xffffffff")
  case True
  then show ?thesis by (simp add: muldiv_value_def)
next
  case False
  have nz: "sint (src2 p) \<noteq> 0" using assms by (simp add: signed_eq_0_iff)
  with False have r: "muldiv_value I_rem p = word_of_int (sint (src1 p) smod sint (src2 p))"
    unfolding muldiv_value_def muldiv_op.case by presburger
  then have s: "sint (muldiv_value I_rem p) = sint (src1 p) smod sint (src2 p)"
    by (simp only: sint_word_of_int_smod [OF nz])
  show ?thesis
    using smod_bound [OF nz, of "sint (src1 p)"] smod_sign [OF nz, of "sint (src1 p)"]
    by (metis s signed_eq_0_iff)
qed

text \<open>For a nonzero divisor the quotient and remainder instructions satisfy the division
  identity (also at the signed overflow), the signed remainder is smaller than the divisor and
  has the sign of the dividend, and the unsigned one is smaller than the divisor.\<close>

lemma div_rem_correct:
  assumes "src2 p \<noteq> 0"
  shows "muldiv_value I_div p * src2 p + muldiv_value I_rem p = src1 p \<and>
    \<bar>sint (muldiv_value I_rem p)\<bar> < \<bar>sint (src2 p)\<bar> \<and>
    (muldiv_value I_rem p = 0 \<or> sgn (sint (muldiv_value I_rem p)) = sgn (sint (src1 p))) \<and>
    muldiv_value I_divu p * src2 p + muldiv_value I_remu p = src1 p \<and>
    muldiv_value I_remu p < src2 p"
proof -
  have "src1 p mod src2 p < src2 p"
    using assms by (simp add: word_less_nat_alt unat_mod_distrib unat_eq_0 unat_gt_0)
  then show ?thesis
    using div_rem [OF assms] rem_range [OF assms] assms
    by (simp add: muldiv_value_def [of I_divu] muldiv_value_def [of I_remu] div_mult_mod_eq)
qed

lemma div_rem_correct_witness:
  "muldiv_value I_div (no_operands\<lparr>src1 := - 7, src2 := 2\<rparr>) * 2 +
     muldiv_value I_rem (no_operands\<lparr>src1 := - 7, src2 := 2\<rparr>) = - 7"
  using div_rem_correct [of "no_operands\<lparr>src1 := - 7, src2 := 2\<rparr>"] by simp

section \<open>Shifts\<close>

lemma unat_shamt: "unat (BITS r 4 0) = unat r mod 32"
proof -
  have "BITS r 4 0 = ucast (take_bit 5 r)"
    by (rule bit_word_eqI) (auto simp: bit_BITS bit_ucast_iff bit_take_bit_iff)
  then show ?thesis by (simp only: unat_reg)
qed

text \<open>The register shifts use the shift amount modulo 32; the logical ones multiply and divide
  the unsigned value by a power of two, the arithmetic one divides the signed value, rounding down.\<close>

lemma shift_values:
  "uint (alu_value I_sll p a) = (uint (src1 p) * 2 ^ reg_of (src2 p)) mod 2 ^ 32 \<and>
   uint (alu_value I_srl p a) = uint (src1 p) div 2 ^ reg_of (src2 p) \<and>
   sint (alu_value I_sra p a) = sint (src1 p) div 2 ^ reg_of (src2 p)"
proof -
  have "uint (src1 p) mod 4294967296 = uint (src1 p)"
    using uint_lt2p [of "src1 p"] by simp
  then show ?thesis
    by (simp add: alu_value_def unat_shamt unsigned_push_bit_eq unsigned_drop_bit_eq
      sint_signed_drop_bit_eq push_bit_eq_mult [where 'a = int] drop_bit_eq_div [where 'a = int]
      take_bit_eq_mod [where 'a = int])
qed

section \<open>CSR instructions\<close>

definition csr_index :: "word_t \<Rightarrow> bool" where
  "csr_index i \<longleftrightarrow> i = 0x300 \<or> i = 0x305 \<or> i = 0x341 \<or> i = 0x342"

definition csr_get :: "word_t \<Rightarrow> CSR \<Rightarrow> word_t" where
  "csr_get i r = (if i = 0x300 then mstatus r else if i = 0x305 then mtvec r
                  else if i = 0x341 then mepc r else mcause r)"

definition csr_put :: "word_t \<Rightarrow> word_t \<Rightarrow> CSR \<Rightarrow> CSR" where
  "csr_put i v r = (if i = 0x300 then r\<lparr>mstatus := v\<rparr> else if i = 0x305 then r\<lparr>mtvec := v\<rparr>
                    else if i = 0x341 then r\<lparr>mepc := v\<rparr> else r\<lparr>mcause := v\<rparr>)"

text \<open>What the manual says a CSR instruction stores, from the old value, the register and zimm.\<close>

definition csr_new :: "csr_op \<Rightarrow> word_t \<Rightarrow> word_t \<Rightarrow> word_t \<Rightarrow> word_t" where
  "csr_new op old r z =
     (case op of I_csrrw \<Rightarrow> r | I_csrrs \<Rightarrow> old OR r | I_csrrc \<Rightarrow> old AND NOT r
      | I_csrrwi \<Rightarrow> z | I_csrrsi \<Rightarrow> old OR z | I_csrrci \<Rightarrow> old AND NOT z)"

lemma csr_get_put: "csr_index i \<Longrightarrow> csr_index j \<Longrightarrow>
    csr_get j (csr_put i v r) = (if i = j then v else csr_get j r)"
  by (auto simp: csr_index_def csr_get_def csr_put_def)

lemma csr_read_eq: "csr_read i c = (if csr_index i then Inr (csr_get i (csr c)) else Inl Assertion)"
  by (simp add: csr_read_def csr_index_def csr_get_def)

lemma csr_write_eq:
  "csr_write i v c = (if csr_index i then Inr (c\<lparr>csr := csr_put i v (csr c)\<rparr>) else Inl Assertion)"
  by (simp add: csr_write_def csr_index_def csr_put_def)

lemma zimm_field: "ucast (zimm i) = rs1_field i"
  by (rule bit_word_eqI)
    (auto simp: zimm_def bit_ucast_iff bit_BITS rs1_field_def bit_take_bit_iff bit_drop_bit_eq)

lemma zimm_mix:
  "ucast (zimm i OR ucast (r :: u32)) = (r OR rs1_field i)"
  "ucast (NOT (zimm i) AND ucast (r :: u32)) = (r AND NOT (rs1_field i))"
  by (rule bit_word_eqI; auto simp: zimm_def bit_simps bit_BITS rs1_field_def)+

lemma put_R_eq: "i < 32 \<Longrightarrow> put_R i v m = Inr (m\<lparr>cpu := (cpu m)\<lparr>gpr := (gpr (cpu m))(i := v)\<rparr>\<rparr>)"
  by (simp add: put_R_def set_R_def check_reg_idx_def)

text \<open>A CSR instruction on an implemented register writes the old value to the destination
  (except the swap to register zero) and stores what the manual says; on any other CSR number it
  fails the assertion.\<close>

lemma exec_csr_correct:
  assumes "rd p < 32"
  shows "exec_csr op p i m =
    (if csr_index (imm p) then
       let c = cpu m; old = csr_get (imm p) (csr c) in
       Inr (m\<lparr>cpu := c\<lparr>gpr := if op = I_csrrw \<and> rd p = 0 then gpr c else (gpr c)(rd p := old),
                       csr := csr_put (imm p) (csr_new op old (src1 p) (rs1_field i)) (csr c)\<rparr>\<rparr>)
     else Inl Assertion)"
  using assms
  by (cases op) (auto simp: exec_csr_def read_csr_to_R_def csr_read_eq csr_write_eq put_R_eq
      put_csr_def get_R_eq csr_new_def zimm_field zimm_mix Let_def or.commute and.commute)

lemma exec_csr_correct_witness:
  "exec_csr I_csrrs (no_operands\<lparr>rd := 1, imm := 0x342, src1 := 2\<rparr>) 0
     \<lparr>cpu = \<lparr>gpr = (\<lambda>_. 0), pc = 0, csr = \<lparr>mepc = 0, mstatus = 0, mcause = 5, mtvec = 0\<rparr>\<rparr>,
      pmem = (\<lambda>_. 0), g_nr_guest_inst = 0, printed = []\<rparr> =
   Inr \<lparr>cpu = \<lparr>gpr = (\<lambda>_. 0)(1 := 5), pc = 0, csr = \<lparr>mepc = 0, mstatus = 0, mcause = 7, mtvec = 0\<rparr>\<rparr>,
      pmem = (\<lambda>_. 0), g_nr_guest_inst = 0, printed = []\<rparr>"
  by (subst exec_csr_correct)
    (simp_all add: no_operands_def csr_index_def csr_get_def csr_put_def csr_new_def)

section \<open>Traps\<close>

lemma prv_round_trip: "pop_prv (push_prv ms) = (ms AND NOT 0xfff) OR (ms AND 0x1ff) OR 0x200"
proof -
  have m: "(0xfff :: u32) = mask 12" "(0x1ff :: u32) = mask 9" "(0x6 :: u32) = push_bit 1 (mask 2)"
    "(0x200 :: u32) = push_bit 9 (mask 1)" "(1 :: u32) = mask 1"
    by (simp_all add: mask_eq_exp_minus_1)
  show ?thesis unfolding pop_prv_def push_prv_def Let_def m word32_eq_iff
    by (simp add: all_less_numeral bit_simps numeral_2_eq_2 [symmetric] del: push_bit_Suc drop_bit_Suc)
qed

text \<open>\<open>ecall\<close> jumps to \<open>mtvec\<close> with cause 11 and saves its own address; an \<open>mret\<close> executed on
  the resulting state comes back to that address, leaves registers, memory and \<open>mtvec\<close> as they
  were, and restores the low nine bits of \<open>mstatus\<close>, setting bit 9 and clearing bits 10 and 11.\<close>

lemma ecall_mret_round_trip:
  "case exec_ecall s m of (m1, s1) \<Rightarrow>
     dnpc s1 = mtvec (csr (cpu m)) \<and> mcause (csr (cpu m1)) = 11 \<and> mepc (csr (cpu m1)) = s_pc s \<and>
     (case exec_mret s' m1 of (m2, s2) \<Rightarrow>
        dnpc s2 = s_pc s \<and>
        m2 = m\<lparr>cpu := (cpu m)\<lparr>csr := \<lparr>mepc = s_pc s,
                 mstatus = (mstatus (csr (cpu m)) AND NOT 0xfff) OR (mstatus (csr (cpu m)) AND 0x1ff) OR 0x200,
                 mcause = 11, mtvec = mtvec (csr (cpu m))\<rparr>\<rparr>\<rparr>)"
  by (simp add: exec_ecall_def exec_mret_def isa_raise_intr_def prv_round_trip)

section \<open>Loads and stores\<close>

definition load_size :: "load_op \<Rightarrow> nat" where
  "load_size op = (case op of I_lb \<Rightarrow> 1 | I_lbu \<Rightarrow> 1 | I_lh \<Rightarrow> 2 | I_lhu \<Rightarrow> 2 | I_lw \<Rightarrow> 4)"

definition store_size :: "store_op \<Rightarrow> nat" where
  "store_size op = (case op of I_sb \<Rightarrow> 1 | I_sh \<Rightarrow> 2 | I_sw \<Rightarrow> 4)"

text \<open>The extension a load applies to the bytes it read.\<close>

definition load_extend :: "load_op \<Rightarrow> word_t \<Rightarrow> word_t" where
  "load_extend op v =
     (case op of I_lb \<Rightarrow> scast (ucast v :: u8) | I_lh \<Rightarrow> scast (ucast v :: u16)
      | I_lw \<Rightarrow> v | I_lbu \<Rightarrow> ucast (ucast v :: u8) | I_lhu \<Rightarrow> ucast (ucast v :: u16))"

text \<open>The machine provides the memory interface through \<open>Mr\<close> and \<open>Mw\<close>.\<close>

interpretation mm: word_memory "Mr" "\<lambda>m a n d. Mw a n d m" valid_access disjoint_access
proof
  fix m :: machine and a n d
  assume "valid_access a n"
  then show "\<exists>v. Mr m a n = Inr v" "\<exists>m'. Mw a n d m = Inr m'"
    using pm.rd_total [of a n "pmem m"] pm.wr_total [of a n "pmem m" d] by (auto simp: Mr_def Mw_def)
next
  fix m m' :: machine and a n d
  assume "valid_access a n" "Mw a n d m = Inr m'"
  then show "Mr m' a n = Inr (take_bit (8 * n) d)"
    using pm.rd_wr_same [of a n "pmem m" d] by (auto simp: Mr_def Mw_def rbind_eq_Inr_iff)
next
  fix m m' :: machine and a n b k d
  assume "valid_access a n" "valid_access b k" "disjoint_access a n b k" "Mw a n d m = Inr m'"
  then show "Mr m' b k = Mr m b k"
    using pm.rd_wr_other [of a n b k "pmem m" d] by (auto simp: Mr_def Mw_def rbind_eq_Inr_iff)
qed

lemma mmsext_eq: "mmsextb v = scast (ucast v :: u8)" "mmsexth v = scast (ucast v :: u16)"
  by (rule bit_word_eqI; auto simp: mmsextb_def mmsexth_def bit_ucast_iff bit_SEXT bit_BITS
      bit_signed_iff min_def)+

lemma load_value_eq: "load_value op p m =
    rbind (Mr m (src1 p + imm p) (load_size op)) (\<lambda>v. Inr (case op of I_lb \<Rightarrow> mmsextb v | I_lh \<Rightarrow> mmsexth v | _ \<Rightarrow> v))"
  by (simp add: load_value_def load_size_def split: load_op.split)

lemma exec_store_eq: "exec_store op p m = Mw (src1 p + imm p) (store_size op) (src2 p) m"
  by (simp add: exec_store_def store_size_def split: store_op.split)

lemma load_extend_take:
  "(case op of I_lb \<Rightarrow> mmsextb v | I_lh \<Rightarrow> mmsexth v | _ \<Rightarrow> v) = load_extend op d"
  if "v = take_bit (8 * load_size op) d"
  unfolding that mmsext_eq
  by (cases op) (simp_all add: load_size_def load_extend_def; (rule bit_word_eqI)?;
     auto simp: bit_simps)+

lemma store_then_load:
  assumes "valid_access (src1 p + imm p) (store_size op)"
  shows "\<exists>m'. exec_store op p m = Inr m' \<and>
    (\<forall>lop q. src1 q + imm q = src1 p + imm p \<and> load_size lop = store_size op \<longrightarrow>
       load_value lop q m' = Inr (load_extend lop (src2 p))) \<and>
    (\<forall>lop q. valid_access (src1 q + imm q) (load_size lop) \<and>
       disjoint_access (src1 p + imm p) (store_size op) (src1 q + imm q) (load_size lop) \<longrightarrow>
       load_value lop q m' = load_value lop q m)"
proof -
  obtain m' where "exec_store op p m = Inr m'"
    and same: "Mr m' (src1 p + imm p) (store_size op) = Inr (take_bit (8 * store_size op) (src2 p))"
    and other: "\<forall>b k. valid_access b k \<and> disjoint_access (src1 p + imm p) (store_size op) b k \<longrightarrow>
      Mr m' b k = Mr m b k"
    using mm.write_read [OF assms, where m = m and d = "src2 p"] by (auto simp: exec_store_eq)
  moreover have "load_value lop q m' = Inr (load_extend lop (src2 p))"
    if "src1 q + imm q = src1 p + imm p" "load_size lop = store_size op" for lop q
    using that same by (simp add: load_value_eq load_extend_take)
  moreover have "load_value lop q m' = load_value lop q m"
    if "valid_access (src1 q + imm q) (load_size lop) \<and>
      disjoint_access (src1 p + imm p) (store_size op) (src1 q + imm q) (load_size lop)" for lop q
    using that other by (simp add: load_value_eq)
  ultimately show ?thesis by blast
qed

text \<open>A store of any width inside the memory succeeds; a load of that width from the same
  address then returns the stored bytes, sign- or zero-extended as the load asks, and a load from
  any disjoint place returns what it did before.\<close>

lemma store_load_correct:
  assumes "valid_access (src1 p + imm p) (store_size op)"
  shows "\<exists>m'. exec_store op p m = Inr m' \<and>
    (\<forall>lop q. src1 q + imm q = src1 p + imm p \<and> load_size lop = store_size op \<longrightarrow>
       load_value lop q m' = Inr (load_extend lop (src2 p))) \<and>
    (\<forall>lop q. valid_access (src1 q + imm q) (load_size lop) \<and>
       disjoint_access (src1 p + imm p) (store_size op) (src1 q + imm q) (load_size lop) \<longrightarrow>
       load_value lop q m' = load_value lop q m)"
  by (rule store_then_load [OF assms])

lemma store_load_correct_witness:
  "\<forall>m. \<exists>m'. exec_store I_sb (no_operands\<lparr>src1 := 0x80000000, src2 := 0x1f0\<rparr>) m = Inr m' \<and>
     load_value I_lb (no_operands\<lparr>src1 := 0x80000000\<rparr>) m' = Inr (- 16)"
proof
  fix m
  let ?p = "no_operands\<lparr>src1 := 0x80000000, src2 := 0x1f0\<rparr>"
  have "valid_access (src1 ?p + imm ?p) (store_size I_sb)"
    by (simp add: no_operands_def valid_access_def store_size_def)
  from store_load_correct [OF this, of m] obtain m' where "exec_store I_sb ?p m = Inr m'"
    and "load_value I_lb (no_operands\<lparr>src1 := 0x80000000\<rparr>) m' = Inr (load_extend I_lb (src2 ?p))"
    by (auto simp: no_operands_def load_size_def store_size_def)
  moreover have "load_extend I_lb (src2 ?p) = - 16" by code_simp
  ultimately show "\<exists>m'. exec_store I_sb ?p m = Inr m' \<and>
     load_value I_lb (no_operands\<lparr>src1 := 0x80000000\<rparr>) m' = Inr (- 16)" by auto
qed
end
