(* ===== verification/Nemu_Cpu.thy ===== *)
theory Nemu_Cpu
  imports Nemu_Semantics
begin

text \<open>
  The execution loop (\<open>simulator/nemu/src/cpu/cpu-exec.c\<close>), the reset state
  (\<open>src/isa/riscv32/init.c\<close>) and the entry points the co-simulation calls
  (\<open>src/cpu/difftest/ref.c\<close>): the loop as a step relation, its invariants, its faults, and the
  state transfer between the two simulators.
\<close>

section \<open>Reset\<close>

definition restart :: "CPU_state \<Rightarrow> CPU_state" where
  "restart c = (let c = c\<lparr>pc := RESET_VECTOR\<rparr> in c\<lparr>gpr := (gpr c)(0 := 0)\<rparr>)"

definition init_isa :: "machine \<Rightarrow> machine" where
  "init_isa m = m\<lparr>cpu := restart (cpu m)\<rparr>"

section \<open>The execution loop\<close>

text \<open>
  \<open>exec_once\<close> reuses the caller's \<open>Decode\<close>, which \<open>execute\<close> does not initialise: its first value
  is a parameter. \<open>g_print_step\<close> is written and never read, and is not kept.
\<close>

definition exec_once :: "Decode \<Rightarrow> vaddr_t \<Rightarrow> machine \<Rightarrow> (machine \<times> Decode) res" where
  "exec_once s here m =
     (let s = s\<lparr>s_pc := here, snpc := here\<rparr> in
      rbind (isa_exec_once m s) (\<lambda>(m, s). Inr (m\<lparr>cpu := (cpu m)\<lparr>pc := dnpc s\<rparr>\<rparr>, s)))"

fun execute_loop :: "nat \<Rightarrow> Decode \<Rightarrow> machine \<Rightarrow> machine res" where
  "execute_loop 0 s m = Inr m"
| "execute_loop (Suc n) s m =
     rbind (exec_once s (pc (cpu m)) m) (\<lambda>(m, s).
       execute_loop n s (m\<lparr>g_nr_guest_inst := g_nr_guest_inst m + 1\<rparr>))"

definition execute :: "Decode \<Rightarrow> u64 \<Rightarrow> machine \<Rightarrow> machine res" where
  "execute s n m = execute_loop (unat n) s m"

definition cpu_exec :: "Decode \<Rightarrow> u64 \<Rightarrow> machine \<Rightarrow> machine res" where
  "cpu_exec s n m = execute s n m"

section \<open>The interface of the co-simulation\<close>

datatype direction = DIFFTEST_TO_DUT | DIFFTEST_TO_REF

text \<open>
  \<open>memcpy\<close> between the emulated memory and the caller's buffer of \<open>n\<close> bytes; there is no range
  test. The caller's register block has the layout of \<open>CPU_state\<close>, and \<open>DIFFTEST_REG_SIZE\<close> is the
  size of all of it: 32 registers, the pc and four CSRs.
\<close>

definition difftest_memcpy :: "paddr_t \<Rightarrow> bytes \<Rightarrow> nat \<Rightarrow> direction \<Rightarrow> machine \<Rightarrow> (machine \<times> bytes) res" where
  "difftest_memcpy addr buf n dir m =
     rbind (rassert Out_of_bounds (n = 0 \<or> in_object (guest_to_host addr) n)) (\<lambda>_.
       case dir of
         DIFFTEST_TO_DUT \<Rightarrow> Inr (m, store buf 0 (load (pmem m) (nat (guest_to_host addr)) n))
       | DIFFTEST_TO_REF \<Rightarrow>
           Inr (m\<lparr>pmem := store (pmem m) (nat (guest_to_host addr)) (load buf 0 n)\<rparr>, buf))"

definition difftest_regcpy :: "CPU_state \<Rightarrow> direction \<Rightarrow> machine \<Rightarrow> machine \<times> CPU_state" where
  "difftest_regcpy dut dir m =
     (case dir of DIFFTEST_TO_DUT \<Rightarrow> (m, cpu m) | DIFFTEST_TO_REF \<Rightarrow> (m\<lparr>cpu := dut\<rparr>, dut))"

definition difftest_exec :: "Decode \<Rightarrow> u64 \<Rightarrow> machine \<Rightarrow> machine res" where
  "difftest_exec s n m = cpu_exec s n m"

definition difftest_init :: "(nat \<Rightarrow> u32) \<Rightarrow> machine \<Rightarrow> machine" where
  "difftest_init rnd m = init_isa (m\<lparr>pmem := init_mem rnd (pmem m)\<rparr>)"

section \<open>One step\<close>

lemma search_total: "\<exists>name ty. instpat_search instpats i = Inr (Some (name, ty))"
proof -
  have "(''??????? ????? ????? ??? ????? ????? ??'', I_inv, TYPE_N) \<in> set instpats"
    by (simp add: instpats_def)
  then have "find (\<lambda>(str, _). pattern_match str i) instpats \<noteq> None"
    using pf_inv [of i] unfolding find_None_iff by blast
  then show ?thesis by (auto simp: instpat_search_eq [OF instpats_ok])
qed

lemma BITS_reg_less: "unat (BITS i (k + 4) k) < 32"
proof -
  have "take_bit 5 (BITS i (k + 4) k) = BITS i (k + 4) k"
    by (rule bit_word_eqI) (auto simp: bit_take_bit_iff bit_BITS)
  then show ?thesis using unat_take_bit_less [of 5 "BITS i (k + 4) k"] by simp
qed

lemma operands_total:
  "\<exists>p. decode_operand c i ty ops = Inr p \<and> rd p < 32 \<and> (ty = TYPE_I \<longrightarrow> imm p = immI i)"
  using BITS_reg_less [of i 7] BITS_reg_less [of i 15] BITS_reg_less [of i 20]
  by (cases ty) (simp_all add: decode_operand_def get_R_eq)

lemma paddr_fault:
  assumes "n \<in> {1, 2, 4}"
  shows "paddr_read m a n = Inl e \<Longrightarrow> e = Out_of_bounds"
    and "paddr_write m a n d = Inl e \<Longrightarrow> e = Out_of_bounds"
  using assms by (auto simp: paddr_read_def pmem_read_def paddr_write_def pmem_write_def
      host_read_def host_write_def raw_read_def raw_write_def rbind_eq_Inl_iff split: if_splits)

lemma inst_fetch_fault: "inst_fetch m a 4 = Inl e \<Longrightarrow> e = Out_of_bounds"
  using paddr_fault [of 4] by (auto simp: inst_fetch_def rbind_eq_Inl_iff)

lemma exec_body_fault:
  assumes "exec_body name p s m = Inl e" and "rd p < 32"
  shows "e = Out_of_bounds \<or> e = Assertion \<and> (\<exists>op. name = Csr op) \<and> \<not> csr_index (imm p)"
proof (cases name)
  case (Load op)
  have "load_size op \<in> {1, 2, 4}" by (cases op) (simp_all add: load_size_def)
  then show ?thesis using assms paddr_fault(1) Load
    by (auto simp: exec_body_def load_value_eq rbind_eq_Inl_iff put_R_eq Mr_def)
next
  case (Store op)
  have "store_size op \<in> {1, 2, 4}" by (cases op) (simp_all add: store_size_def)
  then show ?thesis using assms paddr_fault(2) Store
    by (auto simp: exec_body_def exec_store_eq rbind_eq_Inl_iff Mw_def)
next
  case (Csr op)
  then show ?thesis using assms
    by (cases op) (auto simp: exec_body_def exec_csr_def read_csr_to_R_def csr_read_eq csr_write_eq
        put_R_eq put_csr_def get_R_eq split: if_splits)
next
  case I_inv
  then show ?thesis using assms inst_fetch_fault
    by (fastforce simp: exec_body_def invalid_inst_def rbind_eq_Inl_iff)
next
  case (Branch x3)
  then show ?thesis using assms by (simp add: exec_body_def)
qed (use assms in \<open>simp_all add: exec_body_def put_R_eq get_R_eq Let_def\<close>)

text \<open>Everything but stores works on the registers alone.\<close>

definition same_frame :: "machine \<Rightarrow> machine \<Rightarrow> bool" where
  "same_frame m m' \<longleftrightarrow>
     pmem m' = pmem m \<and> g_nr_guest_inst m' = g_nr_guest_inst m \<and> pc (cpu m') = pc (cpu m)"

lemma same_frame_refl [simp]: "same_frame m m"
  by (simp add: same_frame_def)

lemma put_R_frame: "put_R i v m = Inr m' \<Longrightarrow> same_frame m m'"
  by (auto simp: put_R_def set_R_def rbind_eq_Inr_iff same_frame_def)

lemma exec_csr_frame: "exec_csr op p i m = Inr m' \<Longrightarrow> rd p < 32 \<Longrightarrow> same_frame m m'"
  by (cases op) (auto simp: exec_csr_def read_csr_to_R_def csr_read_eq csr_write_eq put_R_eq
      put_csr_def get_R_eq same_frame_def split: if_splits)

lemma exec_body_frame:
  assumes "exec_body name p s m = Inr (m', s')" and "rd p < 32" and "\<forall>op. name \<noteq> Store op"
  shows "same_frame m m'"
  using assms
  by (cases name) (auto simp: exec_body_def rbind_eq_Inr_iff exec_ecall_def exec_mret_def Let_def
      isa_raise_intr_def set_nemu_state_def invalid_inst_def same_frame_def [of _ "machine.cpu_update _ _"]
      same_frame_def [of _ "machine.printed_update _ _"] split: if_splits prod.splits
      dest: put_R_frame exec_csr_frame)

lemma exec_store_frame:
  "exec_store op p m = Inr m' \<Longrightarrow> g_nr_guest_inst m' = g_nr_guest_inst m \<and> cpu m' = cpu m"
  by (auto simp: exec_store_eq Mw_def rbind_eq_Inr_iff)

lemma decode_exec_eq:
  assumes "instpat_search instpats (inst_val s) = Inr (Some (name, ty))"
    and "decode_operand (cpu m) (inst_val s) ty no_operands = Inr p"
  shows "decode_exec m s = rbind (exec_body name p (s\<lparr>dnpc := snpc s\<rparr>) m) (\<lambda>(m, s).
    Inr (m\<lparr>cpu := (cpu m)\<lparr>gpr := (gpr (cpu m))(0 := 0)\<rparr>\<rparr>, s))"
  using assms by (simp add: decode_exec_def put_R_eq)

text \<open>The state an instruction at \<open>here\<close> starts from, whatever \<open>exec_once\<close> was given.\<close>

abbreviation decoded :: "vaddr_t \<Rightarrow> u32 \<Rightarrow> Decode" where
  "decoded here i \<equiv> \<lparr>s_pc = here, snpc = here + 4, dnpc = here + 4, inst_val = i\<rparr>"

lemma exec_once_eq:
  assumes "paddr_read (pmem m) here 4 = Inr i"
    and "instpat_search instpats i = Inr (Some (name, ty))"
    and "decode_operand (cpu m) i ty no_operands = Inr p"
  shows "exec_once s here m = rbind (exec_body name p (decoded here i) m) (\<lambda>(m, s).
    Inr (m\<lparr>cpu := (cpu m)\<lparr>gpr := (gpr (cpu m))(0 := 0), pc := dnpc s\<rparr>\<rparr>, s))"
proof -
  have s: "s\<lparr>s_pc := here, inst_val := i, snpc := here + 4, dnpc := here + 4\<rparr> = decoded here i" by simp
  show ?thesis
    using assms by (simp add: exec_once_def isa_exec_once_def inst_fetch_def decode_exec_eq rbind_assoc s
        case_prod_unfold)
qed

lemma exec_once_fetch_fault:
  "paddr_read (pmem m) here 4 = Inl e \<Longrightarrow> exec_once s here m = Inl e"
  by (simp add: exec_once_def isa_exec_once_def inst_fetch_def)

lemma exec_once_elim:
  assumes "exec_once s here m = Inr (m', s')"
  obtains i name ty p m1 where "paddr_read (pmem m) here 4 = Inr i"
    and "instpat_search instpats i = Inr (Some (name, ty))"
    and "decode_operand (cpu m) i ty no_operands = Inr p" and "rd p < 32"
    and "exec_body name p (decoded here i) m = Inr (m1, s')"
    and "m' = m1\<lparr>cpu := (cpu m1)\<lparr>gpr := (gpr (cpu m1))(0 := 0), pc := dnpc s'\<rparr>\<rparr>"
proof -
  obtain i where i: "paddr_read (pmem m) here 4 = Inr i"
    using assms exec_once_fetch_fault by (cases "paddr_read (pmem m) here 4") auto
  obtain name ty where n: "instpat_search instpats i = Inr (Some (name, ty))"
    using search_total by blast
  obtain p where p: "decode_operand (cpu m) i ty no_operands = Inr p" "rd p < 32"
    using operands_total by blast
  show thesis
    using assms that [OF i n p] by (auto simp: exec_once_eq [OF i n p(1)] rbind_eq_Inr_iff)
qed

lemma exec_once_uninit: "exec_once s here m = exec_once t here m"
proof (cases "paddr_read (pmem m) here 4")
  case (Inr i)
  obtain name ty where n: "instpat_search instpats i = Inr (Some (name, ty))"
    using search_total by blast
  obtain p where p: "decode_operand (cpu m) i ty no_operands = Inr p"
    using operands_total by blast
  show ?thesis by (simp add: exec_once_eq [OF Inr n p])
qed (simp add: exec_once_fetch_fault)

section \<open>Steps and runs\<close>

inductive nemu_step :: "machine \<Rightarrow> machine \<Rightarrow> bool" where
  step: "exec_once s (pc (cpu m)) m = Inr (m', s') \<Longrightarrow>
    nemu_step m (m'\<lparr>g_nr_guest_inst := g_nr_guest_inst m' + 1\<rparr>)"

inductive_cases nemu_stepE: "nemu_step m m'"

lemma execute_loop_steps: "execute_loop n s m = Inr m' \<longleftrightarrow> (nemu_step ^^ n) m m'"
proof (induction n arbitrary: s m)
  case (Suc n)
  have "execute_loop (Suc n) s m = Inr m' \<longleftrightarrow>
      (\<exists>m1 s1. exec_once s (pc (cpu m)) m = Inr (m1, s1) \<and>
        (nemu_step ^^ n) (m1\<lparr>g_nr_guest_inst := g_nr_guest_inst m1 + 1\<rparr>) m')"
    by (auto simp: rbind_eq_Inr_iff Suc.IH)
  also have "\<dots> \<longleftrightarrow> (\<exists>m2. nemu_step m m2 \<and> (nemu_step ^^ n) m2 m')"
    using exec_once_uninit [of s] by (auto elim!: nemu_stepE intro: step) (metis step)+
  also have "\<dots> \<longleftrightarrow> (nemu_step ^^ Suc n) m m'"
    by (metis relpowp_Suc_I2 relpowp_Suc_E2)
  finally show ?case .
qed auto

lemma nemu_step_deterministic: "nemu_step m m1 \<Longrightarrow> nemu_step m m2 \<Longrightarrow> m1 = m2"
  by (elim nemu_stepE) (metis exec_once_uninit sum.inject(2) prod.inject)

lemma nemu_step_inv:
  assumes "nemu_step m m'"
  shows "gpr (cpu m') 0 = 0" and "g_nr_guest_inst m' = g_nr_guest_inst m + 1"
proof -
  obtain s s' m1 where e: "exec_once s (pc (cpu m)) m = Inr (m1, s')"
    and m': "m' = m1\<lparr>g_nr_guest_inst := g_nr_guest_inst m1 + 1\<rparr>"
    using assms by (auto elim: nemu_stepE)
  from e obtain i name p m2 where b: "exec_body name p (decoded (pc (cpu m)) i) m = Inr (m2, s')" "rd p < 32"
    and m1: "m1 = m2\<lparr>cpu := (cpu m2)\<lparr>gpr := (gpr (cpu m2))(0 := 0), pc := dnpc s'\<rparr>\<rparr>"
    by (elim exec_once_elim)
  have "g_nr_guest_inst m2 = g_nr_guest_inst m"
  proof (cases "\<exists>op. name = Store op")
    case True
    then show ?thesis using b(1) exec_store_frame by (auto simp: exec_body_def rbind_eq_Inr_iff)
  next
    case False
    then show ?thesis using exec_body_frame [OF b] by (simp add: same_frame_def)
  qed
  then show "gpr (cpu m') 0 = 0" "g_nr_guest_inst m' = g_nr_guest_inst m + 1"
    by (simp_all add: m' m1)
qed

lemma steps_inv:
  assumes "(nemu_step ^^ n) m m'"
  shows "g_nr_guest_inst m' = g_nr_guest_inst m + of_nat n \<and>
    (gpr (cpu m) 0 = 0 \<or> 0 < n \<longrightarrow> gpr (cpu m') 0 = 0)"
  using assms
proof (induction n arbitrary: m')
  case (Suc n)
  then obtain m1 where "(nemu_step ^^ n) m m1" "nemu_step m1 m'" by auto
  then show ?case using Suc.IH nemu_step_inv by auto
qed simp

lemma cpu_exec_steps: "cpu_exec s n m = Inr m' \<longleftrightarrow> (nemu_step ^^ unat n) m m'"
  by (simp add: cpu_exec_def execute_def execute_loop_steps)

section \<open>Properties\<close>

text \<open>C10: The execution loop computes exactly the \<open>n\<close>-fold step relation of the machine, whatever
  the uninitialised \<open>Decode\<close> it starts with; the relation is deterministic.\<close>

theorem cpu_exec_iff_steps:
  "(cpu_exec s n m = Inr m' \<longleftrightarrow> (nemu_step ^^ unat n) m m') \<and>
   cpu_exec s n m = cpu_exec t n m"
proof -
  have "execute_loop k s m = execute_loop k t m" for k s t m
    by (cases k) (simp_all add: exec_once_uninit [of s _ _ t])
  then show ?thesis by (simp add: cpu_exec_def execute_def execute_loop_steps)
qed

text \<open>C21: A run keeps register zero at 0 (and establishes it with its first instruction) and counts
  its instructions, modulo \<open>2 ^ 64\<close>; two runs in sequence are one run of the sum.\<close>

theorem cpu_exec_invariant:
  assumes "cpu_exec s n m = Inr m1" and "gpr (cpu m) 0 = 0 \<or> 0 < n"
  shows "gpr (cpu m1) 0 = 0 \<and> g_nr_guest_inst m1 = g_nr_guest_inst m + n \<and>
    (\<forall>k m2. unat n + unat k < 2 ^ 64 \<longrightarrow>
       (cpu_exec s k m1 = Inr m2 \<longleftrightarrow> cpu_exec s (n + k) m = Inr m2))"
proof -
  have steps: "(nemu_step ^^ unat n) m m1" using assms(1) by (simp add: cpu_exec_steps)
  have det: "(nemu_step ^^ k) m a \<Longrightarrow> (nemu_step ^^ k) m b \<Longrightarrow> a = b" for k a b
    by (metis execute_loop_steps sum.inject(2))
  have "(nemu_step ^^ unat k) m1 m2 \<longleftrightarrow> (nemu_step ^^ unat (n + k)) m m2"
    if "unat n + unat k < 2 ^ 64" for k m2
  proof -
    have "unat (n + k) = unat n + unat k" using that by (simp add: unat_add_lem [symmetric])
    then show ?thesis using steps det by (auto simp: relpowp_add relcompp_apply)
  qed
  then show ?thesis using steps_inv [OF steps] assms(2)
    by (auto simp: cpu_exec_steps word_less_nat_alt)
qed

text \<open>A machine at reset with the words of a program at the start of its memory.\<close>

definition boot :: "u32 list \<Rightarrow> machine" where
  "boot ws = init_isa
     \<lparr>cpu = \<lparr>gpr = \<lambda>_. 0, pc = 0, csr = \<lparr>mepc = 0, mstatus = 0, mcause = 0, mtvec = 0\<rparr>\<rparr>,
      pmem = (\<lambda>k. if k < 4 * length ws then ucast (drop_bit (8 * (k mod 4)) (ws ! (k div 4))) else 0),
      g_nr_guest_inst = 0, printed = []\<rparr>"

definition idle :: Decode where "idle = \<lparr>s_pc = 0, snpc = 0, dnpc = 0, inst_val = 0\<rparr>"


lemma example_decode:
  "instpat_search instpats 0x00500093 = Inr (Some (Alu I_addi, TYPE_I))"
  "instpat_search instpats 0x00108133 = Inr (Some (Alu I_add, TYPE_R))"
proof -
  have "decode_defined 0x00500093" "decode_defined 0x00108133" by (code_simp, code_simp)
  moreover have "rv_decode 0x00500093 = (Alu I_addi, TYPE_I)" "rv_decode 0x00108133 = (Alu I_add, TYPE_R)"
    by (code_simp, code_simp)
  ultimately show "instpat_search instpats 0x00500093 = Inr (Some (Alu I_addi, TYPE_I))"
    "instpat_search instpats 0x00108133 = Inr (Some (Alu I_add, TYPE_R))"
    using search_rv_decode [of "0x00500093"] search_rv_decode [of "0x00108133"] by simp_all
qed


lemma example_operands:
  "decode_operand c 0x00500093 TYPE_I no_operands = Inr \<lparr>rd = 1, src1 = gpr c 0, src2 = 0, imm = 5\<rparr>"
  "decode_operand c 0x00108133 TYPE_R no_operands = Inr \<lparr>rd = 2, src1 = gpr c 1, src2 = gpr c 1, imm = 0\<rparr>"
  by (simp_all add: decode_operand_def get_R_eq BITS_def BITMASK_def immI_def SEXT_def no_operands_def)

lemma example_fetch:
  "paddr_read (pmem (boot [0x00500093, 0x00108133])) 0x80000000 4 = Inr 0x00500093"
  "paddr_read (pmem (boot [0x00500093, 0x00108133])) 0x80000004 4 = Inr 0x00108133"
proof -
  have "word_of_bytes (load (pmem (boot [0x00500093, 0x00108133])) 0 4) = (0x00500093 :: u32)"
    "word_of_bytes (load (pmem (boot [0x00500093, 0x00108133])) 4 4) = (0x00108133 :: u32)"
    by code_simp+
  then show "paddr_read (pmem (boot [0x00500093, 0x00108133])) 0x80000000 4 = Inr 0x00500093"
    "paddr_read (pmem (boot [0x00500093, 0x00108133])) 0x80000004 4 = Inr 0x00108133"
    by (simp_all add: paddr_read_valid valid_access_def)
qed

lemma run_example:
  "\<exists>m. cpu_exec idle 2 (boot [0x00500093, 0x00108133]) = Inr m \<and>
     gpr (cpu m) 2 = 10 \<and> pc (cpu m) = 0x80000008"
proof -
  let ?m = "boot [0x00500093, 0x00108133]"
  have r: "gpr (cpu ?m) = (\<lambda>_. 0)" "pc (cpu ?m) = 0x80000000"
    by (simp_all add: boot_def init_isa_def restart_def layout_defs Let_def fun_eq_iff)
  have "unat (2 :: u64) = Suc (Suc 0)" by simp
  then have "cpu_exec idle 2 ?m = execute_loop (Suc (Suc 0)) idle ?m"
    by (simp only: cpu_exec_def execute_def)
  then show ?thesis
    by (simp add: r exec_body_def put_R_eq alu_value_def
        exec_once_eq [OF example_fetch(1) example_decode(1) example_operands(1)]
        exec_once_eq [OF _ example_decode(2) example_operands(2)] example_fetch)
qed

lemma cpu_exec_invariant_witness:
  "\<exists>m. cpu_exec idle 2 (boot [0x00500093, 0x00108133]) = Inr m \<and> gpr (cpu m) 0 = 0 \<and>
     g_nr_guest_inst m = 2"
proof -
  obtain m where m: "cpu_exec idle 2 (boot [0x00500093, 0x00108133]) = Inr m"
    using run_example by blast
  have "g_nr_guest_inst (boot [0x00500093, 0x00108133]) = 0"
    by (simp add: boot_def init_isa_def)
  then show ?thesis using cpu_exec_invariant [OF m] m by simp
qed

lemma decode_type_I:
  assumes "instpat_search instpats i = Inr (Some (Csr op, ty))"
  shows "ty = TYPE_I"
proof -
  have "\<forall>(_, name, ty) \<in> set instpats. (\<exists>op. name = Csr op) \<longrightarrow> ty = TYPE_I"
    by (simp add: instpats_def)
  moreover obtain str where "find (\<lambda>(str, _). pattern_match str i) instpats = Some (str, Csr op, ty)"
    using assms by (auto simp: instpat_search_eq [OF instpats_ok])
  then have "(str, Csr op, ty) \<in> set instpats" by (auto simp: find_Some_iff) (metis nth_mem)
  ultimately show ?thesis by blast
qed

lemma exec_once_fault:
  assumes "exec_once s here m = Inl e"
  shows "e = Out_of_bounds \<or> e = Assertion \<and> (\<exists>i op. paddr_read (pmem m) here 4 = Inr i \<and>
    instpat_search instpats i = Inr (Some (Csr op, TYPE_I)) \<and> \<not> csr_index (immI i))"
proof (cases "paddr_read (pmem m) here 4")
  case (Inl f)
  then show ?thesis using assms paddr_fault(1) [of 4] by (auto simp: exec_once_fetch_fault)
next
  case (Inr i)
  obtain name ty where n: "instpat_search instpats i = Inr (Some (name, ty))"
    using search_total by blast
  obtain p where p: "decode_operand (cpu m) i ty no_operands = Inr p" "rd p < 32"
    "ty = TYPE_I \<longrightarrow> imm p = immI i" using operands_total by blast
  have b: "exec_body name p (decoded here i) m = Inl e"
    using assms by (auto simp: exec_once_eq [OF Inr n p(1)] rbind_eq_Inl_iff)
  from exec_body_fault [OF b p(2)] show ?thesis
  proof (elim disjE conjE exE)
    fix op assume "e = Assertion" "\<not> csr_index (imm p)" "name = Csr op"
    moreover have "ty = TYPE_I" using decode_type_I n \<open>name = Csr op\<close> by blast
    ultimately show ?thesis using Inr n p(3) by simp
  qed simp
qed

text \<open>One instruction never panics (the table is exhaustive and its patterns compile); it fails
  an assertion only when it is a CSR instruction on a register that is not implemented; any other
  fault is an access across the end of the memory.\<close>

lemma exec_once_faults:
  assumes "exec_once s here m = Inl e"
  shows "e = Out_of_bounds \<or> e = Assertion \<and> (\<exists>i op. paddr_read (pmem m) here 4 = Inr i \<and>
    instpat_search instpats i = Inr (Some (Csr op, TYPE_I)) \<and> \<not> csr_index (immI i))"
  by (rule exec_once_fault [OF assms])

lemma exec_once_faults_witness:
  "exec_once idle 0x87fffffe (boot []) = Inl Out_of_bounds \<and> Out_of_bounds \<noteq> Panic"
proof -
  let ?m = "boot []"
  have "in_pmem 0x87fffffe" "\<not> in_object (guest_to_host 0x87fffffe) 4"
    by (simp_all add: in_pmem_iff in_object_def guest_to_host_eq CONFIG_MSIZE_def)
  then have "paddr_read (pmem ?m) 0x87fffffe 4 = Inl Out_of_bounds"
    by (simp add: paddr_read_def pmem_read_def host_read_def raw_read_def)
  then have "exec_once idle 0x87fffffe ?m = Inl Out_of_bounds" by (rule exec_once_fetch_fault)
  then show ?thesis using exec_once_faults [of idle "0x87fffffe" ?m Out_of_bounds] by auto
qed

text \<open>The instructions that write \<open>dnpc\<close>.\<close>

definition transfers :: "inst_name \<Rightarrow> bool" where
  "transfers name \<longleftrightarrow> (\<exists>op. name = Branch op) \<or> name \<in> {I_jal, I_jalr, I_ecall, I_mret}"

lemma exec_body_dnpc:
  assumes "exec_body name p s m = Inr (m', s')" and "\<not> transfers name"
  shows "s' = s"
  using assms by (cases name) (auto simp: exec_body_def transfers_def rbind_eq_Inr_iff)

text \<open>An instruction that is not a store leaves the memory alone, and one that is not a branch,
  jump or trap continues at the next word.\<close>

lemma exec_once_frame:
  assumes "exec_once s here m = Inr (m', s')"
    and "paddr_read (pmem m) here 4 = Inr i" and "instpat_search instpats i = Inr (Some (name, ty))"
  shows "((\<forall>op. name \<noteq> Store op) \<longrightarrow> pmem m' = pmem m) \<and>
    (\<not> transfers name \<longrightarrow> pc (cpu m') = here + 4)"
proof -
  from assms(1) obtain j name' ty' p m1 where j: "paddr_read (pmem m) here 4 = Inr j"
    and n: "instpat_search instpats j = Inr (Some (name', ty'))" and p: "rd p < 32"
    and b: "exec_body name' p (decoded here j) m = Inr (m1, s')"
    and m': "m' = m1\<lparr>cpu := (cpu m1)\<lparr>gpr := (gpr (cpu m1))(0 := 0), pc := dnpc s'\<rparr>\<rparr>"
    by (elim exec_once_elim)
  have e: "j = i" "name' = name" using assms(2,3) j n by auto
  show ?thesis
    using exec_body_frame [OF b p] exec_body_dnpc [OF b] by (auto simp: m' e same_frame_def)
qed

lemma exec_once_frame_witness:
  "\<exists>m s. exec_once idle 0x80000000 (boot [0x00500093, 0x00108133]) = Inr (m, s) \<and>
     pc (cpu m) = 0x80000004 \<and> pmem m = pmem (boot [0x00500093, 0x00108133])"
proof -
  obtain m s where e: "exec_once idle 0x80000000 (boot [0x00500093, 0x00108133]) = Inr (m, s)"
    by (auto simp: exec_once_eq [OF example_fetch(1) example_decode(1) example_operands(1)]
        exec_body_def put_R_eq)
  show ?thesis using exec_once_frame [OF e example_fetch(1) example_decode(1)] e
    by (auto simp: transfers_def)
qed

text \<open>Copying a block into the emulated memory and back returns the block, changes nothing else,
  and works for every range inside the memory; the register copy transfers the whole register
  file, so a run after both copies is a run of the copied state.\<close>

lemma difftest_copy_round_trip:
  assumes "0x80000000 \<le> unat addr" and "unat addr + n \<le> 0x88000000"
  shows "\<exists>m'. difftest_memcpy addr buf n DIFFTEST_TO_REF m = Inr (m', buf) \<and>
    cpu m' = cpu m \<and> (\<forall>k. k < offset_of addr \<or> offset_of addr + n \<le> k \<longrightarrow> pmem m' k = pmem m k) \<and>
    (\<exists>buf'. difftest_memcpy addr other n DIFFTEST_TO_DUT m' = Inr (m', buf') \<and>
       load buf' 0 n = load buf 0 n) \<and>
    (case difftest_regcpy dut DIFFTEST_TO_REF m' of (m2, _) \<Rightarrow>
       difftest_exec s k m2 = cpu_exec s k (m'\<lparr>cpu := dut\<rparr>))"
proof -
  have obj: "in_object (guest_to_host addr) n"
    using assms unfolding in_object_def guest_to_host_eq CONFIG_MSIZE_def by linarith
  have "guest_to_host addr = int (offset_of addr)" using assms(1) unfolding guest_to_host_eq by linarith
  then have off: "nat (guest_to_host addr) = offset_of addr" by simp
  show ?thesis
    by (simp add: difftest_memcpy_def obj off difftest_regcpy_def difftest_exec_def byte_simps
        store_outside)
qed

lemma difftest_copy_round_trip_witness:
  "\<exists>m' buf'. difftest_memcpy 0x80000010 (\<lambda>k. of_nat k + 1) 4 DIFFTEST_TO_REF (boot []) = Inr (m', \<lambda>k. of_nat k + 1) \<and>
     difftest_memcpy 0x80000010 (\<lambda>_. 0) 4 DIFFTEST_TO_DUT m' = Inr (m', buf') \<and> load buf' 0 4 = [1, 2, 3, 4]"
proof -
  have "load (\<lambda>k. of_nat k + 1) 0 4 = ([1, 2, 3, 4] :: u8 list)" by code_simp
  moreover have "fst x = m" if "difftest_memcpy a buf n DIFFTEST_TO_DUT m = Inr x" for a buf n m x
    using that by (auto simp: difftest_memcpy_def rbind_eq_Inr_iff)
  ultimately show ?thesis
    using difftest_copy_round_trip [where addr = "0x80000010" and n = 4
        and buf = "\<lambda>k. of_nat k + 1" and m = "boot []" and other = "\<lambda>_. 0"] by fastforce
qed
end
