(* ===== verification/Sim_Map.thy ===== *)
theory Sim_Map
  imports Nemu_Memory
begin

text \<open>
  The device side of the simulator, first part: the space allocator and the mapped accesses of
  \<open>simulator/sim/device/io/map.c\<close>, and the table of regions of \<open>include/device/map.h\<close> and
  \<open>device/io/mmio.c\<close>. The block \<open>malloc\<close>ed by \<open>init_map\<close> is a function from offsets to bytes, a
  pointer into it is its offset.
\<close>

section \<open>State\<close>

datatype sim_status = SIM_RUNNING | SIM_STOP | SIM_END | SIM_ABORT | SIM_QUIT

text \<open>The device functions a region can name.\<close>

datatype io_callback = Serial_io_handler | Rtc_io_handler | I8042_data_io_handler | Fast_fb_draw | Rw_disk

record IOMap =
  map_name :: string
  low :: paddr_t
  high :: paddr_t
  space :: int
  callback :: "io_callback option"

record keyboard =
  key_queue :: "nat \<Rightarrow> u32"
  key_f :: nat
  key_r :: nat
  keymap :: "nat \<Rightarrow> u32"

text \<open>The static pointers of the device files, as offsets into the block.\<close>

record ports =
  serial_base :: int
  rtc_port_base :: int
  i8042_data_port_base :: int
  vgactl_port_base :: int
  vmem :: int
  ffb_mem :: int
  diskctl_port_base :: int

record sim =
  io_space :: bytes
  p_space :: int
  maps :: "IOMap list"
  sim_state :: sim_status
  skip_ref :: bool
  kbd :: keyboard
  ptr :: ports
  serial_out :: "u8 list"
  texture :: bytes
  ramdisk :: "u8 list"
  sim_pmem :: bytes
  ref_pmem :: bytes
  boot_time :: u64
  last_update :: u64

section \<open>The allocator\<close>

definition IO_SPACE_MAX :: nat where "IO_SPACE_MAX = 2 * 1024 * 1024"

definition init_map :: "sim \<Rightarrow> sim" where
  "init_map s = s\<lparr>p_space := 0\<rparr>"

text \<open>The size is rounded up in 64 bits (\<open>PAGE_SIZE\<close> is an \<open>unsigned long\<close>) and stored in an \<open>int\<close>.\<close>

definition page_round :: "u32 \<Rightarrow> u32" where
  "page_round sz = ucast ((scast sz + (0x1000 - 1)) AND NOT (0xfff :: u64))"

definition new_space :: "u32 \<Rightarrow> sim \<Rightarrow> (int \<times> sim) res" where
  "new_space sz s =
     (let p = p_space s; s = s\<lparr>p_space := p_space s + sint (page_round sz)\<rparr> in
      rbind (rassert Assertion (p_space s < int IO_SPACE_MAX)) (\<lambda>_. Inr (p, s)))"

section \<open>Accesses to an object of a given size\<close>

definition obj_read :: "nat \<Rightarrow> bytes \<Rightarrow> int \<Rightarrow> nat \<Rightarrow> word_t res" where
  "obj_read sz m p n =
     rbind (rassert Out_of_bounds (0 \<le> p \<and> p + int n \<le> int sz)) (\<lambda>_.
       Inr (word_of_bytes (load m (nat p) n)))"

definition obj_write :: "nat \<Rightarrow> bytes \<Rightarrow> int \<Rightarrow> nat \<Rightarrow> word_t \<Rightarrow> bytes res" where
  "obj_write sz m p n d =
     rbind (rassert Out_of_bounds (0 \<le> p \<and> p + int n \<le> int sz)) (\<lambda>_.
       Inr (store m (nat p) (bytes_of_word n d)))"

definition sim_host_read :: "bytes \<Rightarrow> int \<Rightarrow> nat \<Rightarrow> word_t res" where
  "sim_host_read m p len =
     (if len = 1 \<or> len = 2 \<or> len = 4 \<or> len = 8 then obj_read IO_SPACE_MAX m p len else Inl Assertion)"

definition sim_host_write :: "bytes \<Rightarrow> int \<Rightarrow> nat \<Rightarrow> word_t \<Rightarrow> bytes res" where
  "sim_host_write m p len data =
     (if len = 1 \<or> len = 2 \<or> len = 4 \<or> len = 8 then obj_write IO_SPACE_MAX m p len data else Inl Assertion)"

text \<open>\<open>port[i]\<close> of a \<open>uint32_t *\<close> into the block.\<close>

definition port_get :: "sim \<Rightarrow> int \<Rightarrow> nat \<Rightarrow> u32 res" where
  "port_get s port i = obj_read IO_SPACE_MAX (io_space s) (port + 4 * int i) 4"

definition port_set :: "int \<Rightarrow> nat \<Rightarrow> u32 \<Rightarrow> sim \<Rightarrow> sim res" where
  "port_set port i v s =
     rbind (obj_write IO_SPACE_MAX (io_space s) (port + 4 * int i) 4 v) (\<lambda>m. Inr (s\<lparr>io_space := m\<rparr>))"

section \<open>The table of regions\<close>

definition NR_MAP :: nat where "NR_MAP = 16"

definition map_inside :: "IOMap \<Rightarrow> paddr_t \<Rightarrow> bool" where
  "map_inside mp addr \<longleftrightarrow> addr \<ge> low mp \<and> addr \<le> high mp"

text \<open>The search loop, from index \<open>i\<close>; finding a region also tells the co-simulation to skip.\<close>

fun find_mapid_from :: "IOMap list \<Rightarrow> nat \<Rightarrow> paddr_t \<Rightarrow> nat option" where
  "find_mapid_from [] i addr = None"
| "find_mapid_from (m # ms) i addr =
     (if map_inside m addr then Some i else find_mapid_from ms (Suc i) addr)"

definition find_mapid_by_addr :: "sim \<Rightarrow> paddr_t \<Rightarrow> nat option \<times> sim" where
  "find_mapid_by_addr s addr =
     (case find_mapid_from (maps s) 0 addr of
        Some i \<Rightarrow> (Some i, s\<lparr>skip_ref := True\<rparr>) | None \<Rightarrow> (None, s))"

definition fetch_mmio_map :: "sim \<Rightarrow> paddr_t \<Rightarrow> IOMap option \<times> sim" where
  "fetch_mmio_map s addr =
     (case find_mapid_by_addr s addr of (r, s) \<Rightarrow>
        (case r of None \<Rightarrow> None | Some i \<Rightarrow> Some (maps s ! i), s))"

definition sim_in_pmem :: "paddr_t \<Rightarrow> bool" where
  "sim_in_pmem addr \<longleftrightarrow> addr \<ge> CONFIG_MBASE \<and> addr < CONFIG_MBASE + of_nat CONFIG_MSIZE"

text \<open>\<open>report_mmio_overlap\<close> panics.\<close>

definition add_mmio_map :: "string \<Rightarrow> paddr_t \<Rightarrow> int \<Rightarrow> u32 \<Rightarrow> io_callback option \<Rightarrow> sim \<Rightarrow> sim res" where
  "add_mmio_map name addr sp len cb s =
     rbind (rassert Assertion (length (maps s) < NR_MAP)) (\<lambda>_.
     let left = addr; right = addr + len - 1 in
     if sim_in_pmem left \<or> sim_in_pmem right then Inl Panic
     else if \<exists>m \<in> set (maps s). left \<le> high m \<and> right \<ge> low m then Inl Panic
     else Inr (s\<lparr>maps := maps s @
       [\<lparr>map_name = name, low = addr, high = addr + len - 1, space = sp, callback = cb\<rparr>]\<rparr>))"

section \<open>Mapped accesses\<close>

definition check_bound :: "IOMap option \<Rightarrow> paddr_t \<Rightarrow> sim \<Rightarrow> bool \<times> sim" where
  "check_bound mp addr s =
     (case mp of
        None \<Rightarrow> (False, s\<lparr>sim_state := SIM_ABORT\<rparr>)
      | Some m \<Rightarrow> if addr > high m \<or> addr < low m then (False, s\<lparr>sim_state := SIM_ABORT\<rparr>) else (True, s))"

text \<open>
  The device functions are the argument \<open>dev\<close>: name, offset, length, direction and state. They are
  defined with the devices.
\<close>

type_synonym device_call = "io_callback \<Rightarrow> u32 \<Rightarrow> nat \<Rightarrow> bool \<Rightarrow> sim \<Rightarrow> sim res"

definition invoke_callback :: "device_call \<Rightarrow> io_callback option \<Rightarrow> u32 \<Rightarrow> nat \<Rightarrow> bool \<Rightarrow> sim \<Rightarrow> sim res" where
  "invoke_callback dev c offset len is_write s =
     (case c of None \<Rightarrow> Inr s | Some f \<Rightarrow> dev f offset len is_write s)"

definition map_read :: "device_call \<Rightarrow> paddr_t \<Rightarrow> nat \<Rightarrow> IOMap option \<Rightarrow> sim \<Rightarrow> (word_t \<times> sim) res" where
  "map_read dev addr len mp s =
     rbind (rassert Assertion (1 \<le> len \<and> len \<le> 8)) (\<lambda>_.
     case check_bound mp addr s of (ok, s) \<Rightarrow>
     case (ok, mp) of
       (True, Some m) \<Rightarrow>
         let offset = addr - low m in
         rbind (invoke_callback dev (callback m) offset len False s) (\<lambda>s.
         rbind (sim_host_read (io_space s) (space m + int (unat offset)) len) (\<lambda>ret. Inr (ret, s)))
     | _ \<Rightarrow> Inr (0, s))"

definition map_write :: "device_call \<Rightarrow> paddr_t \<Rightarrow> nat \<Rightarrow> word_t \<Rightarrow> IOMap option \<Rightarrow> sim \<Rightarrow> sim res" where
  "map_write dev addr len data mp s =
     rbind (rassert Assertion (1 \<le> len \<and> len \<le> 8)) (\<lambda>_.
     case check_bound mp addr s of (ok, s) \<Rightarrow>
     case (ok, mp) of
       (True, Some m) \<Rightarrow>
         let offset = addr - low m in
         rbind (sim_host_write (io_space s) (space m + int (unat offset)) len data) (\<lambda>mem.
         invoke_callback dev (callback m) offset len True (s\<lparr>io_space := mem\<rparr>))
     | _ \<Rightarrow> Inr s)"

definition mmio_read :: "device_call \<Rightarrow> paddr_t \<Rightarrow> nat \<Rightarrow> sim \<Rightarrow> (word_t \<times> sim) res" where
  "mmio_read dev addr len s = (case fetch_mmio_map s addr of (mp, s) \<Rightarrow> map_read dev addr len mp s)"

definition mmio_write :: "device_call \<Rightarrow> paddr_t \<Rightarrow> nat \<Rightarrow> word_t \<Rightarrow> sim \<Rightarrow> sim res" where
  "mmio_write dev addr len data s = (case fetch_mmio_map s addr of (mp, s) \<Rightarrow> map_write dev addr len data mp s)"

text \<open>The simulator before \<open>init_device\<close>: every static object is zero, and
  \<open>sim_state\<close> is initialised to \<open>SIM_STOP\<close> (\<open>sim.cpp\<close>).\<close>

definition power_on :: sim where
  "power_on =
     \<lparr>io_space = \<lambda>_. 0, p_space = 0, maps = [], sim_state = SIM_STOP, skip_ref = False,
      kbd = \<lparr>key_queue = \<lambda>_. 0, key_f = 0, key_r = 0, keymap = \<lambda>_. 0\<rparr>,
      ptr = \<lparr>serial_base = 0, rtc_port_base = 0, i8042_data_port_base = 0, vgactl_port_base = 0,
             vmem = 0, ffb_mem = 0, diskctl_port_base = 0\<rparr>,
      serial_out = [], texture = \<lambda>_. 0, ramdisk = [], sim_pmem = \<lambda>_. 0, ref_pmem = \<lambda>_. 0,
      boot_time = 0, last_update = 0\<rparr>"

section \<open>Lemmas: the allocator\<close>

lemma unat_round_down:
  assumes "n < 2 ^ 40"
  shows "unat (push_bit 12 (drop_bit 12 (of_nat n :: u64))) = n div 4096 * 4096"
proof -
  have "n div 4096 * 4096 \<le> n" by simp
  then show ?thesis using assms
    by (simp only: unsigned_push_bit_eq unsigned_drop_bit_eq unsigned_of_nat
        push_bit_eq_mult [where 'a = nat] drop_bit_eq_div [where 'a = nat]) (simp add: take_bit_nat_eq_self)
qed

lemma page_round_eq:
  assumes "unat sz + 4096 \<le> 2 ^ 31"
  shows "sint (page_round sz) = int ((unat sz + 4095) div 4096 * 4096)"
proof -
  have m: "NOT (0xfff :: u64) = NOT (mask 12)" by (simp add: mask_eq_exp_minus_1)
  have "(scast sz :: u64) = word_of_int (sint sz)" by simp
  also have "sint sz = int (unat sz)" using assms by (simp add: sint_small)
  finally have s: "(scast sz :: u64) + (0x1000 - 1) = of_nat (unat sz + 4095)" by simp
  have "unat (push_bit 12 (drop_bit 12 (of_nat (unat sz + 4095) :: u64))) = (unat sz + 4095) div 4096 * 4096"
    by (rule unat_round_down) (use assms in simp)
  then have "unat (page_round sz) = (unat sz + 4095) div 4096 * 4096"
    using assms unfolding page_round_def s m word_and_not_mask
    by (simp add: unsigned_ucast_eq take_bit_nat_eq_self)
  moreover have "(unat sz + 4095) div 4096 * 4096 < 2 ^ 31" using assms by simp
  ultimately show ?thesis by (simp add: sint_small)
qed

text \<open>The allocator hands out page-aligned, pairwise disjoint blocks: a block starts where the
  previous one ended, is as long as asked (rounded up to pages), and ends below the limit.\<close>

lemma new_space_run:
  assumes "new_space sz s = Inr (p, s')" and "unat sz + 4096 \<le> 2 ^ 31" and "4096 dvd p_space s"
  shows "p = p_space s \<and> p + int (unat sz) \<le> p_space s' \<and> 4096 dvd p_space s' \<and>
    p_space s' < p + int (unat sz) + 4096 \<and> p_space s' < int IO_SPACE_MAX \<and>
    s' = s\<lparr>p_space := p_space s'\<rparr>"
proof -
  define r where "r = (unat sz + 4095) div 4096 * 4096"
  have "sint (page_round sz) = int r" using page_round_eq [OF assms(2)] by (simp add: r_def)
  then have s': "s' = s\<lparr>p_space := p_space s + int r\<rparr>" "p = p_space s" "p_space s + int r < int IO_SPACE_MAX"
    using assms(1) by (auto simp: new_space_def Let_def rbind_eq_Inr_iff)
  have "r + (unat sz + 4095) mod 4096 = unat sz + 4095" by (simp add: r_def)
  moreover have "(unat sz + 4095) mod 4096 < 4096" by simp
  ultimately have "int (unat sz) \<le> int r" "int r < int (unat sz) + 4096" by linarith+
  moreover have "(4096 :: int) dvd int r" by (simp add: r_def)
  ultimately show ?thesis using s' assms(3) by simp
qed

lemma new_space_example:
  "\<exists>p s. new_space 5000 power_on = Inr (p, s) \<and> p = 0 \<and> 5000 \<le> p_space s \<and> 4096 dvd p_space s"
proof -
  have "sint (page_round 5000) = 8192" using page_round_eq [of 5000] by simp
  then have e: "new_space 5000 power_on = Inr (0, power_on\<lparr>p_space := 8192\<rparr>)"
    by (simp add: new_space_def power_on_def Let_def IO_SPACE_MAX_def)
  show ?thesis using new_space_run [OF e] e by (simp add: power_on_def)
qed

section \<open>Lemmas: the table of regions\<close>

text \<open>
  The invariant of the table: regions are intervals, do not start or end in memory, and are
  pairwise disjoint.
\<close>

definition apart :: "IOMap \<Rightarrow> IOMap \<Rightarrow> bool" where
  "apart m n \<longleftrightarrow> high m < low n \<or> high n < low m"

fun regions_ok :: "IOMap list \<Rightarrow> bool" where
  "regions_ok [] \<longleftrightarrow> True"
| "regions_ok (m # ms) \<longleftrightarrow>
     low m \<le> high m \<and> \<not> sim_in_pmem (low m) \<and> \<not> sim_in_pmem (high m) \<and>
     (\<forall>n \<in> set ms. apart m n) \<and> regions_ok ms"

lemma apart_sym: "apart m n = apart n m"
  by (auto simp: apart_def)

lemma regions_ok_snoc:
  "regions_ok (ms @ [m]) \<longleftrightarrow> regions_ok ms \<and> low m \<le> high m \<and>
     \<not> sim_in_pmem (low m) \<and> \<not> sim_in_pmem (high m) \<and> (\<forall>n \<in> set ms. apart n m)"
  by (induction ms) auto

lemma regions_okD:
  "regions_ok ms \<Longrightarrow> m \<in> set ms \<Longrightarrow> low m \<le> high m"
  "regions_ok ms \<Longrightarrow> m \<in> set ms \<Longrightarrow> \<not> sim_in_pmem (low m) \<and> \<not> sim_in_pmem (high m)"
  by (induction ms) auto

lemma apart_inside: "apart m n \<Longrightarrow> map_inside m a \<Longrightarrow> \<not> map_inside n a"
  by (auto simp: apart_def map_inside_def)

lemma find_mapid_from_Some:
  "find_mapid_from ms i a = Some k \<Longrightarrow> i \<le> k \<and> k < i + length ms \<and> map_inside (ms ! (k - i)) a"
proof (induction ms arbitrary: i)
  case (Cons m ms)
  then show ?case by (cases "map_inside m a") (auto dest!: Cons.IH simp: nth_Cons')
qed simp

lemma find_mapid_from_None: "find_mapid_from ms i a = None \<longleftrightarrow> (\<forall>m \<in> set ms. \<not> map_inside m a)"
  by (induction ms arbitrary: i) auto

lemma regions_unique:
  "regions_ok ms \<Longrightarrow> m \<in> set ms \<Longrightarrow> n \<in> set ms \<Longrightarrow> map_inside m a \<Longrightarrow> map_inside n a \<Longrightarrow> m = n"
  by (induction ms) (auto dest: apart_inside simp: apart_sym)

lemma fetch_mmio_map_hit:
  assumes "regions_ok (maps s)" and "m \<in> set (maps s)" and "map_inside m a"
  shows "fetch_mmio_map s a = (Some m, s\<lparr>skip_ref := True\<rparr>)"
proof -
  obtain k where k: "find_mapid_from (maps s) 0 a = Some k"
    using assms find_mapid_from_None [of "maps s" 0 a] by fastforce
  with find_mapid_from_Some [OF k] have "maps s ! k \<in> set (maps s)" "map_inside (maps s ! k) a" by auto
  then have "maps s ! k = m" using regions_unique assms by blast
  then show ?thesis by (simp add: fetch_mmio_map_def find_mapid_by_addr_def k)
qed

lemma fetch_mmio_map_miss:
  "\<forall>m \<in> set (maps s). \<not> map_inside m a \<Longrightarrow> fetch_mmio_map s a = (None, s)"
  using find_mapid_from_None [of "maps s" 0 a]
  by (auto simp: fetch_mmio_map_def find_mapid_by_addr_def split: option.split)



section \<open>The block as a memory\<close>

text \<open>The accesses of the bus inside the block, in the memory interface of the interpreter.\<close>

definition valid_io :: "u32 \<Rightarrow> nat \<Rightarrow> bool" where
  "valid_io a n \<longleftrightarrow> n \<in> {1, 2, 4} \<and> unat a + n \<le> IO_SPACE_MAX"

lemma sim_host_valid:
  assumes "n \<in> {1, 2, 4}" and "k + n \<le> IO_SPACE_MAX"
  shows "sim_host_read m (int k) n = Inr (word_of_bytes (load m k n))"
    and "sim_host_write m (int k) n d = Inr (store m k (bytes_of_word n d))"
proof -
  have "int k + int n \<le> int IO_SPACE_MAX" using assms(2) by linarith
  then show "sim_host_read m (int k) n = Inr (word_of_bytes (load m k n))"
    "sim_host_write m (int k) n d = Inr (store m k (bytes_of_word n d))"
    using assms(1) by (auto simp: sim_host_read_def sim_host_write_def obj_read_def obj_write_def)
qed

interpretation io: word_memory "\<lambda>m a n. sim_host_read m (int (unat a)) n"
  "\<lambda>m a n d. sim_host_write m (int (unat a)) n d" valid_io disjoint_access
proof
  fix m :: bytes and a n d m'
  assume v: "valid_io a n"
  then have ok: "n \<in> {1, 2, 4}" "unat a + n \<le> IO_SPACE_MAX" by (simp_all add: valid_io_def)
  show "\<exists>v. sim_host_read m (int (unat a)) n = Inr v"
    "\<exists>m'. sim_host_write m (int (unat a)) n d = Inr m'"
    by (simp_all only: sim_host_valid [OF ok] sum.inject ex_simps simp_thms)
  assume "sim_host_write m (int (unat a)) n d = Inr m'"
  then have m': "m' = store m (unat a) (bytes_of_word n d)" by (simp only: sim_host_valid [OF ok] sum.inject)
  show "sim_host_read m' (int (unat a)) n = Inr (take_bit (8 * n) d)"
    by (simp only: sim_host_valid [OF ok] m') (simp add: byte_simps)
  fix b k
  assume "valid_io b k" "disjoint_access a n b k"
  then have "k \<in> {1, 2, 4}" "unat b + k \<le> IO_SPACE_MAX" "unat a + n \<le> unat b \<or> unat b + k \<le> unat a"
    by (auto simp: valid_io_def disjoint_access_def)
  then show "sim_host_read m' (int (unat b)) k = sim_host_read m (int (unat b)) k"
    by (simp only: sim_host_valid m') (simp add: load_store_disjoint)
qed

text \<open>The block address of a bus address in a region.\<close>

definition io_addr :: "IOMap \<Rightarrow> paddr_t \<Rightarrow> u32" where
  "io_addr m a = word_of_int (space m) + (a - low m)"

lemma io_addr_eq:
  assumes "0 \<le> space m" and "space m + int (unat (a - low m)) + int n \<le> int IO_SPACE_MAX"
  shows "space m + int (unat (a - low m)) = int (unat (io_addr m a))"
proof -
  obtain k where k: "space m = int k" using assms(1) by (metis nonneg_int_cases)
  have "k + unat (a - low m) \<le> IO_SPACE_MAX" using assms(2) unfolding k by linarith
  then have "unat (of_nat (k + unat (a - low m)) :: u32) = k + unat (a - low m)"
    by (subst unsigned_of_nat) (simp add: IO_SPACE_MAX_def take_bit_nat_eq_self)
  moreover have "io_addr m a = of_nat (k + unat (a - low m))" by (simp add: io_addr_def k)
  ultimately show ?thesis using k by simp
qed

lemma mmio_write_plain:
  assumes "regions_ok (maps s)" and "m \<in> set (maps s)" and "map_inside m a" and "callback m = None"
    and "1 \<le> n" and "n \<le> 8" and "0 \<le> space m" and "space m + int (unat (a - low m)) + int n \<le> int IO_SPACE_MAX"
  shows "mmio_write dev a n d s = rbind (sim_host_write (io_space s) (int (unat (io_addr m a))) n d)
    (\<lambda>mem. Inr (s\<lparr>skip_ref := True, io_space := mem\<rparr>))"
    and "mmio_read dev a n s = rbind (sim_host_read (io_space s) (int (unat (io_addr m a))) n)
    (\<lambda>v. Inr (v, s\<lparr>skip_ref := True\<rparr>))"
proof -
  have "\<not> high m < a" "\<not> a < low m" using assms(3) by (auto simp: map_inside_def)
  then show "mmio_write dev a n d s = rbind (sim_host_write (io_space s) (int (unat (io_addr m a))) n d)
      (\<lambda>mem. Inr (s\<lparr>skip_ref := True, io_space := mem\<rparr>))"
    "mmio_read dev a n s = rbind (sim_host_read (io_space s) (int (unat (io_addr m a))) n)
      (\<lambda>v. Inr (v, s\<lparr>skip_ref := True\<rparr>))"
    using assms(4-6) io_addr_eq [OF assms(7,8)]
    by (simp_all add: mmio_write_def mmio_read_def fetch_mmio_map_hit [OF assms(1-3)] map_write_def map_read_def
      check_bound_def invoke_callback_def)
qed

text \<open>On a region without a device function the bus is a memory: a write is read back truncated
  to its width, and the rest of the region (every disjoint access) is unchanged.\<close>

lemma mmio_plain_round_trip:
  assumes "regions_ok (maps s)" and "m \<in> set (maps s)" and "callback m = None"
    and "0 \<le> space m" and "space m + int (unat (high m - low m)) + 1 \<le> int IO_SPACE_MAX"
    and "n \<in> {1, 2, 4}" and "low m \<le> a" and "unat a + n \<le> unat (high m) + 1"
    and "k \<in> {1, 2, 4}" and "low m \<le> b" and "unat b + k \<le> unat (high m) + 1"
    and "disjoint_access a n b k"
  shows "\<exists>s' v t. mmio_write dev a n d s = Inr s' \<and>
    mmio_read dev a n s' = Inr (take_bit (8 * n) d, s') \<and>
    mmio_read dev b k s = Inr (v, t) \<and> mmio_read dev b k s' = Inr (v, s')"
proof -
  have inside: "map_inside m x \<and> unat (x - low m) = unat x - unat (low m) \<and>
      space m + int (unat (x - low m)) + int j \<le> int IO_SPACE_MAX \<and>
      unat (io_addr m x) + j \<le> IO_SPACE_MAX \<and> int (unat (io_addr m x)) = space m + int (unat x - unat (low m))"
    if "j \<in> {1, 2, 4}" "low m \<le> x" "unat x + j \<le> unat (high m) + 1" for x j
  proof -
    have lx: "unat (low m) \<le> unat x" "unat x \<le> unat (high m)"
      using that by (auto simp: word_le_nat_alt)
    then have d: "unat (x - low m) = unat x - unat (low m)"
      "unat (high m - low m) = unat (high m) - unat (low m)"
      by (simp_all add: unat_sub_if' word_le_nat_alt)
    have sp: "space m + int (unat (x - low m)) + int j \<le> int IO_SPACE_MAX"
      using assms(5) that(3) lx unfolding d by linarith
    have io: "unat (io_addr m x) + j \<le> IO_SPACE_MAX" "int (unat (io_addr m x)) = space m + int (unat x - unat (low m))"
      using io_addr_eq [OF assms(4) sp] sp d by linarith+
    show ?thesis unfolding map_inside_def word_le_nat_alt using lx d(1) sp io by blast
  qed
  have A: "map_inside m a" "space m + int (unat (a - low m)) + int n \<le> int IO_SPACE_MAX"
    and vA: "valid_io (io_addr m a) n" and iA: "int (unat (io_addr m a)) = space m + int (unat a - unat (low m))"
    using inside [OF assms(6-8)] assms(6) unfolding valid_io_def by blast+
  have B: "map_inside m b" "space m + int (unat (b - low m)) + int k \<le> int IO_SPACE_MAX"
    and vB: "valid_io (io_addr m b) k" and iB: "int (unat (io_addr m b)) = space m + int (unat b - unat (low m))"
    using inside [OF assms(9-11)] assms(9) unfolding valid_io_def by blast+
  have "unat (low m) \<le> unat a" "unat (low m) \<le> unat b" using assms(7,10) by (simp_all add: word_le_nat_alt)
  then have dis: "disjoint_access (io_addr m a) n (io_addr m b) k"
    using assms(12) iA iB unfolding disjoint_access_def by linarith
  obtain mem where w: "sim_host_write (io_space s) (int (unat (io_addr m a))) n d = Inr mem"
    and r: "sim_host_read mem (int (unat (io_addr m a))) n = Inr (take_bit (8 * n) d)"
    and o': "sim_host_read mem (int (unat (io_addr m b))) k = sim_host_read (io_space s) (int (unat (io_addr m b))) k"
    using io.write_read [OF vA, of "io_space s" d] vB dis by blast
  obtain v where v: "sim_host_read (io_space s) (int (unat (io_addr m b))) k = Inr v"
    using io.rd_total [OF vB] by blast
  have n: "1 \<le> n" "n \<le> 8" "1 \<le> k" "k \<le> 8" using assms(6,9) by auto
  let ?s = "s\<lparr>skip_ref := True, io_space := mem\<rparr>"
  have eq: "regions_ok (maps ?s)" "m \<in> set (maps ?s)" using assms(1,2) by simp_all
  note wr = mmio_write_plain(1) [OF assms(1,2) A(1) assms(3) n(1,2) assms(4) A(2)]
    and rd = mmio_write_plain(2) [OF eq A(1) assms(3) n(1,2) assms(4) A(2)]
    and rb = mmio_write_plain(2) [OF eq B(1) assms(3) n(3,4) assms(4) B(2)]
    and rb0 = mmio_write_plain(2) [OF assms(1,2) B(1) assms(3) n(3,4) assms(4) B(2)]
  have "mmio_write dev a n d s = Inr ?s" using wr w by simp
  moreover have "mmio_read dev a n ?s = Inr (take_bit (8 * n) d, ?s)" using rd r by simp
  moreover have "mmio_read dev b k ?s = Inr (v, ?s)" using rb o' v by simp
  moreover have "mmio_read dev b k s = Inr (v, s\<lparr>skip_ref := True\<rparr>)" using rb0 v by simp
  ultimately show ?thesis by blast
qed

lemma mmio_plain_round_trip_witness:
  "\<exists>s. mmio_write (\<lambda>_ _ _ _ s. Inr s) 0xa2000004 4 7
      (power_on\<lparr>maps := [\<lparr>map_name = ''ffb_mem'', low = 0xa2000000, high = 0xa200001b, space = 4096, callback = None\<rparr>]\<rparr>) = Inr s \<and>
     mmio_read (\<lambda>_ _ _ _ s. Inr s) 0xa2000004 4 s = Inr (7, s)"
proof -
  let ?m = "\<lparr>map_name = ''ffb_mem'', low = 0xa2000000, high = 0xa200001b, space = 4096, callback = None\<rparr> :: IOMap"
  show ?thesis
    using mmio_plain_round_trip [of "power_on\<lparr>maps := [?m]\<rparr>" ?m 4 "0xa2000004" 4 "0xa2000008"
        "\<lambda>_ _ _ _ s. Inr s" 7]
    by (auto simp: sim_in_pmem_def layout_defs IO_SPACE_MAX_def disjoint_access_def)
qed

end
