(* ===== verification/Fifo.thy ===== *)
theory Fifo
  imports Prelude
begin

text \<open>The contract of bounded queues, and what its clients can conclude from it.\<close>

section \<open>Bounded queues\<close>

text \<open>
  The contract of a bounded first-in first-out queue: \<open>contents\<close> is what a state holds, oldest first,
  \<open>none\<close> what an empty queue answers. The clients below only use these laws.
\<close>

fun drain :: "('q \<Rightarrow> 'a \<times> 'q) \<Rightarrow> nat \<Rightarrow> 'q \<Rightarrow> 'a list \<times> 'q" where
  "drain deq 0 q = ([], q)"
| "drain deq (Suc n) q =
     (case deq q of (x, q) \<Rightarrow> case drain deq n q of (xs, q) \<Rightarrow> (x # xs, q))"

locale bounded_fifo =
  fixes enq :: "'a \<Rightarrow> 'q \<Rightarrow> 'q res" and deq :: "'q \<Rightarrow> 'a \<times> 'q"
    and contents :: "'q \<Rightarrow> 'a list" and ok :: "'q \<Rightarrow> bool" and capacity :: nat and none :: 'a
  assumes enq_room: "ok q \<Longrightarrow> length (contents q) < capacity \<Longrightarrow>
      \<exists>q'. enq x q = Inr q' \<and> ok q' \<and> contents q' = contents q @ [x]"
    and enq_full: "ok q \<Longrightarrow> length (contents q) = capacity \<Longrightarrow> enq x q = Inl Assertion"
    and bounded: "ok q \<Longrightarrow> length (contents q) \<le> capacity"
    and deq_Cons: "ok q \<Longrightarrow> contents q = x # xs \<Longrightarrow> \<exists>q'. deq q = (x, q') \<and> ok q' \<and> contents q' = xs"
    and deq_Nil: "ok q \<Longrightarrow> contents q = [] \<Longrightarrow> \<exists>q'. deq q = (none, q') \<and> ok q' \<and> contents q' = []"
begin

lemma enq_list:
  "ok q \<Longrightarrow> length (contents q) + length xs \<le> capacity \<Longrightarrow>
     \<exists>q'. rfold enq xs q = Inr q' \<and> ok q' \<and> contents q' = contents q @ xs"
proof (induction xs arbitrary: q)
  case (Cons x xs)
  then obtain q1 where "enq x q = Inr q1" "ok q1" "contents q1 = contents q @ [x]"
    using enq_room [of q x] by auto
  then show ?case using Cons.IH [of q1] Cons.prems by auto
qed simp

lemma enq_list_overflow:
  assumes "ok q" and "capacity < length (contents q) + length xs"
  shows "rfold enq xs q = Inl Assertion"
proof -
  let ?n = "capacity - length (contents q)"
  have n: "?n < length xs" using assms bounded by fastforce
  then have "xs = take ?n xs @ xs ! ?n # drop (Suc ?n) xs" by (simp add: id_take_nth_drop)
  moreover obtain q1 where q1: "rfold enq (take ?n xs) q = Inr q1" "ok q1" "contents q1 = contents q @ take ?n xs"
    using enq_list [OF assms(1), of "take ?n xs"] bounded [OF assms(1)] n by auto
  moreover have "length (contents q1) = capacity" using q1 n bounded [OF assms(1)] by simp
  ultimately show ?thesis using enq_full by (metis rfold_append rbind_Inl rbind_Inr rfold.simps(2))
qed

lemma drain_contents:
  "ok q \<Longrightarrow> contents q = xs @ ys \<Longrightarrow>
     \<exists>q'. drain deq (length xs) q = (xs, q') \<and> ok q' \<and> contents q' = ys"
proof (induction xs arbitrary: q)
  case (Cons x xs)
  then obtain q1 where "deq q = (x, q1)" "ok q1" "contents q1 = xs @ ys"
    using deq_Cons [of q x "xs @ ys"] by auto
  then show ?case using Cons.IH [of q1] by auto
qed simp

lemma drain_empty:
  "ok q \<Longrightarrow> contents q = [] \<Longrightarrow> \<exists>q'. drain deq n q = (replicate n none, q')"
proof (induction n arbitrary: q)
  case (Suc n)
  then obtain q1 where "deq q = (none, q1)" "ok q1" "contents q1 = []" using deq_Nil by blast
  then show ?case using Suc.IH [of q1] by auto
qed simp

lemma drain_add: "drain deq (m + n) q =
    (case drain deq m q of (xs, q) \<Rightarrow> case drain deq n q of (ys, q) \<Rightarrow> (xs @ ys, q))"
  by (induction m arbitrary: q) (simp_all split: prod.split)

lemma fifo:
  assumes "ok q" and "contents q = []"
  shows "if length xs \<le> capacity
         then \<exists>q'. rfold enq xs q = Inr q' \<and> fst (drain deq (length xs + n) q') = xs @ replicate n none
         else rfold enq xs q = Inl Assertion"
proof (cases "length xs \<le> capacity")
  case True
  then obtain q1 where q1: "rfold enq xs q = Inr q1" "ok q1" "contents q1 = xs"
    using enq_list [OF assms(1), of xs] assms(2) by auto
  then obtain q2 where "drain deq (length xs) q1 = (xs, q2)" "ok q2" "contents q2 = []"
    using drain_contents [of q1 xs "[]"] by auto
  then show ?thesis using q1 True drain_empty [of q2 n] by (auto simp: drain_add)
next
  case False
  then show ?thesis using enq_list_overflow assms by simp
qed

end

end
