(* ===== verification/Sim_Devices.thy ===== *)
theory Sim_Devices
  imports Sim_Map Fifo
begin

text \<open>
  The devices of the simulator: keyboard, serial port, clock, screen and disk
  (\<open>simulator/sim/device/*.c\<close>, \<open>utils/get_time.c\<close>), their functions as callbacks of the regions, and
  \<open>init_device\<close> and \<open>device_update\<close> of \<open>device.c\<close>. The host's clock, SDL's events and scancodes and
  the disk image are arguments.
\<close>

section \<open>Keyboard\<close>

definition KEYS :: "string list" where
  "KEYS = [''ESCAPE'', ''F1'', ''F2'', ''F3'', ''F4'', ''F5'', ''F6'', ''F7'', ''F8'', ''F9'', ''F10'', ''F11'', ''F12'',
    ''GRAVE'', ''1'', ''2'', ''3'', ''4'', ''5'', ''6'', ''7'', ''8'', ''9'', ''0'', ''MINUS'', ''EQUALS'', ''BACKSPACE'',
    ''TAB'', ''Q'', ''W'', ''E'', ''R'', ''T'', ''Y'', ''U'', ''I'', ''O'', ''P'', ''LEFTBRACKET'', ''RIGHTBRACKET'', ''BACKSLASH'',
    ''CAPSLOCK'', ''A'', ''S'', ''D'', ''F'', ''G'', ''H'', ''J'', ''K'', ''L'', ''SEMICOLON'', ''APOSTROPHE'', ''RETURN'',
    ''LSHIFT'', ''Z'', ''X'', ''C'', ''V'', ''B'', ''N'', ''M'', ''COMMA'', ''PERIOD'', ''SLASH'', ''RSHIFT'',
    ''LCTRL'', ''APPLICATION'', ''LALT'', ''SPACE'', ''RALT'', ''RCTRL'',
    ''UP'', ''DOWN'', ''LEFT'', ''RIGHT'', ''INSERT'', ''DELETE'', ''HOME'', ''END'', ''PAGEUP'', ''PAGEDOWN'']"

definition KEY_NONE :: u32 where "KEY_NONE = 0"
definition KEYDOWN_MASK :: u32 where "KEYDOWN_MASK = 0x8000"
definition KEY_QUEUE_LEN :: nat where "KEY_QUEUE_LEN = 1024"

text \<open>\<open>SDL_KEYMAP\<close> over \<open>_KEYS\<close>: the key at position \<open>i\<close> has number \<open>i + 1\<close>.\<close>

fun keymap_from :: "(string \<Rightarrow> nat) \<Rightarrow> string list \<Rightarrow> u32 \<Rightarrow> (nat \<Rightarrow> u32) \<Rightarrow> nat \<Rightarrow> u32" where
  "keymap_from scancode [] n km = km"
| "keymap_from scancode (k # ks) n km = keymap_from scancode ks (n + 1) (km(scancode k := n))"

definition init_keymap :: "(string \<Rightarrow> nat) \<Rightarrow> keyboard \<Rightarrow> keyboard" where
  "init_keymap scancode q = q\<lparr>keymap := keymap_from scancode KEYS 1 (keymap q)\<rparr>"

definition key_enqueue :: "u32 \<Rightarrow> keyboard \<Rightarrow> keyboard res" where
  "key_enqueue am_scancode q =
     (let q = q\<lparr>key_queue := (key_queue q)(key_r q := am_scancode)\<rparr>;
          q = q\<lparr>key_r := (key_r q + 1) mod KEY_QUEUE_LEN\<rparr>
      in rbind (rassert Assertion (key_r q \<noteq> key_f q)) (\<lambda>_. Inr q))"

definition key_dequeue :: "keyboard \<Rightarrow> u32 \<times> keyboard" where
  "key_dequeue q =
     (if key_f q \<noteq> key_r q
      then (key_queue q (key_f q), q\<lparr>key_f := (key_f q + 1) mod KEY_QUEUE_LEN\<rparr>)
      else (KEY_NONE, q))"

definition send_key :: "u8 \<Rightarrow> bool \<Rightarrow> sim \<Rightarrow> sim res" where
  "send_key scancode is_keydown s =
     (let key = keymap (kbd s) (unat scancode) in
      if sim_state s = SIM_RUNNING \<and> key \<noteq> KEY_NONE then
        let am_scancode = key OR (if is_keydown then KEYDOWN_MASK else 0) in
        rbind (key_enqueue am_scancode (kbd s)) (\<lambda>q. Inr (s\<lparr>kbd := q\<rparr>))
      else Inr s)"

definition i8042_data_io_handler :: "u32 \<Rightarrow> nat \<Rightarrow> bool \<Rightarrow> sim \<Rightarrow> sim res" where
  "i8042_data_io_handler offset len is_write s =
     rbind (rassert Assertion (\<not> is_write)) (\<lambda>_.
     rbind (rassert Assertion (offset = 0)) (\<lambda>_.
     case key_dequeue (kbd s) of (key, q) \<Rightarrow>
       port_set (i8042_data_port_base (ptr s)) 0 key (s\<lparr>kbd := q\<rparr>)))"

definition init_i8042 :: "(string \<Rightarrow> nat) \<Rightarrow> sim \<Rightarrow> sim res" where
  "init_i8042 scancode s =
     rbind (new_space 4 s) (\<lambda>(p, s).
     let s = s\<lparr>ptr := (ptr s)\<lparr>i8042_data_port_base := p\<rparr>\<rparr> in
     rbind (port_set p 0 KEY_NONE s) (\<lambda>s.
     rbind (add_mmio_map ''keyboard'' 0xa0000060 p 4 (Some I8042_data_io_handler) s) (\<lambda>s.
       Inr (s\<lparr>kbd := init_keymap scancode (kbd s)\<rparr>))))"

section \<open>Serial port\<close>

definition serial_putc :: "u8 \<Rightarrow> sim \<Rightarrow> sim" where
  "serial_putc ch s = s\<lparr>serial_out := serial_out s @ [ch]\<rparr>"

definition serial_io_handler :: "u32 \<Rightarrow> nat \<Rightarrow> bool \<Rightarrow> sim \<Rightarrow> sim res" where
  "serial_io_handler offset len is_write s =
     rbind (rassert Assertion (len = 1)) (\<lambda>_.
     if offset = 0 then
       if is_write then
         rbind (obj_read IO_SPACE_MAX (io_space s) (serial_base (ptr s)) 1) (\<lambda>c. Inr (serial_putc (ucast c) s))
       else Inl Panic
     else Inl Panic)"

definition init_serial :: "sim \<Rightarrow> sim res" where
  "init_serial s =
     rbind (new_space 8 s) (\<lambda>(p, s).
     add_mmio_map ''serial'' 0xa00003f8 p 8 (Some Serial_io_handler) (s\<lparr>ptr := (ptr s)\<lparr>serial_base := p\<rparr>\<rparr>))"

section \<open>Clock\<close>

text \<open>What the host answers during a call: two readings of its clock, in microseconds, and its date.\<close>

record tm =
  tm_sec :: u32
  tm_min :: u32
  tm_hour :: u32
  tm_mday :: u32
  tm_mon :: u32
  tm_year :: u32

record host =
  tod1 :: u64
  tod2 :: u64
  date :: tm

definition get_time :: "host \<Rightarrow> sim \<Rightarrow> u64 \<times> sim" where
  "get_time e s =
     (let s = (if boot_time s = 0 then s\<lparr>boot_time := tod1 e\<rparr> else s)
      in (tod2 e - boot_time s, s))"

definition rtc_io_handler :: "host \<Rightarrow> u32 \<Rightarrow> nat \<Rightarrow> bool \<Rightarrow> sim \<Rightarrow> sim res" where
  "rtc_io_handler e offset len is_write s =
     rbind (rassert Assertion (\<not> is_write)) (\<lambda>_.
     case get_time e s of (us, s) \<Rightarrow>
     let p = rtc_port_base (ptr s); d = date e in
     rbind (port_set p 0 (ucast us) s) (\<lambda>s.
     rbind (port_set p 1 (ucast (drop_bit 32 us)) s) (\<lambda>s.
     rbind (port_set p 2 (tm_sec d) s) (\<lambda>s.
     rbind (port_set p 3 (tm_min d) s) (\<lambda>s.
     rbind (port_set p 4 (tm_hour d) s) (\<lambda>s.
     rbind (port_set p 5 (tm_mday d) s) (\<lambda>s.
     rbind (port_set p 6 (tm_mon d + 1) s) (\<lambda>s.
     port_set p 7 (tm_year d + 1900) s))))))))"

definition init_timer :: "sim \<Rightarrow> sim res" where
  "init_timer s =
     rbind (new_space 32 s) (\<lambda>(p, s).
     add_mmio_map ''rtc'' 0xa0000040 p 32 (Some Rtc_io_handler) (s\<lparr>ptr := (ptr s)\<lparr>rtc_port_base := p\<rparr>\<rparr>))"

section \<open>Screen\<close>

definition SCREEN_W :: u32 where "SCREEN_W = 400"
definition SCREEN_H :: u32 where "SCREEN_H = 300"
definition screen_width :: u32 where "screen_width = SCREEN_W"
definition screen_height :: u32 where "screen_height = SCREEN_H"
definition screen_size :: u32 where "screen_size = screen_width * screen_height * 4"

text \<open>The window shows the frame buffer as it is at the update.\<close>

definition update_screen :: "sim \<Rightarrow> sim" where
  "update_screen s = s\<lparr>texture := (\<lambda>k. io_space s (nat (vmem (ptr s)) + k))\<rparr>"

definition vga_update_screen :: "sim \<Rightarrow> sim res" where
  "vga_update_screen s =
     rbind (port_get s (vgactl_port_base (ptr s)) 1) (\<lambda>sync.
       if sync \<noteq> 0 then port_set (vgactl_port_base (ptr s)) 1 0 (update_screen s) else Inr s)"

text \<open>One pixel of the copy loop; the index arithmetic is on \<open>uint32_t\<close>.\<close>

definition ffb_pixel :: "u32 \<Rightarrow> u32 \<Rightarrow> u32 \<Rightarrow> u32 \<Rightarrow> u32 \<Rightarrow> nat \<Rightarrow> nat \<Rightarrow> sim \<Rightarrow> sim res" where
  "ffb_pixel x y w W pixels i j s =
     rbind (obj_read CONFIG_MSIZE (sim_pmem s)
              (guest_to_host pixels + 4 * uint (of_nat i * w + of_nat j)) 4) (\<lambda>v.
     rbind (obj_write IO_SPACE_MAX (io_space s)
              (vmem (ptr s) + 4 * uint ((y + of_nat i) * W + x + of_nat j)) 4 v) (\<lambda>m.
       Inr (s\<lparr>io_space := m\<rparr>)))"

definition fast_fb_draw :: "u32 \<Rightarrow> nat \<Rightarrow> bool \<Rightarrow> sim \<Rightarrow> sim res" where
  "fast_fb_draw offset len is_write s =
     rbind (rassert Assertion is_write) (\<lambda>_.
     let p = ffb_mem (ptr s) in
     rbind (port_get s p 0) (\<lambda>x.
     rbind (port_get s p 1) (\<lambda>y.
     rbind (port_get s p 2) (\<lambda>w.
     rbind (port_get s p 3) (\<lambda>h.
     rbind (port_get s p 4) (\<lambda>W.
     rbind (port_get s p 5) (\<lambda>H.
     rbind (port_get s p 6) (\<lambda>pixels.
     let h_real = (if y + h > H then (if y > H then 0 else H - y) else h);
         w_real = (if x + w > W then W - x else w)
     in rfold (\<lambda>i. rfold (\<lambda>j. ffb_pixel x y w W pixels i j) [0..<unat w_real]) [0..<unat h_real] s))))))))"

definition init_vga :: "sim \<Rightarrow> sim res" where
  "init_vga s =
     rbind (new_space 8 s) (\<lambda>(p, s).
     rbind (port_set p 0 (push_bit 16 screen_width OR screen_height)
              (s\<lparr>ptr := (ptr s)\<lparr>vgactl_port_base := p\<rparr>\<rparr>)) (\<lambda>s.
     rbind (add_mmio_map ''vgactl'' 0xa0000100 p 8 None s) (\<lambda>s.
     rbind (new_space screen_size s) (\<lambda>(p, s).
     rbind (add_mmio_map ''vmem'' 0xa1000000 p screen_size None (s\<lparr>ptr := (ptr s)\<lparr>vmem := p\<rparr>\<rparr>)) (\<lambda>s.
     let s = s\<lparr>io_space := (\<lambda>k. if nat p \<le> k \<and> k < nat p + unat screen_size then 0 else io_space s k)\<rparr> in
     rbind (new_space 28 s) (\<lambda>(p, s).
     rbind (add_mmio_map ''ffb_mem'' 0xa2000000 p 28 None (s\<lparr>ptr := (ptr s)\<lparr>ffb_mem := p\<rparr>\<rparr>)) (\<lambda>s.
     rbind (new_space 4 s) (\<lambda>(p, s).
       add_mmio_map ''ffb_draw'' (0xa2000000 + 28) p 4 (Some Fast_fb_draw) s))))))))"

section \<open>Disk\<close>

text \<open>
  \<open>fread\<close> copies what the image has of the \<open>size\<close> bytes at \<open>disk_addr\<close>. The stream is opened with
  mode \<open>"r"\<close>, so the \<open>fwrite\<close> of command 2 has no effect. After a read the whole memory is copied
  to the reference.
\<close>

definition rw_disk :: "u32 \<Rightarrow> nat \<Rightarrow> bool \<Rightarrow> sim \<Rightarrow> sim res" where
  "rw_disk offset len is_write s =
     (if \<not> is_write then Inr s
      else
        let p = diskctl_port_base (ptr s) in
        rbind (port_get s p 0) (\<lambda>disk_addr.
        rbind (port_get s p 1) (\<lambda>mem_addr.
        rbind (port_get s p 2) (\<lambda>sz.
        rbind (port_get s p 3) (\<lambda>cmd.
        rbind (if cmd = 1 then
                 let data = take (unat sz) (drop (unat disk_addr) (ramdisk s)); h = guest_to_host mem_addr in
                 rbind (rassert Out_of_bounds
                          (data = [] \<or> 0 \<le> h \<and> h + int (length data) \<le> int CONFIG_MSIZE)) (\<lambda>_.
                 let s = s\<lparr>sim_pmem := store (sim_pmem s) (nat h) data\<rparr> in
                 Inr (s\<lparr>ref_pmem := (\<lambda>k. if k < CONFIG_MSIZE then sim_pmem s k else ref_pmem s k)\<rparr>))
               else Inr s) (\<lambda>s.
          port_set p 3 0 s))))))"

definition init_disk :: "u8 list option \<Rightarrow> sim \<Rightarrow> sim res" where
  "init_disk img s =
     (case img of
        None \<Rightarrow> Inl Assertion
      | Some bs \<Rightarrow>
          rbind (new_space 16 (s\<lparr>ramdisk := bs\<rparr>)) (\<lambda>(p, s).
          rbind (add_mmio_map ''diskctl'' 0xa0000300 p 12 None (s\<lparr>ptr := (ptr s)\<lparr>diskctl_port_base := p\<rparr>\<rparr>)) (\<lambda>s.
            add_mmio_map ''diskrw'' (0xa0000300 + 12) (p + 12) 4 (Some Rw_disk) s)))"

section \<open>All devices\<close>

definition device_fun :: "host \<Rightarrow> device_call" where
  "device_fun e f offset len is_write s =
     (case f of
        Serial_io_handler \<Rightarrow> serial_io_handler offset len is_write s
      | Rtc_io_handler \<Rightarrow> rtc_io_handler e offset len is_write s
      | I8042_data_io_handler \<Rightarrow> i8042_data_io_handler offset len is_write s
      | Fast_fb_draw \<Rightarrow> fast_fb_draw offset len is_write s
      | Rw_disk \<Rightarrow> rw_disk offset len is_write s)"

text \<open>\<open>open_image\<close> is \<open>fopen\<close> on the disk image: its bytes, or none.\<close>

definition init_device :: "(string \<Rightarrow> nat) \<Rightarrow> (string \<Rightarrow> u8 list option) \<Rightarrow> string \<Rightarrow> sim \<Rightarrow> sim res" where
  "init_device scancode open_image diskpath s =
     rbind (init_serial (init_map s)) (\<lambda>s.
     rbind (init_timer s) (\<lambda>s.
     rbind (init_vga s) (\<lambda>s.
     rbind (init_i8042 scancode s) (\<lambda>s.
       if diskpath \<noteq> '' '' then init_disk (open_image diskpath) s else Inr s))))"

text \<open>The events of one poll: quit, a key with its direction and scancode, anything else.\<close>

datatype sdl_event = SDL_QUIT | SDL_KEY bool u32 | SDL_OTHER

definition handle_event :: "sdl_event \<Rightarrow> sim \<Rightarrow> sim res" where
  "handle_event ev s =
     (case ev of
        SDL_QUIT \<Rightarrow> Inr (s\<lparr>sim_state := SIM_QUIT\<rparr>)
      | SDL_KEY down code \<Rightarrow> send_key (ucast code) down s
      | SDL_OTHER \<Rightarrow> Inr s)"

definition device_update :: "host \<Rightarrow> sdl_event list \<Rightarrow> sim \<Rightarrow> sim res" where
  "device_update e events s =
     (case get_time e s of (now, s) \<Rightarrow>
      if now - last_update s < 100000 div 60 then Inr s
      else rbind (vga_update_screen (s\<lparr>last_update := now\<rparr>)) (rfold handle_event events))"

section \<open>The key queue\<close>

definition queued :: "keyboard \<Rightarrow> u32 list" where
  "queued q = map (\<lambda>i. key_queue q ((key_f q + i) mod KEY_QUEUE_LEN))
     [0..<(key_r q + KEY_QUEUE_LEN - key_f q) mod KEY_QUEUE_LEN]"

definition queue_ok :: "keyboard \<Rightarrow> bool" where
  "queue_ok q \<longleftrightarrow> key_f q < KEY_QUEUE_LEN \<and> key_r q < KEY_QUEUE_LEN"

definition ring_len :: "nat \<Rightarrow> nat \<Rightarrow> nat \<Rightarrow> nat" where
  "ring_len n f r = (r + n - f) mod n"

lemma ring_len_eq:
  assumes "f < n" and "r < n"
  shows "ring_len n f r = (if f \<le> r then r - f else r + n - f)"
  using assms by (auto simp: ring_len_def mod_if le_mod_geq)

lemma ring_step:
  assumes "f < n" and "r < n"
  shows "Suc r mod n \<noteq> f \<Longrightarrow> ring_len n f (Suc r mod n) = Suc (ring_len n f r)"
    and "Suc r mod n = f \<longleftrightarrow> ring_len n f r = n - 1"
    and "f \<noteq> r \<Longrightarrow> ring_len n f r = Suc (ring_len n (Suc f mod n) r)"
    and "(f + ring_len n f r) mod n = r"
    and "ring_len n f r \<le> n - 1"
    and "ring_len n f r = 0 \<longleftrightarrow> f = r"
  using assms by (auto simp: ring_len_eq mod_Suc split: if_splits)

lemma ring_distinct:
  assumes "f < n" and "r < n" and "i < ring_len n f r"
  shows "(f + i) mod n \<noteq> r"
proof (cases "f + i < n")
  case True
  then show ?thesis using assms by (auto simp: ring_len_eq split: if_splits)
next
  case False
  moreover have "f + i < 2 * n" using assms by (auto simp: ring_len_eq split: if_splits)
  ultimately have "(f + i) mod n = f + i - n" by (simp add: le_mod_geq)
  then show ?thesis using assms False by (auto simp: ring_len_eq split: if_splits)
qed

lemma queued_eq: "queued q = map (\<lambda>i. key_queue q ((key_f q + i) mod KEY_QUEUE_LEN))
    [0..<ring_len KEY_QUEUE_LEN (key_f q) (key_r q)]"
  by (simp add: queued_def ring_len_def)

interpretation keys: bounded_fifo key_enqueue key_dequeue queued queue_ok "KEY_QUEUE_LEN - 1" KEY_NONE
proof
  have pos: "0 < KEY_QUEUE_LEN" by (simp add: KEY_QUEUE_LEN_def)
  fix q :: keyboard and x and xs
  assume ok: "queue_ok q"
  then have fr: "key_f q < KEY_QUEUE_LEN" "key_r q < KEY_QUEUE_LEN" by (simp_all add: queue_ok_def)
  note step = ring_step [OF fr]
  show "length (queued q) \<le> KEY_QUEUE_LEN - 1" using step(5) by (simp add: queued_eq)
  show "queued q = [] \<Longrightarrow> \<exists>q'. key_dequeue q = (KEY_NONE, q') \<and> queue_ok q' \<and> queued q' = []"
    using step(6) ok by (simp add: queued_eq key_dequeue_def)
  show "length (queued q) = KEY_QUEUE_LEN - 1 \<Longrightarrow> key_enqueue x q = Inl Assertion"
    using step(2) by (simp add: queued_eq key_enqueue_def Let_def)
  show "\<exists>q'. key_enqueue x q = Inr q' \<and> queue_ok q' \<and> queued q' = queued q @ [x]"
    if "length (queued q) < KEY_QUEUE_LEN - 1"
  proof -
    have ne: "Suc (key_r q) mod KEY_QUEUE_LEN \<noteq> key_f q" using that step(2) by (simp add: queued_eq)
    let ?q = "q\<lparr>key_queue := (key_queue q)(key_r q := x), key_r := Suc (key_r q) mod KEY_QUEUE_LEN\<rparr>"
    have "key_enqueue x q = Inr ?q" using ne by (simp add: key_enqueue_def Let_def)
    moreover have "queue_ok ?q" using fr pos by (simp add: queue_ok_def)
    moreover have "queued ?q = queued q @ [x]"
      using step(1) [OF ne] step(4) ring_distinct [OF fr] by (simp add: queued_eq)
    ultimately show ?thesis by blast
  qed
  show "\<exists>q'. key_dequeue q = (x, q') \<and> queue_ok q' \<and> queued q' = xs" if "queued q = x # xs"
  proof -
    have ne: "key_f q \<noteq> key_r q" using that step(6) by (auto simp: queued_eq)
    let ?q = "q\<lparr>key_f := Suc (key_f q) mod KEY_QUEUE_LEN\<rparr>"
    have "queued q = key_queue q (key_f q) # queued ?q"
      using fr by (simp add: queued_eq step(3) [OF ne] upt_conv_Cons map_Suc_upt [symmetric] mod_simps
          del: upt_Suc)
    then have "x = key_queue q (key_f q)" "xs = queued ?q" using that by simp_all
    moreover have "queue_ok ?q" using fr pos by (simp add: queue_ok_def)
    ultimately show ?thesis using ne by (simp add: key_dequeue_def)
  qed
qed

section \<open>The address map\<close>

text \<open>What \<open>init_device\<close> builds: region, first and last address, offset of its block, device function.\<close>

definition device_maps :: "IOMap list" where
  "device_maps =
    [\<lparr>map_name = ''serial'', low = 0xa00003f8, high = 0xa00003ff, space = 0, callback = Some Serial_io_handler\<rparr>,
     \<lparr>map_name = ''rtc'', low = 0xa0000040, high = 0xa000005f, space = 0x1000, callback = Some Rtc_io_handler\<rparr>,
     \<lparr>map_name = ''vgactl'', low = 0xa0000100, high = 0xa0000107, space = 0x2000, callback = None\<rparr>,
     \<lparr>map_name = ''vmem'', low = 0xa1000000, high = 0xa10752ff, space = 0x3000, callback = None\<rparr>,
     \<lparr>map_name = ''ffb_mem'', low = 0xa2000000, high = 0xa200001b, space = 0x79000, callback = None\<rparr>,
     \<lparr>map_name = ''ffb_draw'', low = 0xa200001c, high = 0xa200001f, space = 0x7a000, callback = Some Fast_fb_draw\<rparr>,
     \<lparr>map_name = ''keyboard'', low = 0xa0000060, high = 0xa0000063, space = 0x7b000, callback = Some I8042_data_io_handler\<rparr>,
     \<lparr>map_name = ''diskctl'', low = 0xa0000300, high = 0xa000030b, space = 0x7c000, callback = None\<rparr>,
     \<lparr>map_name = ''diskrw'', low = 0xa000030c, high = 0xa000030f, space = 0x7c00c, callback = Some Rw_disk\<rparr>]"

definition device_ports :: ports where
  "device_ports =
     \<lparr>serial_base = 0, rtc_port_base = 0x1000, i8042_data_port_base = 0x7b000, vgactl_port_base = 0x2000,
      vmem = 0x3000, ffb_mem = 0x79000, diskctl_port_base = 0x7c000\<rparr>"

lemma screen_size_eq: "screen_size = 480000"
  by (simp add: screen_size_def screen_width_def screen_height_def SCREEN_W_def SCREEN_H_def)

lemma new_space_at:
  assumes "unat sz + 4096 \<le> 2 ^ 31" and "p_space s + int ((unat sz + 4095) div 4096 * 4096) < int IO_SPACE_MAX"
  shows "new_space sz s = Inr (p_space s, s\<lparr>p_space := p_space s + int ((unat sz + 4095) div 4096 * 4096)\<rparr>)"
  using assms(2) by (simp add: new_space_def page_round_eq [OF assms(1)] Let_def)

lemma port_set_ok:
  assumes "0 \<le> p" and "p + 4 * int i + 4 \<le> int IO_SPACE_MAX"
  shows "port_set p i v s = Inr (s\<lparr>io_space := store (io_space s) (nat (p + 4 * int i)) (bytes_of_word 4 v)\<rparr>)"
  using assms by (simp add: port_set_def obj_write_def)

lemma add_mmio_map_fresh:
  assumes "length (maps s) < NR_MAP" and "\<not> sim_in_pmem addr" and "\<not> sim_in_pmem (addr + len - 1)"
    and "\<forall>m \<in> set (maps s). \<not> (addr \<le> high m \<and> addr + len - 1 \<ge> low m)"
  shows "add_mmio_map name addr sp len cb s = Inr (s\<lparr>maps := maps s @
    [\<lparr>map_name = name, low = addr, high = addr + len - 1, space = sp, callback = cb\<rparr>]\<rparr>)"
  using assms by (auto simp: add_mmio_map_def Let_def)

lemmas device_init_simps = new_space_at port_set_ok add_mmio_map_fresh IO_SPACE_MAX_def NR_MAP_def
  sim_in_pmem_def layout_defs screen_size_eq

lemma regions_ok_device_maps: "regions_ok device_maps"
  by (simp add: device_maps_def apart_def sim_in_pmem_def layout_defs)

lemma port_get_eq:
  assumes "0 \<le> p" and "p + 4 * int i + 4 \<le> int IO_SPACE_MAX"
  shows "port_get s p i = Inr (word_of_bytes (load (io_space s) (nat (p + 4 * int i)) 4))"
  using assms by (simp add: port_get_def obj_read_def)

lemma init_device_run:
  assumes "path \<noteq> '' ''" and "open_image path = Some bs"
  shows "\<exists>s. init_device sc open_image path (power_on\<lparr>io_space := m, sim_pmem := p, ref_pmem := r\<rparr>) = Inr s \<and>
    maps s = device_maps \<and> sim_pmem s = p \<and> ref_pmem s = r \<and> boot_time s = 0 \<and> last_update s = 0 \<and>
    ptr s = device_ports \<and> ramdisk s = bs \<and> kbd s = init_keymap sc (kbd power_on) \<and>
    sim_state s = SIM_STOP \<and> port_get s 0x2000 0 = Inr 0x0190012c \<and>
    (\<forall>k<480000. io_space s (0x3000 + k) = 0)"
proof -
  have size: "push_bit 16 screen_width OR screen_height = 0x0190012c"
    by (simp add: screen_width_def screen_height_def SCREEN_W_def SCREEN_H_def)
  have disj: "load (store (\<lambda>k. if 12288 \<le> k \<and> k < 492288 then 0 else g k) 503808 (bytes_of_word 4 v)) 8192 4
      = load g 8192 4" for g :: bytes and v :: u32
    by (simp add: byte_simps) (rule load_cong, simp)
  have clear: "k < 480000 \<longrightarrow>
      store (\<lambda>k. if 12288 \<le> k \<and> k < 492288 then 0 else g k) 503808 bs (12288 + k) = 0" for g :: bytes and bs k
    by (simp add: store_outside)
  show ?thesis using assms
    by (simp add: init_device_def init_map_def init_serial_def power_on_def device_init_simps size
        init_timer_def init_vga_def init_i8042_def init_disk_def Let_def device_maps_def device_ports_def
        port_get_eq disj clear byte_simps)
qed

section \<open>Devices on the bus\<close>

definition attached :: "sim \<Rightarrow> bool" where
  "attached s \<longleftrightarrow> maps s = device_maps \<and> ptr s = device_ports"

lemma fetch_device:
  assumes "attached s" and "m \<in> set device_maps" and "map_inside m a"
  shows "fetch_mmio_map s a = (Some m, s\<lparr>skip_ref := True\<rparr>)"
  using assms fetch_mmio_map_hit [of s m a] regions_ok_device_maps by (simp add: attached_def)

lemma map_access_hit:
  assumes "map_inside m a" and "1 \<le> n" and "n \<le> 8"
  shows "map_read dev a n (Some m) s = rbind (invoke_callback dev (callback m) (a - low m) n False s) (\<lambda>s.
      rbind (sim_host_read (io_space s) (space m + int (unat (a - low m))) n) (\<lambda>ret. Inr (ret, s)))"
    and "map_write dev a n d (Some m) s =
      rbind (sim_host_write (io_space s) (space m + int (unat (a - low m))) n d) (\<lambda>mem.
        invoke_callback dev (callback m) (a - low m) n True (s\<lparr>io_space := mem\<rparr>))"
proof -
  have "\<not> high m < a" "\<not> a < low m" using assms(1) by (auto simp: map_inside_def)
  then show "map_read dev a n (Some m) s = rbind (invoke_callback dev (callback m) (a - low m) n False s) (\<lambda>s.
      rbind (sim_host_read (io_space s) (space m + int (unat (a - low m))) n) (\<lambda>ret. Inr (ret, s)))"
    "map_write dev a n d (Some m) s =
      rbind (sim_host_write (io_space s) (space m + int (unat (a - low m))) n d) (\<lambda>mem.
        invoke_callback dev (callback m) (a - low m) n True (s\<lparr>io_space := mem\<rparr>))"
    using assms(2,3) by (simp_all add: map_read_def map_write_def check_bound_def Let_def)
qed

lemma mmio_device:
  assumes "attached s" and "m \<in> set device_maps" and "map_inside m a" and "1 \<le> n" and "n \<le> 8"
  shows "mmio_read dev a n s =
      rbind (invoke_callback dev (callback m) (a - low m) n False (s\<lparr>skip_ref := True\<rparr>)) (\<lambda>s.
      rbind (sim_host_read (io_space s) (space m + int (unat (a - low m))) n) (\<lambda>ret. Inr (ret, s)))"
    and "mmio_write dev a n d s =
      rbind (sim_host_write (io_space s) (space m + int (unat (a - low m))) n d) (\<lambda>mem.
        invoke_callback dev (callback m) (a - low m) n True (s\<lparr>skip_ref := True, io_space := mem\<rparr>))"
  using assms by (simp_all add: mmio_read_def mmio_write_def fetch_device [OF assms(1-3)] map_access_hit)

abbreviation "serial_map \<equiv> device_maps ! 0"
abbreviation "rtc_map \<equiv> device_maps ! 1"
abbreviation "kbd_map \<equiv> device_maps ! 6"

lemma device_in: "i < 9 \<Longrightarrow> device_maps ! i \<in> set device_maps"
  by (rule nth_mem) (simp add: device_maps_def)

lemma io_host_simps:
  "n \<in> {1, 2, 4} \<Longrightarrow> 0 \<le> p \<Longrightarrow> p + int n \<le> int IO_SPACE_MAX \<Longrightarrow>
     sim_host_read m p n = Inr (word_of_bytes (load m (nat p) n))"
  "n \<in> {1, 2, 4} \<Longrightarrow> 0 \<le> p \<Longrightarrow> p + int n \<le> int IO_SPACE_MAX \<Longrightarrow>
     sim_host_write m p n d = Inr (store m (nat p) (bytes_of_word n d))"
  by (auto simp: sim_host_read_def sim_host_write_def obj_read_def obj_write_def)

text \<open>A byte written to the serial port goes out, in order after the earlier ones; a read of the
  port panics, an access of another width fails the assertion, another offset panics.\<close>

lemma serial_port_run:
  assumes "attached s"
  shows "(\<exists>s'. mmio_write (device_fun e) 0xa00003f8 1 c s = Inr s' \<and> attached s' \<and>
      serial_out s' = serial_out s @ [ucast c]) \<and>
    mmio_read (device_fun e) 0xa00003f8 1 s = Inl Panic \<and>
    mmio_write (device_fun e) 0xa00003f8 4 c s = Inl Assertion \<and>
    mmio_write (device_fun e) 0xa00003fb 1 c s = Inl Panic"
proof -
  have m: "callback serial_map = Some Serial_io_handler" "low serial_map = 0xa00003f8" "space serial_map = 0"
    "map_inside serial_map 0xa00003f8" "map_inside serial_map 0xa00003fb"
    by (simp_all add: device_maps_def map_inside_def)
  have p: "serial_base (ptr s) = 0" using assms by (simp add: attached_def device_ports_def)
  have c: "(ucast (word_of_bytes (load (store m 0 (bytes_of_word 1 c)) 0 1) :: u32) :: u8) = ucast c"
    for m :: bytes
    by (simp add: byte_simps del: One_nat_def) (rule bit_word_eqI, auto simp: bit_simps)
  show ?thesis
    using assms c by (simp add: mmio_device [OF assms device_in, of 0] m io_host_simps IO_SPACE_MAX_def
        invoke_callback_def device_fun_def serial_io_handler_def p obj_read_def serial_putc_def attached_def device_ports_def)
qed

lemma serial_put:
  assumes "attached s"
  shows "mmio_write (device_fun e) 0xa00003f8 1 c s =
    Inr (s\<lparr>skip_ref := True, io_space := store (io_space s) 0 (bytes_of_word 1 c), serial_out := serial_out s @ [ucast c]\<rparr>)"
proof -
  have m: "callback serial_map = Some Serial_io_handler" "low serial_map = 0xa00003f8" "space serial_map = 0"
    "map_inside serial_map 0xa00003f8"
    by (simp_all add: device_maps_def map_inside_def)
  have p: "serial_base (ptr s) = 0" using assms by (simp add: attached_def device_ports_def)
  have c: "(ucast (word_of_bytes (load (store m 0 (bytes_of_word 1 c)) 0 1) :: u32) :: u8) = ucast c"
    for m :: bytes
    by (simp add: byte_simps del: One_nat_def) (rule bit_word_eqI, auto simp: bit_simps)
  show ?thesis
    using c by (simp add: mmio_device [OF assms device_in, of 0] m io_host_simps IO_SPACE_MAX_def
        invoke_callback_def device_fun_def serial_io_handler_def p obj_read_def serial_putc_def)
qed

text \<open>A host that answers zero to everything, and the machine after \<open>init_device\<close>.\<close>

definition quiet_host :: host where
  "quiet_host = \<lparr>tod1 = 0, tod2 = 0,
     date = \<lparr>tm_sec = 0, tm_min = 0, tm_hour = 0, tm_mday = 0, tm_mon = 0, tm_year = 0\<rparr>\<rparr>"

definition ready :: sim where
  "ready = power_on\<lparr>maps := device_maps, ptr := device_ports, sim_state := SIM_RUNNING\<rparr>"

lemma ready_attached: "attached ready"
  by (simp add: attached_def ready_def)

lemma serial_port_example:
  "\<exists>s. mmio_write (device_fun quiet_host) 0xa00003f8 1 65 ready = Inr s \<and> serial_out s = [65]"
  using serial_port_run [OF ready_attached, of quiet_host 65] by (auto simp: ready_def power_on_def)

definition rtc_words :: "host \<Rightarrow> sim \<Rightarrow> u32 list" where
  "rtc_words e s =
     (let us = tod2 e - (if boot_time s = 0 then tod1 e else boot_time s); d = date e in
      [ucast us, ucast (drop_bit 32 us), tm_sec d, tm_min d, tm_hour d, tm_mday d, tm_mon d + 1, tm_year d + 1900])"

definition clock_started :: "host \<Rightarrow> sim \<Rightarrow> sim" where
  "clock_started e s = (if boot_time s = 0 then s\<lparr>boot_time := tod1 e\<rparr> else s)"

lemma rtc_io_handler_eq:
  assumes "rtc_port_base (ptr s) = 0x1000"
  shows "rtc_io_handler e offset len False s =
    Inr ((clock_started e s)\<lparr>io_space := store (io_space s) 0x1000 (concat (map (bytes_of_word 4) (rtc_words e s)))\<rparr>)"
  using assms
  by (simp add: rtc_io_handler_def get_time_def Let_def port_set_ok IO_SPACE_MAX_def store_append
      rtc_words_def clock_started_def)

text \<open>The eight words of the clock region read as the two halves of the microseconds since the
  first reading and the host's date, with the month counted from 1 and the full year.\<close>

lemma rtc_run:
  assumes "attached s" and "i < 8"
  shows "\<exists>s'. mmio_read (device_fun e) (0xa0000040 + 4 * of_nat i) 4 s = Inr (rtc_words e s ! i, s') \<and>
    attached s' \<and> boot_time s' = (if boot_time s = 0 then tod1 e else boot_time s)"
proof -
  have m: "callback rtc_map = Some Rtc_io_handler" "low rtc_map = 0xa0000040" "space rtc_map = 0x1000"
    by (simp_all add: device_maps_def)
  have i: "i \<in> {0,1,2,3,4,5,6,7}" using assms(2) by auto
  then have "map_inside rtc_map (0xa0000040 + 4 * of_nat i) \<and> unat (4 * of_nat i :: u32) = 4 * i"
    by (elim insertE emptyE) (simp_all add: device_maps_def map_inside_def)
  then have mi: "map_inside rtc_map (0xa0000040 + 4 * of_nat i)" "unat (4 * of_nat i :: u32) = 4 * i"
    by blast+
  define ws where "ws = concat (map (bytes_of_word 4) (rtc_words e s))"
  have "rtc_io_handler e off l False (s\<lparr>skip_ref := True\<rparr>) =
      Inr ((clock_started e (s\<lparr>skip_ref := True\<rparr>))\<lparr>io_space := store (io_space s) 0x1000 ws\<rparr>)" for off l
    using assms(1) rtc_io_handler_eq [of "s\<lparr>skip_ref := True\<rparr>" e]
    by (simp add: attached_def device_ports_def ws_def rtc_words_def)
  moreover have "word_of_bytes (take 4 (drop (4 * i) ws)) = rtc_words e s ! i"
    using i by (elim insertE emptyE) (simp_all add: ws_def rtc_words_def Let_def byte_simps)
  moreover have "length ws = 32" by (simp add: ws_def rtc_words_def Let_def)
  ultimately show ?thesis
    using assms by (simp add: mmio_device [OF assms(1) device_in mi(1)] m IO_SPACE_MAX_def mi(2)
        invoke_callback_def device_fun_def io_host_simps load_store_within attached_def
        clock_started_def nat_add_distrib nat_mult_distrib del: One_nat_def)
qed

lemma rtc_example:
  "\<exists>s. mmio_read (device_fun (quiet_host\<lparr>tod1 := 5, tod2 := 12\<rparr>)) 0xa0000040 4 ready = Inr (7, s)"
  using rtc_run [OF ready_attached, of 0 "quiet_host\<lparr>tod1 := 5, tod2 := 12\<rparr>"]
  by (auto simp: rtc_words_def ready_def power_on_def Let_def)

section \<open>The keyboard on the bus\<close>

text \<open>A key that SDL reports, and one read of the keyboard register.\<close>

definition bus_enqueue :: "u32 \<Rightarrow> sim \<Rightarrow> sim res" where
  "bus_enqueue key s = rbind (key_enqueue key (kbd s)) (\<lambda>q. Inr (s\<lparr>kbd := q\<rparr>))"

definition bus_dequeue :: "host \<Rightarrow> sim \<Rightarrow> u32 \<times> sim" where
  "bus_dequeue e s =
     (case mmio_read (device_fun e) 0xa0000060 4 s of Inr r \<Rightarrow> r | Inl _ \<Rightarrow> (KEY_NONE, s))"

definition kbd_ok :: "sim \<Rightarrow> bool" where
  "kbd_ok s \<longleftrightarrow> attached s \<and> queue_ok (kbd s)"

lemma bus_dequeue_eq:
  assumes "attached s"
  shows "\<exists>s'. bus_dequeue e s = (fst (key_dequeue (kbd s)), s') \<and> attached s' \<and>
    kbd s' = snd (key_dequeue (kbd s)) \<and> mmio_read (device_fun e) 0xa0000060 4 s = Inr (bus_dequeue e s)"
proof -
  have m: "callback kbd_map = Some I8042_data_io_handler" "low kbd_map = 0xa0000060" "space kbd_map = 0x7b000"
    "map_inside kbd_map 0xa0000060"
    by (simp_all add: device_maps_def map_inside_def)
  have p: "i8042_data_port_base (ptr s) = 0x7b000" using assms by (simp add: attached_def device_ports_def)
  show ?thesis
    using assms by (cases "key_dequeue (kbd s)")
     (simp add: bus_dequeue_def mmio_device [OF assms device_in, of 6] m IO_SPACE_MAX_def invoke_callback_def
        device_fun_def i8042_data_io_handler_def p port_set_ok io_host_simps byte_simps attached_def device_ports_def)
qed

interpretation bus_keys: bounded_fifo bus_enqueue "bus_dequeue e" "\<lambda>s. queued (kbd s)" kbd_ok
  "KEY_QUEUE_LEN - 1" KEY_NONE
proof
  fix s x xs
  assume "kbd_ok s"
  then have ok: "attached s" "queue_ok (kbd s)" by (simp_all add: kbd_ok_def)
  obtain s' where s': "bus_dequeue e s = (fst (key_dequeue (kbd s)), s')" "attached s'"
    "kbd s' = snd (key_dequeue (kbd s))" using bus_dequeue_eq [OF ok(1)] by blast
  show "length (queued (kbd s)) \<le> KEY_QUEUE_LEN - 1" using keys.bounded [OF ok(2)] .
  show "length (queued (kbd s)) = KEY_QUEUE_LEN - 1 \<Longrightarrow> bus_enqueue x s = Inl Assertion"
    using keys.enq_full [OF ok(2)] by (simp add: bus_enqueue_def)
  show "length (queued (kbd s)) < KEY_QUEUE_LEN - 1 \<Longrightarrow>
      \<exists>q'. bus_enqueue x s = Inr q' \<and> kbd_ok q' \<and> queued (kbd q') = queued (kbd s) @ [x]"
    using keys.enq_room [OF ok(2), of x] ok(1) by (auto simp: bus_enqueue_def kbd_ok_def attached_def)
  show "queued (kbd s) = x # xs \<Longrightarrow> \<exists>q'. bus_dequeue e s = (x, q') \<and> kbd_ok q' \<and> queued (kbd q') = xs"
    using keys.deq_Cons [OF ok(2), of x xs] s' by (auto simp: kbd_ok_def)
  show "queued (kbd s) = [] \<Longrightarrow> \<exists>q'. bus_dequeue e s = (KEY_NONE, q') \<and> kbd_ok q' \<and> queued (kbd q') = []"
    using keys.deq_Nil [OF ok(2)] s' by (auto simp: kbd_ok_def)
qed

subsection \<open>Scancodes\<close>

lemma keymap_from_other: "k \<notin> sc ` set ks \<Longrightarrow> keymap_from sc ks n km k = km k"
  by (induction ks arbitrary: n km) auto

lemma keymap_from_nth:
  "distinct ks \<Longrightarrow> inj_on sc (set ks) \<Longrightarrow> i < length ks \<Longrightarrow>
     keymap_from sc ks n km (sc (ks ! i)) = n + of_nat i"
proof (induction ks arbitrary: n km i)
  case (Cons k ks)
  then have "sc k \<notin> sc ` set ks" by auto
  then show ?case using Cons by (cases i) (simp_all add: keymap_from_other)
qed simp

lemma distinct_KEYS: "distinct KEYS"
  by (simp add: KEYS_def)

lemma length_KEYS: "length KEYS = 82"
  by (simp add: KEYS_def)

text \<open>The code of key \<open>i\<close>, as the programs see it: its number, and bit 15 when it goes down.\<close>

definition key_code :: "nat \<Rightarrow> bool \<Rightarrow> u32" where
  "key_code i down = of_nat (i + 1) OR (if down then KEYDOWN_MASK else 0)"

definition key_event :: "(string \<Rightarrow> nat) \<Rightarrow> nat \<times> bool \<Rightarrow> sdl_event" where
  "key_event sc = (\<lambda>(i, down). SDL_KEY down (of_nat (sc (KEYS ! i))))"

text \<open>What the proofs assume of SDL: its scancodes are distinct bytes. The table is the initial one.\<close>

definition scancodes_ok :: "(string \<Rightarrow> nat) \<Rightarrow> bool" where
  "scancodes_ok sc \<longleftrightarrow> inj_on sc (set KEYS) \<and> (\<forall>k \<in> set KEYS. sc k < 256)"

definition keymap_ready :: "(string \<Rightarrow> nat) \<Rightarrow> sim \<Rightarrow> bool" where
  "keymap_ready sc s \<longleftrightarrow> sim_state s = SIM_RUNNING \<and>
     (\<forall>i < length KEYS. keymap (kbd s) (sc (KEYS ! i)) = of_nat (i + 1))"

lemma init_keymap_ready:
  assumes "scancodes_ok sc" and "sim_state s = SIM_RUNNING"
  shows "keymap_ready sc (s\<lparr>kbd := init_keymap sc q\<rparr>)"
  using assms keymap_from_nth [OF distinct_KEYS, of sc]
  by (simp add: keymap_ready_def init_keymap_def scancodes_ok_def add.commute)

lemma handle_key_event:
  assumes "keymap_ready sc s" and "scancodes_ok sc" and "i < length KEYS"
  shows "handle_event (key_event sc (i, down)) s = bus_enqueue (key_code i down) s"
proof -
  have "sc (KEYS ! i) < 256" using assms(2,3) by (simp add: scancodes_ok_def)
  then have "unat (ucast (of_nat (sc (KEYS ! i)) :: u32) :: u8) = sc (KEYS ! i)"
    by (simp add: unsigned_ucast_eq unsigned_of_nat take_bit_nat_eq_self)
  moreover have "unat (of_nat (i + 1) :: u32) = i + 1"
    using assms(3) length_KEYS by (subst unsigned_of_nat) (simp add: take_bit_nat_eq_self)
  then have "of_nat (i + 1) \<noteq> (0 :: u32)" by (metis add_is_0 one_neq_zero unsigned_0)
  ultimately show ?thesis
    using assms by (simp add: key_event_def handle_event_def send_key_def keymap_ready_def KEY_NONE_def
        bus_enqueue_def key_code_def Let_def)
qed

lemma bus_enqueue_ready: "bus_enqueue x s = Inr s' \<Longrightarrow> keymap_ready sc s \<Longrightarrow> keymap_ready sc s'"
  by (auto simp: bus_enqueue_def key_enqueue_def keymap_ready_def rbind_eq_Inr_iff Let_def)

lemma handle_key_events:
  assumes "scancodes_ok sc" and "\<forall>(i, _) \<in> set evs. i < length KEYS"
  shows "keymap_ready sc s \<Longrightarrow> rfold handle_event (map (key_event sc) evs) s =
    rfold bus_enqueue (map (\<lambda>(i, down). key_code i down) evs) s"
  using assms(2)
proof (induction evs arbitrary: s)
  case (Cons ev evs)
  obtain i down where ev: "ev = (i, down)" by (cases ev)
  have "handle_event (key_event sc ev) s = bus_enqueue (key_code i down) s"
    using handle_key_event [OF _ assms(1)] Cons.prems ev by auto
  then show ?case
    using Cons bus_enqueue_ready by (cases "bus_enqueue (key_code i down) s") (auto simp: ev)
qed simp

text \<open>Key events reach the program in order: after up to 1023 presses and releases, reads of the
  keyboard register return their codes first in, first out, and then 0 for no key; one event more
  fails the overflow assertion.\<close>

lemma keyboard_run:
  assumes "scancodes_ok sc" and "keymap_ready sc s" and "kbd_ok s" and "queued (kbd s) = []"
    and "\<forall>(i, _) \<in> set evs. i < length KEYS"
  shows "if length evs \<le> 1023
    then \<exists>s'. rfold handle_event (map (key_event sc) evs) s = Inr s' \<and>
      fst (drain (bus_dequeue e) (length evs + n) s') =
        map (\<lambda>(i, down). key_code i down) evs @ replicate n KEY_NONE
    else rfold handle_event (map (key_event sc) evs) s = Inl Assertion"
  using bus_keys.fifo [OF assms(3,4), of "map (\<lambda>(i, down). key_code i down) evs" e n]
    handle_key_events [OF assms(1,5,2)]
  by (cases "length evs \<le> 1023") (simp_all add: KEY_QUEUE_LEN_def)

text \<open>A concrete assignment of scancodes: the position in the table.\<close>

definition position :: "string \<Rightarrow> nat" where
  "position k = length (takeWhile (\<lambda>x. x \<noteq> k) KEYS)"

lemma takeWhile_position:
  "k \<in> set xs \<Longrightarrow> length (takeWhile (\<lambda>x. x \<noteq> k) xs) < length xs \<and>
     xs ! length (takeWhile (\<lambda>x. x \<noteq> k) xs) = k"
  by (induction xs) auto

lemma position_ok: "scancodes_ok position"
proof -
  have pos: "position k < 82 \<and> KEYS ! position k = k" if "k \<in> set KEYS" for k
    using takeWhile_position [OF that] by (simp add: position_def length_KEYS)
  then have "inj_on position (set KEYS)" unfolding inj_on_def by metis
  then show ?thesis using pos by (fastforce simp: scancodes_ok_def)
qed

lemma keyboard_example:
  "\<exists>s. rfold handle_event (map (key_event position) [(0, True), (0, False)])
      (ready\<lparr>kbd := init_keymap position (kbd power_on)\<rparr>) = Inr s \<and>
     fst (drain (bus_dequeue quiet_host) 3 s) = [0x8001, 1, 0]"
proof -
  let ?s = "ready\<lparr>kbd := init_keymap position (kbd power_on)\<rparr>"
  have "keymap_ready position ?s"
    by (rule init_keymap_ready [OF position_ok]) (simp add: ready_def power_on_def)
  moreover have "kbd_ok ?s" "queued (kbd ?s) = []"
    using ready_attached
    by (simp_all add: kbd_ok_def attached_def queue_ok_def queued_def init_keymap_def power_on_def KEY_QUEUE_LEN_def)
  ultimately show ?thesis
    using keyboard_run [OF position_ok, of ?s "[(0, True), (0, False)]" quiet_host 1]
    by (simp add: key_code_def KEY_NONE_def KEYDOWN_MASK_def length_KEYS numeral_3_eq_3 del: rfold.simps)
qed

end
