(* ===== verification/Pixels.thy ===== *)
theory Pixels
  imports Bytes
begin

text \<open>
  Arrays of 32-bit pixels in a byte memory, written one by one: what the copy loops of the screen
  device, of the drawing libraries and of the graphics port have in common.
\<close>

definition get_pixel :: "nat \<Rightarrow> bytes \<Rightarrow> nat \<Rightarrow> u32" where
  "get_pixel base m d = word_of_bytes (load m (base + 4 * d) 4)"

definition put_pixels :: "nat \<Rightarrow> (nat \<times> u32) list \<Rightarrow> bytes \<Rightarrow> bytes" where
  "put_pixels base ps m = fold (\<lambda>(d, v) m. store m (base + 4 * d) (bytes_of_word 4 v)) ps m"

text \<open>The pixels of a rectangle, row by row.\<close>

definition rect :: "nat \<Rightarrow> nat \<Rightarrow> (nat \<Rightarrow> nat \<Rightarrow> 'a) \<Rightarrow> 'a list" where
  "rect h w f = concat (map (\<lambda>i. map (f i) [0..<w]) [0..<h])"

lemma put_pixels_simps [simp]:
  "put_pixels base [] m = m"
  "put_pixels base (ps @ qs) m = put_pixels base qs (put_pixels base ps m)"
  by (simp_all add: put_pixels_def)

lemma put_pixel [simp]: "put_pixels base [(d, v)] m = store m (base + 4 * d) (bytes_of_word 4 v)"
  by (simp add: put_pixels_def)

lemma get_put_pixel:
  "get_pixel base (store m (base + 4 * d) (bytes_of_word 4 v)) k = (if k = d then v else get_pixel base m k)"
proof (cases "k = d")
  case True
  then show ?thesis by (simp add: get_pixel_def byte_simps)
next
  case False
  then have "base + 4 * d + 4 \<le> base + 4 * k \<or> base + 4 * k + 4 \<le> base + 4 * d" by linarith
  then show ?thesis using False by (simp add: get_pixel_def load_store_disjoint)
qed

lemma get_put_pixels:
  "get_pixel base (put_pixels base ps m) k =
     (case map_of (rev ps) k of Some v \<Rightarrow> v | None \<Rightarrow> get_pixel base m k)"
proof (induction ps rule: rev_induct)
  case (snoc p ps)
  then show ?case by (cases p) (simp add: get_put_pixel)
qed simp

lemma get_put_pixels_in:
  assumes "(k, v) \<in> set ps" and "\<And>v'. (k, v') \<in> set ps \<Longrightarrow> v' = v"
  shows "get_pixel base (put_pixels base ps m) k = v"
proof -
  have "k \<in> fst ` set (rev ps)" using assms(1) by force
  then have "map_of (rev ps) k \<noteq> None" by (simp add: map_of_eq_None_iff)
  then obtain v' where "map_of (rev ps) k = Some v'" by blast
  moreover from this have "(k, v') \<in> set ps" by (auto dest: map_of_SomeD)
  ultimately show ?thesis using assms(2) by (simp add: get_put_pixels)
qed

lemma get_put_pixels_out:
  "k \<notin> fst ` set ps \<Longrightarrow> get_pixel base (put_pixels base ps m) k = get_pixel base m k"
proof -
  assume "k \<notin> fst ` set ps"
  then have "map_of (rev ps) k = None" by (simp add: map_of_eq_None_iff)
  then show ?thesis by (simp add: get_put_pixels)
qed

lemma put_pixels_outside:
  "\<forall>(d, v) \<in> set ps. x < base + 4 * d \<or> base + 4 * d + 4 \<le> x \<Longrightarrow> put_pixels base ps m x = m x"
proof (induction ps rule: rev_induct)
  case (snoc p ps)
  then show ?case by (cases p) (auto simp: store_outside)
qed simp

lemma set_rect: "set (rect h w f) = {f i j | i j. i < h \<and> j < w}"
proof -
  have "set (rect h w f) = (\<Union>i \<in> {0..<h}. f i ` {0..<w})" by (simp add: rect_def)
  also have "\<dots> = {f i j | i j. i < h \<and> j < w}" by (auto simp: image_iff) (metis atLeastLessThan_iff zero_le)+
  finally show ?thesis .
qed

lemma rect_Suc: "rect (Suc h) w f = rect h w f @ map (f h) [0..<w]"
  by (simp add: rect_def)

text \<open>The copy of a rectangle into an array of rows of \<open>W\<close> pixels, at \<open>(x, y)\<close>.\<close>

lemma put_rect:
  fixes v :: "nat \<Rightarrow> nat \<Rightarrow> u32" and y h :: nat
  assumes "x + w \<le> W"
  defines "ps \<equiv> rect h w (\<lambda>i j. ((y + i) * W + x + j, v i j))"
  shows "get_pixel base (put_pixels base ps m) k =
    (if y \<le> k div W \<and> k div W < y + h \<and> x \<le> k mod W \<and> k mod W < x + w
     then v (k div W - y) (k mod W - x) else get_pixel base m k)"
proof (cases "y \<le> k div W \<and> k div W < y + h \<and> x \<le> k mod W \<and> k mod W < x + w")
  case True
  have pos: "((y + i) * W + x + j) div W = y + i \<and> ((y + i) * W + x + j) mod W = x + j"
    if "j < w" for i j
  proof -
    have "x + j < W" using that assms(1) by linarith
    then show ?thesis by (simp add: add.assoc)
  qed
  let ?i = "k div W - y" and ?j = "k mod W - x"
  have "(y + ?i) * W + x + ?j = k" using True by (simp add: add.assoc)
  moreover have "?i < h" "?j < w" using True by auto
  ultimately have "(k, v ?i ?j) \<in> set ps"
    unfolding ps_def set_rect mem_Collect_eq by (intro exI [of _ ?i] exI [of _ ?j]) simp
  moreover have "v' = v ?i ?j" if k: "(k, v') \<in> set ps" for v'
  proof -
    obtain i j where "k = (y + i) * W + x + j" "v' = v i j" "j < w"
      using k unfolding ps_def set_rect by blast
    then show ?thesis using pos [of j i] by simp
  qed
  ultimately show ?thesis using True get_put_pixels_in by metis
next
  case False
  have "k \<notin> fst ` set ps"
  proof
    assume "k \<in> fst ` set ps"
    then obtain i j where k: "k = (y + i) * W + x + j" "i < h" "j < w" unfolding ps_def set_rect by force
    then have "x + j < W" using assms(1) by linarith
    then have "k div W = y + i" "k mod W = x + j" using k(1) by (simp_all add: add.assoc)
    then show False using False k by simp
  qed
  then show ?thesis unfolding if_not_P [OF False] by (rule get_put_pixels_out)
qed

end
