(* ===== verification/Sim_Drawing.thy ===== *)
theory Sim_Drawing
  imports Sim_Devices Pixels
begin

text \<open>
  The two devices that move blocks of memory: the clipped copy into the frame buffer
  (\<open>fast_fb_draw\<close>) and the disk (\<open>rw_disk\<close>), and the memory map that \<open>init_device\<close> builds.
\<close>

section \<open>Drawing\<close>

definition fb_base :: nat where "fb_base = 0x3000"

text \<open>The source pixel \<open>k\<close>, in memory at \<open>pixels\<close>.\<close>

abbreviation src_pixel :: "sim \<Rightarrow> u32 \<Rightarrow> nat \<Rightarrow> u32" where
  "src_pixel s pixels k \<equiv> get_pixel (offset_of pixels) (sim_pmem s) k"

lemma unat_index:
  assumes "i * unat w + j < 2 ^ 32"
  shows "unat (of_nat i * (w :: u32) + of_nat j) = i * unat w + j"
proof -
  have "of_nat i * w + of_nat j = (of_nat (i * unat w + j) :: u32)" by simp
  then show ?thesis using assms by (simp add: unsigned_of_nat take_bit_nat_eq_self del: of_nat_add of_nat_mult)
qed

lemma unat_index_at:
  assumes "(unat y + i) * unat W + unat x + j < 2 ^ 32"
  shows "unat ((y + of_nat i) * (W :: u32) + x + of_nat j) = (unat y + i) * unat W + unat x + j"
proof -
  have "(y + of_nat i) * W + x + of_nat j = (of_nat ((unat y + i) * unat W + unat x + j) :: u32)" by simp
  then show ?thesis using assms by (simp add: unsigned_of_nat take_bit_nat_eq_self del: of_nat_add of_nat_mult)
qed

lemma word_room:
  "q + 1 \<le> a \<Longrightarrow> p + 4 * a \<le> (c :: nat) \<Longrightarrow> p + 4 * q + 4 \<le> c"
  "p + 4 * q + 4 \<le> 0x88000000 \<Longrightarrow> q < 2 ^ 32"
  "q < 120000 \<Longrightarrow> q < 2 ^ 32"
  "q < 120000 \<Longrightarrow> int (fb_base + 4 * q) + 4 \<le> int IO_SPACE_MAX"
  "0x80000000 \<le> p \<Longrightarrow> p + 4 * q + 4 \<le> 0x88000000 \<Longrightarrow> (p - 0x80000000) + 4 * q + 4 \<le> 0x8000000"
  by (simp_all add: fb_base_def IO_SPACE_MAX_def)

lemma ffb_pixel_ok:
  assumes "ptr s = device_ports" and "0x80000000 \<le> unat pixels"
    and src: "unat pixels + 4 * (i * unat w + j) + 4 \<le> 0x88000000"
    and dst: "(unat y + i) * unat W + unat x + j < 120000"
  shows "ffb_pixel x y w W pixels i j s = Inr (s\<lparr>io_space := store (io_space s)
    (fb_base + 4 * ((unat y + i) * unat W + unat x + j)) (bytes_of_word 4 (src_pixel s pixels (i * unat w + j)))\<rparr>)"
proof -
  let ?s = "i * unat w + j" and ?d = "(unat y + i) * unat W + unat x + j"
  have "?s < 2 ^ 32" by (rule word_room(2) [OF src])
  moreover have "?d < 2 ^ 32" by (rule word_room(3) [OF dst])
  ultimately have us: "uint (of_nat i * w + of_nat j) = int ?s"
    and ud: "uint ((y + of_nat i) * W + x + of_nat j) = int ?d"
    unfolding uint_nat by (simp_all only: unat_index unat_index_at)
  have g: "guest_to_host pixels + 4 * int ?s = int (offset_of pixels + 4 * ?s)"
    using assms(2) unfolding guest_to_host_eq by linarith
  have "offset_of pixels + 4 * ?s + 4 \<le> CONFIG_MSIZE"
    unfolding CONFIG_MSIZE_def by (rule word_room(5) [OF assms(2) src])
  then have "int (offset_of pixels + 4 * ?s) + 4 \<le> int CONFIG_MSIZE" by linarith
  then have r: "obj_read CONFIG_MSIZE (sim_pmem s) (guest_to_host pixels + 4 * uint (of_nat i * w + of_nat j)) 4 =
      Inr (src_pixel s pixels ?s)"
    unfolding us g obj_read_def by (simp only: get_pixel_def nat_int rassert_def rbind_Inr of_nat_0_le_iff
        simp_thms if_True of_nat_numeral)
  have v: "vmem (ptr s) + 4 * int ?d = int (fb_base + 4 * ?d)"
    by (simp add: assms(1) device_ports_def fb_base_def)
  have "int (fb_base + 4 * ?d) + 4 \<le> int IO_SPACE_MAX"
    by (rule word_room(4) [OF dst])
  then show ?thesis
    unfolding ffb_pixel_def r rbind_Inr ud v obj_write_def
    by (simp only: nat_int rassert_def rbind_Inr of_nat_0_le_iff simp_thms if_True of_nat_numeral)
qed

lemma fold_pixels:
  "fold (\<lambda>j s. s\<lparr>io_space := store (io_space s) (base + 4 * d j) (bytes_of_word 4 (v j))\<rparr>) xs s =
     s\<lparr>io_space := put_pixels base (map (\<lambda>j. (d j, v j)) xs) (io_space s)\<rparr>"
  by (induction xs rule: rev_induct) simp_all

lemma fold_rows:
  "fold (\<lambda>i s. s\<lparr>io_space := put_pixels base (map (f i) [0..<w]) (io_space s)\<rparr>) [0..<h] s =
     s\<lparr>io_space := put_pixels base (rect h w f) (io_space s)\<rparr>"
  by (induction h) (simp_all add: rect_Suc, simp add: rect_def)

text \<open>The loops draw a rectangle, when it lies on the screen and its source in memory.\<close>

lemma ffb_loops:
  assumes "ptr s = device_ports" and "0x80000000 \<le> unat pixels"
    and "unat pixels + 4 * (unat w * h) \<le> 0x88000000" and "n \<le> unat w"
    and "unat x + n \<le> unat W" and "0 < h \<Longrightarrow> unat y + h \<le> H" and "unat W * H \<le> 120000"
  shows "rfold (\<lambda>i. rfold (\<lambda>j. ffb_pixel x y w W pixels i j) [0..<n]) [0..<h] s =
    Inr (s\<lparr>io_space := put_pixels fb_base (rect h n (\<lambda>i j.
      ((unat y + i) * unat W + unat x + j, src_pixel s pixels (i * unat w + j)))) (io_space s)\<rparr>)"
proof -
  define P where "P = (\<lambda>t :: sim. ptr t = device_ports \<and> sim_pmem t = sim_pmem s)"
  have bounds: "unat pixels + 4 * (i * unat w + j) + 4 \<le> 0x88000000"
    "(unat y + i) * unat W + unat x + j < 120000" if "i < h" "j < n" for i j
  proof -
    have "Suc i * unat w \<le> h * unat w" using that(1) by (intro mult_le_mono1) simp
    then have "i * unat w + j + 1 \<le> unat w * h" using that(2) assms(4) by (simp add: mult.commute)
    then show "unat pixels + 4 * (i * unat w + j) + 4 \<le> 0x88000000" by (rule word_room(1) [OF _ assms(3)])
    have "Suc (unat y + i) * unat W \<le> H * unat W" using that(1) assms(6) by (intro mult_le_mono1) auto
    then show "(unat y + i) * unat W + unat x + j < 120000"
      using that(2) assms(5,7) by (simp add: mult.commute)
  qed
  have inner: "rfold (\<lambda>j. ffb_pixel x y w W pixels i j) [0..<n] a =
      Inr (a\<lparr>io_space := put_pixels fb_base (map (\<lambda>j. ((unat y + i) * unat W + unat x + j,
        src_pixel s pixels (i * unat w + j))) [0..<n]) (io_space a)\<rparr>)" if "i < h" "P a" for i a
  proof -
    have "rfold (\<lambda>j. ffb_pixel x y w W pixels i j) [0..<n] a =
      Inr (fold (\<lambda>j b. b\<lparr>io_space := store (io_space b) (fb_base + 4 * ((unat y + i) * unat W + unat x + j))
         (bytes_of_word 4 (src_pixel s pixels (i * unat w + j)))\<rparr>) [0..<n] a)"
      using that by (intro rfold_pure [where P = P, THEN conjunct1])
        (auto simp: P_def ffb_pixel_ok [OF _ assms(2) bounds])
    then show ?thesis by (simp only: fold_pixels)
  qed
  have "rfold (\<lambda>i. rfold (\<lambda>j. ffb_pixel x y w W pixels i j) [0..<n]) [0..<h] s =
      Inr (fold (\<lambda>i b. b\<lparr>io_space := put_pixels fb_base (map (\<lambda>j. ((unat y + i) * unat W + unat x + j,
        src_pixel s pixels (i * unat w + j))) [0..<n]) (io_space b)\<rparr>) [0..<h] s)"
    using assms(1) by (intro rfold_pure [where P = P, THEN conjunct1]) (auto simp: P_def inner)
  then show ?thesis by (simp only: fold_rows)
qed

text \<open>The fast drawing port copies the part of the \<open>w \<times> h\<close> source rectangle that fits a screen of
  \<open>W \<times> H\<close> to \<open>(x, y)\<close>: pixel \<open>(x + j, y + i)\<close> becomes source pixel \<open>i * w + j\<close>, every other pixel
  and the rest of the state stay. (The left edge must not lie right of the screen.)\<close>

lemma fast_fb_draw_run:
  assumes "attached s" and args: "\<forall>i<7. port_get s 0x79000 i = Inr ([x, y, w, h, W, H, pixels] ! i)"
    and "unat x + unat w < 2 ^ 32" and "unat y + unat h < 2 ^ 32" and "x \<le> W"
    and "unat W * unat H \<le> 120000" and "0x80000000 \<le> unat pixels"
    and "unat pixels + 4 * (unat w * unat h) \<le> 0x88000000"
  shows "\<exists>s'. fast_fb_draw offset len True s = Inr s' \<and> s' = s\<lparr>io_space := io_space s'\<rparr> \<and>
    (\<forall>a<fb_base. io_space s' a = io_space s a) \<and>
    (\<forall>k. get_pixel fb_base (io_space s') k =
      (if unat y \<le> k div unat W \<and> k div unat W < min (unat y + unat h) (unat H) \<and>
          unat x \<le> k mod unat W \<and> k mod unat W < min (unat x + unat w) (unat W)
       then src_pixel s pixels ((k div unat W - unat y) * unat w + (k mod unat W - unat x))
       else get_pixel fb_base (io_space s) k))"
proof -
  define hr where "hr = (if y + h > H then (if y > H then 0 else H - y) else h)"
  define wr where "wr = (if x + w > W then W - x else w)"
  have sums: "unat (y + h) = unat y + unat h" "unat (x + w) = unat x + unat w"
    using assms(3,4) by (simp_all add: unat_add_lem [symmetric])
  have hr: "unat hr = min (unat h) (unat H - unat y)"
    unfolding hr_def by (auto simp: word_less_nat_alt sums unat_sub_if' word_le_nat_alt min_def)
  have wr: "unat wr = min (unat w) (unat W - unat x)"
    using assms(5) unfolding wr_def by (auto simp: word_less_nat_alt sums unat_sub_if' word_le_nat_alt min_def)
  have p: "ffb_mem (ptr s) = 0x79000" "ptr s = device_ports"
    using assms(1) by (simp_all add: attached_def device_ports_def)
  have get: "port_get s 0x79000 0 = Inr x" "port_get s 0x79000 1 = Inr y" "port_get s 0x79000 2 = Inr w"
    "port_get s 0x79000 3 = Inr h" "port_get s 0x79000 4 = Inr W" "port_get s 0x79000 5 = Inr H"
    "port_get s 0x79000 6 = Inr pixels" using args by (simp_all add: all_less_numeral)
  have "unat w * unat hr \<le> unat w * unat h" using hr by simp
  then have src: "unat pixels + 4 * (unat w * unat hr) \<le> 0x88000000" using assms(8) by linarith
  let ?ps = "rect (unat hr) (unat wr) (\<lambda>i j. ((unat y + i) * unat W + unat x + j,
      src_pixel s pixels (i * unat w + j)))"
  have xw: "unat x + unat wr \<le> unat W" using wr assms(5) by (simp add: word_le_nat_alt)
  have yh: "0 < unat hr \<Longrightarrow> unat y + unat hr \<le> unat H" using hr by auto
  have "fast_fb_draw offset len True s = Inr (s\<lparr>io_space := put_pixels fb_base ?ps (io_space s)\<rparr>)"
    using ffb_loops [where y = y, OF p(2) assms(7) src _ xw yh assms(6)] hr wr
    by (simp add: fast_fb_draw_def p(1) get Let_def flip: hr_def wr_def del: One_nat_def)
  moreover have "get_pixel fb_base (put_pixels fb_base ?ps (io_space s)) k =
      (if unat y \<le> k div unat W \<and> k div unat W < min (unat y + unat h) (unat H) \<and>
          unat x \<le> k mod unat W \<and> k mod unat W < min (unat x + unat w) (unat W)
       then src_pixel s pixels ((k div unat W - unat y) * unat w + (k mod unat W - unat x))
       else get_pixel fb_base (io_space s) k)" for k
    using xw by (subst put_rect) (auto simp: hr wr)
  moreover have "put_pixels fb_base ?ps (io_space s) a = io_space s a" if "a < fb_base" for a
    using that by (intro put_pixels_outside) (auto simp: set_rect)
  ultimately show ?thesis by auto
qed

text \<open>A call that draws a two-pixel row of which one pixel is on the screen.\<close>

definition draw_args :: "u32 list" where
  "draw_args = [399, 1, 2, 1, 400, 300, 0x80001000]"

lemma fast_fb_draw_example:
  "\<exists>s'. fast_fb_draw 0 4 True (ready\<lparr>io_space := store (\<lambda>_. 0) 0x79000 (concat (map (bytes_of_word 4) draw_args)),
        sim_pmem := (\<lambda>_. 1)\<rparr>) = Inr s' \<and>
     get_pixel fb_base (io_space s') 799 = 0x01010101 \<and> get_pixel fb_base (io_space s') 800 = 0"
proof -
  let ?s = "ready\<lparr>io_space := store (\<lambda>_. 0) 0x79000 (concat (map (bytes_of_word 4) draw_args)),
        sim_pmem := (\<lambda>_. 1)\<rparr>"
  have args: "\<forall>i<7. port_get ?s 0x79000 i = Inr ([399, 1, 2, 1, 400, 300, 0x80001000] ! i)"
    by (simp add: all_less_numeral port_get_eq IO_SPACE_MAX_def load_store_within draw_args_def byte_simps)
  have "attached ?s" using ready_attached by (simp add: attached_def)
  from fast_fb_draw_run [OF this args, of 0 4] obtain s' where "fast_fb_draw 0 4 True ?s = Inr s'"
    and px: "\<And>k. get_pixel fb_base (io_space s') k = (if 1 \<le> k div 400 \<and> k div 400 < 2 \<and> 399 \<le> k mod 400 \<and> k mod 400 < 400
       then src_pixel ?s 0x80001000 ((k div 400 - 1) * 2 + (k mod 400 - 399)) else get_pixel fb_base (io_space ?s) k)"
    by auto
  moreover have "word_of_bytes (load (\<lambda>_. 1) 4096 4) = (0x01010101 :: u32)" by code_simp
  then have "src_pixel ?s 0x80001000 0 = 0x01010101" by (simp add: get_pixel_def)
  moreover have "length (concat (map (bytes_of_word 4) draw_args)) = 28" by (simp add: draw_args_def)
  then have "load (io_space ?s) (fb_base + 4 * 800) 4 = [0, 0, 0, 0]"
    by (simp add: load_store_disjoint fb_base_def) (simp add: load_def upt_rec_numeral)
  then have "get_pixel fb_base (io_space ?s) 800 = 0" by (simp add: get_pixel_def)
  ultimately show ?thesis by (intro exI [of _ s']) simp
qed

section \<open>The disk\<close>

abbreviation "diskrw_map \<equiv> device_maps ! 8"

text \<open>Writing command 1 to the disk's command register copies the addressed bytes of the image
  into memory, leaves the rest of memory alone, brings the reference's memory up to date and clears
  the register; command 2 changes neither memory nor image.\<close>

lemma disk_command_run:
  assumes "attached s"
    and args: "\<forall>i<3. port_get s 0x7c000 i = Inr ([disk_addr, mem_addr, sz] ! i)"
    and "unat disk_addr + unat sz \<le> length (ramdisk s)"
    and "0x80000000 \<le> unat mem_addr" and "unat mem_addr + unat sz \<le> 0x88000000"
    and "cmd \<in> {1, 2}"
  shows "\<exists>s'. mmio_write (device_fun e) 0xa000030c 4 cmd s = Inr s' \<and> port_get s' 0x7c000 3 = Inr 0 \<and>
    s' = s\<lparr>skip_ref := True, io_space := io_space s', sim_pmem := sim_pmem s', ref_pmem := ref_pmem s'\<rparr> \<and>
    (\<forall>k<0x7c00c. io_space s' k = io_space s k) \<and>
    (\<forall>k. sim_pmem s' k = (if cmd = 1 \<and> offset_of mem_addr \<le> k \<and> k < offset_of mem_addr + unat sz
       then ramdisk s ! (unat disk_addr + (k - offset_of mem_addr)) else sim_pmem s k)) \<and>
    (cmd = 1 \<longrightarrow> (\<forall>k<CONFIG_MSIZE. ref_pmem s' k = sim_pmem s' k))"
proof -
  have m: "callback diskrw_map = Some Rw_disk" "low diskrw_map = 0xa000030c" "space diskrw_map = 0x7c00c"
    "map_inside diskrw_map 0xa000030c"
    by (simp_all add: device_maps_def map_inside_def)
  have p: "diskctl_port_base (ptr s) = 0x7c000" using assms(1) by (simp add: attached_def device_ports_def)
  define s1 where "s1 = s\<lparr>skip_ref := True, io_space := store (io_space s) 0x7c00c (bytes_of_word 4 cmd)\<rparr>"
  have w: "mmio_write (device_fun e) 0xa000030c 4 cmd s = rw_disk 0 4 True s1"
    by (simp add: mmio_device [OF assms(1) device_in m(4)] m io_host_simps IO_SPACE_MAX_def
        invoke_callback_def device_fun_def s1_def)
  have get: "port_get s 0x7c000 0 = Inr disk_addr" "port_get s 0x7c000 (Suc 0) = Inr mem_addr"
    "port_get s 0x7c000 2 = Inr sz"
    using args by (simp_all add: all_less_numeral)
  have get1: "port_get s1 0x7c000 0 = Inr disk_addr" "port_get s1 0x7c000 1 = Inr mem_addr"
    "port_get s1 0x7c000 2 = Inr sz" "port_get s1 0x7c000 3 = Inr cmd"
    using get by (simp_all add: port_get_eq IO_SPACE_MAX_def s1_def byte_simps load_store_disjoint)
  define d where "d = take (unat sz) (drop (unat disk_addr) (ramdisk s))"
  have len: "length d = unat sz" using assms(3) by (simp add: d_def)
  have nth: "d ! j = ramdisk s ! (unat disk_addr + j)" if "j < unat sz" for j
    using that assms(3) by (simp add: d_def)
  have g: "guest_to_host mem_addr = int (offset_of mem_addr)" using assms(4) unfolding guest_to_host_eq by linarith
  have fits: "int (offset_of mem_addr) + int (unat sz) \<le> int CONFIG_MSIZE"
    using assms(4,5) unfolding CONFIG_MSIZE_def by linarith
  have s1: "ptr s1 = ptr s" "ramdisk s1 = ramdisk s" "sim_pmem s1 = sim_pmem s" by (simp_all add: s1_def)
  have pset: "port_set 0x7c000 3 0 t = Inr (t\<lparr>io_space := store (io_space t) 0x7c00c (bytes_of_word 4 (0 :: u32))\<rparr>)"
    for t by (simp add: port_set_ok IO_SPACE_MAX_def)
  have clear: "port_get (t\<lparr>io_space := store (io_space t) 0x7c00c (bytes_of_word 4 (0 :: u32))\<rparr>) 0x7c000 3 = Inr 0" for t
    by (simp add: port_get_eq IO_SPACE_MAX_def byte_simps)
  consider "cmd = 1" | "cmd = 2" using assms(6) by blast
  then show ?thesis
  proof cases
    case 1
    define mem where "mem = store (sim_pmem s) (offset_of mem_addr) d"
    have "rw_disk 0 4 True s1 = Inr (s1\<lparr>sim_pmem := mem,
        ref_pmem := (\<lambda>k. if k < CONFIG_MSIZE then mem k else ref_pmem s1 k),
        io_space := store (io_space s1) 0x7c00c (bytes_of_word 4 (0 :: u32))\<rparr>)"
      unfolding rw_disk_def s1 p Let_def get1 rbind_Inr d_def [symmetric] using 1 fits
      by (simp add: g pset len flip: mem_def cong: if_cong)
    then show ?thesis
      unfolding w using 1 clear [of s1] by (auto simp: port_get_def s1 mem_def store_def len nth s1_def)
  next
    case 2
    show ?thesis unfolding w rw_disk_def s1 p using 2 by (simp add: Let_def get1 s1 p pset clear store_outside del: One_nat_def) (simp add: s1_def store_outside)
  qed
qed

text \<open>Disk 8 bytes long; the program asks for four of them at offset 2, to be put at 0x80000010.\<close>

lemma disk_command_example:
  "\<exists>s. mmio_write (device_fun quiet_host) 0xa000030c 4 1 (ready\<lparr>ramdisk := [1, 2, 3, 4, 5, 6, 7, 8],
        io_space := store (\<lambda>_. 0) 0x7c000 (concat (map (bytes_of_word 4) [2, 0x80000010, 4 :: u32]))\<rparr>) = Inr s \<and>
     sim_pmem s 0x10 = 3 \<and> sim_pmem s 0x13 = 6 \<and> ref_pmem s 0x13 = 6 \<and> sim_pmem s 0x14 = 0"
proof -
  let ?s = "ready\<lparr>ramdisk := [1, 2, 3, 4, 5, 6, 7, 8],
        io_space := store (\<lambda>_. 0) 0x7c000 (concat (map (bytes_of_word 4) [2, 0x80000010, 4 :: u32]))\<rparr>"
  have args: "\<forall>i<3. port_get ?s 0x7c000 i = Inr ([2, 0x80000010, 4] ! i)"
    by (simp add: all_less_numeral port_get_eq IO_SPACE_MAX_def load_store_within byte_simps)
  have "attached ?s" using ready_attached by (simp add: attached_def)
  from disk_command_run [OF this args, of 1 quiet_host] obtain s where
    "mmio_write (device_fun quiet_host) 0xa000030c 4 1 ?s = Inr s"
    and k: "\<And>k. sim_pmem s k = (if 16 \<le> k \<and> k < 20 then [1, 2, 3, 4, 5, 6, 7, 8] ! (2 + (k - 16)) else 0)"
    and r: "\<And>k. k < CONFIG_MSIZE \<Longrightarrow> ref_pmem s k = sim_pmem s k"
    by (auto simp: ready_def power_on_def)
  then show ?thesis by (intro exI [of _ s]) (simp add: CONFIG_MSIZE_def)
qed

section \<open>The memory map\<close>

text \<open>C32: Started with a disk image, \<open>init_device\<close> succeeds (no overlap, no exhausted table or space)
  and builds exactly the nine regions of \<open>device_maps\<close>, pairwise disjoint and outside memory; every
  device knows its block, the screen reports 400 by 300 and is black, and every key has its
  number once the simulator runs; until then it is stopped.\<close>

theorem init_device_correct:
  assumes "path \<noteq> '' ''" and "open_image path = Some bs" and "scancodes_ok sc"
  shows "\<exists>s. init_device sc open_image path (power_on\<lparr>io_space := m, sim_pmem := p, ref_pmem := r\<rparr>) = Inr s \<and>
    sim_pmem s = p \<and> ref_pmem s = r \<and> attached s \<and> regions_ok (maps s) \<and> ramdisk s = bs \<and> kbd_ok s \<and> queued (kbd s) = [] \<and>
    sim_state s = SIM_STOP \<and> keymap_ready sc (s\<lparr>sim_state := SIM_RUNNING\<rparr>) \<and>
    port_get s 0x2000 0 = Inr 0x0190012c \<and> (\<forall>k<120000. get_pixel fb_base (io_space s) k = 0)"
proof -
  obtain s where s: "init_device sc open_image path (power_on\<lparr>io_space := m, sim_pmem := p, ref_pmem := r\<rparr>) = Inr s"
    "maps s = device_maps" "ptr s = device_ports" "ramdisk s = bs" "kbd s = init_keymap sc (kbd power_on)"
    "sim_state s = SIM_STOP" "port_get s 0x2000 0 = Inr 0x0190012c"
    "\<forall>k<480000. io_space s (0x3000 + k) = 0" "sim_pmem s = p" "ref_pmem s = r"
    using init_device_run [where open_image = open_image, OF assms(1,2), of sc r p m] by blast
  have "keymap_ready sc (s\<lparr>sim_state := SIM_RUNNING, kbd := init_keymap sc (kbd power_on)\<rparr>)"
    by (rule init_keymap_ready [OF assms(3)]) simp
  then have "keymap_ready sc (s\<lparr>sim_state := SIM_RUNNING\<rparr>)" using s(5) by (simp add: keymap_ready_def)
  moreover have "queue_ok (kbd s)" "queued (kbd s) = []"
    using s(5) by (simp_all add: queue_ok_def queued_def init_keymap_def power_on_def KEY_QUEUE_LEN_def)
  moreover have "get_pixel fb_base (io_space s) k = 0" if k: "k < 120000" for k
  proof -
    have "load (io_space s) (fb_base + 4 * k) 4 = load (\<lambda>_. 0) (fb_base + 4 * k) 4"
    proof (rule load_cong)
      fix x assume "fb_base + 4 * k \<le> x" "x < fb_base + 4 * k + 4"
      then obtain j where j: "x = 0x3000 + j" "j < 4 * k + 4"
        by (intro that [of "x - 0x3000"]) (auto simp: fb_base_def)
      then show "io_space s x = 0" using s(8) k by simp
    qed
    also have "\<dots> = [0, 0, 0, 0]" by (simp add: load_def upt_rec numeral_eq_Suc)
    finally show ?thesis by (simp add: get_pixel_def)
  qed
  ultimately show ?thesis
    using s regions_ok_device_maps by (auto simp: attached_def kbd_ok_def)
qed

lemma init_device_correct_witness:
  "\<exists>s. init_device position (\<lambda>_. Some [1, 2]) ''disk.img'' 
      (power_on\<lparr>io_space := \<lambda>_. 3, sim_pmem := \<lambda>_. 5, ref_pmem := \<lambda>_. 7\<rparr>) = Inr s \<and> attached s"
  using init_device_correct [of "''disk.img''" "\<lambda>_. Some [1, 2]" "[1, 2]" position "\<lambda>_. 7" "\<lambda>_. 5" "\<lambda>_. 3"] position_ok by auto

end
