(* ===== verification/Sim_Bus.thy ===== *)
theory Sim_Bus
  imports Sim_Drawing
begin

text \<open>
  The memory ports the processor model calls (\<open>simulator/sim/memory/paddr.cpp\<close>): the direct port,
  and the AXI slave that replaces it when the simulator is compiled with \<open>AXI\<close>. An address in
  memory goes to the array \<open>pmem\<close>, any other to the devices.
\<close>

section \<open>The two ports of the processor\<close>

text \<open>\<open>host_read\<close> and \<open>host_write\<close> on the array \<open>pmem\<close>.\<close>

definition mem_host_read :: "bytes \<Rightarrow> paddr_t \<Rightarrow> nat \<Rightarrow> word_t res" where
  "mem_host_read m addr len =
     (if len = 1 \<or> len = 2 \<or> len = 4 \<or> len = 8
      then obj_read CONFIG_MSIZE m (guest_to_host addr) len else Inl Assertion)"

definition mem_host_write :: "bytes \<Rightarrow> paddr_t \<Rightarrow> nat \<Rightarrow> word_t \<Rightarrow> bytes res" where
  "mem_host_write m addr len data =
     (if len = 1 \<or> len = 2 \<or> len = 4 \<or> len = 8
      then obj_write CONFIG_MSIZE m (guest_to_host addr) len data else Inl Assertion)"

text \<open>An access of \<open>len\<close> bytes: to memory when \<open>at\<close> lies there, else to a device.\<close>

definition bus_read :: "device_call \<Rightarrow> paddr_t \<Rightarrow> paddr_t \<Rightarrow> nat \<Rightarrow> sim \<Rightarrow> (word_t \<times> sim) res" where
  "bus_read dev at addr len s =
     (if sim_in_pmem at then rbind (mem_host_read (sim_pmem s) addr len) (\<lambda>v. Inr (v, s))
      else mmio_read dev addr len s)"

definition bus_write :: "device_call \<Rightarrow> paddr_t \<Rightarrow> paddr_t \<Rightarrow> nat \<Rightarrow> word_t \<Rightarrow> sim \<Rightarrow> sim res" where
  "bus_write dev at addr len data s =
     (if sim_in_pmem at
      then rbind (mem_host_write (sim_pmem s) addr len data) (\<lambda>m. Inr (s\<lparr>sim_pmem := m\<rparr>))
      else mmio_write dev addr len data s)"

text \<open>The direct port, compiled without \<open>AXI\<close>; \<open>mask\<close> is the logarithm of the width.\<close>

definition dpi_read :: "device_call \<Rightarrow> bool \<Rightarrow> u32 \<Rightarrow> u32 \<Rightarrow> u32 \<Rightarrow> sim \<Rightarrow> (u32 \<times> sim) res" where
  "dpi_read dev re raddr lg rword s =
     (if \<not> re then Inr (rword, s) else bus_read dev raddr raddr (2 ^ unat lg) s)"

definition dpi_write :: "device_call \<Rightarrow> bool \<Rightarrow> u32 \<Rightarrow> u32 \<Rightarrow> u32 \<Rightarrow> sim \<Rightarrow> sim res" where
  "dpi_write dev we waddr lg wword s =
     (if \<not> we then Inr s else bus_write dev waddr waddr (2 ^ unat lg) wword s)"

text \<open>
  The AXI port: what the processor drives, what the slave answers, and the slave's static
  variables. One call of \<open>pmem_read\<close> and \<open>pmem_write\<close> is one clock cycle.
\<close>

record axi_master =
  ar_valid :: bool
  ar_addr :: u32
  ar_len :: u32
  ar_size :: u32
  r_ready :: bool
  aw_valid :: bool
  aw_addr :: u32
  aw_len :: u32
  aw_size :: u32
  w_valid :: bool
  w_data :: u32
  w_strb :: u32
  w_last :: bool
  b_ready :: bool

record axi_slave =
  ar_ready :: bool
  r_valid :: bool
  r_last :: bool
  r_data :: u32
  r_resp :: u32
  aw_ready :: bool
  w_ready :: bool
  b_valid :: bool
  rstate :: u32
  araddr :: u32
  arlen :: u32
  arsize :: u32
  rcount :: u32
  wstate :: u32
  awaddr :: u32
  awlen :: u32
  awsize :: u32
  wcount :: u32

definition axi_read :: "device_call \<Rightarrow> axi_master \<Rightarrow> axi_slave \<Rightarrow> sim \<Rightarrow> (axi_slave \<times> sim) res" where
  "axi_read dev d a s =
     (if rstate a = 0 then
        let a = a\<lparr>r_last := False, r_valid := False\<rparr> in
        if ar_valid d then
          rbind (rassert Assertion (ar_addr d \<ge> 0x80000000)) (\<lambda>_.
            Inr (a\<lparr>araddr := ar_addr d, arlen := ar_len d, arsize := push_bit (unat (ar_size d)) 1,
                   rstate := 1, ar_ready := True, rcount := 0\<rparr>, s))
        else Inr (a, s)
      else if rstate a = 1 then
        let a = a\<lparr>ar_ready := False\<rparr>; byte_addr = araddr a + rcount a * arsize a in
        rbind (bus_read dev (araddr a) byte_addr (unat (arsize a)) s) (\<lambda>(rdata, s).
        let a = a\<lparr>r_data := rdata, r_valid := True, r_resp := 0, r_last := (rcount a = arlen a)\<rparr> in
        if r_ready d then
          let a = a\<lparr>rcount := rcount a + 1\<rparr> in
          Inr (if r_last a then a\<lparr>rstate := 0\<rparr> else a, s)
        else Inr (a, s))
      else Inr (a, s))"

text \<open>The loop that counts the strobes, clearing the lowest one each time.\<close>

function strobe_count :: "u32 \<Rightarrow> u32" where
  "strobe_count wstrb = (if wstrb = 0 then 0 else strobe_count (wstrb AND (wstrb - 1)) + 1)"
  by auto
termination
proof (relation "measure unat")
  fix w :: u32
  assume "w \<noteq> 0"
  then have "0 < unat w" by (simp add: unat_gt_0)
  with \<open>w \<noteq> 0\<close> have "w - 1 < w" by (simp add: word_less_nat_alt unat_minus_one)
  moreover have "w AND (w - 1) \<le> w - 1" by (rule word_and_le1)
  ultimately show "(w AND (w - 1), w) \<in> measure unat" by (simp add: word_less_nat_alt word_le_nat_alt)
qed simp

declare strobe_count.simps [simp del]

definition axi_write :: "device_call \<Rightarrow> axi_master \<Rightarrow> axi_slave \<Rightarrow> sim \<Rightarrow> (axi_slave \<times> sim) res" where
  "axi_write dev d a s =
     (if wstate a = 0 then
        let a = a\<lparr>b_valid := False\<rparr> in
        if aw_valid d then
          rbind (rassert Assertion (aw_addr d \<ge> 0x80000000)) (\<lambda>_.
            Inr (a\<lparr>awaddr := aw_addr d, awlen := aw_len d, awsize := push_bit (unat (aw_size d)) 1,
                   wstate := 1, aw_ready := True, wcount := 0\<rparr>, s))
        else Inr (a, s)
      else if wstate a = 1 then
        let a = a\<lparr>aw_ready := False\<rparr> in
        if w_valid d then
          let wdata = drop_bit (8 * unat (awaddr a mod 4)) (w_data d);
              byte_addr = awaddr a + wcount a * awsize a;
              wlen = strobe_count (w_strb d) in
          rbind (bus_write dev (awaddr a) byte_addr (unat wlen) wdata s) (\<lambda>s.
            Inr (a\<lparr>w_ready := True, wcount := wcount a + 1, wstate := (if w_last d then 2 else 1)\<rparr>, s))
        else Inr (a, s)
      else if wstate a = 2 then
        let a = a\<lparr>w_ready := False, aw_ready := False, b_valid := True\<rparr> in
        Inr (a\<lparr>wstate := (if b_ready d then 0 else 2)\<rparr>, s)
      else Inr (a, s))"

section \<open>Lemmas\<close>

lemma sim_in_pmem_iff: "sim_in_pmem a \<longleftrightarrow> 0x80000000 \<le> unat a \<and> unat a < 0x88000000"
  by (simp add: sim_in_pmem_def layout_defs word_le_nat_alt word_less_nat_alt)

lemma mem_host_ok:
  assumes "n \<in> {1, 2, 4}" and "0x80000000 \<le> unat a" and "unat a + n \<le> 0x88000000"
  shows "mem_host_read m a n = Inr (word_of_bytes (load m (offset_of a) n))"
    and "mem_host_write m a n d = Inr (store m (offset_of a) (bytes_of_word n d))"
proof -
  have g: "guest_to_host a = int (offset_of a)" using assms(2) unfolding guest_to_host_eq by linarith
  have "int (offset_of a) + int n \<le> int CONFIG_MSIZE" using assms(2,3) unfolding CONFIG_MSIZE_def by linarith
  then show "mem_host_read m a n = Inr (word_of_bytes (load m (offset_of a) n))"
    "mem_host_write m a n d = Inr (store m (offset_of a) (bytes_of_word n d))"
    using assms(1) by (auto simp: mem_host_read_def mem_host_write_def obj_read_def obj_write_def g)
qed

lemma strobe_count_mask: "strobe_count 0x1 = 1" "strobe_count 0x2 = 1" "strobe_count 0x4 = 1" "strobe_count 0x8 = 1"
  "strobe_count 0x3 = 2" "strobe_count 0xc = 2" "strobe_count 0xf = 4" 
  by (simp_all add: strobe_count.simps)

text \<open>A run of cycles on the read channel; the words taken are those valid in a ready cycle.\<close>

fun axi_read_run :: "device_call \<Rightarrow> axi_master list \<Rightarrow> axi_slave \<Rightarrow> sim \<Rightarrow> ((u32 \<times> bool) list \<times> axi_slave \<times> sim) res" where
  "axi_read_run dev [] a s = Inr ([], a, s)"
| "axi_read_run dev (d # ds) a s =
     rbind (axi_read dev d a s) (\<lambda>(a, s).
     rbind (axi_read_run dev ds a s) (\<lambda>(out, a', s').
       Inr ((if r_valid a \<and> r_ready d then (r_data a, r_last a) # out else out), a', s')))"

lemma axi_beats:
  assumes "rstate a = 1" and "rcount a = of_nat k" and "arlen a = of_nat n" and "arsize a = of_nat w"
    and "w \<in> {1, 2, 4}" and "k \<le> n" and "0x80000000 \<le> unat (araddr a)"
    and "unat (araddr a) + w * Suc n \<le> 0x88000000"
    and "length (filter r_ready ds) = Suc n - k" and "r_ready (last ds)"
  shows "\<exists>a'. axi_read_run dev ds a s = Inr (map (\<lambda>i. (word_of_bytes (load (sim_pmem s) (offset_of (araddr a) + i * w) w), i = n))
      [k..<Suc n], a', s) \<and> rstate a' = 0"
  using assms
proof (induction ds arbitrary: a k)
  case Nil
  then show ?case by simp
next
  case (Cons d ds)
  have n: "n < 2 ^ 32"
    using Cons.prems(5,7,8) by auto
  have "k * w \<le> n * w" using Cons.prems(6) by (rule mult_le_mono1)
  moreover have "w * Suc n = w + n * w" by simp
  ultimately have room: "unat (araddr a) + k * w + w \<le> 0x88000000"
    using Cons.prems(8) by linarith
  have ad: "unat (araddr a + rcount a * arsize a) = unat (araddr a) + k * w"
  proof -
    have "araddr a + rcount a * arsize a = of_nat (unat (araddr a) + k * w)"
      by (simp add: Cons.prems(2,4))
    moreover have "unat (araddr a) + k * w < 2 ^ 32" using room Cons.prems(5) by auto
    ultimately show ?thesis by (simp add: unsigned_of_nat take_bit_nat_eq_self del: of_nat_add of_nat_mult)
  qed
  have uw: "unat (arsize a) = w" using Cons.prems(4,5) by auto
  have inp: "sim_in_pmem (araddr a)" using Cons.prems(5,7) room by (auto simp: sim_in_pmem_iff)
  have off: "offset_of (araddr a + rcount a * arsize a) = offset_of (araddr a) + k * w"
    unfolding ad using Cons.prems(7) by simp
  define v where "v = (word_of_bytes (load (sim_pmem s) (offset_of (araddr a) + k * w) w) :: u32)"
  have rd: "mem_host_read (sim_pmem s) (araddr a + rcount a * arsize a) w = Inr v"
    using mem_host_ok(1) [OF Cons.prems(5), of "araddr a + rcount a * arsize a"] Cons.prems(7) room
    by (simp add: off ad v_def)
  have eq: "rcount a = arlen a \<longleftrightarrow> k = n"
    using n Cons.prems(6) by (auto simp: Cons.prems(2,3) word_unat_eq_iff unsigned_of_nat take_bit_nat_eq_self)
  let ?a = "a\<lparr>ar_ready := False, r_data := v, r_valid := True, r_resp := 0, r_last := (k = n)\<rparr>"
  have step: "axi_read dev d a s = Inr (if r_ready d then (if k = n then ?a\<lparr>rcount := rcount a + 1, rstate := 0\<rparr>
      else ?a\<lparr>rcount := rcount a + 1\<rparr>) else ?a, s)"
    by (simp add: axi_read_def Cons.prems(1) Let_def bus_read_def inp uw rd eq)
  show ?case
  proof (cases "r_ready d")
    case False
    have "ds \<noteq> []" using Cons.prems(10) False by auto
    then have "\<exists>a'. axi_read_run dev ds ?a s = Inr (map (\<lambda>i. (word_of_bytes (load (sim_pmem s) (offset_of (araddr ?a) + i * w) w), i = n))
      [k..<Suc n], a', s) \<and> rstate a' = 0"
      using Cons.prems False by (intro Cons.IH) auto
    then show ?thesis using False by (auto simp: step)
  next
    case True
    show ?thesis
    proof (cases "k = n")
      case True': True
      then have none: "filter r_ready ds = []" using Cons.prems(9) True by simp
      have "ds = []"
      proof (rule ccontr)
        assume "ds \<noteq> []"
        then have "last ds \<in> set ds" "r_ready (last ds)" using Cons.prems(10) by simp_all
        then show False using none by (simp add: filter_empty_conv)
      qed
      then show ?thesis using True True' by (simp add: step v_def)
    next
      case False
      have "ds \<noteq> []" using Cons.prems(6,9) True False by auto
      let ?b = "?a\<lparr>rcount := rcount a + 1\<rparr>"
      have "\<exists>a'. axi_read_run dev ds ?b s = Inr (map (\<lambda>i. (word_of_bytes (load (sim_pmem s) (offset_of (araddr ?b) + i * w) w), i = n))
        [Suc k..<Suc n], a', s) \<and> rstate a' = 0"
        using Cons.prems True False \<open>ds \<noteq> []\<close> by (intro Cons.IH) (auto simp: add.commute)
      moreover have "[k..<Suc n] = k # [Suc k..<Suc n]" using Cons.prems(6) by (simp add: upt_conv_Cons del: upt_Suc)
      ultimately show ?thesis using True False by (auto simp: step v_def)
    qed
  qed
qed

text \<open>C36: A read burst over AXI: after the request, whatever cycles the processor is ready in, it
  receives exactly the requested number of words, in address order and equal to memory, with only
  the last one flagged; then the slave is idle again and memory is unchanged.\<close>

theorem axi_burst_read:
  assumes "rstate a = 0" and "ar_valid d" and "ar_addr d \<ge> 0x80000000" and "ar_len d = of_nat n"
    and "unat (ar_size d) \<le> 2" and "unat (ar_addr d) + 2 ^ unat (ar_size d) * Suc n \<le> 0x88000000"
    and "length (filter r_ready ds) = Suc n" and "r_ready (last ds)"
  shows "\<exists>a'. axi_read_run dev (d # ds) a s = Inr (map (\<lambda>i. (word_of_bytes (load (sim_pmem s)
        (offset_of (ar_addr d) + i * 2 ^ unat (ar_size d)) (2 ^ unat (ar_size d))), i = n)) [0..<Suc n], a', s) \<and>
    rstate a' = 0"
proof -
  define w where "w = (2 :: nat) ^ unat (ar_size d)"
  define b where "b = a\<lparr>r_last := False, r_valid := False, araddr := ar_addr d, arlen := ar_len d,
    arsize := push_bit (unat (ar_size d)) 1, rstate := 1, ar_ready := True, rcount := 0\<rparr>"
  have sz: "unat (ar_size d) \<in> {0, 1, 2}" using assms(5) by auto
  have w: "w \<in> {1, 2, 4}" "arsize b = of_nat w"
    using sz unfolding w_def b_def by (auto simp: push_bit_eq_mult)
  have "\<exists>a'. axi_read_run dev ds b s = Inr (map (\<lambda>i. (word_of_bytes (load (sim_pmem s) (offset_of (araddr b) + i * w) w), i = n))
      [0..<Suc n], a', s) \<and> rstate a' = 0"
    by (rule axi_beats) (use assms w in \<open>auto simp: b_def w_def word_le_nat_alt\<close>)
  moreover have "axi_read dev d a s = Inr (b, s)"
    using assms(1-3) by (simp add: axi_read_def b_def Let_def)
  ultimately show ?thesis by (auto simp: b_def w_def)
qed

lemma axi_burst_read_witness:
  "\<exists>a ar b. axi_read_run (device_fun quiet_host) [ar, ar\<lparr>r_ready := True\<rparr>, ar, ar\<lparr>r_ready := True\<rparr>] a (ready\<lparr>sim_pmem := (\<lambda>k. of_nat k)\<rparr>) =
     Inr ([(0x0100, False), (0x0302, True)], b, ready\<lparr>sim_pmem := (\<lambda>k. of_nat k)\<rparr>)"
proof -
  define ar where "ar = \<lparr>ar_valid = True, ar_addr = 0x80000000, ar_len = 1, ar_size = 1, r_ready = False,
    aw_valid = False, aw_addr = 0, aw_len = 0, aw_size = 0, w_valid = False, w_data = 0, w_strb = 0,
    w_last = False, b_ready = False\<rparr>"
  define a where "a = \<lparr>ar_ready = False, r_valid = False, r_last = False, r_data = 0, r_resp = 0,
    aw_ready = False, w_ready = False, b_valid = False, rstate = 0, araddr = 0, arlen = 0, arsize = 0,
    rcount = 0, wstate = 0, awaddr = 0, awlen = 0, awsize = 0, wcount = 0\<rparr>"
  have "word_of_bytes (load (\<lambda>k. of_nat k) 0 2) = (0x0100 :: u32)"
    "word_of_bytes (load (\<lambda>k. of_nat k) 2 2) = (0x0302 :: u32)" by code_simp+
  then obtain b where "axi_read_run (device_fun quiet_host) [ar, ar\<lparr>r_ready := True\<rparr>, ar, ar\<lparr>r_ready := True\<rparr>] a
      (ready\<lparr>sim_pmem := (\<lambda>k. of_nat k)\<rparr>) =
     Inr ([(0x0100, False), (0x0302, True)], b, ready\<lparr>sim_pmem := (\<lambda>k. of_nat k)\<rparr>)"
    using axi_burst_read [of a ar 1 "[ar\<lparr>r_ready := True\<rparr>, ar, ar\<lparr>r_ready := True\<rparr>]" "device_fun quiet_host"
        "ready\<lparr>sim_pmem := (\<lambda>k. of_nat k)\<rparr>"]
    by (auto simp: ar_def a_def simp del: axi_read_run.simps)
  then show ?thesis by blast
qed

section \<open>Stores and single accesses\<close>

lemma bytes_of_word_low: "bytes_of_word n d = bytes_of_word n (e :: 'a::len word)"
  if "take_bit (8 * n) d = take_bit (8 * n) e"
proof (rule nth_equalityI)
  fix i assume i: "i < length (bytes_of_word n d)"
  have "bit d (8 * i + j) = bit e (8 * i + j)" if "j < 8" for j
  proof -
    have "bit (take_bit (8 * n) d) (8 * i + j) = bit (take_bit (8 * n) e) (8 * i + j)" using \<open>take_bit _ d = _\<close> by simp
    moreover have "8 * i + j < 8 * n" using i \<open>j < 8\<close> by simp
    ultimately show ?thesis by (simp add: bit_take_bit_iff)
  qed
  then show "bytes_of_word n d ! i = bytes_of_word n e ! i"
    using i by (auto simp: nth_bytes_of_word intro!: bit_word_eqI) (auto simp: bit_simps)
qed simp

lemma bus_write_low:
  assumes "take_bit (8 * n) d = take_bit (8 * n) (e :: u32)"
  shows "bus_write dev at a n d s = bus_write dev at a n e s"
proof -
  have b: "bytes_of_word n d = bytes_of_word n e" using assms by (rule bytes_of_word_low)
  have "sim_host_write m p n d = sim_host_write m p n e" "mem_host_write m x n d = mem_host_write m x n e" for m p x
    using b by (simp_all only: sim_host_write_def mem_host_write_def obj_write_def)
  then show ?thesis by (simp only: bus_write_def mmio_write_def map_write_def)
qed

lemma lanes:
  fixes x :: nat
  shows "x mod 4 = 0 \<or> x mod 4 = 1 \<or> x mod 4 = 2 \<or> x mod 4 = 3"
    and "2 dvd x \<Longrightarrow> x mod 4 = 0 \<or> x mod 4 = 2" and "4 dvd x \<Longrightarrow> x mod 4 = 0"
  by presburger+

text \<open>C17: A single aligned access over AXI does what the direct port does: for a store whose data and
  strobes are on the lanes of the address, the request and data cycles have the effect (or the
  failure) of the direct store and the write response follows; a load returns the direct port's word.\<close>

theorem axi_matches_direct:
  assumes "ar_addr d \<ge> 0x80000000" and "aw_addr d \<ge> 0x80000000"
    and "ar_valid d" and "aw_valid d" and "r_ready d" and "w_valid d" and "w_last d" and "b_ready d"
    and "ar_len d = 0" and "unat (ar_size d) \<le> 2" and "unat (aw_size d) \<le> 2"
    and "2 ^ unat (aw_size d) dvd unat (aw_addr d)"
    and "w_data d = push_bit (8 * unat (aw_addr d mod 4)) v"
    and "w_strb d = push_bit (unat (aw_addr d mod 4)) (mask (2 ^ unat (aw_size d)))"
    and "rstate a = 0" and "wstate a = 0"
  shows "(rbind (axi_write dev d a s) (\<lambda>(a, s). rbind (axi_write dev d a s) (\<lambda>(a, s). axi_write dev d a s)) =
      rbind (dpi_write dev True (aw_addr d) (aw_size d) v s) (\<lambda>s'.
        Inr (a\<lparr>awaddr := aw_addr d, awlen := aw_len d, awsize := push_bit (unat (aw_size d)) 1,
          wcount := 1, w_ready := False, aw_ready := False, b_valid := True, wstate := 0\<rparr>, s'))) \<and>
    rbind (axi_read_run dev [d, d] a s) (\<lambda>(out, a', s'). Inr (out, rstate a', s')) =
      rbind (dpi_read dev True (ar_addr d) (ar_size d) 0 s) (\<lambda>(w, s'). Inr ([(w, True)], 0, s'))"
proof -
  define o' where "o' = unat (aw_addr d mod 4)"
  define n where "n = (2 :: nat) ^ unat (aw_size d)"
  have sz: "unat (aw_size d) \<in> {0, 1, 2}" "unat (ar_size d) \<in> {0, 1, 2}" using assms by auto
  have o': "o' = unat (aw_addr d) mod 4" by (simp add: o'_def unat_mod_distrib)
  have "n dvd unat (aw_addr d)" using assms by (simp add: n_def)
  then have cases: "n = 1 \<and> o' \<in> {0, 1, 2, 3} \<or> n = 2 \<and> o' \<in> {0, 2} \<or> n = 4 \<and> o' = 0"
    using sz lanes [of "unat (aw_addr d)"] unfolding n_def o' by auto
  have cnt: "strobe_count (w_strb d) = of_nat n"
    using cases unfolding assms(14) o'_def [symmetric] n_def [symmetric]
    by (auto simp: strobe_count_mask mask_eq_exp_minus_1)
  have low: "take_bit (8 * n) (drop_bit (8 * o') (w_data d)) = take_bit (8 * n) v"
    using cases unfolding assms(13) o'_def [symmetric]
    by (intro bit_word_eqI) (auto simp: bit_simps)
  have un: "unat (of_nat n :: u32) = n" "push_bit (unat (aw_size d)) (1 :: u32) = of_nat n"
    "(2 :: u32) ^ unat (aw_size d) = of_nat n"
    using sz by (auto simp: n_def push_bit_eq_mult)
  note bw = bus_write_low [OF low]
  let ?a = "a\<lparr>b_valid := False, awaddr := aw_addr d, awlen := aw_len d, awsize := of_nat n,
    wstate := 1, aw_ready := True, wcount := 0\<rparr>"
  have w1: "axi_write dev d a s = Inr (?a, s)"
    using assms by (simp add: axi_write_def un Let_def)
  have w2: "axi_write dev d ?a s = rbind (dpi_write dev True (aw_addr d) (aw_size d) v s) (\<lambda>s'.
      Inr (?a\<lparr>aw_ready := False, w_ready := True, wcount := 1, wstate := 2\<rparr>, s'))"
    using assms(6,7) bw by (simp add: axi_write_def Let_def cnt un dpi_write_def o'_def [symmetric] n_def [symmetric])
  have "rbind (axi_write dev d a s) (\<lambda>(a, s). rbind (axi_write dev d a s) (\<lambda>(a, s). axi_write dev d a s)) =
      rbind (dpi_write dev True (aw_addr d) (aw_size d) v s) (\<lambda>s'.
        Inr (a\<lparr>awaddr := aw_addr d, awlen := aw_len d, awsize := push_bit (unat (aw_size d)) 1,
          wcount := 1, w_ready := False, aw_ready := False, b_valid := True, wstate := 0\<rparr>, s'))"
    using assms(8) by (simp add: w1 w2 rbind_assoc un) (simp add: axi_write_def Let_def)
  moreover have r: "unat (push_bit (unat (ar_size d)) (1 :: u32)) = 2 ^ unat (ar_size d)"
    using sz by (auto simp: push_bit_eq_mult)
  moreover have "rbind (axi_read_run dev [d, d] a s) (\<lambda>(out, a', s'). Inr (out, rstate a', s')) =
      rbind (dpi_read dev True (ar_addr d) (ar_size d) 0 s) (\<lambda>(w, s'). Inr ([(w, True)], 0, s'))"
    using assms r by (cases "bus_read dev (ar_addr d) (ar_addr d) (2 ^ unat (ar_size d)) s")
      (auto simp: axi_read_def Let_def dpi_read_def)
  ultimately show ?thesis by blast
qed
lemma axi_matches_direct_witness:
  "\<exists>a d s. rbind (axi_write (device_fun quiet_host) d a ready) (\<lambda>(a, s). rbind (axi_write (device_fun quiet_host) d a s)
       (\<lambda>(a, s). axi_write (device_fun quiet_host) d a s)) = Inr (s, ready\<lparr>sim_pmem := store (sim_pmem ready) 2 [7, 0]\<rparr>)"
proof -
  define d where "d = \<lparr>ar_valid = True, ar_addr = 0x80000000, ar_len = 0, ar_size = 1, r_ready = True,
    aw_valid = True, aw_addr = 0x80000002, aw_len = 0, aw_size = 1, w_valid = True, w_data = 0x70000, w_strb = 0xc,
    w_last = True, b_ready = True\<rparr>"
  define a where "a = \<lparr>ar_ready = False, r_valid = False, r_last = False, r_data = 0, r_resp = 0,
    aw_ready = False, w_ready = False, b_valid = False, rstate = 0, araddr = 0, arlen = 0, arsize = 0,
    rcount = 0, wstate = 0, awaddr = 0, awlen = 0, awsize = 0, wcount = 0\<rparr>"
  have b: "bytes_of_word 2 (7 :: u32) = [7, 0]" by code_simp
  have "unat (aw_addr d mod 4) = 2" by (simp add: d_def unat_mod_distrib)
  then have "\<exists>b. rbind (axi_write (device_fun quiet_host) d a ready) (\<lambda>(a, s). rbind (axi_write (device_fun quiet_host) d a s)
       (\<lambda>(a, s). axi_write (device_fun quiet_host) d a s)) = Inr (b, ready\<lparr>sim_pmem := store (sim_pmem ready) 2 [7, 0]\<rparr>)"
    using axi_matches_direct [of d 7 a "device_fun quiet_host" ready]
    by (simp add: d_def a_def mask_eq_exp_minus_1 dpi_write_def bus_write_def sim_in_pmem_iff mem_host_ok b)
  then show ?thesis by blast
qed

end
