(* ===== verification/Sim_Trace.thy ===== *)
theory Sim_Trace
  imports Sim_Devices
begin

text \<open>
  The instruction trace of the co-simulation: class \<open>CircularQueue\<close> of \<open>simulator/sim/sim.cpp\<close>, a
  ring that overwrites its oldest entry. The text of an instruction comes from the LLVM
  disassembler and is a parameter.
\<close>

section \<open>The ring\<close>

record inst_log =
  log_pc :: word_t
  log_inst :: word_t

record trace_queue =
  tq_entry :: "nat \<Rightarrow> inst_log"
  tq_front :: nat
  tq_rear :: nat
  tq_capacity :: nat

text \<open>The constructor; \<open>junk\<close> is what \<open>new\<close> leaves in the array.\<close>

definition tq_new :: "(nat \<Rightarrow> inst_log) \<Rightarrow> nat \<Rightarrow> trace_queue" where
  "tq_new junk cap = \<lparr>tq_entry = junk, tq_front = 0, tq_rear = 0, tq_capacity = cap\<rparr>"

definition tq_enqueue :: "word_t \<Rightarrow> word_t \<Rightarrow> trace_queue \<Rightarrow> trace_queue" where
  "tq_enqueue p i q =
     (let q = q\<lparr>tq_entry := (tq_entry q)(tq_rear q := \<lparr>log_pc = p, log_inst = i\<rparr>)\<rparr>;
          q = q\<lparr>tq_rear := (tq_rear q + 1) mod tq_capacity q\<rparr> in
      if tq_rear q = tq_front q then q\<lparr>tq_front := (tq_front q + 1) mod tq_capacity q\<rparr> else q)"

text \<open>A printed line: marked by an arrow or not, the entry, and the text of the instruction.\<close>

type_synonym trace_line = "bool \<times> inst_log \<times> string"

definition trace_line :: "(word_t \<Rightarrow> word_t \<Rightarrow> string) \<Rightarrow> bool \<Rightarrow> inst_log \<Rightarrow> trace_line" where
  "trace_line disassemble arrow e = (arrow, e, disassemble (log_pc e) (log_inst e))"

text \<open>\<open>display()\<close>: from the front to the rear.\<close>

partial_function (option) display_from ::
    "(word_t \<Rightarrow> word_t \<Rightarrow> string) \<Rightarrow> trace_queue \<Rightarrow> nat \<Rightarrow> trace_line list option" where
  "display_from dis q i =
     (if i = tq_rear q then Some []
      else Option.bind (display_from dis q ((i + 1) mod tq_capacity q)) (\<lambda>ls.
        Some (trace_line dis (i = (tq_rear q + tq_capacity q - 1) mod tq_capacity q) (tq_entry q i) # ls)))"

definition tq_display :: "(word_t \<Rightarrow> word_t \<Rightarrow> string) \<Rightarrow> trace_queue \<Rightarrow> trace_line list option" where
  "tq_display dis q = display_from dis q (tq_front q)"

text \<open>\<open>display(n)\<close>: \<open>n\<close> is unsigned, so the start is computed modulo \<open>2 ^ 32\<close>.\<close>

fun display_count :: "(word_t \<Rightarrow> word_t \<Rightarrow> string) \<Rightarrow> trace_queue \<Rightarrow> nat \<Rightarrow> nat \<Rightarrow> trace_line list" where
  "display_count dis q i 0 = []"
| "display_count dis q i (Suc todo) =
     trace_line dis (todo = 0) (tq_entry q i) # display_count dis q ((i + 1) mod tq_capacity q) todo"

definition tq_count :: "trace_queue \<Rightarrow> nat" where
  "tq_count q = (if tq_rear q \<ge> tq_front q then tq_rear q - tq_front q
     else tq_capacity q - tq_front q + tq_rear q)"

definition tq_display_last :: "(word_t \<Rightarrow> word_t \<Rightarrow> string) \<Rightarrow> u32 \<Rightarrow> trace_queue \<Rightarrow> trace_line list" where
  "tq_display_last dis n q =
     (let start = if of_nat (tq_count q) > n
                  then unat ((of_nat (tq_rear q) - n + of_nat (tq_capacity q)) mod of_nat (tq_capacity q))
                  else tq_front q;
          max_elements = if n > of_nat (tq_count q) then tq_count q else unat n in
      display_count dis q start max_elements)"

section \<open>Bounded histories\<close>

text \<open>
  The contract of a memory of the last \<open>limit\<close> things: recording appends and drops what is too old.
\<close>

definition keep_last :: "nat \<Rightarrow> 'a list \<Rightarrow> 'a list" where
  "keep_last n xs = drop (length xs - n) xs"

lemma keep_last_short [simp]: "length xs \<le> n \<Longrightarrow> keep_last n xs = xs"
  by (simp add: keep_last_def)

lemma length_keep_last [simp]: "length (keep_last n xs) = min n (length xs)"
  by (simp add: keep_last_def)

lemma keep_last_append: "keep_last n (keep_last n xs @ ys) = keep_last n (xs @ ys)"
  by (cases "n \<le> length xs") (auto simp: keep_last_def add.commute)

lemma keep_last_keep_last: "m \<le> n \<Longrightarrow> keep_last m (keep_last n xs) = keep_last m xs"
  by (auto simp: keep_last_def intro: arg_cong2 [where f = drop])

locale bounded_history =
  fixes remember :: "'a \<Rightarrow> 's \<Rightarrow> 's" and past :: "'s \<Rightarrow> 'a list" and wf :: "'s \<Rightarrow> bool" and limit :: nat
  assumes remember_wf: "wf s \<Longrightarrow> wf (remember x s)"
    and past_remember: "wf s \<Longrightarrow> past (remember x s) = keep_last limit (past s @ [x])"
    and past_short: "wf s \<Longrightarrow> length (past s) \<le> limit"
begin

lemma wf_fold: "wf s \<Longrightarrow> wf (fold remember xs s)"
  by (induction xs arbitrary: s) (simp_all add: remember_wf)

lemma past_fold: "wf s \<Longrightarrow> past (fold remember xs s) = keep_last limit (past s @ xs)"
proof (induction xs arbitrary: s)
  case Nil
  then show ?case by (simp add: past_short)
next
  case (Cons x xs)
  then show ?case
    using keep_last_append [of limit "past s @ [x]" xs] by (simp add: remember_wf past_remember)
qed

lemma past_recent: "wf s \<Longrightarrow> length xs \<le> limit \<Longrightarrow> past s = [] \<Longrightarrow> past (fold remember xs s) = xs"
  by (simp add: past_fold)

end

text \<open>What a ring holds, oldest first.\<close>

definition tq_past :: "trace_queue \<Rightarrow> inst_log list" where
  "tq_past q = map (\<lambda>i. tq_entry q ((tq_front q + i) mod tq_capacity q))
     [0..<ring_len (tq_capacity q) (tq_front q) (tq_rear q)]"

definition tq_ok :: "nat \<Rightarrow> trace_queue \<Rightarrow> bool" where
  "tq_ok cap q \<longleftrightarrow> tq_capacity q = cap \<and> tq_front q < cap \<and> tq_rear q < cap"

abbreviation tq_remember :: "inst_log \<Rightarrow> trace_queue \<Rightarrow> trace_queue" where
  "tq_remember e \<equiv> tq_enqueue (log_pc e) (log_inst e)"

lemma tq_enqueue_ok: "tq_ok cap q \<Longrightarrow> tq_ok cap (tq_enqueue p i q)"
  by (auto simp: tq_ok_def tq_enqueue_def Let_def)

lemma map_ring_shift:
  assumes "0 < n"
  shows "map (\<lambda>i. g ((f + i) mod n)) [Suc 0..<Suc k] = map (\<lambda>i. g ((Suc f mod n + i) mod n)) [0..<k]"
  by (rule nth_equalityI) (simp_all add: mod_simps del: upt_Suc)

lemma tq_enqueue_past:
  assumes "tq_ok cap q"
  shows "tq_past (tq_enqueue p i q) = keep_last (cap - 1) (tq_past q @ [\<lparr>log_pc = p, log_inst = i\<rparr>])"
proof -
  let ?x = "\<lparr>log_pc = p, log_inst = i\<rparr>"
  let ?e = "(tq_entry q)(tq_rear q := ?x)"
  let ?k = "ring_len cap (tq_front q) (tq_rear q)"
  have fr: "tq_front q < cap" "tq_rear q < cap" and cap: "tq_capacity q = cap"
    using assms by (simp_all add: tq_ok_def)
  note step = ring_step [OF fr]
  have whole: "map (\<lambda>i. ?e ((tq_front q + i) mod cap)) [0..<Suc ?k] = tq_past q @ [?x]"
    using step(4) ring_distinct [OF fr] by (simp add: tq_past_def cap)
  show ?thesis
  proof (cases "Suc (tq_rear q) mod cap = tq_front q")
    case False
    then have "?k < cap - 1" using step(2,5) by linarith
    then show ?thesis using False step(1) whole
      by (simp add: tq_past_def tq_enqueue_def Let_def cap del: upt_Suc)
  next
    case True
    then have k: "?k = cap - 1" using step(2) by simp
    have "ring_len cap (Suc (tq_front q) mod cap) (tq_front q) = ?k"
      using fr True k by (auto simp: ring_len_eq mod_Suc split: if_splits)
    moreover have "[0..<Suc ?k] = 0 # [Suc 0..<Suc ?k]" by (simp add: upt_conv_Cons del: upt_Suc)
    then have "tq_past q @ [?x] = ?e (tq_front q) # map (\<lambda>i. ?e ((tq_front q + i) mod cap)) [Suc 0..<Suc ?k]"
      using fr unfolding whole [symmetric] by (simp del: upt_Suc fun_upd_apply)
    then have "tq_past q @ [?x] = ?e (tq_front q) # map (\<lambda>i. ?e ((Suc (tq_front q) mod cap + i) mod cap)) [0..<?k]"
      using fr map_ring_shift [of cap ?e "tq_front q" ?k] by simp
    moreover have "length (tq_past q) = cap - 1" by (simp add: tq_past_def cap k)
    ultimately show ?thesis using True
      by (simp add: tq_past_def tq_enqueue_def Let_def cap keep_last_def)
  qed
qed

interpretation trace: bounded_history tq_remember tq_past "tq_ok cap" "cap - 1" for cap
proof
  fix q :: trace_queue and x :: inst_log
  assume ok: "tq_ok cap q"
  show "tq_ok cap (tq_remember x q)" using ok by (rule tq_enqueue_ok)
  show "tq_past (tq_remember x q) = keep_last (cap - 1) (tq_past q @ [x])"
    using tq_enqueue_past [OF ok] by (cases x) simp
  show "length (tq_past q) \<le> cap - 1"
    using ok ring_step(5) by (simp add: tq_past_def tq_ok_def)
qed


section \<open>What is printed\<close>

text \<open>The lines of a list of entries, the last one marked.\<close>

definition marked :: "(word_t \<Rightarrow> word_t \<Rightarrow> string) \<Rightarrow> inst_log list \<Rightarrow> trace_line list" where
  "marked dis es = map (\<lambda>j. trace_line dis (Suc j = length es) (es ! j)) [0..<length es]"

lemma ring_last:
  assumes "f < n" and "r < n" and "k < ring_len n f r"
  shows "(f + k) mod n = (r + n - 1) mod n \<longleftrightarrow> Suc k = ring_len n f r"
proof -
  have "f + k < 2 * n" "r + n - 1 < 2 * n" using assms ring_step(5) [OF assms(1,2)] by auto
  then show ?thesis using assms by (auto simp: ring_len_eq mod_if split: if_splits)
qed

lemma display_from_ring:
  assumes "tq_ok cap q" and "k \<le> ring_len cap (tq_front q) (tq_rear q)"
  shows "display_from dis q ((tq_front q + k) mod cap) = Some (map (\<lambda>j.
    trace_line dis (Suc j = ring_len cap (tq_front q) (tq_rear q)) (tq_entry q ((tq_front q + j) mod cap)))
      [k..<ring_len cap (tq_front q) (tq_rear q)])"
  using assms(2)
proof (induction k rule: inc_induct)
  case base
  have "(tq_front q + ring_len cap (tq_front q) (tq_rear q)) mod cap = tq_rear q"
    using assms(1) ring_step(4) by (simp add: tq_ok_def)
  then show ?case by (simp add: display_from.simps)
next
  case (step k)
  have fr: "tq_front q < cap" "tq_rear q < cap" "tq_capacity q = cap" using assms(1) by (simp_all add: tq_ok_def)
  have "((tq_front q + k) mod cap + 1) mod cap = (tq_front q + Suc k) mod cap" by (simp add: mod_simps)
  then show ?case
    using step ring_distinct [OF fr(1,2), of k] ring_last [OF fr(1,2), of k]
    by (subst display_from.simps) (simp add: fr upt_conv_Cons del: upt_Suc)
qed

lemma tq_display_past:
  assumes "tq_ok cap q"
  shows "tq_display dis q = Some (marked dis (tq_past q))"
  using assms display_from_ring [OF assms, of 0 dis]
  by (simp add: tq_display_def marked_def tq_past_def tq_ok_def)

lemma display_count_ring:
  assumes "tq_capacity q = cap" and "k + m = l"
  shows "display_count dis q ((f + k) mod cap) m =
    map (\<lambda>j. trace_line dis (Suc j = l) (tq_entry q ((f + j) mod cap))) [k..<l]"
  using assms(2)
proof (induction m arbitrary: k)
  case (Suc m)
  have "((f + k) mod cap + 1) mod cap = (f + Suc k) mod cap" by (simp add: mod_simps)
  moreover have "m = 0 \<longleftrightarrow> Suc k = l" "k < l" using Suc.prems by auto
  ultimately show ?case using Suc.IH [of "Suc k"] Suc.prems
    by (simp add: assms(1) upt_conv_Cons del: upt_Suc)
qed simp

lemma start_word:
  assumes "r < cap" and "unat n < cap" and "cap \<le> 2 ^ 31"
  shows "unat ((of_nat r - n + of_nat cap) mod (of_nat cap :: u32)) = (r + cap - unat n) mod cap"
proof -
  have "of_nat r - n + of_nat cap = (of_nat (r + cap - unat n) :: u32)"
    using assms(2) by (simp add: of_nat_diff)
  moreover have "unat (of_nat (r + cap - unat n) :: u32) = r + cap - unat n"
    using assms by (simp add: unsigned_of_nat take_bit_nat_eq_self del: of_nat_diff of_nat_add)
  moreover have "unat (of_nat cap :: u32) = cap"
    using assms by (simp add: unsigned_of_nat take_bit_nat_eq_self)
  ultimately show ?thesis by (simp add: unat_mod)
qed

lemma tq_display_last_past:
  assumes "tq_ok cap q" and "cap \<le> 2 ^ 31"
  shows "tq_display_last dis n q = marked dis (keep_last (unat n) (tq_past q))"
proof -
  let ?l = "ring_len cap (tq_front q) (tq_rear q)"
  have fr: "tq_front q < cap" "tq_rear q < cap" and cap: "tq_capacity q = cap"
    using assms(1) by (simp_all add: tq_ok_def)
  have l: "length (tq_past q) = ?l" "?l < cap" "tq_count q = ?l"
    using ring_step(5) [OF fr] fr by (auto simp: tq_past_def cap tq_count_def ring_len_eq)
  then have w: "unat (of_nat ?l :: u32) = ?l"
    using assms(2) by (simp add: unsigned_of_nat take_bit_nat_eq_self)
  let ?k = "?l - unat n"
  have shown: "marked dis (keep_last (unat n) (tq_past q)) =
      map (\<lambda>j. trace_line dis (Suc j = ?l) (tq_entry q ((tq_front q + j) mod cap))) [?k..<?l]"
    by (rule nth_equalityI)
      (auto simp: marked_def l keep_last_def tq_past_def cap ac_simps intro!: arg_cong2 [where f = "trace_line dis"])
  show ?thesis
  proof (cases "unat n < ?l")
    case True
    have "(tq_rear q + cap - unat n) mod cap = (tq_front q + ?k) mod cap"
      using fr True l(2) by (auto simp: ring_len_eq mod_if split: if_splits)
    then show ?thesis
      using True w l start_word [OF fr(2) _ assms(2), of n] display_count_ring [OF cap, of ?k "unat n" ?l dis "tq_front q"]
      by (simp add: tq_display_last_def shown cap Let_def word_less_nat_alt)
  next
    case False
    then have "marked dis (tq_past q) = display_count dis q (tq_front q) ?l"
      using shown fr l display_count_ring [OF cap, of 0 ?l ?l dis "tq_front q"] by simp
    then show ?thesis using False w l
      by (cases "unat n = ?l") (simp_all add: tq_display_last_def cap Let_def word_less_nat_alt)
  qed
qed

text \<open>C22: However many instructions are recorded, the ring prints without running on for ever exactly the
  most recent ones in order, at most one less than its capacity, the last one marked; asked for the
  last \<open>n\<close>, it prints the last \<open>n\<close> of these, or all if there are fewer.\<close>

theorem trace_display_correct:
  assumes "0 < cap" and "cap \<le> 2 ^ 31"
  shows "tq_display dis (fold tq_remember es (tq_new junk cap)) = Some (marked dis (keep_last (cap - 1) es)) \<and>
    tq_display_last dis n (fold tq_remember es (tq_new junk cap)) = marked dis (keep_last (min (unat n) (cap - 1)) es)"
proof -
  let ?q = "fold tq_remember es (tq_new junk cap)"
  have new: "tq_ok cap (tq_new junk cap)" "tq_past (tq_new junk cap) = []"
    using assms(1) by (simp_all add: tq_ok_def tq_new_def tq_past_def ring_len_def)
  have q: "tq_ok cap ?q" "tq_past ?q = keep_last (cap - 1) es"
    using trace.wf_fold [OF new(1), of es] trace.past_fold [OF new(1), of es]
    by (simp_all add: new(2))
  have "keep_last (unat n) (keep_last (cap - 1) es) = keep_last (min (unat n) (cap - 1)) es"
    by (cases "unat n \<le> cap - 1") (simp_all add: keep_last_keep_last)
  then show ?thesis
    using tq_display_past [OF q(1)] tq_display_last_past [OF q(1) assms(2), of dis n] by (simp add: q(2))
qed

lemma trace_display_correct_witness:
  "map (\<lambda>l. (fst l, log_pc (fst (snd l))))
     (the (tq_display (\<lambda>_ _. []) (fold tq_remember (map (\<lambda>i. \<lparr>log_pc = of_nat i, log_inst = 0\<rparr>) [0..<6])
       (tq_new (\<lambda>_. \<lparr>log_pc = 0, log_inst = 0\<rparr>) 4)))) = [(False, 3), (False, 4), (True, 5)]"
  using trace_display_correct [of 4 "\<lambda>_ _. []" "map (\<lambda>i. \<lparr>log_pc = of_nat i, log_inst = 0\<rparr>) [0..<6]"
      "\<lambda>_. \<lparr>log_pc = 0, log_inst = 0\<rparr>"]
  by (simp add: marked_def keep_last_def trace_line_def upt_rec)

end
