(* ===== verification/Sim_Cosim.thy ===== *)
theory Sim_Cosim
  imports Sim_Bus Nemu_Cpu Sim_Trace
begin

text \<open>
  The co-simulation: the main loop and the clock of \<open>simulator/sim/sim.cpp\<close>, the comparison with the
  reference of \<open>simulator/sim/difftest/difftest.cpp\<close>, and the start of \<open>build.cpp\<close> and
  \<open>main.cpp\<close>. The processor under test is a parameter, the reference is the emulator modelled in
  \<open>Nemu_Cpu\<close>, the shared library that \<open>difftest.cpp\<close> loads. Compiled with \<open>AXI\<close> and
  \<open>DEVICE\<close>, as \<open>simulator/script/rewrite.mk\<close> does.
\<close>

section \<open>The processor under test\<close>

text \<open>
  What the simulator sees of the Verilated processor: \<open>eval()\<close> as a function of the clock, the reset
  and the pins the bus slave drives; and its outputs and the register arrays it exports, as functions
  of its state.
\<close>

type_synonym axi_pins = "bool \<times> bool \<times> bool \<times> u32 \<times> u32 \<times> bool \<times> bool \<times> bool"

definition pins :: "axi_slave \<Rightarrow> axi_pins" where
  "pins a = (ar_ready a, r_valid a, r_last a, r_data a, r_resp a, aw_ready a, w_ready a, b_valid a)"

record 'd VCPU =
  dut_eval :: "bool \<Rightarrow> bool \<Rightarrow> axi_pins \<Rightarrow> 'd \<Rightarrow> 'd"
  bus_master :: "'d \<Rightarrow> axi_master"
  pc_cur :: "'d \<Rightarrow> word_t"
  dut_inst :: "'d \<Rightarrow> u32"
  commit_wb :: "'d \<Rightarrow> bool"
  uncache_read_wb :: "'d \<Rightarrow> bool"
  cpu_gpr :: "'d \<Rightarrow> nat \<Rightarrow> word_t"
  cpu_csr :: "'d \<Rightarrow> CSR"

text \<open>What the host answers in one cycle: its clock at each place it is asked, and the events polled.\<close>

record outside =
  at_write :: host
  at_read :: host
  at_update :: host
  polled :: "sdl_event list"

text \<open>What the comparison reports as the first difference.\<close>

datatype difference = Gpr_differs nat | Pc_differs | Mepc_differs | Mstatus_differs | Mcause_differs | Mtvec_differs |
    Mem_differs nat

text \<open>
  The state. The memory of the reference is \<open>ref_pmem\<close> of the device side, which the disk writes
  too; \<open>moment\<close> counts the uses of the host, \<open>reports\<close> is what the comparison printed.
\<close>

record 'd cosim =
  dut :: 'd
  rstn :: bool
  slave :: axi_slave
  board :: sim
  ref :: machine
  sim_cpu :: CPU_state
  halt_pc :: vaddr_t
  halt_ret :: u32
  sim_insts :: u64
  itrace :: trace_queue
  reports :: "difference list"
  is_skip_ref :: bool
  skip_dut_nr_inst :: u32
  moment :: nat

definition the_ref :: "'d cosim \<Rightarrow> machine" where
  "the_ref c = (ref c)\<lparr>pmem := ref_pmem (board c)\<rparr>"

definition set_ref :: "machine \<Rightarrow> 'd cosim \<Rightarrow> 'd cosim" where
  "set_ref m c = c\<lparr>ref := m, board := (board c)\<lparr>ref_pmem := pmem m\<rparr>\<rparr>"

definition set_status :: "sim_status \<Rightarrow> 'd cosim \<Rightarrow> 'd cosim" where
  "set_status st c = c\<lparr>board := (board c)\<lparr>sim_state := st\<rparr>\<rparr>"

abbreviation status :: "'d cosim \<Rightarrow> sim_status" where
  "status c \<equiv> sim_state (board c)"

section \<open>The comparison with the reference\<close>

definition difftest_sync :: "'d cosim \<Rightarrow> 'd cosim" where
  "difftest_sync c = set_ref (fst (difftest_regcpy (sim_cpu c) DIFFTEST_TO_REF (the_ref c))) c"

text \<open>The registers in the order they are compared; the pc is compared with the argument.\<close>

definition isa_difftest_checkregs :: "CPU_state \<Rightarrow> CPU_state \<Rightarrow> vaddr_t \<Rightarrow> difference option" where
  "isa_difftest_checkregs ref_r sim p =
     (case find (\<lambda>i. gpr ref_r i \<noteq> gpr sim i) [0..<32] of
        Some i \<Rightarrow> Some (Gpr_differs i)
      | None \<Rightarrow>
          if pc ref_r \<noteq> p then Some Pc_differs
          else if mepc (csr ref_r) \<noteq> mepc (csr sim) then Some Mepc_differs
          else if mstatus (csr ref_r) \<noteq> mstatus (csr sim) then Some Mstatus_differs
          else if mcause (csr ref_r) \<noteq> mcause (csr sim) then Some Mcause_differs
          else if mtvec (csr ref_r) \<noteq> mtvec (csr sim) then Some Mtvec_differs
          else None)"

definition checkregs :: "CPU_state \<Rightarrow> vaddr_t \<Rightarrow> 'd cosim \<Rightarrow> 'd cosim" where
  "checkregs ref_r p c =
     (case isa_difftest_checkregs ref_r (sim_cpu c) p of
        None \<Rightarrow> c
      | Some d \<Rightarrow> (set_status SIM_ABORT c)\<lparr>halt_pc := p, reports := reports c @ [d]\<rparr>)"

text \<open>\<open>ref_r\<close> is uninitialised before it is filled, and so is the \<open>Decode\<close> of the emulator's loop.\<close>

definition difftest_step :: "'d cosim \<Rightarrow> 'd cosim res" where
  "difftest_step c =
     (let ref_r = snd (difftest_regcpy (sim_cpu c) DIFFTEST_TO_DUT (the_ref c));
          c = checkregs ref_r (pc (sim_cpu c)) c in
      rbind (difftest_exec idle 1 (the_ref c)) (\<lambda>m. Inr (set_ref m c)))"

text \<open>
  The comparison of the memories and the skipping of instructions, which no other part of the
  simulator calls.
\<close>

definition isa_difftest_checkmem :: "bytes \<Rightarrow> 'd cosim \<Rightarrow> difference option" where
  "isa_difftest_checkmem ref_m c =
     map_option Mem_differs (find (\<lambda>i. ref_m i \<noteq> sim_pmem (board c) i) [0..<CONFIG_MSIZE])"

definition checkmem :: "bytes \<Rightarrow> vaddr_t \<Rightarrow> 'd cosim \<Rightarrow> 'd cosim" where
  "checkmem ref_m p c =
     (case isa_difftest_checkmem ref_m c of
        None \<Rightarrow> c
      | Some d \<Rightarrow> (set_status SIM_ABORT c)\<lparr>halt_pc := p, reports := reports c @ [d]\<rparr>)"

definition difftest_skip_ref :: "'d cosim \<Rightarrow> 'd cosim" where
  "difftest_skip_ref c = c\<lparr>is_skip_ref := True, skip_dut_nr_inst := 0\<rparr>"

fun ref_steps :: "nat \<Rightarrow> 'd cosim \<Rightarrow> 'd cosim res" where
  "ref_steps 0 c = Inr c"
| "ref_steps (Suc n) c = rbind (difftest_exec idle 1 (the_ref c)) (\<lambda>m. ref_steps n (set_ref m c))"

definition difftest_skip_dut :: "u32 \<Rightarrow> u32 \<Rightarrow> 'd cosim \<Rightarrow> 'd cosim res" where
  "difftest_skip_dut nr_ref nr_dut c =
     ref_steps (nat (sint nr_ref)) (c\<lparr>skip_dut_nr_inst := skip_dut_nr_inst c + nr_dut\<rparr>)"

text \<open>\<open>init_difftest\<close> once the library is loaded; \<open>rnd\<close> fills the memory of the emulator first.\<close>

definition init_difftest :: "(nat \<Rightarrow> u32) \<Rightarrow> 'd cosim \<Rightarrow> 'd cosim res" where
  "init_difftest rnd c =
     rbind (difftest_memcpy CONFIG_MBASE (sim_pmem (board c)) CONFIG_MSIZE DIFFTEST_TO_REF
              (difftest_init rnd (the_ref c))) (\<lambda>(m, _).
     let c = (set_ref m c)\<lparr>sim_cpu := (sim_cpu c)\<lparr>pc := CONFIG_MBASE\<rparr>\<rparr> in Inr (difftest_sync c))"

section \<open>Clock, reset and main loop\<close>

definition set_state :: "'d VCPU \<Rightarrow> 'd cosim \<Rightarrow> 'd cosim" where
  "set_state v c = c\<lparr>sim_cpu :=
     \<lparr>gpr = (\<lambda>i. if i < 32 then cpu_gpr v (dut c) i else gpr (sim_cpu c) i),
      pc = pc_cur v (dut c), csr = cpu_csr v (dut c)\<rparr>\<rparr>"

definition clock :: "'d VCPU \<Rightarrow> bool \<Rightarrow> 'd cosim \<Rightarrow> 'd cosim" where
  "clock v clk c = c\<lparr>dut := dut_eval v clk (rstn c) (pins (slave c)) (dut c)\<rparr>"

definition single_cycle :: "'d VCPU \<Rightarrow> (nat \<Rightarrow> outside) \<Rightarrow> 'd cosim \<Rightarrow> 'd cosim res" where
  "single_cycle v world c =
     (let w = world (moment c); c = (clock v True c)\<lparr>moment := moment c + 1\<rparr> in
      rbind (axi_write (device_fun (at_write w)) (bus_master v (dut c)) (slave c) (board c)) (\<lambda>(a, b).
      let c = c\<lparr>slave := a, board := b\<rparr> in
      rbind (axi_read (device_fun (at_read w)) (bus_master v (dut c)) (slave c) (board c)) (\<lambda>(a, b).
      let c = clock v False (c\<lparr>slave := a, board := b\<rparr>) in
      Inr (if commit_wb v (dut c) then set_state v c else c))))"

fun cycles :: "'d VCPU \<Rightarrow> (nat \<Rightarrow> outside) \<Rightarrow> nat \<Rightarrow> 'd cosim \<Rightarrow> 'd cosim res" where
  "cycles v world 0 c = Inr c"
| "cycles v world (Suc n) c = rbind (single_cycle v world c) (cycles v world n)"

definition reset_cpu :: "'d VCPU \<Rightarrow> (nat \<Rightarrow> outside) \<Rightarrow> nat \<Rightarrow> 'd cosim \<Rightarrow> 'd cosim res" where
  "reset_cpu v world n c =
     rbind (cycles v world n (clock v False (c\<lparr>rstn := False\<rparr>))) (\<lambda>c.
       Inr (clock v False (c\<lparr>rstn := True\<rparr>)))"

definition test_break :: "'d VCPU \<Rightarrow> 'd cosim \<Rightarrow> bool" where
  "test_break v c \<longleftrightarrow> dut_inst v (dut c) = 0x00100073"

definition poll_devices :: "(nat \<Rightarrow> outside) \<Rightarrow> 'd cosim \<Rightarrow> 'd cosim res" where
  "poll_devices world c =
     (let w = world (moment c) in
      rbind (device_update (at_update w) (polled w) (board c)) (\<lambda>b.
        Inr (c\<lparr>board := b, moment := moment c + 1\<rparr>)))"

text \<open>
  The part of the loop body for a committed instruction, with the variable
  \<open>npc_cpu_uncache_pre\<close>: after an uncached load the reference first gets the registers of the
  processor.
\<close>

definition commit :: "'d VCPU \<Rightarrow> bool \<Rightarrow> 'd cosim \<Rightarrow> (bool \<times> 'd cosim) res" where
  "commit v uncache_pre c =
     (if commit_wb v (dut c) then
        let c = c\<lparr>itrace := tq_enqueue (pc_cur v (dut c)) (dut_inst v (dut c)) (itrace c)\<rparr>;
            c = (if uncache_pre then difftest_sync c else c) in
        rbind (difftest_step c) (\<lambda>c.
        let c = c\<lparr>sim_insts := sim_insts c + 1\<rparr> in
        Inr (uncache_read_wb v (dut c), c))
      else Inr (uncache_pre, c))"

fun run_loop :: "'d VCPU \<Rightarrow> (nat \<Rightarrow> outside) \<Rightarrow> nat \<Rightarrow> bool \<Rightarrow> 'd cosim \<Rightarrow> (bool \<times> 'd cosim) res" where
  "run_loop v world 0 pre c = Inr (pre, c)"
| "run_loop v world (Suc n) pre c =
     (if test_break v c
      then Inr (pre, (set_status SIM_END c)\<lparr>halt_pc := pc_cur v (dut c), halt_ret := cpu_gpr v (dut c) 10\<rparr>)
      else rbind (commit v pre c) (\<lambda>(pre, c).
           rbind (single_cycle v world c) (\<lambda>c.
           rbind (poll_devices world c) (\<lambda>c.
             if status c \<noteq> SIM_RUNNING then Inr (pre, c) else run_loop v world n pre c))))"

definition sim_cpu_exec :: "'d VCPU \<Rightarrow> (nat \<Rightarrow> outside) \<Rightarrow> u32 \<Rightarrow> 'd cosim \<Rightarrow> 'd cosim res" where
  "sim_cpu_exec v world n c =
     (if status c \<in> {SIM_END, SIM_ABORT, SIM_QUIT} then Inr c
      else rbind (run_loop v world (unat n) False (set_status SIM_RUNNING c)) (\<lambda>(_, c).
        Inr (if status c = SIM_RUNNING then set_status SIM_STOP c else c)))"

section \<open>Start\<close>

text \<open>\<open>load_img\<close>: the bytes of the file, or none if it cannot be opened; \<open>fread\<close> checks no bound.\<close>

definition load_img :: "u8 list option \<Rightarrow> sim \<Rightarrow> (u64 \<times> sim) res" where
  "load_img img s =
     (case img of
        None \<Rightarrow> Inr (0, s)
      | Some bs \<Rightarrow> rbind (rassert Out_of_bounds (length bs \<le> CONFIG_MSIZE)) (\<lambda>_.
          Inr (of_nat (length bs), s\<lparr>sim_pmem := store (sim_pmem s) 0 bs\<rparr>)))"

text \<open>\<open>main\<close> up to the debugger: image, reference, devices, reset.\<close>

definition sim_start :: "'d VCPU \<Rightarrow> (nat \<Rightarrow> outside) \<Rightarrow> (nat \<Rightarrow> u32) \<Rightarrow> (string \<Rightarrow> nat) \<Rightarrow>
    (string \<Rightarrow> u8 list option) \<Rightarrow> string \<Rightarrow> string option \<Rightarrow> 'd cosim \<Rightarrow> 'd cosim res" where
  "sim_start v world rnd scancode files img disk c =
     rbind (load_img (files img) (board c)) (\<lambda>(_, b).
     rbind (init_difftest rnd (c\<lparr>board := b\<rparr>)) (\<lambda>c.
     rbind (init_device scancode files (case disk of Some d \<Rightarrow> d | None \<Rightarrow> '' '') (board c)) (\<lambda>b.
     reset_cpu v world 1 (c\<lparr>board := b\<rparr>))))"

end
