(* ===== verification/Sim_Lockstep.thy ===== *)
theory Sim_Lockstep
  imports Sim_Cosim
begin

text \<open>
  What the co-simulation guarantees: the status of the device side, what a cycle leaves alone, the
  list of instructions a run commits, and the comparison of each with a step of the reference; runs
  in pieces, and the start.
\<close>

section \<open>The status of the device side\<close>

text \<open>A bus access keeps the status or, at an address without a region, aborts; an update keeps it or quits.\<close>

definition aborts :: "sim \<Rightarrow> sim \<Rightarrow> bool" where
  "aborts s s' \<longleftrightarrow> sim_state s' = sim_state s \<or> sim_state s' = SIM_ABORT"

lemma aborts_refl [simp]: "aborts s s"
  by (simp add: aborts_def)

lemma aborts_trans: "aborts s t \<Longrightarrow> aborts t u \<Longrightarrow> aborts s u"
  by (auto simp: aborts_def)

lemma port_set_status: "port_set p i v s = Inr s' \<Longrightarrow> sim_state s' = sim_state s"
  by (auto simp: port_set_def rbind_eq_Inr_iff)

lemma get_time_status: "get_time e s = (t, s') \<Longrightarrow> sim_state s' = sim_state s"
  by (auto simp: get_time_def Let_def split: if_splits)

lemma draw_status: "fast_fb_draw off n w s = Inr s' \<Longrightarrow> sim_state s' = sim_state s"
  unfolding fast_fb_draw_def Let_def
  by (elim rbind_Inr_E, erule rfold_invariant [where P = "\<lambda>t. sim_state t = sim_state s"], simp,
      erule rfold_invariant [where P = "\<lambda>t. sim_state t = sim_state s"], simp)
    (auto simp: ffb_pixel_def rbind_eq_Inr_iff)

lemma device_fun_status: "device_fun e f off n w s = Inr s' \<Longrightarrow> sim_state s' = sim_state s"
  by (cases f)
    (auto simp: device_fun_def serial_io_handler_def serial_putc_def rtc_io_handler_def i8042_data_io_handler_def
      rw_disk_def Let_def rbind_eq_Inr_iff draw_status
      dest!: port_set_status get_time_status split: prod.splits if_splits)


lemma check_bound_aborts: "check_bound mp a s = (ok, s') \<Longrightarrow> aborts s s'"
  by (auto simp: check_bound_def aborts_def split: option.splits if_splits)

lemma callback_status: "invoke_callback (device_fun e) f off n w s = Inr s' \<Longrightarrow> sim_state s' = sim_state s"
  by (auto simp: invoke_callback_def device_fun_status split: option.splits)

lemma map_aborts:
  "map_read (device_fun e) a n mp s = Inr (v, s') \<Longrightarrow> aborts s s'"
  "map_write (device_fun e) a n d mp s = Inr s' \<Longrightarrow> aborts s s'"
  by (auto simp: map_read_def map_write_def rbind_eq_Inr_iff Let_def aborts_def
      dest!: callback_status check_bound_aborts split: prod.splits bool.splits option.splits)

lemma fetch_status: "fetch_mmio_map s a = (mp, s') \<Longrightarrow> sim_state s' = sim_state s"
  by (auto simp: fetch_mmio_map_def find_mapid_by_addr_def split: prod.splits option.splits)

lemma bus_aborts:
  "bus_read (device_fun e) at a n s = Inr (v, s') \<Longrightarrow> aborts s s'"
  "bus_write (device_fun e) at a n d s = Inr s' \<Longrightarrow> aborts s s'"
  by (auto simp: bus_read_def bus_write_def mmio_read_def mmio_write_def rbind_eq_Inr_iff aborts_def
      dest!: map_aborts fetch_status split: prod.splits if_splits)

lemma axi_aborts:
  "axi_write (device_fun e) d a s = Inr (a', s') \<Longrightarrow> aborts s s'"
  "axi_read (device_fun e) d a s = Inr (a', s') \<Longrightarrow> aborts s s'"
  by (auto simp: axi_write_def axi_read_def Let_def rbind_eq_Inr_iff dest!: bus_aborts split: if_splits)

lemma handle_events_status:
  "rfold handle_event evs s = Inr s' \<Longrightarrow> sim_state s' = sim_state s \<or> sim_state s' = SIM_QUIT"
  by (erule rfold_invariant [where P = "\<lambda>t. sim_state t = sim_state s \<or> sim_state t = SIM_QUIT"], simp)
    (auto simp: handle_event_def send_key_def Let_def rbind_eq_Inr_iff split: sdl_event.splits if_splits)

lemma device_update_status:
  "device_update e evs s = Inr s' \<Longrightarrow> sim_state s' = sim_state s \<or> sim_state s' = SIM_QUIT"
  by (auto simp: device_update_def vga_update_screen_def update_screen_def rbind_eq_Inr_iff
      dest!: get_time_status port_set_status handle_events_status split: prod.splits if_splits)

section \<open>What a cycle leaves alone\<close>

definition same_core :: "'d cosim \<Rightarrow> 'd cosim \<Rightarrow> bool" where
  "same_core c c' \<longleftrightarrow> ref c' = ref c \<and> halt_pc c' = halt_pc c \<and> sim_insts c' = sim_insts c \<and>
     itrace c' = itrace c \<and> reports c' = reports c"

definition keeps_stopping :: "'d cosim \<Rightarrow> 'd cosim \<Rightarrow> bool" where
  "keeps_stopping c c' \<longleftrightarrow> (status c \<in> {SIM_ABORT, SIM_QUIT} \<longrightarrow> status c' \<in> {SIM_ABORT, SIM_QUIT}) \<and>
     (status c' = status c \<or> status c' \<in> {SIM_ABORT, SIM_QUIT})"

lemma single_cycle_core:
  "single_cycle v world c = Inr c' \<Longrightarrow> same_core c c' \<and> keeps_stopping c c'"
  by (auto simp: single_cycle_def clock_def set_state_def same_core_def keeps_stopping_def aborts_def Let_def
      rbind_eq_Inr_iff dest!: axi_aborts split: prod.splits if_splits)

lemma single_cycle_aborts: "single_cycle v world c = Inr c' \<Longrightarrow> aborts (board c) (board c')"
  by (auto simp: single_cycle_def clock_def set_state_def Let_def rbind_eq_Inr_iff
      dest!: axi_aborts intro: aborts_trans split: prod.splits if_splits)

lemma poll_devices_core:
  "poll_devices world c = Inr c' \<Longrightarrow> same_core c c' \<and> keeps_stopping c c'"
  by (auto simp: poll_devices_def same_core_def keeps_stopping_def Let_def rbind_eq_Inr_iff
      dest!: device_update_status)

section \<open>Committed instructions\<close>

text \<open>
  A committed instruction: the registers of the processor before it, the reference when it is
  compared and after its step, and whether it is an uncached load.
\<close>

record checked =
  ck_dut :: CPU_state
  ck_before :: machine
  ck_after :: machine
  ck_uncached :: bool

definition synced :: "bool \<Rightarrow> 'd cosim \<Rightarrow> 'd cosim" where
  "synced pre c = (if pre then difftest_sync c else c)"

text \<open>The instructions that a run of the main loop commits, in order.\<close>

fun commits :: "'d VCPU \<Rightarrow> (nat \<Rightarrow> outside) \<Rightarrow> nat \<Rightarrow> bool \<Rightarrow> 'd cosim \<Rightarrow> checked list" where
  "commits v world 0 pre c = []"
| "commits v world (Suc n) pre c =
     (if test_break v c then []
      else case commit v pre c of
        Inl e \<Rightarrow> []
      | Inr (pre', c1) \<Rightarrow>
          (if commit_wb v (dut c)
           then [\<lparr>ck_dut = sim_cpu c, ck_before = the_ref (synced pre c), ck_after = the_ref c1, ck_uncached = pre'\<rparr>]
           else []) @
          (case rbind (single_cycle v world c1) (poll_devices world) of
             Inl e \<Rightarrow> []
           | Inr c2 \<Rightarrow> if status c2 \<noteq> SIM_RUNNING then [] else commits v world n pre' c2))"

text \<open>Agreement of the registers that the processor and the reference both have.\<close>

definition same_registers :: "CPU_state \<Rightarrow> CPU_state \<Rightarrow> bool" where
  "same_registers r s \<longleftrightarrow> (\<forall>i < 32. gpr r i = gpr s i) \<and> pc r = pc s \<and> csr r = csr s"

abbreviation agrees :: "checked \<Rightarrow> bool" where
  "agrees e \<equiv> same_registers (cpu (ck_before e)) (ck_dut e)"

text \<open>
  The reference goes on from where its last step left it, except that after an uncached load it
  takes over the registers of the processor.
\<close>

fun chained :: "bool \<Rightarrow> CPU_state \<Rightarrow> checked list \<Rightarrow> bool" where
  "chained pre r [] \<longleftrightarrow> True"
| "chained pre r (e # es) \<longleftrightarrow> cpu (ck_before e) = (if pre then ck_dut e else r) \<and>
     chained (ck_uncached e) (cpu (ck_after e)) es"

lemma csr_eq_iff: "a = b \<longleftrightarrow> mepc a = mepc b \<and> mstatus a = mstatus b \<and> mcause a = mcause b \<and> mtvec a = mtvec b"
  for a b :: CSR
  by (cases a; cases b) simp

lemma check_none: "isa_difftest_checkregs r s (pc s) = None \<longleftrightarrow> same_registers r s"
proof (cases "find (\<lambda>i. gpr r i \<noteq> gpr s i) [0..<32]")
  case None
  then have "\<forall>i < 32. gpr r i = gpr s i" by (auto simp: find_None_iff)
  then show ?thesis using None by (simp add: isa_difftest_checkregs_def same_registers_def csr_eq_iff)
next
  case (Some i)
  then have "\<not> (\<forall>i < 32. gpr r i = gpr s i)" by (auto simp: find_Some_iff)
  then show ?thesis using Some by (simp add: isa_difftest_checkregs_def same_registers_def)
qed

lemma checkmem_none:
  "isa_difftest_checkmem r c = None \<longleftrightarrow> (\<forall>k < CONFIG_MSIZE. r k = sim_pmem (board c) k)"
  by (auto simp: isa_difftest_checkmem_def find_None_iff)

lemma the_ref_set_ref [simp]: "the_ref (set_ref m c) = m"
  by (simp add: the_ref_def set_ref_def)

lemma the_ref_sync: "the_ref (difftest_sync c) = (the_ref c)\<lparr>cpu := sim_cpu c\<rparr>"
  by (simp add: difftest_sync_def difftest_regcpy_def)


definition logged :: "'d VCPU \<Rightarrow> 'd cosim \<Rightarrow> 'd cosim" where
  "logged v c = c\<lparr>itrace := tq_enqueue (pc_cur v (dut c)) (dut_inst v (dut c)) (itrace c)\<rparr>"

lemma commit_eq:
  "commit_wb v (dut c) \<Longrightarrow> commit v pre c = rbind (difftest_step (synced pre (logged v c))) (\<lambda>c.
     Inr (uncache_read_wb v (dut c), c\<lparr>sim_insts := sim_insts c + 1\<rparr>))"
  by (simp add: commit_def synced_def logged_def Let_def)

lemma synced_simps:
  "the_ref (synced pre (logged v c)) = the_ref (synced pre c)" "sim_cpu (synced pre (logged v c)) = sim_cpu c"
  "status (synced pre (logged v c)) = status c" "reports (synced pre (logged v c)) = reports c"
  "halt_pc (synced pre (logged v c)) = halt_pc c" "sim_insts (synced pre (logged v c)) = sim_insts c"
  "dut (synced pre (logged v c)) = dut c"
  "cpu (the_ref (synced pre c)) = (if pre then sim_cpu c else cpu (ref c))"
  by (simp_all add: synced_def logged_def difftest_sync_def difftest_regcpy_def set_ref_def the_ref_def)

lemma difftest_step_run:
  assumes "difftest_step c = Inr c1"
  shows "nemu_step (the_ref c) (the_ref c1)" and "dut c1 = dut c" and "sim_insts c1 = sim_insts c"
    and "if same_registers (cpu (the_ref c)) (sim_cpu c)
         then status c1 = status c \<and> reports c1 = reports c \<and> halt_pc c1 = halt_pc c
         else status c1 = SIM_ABORT \<and> length (reports c1) = length (reports c) + 1 \<and> halt_pc c1 = pc (sim_cpu c)"
proof -
  let ?k = "checkregs (cpu (the_ref c)) (pc (sim_cpu c)) c"
  have k: "the_ref ?k = the_ref c" "dut ?k = dut c" "sim_insts ?k = sim_insts c"
    by (auto simp: checkregs_def the_ref_def set_status_def split: option.split)
  obtain m where m: "cpu_exec idle 1 (the_ref ?k) = Inr m" "c1 = set_ref m ?k"
    using assms by (auto simp: difftest_step_def difftest_exec_def difftest_regcpy_def rbind_eq_Inr_iff Let_def)
  then show "nemu_step (the_ref c) (the_ref c1)" using k by (auto simp: cpu_exec_steps relcompp_apply)
  show "dut c1 = dut c" "sim_insts c1 = sim_insts c" using m(2) k by (simp_all add: set_ref_def)
  show "if same_registers (cpu (the_ref c)) (sim_cpu c)
      then status c1 = status c \<and> reports c1 = reports c \<and> halt_pc c1 = halt_pc c
      else status c1 = SIM_ABORT \<and> length (reports c1) = length (reports c) + 1 \<and> halt_pc c1 = pc (sim_cpu c)"
    using check_none [of "cpu (the_ref c)" "sim_cpu c"] m(2)
    by (auto simp: checkregs_def set_status_def set_ref_def split: option.splits)
qed

lemma commit_run:
  assumes "commit v pre c = Inr (pre', c1)" and "commit_wb v (dut c)"
  shows "nemu_step (the_ref (synced pre c)) (the_ref c1)" and "pre' = uncache_read_wb v (dut c)"
    and "sim_insts c1 = sim_insts c + 1"
    and "if same_registers (cpu (the_ref (synced pre c))) (sim_cpu c)
         then status c1 = status c \<and> reports c1 = reports c \<and> halt_pc c1 = halt_pc c
         else status c1 = SIM_ABORT \<and> length (reports c1) = length (reports c) + 1 \<and> halt_pc c1 = pc (sim_cpu c)"
proof -
  obtain c2 where c2: "difftest_step (synced pre (logged v c)) = Inr c2" "pre' = uncache_read_wb v (dut c2)"
      "c1 = c2\<lparr>sim_insts := sim_insts c2 + 1\<rparr>"
    using assms by (auto simp: commit_eq rbind_eq_Inr_iff)
  note run = difftest_step_run [OF c2(1), unfolded synced_simps(1-7)]
  show "nemu_step (the_ref (synced pre c)) (the_ref c1)" using run(1) c2(3) by (simp add: the_ref_def)
  show "pre' = uncache_read_wb v (dut c)" "sim_insts c1 = sim_insts c + 1" using run c2 by simp_all
  show "if same_registers (cpu (the_ref (synced pre c))) (sim_cpu c)
      then status c1 = status c \<and> reports c1 = reports c \<and> halt_pc c1 = halt_pc c
      else status c1 = SIM_ABORT \<and> length (reports c1) = length (reports c) + 1 \<and> halt_pc c1 = pc (sim_cpu c)"
    using run(4) c2(3) by simp
qed

lemma commit_idle: "\<not> commit_wb v (dut c) \<Longrightarrow> commit v pre c = Inr (pre, c)"
  by (simp add: commit_def)


lemma cpu_the_ref [simp]: "cpu (the_ref c) = cpu (ref c)"
  by (simp add: the_ref_def)

lemma disagreement_last:
  "\<forall>e \<in> set (butlast (x # es)). agrees e \<Longrightarrow> es \<noteq> [] \<Longrightarrow> agrees x"
  by simp

text \<open>What a run of the main loop from \<open>c\<close> to \<open>c'\<close> checks, if it commits the instructions \<open>es\<close>.\<close>

definition checks_out :: "bool \<Rightarrow> 'd cosim \<Rightarrow> checked list \<Rightarrow> 'd cosim \<Rightarrow> bool" where
  "checks_out pre c es c' \<longleftrightarrow>
     chained pre (cpu (ref c)) es \<and>
     (\<forall>e \<in> set es. nemu_step (ck_before e) (ck_after e)) \<and>
     (\<forall>e \<in> set (butlast es). agrees e) \<and>
     sim_insts c' = sim_insts c + of_nat (length es) \<and>
     (if \<forall>e \<in> set es. agrees e then reports c' = reports c
      else status c' \<in> {SIM_ABORT, SIM_QUIT} \<and> length (reports c') = length (reports c) + 1 \<and>
        halt_pc c' = pc (ck_dut (last es)))"

lemma checks_out_Nil:
  "checks_out pre c [] c' \<longleftrightarrow> sim_insts c' = sim_insts c \<and> reports c' = reports c"
  by (simp add: checks_out_def)

lemma checks_out_cong:
  assumes "checks_out pre c1 es c'" and "ref c = ref c1" "sim_insts c = sim_insts c1" "reports c = reports c1"
  shows "checks_out pre c es c'"
  using assms by (auto simp: checks_out_def split: if_splits)

lemma checks_out_Cons:
  assumes "checks_out (ck_uncached e) c1 es c'" and "agrees e" and "nemu_step (ck_before e) (ck_after e)"
    and "cpu (ck_before e) = (if pre then ck_dut e else cpu (ref c))" and "cpu (ck_after e) = cpu (ref c1)"
    and "sim_insts c1 = sim_insts c + 1" and "reports c1 = reports c"
  shows "checks_out pre c (e # es) c'"
  using assms by (auto simp: checks_out_def split: if_splits)

lemma run_loop_checks:
  assumes "run_loop v world n pre c = Inr (pre', c')"
  shows "checks_out pre c (commits v world n pre c) c'"
  using assms
proof (induction n arbitrary: pre c)
  case 0
  then show ?case by (simp add: checks_out_Nil)
next
  case (Suc n)
  show ?case
  proof (cases "test_break v c")
    case True
    then show ?thesis using Suc.prems by (auto simp: set_status_def checks_out_Nil)
  next
    case False
    obtain pre1 c1 c2 c3 where c1: "commit v pre c = Inr (pre1, c1)" and c2: "single_cycle v world c1 = Inr c2"
      and c3: "poll_devices world c2 = Inr c3"
      and next_: "(if status c3 \<noteq> SIM_RUNNING then Inr (pre1, c3) else run_loop v world n pre1 c3) = Inr (pre', c')"
      using Suc.prems False by (auto simp: rbind_eq_Inr_iff)
    have core: "ref c1 = ref c3" "halt_pc c1 = halt_pc c3" "sim_insts c1 = sim_insts c3" "reports c1 = reports c3"
      and stop: "status c1 \<in> {SIM_ABORT, SIM_QUIT} \<longrightarrow> status c3 \<in> {SIM_ABORT, SIM_QUIT}"
      using single_cycle_core [OF c2] poll_devices_core [OF c3] by (auto simp: same_core_def keeps_stopping_def)
    define es where "es = (if status c3 \<noteq> SIM_RUNNING then [] else commits v world n pre1 c3)"
    have "checks_out pre1 c3 es c'"
      using Suc.IH [of pre1 c3] next_ by (auto simp: es_def checks_out_Nil split: if_splits)
    from checks_out_cong [OF this core(1,3,4)] have es: "checks_out pre1 c1 es c'" .
    show ?thesis
    proof (cases "commit_wb v (dut c)")
      case False
      then have "c1 = c" "pre1 = pre" using c1 by (simp_all add: commit_idle)
      moreover have "commits v world (Suc n) pre c = es"
        using False \<open>\<not> test_break v c\<close> c1 c2 c3 by (simp add: es_def)
      ultimately show ?thesis using es by simp
    next
      case True
      define e where "e = \<lparr>ck_dut = sim_cpu c, ck_before = the_ref (synced pre c), ck_after = the_ref c1, ck_uncached = pre1\<rparr>"
      have all: "commits v world (Suc n) pre c = e # es"
        using True \<open>\<not> test_break v c\<close> c1 c2 c3 by (simp add: es_def e_def)
      note run = commit_run [OF c1 True] and regs = synced_simps(8) [of pre c]
      show ?thesis
      proof (cases "agrees e")
        case True
        then show ?thesis unfolding all
          by (intro checks_out_Cons [of e c1]) (use es run regs in \<open>simp_all add: e_def\<close>)
      next
        case False
        then have a: "status c1 = SIM_ABORT" "length (reports c1) = length (reports c) + 1" "halt_pc c1 = pc (sim_cpu c)"
          using run(4) by (simp_all add: e_def)
        then have "es = []" "c' = c3" using stop next_ by (auto simp: es_def)
        then show ?thesis using run regs core stop False a unfolding all
          by (simp add: checks_out_def e_def)
      qed
    qed
  qed
qed

lemma cosim_run:
  assumes "sim_cpu_exec v world n c = Inr c'" and "status c \<in> {SIM_RUNNING, SIM_STOP}"
    and "es = commits v world (unat n) False (set_status SIM_RUNNING c)"
  shows "chained False (cpu (ref c)) es \<and> (\<forall>e \<in> set es. nemu_step (ck_before e) (ck_after e)) \<and>
    (\<forall>e \<in> set (butlast es). agrees e) \<and> sim_insts c' = sim_insts c + of_nat (length es) \<and>
    (if \<forall>e \<in> set es. agrees e then reports c' = reports c
     else status c' \<in> {SIM_ABORT, SIM_QUIT} \<and> length (reports c') = length (reports c) + 1 \<and>
       halt_pc c' = pc (ck_dut (last es)))"
proof -
  obtain pre c1 where c1: "run_loop v world (unat n) False (set_status SIM_RUNNING c) = Inr (pre, c1)"
    and c': "c' = (if status c1 = SIM_RUNNING then set_status SIM_STOP c1 else c1)"
    using assms(1,2) by (auto simp: sim_cpu_exec_def rbind_eq_Inr_iff)
  have "checks_out False (set_status SIM_RUNNING c) es c1"
    using run_loop_checks [OF c1] by (simp add: assms(3))
  then show ?thesis unfolding checks_out_def c' by (auto simp: set_status_def split: if_splits)
qed

text \<open>C6: The co-simulation finds every divergence when it happens: in a run of the simulator, the
  reference makes one step of the emulator for every instruction the processor commits, starting
  each where the last one ended (or, after an uncached load, from the processor's registers). All
  commits but the last agree with the reference in the registers, the pc and the CSRs; if the last
  one does not, the run has stopped there with one report, at the pc of that instruction, and
  otherwise nothing is reported. A run that ends neither aborted nor quit has agreed throughout.\<close>

theorem cosim_lockstep:
  assumes "sim_cpu_exec v world n c = Inr c'" and "status c \<in> {SIM_RUNNING, SIM_STOP}"
    and "es = commits v world (unat n) False (set_status SIM_RUNNING c)"
  shows "chained False (cpu (ref c)) es \<and> (\<forall>e \<in> set es. nemu_step (ck_before e) (ck_after e)) \<and>
    (\<forall>e \<in> set (butlast es). agrees e) \<and> sim_insts c' = sim_insts c + of_nat (length es) \<and>
    (if \<forall>e \<in> set es. agrees e then reports c' = reports c
     else status c' \<in> {SIM_ABORT, SIM_QUIT} \<and> length (reports c') = length (reports c) + 1 \<and>
       halt_pc c' = pc (ck_dut (last es)))"
  using assms by (rule cosim_run)

section \<open>Example: a processor that replays two instructions\<close>

text \<open>
  A processor that commits an instruction in every cycle, shows the registers of a program of two
  instructions, and then an \<open>ebreak\<close>.
\<close>

definition quiet_master :: axi_master where
  "quiet_master = \<lparr>ar_valid = False, ar_addr = 0, ar_len = 0, ar_size = 0, r_ready = False, aw_valid = False,
     aw_addr = 0, aw_len = 0, aw_size = 0, w_valid = False, w_data = 0, w_strb = 0, w_last = False, b_ready = False\<rparr>"

definition quiet_slave :: axi_slave where
  "quiet_slave = \<lparr>ar_ready = False, r_valid = False, r_last = False, r_data = 0, r_resp = 0, aw_ready = False,
     w_ready = False, b_valid = False, rstate = 0, araddr = 0, arlen = 0, arsize = 0, rcount = 0, wstate = 0,
     awaddr = 0, awlen = 0, awsize = 0, wcount = 0\<rparr>"

definition replay :: "nat VCPU" where
  "replay = \<lparr>dut_eval = (\<lambda>clk rst _ d. if \<not> rst then 0 else if clk then Suc d else d), bus_master = (\<lambda>_. quiet_master),
     pc_cur = (\<lambda>d. 0x80000000 + 4 * of_nat d), dut_inst = (\<lambda>d. if d < 2 then 0 else 0x00100073),
     commit_wb = (\<lambda>_. True), uncache_read_wb = (\<lambda>_. False),
     cpu_gpr = (\<lambda>d i. if i = 1 \<and> 0 < d then 5 else if i = 2 \<and> 1 < d then 10 else 0),
     cpu_csr = (\<lambda>_. \<lparr>mepc = 0, mstatus = 0, mcause = 0, mtvec = 0\<rparr>)\<rparr>"

definition quiet_world :: "nat \<Rightarrow> outside" where
  "quiet_world = (\<lambda>_. \<lparr>at_write = quiet_host, at_read = quiet_host, at_update = quiet_host, polled = []\<rparr>)"

abbreviation two_insts :: machine where
  "two_insts \<equiv> boot [0x00500093, 0x00108133]"

definition replay_start :: "nat cosim" where
  "replay_start = \<lparr>dut = 0, rstn = True, slave = quiet_slave,
     board = power_on\<lparr>sim_state := SIM_STOP, sim_pmem := pmem two_insts, ref_pmem := pmem two_insts\<rparr>,
     ref = two_insts, sim_cpu = cpu two_insts, halt_pc = 0, halt_ret = 0, sim_insts = 0,
     itrace = tq_new (\<lambda>_. \<lparr>log_pc = 0, log_inst = 0\<rparr>) 16, reports = [],
     is_skip_ref = False, skip_dut_nr_inst = 0, moment = 0\<rparr>"

lemma two_insts_regs: "gpr (cpu two_insts) = (\<lambda>_. 0)" "pc (cpu two_insts) = 0x80000000"
  "csr (cpu two_insts) = \<lparr>mepc = 0, mstatus = 0, mcause = 0, mtvec = 0\<rparr>"
  by (simp_all add: boot_def init_isa_def restart_def layout_defs Let_def fun_eq_iff)

lemma two_insts_run:
  assumes "gpr (cpu x) = (\<lambda>_. 0)" and "pc (cpu x) = 0x80000000"
    and "paddr_read (pmem x) 0x80000000 4 = Inr 0x00500093" and "paddr_read (pmem x) 0x80000004 4 = Inr 0x00108133"
  shows "\<exists>m m'. difftest_exec idle 1 x = Inr m \<and> difftest_exec idle 1 m = Inr m' \<and>
     gpr (cpu m) = (\<lambda>_. 0)(1 := 5) \<and> pc (cpu m) = 0x80000004 \<and> csr (cpu m) = csr (cpu x)"
proof -
  have one: "difftest_exec idle 1 x = execute_loop (Suc 0) idle x" for x
    by (simp add: difftest_exec_def cpu_exec_def execute_def)
  show ?thesis using assms
    by (simp add: one exec_body_def put_R_eq alu_value_def fun_upd_twist
        exec_once_eq [OF assms(3) example_decode(1) example_operands(1)]
        exec_once_eq [OF _ example_decode(2) example_operands(2)] fun_eq_iff)
qed

lemmas two_insts_steps = two_insts_run [OF two_insts_regs(1,2) example_fetch]

text \<open>A quiet cycle changes nothing but the processor and what is read of it.\<close>

lemma boot_time_id: "boot_time b = 0 \<Longrightarrow> b\<lparr>boot_time := 0\<rparr> = b"
  by (cases b) simp

lemma quiet_cycle:
  assumes "slave c = quiet_slave" and "boot_time (board c) = 0" and "last_update (board c) = 0" and "rstn c"
  shows "rbind (single_cycle replay quiet_world c) (poll_devices quiet_world) =
    Inr ((set_state replay (c\<lparr>dut := Suc (dut c)\<rparr>))\<lparr>moment := moment c + 2\<rparr>)"
proof -
  have "single_cycle replay quiet_world c = Inr (set_state replay (c\<lparr>dut := Suc (dut c), moment := moment c + 1\<rparr>))"
    using assms(1,4) by (cases c) (simp add: single_cycle_def clock_def replay_def quiet_master_def
        quiet_slave_def axi_write_def axi_read_def Let_def)
  moreover have "device_update quiet_host [] (board c) = Inr (board c)"
    using assms(2,3) by (simp add: device_update_def get_time_def quiet_host_def Let_def boot_time_id)
  ultimately show ?thesis
    by (cases c) (simp add: poll_devices_def quiet_world_def Let_def set_state_def fun_eq_iff)
qed

lemma replay_commit:
  assumes "difftest_exec idle 1 (the_ref c) = Inr m" and "same_registers (cpu (the_ref c)) (sim_cpu c)"
  shows "commit replay False c = Inr (False, (set_ref m (logged replay c))\<lparr>sim_insts := sim_insts c + 1\<rparr>)"
proof -
  have "the_ref (logged replay c) = the_ref c" "sim_cpu (logged replay c) = sim_cpu c"
    by (simp_all add: logged_def the_ref_def)
  moreover have "checkregs (cpu (the_ref c)) (pc (sim_cpu c)) (logged replay c) = logged replay c"
    using assms(2) check_none [of "cpu (the_ref c)" "sim_cpu c"] by (simp add: checkregs_def logged_def)
  ultimately have "difftest_step (logged replay c) = Inr (set_ref m (logged replay c))"
    using assms(1) by (simp add: difftest_step_def difftest_regcpy_def)
  then show ?thesis by (simp add: commit_eq synced_def replay_def set_ref_def logged_def)
qed

definition replay_next :: "machine \<Rightarrow> nat cosim \<Rightarrow> nat cosim" where
  "replay_next m c = (set_state replay ((set_ref m (logged replay c))\<lparr>sim_insts := sim_insts c + 1, dut := Suc (dut c)\<rparr>))
     \<lparr>moment := moment c + 2\<rparr>"

definition quiet :: "'d cosim \<Rightarrow> bool" where
  "quiet c \<longleftrightarrow> slave c = quiet_slave \<and> boot_time (board c) = 0 \<and> last_update (board c) = 0 \<and> rstn c \<and>
     status c = SIM_RUNNING"

lemma replay_step:
  assumes "quiet c" and "difftest_exec idle 1 (the_ref c) = Inr m" and "same_registers (cpu (the_ref c)) (sim_cpu c)"
    and "dut c < 2"
  shows "run_loop replay quiet_world (Suc k) False c = run_loop replay quiet_world k False (replay_next m c)"
    and "quiet (replay_next m c)"
proof -
  let ?c = "(set_ref m (logged replay c))\<lparr>sim_insts := sim_insts c + 1\<rparr>"
  have "slave ?c = quiet_slave" "boot_time (board ?c) = 0" "last_update (board ?c) = 0" "rstn ?c"
    using assms(1) by (simp_all add: set_ref_def logged_def quiet_def)
  from quiet_cycle [OF this] have cyc: "rbind (single_cycle replay quiet_world ?c) (poll_devices quiet_world) = Inr (replay_next m c)"
    by (simp add: set_ref_def logged_def replay_next_def)
  show good: "quiet (replay_next m c)"
    using assms(1) by (simp add: replay_next_def set_state_def set_ref_def logged_def quiet_def)
  have "test_break replay c = False" using assms(4) by (simp add: test_break_def replay_def)
  then have "run_loop replay quiet_world (Suc k) False c = rbind (rbind (single_cycle replay quiet_world ?c) (poll_devices quiet_world))
      (\<lambda>c. if status c \<noteq> SIM_RUNNING then Inr (False, c) else run_loop replay quiet_world k False c)"
    using replay_commit [OF assms(2,3)] by (simp add: rbind_assoc)
  then show "run_loop replay quiet_world (Suc k) False c = run_loop replay quiet_world k False (replay_next m c)"
    using good unfolding cyc by (simp add: quiet_def)
qed

lemma replay_quiet:
  "quiet (set_status SIM_RUNNING replay_start)" "the_ref (set_status SIM_RUNNING replay_start) = two_insts"
  "same_registers (cpu (the_ref (set_status SIM_RUNNING replay_start))) (sim_cpu (set_status SIM_RUNNING replay_start))"
  "dut (set_status SIM_RUNNING replay_start) < 2"
  by (simp_all add: set_status_def replay_start_def power_on_def the_ref_def same_registers_def quiet_def)

lemma replay_runs:
  "\<exists>c. sim_cpu_exec replay quiet_world 2 replay_start = Inr c \<and> status c = SIM_STOP"
proof -
  obtain m m' where m: "difftest_exec idle 1 two_insts = Inr m" "difftest_exec idle 1 m = Inr m'"
      "gpr (cpu m) = (\<lambda>_. 0)(1 := 5)" "pc (cpu m) = 0x80000004" "csr (cpu m) = csr (cpu two_insts)"
    using two_insts_steps by blast
  let ?c0 = "set_status SIM_RUNNING replay_start"
  let ?c1 = "replay_next m ?c0"
  note c0 = replay_quiet
  have c1: "the_ref ?c1 = m" "same_registers (cpu (the_ref ?c1)) (sim_cpu ?c1)" "dut ?c1 < 2"
    using m two_insts_regs
    by (simp_all add: replay_next_def the_ref_def set_ref_def set_state_def replay_def replay_start_def
        set_status_def logged_def same_registers_def)
  have r1: "run_loop replay quiet_world (Suc (Suc 0)) False ?c0 = run_loop replay quiet_world (Suc 0) False ?c1" "quiet ?c1"
    using replay_step [OF c0(1) _ c0(3,4), of m] m(1) unfolding c0(2) by blast+
  have r2: "run_loop replay quiet_world (Suc 0) False ?c1 = run_loop replay quiet_world 0 False (replay_next m' ?c1)"
      "quiet (replay_next m' ?c1)"
    using replay_step [OF r1(2) _ c1(2,3), of m'] m(2) unfolding c1(1) by blast+
  have "unat (2 :: u32) = Suc (Suc 0)" by simp
  then have "run_loop replay quiet_world (unat (2 :: u32)) False ?c0 = Inr (False, replay_next m' ?c1)"
    using r1(1) r2(1) by (simp only: run_loop.simps(1))
  moreover have "status replay_start = SIM_STOP" by (simp add: replay_start_def)
  ultimately show ?thesis using r2(2) by (simp add: sim_cpu_exec_def quiet_def) (simp add: set_status_def)
qed

lemma cosim_lockstep_witness:
  "\<exists>c. sim_cpu_exec replay quiet_world 2 replay_start = Inr c \<and>
     (\<forall>e \<in> set (commits replay quiet_world 2 False (set_status SIM_RUNNING replay_start)). agrees e)"
proof -
  obtain c where c: "sim_cpu_exec replay quiet_world 2 replay_start = Inr c" "status c = SIM_STOP"
    using replay_runs by blast
  moreover have "status replay_start \<in> {SIM_RUNNING, SIM_STOP}" by (simp add: replay_start_def)
  ultimately show ?thesis
    using cosim_lockstep [OF c(1) _ refl] by (auto split: if_splits)
qed


section \<open>Runs in pieces\<close>

lemma run_loop_add:
  "run_loop v world m pre c = Inr (p, c1) \<Longrightarrow> status c1 = SIM_RUNNING \<Longrightarrow> status c = SIM_RUNNING \<Longrightarrow>
     run_loop v world (m + n) pre c = run_loop v world n p c1"
proof (induction m arbitrary: pre c)
  case (Suc m)
  then have "\<not> test_break v c" by (auto simp: set_status_def)
  then show ?case using Suc
    by (auto simp: rbind_eq_Inr_iff split: if_splits)
qed simp

definition finish :: "bool \<times> 'd cosim \<Rightarrow> 'd cosim res" where
  "finish r = Inr (if status (snd r) = SIM_RUNNING then set_status SIM_STOP (snd r) else snd r)"

lemma sim_cpu_exec_finish:
  "status c \<in> {SIM_RUNNING, SIM_STOP} \<Longrightarrow>
     sim_cpu_exec v world n c = rbind (run_loop v world (unat n) False (set_status SIM_RUNNING c)) finish"
  by (auto simp: sim_cpu_exec_def finish_def [abs_def] case_prod_unfold)

lemma status_set_status [simp]: "status (set_status st c) = st" "set_status st (set_status st' c) = set_status st c"
  by (simp_all add: set_status_def)

lemma set_status_id: "status c = st \<Longrightarrow> set_status st c = c"
  by (cases c) (auto simp: set_status_def)

text \<open>Running \<open>m\<close> and then \<open>n\<close> cycles is running \<open>m + n\<close> cycles, provided the first run did not end
  between an uncached load and the next instruction: the variable that remembers the load is local
  to the call, so a second run compares the loaded register with the reference instead of taking
  it over.\<close>

lemma cpu_exec_pieces:
  assumes "run_loop v world (unat m) False (set_status SIM_RUNNING c) = Inr (p, c1)" and "status c1 = SIM_RUNNING"
    and "status c \<in> {SIM_RUNNING, SIM_STOP}" and "unat m + unat n < 2 ^ 32"
  shows "sim_cpu_exec v world m c = Inr (set_status SIM_STOP c1) \<and>
    sim_cpu_exec v world (m + n) c = rbind (run_loop v world (unat n) p c1) finish \<and>
    sim_cpu_exec v world n (set_status SIM_STOP c1) = rbind (run_loop v world (unat n) False c1) finish \<and>
    (p \<or> sim_cpu_exec v world n (set_status SIM_STOP c1) = sim_cpu_exec v world (m + n) c)"
proof -
  have add: "unat (m + n) = unat m + unat n" using assms(4) by (simp add: unat_add_lem [symmetric])
  have first: "sim_cpu_exec v world m c = Inr (set_status SIM_STOP c1)"
    using assms(1-3) by (simp add: sim_cpu_exec_finish finish_def)
  moreover have whole: "sim_cpu_exec v world (m + n) c = rbind (run_loop v world (unat n) p c1) finish"
    using run_loop_add [OF assms(1,2)] assms(3) by (simp add: sim_cpu_exec_finish add)
  moreover have "sim_cpu_exec v world n (set_status SIM_STOP c1) = rbind (run_loop v world (unat n) False c1) finish"
    using assms(2) by (simp add: sim_cpu_exec_finish set_status_id)
  ultimately show ?thesis by (cases p) simp_all
qed

section \<open>The start\<close>

lemma init_difftest_run:
  "\<exists>c'. init_difftest rnd c = Inr c' \<and> (\<forall>k < CONFIG_MSIZE. pmem (the_ref c') k = sim_pmem (board c) k) \<and>
     cpu (the_ref c') = sim_cpu c' \<and>
     c' = c\<lparr>ref := ref c', sim_cpu := (sim_cpu c)\<lparr>pc := CONFIG_MBASE\<rparr>,
       board := (board c)\<lparr>ref_pmem := ref_pmem (board c')\<rparr>\<rparr>"
proof -
  let ?m = "difftest_init rnd (the_ref c)"
  let ?mem = "store (pmem ?m) 0 (load (sim_pmem (board c)) 0 CONFIG_MSIZE)"
  have g: "guest_to_host CONFIG_MBASE = 0" by (simp add: guest_to_host_eq layout_defs)
  have "difftest_memcpy CONFIG_MBASE (sim_pmem (board c)) CONFIG_MSIZE DIFFTEST_TO_REF ?m =
      Inr (?m\<lparr>pmem := ?mem\<rparr>, sim_pmem (board c))"
    by (simp add: difftest_memcpy_def g in_object_def)
  moreover have "k < CONFIG_MSIZE \<longrightarrow> ?mem k = sim_pmem (board c) k" for k
    by (simp add: store_def nth_load)
  ultimately show ?thesis
    by (simp add: init_difftest_def difftest_sync_def difftest_regcpy_def set_ref_def the_ref_def Let_def)
qed

text \<open>However the emulator filled its memory, after \<open>init_difftest\<close> the reference has the memory and
  all registers of the simulator, with the pc at the start of memory, and nothing else has changed.\<close>

lemma init_difftest_correct:
  "\<exists>c'. init_difftest rnd c = Inr c' \<and> (\<forall>k < CONFIG_MSIZE. pmem (the_ref c') k = sim_pmem (board c) k) \<and>
     cpu (the_ref c') = sim_cpu c' \<and>
     c' = c\<lparr>ref := ref c', sim_cpu := (sim_cpu c)\<lparr>pc := CONFIG_MBASE\<rparr>,
       board := (board c)\<lparr>ref_pmem := ref_pmem (board c')\<rparr>\<rparr>"
  by (rule init_difftest_run)

lemma cpu_exec_pieces_witness:
  "\<exists>c1. sim_cpu_exec replay quiet_world 1 replay_start = Inr c1 \<and>
     sim_cpu_exec replay quiet_world 1 c1 = sim_cpu_exec replay quiet_world 2 replay_start"
proof -
  obtain m where m: "difftest_exec idle 1 two_insts = Inr m" using two_insts_steps by blast
  let ?c0 = "set_status SIM_RUNNING replay_start"
  have one: "unat (1 :: u32) = Suc 0" by simp
  have "run_loop replay quiet_world (unat (1 :: u32)) False ?c0 = Inr (False, replay_next m ?c0)" "quiet (replay_next m ?c0)"
    using replay_step(1) [OF replay_quiet(1) _ replay_quiet(3,4), of m 0]
      replay_step(2) [OF replay_quiet(1) _ replay_quiet(3,4), of m] m unfolding replay_quiet(2) one by simp_all
  then show ?thesis
    using cpu_exec_pieces [of replay quiet_world 1 replay_start False "replay_next m ?c0" 1]
    by (auto simp: quiet_def replay_start_def)
qed

end
