(* ===== verification/Sim_Expr.thy ===== *)
theory Sim_Expr
  imports Sim_Bus Nemu_Cpu
begin

text \<open>
  The expression evaluator of the debugger (\<open>simulator/sim/sdb/expr.cpp\<close>): the table of token rules
  with the regular expressions it uses, the tokeniser over its static array, and the recursive
  evaluator. Messages are not modelled.
\<close>

section \<open>Regular expressions\<close>

text \<open>
  The fragment of POSIX extended regular expressions the rules use: one character of a set, a
  repetition of such, sequence and alternative. \<open>prefix_lengths\<close> lists the lengths of the matching
  prefixes; \<open>regexec\<close> reports the longest one, and \<open>rm_so = 0\<close> asks for a match at the start.
\<close>

datatype regex = Chars string | Repeat string | Then regex regex | Else regex regex

fun prefix_lengths :: "regex \<Rightarrow> string \<Rightarrow> nat list" where
  "prefix_lengths (Chars cs) s = (case s of [] \<Rightarrow> [] | c # _ \<Rightarrow> if c \<in> set cs then [1] else [])"
| "prefix_lengths (Repeat cs) s = [1..<Suc (length (takeWhile (\<lambda>c. c \<in> set cs) s))]"
| "prefix_lengths (Then r1 r2) s =
     concat (map (\<lambda>k. map ((+) k) (prefix_lengths r2 (drop k s))) (prefix_lengths r1 s))"
| "prefix_lengths (Else r1 r2) s = prefix_lengths r1 s @ prefix_lengths r2 s"

definition match_at :: "regex \<Rightarrow> string \<Rightarrow> nat option" where
  "match_at r s = (case prefix_lengths r s of [] \<Rightarrow> None | k # ks \<Rightarrow> Some (fold max ks k))"

fun literal :: "string \<Rightarrow> regex" where
  "literal [] = Repeat []"
| "literal [c] = Chars [c]"
| "literal (c # d # cs) = Then (Chars [c]) (literal (d # cs))"

section \<open>Tokens\<close>

datatype token_type = TK_NOTYPE | TK_EQ | TK_NUM | TK_HEX | TK_NEQ | TK_AND | TK_REG | TK_DEREF | TK_char char

definition digit_chars :: string where "digit_chars = ''0123456789''"
definition hex_chars :: string where "hex_chars = digit_chars @ ''ABCDEFabcdef''"

definition rules :: "(regex \<times> token_type) list" where
  "rules = [
     (Repeat '' '', TK_NOTYPE),
     (literal ''+'', TK_char CHR ''+''),
     (literal ''=='', TK_EQ),
     (literal ''-'', TK_char CHR ''-''),
     (literal ''*'', TK_char CHR ''*''),
     (literal ''/'', TK_char CHR ''/''),
     (literal ''('', TK_char CHR ''(''),
     (literal '')'', TK_char CHR '')''),
     (Then (literal ''0x'') (Repeat hex_chars), TK_HEX),
     (Repeat digit_chars, TK_NUM),
     (literal ''!='', TK_NEQ),
     (literal ''&&'', TK_AND),
     (Else (literal ''$0'') (Else (literal ''ra'') (Else (literal ''sp'') (Else (literal ''gp'') (Else (literal ''tp'')
        (literal ''pc''))))), TK_REG),
     (Else (Then (literal ''t'') (Chars ''0123456'')) (Else (Then (literal ''s'') (Chars digit_chars))
        (Else (Then (literal ''s1'') (Chars ''0,1'')) (Then (literal ''a'') (Chars ''01234567'')))), TK_REG)]"

record token =
  tk_type :: token_type
  tk_str :: string

text \<open>The static array \<open>tokens[32]\<close> and the number of its entries in use.\<close>

record lexer =
  tokens :: "nat \<Rightarrow> token"
  nr_token :: nat

definition no_tokens :: lexer where
  "no_tokens = \<lparr>tokens = (\<lambda>_. \<lparr>tk_type = TK_NOTYPE, tk_str = []\<rparr>), nr_token = 0\<rparr>"

text \<open>The loop over the rules: the first that matches at this position, with its length.\<close>

fun first_rule :: "(regex \<times> token_type) list \<Rightarrow> string \<Rightarrow> (token_type \<times> nat) option" where
  "first_rule [] s = None"
| "first_rule ((r, ty) # rs) s = (case match_at r s of Some k \<Rightarrow> Some (ty, k) | None \<Rightarrow> first_rule rs s)"

text \<open>
  The rest of the loop body: a token is stored with its text, in an array of 32 tokens whose texts
  have 32 bytes (\<open>strncpy\<close> of a text of 32 characters leaves it without a terminating zero).
\<close>

definition store_token :: "token_type \<Rightarrow> string \<Rightarrow> lexer \<Rightarrow> lexer res" where
  "store_token ty str x =
     (if ty = TK_NOTYPE then Inr x
      else rbind (rassert Out_of_bounds (nr_token x < 32 \<and> length str \<le> 32)) (\<lambda>_.
        Inr (x\<lparr>tokens := (tokens x)(nr_token x := \<lparr>tk_type = ty, tk_str = str\<rparr>), nr_token := nr_token x + 1\<rparr>)))"

lemma prefix_lengths_pos: "0 \<notin> set (prefix_lengths r s)"
  by (induction r arbitrary: s) (auto split: list.splits)

lemma fold_max_pos: "0 < k \<Longrightarrow> 0 < fold max ks (k :: nat)"
  by (induction ks arbitrary: k) auto

lemma match_at_pos: "match_at r s = Some k \<Longrightarrow> 0 < k"
  using prefix_lengths_pos [of r s] by (auto simp: match_at_def fold_max_pos split: list.splits)

lemma first_rule_pos: "first_rule rs s = Some (ty, k) \<Longrightarrow> 0 < k"
  by (induction rs) (auto dest: match_at_pos split: option.splits)

text \<open>The loop over the text: \<open>False\<close> when no rule matches.\<close>

function make_token_from :: "string \<Rightarrow> lexer \<Rightarrow> (bool \<times> lexer) res" where
  "make_token_from e x =
     (if e = [] then Inr (True, x)
      else case first_rule rules e of
             None \<Rightarrow> Inr (False, x)
           | Some (ty, k) \<Rightarrow> rbind (store_token ty (take k e) x) (make_token_from (drop k e)))"
  by auto
termination
  by (relation "measure (length \<circ> fst)") (auto dest: first_rule_pos)

declare make_token_from.simps [simp del]

definition make_token :: "string \<Rightarrow> lexer \<Rightarrow> (bool \<times> lexer) res" where
  "make_token e x = make_token_from e (x\<lparr>nr_token := 0\<rparr>)"

section \<open>Evaluation\<close>

definition str0 :: "token \<Rightarrow> char" where
  "str0 t = (case tk_str t of [] \<Rightarrow> CHR 0x00 | c # _ \<Rightarrow> c)"

text \<open>The loop of \<open>check_parentheses\<close>: \<open>None\<close> is its early \<open>return false\<close>.\<close>

fun paren_scan :: "int \<Rightarrow> token list \<Rightarrow> int option" where
  "paren_scan depth [] = Some depth"
| "paren_scan depth (t # ts) =
     (let depth = (if str0 t = CHR ''('' then depth + 1 else depth);
          depth = (if str0 t = CHR '')'' then depth - 1 else depth) in
      if depth = 0 then None else paren_scan depth ts)"

definition check_parentheses :: "(nat \<Rightarrow> token) \<Rightarrow> int \<Rightarrow> int \<Rightarrow> bool res" where
  "check_parentheses tk p q =
     (if str0 (tk (nat p)) \<noteq> CHR ''('' \<or> str0 (tk (nat q)) \<noteq> CHR '')'' then Inr False
      else case paren_scan 1 (map tk [nat (p + 1)..<nat q]) of
             None \<Rightarrow> Inr False
           | Some depth \<Rightarrow> rbind (rassert Assertion (depth = 1)) (\<lambda>_. Inr True))"

text \<open>\<open>sscanf\<close> with \<open>%lx\<close> and \<open>%ld\<close>: the C library clamps what does not fit into 64 bits.\<close>

definition hex_digit :: "char \<Rightarrow> int" where
  "hex_digit c = (let n = of_char c in if n \<le> 57 then n - 48 else if n \<le> 70 then n - 55 else n - 87)"

definition scan_hex :: "string \<Rightarrow> u64" where
  "scan_hex s = word_of_int (min (2 ^ 64 - 1) (foldl (\<lambda>v c. 16 * v + hex_digit c) 0 (drop 2 s)))"

definition scan_dec :: "string \<Rightarrow> u64" where
  "scan_dec s = word_of_int (min (2 ^ 63 - 1) (foldl (\<lambda>v c. 10 * v + hex_digit c) 0 s))"

text \<open>
  What the evaluator reads of the simulator: registers by name (\<open>isa_reg_str2val\<close> of
  \<open>simulator/sim/sim.cpp\<close>; the flag \<open>success\<close> is not looked at) and memory.
\<close>

definition sim_reg_str2val :: "word_t \<Rightarrow> (nat \<Rightarrow> word_t) \<Rightarrow> string \<Rightarrow> word_t \<times> bool" where
  "sim_reg_str2val pc_cur cpu_gpr s =
     (if s = ''pc'' then (pc_cur, True)
      else case find_reg s regs 0 of Some i \<Rightarrow> (cpu_gpr i, True) | None \<Rightarrow> (0, False))"

definition sim_paddr_read :: "bytes \<Rightarrow> paddr_t \<Rightarrow> nat \<Rightarrow> word_t res" where
  "sim_paddr_read m addr len = (if sim_in_pmem addr then mem_host_read m addr len else Inr 0)"

record debuggee =
  db_pc :: word_t
  db_gpr :: "nat \<Rightarrow> word_t"
  db_mem :: bytes

text \<open>A single token; reading a text without a terminating zero leaves its array.\<close>

definition eval_token :: "debuggee \<Rightarrow> token \<Rightarrow> u64 res" where
  "eval_token d t =
     rbind (rassert Out_of_bounds (tk_type t \<in> {TK_HEX, TK_NUM, TK_REG} \<longrightarrow> length (tk_str t) < 32)) (\<lambda>_.
       case tk_type t of
         TK_HEX \<Rightarrow> Inr (scan_hex (tk_str t))
       | TK_NUM \<Rightarrow> Inr (scan_dec (tk_str t))
       | TK_REG \<Rightarrow> Inr (ucast (fst (sim_reg_str2val (db_pc d) (db_gpr d) (tk_str t))))
       | _ \<Rightarrow> Inl Assertion)"

text \<open>The search for the operator to split at: position, kind (none is 0 in C), priority, open parentheses.\<close>

record op_search =
  op :: int
  optype :: "token_type option"
  prio :: nat
  parentnum :: nat

definition op_start :: op_search where
  "op_start = \<lparr>op = 0, optype = None, prio = 100, parentnum = 0\<rparr>"

definition take_op :: "int \<Rightarrow> token_type \<Rightarrow> nat \<Rightarrow> bool \<Rightarrow> op_search \<Rightarrow> op_search" where
  "take_op i ty pr better s = (if better then s\<lparr>op := i, optype := Some ty, prio := pr\<rparr> else s)"

definition op_step :: "int \<Rightarrow> token \<Rightarrow> op_search \<Rightarrow> op_search" where
  "op_step i t s =
     (if str0 t = CHR ''('' then s\<lparr>parentnum := parentnum s + 1\<rparr>
      else if parentnum s \<noteq> 0 \<and> str0 t = CHR '')'' then s\<lparr>parentnum := parentnum s - 1\<rparr>
      else if parentnum s \<noteq> 0 then s
      else case tk_type t of
             TK_EQ \<Rightarrow> take_op i TK_EQ 1 (prio s > 1) s
           | TK_NEQ \<Rightarrow> take_op i TK_NEQ 1 (prio s > 1) s
           | TK_char c \<Rightarrow>
               if c = CHR ''+'' \<or> c = CHR ''-'' then take_op i (TK_char c) 2 (prio s \<ge> 2) s
               else if c = CHR ''*'' \<or> c = CHR ''/'' then take_op i (TK_char c) 3 (prio s \<ge> 3) s
               else s
           | TK_AND \<Rightarrow> take_op i TK_AND 4 (prio s \<ge> 4) s
           | TK_REG \<Rightarrow> take_op i TK_REG 5 (prio s \<ge> 5) s
           | TK_DEREF \<Rightarrow> take_op i TK_DEREF 6 (prio s \<ge> 6) s
           | _ \<Rightarrow> s)"

fun op_scan :: "int \<Rightarrow> token list \<Rightarrow> op_search \<Rightarrow> op_search" where
  "op_scan i [] s = s"
| "op_scan i (t # ts) s = op_scan (i + 1) ts (op_step i t s)"

definition apply_op :: "debuggee \<Rightarrow> token_type option \<Rightarrow> u64 \<Rightarrow> u64 \<Rightarrow> u64 res" where
  "apply_op d ty val1 val2 =
     (case ty of
        Some (TK_char c) \<Rightarrow>
          if c = CHR ''+'' then Inr (val1 + val2)
          else if c = CHR ''-'' then Inr (val1 - val2)
          else if c = CHR ''*'' then Inr (val1 * val2)
          else if c = CHR ''/'' then rbind (rassert Division_by_zero (val2 \<noteq> 0)) (\<lambda>_. Inr (val1 div val2))
          else Inl Assertion
      | Some TK_EQ \<Rightarrow> Inr (if val1 = val2 then 1 else 0)
      | Some TK_DEREF \<Rightarrow> rbind (sim_paddr_read (db_mem d) (ucast val2) 4) (\<lambda>v. Inr (ucast v))
      | _ \<Rightarrow> Inl Assertion)"

text \<open>\<open>eval\<close> may call itself for ever, which is \<open>None\<close>.\<close>

partial_function (option) eval :: "debuggee \<Rightarrow> (nat \<Rightarrow> token) \<Rightarrow> int \<Rightarrow> int \<Rightarrow> u64 res option" where
  "eval d tk p q =
     (if p > q then Some (Inr 0)
      else if p = q then Some (eval_token d (tk (nat p)))
      else case check_parentheses tk p q of
             Inl e \<Rightarrow> Some (Inl e)
           | Inr inner \<Rightarrow>
               if inner then eval d tk (p + 1) (q - 1)
               else let s = op_scan p (map tk [nat p..<nat (q + 1)]) op_start in
                 Option.bind (eval d tk p (op s - 1)) (\<lambda>val1.
                   case val1 of
                     Inl e \<Rightarrow> Some (Inl e)
                   | Inr val1 \<Rightarrow> Option.bind (eval d tk (op s + 1) q) (\<lambda>val2.
                       Some (rbind val2 (apply_op d (optype s) val1)))))"

declare eval.simps [code]

text \<open>The loop of \<open>expr\<close> that turns multiplications into dereferences; it reads one token ahead.\<close>

definition mark_deref :: "nat \<Rightarrow> lexer \<Rightarrow> lexer res" where
  "mark_deref i x =
     (if tk_type (tokens x i) \<noteq> TK_char CHR ''*'' then Inr x
      else rbind (rassert Out_of_bounds (i = 0 \<or> i + 1 < 32)) (\<lambda>_.
        if i = 0 \<or> tk_type (tokens x (i + 1)) = TK_HEX
        then Inr (x\<lparr>tokens := (tokens x)(i := (tokens x i)\<lparr>tk_type := TK_DEREF\<rparr>)\<rparr>) else Inr x))"

text \<open>\<open>expr\<close>: no value means that the text is not a list of tokens.\<close>

definition expr :: "debuggee \<Rightarrow> string \<Rightarrow> lexer \<Rightarrow> (word_t option \<times> lexer) res option" where
  "expr d e x =
     (case make_token e x of
        Inl f \<Rightarrow> Some (Inl f)
      | Inr (ok, x) \<Rightarrow>
          if \<not> ok then Some (Inr (None, x))
          else case rfold mark_deref [0..<nr_token x] x of
                 Inl f \<Rightarrow> Some (Inl f)
               | Inr x \<Rightarrow> Option.bind (eval d (tokens x) 0 (int (nr_token x) - 1)) (\<lambda>v.
                   Some (rbind v (\<lambda>v. Inr (Some (ucast v), x)))))"

end
