(* ===== verification/Sim_Eval.thy ===== *)
theory Sim_Eval
  imports Sim_Expr
begin

text \<open>
  The evaluator of the debugger computes the value of an expression: a grammar with its values, what
  the search for the operator and the test for parentheses do on the tokens of an expression, and
  the evaluation of these tokens by induction on the expression.
\<close>

section \<open>The grammar\<close>

text \<open>
  Expressions as the evaluator means them: \<open>==\<close> binds weakest and to the right, then sums and
  products to the left, then dereferences.
\<close>

datatype binop = Add | Sub | Mul | Div | Eq

datatype aexp = Leaf token | Group aexp | Binary binop aexp aexp | Deref aexp

definition char_token :: "char \<Rightarrow> token" where
  "char_token c = \<lparr>tk_type = TK_char c, tk_str = [c]\<rparr>"

fun op_token :: "binop \<Rightarrow> token" where
  "op_token Add = char_token CHR ''+''"
| "op_token Sub = char_token CHR ''-''"
| "op_token Mul = char_token CHR ''*''"
| "op_token Div = char_token CHR ''/''"
| "op_token Eq = \<lparr>tk_type = TK_EQ, tk_str = ''==''\<rparr>"

definition deref_token :: token where
  "deref_token = \<lparr>tk_type = TK_DEREF, tk_str = ''*''\<rparr>"

fun toks :: "aexp \<Rightarrow> token list" where
  "toks (Leaf t) = [t]"
| "toks (Group e) = char_token CHR ''('' # toks e @ [char_token CHR '')'']"
| "toks (Binary b e1 e2) = toks e1 @ op_token b # toks e2"
| "toks (Deref e) = deref_token # toks e"

fun op_strength :: "binop \<Rightarrow> nat" where
  "op_strength Eq = 1"
| "op_strength Add = 2"
| "op_strength Sub = 2"
| "op_strength Mul = 3"
| "op_strength Div = 3"

fun strength :: "aexp \<Rightarrow> nat" where
  "strength (Leaf t) = (if tk_type t = TK_REG then 5 else 7)"
| "strength (Group e) = 7"
| "strength (Binary b e1 e2) = op_strength b"
| "strength (Deref e) = 6"

fun well_formed :: "aexp \<Rightarrow> bool" where
  "well_formed (Leaf t) \<longleftrightarrow>
     tk_type t \<in> {TK_NUM, TK_HEX, TK_REG} \<and> str0 t \<noteq> CHR ''('' \<and> str0 t \<noteq> CHR '')''"
| "well_formed (Group e) \<longleftrightarrow> well_formed e"
| "well_formed (Binary b e1 e2) \<longleftrightarrow> well_formed e1 \<and> well_formed e2 \<and>
     (if b = Eq then 1 < strength e1 else op_strength b \<le> strength e1 \<and> op_strength b < strength e2)"
| "well_formed (Deref e) \<longleftrightarrow> well_formed e \<and> strength e = 7"

text \<open>Their values, in 64 bits.\<close>

fun meaning :: "binop \<Rightarrow> u64 \<Rightarrow> u64 \<Rightarrow> u64 res" where
  "meaning Add x y = Inr (x + y)"
| "meaning Sub x y = Inr (x - y)"
| "meaning Mul x y = Inr (x * y)"
| "meaning Div x y = (if y = 0 then Inl Division_by_zero else Inr (x div y))"
| "meaning Eq x y = Inr (if x = y then 1 else 0)"

fun aval :: "debuggee \<Rightarrow> aexp \<Rightarrow> u64 res" where
  "aval d (Leaf t) = eval_token d t"
| "aval d (Group e) = aval d e"
| "aval d (Binary b e1 e2) = rbind (aval d e1) (\<lambda>x. rbind (aval d e2) (meaning b x))"
| "aval d (Deref e) = rbind (aval d e) (\<lambda>a. rbind (sim_paddr_read (db_mem d) (ucast a) 4) (\<lambda>v. Inr (ucast v)))"

section \<open>Scanning the tokens of an expression\<close>

lemma token_simps [simp]:
  "str0 (char_token c) = c" "tk_type (char_token c) = TK_char c"
  "str0 deref_token = CHR ''*''" "tk_type deref_token = TK_DEREF"
  by (simp_all add: str0_def char_token_def deref_token_def)

lemma str0_op [simp]: "str0 (op_token b) \<noteq> CHR ''(''" "str0 (op_token b) \<noteq> CHR '')''"
  by (cases b; simp add: str0_def char_token_def)+

lemma toks_ne [simp]: "toks e \<noteq> []"
  by (cases e) simp_all

lemma op_strength_bounds: "0 < op_strength b" "op_strength b < 100" "b \<noteq> Eq \<Longrightarrow> Suc 0 < op_strength b"
  by (cases b; simp)+

lemma strength_pos: "0 < strength e"
  by (cases e) (simp_all add: op_strength_bounds)

lemma op_scan_append: "op_scan i (xs @ ys) s = op_scan (i + int (length xs)) ys (op_scan i xs s)"
  by (induction xs arbitrary: i s) (simp_all add: ac_simps)

lemma op_search_parens [simp]: "s\<lparr>parentnum := n, parentnum := parentnum s\<rparr> = s"
  by (cases s) simp

lemma op_scan_inside:
  "well_formed e \<Longrightarrow> parentnum s \<noteq> 0 \<Longrightarrow> op_scan i (toks e) s = s"
proof (induction e arbitrary: i s)
  case (Group e)
  then show ?case by (cases s) (simp add: op_scan_append op_step_def)
qed (auto simp: op_scan_append op_step_def)

lemma op_scan_group:
  "well_formed e \<Longrightarrow> op_scan i (toks (Group e)) s = s"
  by (cases s) (simp add: op_scan_append op_step_def op_scan_inside)

lemma op_step_op:
  assumes "parentnum s = 0"
  shows "op_step i (op_token b) s =
    take_op i (tk_type (op_token b)) (op_strength b) (if b = Eq then 1 < prio s else op_strength b \<le> prio s) s"
  using assms by (cases b) (simp_all add: op_step_def str0_def char_token_def)

lemma op_scan_stronger:
  "well_formed e \<Longrightarrow> parentnum s = 0 \<Longrightarrow> prio s < strength e \<or> prio s = 1 \<Longrightarrow> op_scan i (toks e) s = s"
proof (induction e arbitrary: i)
  case (Leaf t)
  then show ?case by (auto simp: op_step_def take_op_def split: if_splits)
next
  case (Group e)
  then show ?case using op_scan_group by simp
next
  case (Binary b e1 e2)
  have "prio s < strength e1 \<or> prio s = 1" "prio s < strength e2 \<or> prio s = 1"
    using Binary.prems strength_pos [of e1] strength_pos [of e2] by (auto split: if_splits)
  moreover have "\<not> (if b = Eq then 1 < prio s else op_strength b \<le> prio s)"
    using Binary.prems(3) op_strength_bounds(3) [of b] by auto
  ultimately show ?case using Binary by (simp add: op_scan_append op_step_op take_op_def)
next
  case (Deref e)
  then show ?case by (auto simp: op_step_def take_op_def)
qed

lemma op_scan_prio:
  "well_formed e \<Longrightarrow> parentnum s = 0 \<Longrightarrow>
     parentnum (op_scan i (toks e) s) = 0 \<and> min (prio s) (strength e) \<le> prio (op_scan i (toks e) s)"
proof (induction e arbitrary: i s)
  case (Leaf t)
  then show ?case by (auto simp: op_step_def take_op_def split: if_splits)
next
  case (Group e)
  then show ?case using op_scan_group by simp
next
  case (Binary b e1 e2)
  let ?s1 = "op_scan i (toks e1) s"
  let ?s2 = "op_step (i + int (length (toks e1))) (op_token b) ?s1"
  have s1: "parentnum ?s1 = 0" "min (prio s) (strength e1) \<le> prio ?s1"
    using Binary.IH(1) [of s i] Binary.prems by simp_all
  then have s2: "parentnum ?s2 = 0" "min (prio ?s1) (op_strength b) \<le> prio ?s2"
    by (auto simp: op_step_op take_op_def)
  have "op_strength b \<le> strength e1" "op_strength b \<le> strength e2"
    using Binary.prems strength_pos [of e2] by (auto split: if_splits)
  moreover have "parentnum (op_scan i (toks (Binary b e1 e2)) s) = 0 \<and>
      min (prio ?s2) (strength e2) \<le> prio (op_scan i (toks (Binary b e1 e2)) s)"
    using Binary.IH(2) [of ?s2 "i + int (length (toks e1)) + 1"] Binary.prems s2(1)
    by (simp add: op_scan_append)
  ultimately show ?case using s1(2) s2(2) unfolding min_le_iff_disj strength.simps by linarith
next
  case (Deref e)
  have "op_step i deref_token s = take_op i TK_DEREF 6 (6 \<le> prio s) s"
    using Deref.prems by (simp add: op_step_def)
  moreover have "parentnum (op_step i deref_token s) = 0" using Deref.prems calculation by (simp add: take_op_def)
  ultimately show ?case using Deref.IH [of "op_step i deref_token s" "i + 1"] Deref.prems
    by (auto simp: take_op_def split: if_splits)
qed

lemma op_scan_binary:
  assumes "well_formed (Binary b e1 e2)"
  shows "op (op_scan i (toks (Binary b e1 e2)) op_start) = i + int (length (toks e1)) \<and>
    optype (op_scan i (toks (Binary b e1 e2)) op_start) = Some (tk_type (op_token b))"
proof -
  let ?s = "op_scan i (toks e1) op_start" and ?j = "i + int (length (toks e1))"
  have s: "parentnum ?s = 0" "min 100 (strength e1) \<le> prio ?s"
    using op_scan_prio [of e1 op_start i] assms by (simp_all add: op_start_def)
  then have "op_step ?j (op_token b) ?s =
      ?s\<lparr>op := ?j, optype := Some (tk_type (op_token b)), prio := op_strength b\<rparr>"
    using assms op_strength_bounds(2) [of b] by (auto simp: op_step_op take_op_def split: if_splits)
  then show ?thesis
    using assms s(1) op_scan_stronger [of e2]
    by (auto simp: op_scan_append split: if_splits)
qed

lemma op_scan_deref:
  assumes "well_formed (Deref e)"
  shows "op (op_scan i (toks (Deref e)) op_start) = i \<and> optype (op_scan i (toks (Deref e)) op_start) = Some TK_DEREF"
  using assms op_scan_stronger [of e] by (simp add: op_step_def take_op_def op_start_def)

lemma paren_scan_inside:
  "well_formed e \<Longrightarrow> 1 \<le> f \<Longrightarrow> paren_scan f (toks e @ r) = paren_scan f r"
  by (induction e arbitrary: f r) auto

lemma paren_scan_first:
  "well_formed e \<Longrightarrow> str0 (hd (toks e)) = CHR ''('' \<Longrightarrow> paren_scan 1 (tl (toks e) @ r) = None"
  by (induction e arbitrary: r) (auto simp: paren_scan_inside hd_append)

section \<open>The evaluator on an expression\<close>

definition window :: "(nat \<Rightarrow> token) \<Rightarrow> nat \<Rightarrow> token list \<Rightarrow> bool" where
  "window tk i ts \<longleftrightarrow> map tk [i..<i + length ts] = ts"

lemma window_simps [simp]:
  "window tk i []"
  "window tk i (t # ts) \<longleftrightarrow> tk i = t \<and> window tk (Suc i) ts"
  by (simp_all add: window_def upt_conv_Cons del: upt_Suc)

lemma window_append [simp]:
  "window tk i (xs @ ys) \<longleftrightarrow> window tk i xs \<and> window tk (i + length xs) ys"
  by (induction xs arbitrary: i) simp_all

lemma window_map: "window tk i ts \<Longrightarrow> n = length ts \<Longrightarrow> map tk [i..<i + n] = ts"
  by (simp add: window_def)

lemma window_ends:
  assumes "window tk i ts" and "ts \<noteq> []"
  shows "tk i = hd ts" and "tk (i + length ts - 1) = last ts"
    and "map tk [Suc i..<i + length ts - 1] = butlast (tl ts)"
proof -
  obtain n where n: "length ts = Suc n" using assms(2) by (cases ts) auto
  have t: "ts = map tk [i..<i + Suc n]" using assms(1) n by (simp add: window_def)
  show "tk i = hd ts" by (subst t) (simp add: hd_map del: upt_Suc)
  show "tk (i + length ts - 1) = last ts" by (subst (2) t) (simp add: n last_map)
  show "map tk [Suc i..<i + length ts - 1] = butlast (tl ts)"
    by (subst (2) t) (rule nth_equalityI, simp_all add: n nth_butlast nth_tl del: upt_Suc)
qed

lemma check_outer:
  assumes "window tk i (toks e)" and "well_formed e"
  shows "check_parentheses tk (int i) (int (i + length (toks e)) - 1) =
    Inr (\<exists>e'. e = Group e')"
proof -
  have q: "nat (int (i + length (toks e)) - 1) = i + length (toks e) - 1" by simp
  note ends = window_ends [OF assms(1) toks_ne]
  have inner: "map tk [nat (int i + 1)..<i + length (toks e) - 1] = butlast (tl (toks e))"
    using ends(3) by (simp add: nat_add_distrib)
  show ?thesis
  proof (cases e)
    case (Group e')
    then have "paren_scan 1 (butlast (tl (toks e))) = Some 1"
      using paren_scan_inside [of e' 1 "[]"] assms(2) by simp
    then show ?thesis using Group ends(1,2) unfolding check_parentheses_def q inner by simp
  next
    case (Leaf t)
    then show ?thesis using assms by (simp add: check_parentheses_def)
  next
    case (Deref e')
    then show ?thesis using assms(1) by (simp add: check_parentheses_def)
  next
    case (Binary b e1 e2)
    have "paren_scan 1 (butlast (tl (toks e))) = None" if "str0 (hd (toks e)) = CHR ''(''"
      using that Binary assms(2) paren_scan_first [of e1 "butlast (op_token b # toks e2)"]
      by (simp add: butlast_append)
    then show ?thesis using Binary ends(1) unfolding check_parentheses_def q inner by simp
  qed
qed

lemma eval_toks:
  assumes "well_formed e" and "window tk i (toks e)"
  shows "eval d tk (int i) (int (i + length (toks e)) - 1) = Some (aval d e)"
  using assms
proof (induction e arbitrary: i)
  case (Leaf t)
  then show ?case by (simp add: eval.simps)
next
  case (Group e)
  let ?q = "int (i + length (toks (Group e))) - 1"
  have "eval d tk (int i) ?q = eval d tk (int i + 1) (?q - 1)"
    using check_outer [OF Group.prems(2,1)] by (subst eval.simps) simp
  also have "\<dots> = eval d tk (int (Suc i)) (int (Suc i + length (toks e)) - 1)" by (simp add: ac_simps)
  also have "\<dots> = Some (aval d e)" using Group.IH [of "Suc i"] Group.prems by (simp only: toks.simps well_formed.simps window_simps window_append)
  finally show ?case by simp
next
  case (Binary b e1 e2)
  let ?e = "Binary b e1 e2" and ?k = "i + length (toks e1)"
  let ?q = "int (i + length (toks ?e)) - 1" and ?s = "op_scan (int i) (toks ?e) op_start"
  have all: "map tk [nat (int i)..<nat (?q + 1)] = toks ?e"
    using window_map [OF Binary.prems(2) refl] by (simp add: nat_add_distrib)
  have s: "op ?s = int ?k" "optype ?s = Some (tk_type (op_token b))"
    using op_scan_binary [OF Binary.prems(1), of "int i"] by simp_all
  have "int i < ?q" by (cases "toks e1") simp_all
  moreover have "eval d tk (int i) (op ?s - 1) = Some (aval d e1)"
    unfolding s(1) using Binary.IH(1) [of i] Binary.prems by (simp split: if_splits)
  moreover have "eval d tk (op ?s + 1) ?q = Some (aval d e2)"
    unfolding s(1) using Binary.IH(2) [of "Suc ?k"] Binary.prems by (simp add: ac_simps)
  moreover have "apply_op d (Some (tk_type (op_token b))) = meaning b"
    by (cases b) (auto simp: apply_op_def rassert_def fun_eq_iff char_token_def)
  ultimately show ?case
    using check_outer [OF Binary.prems(2,1)]
    by (subst eval.simps) (simp only: all s Let_def, simp split: sum.split)
next
  case (Deref e)
  let ?e = "Deref e"
  let ?q = "int (i + length (toks ?e)) - 1" and ?s = "op_scan (int i) (toks ?e) op_start"
  have all: "map tk [nat (int i)..<nat (?q + 1)] = toks ?e"
    using window_map [OF Deref.prems(2) refl] by (simp add: nat_add_distrib)
  have s: "op ?s = int i" "optype ?s = Some TK_DEREF"
    using op_scan_deref [OF Deref.prems(1), of "int i"] by simp_all
  have "int i < ?q" by (cases "toks e") simp_all
  moreover have "eval d tk (int i) (op ?s - 1) = Some (Inr 0)" unfolding s(1) by (simp add: eval.simps)
  moreover have "eval d tk (op ?s + 1) ?q = Some (aval d e)"
    unfolding s(1) using Deref.IH [of "Suc i"] Deref.prems by (simp add: ac_simps)
  moreover have "apply_op d (Some TK_DEREF) 0 =
      (\<lambda>a. rbind (sim_paddr_read (db_mem d) (ucast a) 4) (\<lambda>v. Inr (ucast v)))"
    by (simp add: apply_op_def fun_eq_iff)
  ultimately show ?case
    using check_outer [OF Deref.prems(2,1)]
    by (subst eval.simps) (simp only: all s Let_def, simp split: sum.split)
qed

end
