(* ===== verification/Sim_Lex.thy ===== *)
theory Sim_Lex
  imports Sim_Eval
begin

text \<open>
  The tokeniser of the debugger reads back a printed expression, the marking of dereferences, and
  what both together make of the evaluator: which texts it computes, and which it does not.
\<close>

section \<open>The tokeniser on a printed expression\<close>

text \<open>The texts of the tokens, as the rules recognise them, with a space after each.\<close>

definition lexeme :: "token \<Rightarrow> bool" where
  "lexeme t \<longleftrightarrow> (case tk_type t of
      TK_NUM \<Rightarrow> tk_str t \<noteq> [] \<and> set (tk_str t) \<subseteq> set digit_chars
    | TK_HEX \<Rightarrow> take 2 (tk_str t) = ''0x'' \<and> 2 < length (tk_str t) \<and> set (drop 2 (tk_str t)) \<subseteq> set hex_chars
    | TK_REG \<Rightarrow> tk_str t \<in> set (''pc'' # regs)
    | TK_EQ \<Rightarrow> tk_str t = ''==''
    | TK_char c \<Rightarrow> c \<in> set ''+-*/()'' \<and> tk_str t = [c]
    | _ \<Rightarrow> False)"

definition render :: "token list \<Rightarrow> string" where
  "render ts = concat (map (\<lambda>t. tk_str t @ '' '') ts)"

lemma takeWhile_run: "\<forall>c \<in> set xs. P c \<Longrightarrow> \<not> P y \<Longrightarrow> takeWhile P (xs @ y # ys) = xs"
  by (induction xs) simp_all

lemma match_at_Some:
  "match_at r s = Some k \<longleftrightarrow> k \<in> set (prefix_lengths r s) \<and> (\<forall>j \<in> set (prefix_lengths r s). j \<le> k)"
proof (cases "prefix_lengths r s")
  case (Cons j js)
  then have "match_at r s = Some (Max (set (j # js)))" by (simp only: match_at_def list.case Max.set_eq_fold)
  then show ?thesis using Cons Max_in [of "set (j # js)"] Max_ge [of "set (j # js)"]
    by (metis List.finite_set empty_iff list.set_intros(1) option.inject order_antisym)
qed (simp add: match_at_def)

lemma match_at_None: "match_at r s = None \<longleftrightarrow> prefix_lengths r s = []"
  by (simp add: match_at_def split: list.split)

text \<open>A regular expression only matches where one of its first characters stands.\<close>

fun first_chars :: "regex \<Rightarrow> string" where
  "first_chars (Chars cs) = cs"
| "first_chars (Repeat cs) = cs"
| "first_chars (Then r1 r2) = first_chars r1"
| "first_chars (Else r1 r2) = first_chars r1 @ first_chars r2"

lemma match_first_chars: "c \<notin> set (first_chars r) \<Longrightarrow> match_at r (c # s) = None"
  unfolding match_at_None by (induction r arbitrary: s) auto

lemma first_rule_skip:
  "c \<notin> set (first_chars r) \<Longrightarrow> first_rule ((r, ty) # rs) (c # s) = first_rule rs (c # s)"
  by (simp add: match_first_chars)

lemma match_repeat:
  assumes "takeWhile (\<lambda>c. c \<in> set cs) s = xs" and "xs \<noteq> []"
  shows "match_at (Repeat cs) s = Some (length xs)"
  using assms by (cases xs) (auto simp: match_at_Some simp del: upt_Suc)

lemma match_chars:
  "match_at (Chars cs) (c # s) = (if c \<in> set cs then Some 1 else None)"
  by (simp add: match_at_def)

lemma first_rule_space: "case s of [] \<Rightarrow> True | c # _ \<Rightarrow> c \<noteq> CHR '' '' \<Longrightarrow>
    first_rule rules (CHR '' '' # s) = Some (TK_NOTYPE, 1)"
proof -
  assume "case s of [] \<Rightarrow> True | c # _ \<Rightarrow> c \<noteq> CHR '' ''"
  then have "takeWhile (\<lambda>c. c \<in> set '' '') (CHR '' '' # s) = '' ''" by (cases s) simp_all
  from match_repeat [OF this] show ?thesis by (simp add: rules_def)
qed

lemma first_rule_char:
  "c \<in> set ''+-*/()'' \<Longrightarrow> first_rule rules (c # CHR '' '' # s) = Some (TK_char c, 1)"
  by (auto simp: rules_def match_first_chars match_chars)

lemma first_rule_eq: "first_rule rules (''==''  @ CHR '' '' # s) = Some (TK_EQ, 2)"
proof -
  have "match_at (literal ''=='') (CHR ''='' # CHR ''='' # CHR '' '' # s) = Some 2" by (simp add: match_at_def)
  then show ?thesis by (simp add: rules_def match_first_chars)
qed

text \<open>The last two rules recognise the names of the registers.\<close>

abbreviation plain_names :: regex where
  "plain_names \<equiv> Else (literal ''$0'') (Else (literal ''ra'') (Else (literal ''sp'') (Else (literal ''gp'')
     (Else (literal ''tp'') (literal ''pc'')))))"

abbreviation numbered_names :: regex where
  "numbered_names \<equiv> Else (Then (literal ''t'') (Chars ''0123456'')) (Else (Then (literal ''s'') (Chars digit_chars))
     (Else (Then (literal ''s1'') (Chars ''0,1'')) (Then (literal ''a'') (Chars ''01234567''))))"

definition plain :: "string set" where
  "plain = {''$0'', ''ra'', ''sp'', ''gp'', ''tp'', ''pc''}"

lemma match_plain:
  "r \<in> plain \<Longrightarrow> match_at plain_names (r @ CHR '' '' # s) = Some (length r)"
  by (auto simp: match_at_def plain_def)

lemma match_numbered:
  "r \<in> set regs - plain \<Longrightarrow> match_at plain_names (r @ CHR '' '' # s) = None \<and>
     match_at numbered_names (r @ CHR '' '' # s) = Some (length r)"
  by (auto simp: match_at_def regs_def plain_def digit_chars_def)

lemma first_rule_letter:
  "c \<in> set ''$rsgtpa'' \<Longrightarrow>
     first_rule rules (c # s) = first_rule [(plain_names, TK_REG), (numbered_names, TK_REG)] (c # s)"
  by (auto simp: rules_def match_first_chars digit_chars_def)

lemma first_rule_reg:
  assumes "r \<in> set (''pc'' # regs)"
  shows "first_rule rules (r @ CHR '' '' # s) = Some (TK_REG, length r)"
proof -
  have "\<forall>r \<in> set (''pc'' # regs). hd r \<in> set ''$rsgtpa'' \<and> r \<noteq> []" by (simp add: regs_def)
  then obtain c cs where r: "r = c # cs" "c \<in> set ''$rsgtpa''" using assms by (cases r) fastforce+
  show ?thesis
  proof (cases "r \<in> plain")
    case True
    from match_plain [OF this, of s] show ?thesis using r(1)
      by (simp only: append_Cons first_rule_letter [OF r(2)] first_rule.simps option.case)
  next
    case False
    then have "r \<in> set regs - plain" using assms by (auto simp: plain_def)
    from match_numbered [OF this, of s] show ?thesis using r(1)
      by (simp only: append_Cons first_rule_letter [OF r(2)] first_rule.simps option.case)
  qed
qed

lemma digit_starts: "c \<in> set digit_chars \<Longrightarrow> c \<noteq> CHR ''x''"
    "c \<in> set digit_chars \<Longrightarrow> c \<notin> set '' +=-*/()''"
  by (auto simp: digit_chars_def)

lemma space_ends: "CHR '' '' \<notin> set digit_chars" "CHR '' '' \<notin> set hex_chars"
  by (simp_all add: hex_chars_def digit_chars_def)

lemma match_run:
  assumes "ds \<noteq> []" and "set ds \<subseteq> set cs" and "CHR '' '' \<notin> set cs"
  shows "match_at (Repeat cs) (ds @ CHR '' '' # s) = Some (length ds)"
  using assms by (intro match_repeat takeWhile_run) auto

lemma first_rule_digit:
  assumes "c \<in> set digit_chars"
  shows "first_rule rules (c # s) = first_rule (drop 8 rules) (c # s)"
  using digit_starts(2) [OF assms] unfolding rules_def drop_Cons'
  by (simp add: match_first_chars del: prefix_lengths.simps)

lemma first_rule_num:
  assumes "ds \<noteq> []" and "set ds \<subseteq> set digit_chars"
  shows "first_rule rules (ds @ CHR '' '' # s) = Some (TK_NUM, length ds)"
proof -
  obtain c cs where ds: "ds = c # cs" using assms(1) by (cases ds) auto
  have c: "c \<in> set digit_chars" "set cs \<subseteq> set digit_chars" using assms(2) ds by auto
  have num: "match_at (Repeat digit_chars) (ds @ CHR '' '' # s) = Some (length ds)"
    using assms space_ends by (intro match_run)
  have x: "case cs @ CHR '' '' # s of [] \<Rightarrow> True | d # _ \<Rightarrow> d \<noteq> CHR ''x''"
    using c(2) digit_starts(1) by (cases cs) auto
  have hex: "match_at (Then (literal ''0x'') (Repeat hex_chars)) (ds @ CHR '' '' # s) = None"
    using x by (cases cs) (auto simp: match_at_None ds)
  have "drop 8 rules = (Then (literal ''0x'') (Repeat hex_chars), TK_HEX) # (Repeat digit_chars, TK_NUM) # drop 10 rules"
    by (simp add: rules_def)
  then show ?thesis
    using num hex first_rule_digit [OF c(1), of "cs @ CHR '' '' # s"]
    by (simp only: ds append_Cons first_rule.simps option.case)
qed

lemma first_rule_hex:
  assumes "hs \<noteq> []" and "set hs \<subseteq> set hex_chars"
  shows "first_rule rules (''0x'' @ hs @ CHR '' '' # s) = Some (TK_HEX, length hs + 2)"
proof -
  have "takeWhile (\<lambda>c. c \<in> set hex_chars) (hs @ CHR '' '' # s) = hs"
    using assms space_ends(2) by (intro takeWhile_run) auto
  then have hex: "match_at (Then (literal ''0x'') (Repeat hex_chars)) (CHR ''0'' # CHR ''x'' # hs @ CHR '' '' # s) = Some (length hs + 2)"
    using assms(1) by (cases hs) (auto simp: match_at_Some simp del: upt_Suc)
  have "drop 8 rules = (Then (literal ''0x'') (Repeat hex_chars), TK_HEX) # drop 9 rules"
    by (simp add: rules_def)
  moreover have "CHR ''0'' \<in> set digit_chars" by (simp add: digit_chars_def)
  ultimately show ?thesis
    using hex first_rule_digit [of "CHR ''0''" "CHR ''x'' # hs @ CHR '' '' # s"]
    by (simp only: append_Cons append_Nil first_rule.simps option.case)
qed

lemma first_rule_lexeme:
  assumes "lexeme t"
  shows "first_rule rules (tk_str t @ CHR '' '' # s) = Some (tk_type t, length (tk_str t))"
proof (cases "tk_type t")
  case TK_HEX
  then have hs: "tk_str t = ''0x'' @ drop 2 (tk_str t)" "drop 2 (tk_str t) \<noteq> []"
      "set (drop 2 (tk_str t)) \<subseteq> set hex_chars"
    using assms append_take_drop_id [of 2 "tk_str t"] by (auto simp: lexeme_def)
  have "length (tk_str t) = length (drop 2 (tk_str t)) + 2" by (subst hs(1)) simp
  then show ?thesis using first_rule_hex [OF hs(2,3), of s] hs(1) TK_HEX by (metis append.assoc)
next
  case TK_NUM
  then show ?thesis using assms first_rule_num by (simp add: lexeme_def)
next
  case TK_REG
  then show ?thesis using assms first_rule_reg unfolding lexeme_def by simp
next
  case TK_EQ
  then show ?thesis using assms first_rule_eq [of s] by (simp add: lexeme_def)
next
  case (TK_char c)
  then show ?thesis using assms first_rule_char [of c s] by (simp add: lexeme_def)
qed (use assms in \<open>simp_all add: lexeme_def\<close>)

section \<open>Reading a printed expression\<close>

lemma render_simps [simp]:
  "render [] = []"
  "render (t # ts) = tk_str t @ CHR '' '' # render ts"
  by (simp_all add: render_def)

lemma lexeme_starts:
  assumes "lexeme t"
  shows "\<exists>c cs. tk_str t = c # cs \<and> c \<noteq> CHR '' ''"
proof (cases "tk_str t")
  case Nil
  then show ?thesis using assms by (auto simp: lexeme_def regs_def split: token_type.splits)
next
  case (Cons c cs)
  moreover have "c \<noteq> CHR '' ''"
  proof (cases "tk_type t")
    case TK_REG
    then show ?thesis using assms Cons by (auto simp: lexeme_def regs_def)
  next
    case TK_HEX
    then show ?thesis using assms Cons by (simp add: lexeme_def numeral_2_eq_2)
  qed (use assms Cons space_ends in \<open>auto simp: lexeme_def\<close>)
  ultimately show ?thesis by blast
qed

lemma render_starts: "\<forall>t \<in> set ts. lexeme t \<Longrightarrow> case render ts of [] \<Rightarrow> True | c # _ \<Rightarrow> c \<noteq> CHR '' ''"
  using lexeme_starts by (cases ts) fastforce+

lemma lexeme_kept: "lexeme t \<Longrightarrow> tk_type t \<noteq> TK_NOTYPE"
  by (auto simp: lexeme_def)

lemma make_token_render:
  assumes "\<forall>t \<in> set ts. lexeme t \<and> length (tk_str t) \<le> 32" and "nr_token x + length ts \<le> 32"
  shows "\<exists>x'. make_token_from (render ts) x = Inr (True, x') \<and> nr_token x' = nr_token x + length ts \<and>
    window (tokens x') (nr_token x) ts \<and> (\<forall>k < nr_token x. tokens x' k = tokens x k)"
  using assms
proof (induction ts arbitrary: x)
  case Nil
  then show ?case by (simp add: make_token_from.simps)
next
  case (Cons t ts)
  let ?x = "x\<lparr>tokens := (tokens x)(nr_token x := t), nr_token := nr_token x + 1\<rparr>"
  have t: "lexeme t" "length (tk_str t) \<le> 32" using Cons.prems by auto
  obtain c cs where c: "tk_str t = c # cs" using lexeme_starts [OF t(1)] by blast
  have spaces: "make_token_from (CHR '' '' # render ts) ?x = make_token_from (render ts) ?x"
    using first_rule_space [OF render_starts, of ts] Cons.prems
    by (subst make_token_from.simps) (simp add: store_token_def)
  have "store_token (tk_type t) (tk_str t) x = Inr ?x"
    using Cons.prems t lexeme_kept [OF t(1)] by (cases t) (simp add: store_token_def)
  then have "make_token_from (render (t # ts)) x = make_token_from (CHR '' '' # render ts) ?x"
    using first_rule_lexeme [OF t(1), of "render ts"] c
    by (subst make_token_from.simps) simp
  moreover obtain x' where x': "make_token_from (render ts) ?x = Inr (True, x')"
      "nr_token x' = nr_token ?x + length ts" "window (tokens x') (nr_token ?x) ts"
      "\<forall>k < nr_token ?x. tokens x' k = tokens ?x k"
    using Cons.IH [of ?x] Cons.prems by auto
  ultimately show ?case using spaces by (intro exI [of _ x']) simp
qed

text \<open>A dereference is written as a star; the stars that \<open>expr\<close> takes for dereferences.\<close>

definition raw :: "token \<Rightarrow> token" where
  "raw t = (if tk_type t = TK_DEREF then t\<lparr>tk_type := TK_char CHR ''*''\<rparr> else t)"

definition readable :: "token list \<Rightarrow> bool" where
  "readable ts \<longleftrightarrow> length ts \<le> 32 \<and> (\<forall>t \<in> set ts. lexeme (raw t) \<and> length (tk_str t) \<le> 32) \<and>
     (\<forall>i \<in> set [0..<length ts]. tk_type (raw (ts ! i)) = TK_char CHR ''*'' \<longrightarrow>
        (i = 0 \<or> i + 1 < length ts) \<and>
        (tk_type (ts ! i) = TK_DEREF \<longleftrightarrow> i = 0 \<or> tk_type (ts ! (i + 1)) = TK_HEX))"

lemma raw_raw: "tk_type (raw t) = TK_HEX \<longleftrightarrow> tk_type t = TK_HEX" "tk_str (raw t) = tk_str t"
  by (simp_all add: raw_def)

lemma mark_all:
  assumes "readable ts" and "\<forall>i < length ts. tokens x i = raw (ts ! i)" and "k \<le> length ts"
  shows "rfold mark_deref [0..<k] x = Inr (x\<lparr>tokens := (\<lambda>i. if i < k then ts ! i else tokens x i)\<rparr>)"
  using assms(3)
proof (induction k)
  case (Suc k)
  let ?x = "x\<lparr>tokens := (\<lambda>i. if i < k then ts ! i else tokens x i)\<rparr>"
  let ?y = "x\<lparr>tokens := (\<lambda>i. if i < Suc k then ts ! i else tokens x i)\<rparr>"
  have k: "k < length ts" "tokens x k = raw (ts ! k)" using Suc.prems assms(2) by auto
  have len: "length ts \<le> 32" using assms(1) by (simp add: readable_def)
  have rd: "tk_type (raw (ts ! k)) = TK_char CHR ''*'' \<Longrightarrow> (k = 0 \<or> k + 1 < length ts) \<and>
      (tk_type (ts ! k) = TK_DEREF \<longleftrightarrow> k = 0 \<or> tk_type (ts ! (k + 1)) = TK_HEX)"
    using assms(1) k(1) by (simp add: readable_def)
  have upd: "(\<lambda>i. if i < k then ts ! i else tokens x i)(k := ts ! k) = (\<lambda>i. if i < Suc k then ts ! i else tokens x i)"
    by (auto simp: fun_eq_iff less_Suc_eq)
  have same: "(\<lambda>i. if i < k then ts ! i else tokens x i) = (\<lambda>i. if i < Suc k then ts ! i else tokens x i)"
    if "tokens x k = ts ! k" using that by (auto simp: fun_eq_iff less_Suc_eq)
  have "mark_deref k ?x = Inr ?y"
  proof (cases "tk_type (raw (ts ! k)) = TK_char CHR ''*''")
    case False
    then have "tokens x k = ts ! k" using k(2) by (auto simp: raw_def split: if_splits)
    then show ?thesis using False k(2) same by (simp add: mark_deref_def)
  next
    case True
    have room: "k = 0 \<or> k + 1 < 32" using rd [OF True] len by auto
    have hex: "tk_type (tokens x (Suc k)) = TK_HEX \<longleftrightarrow> tk_type (ts ! Suc k) = TK_HEX" if "k \<noteq> 0"
      using rd [OF True] that assms(2) by (simp add: raw_raw)
    show ?thesis
    proof (cases "tk_type (ts ! k) = TK_DEREF")
      case True
      then have "k = 0 \<or> tk_type (tokens x (Suc k)) = TK_HEX" using rd hex \<open>tk_type (raw _) = _\<close> by auto
      moreover have "(tokens x k)\<lparr>tk_type := TK_DEREF\<rparr> = ts ! k"
        using True k(2) by (cases "ts ! k") (simp add: raw_def)
      ultimately show ?thesis using room \<open>tk_type (raw _) = _\<close> k(2) upd
        by (auto simp: mark_deref_def rassert_def)
    next
      case False
      then have "k \<noteq> 0" "tk_type (tokens x (Suc k)) \<noteq> TK_HEX" using rd hex \<open>tk_type (raw _) = _\<close> by auto
      moreover have "tokens x k = ts ! k" using False k(2) by (simp add: raw_def)
      ultimately show ?thesis using room same by (simp add: mark_deref_def rassert_def)
    qed
  qed
  then show ?case using Suc by (simp add: rfold_append)
qed simp

lemma expr_render:
  assumes "readable ts"
  shows "\<exists>x'. expr d (render (map raw ts)) x = Option.bind (eval d (tokens x') 0 (int (length ts) - 1)) (\<lambda>v.
      Some (rbind v (\<lambda>v. Inr (Some (ucast v), x')))) \<and> window (tokens x') 0 ts"
proof -
  have "\<forall>t \<in> set (map raw ts). lexeme t \<and> length (tk_str t) \<le> 32" "length (map raw ts) \<le> 32"
    using assms by (auto simp: readable_def raw_raw)
  then obtain y where y: "make_token (render (map raw ts)) x = Inr (True, y)" "nr_token y = length ts"
      "window (tokens y) 0 (map raw ts)"
    using make_token_render [of "map raw ts" "x\<lparr>nr_token := 0\<rparr>"] by (auto simp: make_token_def)
  have "\<forall>i < length ts. tokens y i = raw (ts ! i)"
    using y(3) unfolding window_def by (metis add_0 diff_zero length_map length_upt nth_map nth_upt)
  from mark_all [OF assms this, of "length ts"]
  have m: "rfold mark_deref [0..<nr_token y] y = Inr (y\<lparr>tokens := (\<lambda>i. if i < length ts then ts ! i else tokens y i)\<rparr>)"
    by (simp add: y(2))
  have "window (\<lambda>i. if i < length ts then ts ! i else tokens y i) 0 ts"
    unfolding window_def by (rule nth_equalityI) simp_all
  then show ?thesis
    by (intro exI [of _ "y\<lparr>tokens := (\<lambda>i. if i < length ts then ts ! i else tokens y i)\<rparr>"])
      (simp add: expr_def y(1) m, simp add: y(2))
qed

lemma expr_run:
  assumes "well_formed e" and "readable (toks e)"
  shows "\<exists>x'. expr d (render (map raw (toks e))) x = Some (rbind (aval d e) (\<lambda>v. Inr (Some (ucast v), x')))"
  using expr_render [OF assms(2), of d x] eval_toks [OF assms(1), of _ 0 d] by auto


text \<open>C12: The debugger computes what an expression means: a well-formed expression whose stars can be
  told apart, printed with a space after each token, is read back and evaluated by the rules of its
  grammar, faults included, whatever the token array held before.\<close>

theorem expr_correct:
  assumes "well_formed e" and "readable (toks e)"
  shows "\<exists>x'. expr d (render (map raw (toks e))) x = Some (rbind (aval d e) (\<lambda>v. Inr (Some (ucast v), x')))"
  using assms by (rule expr_run)

lemma expr_correct_witness:
  "\<exists>x'. expr \<lparr>db_pc = 0, db_gpr = (\<lambda>i. of_nat i), db_mem = (\<lambda>_. 0)\<rparr> ''( 1 + sp ) * 3 == 9 '' no_tokens = Some (Inr (Some 1, x'))"
proof -
  let ?n = "\<lambda>s. Leaf \<lparr>tk_type = TK_NUM, tk_str = s\<rparr>"
  let ?e = "Binary Eq (Binary Mul (Group (Binary Add (?n ''1'') (Leaf \<lparr>tk_type = TK_REG, tk_str = ''sp''\<rparr>))) (?n ''3'')) (?n ''9'')"
  let ?d = "\<lparr>db_pc = 0, db_gpr = (\<lambda>i. of_nat i), db_mem = (\<lambda>_. 0)\<rparr>"
  have wf: "well_formed ?e" by (simp add: str0_def)
  have rd: "readable (toks ?e)" by code_simp
  have rn: "render (map raw (toks ?e)) = ''( 1 + sp ) * 3 == 9 ''" by code_simp
  have av: "aval ?d ?e = Inr 1"
    by (simp add: eval_token_def scan_dec_def hex_digit_def sim_reg_str2val_def regs_def)
  show ?thesis using expr_correct [OF wf rd, of ?d no_tokens] unfolding rn av by simp
qed

text \<open>Numbers alone never end, two of them fail: there is no operator to split at.\<close>

definition number_token :: "token \<Rightarrow> bool" where
  "number_token t \<longleftrightarrow> tk_type t \<in> {TK_NUM, TK_HEX} \<and> str0 t \<noteq> CHR ''('' \<and> str0 t \<noteq> CHR '')''"

lemma op_scan_numbers: "\<forall>t \<in> set ts. number_token t \<Longrightarrow> parentnum s = 0 \<Longrightarrow> op_scan i ts s = s"
  by (induction ts arbitrary: i) (auto simp: op_step_def number_token_def)

lemma op_scan_atom:
  "well_formed e \<Longrightarrow> strength e = 7 \<Longrightarrow> parentnum s = 0 \<Longrightarrow> op_scan i (toks e) s = s"
  by (cases e) (auto simp: op_step_def op_scan_group simp del: toks.simps(2) split: if_splits elim: op_strength.elims)

lemma numbers_split:
  assumes "\<forall>i \<le> nat q. number_token (tk i)" and "0 \<le> p" and "p < q"
  shows "check_parentheses tk p q = Inr False"
    and "op_scan p (map tk [nat p..<nat (q + 1)]) op_start = op_start"
proof -
  have "str0 (tk (nat p)) \<noteq> CHR ''(''" using assms by (simp add: number_token_def)
  then show "check_parentheses tk p q = Inr False" by (simp add: check_parentheses_def)
  have "\<forall>t \<in> set (map tk [nat p..<nat (q + 1)]). number_token t"
    using assms by (auto simp: nat_add_distrib)
  then show "op_scan p (map tk [nat p..<nat (q + 1)]) op_start = op_start"
    by (intro op_scan_numbers) (simp_all add: op_start_def)
qed

lemma eval_endless:
  "eval d tk p q = Some y \<Longrightarrow> (q < p \<longrightarrow> y = Inr 0) \<and>
     (p = 1 \<longrightarrow> 1 < q \<longrightarrow> (\<exists>i \<le> nat q. \<not> number_token (tk i)))"
proof (induction rule: eval.raw_induct [rotated, consumes 1, case_names step])
  case (step f d tk p q y)
  have "\<not> (p = 1 \<and> 1 < q \<and> (\<forall>i \<le> nat q. number_token (tk i)))"
  proof
    assume a: "p = 1 \<and> 1 < q \<and> (\<forall>i \<le> nat q. number_token (tk i))"
    then have nums: "\<forall>i \<le> nat q. number_token (tk i)" by blast
    have "Option.bind (f d tk 1 (- 1)) (case_sum (\<lambda>e. Some (Inl e)) (\<lambda>v.
        Option.bind (f d tk 1 q) (\<lambda>w. Some (rbind w (apply_op d None v))))) = Some y"
      using step(2) a numbers_split [OF nums, of p] by (simp add: Let_def op_start_def)
    then obtain v w where "f d tk 1 (- 1) = Some v" "v = Inr 0 \<longrightarrow> f d tk 1 q = Some w"
      by (cases "f d tk 1 (- 1)"; cases "f d tk 1 q") (auto split: sum.splits)
    then show False using step(1) [of d tk 1 "- 1"] step(1) [of d tk 1 q] a by auto
  qed
  then show ?case using step(2) by auto
qed



text \<open>A number, register or group times a hexadecimal number is not a product: the star is taken for
  a dereference, the left operand is evaluated and dropped, and the result is the word of memory at
  the address on the right.\<close>

lemma expr_star_hex:
  assumes "well_formed e" and "strength e = 7" and "well_formed (Leaf h)" and "tk_type h = TK_HEX"
    and "readable (toks e @ toks (Deref (Leaf h)))"
  shows "\<exists>x'. expr d (render (map raw (toks e) @ [op_token Mul, h])) x =
    Some (rbind (aval d e) (\<lambda>_. rbind (aval d (Deref (Leaf h))) (\<lambda>v. Inr (Some (ucast v), x'))))"
proof -
  let ?ts = "toks e @ toks (Deref (Leaf h))"
  let ?n = "length (toks e)"
  have mul: "raw deref_token = op_token Mul" "raw h = h"
    using assms(4) by (simp_all add: raw_def deref_token_def char_token_def)
  obtain x' where x': "expr d (render (map raw (toks e) @ [op_token Mul, h])) x =
      Option.bind (eval d (tokens x') 0 (int ?n + 1)) (\<lambda>v. Some (rbind v (\<lambda>v. Inr (Some (ucast v), x'))))"
      "window (tokens x') 0 ?ts"
    using expr_render [OF assms(5), of d x] by (fastforce simp: mul ac_simps)
  have first: "eval d (tokens x') 0 (int ?n - 1) = Some (aval d e)"
    using eval_toks [OF assms(1), of "tokens x'" 0 d] x'(2) by simp
  have second: "eval d (tokens x') (int ?n + 1) (int ?n + 1) = Some (aval d (Leaf h))"
    using eval_toks [OF assms(3), of "tokens x'" "Suc ?n" d] x'(2) by (simp add: ac_simps)
  have all: "map (tokens x') [nat 0..<nat (int ?n + 1 + 1)] = ?ts"
    using window_map [OF x'(2) refl] by (simp add: nat_add_distrib del: upt_Suc)
  have "op_scan 0 ?ts op_start = op_start\<lparr>op := int ?n, optype := Some TK_DEREF, prio := 6\<rparr>"
    using op_scan_atom [OF assms(1,2), of op_start 0] assms(3,4)
    by (simp add: op_scan_append op_step_def take_op_def op_start_def)
  moreover have "check_parentheses (tokens x') 0 (int ?n + 1) = Inr False"
    using assms(3) x'(2) by (simp add: check_parentheses_def nat_add_distrib)
  moreover have "apply_op d (Some TK_DEREF) v =
      (\<lambda>a. rbind (sim_paddr_read (db_mem d) (ucast a) 4) (\<lambda>v. Inr (ucast v)))" for v
    by (simp add: apply_op_def fun_eq_iff)
  ultimately have "eval d (tokens x') 0 (int ?n + 1) = Some (rbind (aval d e) (\<lambda>_. aval d (Deref (Leaf h))))"
    using first second
    by (subst eval.simps) (simp only: all Let_def, simp split: sum.split)
  then show ?thesis using x'(1) by (auto simp: rbind_assoc)
qed


lemma expr_star_hex_witness:
  "\<exists>x'. expr \<lparr>db_pc = 0, db_gpr = (\<lambda>_. 0), db_mem = (\<lambda>_. 7)\<rparr> ''2 * 0x80000000 '' no_tokens = Some (Inr (Some 0x07070707, x'))"
proof -
  let ?d = "\<lparr>db_pc = 0, db_gpr = (\<lambda>_. 0), db_mem = (\<lambda>_. 7)\<rparr>"
  let ?e = "Leaf \<lparr>tk_type = TK_NUM, tk_str = ''2''\<rparr>" and ?h = "\<lparr>tk_type = TK_HEX, tk_str = ''0x80000000''\<rparr>"
  have rd: "readable (toks ?e @ toks (Deref (Leaf ?h)))" by code_simp
  have rn: "render (map raw (toks ?e) @ [op_token Mul, ?h]) = ''2 * 0x80000000 ''" by code_simp
  have "load (\<lambda>_. 7) k 4 = replicate 4 (7 :: u8)" for k by (rule nth_equalityI) (simp_all add: nth_load)
  moreover have "word_of_bytes (replicate 4 (7 :: u8)) = (0x07070707 :: u32)" by code_simp
  ultimately have "sim_paddr_read (\<lambda>_. 7) 0x80000000 4 = Inr 0x07070707"
    using mem_host_ok(1) [of 4 "0x80000000" "\<lambda>_. 7"] by (simp add: sim_paddr_read_def sim_in_pmem_iff)
  then have av: "aval ?d (Deref (Leaf ?h)) = Inr 0x07070707" "aval ?d ?e = Inr 2"
    by (simp_all add: eval_token_def scan_dec_def scan_hex_def hex_digit_def)
  show ?thesis using expr_star_hex [OF _ _ _ _ rd, of ?d no_tokens] unfolding rn av by (simp add: str0_def)
qed

end
