(* ===== verification/Sim_Sdb.thy ===== *)
theory Sim_Sdb
  imports Sim_Lockstep Sim_Lex
begin

text \<open>
  The debugger of the simulator (\<open>simulator/sim/sdb/sdb.cpp\<close>) and \<open>main\<close> (\<open>main.cpp\<close>): the
  command table, the commands over the co-simulation, and the loop over the lines that
  \<open>readline\<close> returns. What is printed is a list of records of its content.
\<close>

section \<open>Words of a line\<close>

text \<open>
  \<open>strtok\<close> with the delimiter space: the next word, and what its static pointer is left at.
\<close>

definition strtok :: "string \<Rightarrow> string option \<times> string" where
  "strtok s = (let s = dropWhile (\<lambda>c. c = CHR '' '') s in
     if s = [] then (None, [])
     else (Some (takeWhile (\<lambda>c. c \<noteq> CHR '' '') s), drop 1 (dropWhile (\<lambda>c. c \<noteq> CHR '' '') s)))"

text \<open>\<open>atoi\<close>: blanks, a sign, digits; the value is that of \<open>strtol\<close>, clamped to 64 bits and cut to 32.\<close>

definition atoi :: "string \<Rightarrow> u32" where
  "atoi s =
     (let s = dropWhile (\<lambda>c. c \<in> set '' '' \<union> {CHR 0x09, CHR 0x0A, CHR 0x0B, CHR 0x0C, CHR 0x0D}) s;
          digits = (case s of c # cs \<Rightarrow> if c = CHR ''-'' \<or> c = CHR ''+'' then cs else s | [] \<Rightarrow> []);
          v = foldl (\<lambda>v c. 10 * v + hex_digit c) 0 (takeWhile (\<lambda>c. c \<in> set digit_chars) digits);
          v = (if s \<noteq> [] \<and> hd s = CHR ''-'' then - v else v) in
      word_of_int (max (- (2 ^ 63)) (min (2 ^ 63 - 1) v)))"

section \<open>Commands\<close>

datatype printed_item =
    Trace_item "trace_line list"
  | Registers_item "word_t list"
  | Memory_item word_t word_t
  | Value_item word_t
  | Help_item string string
  | Usage_item string
  | Unknown_item string
  | Out_of_scope_item
  | Wrong_expr_item
  | Quit_item

record 'd session =
  machine_of :: "'d cosim"
  lexer_of :: lexer
  shown :: "printed_item list"

text \<open>A call that may fail, or not return.\<close>

type_synonym 'a run = "'a res option"

definition andthen :: "'a run \<Rightarrow> ('a \<Rightarrow> 'b run) \<Rightarrow> 'b run" where
  "andthen m f = (case m of None \<Rightarrow> None | Some (Inl e) \<Rightarrow> Some (Inl e) | Some (Inr x) \<Rightarrow> f x)"

definition print_item :: "printed_item \<Rightarrow> 'd session \<Rightarrow> 'd session" where
  "print_item i s = s\<lparr>shown := shown s @ [i]\<rparr>"

definition debuggee_of :: "'d VCPU \<Rightarrow> 'd cosim \<Rightarrow> debuggee" where
  "debuggee_of v c = \<lparr>db_pc = pc_cur v (dut c), db_gpr = cpu_gpr v (dut c), db_mem = sim_pmem (board c)\<rparr>"

definition sdb_run :: "'d VCPU \<Rightarrow> (nat \<Rightarrow> outside) \<Rightarrow> u32 \<Rightarrow> 'd session \<Rightarrow> 'd session run" where
  "sdb_run v world n s = Some (rbind (sim_cpu_exec v world n (machine_of s)) (\<lambda>c. Inr (s\<lparr>machine_of := c\<rparr>)))"

definition print_itrace :: "(word_t \<Rightarrow> word_t \<Rightarrow> string) \<Rightarrow> u32 \<Rightarrow> 'd session \<Rightarrow> 'd session" where
  "print_itrace dis n s = print_item (Trace_item (tq_display_last dis n (itrace (machine_of s)))) s"

text \<open>Every command gets the rest of the line; the result tells whether to go on.\<close>

definition cmd_c :: "'d VCPU \<Rightarrow> (nat \<Rightarrow> outside) \<Rightarrow> 'd session \<Rightarrow> (bool \<times> 'd session) run" where
  "cmd_c v world s = andthen (sdb_run v world (- 1) s) (\<lambda>s. Some (Inr (True, s)))"

definition cmd_q :: "'d session \<Rightarrow> (bool \<times> 'd session) run" where
  "cmd_q s = Some (Inr (False, print_item Quit_item s))"

definition cmd_si :: "'d VCPU \<Rightarrow> (nat \<Rightarrow> outside) \<Rightarrow> (word_t \<Rightarrow> word_t \<Rightarrow> string) \<Rightarrow> string \<Rightarrow> 'd session \<Rightarrow>
    (bool \<times> 'd session) run" where
  "cmd_si v world dis rest s =
     (let n = (case fst (strtok rest) of None \<Rightarrow> 1 | Some arg \<Rightarrow> atoi arg) in
      andthen (sdb_run v world n s) (\<lambda>s. Some (Inr (True, print_itrace dis n s))))"

definition cmd_info :: "'d VCPU \<Rightarrow> string \<Rightarrow> 'd session \<Rightarrow> (bool \<times> 'd session) run" where
  "cmd_info v rest s =
     (if fst (strtok rest) = Some ''r''
      then Some (Inr (True, print_item (Registers_item (map (cpu_gpr v (dut (machine_of s))) [0..<32])) s))
      else Some (Inr (True, print_item (Usage_item ''Usage: info r'') s)))"

text \<open>The loop of \<open>x\<close>: \<open>i\<close> runs to a signed \<open>n\<close>, the address wraps.\<close>

fun dump_words :: "bytes \<Rightarrow> word_t \<Rightarrow> nat \<Rightarrow> nat \<Rightarrow> 'd session \<Rightarrow> 'd session res" where
  "dump_words m addr i 0 s = Inr s"
| "dump_words m addr i (Suc todo) s =
     (let a = addr + 4 * of_nat i in
      rbind (sim_paddr_read m a 4) (\<lambda>w. dump_words m addr (i + 1) todo (print_item (Memory_item a w) s)))"

definition cmd_x :: "'d VCPU \<Rightarrow> string \<Rightarrow> 'd session \<Rightarrow> (bool \<times> 'd session) run" where
  "cmd_x v rest s =
     (case strtok rest of
        (None, _) \<Rightarrow> Some (Inr (True, print_item (Usage_item ''Usage: x n addr'') s))
      | (Some arg, rest) \<Rightarrow>
          (case strtok rest of
             (None, _) \<Rightarrow> Some (Inr (True, print_item (Usage_item ''Usage: x n addr'') s))
           | (Some e, _) \<Rightarrow>
               andthen (expr (debuggee_of v (machine_of s)) e (lexer_of s)) (\<lambda>(r, x).
                 let s = s\<lparr>lexer_of := x\<rparr>; addr = (case r of Some a \<Rightarrow> a | None \<Rightarrow> 0) in
                 if addr < CONFIG_MBASE \<or> addr \<ge> CONFIG_MBASE + of_nat CONFIG_MSIZE
                 then Some (Inr (True, print_item Out_of_scope_item s))
                 else Some (rbind (dump_words (sim_pmem (board (machine_of s))) addr 0 (nat (sint (atoi arg))) s) (\<lambda>s.
                   Inr (True, s))))))"

text \<open>\<open>p\<close> evaluates all of the rest of the line.\<close>

definition cmd_p :: "'d VCPU \<Rightarrow> string \<Rightarrow> 'd session \<Rightarrow> (bool \<times> 'd session) run" where
  "cmd_p v rest s =
     (if rest = [] then Some (Inr (True, print_item (Usage_item ''Usage: p [expr]'') s))
      else andthen (expr (debuggee_of v (machine_of s)) rest (lexer_of s)) (\<lambda>(r, x).
        Some (Inr (True, print_item (case r of Some val \<Rightarrow> Value_item val | None \<Rightarrow> Wrong_expr_item)
          (s\<lparr>lexer_of := x\<rparr>)))))"

definition cmd_table :: "(string \<times> string) list" where
  "cmd_table = [
     (''help'', ''Display informations about all supported commands''),
     (''c'', ''Continue the execution of the program''),
     (''q'', ''Exit NEMU''),
     (''si'', ''Excute several steps''),
     (''info'', ''Print the info of rigisters(r)''),
     (''x'', ''Scan the mem''),
     (''p'', ''Calc expressions'')]"

definition cmd_help :: "string \<Rightarrow> 'd session \<Rightarrow> (bool \<times> 'd session) run" where
  "cmd_help rest s =
     (case fst (strtok rest) of
        None \<Rightarrow> Some (Inr (True, fold (\<lambda>(n, d). print_item (Help_item n d)) cmd_table s))
      | Some arg \<Rightarrow>
          (case map_of cmd_table arg of
             Some d \<Rightarrow> Some (Inr (True, print_item (Help_item arg d) s))
           | None \<Rightarrow> Some (Inr (True, print_item (Unknown_item arg) s))))"

text \<open>One line; a line without a word is skipped. \<open>args\<close> is \<open>NULL\<close> exactly when nothing is left.\<close>

definition sdb_command :: "'d VCPU \<Rightarrow> (nat \<Rightarrow> outside) \<Rightarrow> (word_t \<Rightarrow> word_t \<Rightarrow> string) \<Rightarrow> string \<Rightarrow> 'd session \<Rightarrow>
    (bool \<times> 'd session) run" where
  "sdb_command v world dis line s =
     (case strtok line of
        (None, _) \<Rightarrow> Some (Inr (True, s))
      | (Some cmd, rest) \<Rightarrow>
          if cmd = ''help'' then cmd_help rest s
          else if cmd = ''c'' then cmd_c v world s
          else if cmd = ''q'' then cmd_q s
          else if cmd = ''si'' then cmd_si v world dis rest s
          else if cmd = ''info'' then cmd_info v rest s
          else if cmd = ''x'' then cmd_x v rest s
          else if cmd = ''p'' then cmd_p v rest s
          else Some (Inr (True, print_item (Unknown_item cmd) s)))"

text \<open>The lines are those typed before the end of the input.\<close>

fun sdb_lines :: "'d VCPU \<Rightarrow> (nat \<Rightarrow> outside) \<Rightarrow> (word_t \<Rightarrow> word_t \<Rightarrow> string) \<Rightarrow> string list \<Rightarrow> 'd session \<Rightarrow>
    'd session run" where
  "sdb_lines v world dis [] s = Some (Inr s)"
| "sdb_lines v world dis (l # ls) s =
     andthen (sdb_command v world dis l s) (\<lambda>(go, s). if go then sdb_lines v world dis ls s else Some (Inr s))"

definition sdb_mainloop :: "'d VCPU \<Rightarrow> (nat \<Rightarrow> outside) \<Rightarrow> (word_t \<Rightarrow> word_t \<Rightarrow> string) \<Rightarrow> bool \<Rightarrow> string list \<Rightarrow>
    'd session \<Rightarrow> 'd session run" where
  "sdb_mainloop v world dis is_batch_mode ls s =
     (if is_batch_mode then andthen (cmd_c v world s) (\<lambda>(_, s). Some (Inr s))
      else sdb_lines v world dis ls s)"

text \<open>\<open>main\<close> with the arguments image, mode and disk; its result is the exit code.\<close>

definition sim_main :: "'d VCPU \<Rightarrow> (nat \<Rightarrow> outside) \<Rightarrow> (word_t \<Rightarrow> word_t \<Rightarrow> string) \<Rightarrow> (nat \<Rightarrow> u32) \<Rightarrow>
    (string \<Rightarrow> nat) \<Rightarrow> (string \<Rightarrow> u8 list option) \<Rightarrow> string \<Rightarrow> string option \<Rightarrow> string option \<Rightarrow> string list \<Rightarrow>
    'd session \<Rightarrow> (int \<times> 'd session) run" where
  "sim_main v world dis rnd scancode files img mode disk ls s =
     andthen (Some (sim_start v world rnd scancode files img disk (machine_of s))) (\<lambda>c.
     andthen (sdb_mainloop v world dis (mode = Some ''-b'') ls (s\<lparr>machine_of := c\<rparr>)) (\<lambda>s.
       Some (Inr (if status (machine_of s) = SIM_ABORT then 1 else 0, s))))"

section \<open>Printing a value\<close>

lemma strtok_word:
  assumes "\<forall>c \<in> set w. c \<noteq> CHR '' ''" and "w \<noteq> []"
  shows "strtok (w @ CHR '' '' # r) = (Some w, r)"
proof -
  have "dropWhile (\<lambda>c. c = CHR '' '') (w @ CHR '' '' # r) = w @ CHR '' '' # r"
    using assms by (cases w) simp_all
  moreover have "takeWhile (\<lambda>c. c \<noteq> CHR '' '') (w @ CHR '' '' # r) = w"
    using takeWhile_run [of w "\<lambda>c. c \<noteq> CHR '' ''" "CHR '' ''" r] assms(1) by simp
  moreover have "dropWhile (\<lambda>c. c \<noteq> CHR '' '') (w @ CHR '' '' # r) = CHR '' '' # r"
    using assms(1) by (induction w) simp_all
  ultimately show ?thesis by (simp add: strtok_def Let_def)
qed

text \<open>The command \<open>p\<close> prints what an expression means: given a printed well-formed expression, it
  shows the low 32 bits of its value over the processor's registers and the memory, changes nothing
  of the machine and goes on; a fault of the evaluation is a fault of the debugger.\<close>

lemma sdb_prints_value:
  assumes "well_formed e" and "readable (toks e)"
  shows "\<exists>x'. sdb_command v world dis (''p '' @ render (map raw (toks e))) s =
    Some (rbind (aval (debuggee_of v (machine_of s)) e) (\<lambda>w.
      Inr (True, print_item (Value_item (ucast w)) (s\<lparr>lexer_of := x'\<rparr>))))"
proof -
  have "render (map raw (toks e)) \<noteq> []" by (cases "toks e") simp_all
  moreover obtain x' where "expr (debuggee_of v (machine_of s)) (render (map raw (toks e))) (lexer_of s) =
      Some (rbind (aval (debuggee_of v (machine_of s)) e) (\<lambda>v. Inr (Some (ucast v), x')))"
    using expr_run [OF assms] by blast
  ultimately show ?thesis
    using strtok_word [of "''p''" "render (map raw (toks e))"]
    by (intro exI [of _ x'], cases "aval (debuggee_of v (machine_of s)) e")
      (simp_all add: sdb_command_def cmd_p_def andthen_def)
qed

section \<open>The exit code\<close>

lemma new_space_status: "new_space sz s = Inr (p, s') \<Longrightarrow> sim_state s' = sim_state s"
  by (auto simp: new_space_def Let_def rbind_eq_Inr_iff)

lemma add_mmio_map_status: "add_mmio_map n a p l cb s = Inr s' \<Longrightarrow> sim_state s' = sim_state s"
  by (auto simp: add_mmio_map_def Let_def rbind_eq_Inr_iff split: if_splits)

lemma init_device_status: "init_device sc files path s = Inr s' \<Longrightarrow> sim_state s' = sim_state s"
  by (auto simp: init_device_def init_map_def init_serial_def init_timer_def init_vga_def init_i8042_def init_disk_def
      Let_def rbind_eq_Inr_iff dest!: new_space_status add_mmio_map_status port_set_status split: if_splits option.splits)

lemma cycles_aborts: "cycles v world n c = Inr c' \<Longrightarrow> aborts (board c) (board c')"
  by (induction n arbitrary: c) (auto simp: rbind_eq_Inr_iff dest!: single_cycle_aborts intro: aborts_trans)

lemma sim_start_aborts:
  assumes "sim_start v world rnd sc files img disk c = Inr c'"
  shows "aborts (board c) (board c')"
proof -
  obtain n b c1 b1 c2 where b: "load_img (files img) (board c) = Inr (n, b)"
    and c1: "init_difftest rnd (c\<lparr>board := b\<rparr>) = Inr c1"
    and b1: "init_device sc files (case disk of Some d \<Rightarrow> d | None \<Rightarrow> '' '') (board c1) = Inr b1"
    and c2: "cycles v world 1 (clock v False (c1\<lparr>board := b1, rstn := False\<rparr>)) = Inr c2"
    and c': "c' = clock v False (c2\<lparr>rstn := True\<rparr>)"
    using assms by (auto simp: sim_start_def reset_cpu_def rbind_eq_Inr_iff)
  have "sim_state b = sim_state (board c)" using b by (auto simp: load_img_def rbind_eq_Inr_iff split: option.splits)
  moreover have "sim_state (board c1) = sim_state b"
    using c1 by (auto simp: init_difftest_def difftest_sync_def set_ref_def rbind_eq_Inr_iff Let_def)
  moreover have "sim_state b1 = sim_state (board c1)" by (rule init_device_status [OF b1])
  moreover have "aborts b1 (board c2)" using cycles_aborts [OF c2] by (simp add: clock_def)
  ultimately show ?thesis unfolding c' by (simp add: aborts_def clock_def)
qed

text \<open>C7: In batch mode an exit code of 0 means that the processor is right on this program: unless the
  window was closed, the reference, started with the same memory and registers, has made one step
  for each committed instruction and agreed with the processor before each of them.\<close>

theorem exit_code_zero:
  assumes "sim_main v world dis rnd sc files img (Some ''-b'') disk ls s = Some (Inr (0, s'))"
    and "status (machine_of s) = SIM_STOP" and "status (machine_of s') \<noteq> SIM_QUIT"
  shows "\<exists>c. sim_start v world rnd sc files img disk (machine_of s) = Inr c \<and>
    (let es = commits v world (2 ^ 32 - 1) False (set_status SIM_RUNNING c) in
       chained False (cpu (ref c)) es \<and>
       (\<forall>e \<in> set es. nemu_step (ck_before e) (ck_after e) \<and> agrees e))"
proof -
  obtain c where c: "sim_start v world rnd sc files img disk (machine_of s) = Inr c"
    using assms(1) by (cases "sim_start v world rnd sc files img disk (machine_of s)") (auto simp: sim_main_def andthen_def)
  have st: "status c \<in> {SIM_STOP, SIM_ABORT}"
    using sim_start_aborts [OF c] assms(2) by (auto simp: aborts_def)
  obtain c' where c': "sim_cpu_exec v world (- 1) c = Inr c'" "s' = s\<lparr>machine_of := c'\<rparr>" "status c' \<noteq> SIM_ABORT"
    using assms(1) c
    by (cases "sim_cpu_exec v world (- 1) c")
      (auto simp: sim_main_def andthen_def sdb_mainloop_def cmd_c_def sdb_run_def split: if_splits)
  have "status c = SIM_STOP" using st c'(1,3) by (auto simp: sim_cpu_exec_def)
  moreover have "unat (- 1 :: u32) = 2 ^ 32 - 1" by (simp add: unsigned_minus_1_eq_mask mask_eq_exp_minus_1)
  ultimately show ?thesis
    using cosim_run [OF c'(1) _ refl] c' assms(3) c by (auto simp: Let_def split: if_splits)
qed

section \<open>A run of two instructions from the start\<close>

text \<open>The program of two instructions as an image, and the simulator before \<open>main\<close>.\<close>

definition two_insts_img :: "u8 list" where
  "two_insts_img = [0x93, 0x00, 0x50, 0x00, 0x33, 0x81, 0x10, 0x00]"

definition cold :: "nat session" where
  "cold = \<lparr>machine_of = \<lparr>dut = 0, rstn = True, slave = quiet_slave, board = power_on,
     ref = \<lparr>cpu = \<lparr>gpr = \<lambda>_. 0, pc = 0, csr = \<lparr>mepc = 0, mstatus = 0, mcause = 0, mtvec = 0\<rparr>\<rparr>,
       pmem = \<lambda>_. 0, g_nr_guest_inst = 0, printed = []\<rparr>,
     sim_cpu = \<lparr>gpr = \<lambda>_. 0, pc = 0, csr = \<lparr>mepc = 0, mstatus = 0, mcause = 0, mtvec = 0\<rparr>\<rparr>,
     halt_pc = 0, halt_ret = 0, sim_insts = 0, itrace = tq_new (\<lambda>_. \<lparr>log_pc = 0, log_inst = 0\<rparr>) 16,
     reports = [],
     is_skip_ref = False, skip_dut_nr_inst = 0, moment = 0\<rparr>,
     lexer_of = no_tokens, shown = []\<rparr>"

abbreviation image_files :: "string \<Rightarrow> u8 list option" where
  "image_files \<equiv> (\<lambda>_. Some two_insts_img)"

lemma image_words:
  "word_of_bytes (load (store m 0 two_insts_img) 0 4) = (0x00500093 :: u32)"
  "word_of_bytes (load (store m 0 two_insts_img) 4 4) = (0x00108133 :: u32)"
proof -
  have "word_of_bytes (take 4 two_insts_img) = (0x00500093 :: u32)" "word_of_bytes (drop 4 two_insts_img) = (0x00108133 :: u32)"
    by code_simp+
  then show "word_of_bytes (load (store m 0 two_insts_img) 0 4) = (0x00500093 :: u32)"
    "word_of_bytes (load (store m 0 two_insts_img) 4 4) = (0x00108133 :: u32)"
    using load_store_within [of 0 0 4 two_insts_img m] load_store_within [of 0 4 4 two_insts_img m]
    by (simp_all add: two_insts_img_def)
qed

lemma quiet_reset:
  assumes "slave c = quiet_slave"
  shows "reset_cpu replay quiet_world 1 c = Inr ((set_state replay (c\<lparr>dut := 0\<rparr>))\<lparr>rstn := True, moment := moment c + 1\<rparr>)"
proof -
  have "single_cycle replay quiet_world (clock replay False (c\<lparr>rstn := False\<rparr>)) =
      Inr (set_state replay (c\<lparr>dut := 0, rstn := False, moment := moment c + 1\<rparr>))"
    using assms by (cases c) (simp add: single_cycle_def clock_def replay_def quiet_master_def
        quiet_slave_def axi_write_def axi_read_def Let_def)
  then show ?thesis
    by (cases c) (simp add: reset_cpu_def clock_def set_state_def, simp add: replay_def fun_eq_iff)
qed

text \<open>A cold simulator with the image in the memory.\<close>

lemma cold_loaded:
  "load_img (Some two_insts_img) power_on = Inr (8, power_on\<lparr>sim_pmem := store (\<lambda>_. 0) 0 two_insts_img\<rparr>)"
  by (simp add: load_img_def power_on_def two_insts_img_def layout_defs)

lemma cold_fetch:
  assumes "\<forall>k < CONFIG_MSIZE. m k = store (\<lambda>_. 0) 0 two_insts_img k"
  shows "paddr_read m 0x80000000 4 = Inr 0x00500093" "paddr_read m 0x80000004 4 = Inr 0x00108133"
proof -
  have v: "valid_access 0x80000000 4" "valid_access 0x80000004 4" by (simp_all add: valid_access_def)
  have "load m a 4 = load (store (\<lambda>_. 0) 0 two_insts_img) a 4" if "a < 8" for a
    by (rule load_cong) (use assms that in \<open>simp add: layout_defs\<close>)
  then show "paddr_read m 0x80000000 4 = Inr 0x00500093" "paddr_read m 0x80000004 4 = Inr 0x00108133"
    using paddr_read_valid [OF v(1), of m] paddr_read_valid [OF v(2), of m]
    by (simp_all add: unat_minus_one layout_defs image_words)
qed

lemma cold_started:
  "\<exists>c. sim_start replay quiet_world rnd sc image_files ''img'' (Some ''disk'') (machine_of cold) = Inr c \<and>
     status c = SIM_STOP \<and> quiet (set_status SIM_RUNNING c) \<and> dut c = 0 \<and>
     gpr (cpu (ref c)) = (\<lambda>_. 0) \<and> pc (cpu (ref c)) = 0x80000000 \<and>
     csr (cpu (ref c)) = \<lparr>mepc = 0, mstatus = 0, mcause = 0, mtvec = 0\<rparr> \<and> same_registers (cpu (ref c)) (sim_cpu c) \<and>
     paddr_read (ref_pmem (board c)) 0x80000000 4 = Inr 0x00500093 \<and>
     paddr_read (ref_pmem (board c)) 0x80000004 4 = Inr 0x00108133"
proof -
  let ?p = "store (\<lambda>_. 0) 0 two_insts_img"
  let ?c0 = "(machine_of cold)\<lparr>board := power_on\<lparr>sim_pmem := ?p\<rparr>\<rparr>"
  obtain c1 where c1: "init_difftest rnd ?c0 = Inr c1" "\<forall>k < CONFIG_MSIZE. pmem (the_ref c1) k = ?p k"
      "cpu (the_ref c1) = sim_cpu c1"
      "c1 = ?c0\<lparr>ref := ref c1, sim_cpu := (sim_cpu ?c0)\<lparr>pc := CONFIG_MBASE\<rparr>,
         board := (board ?c0)\<lparr>ref_pmem := ref_pmem (board c1)\<rparr>\<rparr>"
    using init_difftest_run [of rnd ?c0] by auto
  let ?r = "ref_pmem (board c1)"
  have "board c1 = power_on\<lparr>io_space := \<lambda>_. 0, sim_pmem := ?p, ref_pmem := ?r\<rparr>"
    by (subst c1(4)) (simp add: power_on_def)
  then obtain b where b: "init_device sc image_files ''disk'' (board c1) = Inr b" "ref_pmem b = ?r"
      "boot_time b = 0" "last_update b = 0" "sim_state b = SIM_STOP"
    using init_device_run [where path = "''disk''" and open_image = image_files and bs = two_insts_img and sc = sc and
        m = "\<lambda>_. 0" and p = ?p and r = ?r] by auto
  have regs: "gpr (sim_cpu c1) = (\<lambda>_. 0)" "pc (sim_cpu c1) = 0x80000000" "slave c1 = quiet_slave"
      "csr (sim_cpu c1) = \<lparr>mepc = 0, mstatus = 0, mcause = 0, mtvec = 0\<rparr>"
    by (subst c1(4), simp add: cold_def layout_defs)+
  let ?c = "(set_state replay (c1\<lparr>board := b, dut := 0\<rparr>))\<lparr>rstn := True, moment := moment c1 + 1\<rparr>"
  have "reset_cpu replay quiet_world 1 (c1\<lparr>board := b\<rparr>) = Inr ?c"
    using quiet_reset [of "c1\<lparr>board := b\<rparr>"] regs(3) by simp
  moreover have "board (machine_of cold) = power_on" by (simp add: cold_def)
  ultimately have "sim_start replay quiet_world rnd sc image_files ''img'' (Some ''disk'') (machine_of cold) = Inr ?c"
    using cold_loaded c1(1) b(1) by (simp add: sim_start_def)
  moreover have "quiet (set_status SIM_RUNNING ?c)" "status ?c = SIM_STOP" "dut ?c = 0" "ref ?c = ref c1" "ref_pmem (board ?c) = ?r"
    using b regs by (simp_all add: quiet_def set_status_def set_state_def)
  moreover have "same_registers (cpu (ref c1)) (sim_cpu ?c)"
    using c1(3) regs by (simp add: same_registers_def set_state_def replay_def)
  moreover note cold_fetch [OF c1(2)]
  ultimately show ?thesis using c1(3) regs by (intro exI [of _ ?c]) (simp add: the_ref_def)
qed

lemma replay_ends:
  assumes "status c = SIM_STOP" "quiet (set_status SIM_RUNNING c)" "dut c = 0"
    "gpr (cpu (ref c)) = (\<lambda>_. 0)" "pc (cpu (ref c)) = 0x80000000" "csr (cpu (ref c)) = \<lparr>mepc = 0, mstatus = 0, mcause = 0, mtvec = 0\<rparr>" "same_registers (cpu (ref c)) (sim_cpu c)"
    "paddr_read (ref_pmem (board c)) 0x80000000 4 = Inr 0x00500093"
    "paddr_read (ref_pmem (board c)) 0x80000004 4 = Inr 0x00108133"
  shows "\<exists>c'. sim_cpu_exec replay quiet_world (- 1) c = Inr c' \<and> status c' = SIM_END"
proof -
  let ?c0 = "set_status SIM_RUNNING c"
  have x: "the_ref ?c0 = the_ref c" "pmem (the_ref c) = ref_pmem (board c)" "sim_cpu ?c0 = sim_cpu c" "dut ?c0 = 0"
    using assms(3) by (simp_all add: the_ref_def set_status_def)
  obtain m m' where m: "difftest_exec idle 1 (the_ref c) = Inr m" "difftest_exec idle 1 m = Inr m'"
      "gpr (cpu m) = (\<lambda>_. 0)(1 := 5)" "pc (cpu m) = 0x80000004" "csr (cpu m) = csr (cpu (ref c))"
    using two_insts_run [of "the_ref c"] assms x by auto
  let ?c1 = "replay_next m ?c0"
  have r1: "run_loop replay quiet_world (Suc k) False ?c0 = run_loop replay quiet_world k False ?c1" "quiet ?c1" for k
    using replay_step [OF assms(2), of m] m(1) x assms(7) by simp_all
  have c1: "the_ref ?c1 = m" "same_registers (cpu m) (sim_cpu ?c1)" "dut ?c1 = Suc 0"
    using m(3-5) assms(6) x(4) by (simp_all add: replay_next_def the_ref_def set_ref_def set_state_def logged_def
      same_registers_def replay_def)
  have r2: "run_loop replay quiet_world (Suc k) False ?c1 = run_loop replay quiet_world k False (replay_next m' ?c1)" for k
    using replay_step(1) [OF r1(2), of m'] m(2) c1 by simp
  have "dut (replay_next m' ?c1) = 2" using c1(3) by (simp add: replay_next_def set_state_def)
  then have "test_break replay (replay_next m' ?c1)" by (simp add: test_break_def replay_def)
  then have r3: "run_loop replay quiet_world (Suc k) False (replay_next m' ?c1) = (let c2 = replay_next m' ?c1 in
      Inr (False, (set_status SIM_END c2)\<lparr>halt_pc := pc_cur replay (dut c2), halt_ret := cpu_gpr replay (dut c2) 10\<rparr>))" for k
    by (simp add: Let_def)
  have n: "unat (- 1 :: u32) = Suc (Suc (Suc (2 ^ 32 - 4)))"
    by (simp add: unsigned_minus_1_eq_mask mask_eq_exp_minus_1)
  note whole = r3 [of "2 ^ 32 - 4", folded r2, folded r1(1), folded n]
  from whole show ?thesis using assms(1) by (simp add: sim_cpu_exec_def set_status_def Let_def)
qed

lemma exit_code_zero_witness:
  "\<exists>c. sim_start replay quiet_world (\<lambda>_. 0) (\<lambda>_. 0) image_files ''img'' (Some ''disk'') (machine_of cold) = Inr c \<and>
    (\<forall>e \<in> set (commits replay quiet_world (2 ^ 32 - 1) False (set_status SIM_RUNNING c)). agrees e)"
proof -
  obtain c where c: "sim_start replay quiet_world (\<lambda>_. 0) (\<lambda>_. 0) image_files ''img'' (Some ''disk'') (machine_of cold) = Inr c"
      "\<exists>c'. sim_cpu_exec replay quiet_world (- 1) c = Inr c' \<and> status c' = SIM_END"
    using cold_started [of "\<lambda>_. 0" "\<lambda>_. 0"] replay_ends by blast
  then obtain c' where c': "sim_cpu_exec replay quiet_world (- 1) c = Inr c'" "status c' = SIM_END" by blast
  have "sim_main replay quiet_world (\<lambda>_ _. []) (\<lambda>_. 0) (\<lambda>_. 0) image_files ''img'' (Some ''-b'') (Some ''disk'') [] cold =
      Some (Inr (0, cold\<lparr>machine_of := c'\<rparr>))"
    using c(1) c' by (simp add: sim_main_def andthen_def sdb_mainloop_def cmd_c_def sdb_run_def)
  from exit_code_zero [OF this] show ?thesis using c(1) c'(2) by (auto simp: cold_def Let_def power_on_def)
qed

lemma sdb_prints_value_witness:
  "\<exists>x'. sdb_command replay quiet_world (\<lambda>_ _. []) ''p ( 7 - 2 ) * 3 '' cold =
     Some (Inr (True, print_item (Value_item 15) (cold\<lparr>lexer_of := x'\<rparr>)))"
proof -
  let ?n = "\<lambda>s. Leaf \<lparr>tk_type = TK_NUM, tk_str = s\<rparr>"
  let ?e = "Binary Mul (Group (Binary Sub (?n ''7'') (?n ''2''))) (?n ''3'')"
  have wf: "well_formed ?e" by (simp add: str0_def)
  have rd: "readable (toks ?e)" by code_simp
  have rn: "''p '' @ render (map raw (toks ?e)) = ''p ( 7 - 2 ) * 3 ''" by code_simp
  have av: "aval (debuggee_of replay (machine_of cold)) ?e = Inr 15"
    by (simp add: eval_token_def scan_dec_def hex_digit_def)
  show ?thesis using sdb_prints_value [OF wf rd, of replay quiet_world "\<lambda>_ _. []" cold] unfolding rn av by simp
qed

end
