(* ===== verification/Guest.thy ===== *)
theory Guest
  imports Sim_Bus
begin

text \<open>
  How the programs that run on the simulated machine are modelled: a C function is a function from
  the state of the machine to an outcome. It returns a value and a state, or stops the machine with
  an exit code (\<open>halt\<close>, the \<open>ebreak\<close> of \<open>software/base-port/base/src/trm.c\<close>), or the simulator
  itself stops with a fault.
\<close>

section \<open>Outcomes\<close>

datatype ('a, 's) outcome = Returns 'a 's | Halted u32 's | Faulted fault

text \<open>A constructor applied to a value alone is a program: \<open>Returns x\<close> returns, \<open>Halted c\<close> stops.\<close>

type_synonym ('a, 's) prog = "'s \<Rightarrow> ('a, 's) outcome"

definition gbind :: "('a, 's) prog \<Rightarrow> ('a \<Rightarrow> ('b, 's) prog) \<Rightarrow> ('b, 's) prog" where
  "gbind m f s = (case m s of Returns x s' \<Rightarrow> f x s' | Halted c s' \<Rightarrow> Halted c s' | Faulted e \<Rightarrow> Faulted e)"

definition glift :: "('s \<Rightarrow> ('a \<times> 's) res) \<Rightarrow> ('a, 's) prog" where
  "glift f s = (case f s of Inr (x, s') \<Rightarrow> Returns x s' | Inl e \<Rightarrow> Faulted e)"

text \<open>A loop over a list of values, and an access to a component of a larger state.\<close>

fun gfor :: "'b list \<Rightarrow> ('b \<Rightarrow> (unit, 's) prog) \<Rightarrow> (unit, 's) prog" where
  "gfor [] f = Returns ()"
| "gfor (x # xs) f = gbind (f x) (\<lambda>_. gfor xs f)"

definition gzoom :: "('t \<Rightarrow> 's) \<Rightarrow> ('s \<Rightarrow> 't \<Rightarrow> 't) \<Rightarrow> ('a, 's) prog \<Rightarrow> ('a, 't) prog" where
  "gzoom get put m t =
     (case m (get t) of
        Returns x s \<Rightarrow> Returns x (put s t)
      | Halted c s \<Rightarrow> Halted c (put s t)
      | Faulted e \<Rightarrow> Faulted e)"

named_theorems guest_simps \<open>evaluation of programs\<close>

lemma gbind_eval [guest_simps]:
  "m s = Returns x s' \<Longrightarrow> gbind m f s = f x s'"
  "m s = Halted c s' \<Longrightarrow> gbind m f s = Halted c s'"
  "m s = Faulted e \<Longrightarrow> gbind m f s = Faulted e"
  by (simp_all add: gbind_def)

lemma gbind_Returns [simp]: "gbind (Returns x) f = f x"
  by (rule ext) (simp add: gbind_def)

lemma gbind_Halted [simp]: "gbind (Halted c) f = Halted c"
  by (rule ext) (simp add: gbind_def)

lemma gbind_right [simp]: "gbind m Returns = m"
  by (rule ext) (simp add: gbind_def split: outcome.split)

lemma gbind_assoc: "gbind (gbind m f) g = gbind m (\<lambda>x. gbind (f x) g)"
  by (rule ext) (simp add: gbind_def split: outcome.split)

lemma gbind_eq_Returns:
  "gbind m f s = Returns y t \<longleftrightarrow> (\<exists>x s'. m s = Returns x s' \<and> f x s' = Returns y t)"
  by (cases "m s") (auto simp: gbind_def)

lemma glift_eval [guest_simps]:
  "f s = Inr (x, s') \<Longrightarrow> glift f s = Returns x s'" "f s = Inl e \<Longrightarrow> glift f s = Faulted e"
  by (simp_all add: glift_def)

lemma gzoom_eval [guest_simps]:
  "m (get t) = Returns x s \<Longrightarrow> gzoom get put m t = Returns x (put s t)"
  "m (get t) = Halted c s \<Longrightarrow> gzoom get put m t = Halted c (put s t)"
  "m (get t) = Faulted e \<Longrightarrow> gzoom get put m t = Faulted e"
  by (simp_all add: gzoom_def)

lemma gfor_append: "gfor (xs @ ys) f = gbind (gfor xs f) (\<lambda>_. gfor ys f)"
  by (induction xs) (simp_all add: gbind_assoc)

text \<open>A loop whose every step returns is a fold.\<close>

lemma gfor_fold:
  assumes "P s" and "\<And>x a. x \<in> set xs \<Longrightarrow> P a \<Longrightarrow> f x a = Returns () (g x a) \<and> P (g x a)"
  shows "gfor xs f s = Returns () (fold g xs s) \<and> P (fold g xs s)"
  using assms by (induction xs arbitrary: s) (auto simp: gbind_def)

end
