(* ===== verification/Base_Drivers.thy ===== *)
theory Base_Drivers
  imports Guest
begin

text \<open>
  The runtime and drivers the programs are linked with (\<open>software/base-port/base/src/*.c\<close>,
  \<open>base/include/dev-mmio.h\<close>), as programs of the simulated machine, and what they do together with
  the devices of the simulator.
\<close>

section \<open>Accesses of a program\<close>

text \<open>
  A load or store instruction reaches the direct port. \<open>e\<close> is what the host answers during the
  access; only the clock asks it.
\<close>

definition guest_load :: "host \<Rightarrow> u32 \<Rightarrow> u32 \<Rightarrow> (u32, sim) prog" where
  "guest_load e addr lg = glift (dpi_read (device_fun e) True addr lg 0)"

definition guest_store :: "host \<Rightarrow> u32 \<Rightarrow> u32 \<Rightarrow> u32 \<Rightarrow> (unit, sim) prog" where
  "guest_store e addr lg d = glift (\<lambda>s. rbind (dpi_write (device_fun e) True addr lg d s) (\<lambda>s. Inr ((), s)))"

definition MMIO_BASE :: u32 where "MMIO_BASE = 0xa0000000"
definition SERIAL_PORT :: u32 where "SERIAL_PORT = MMIO_BASE + 0x00003f8"
definition KBD_ADDR :: u32 where "KBD_ADDR = MMIO_BASE + 0x0000060"
definition RTC_ADDR :: u32 where "RTC_ADDR = MMIO_BASE + 0x0000040"
definition VGACTL_ADDR :: u32 where "VGACTL_ADDR = MMIO_BASE + 0x0000100"
definition FFB_ADDR :: u32 where "FFB_ADDR = MMIO_BASE + 0x2000000"
definition DISK_CTL_ADDR :: u32 where "DISK_CTL_ADDR = MMIO_BASE + 0x0000300"
definition SYNC_ADDR :: u32 where "SYNC_ADDR = VGACTL_ADDR + 4"

definition inb :: "host \<Rightarrow> u32 \<Rightarrow> (u8, sim) prog" where
  "inb e addr = gbind (guest_load e addr 0) (\<lambda>v. Returns (ucast v))"
definition inw :: "host \<Rightarrow> u32 \<Rightarrow> (u16, sim) prog" where
  "inw e addr = gbind (guest_load e addr 1) (\<lambda>v. Returns (ucast v))"
definition inl :: "host \<Rightarrow> u32 \<Rightarrow> (u32, sim) prog" where
  "inl e addr = guest_load e addr 2"
definition outb :: "host \<Rightarrow> u32 \<Rightarrow> u8 \<Rightarrow> (unit, sim) prog" where
  "outb e addr d = guest_store e addr 0 (ucast d)"
definition outw :: "host \<Rightarrow> u32 \<Rightarrow> u16 \<Rightarrow> (unit, sim) prog" where
  "outw e addr d = guest_store e addr 1 (ucast d)"
definition outl :: "host \<Rightarrow> u32 \<Rightarrow> u32 \<Rightarrow> (unit, sim) prog" where
  "outl e addr d = guest_store e addr 2 d"

section \<open>Runtime\<close>

definition putch :: "host \<Rightarrow> u8 \<Rightarrow> (unit, sim) prog" where
  "putch e ch = outb e SERIAL_PORT ch"

text \<open>\<open>ebreak\<close> with the code in \<open>a0\<close> ends the simulation.\<close>

definition halt :: "u32 \<Rightarrow> ('a, sim) prog" where
  "halt code = Halted code"

definition call_main :: "(u8 list \<Rightarrow> (u32, sim) prog) \<Rightarrow> u8 list \<Rightarrow> (unit, sim) prog" where
  "call_main main argv = gbind (main argv) halt"

definition putstr :: "host \<Rightarrow> u8 list \<Rightarrow> (unit, sim) prog" where
  "putstr e s = gfor (takeWhile (\<lambda>c. c \<noteq> 0) s) (putch e)"

text \<open>\<open>loc\<close> is the text of \<open>__FILE__ ":" TOSTRING(__LINE__)\<close> at the call.\<close>

definition panic :: "host \<Rightarrow> u8 list \<Rightarrow> u8 list \<Rightarrow> ('a, sim) prog" where
  "panic e loc s =
     gbind (putstr e (cstr ''Panic: '')) (\<lambda>_.
     gbind (putstr e s) (\<lambda>_.
     gbind (putstr e (cstr '' @ '' @ loc @ cstr ''  '' @ [10])) (\<lambda>_. halt 1)))"

section \<open>Drivers\<close>

record gpu_config =
  present :: bool
  has_accel :: bool
  width :: u32
  height :: u32
  vmemsz :: u32

record gpu_fbdraw_ctl =
  fb_x :: u32
  fb_y :: u32
  fb_pixels :: u32
  fb_w :: u32
  fb_h :: u32
  fb_sync :: bool

definition gpu_config_of :: "u32 \<Rightarrow> gpu_config" where
  "gpu_config_of sz =
     (let w = drop_bit 16 sz AND 0x0ffff; h = sz AND 0x0ffff in
      \<lparr>present = True, has_accel = False, width = w, height = h, vmemsz = 0\<rparr>)"

definition gpu_config :: "host \<Rightarrow> (gpu_config, sim) prog" where
  "gpu_config e = gbind (inl e VGACTL_ADDR) (\<lambda>sz. Returns (gpu_config_of sz))"

definition gpu_fbdraw :: "host \<Rightarrow> gpu_fbdraw_ctl \<Rightarrow> (unit, sim) prog" where
  "gpu_fbdraw e ctl =
     gbind (inl e VGACTL_ADDR) (\<lambda>sz.
     let W = drop_bit 16 sz AND 0x0ffff; H = sz AND 0x0ffff in
     gbind (outl e FFB_ADDR (fb_x ctl)) (\<lambda>_.
     gbind (outl e (FFB_ADDR + 4) (fb_y ctl)) (\<lambda>_.
     gbind (outl e (FFB_ADDR + 8) (fb_w ctl)) (\<lambda>_.
     gbind (outl e (FFB_ADDR + 12) (fb_h ctl)) (\<lambda>_.
     gbind (outl e (FFB_ADDR + 16) W) (\<lambda>_.
     gbind (outl e (FFB_ADDR + 20) H) (\<lambda>_.
     gbind (outl e (FFB_ADDR + 24) (fb_pixels ctl)) (\<lambda>_.
     gbind (outl e (FFB_ADDR + 28) 0) (\<lambda>_.
     if fb_sync ctl then outl e SYNC_ADDR 1 else Returns ())))))))))"

record input_keybrd_data =
  keydown :: bool
  keycode :: u32

definition keybrd_of :: "u32 \<Rightarrow> input_keybrd_data" where
  "keybrd_of data = \<lparr>keydown = (data AND KEYDOWN_MASK \<noteq> 0), keycode = data AND NOT KEYDOWN_MASK\<rparr>"

definition input_keybrd :: "host \<Rightarrow> (input_keybrd_data, sim) prog" where
  "input_keybrd e = gbind (inl e KBD_ADDR) (\<lambda>data. Returns (keybrd_of data))"

text \<open>Each of the accesses may find the host's clock at another time: \<open>e i\<close> at the \<open>i\<close>-th.\<close>

definition timer_uptime :: "(nat \<Rightarrow> host) \<Rightarrow> (u64, sim) prog" where
  "timer_uptime e =
     gbind (inl (e 0) (RTC_ADDR + 4)) (\<lambda>hi.
     gbind (inl (e 1) RTC_ADDR) (\<lambda>lo.
       Returns (push_bit 32 (ucast hi) OR ucast lo)))"

record timer_rtc_data =
  rtc_year :: u32
  rtc_month :: u32
  rtc_day :: u32
  rtc_hour :: u32
  rtc_minute :: u32
  rtc_second :: u32

definition timer_rtc :: "(nat \<Rightarrow> host) \<Rightarrow> (timer_rtc_data, sim) prog" where
  "timer_rtc e =
     gbind (inl (e 0) (RTC_ADDR + 28)) (\<lambda>y.
     gbind (inl (e 1) (RTC_ADDR + 24)) (\<lambda>mo.
     gbind (inl (e 2) (RTC_ADDR + 20)) (\<lambda>d.
     gbind (inl (e 3) (RTC_ADDR + 16)) (\<lambda>h.
     gbind (inl (e 4) (RTC_ADDR + 12)) (\<lambda>mi.
     gbind (inl (e 5) (RTC_ADDR + 8)) (\<lambda>sec.
       Returns \<lparr>rtc_year = y, rtc_month = mo, rtc_day = d, rtc_hour = h, rtc_minute = mi, rtc_second = sec\<rparr>))))))"

definition ramdisk_cmd :: "host \<Rightarrow> u32 \<Rightarrow> u64 \<Rightarrow> u64 \<Rightarrow> u32 \<Rightarrow> (u64, sim) prog" where
  "ramdisk_cmd e buf offset len cmd =
     gbind (outl e DISK_CTL_ADDR (ucast offset)) (\<lambda>_.
     gbind (outl e (DISK_CTL_ADDR + 4) buf) (\<lambda>_.
     gbind (outl e (DISK_CTL_ADDR + 8) (ucast len)) (\<lambda>_.
     gbind (outl e (DISK_CTL_ADDR + 12) cmd) (\<lambda>_. Returns len))))"

definition ramdisk_read :: "host \<Rightarrow> u32 \<Rightarrow> u64 \<Rightarrow> u64 \<Rightarrow> (u64, sim) prog" where
  "ramdisk_read e buf offset len = ramdisk_cmd e buf offset len 1"

definition ramdisk_write :: "host \<Rightarrow> u32 \<Rightarrow> u64 \<Rightarrow> u64 \<Rightarrow> (u64, sim) prog" where
  "ramdisk_write e buf offset len = ramdisk_cmd e buf offset len 2"

section \<open>The device registers\<close>

text \<open>The structure a register number of \<open>dev.h\<close> transfers.\<close>

datatype dev_data =
    UART_CONFIG bool
  | TIMER_CONFIG bool bool
  | TIMER_RTC timer_rtc_data
  | TIMER_UPTIME u64
  | INPUT_CONFIG bool
  | INPUT_KEYBRD input_keybrd_data
  | GPU_CONFIG gpu_config
  | GPU_STATUS bool
  | GPU_FBDRAW gpu_fbdraw_ctl

type_synonym handler = "(nat \<Rightarrow> host) \<Rightarrow> dev_data \<Rightarrow> (dev_data, sim) prog"

definition lut :: "nat \<Rightarrow> handler option" where
  "lut reg =
     (if reg = 4 then Some (\<lambda>e _. Returns (TIMER_CONFIG True True))
      else if reg = 5 then Some (\<lambda>e _. gbind (timer_rtc e) (\<lambda>d. Returns (TIMER_RTC d)))
      else if reg = 6 then Some (\<lambda>e _. gbind (timer_uptime e) (\<lambda>d. Returns (TIMER_UPTIME d)))
      else if reg = 7 then Some (\<lambda>e _. Returns (INPUT_CONFIG True))
      else if reg = 8 then Some (\<lambda>e _. gbind (input_keybrd (e 0)) (\<lambda>d. Returns (INPUT_KEYBRD d)))
      else if reg = 9 then Some (\<lambda>e _. gbind (gpu_config (e 0)) (\<lambda>d. Returns (GPU_CONFIG d)))
      else if reg = 11 then Some (\<lambda>e buf. case buf of
          GPU_FBDRAW ctl \<Rightarrow> gbind (gpu_fbdraw (e 0) ctl) (\<lambda>_. Returns buf)
        | _ \<Rightarrow> (\<lambda>_. Faulted Out_of_bounds))
      else if reg = 10 then Some (\<lambda>e _. Returns (GPU_STATUS True))
      else if reg = 1 then Some (\<lambda>e _. Returns (UART_CONFIG False))
      else None)"

definition fail :: "u8 list \<Rightarrow> handler" where
  "fail loc = (\<lambda>e _. panic (e 0) loc (cstr ''unhandled ioe port''))"

text \<open>The table after \<open>ioe_init\<close>; the two device initialisations are empty.\<close>

definition ioe_init :: "u8 list \<Rightarrow> nat \<Rightarrow> handler option" where
  "ioe_init loc = (\<lambda>i. if i < 128 then (case lut i of None \<Rightarrow> Some (fail loc) | Some h \<Rightarrow> Some h) else None)"

text \<open>A call through an empty entry or beyond the table goes nowhere in C.\<close>

definition ioe_read :: "(nat \<Rightarrow> handler option) \<Rightarrow> (nat \<Rightarrow> host) \<Rightarrow> nat \<Rightarrow> dev_data \<Rightarrow> (dev_data, sim) prog" where
  "ioe_read table e reg buf = (case table reg of None \<Rightarrow> (\<lambda>_. Faulted Out_of_bounds) | Some h \<Rightarrow> h e buf)"

definition ioe_write :: "(nat \<Rightarrow> handler option) \<Rightarrow> (nat \<Rightarrow> host) \<Rightarrow> nat \<Rightarrow> dev_data \<Rightarrow> (dev_data, sim) prog" where
  "ioe_write table e reg buf = (case table reg of None \<Rightarrow> (\<lambda>_. Faulted Out_of_bounds) | Some h \<Rightarrow> h e buf)"

section \<open>Device accesses\<close>

lemma device_addr:
  assumes "attached s" and "m \<in> set device_maps" and "map_inside m a"
  shows "\<not> sim_in_pmem a"
proof -
  have "\<forall>m \<in> set device_maps. 0x88000000 \<le> low m" by (simp add: device_maps_def)
  then have "0x88000000 \<le> low m" using assms(2) by blast
  then have "0x88000000 \<le> a" using assms(3) unfolding map_inside_def by (meson order_trans)
  then show ?thesis by (simp add: sim_in_pmem_iff word_le_nat_alt)
qed

lemma guest_device:
  assumes "attached s" and "m \<in> set device_maps" and "map_inside m a"
  shows "guest_load e a lg s = glift (mmio_read (device_fun e) a (2 ^ unat lg)) s"
    and "guest_store e a lg d s = glift (\<lambda>s. rbind (mmio_write (device_fun e) a (2 ^ unat lg) d s) (\<lambda>s. Inr ((), s))) s"
  using device_addr [OF assms]
  by (simp_all add: guest_load_def guest_store_def dpi_read_def dpi_write_def bus_read_def bus_write_def glift_def)

text \<open>A word access to a region without device function.\<close>

lemma guest_plain:
  assumes "attached s" and "m \<in> set device_maps" and "map_inside m a" and "callback m = None"
    and "0 \<le> space m" and "space m + int (unat (a - low m)) + 4 \<le> int IO_SPACE_MAX"
  defines "p \<equiv> nat (space m + int (unat (a - low m)))"
  shows "inl e a s = Returns (word_of_bytes (load (io_space s) p 4)) (s\<lparr>skip_ref := True\<rparr>)"
    and "outl e a d s = Returns () (s\<lparr>skip_ref := True, io_space := store (io_space s) p (bytes_of_word 4 d)\<rparr>)"
  unfolding inl_def outl_def guest_device [OF assms(1-3)] p_def
  using assms(5,6) mmio_device [OF assms(1-3), of 4]
  by (simp_all add: glift_def assms(4) invoke_callback_def io_host_simps)

lemmas addr_simps = MMIO_BASE_def SERIAL_PORT_def KBD_ADDR_def RTC_ADDR_def VGACTL_ADDR_def FFB_ADDR_def
  DISK_CTL_ADDR_def SYNC_ADDR_def

lemma attached_update [simp]:
  "attached (s\<lparr>io_space := m\<rparr>) = attached s" "attached (s\<lparr>skip_ref := b\<rparr>) = attached s"
  "attached (s\<lparr>serial_out := out\<rparr>) = attached s" "attached (s\<lparr>sim_pmem := m\<rparr>) = attached s"
  "attached (s\<lparr>texture := m\<rparr>) = attached s" "attached (s\<lparr>kbd := q\<rparr>) = attached s"
  by (simp_all add: attached_def)

end
