(* ===== verification/Base_Services.thy ===== *)
theory Base_Services
  imports Base_Drivers
begin

text \<open>
  What the drivers of \<open>software/base-port\<close> achieve together with the simulator's devices: text goes
  out, keys come in, pictures reach the window, the disk is read and the clock tells the time.
\<close>

section \<open>Output\<close>

lemma putch_eq:
  assumes "attached s"
  shows "putch e c s = Returns () (s\<lparr>skip_ref := True,
    io_space := store (io_space s) 0 (bytes_of_word 1 (ucast c :: u32)), serial_out := serial_out s @ [c]\<rparr>)"
proof -
  have u: "ucast (ucast c :: u32) = c" by (rule bit_word_eqI) (auto simp: bit_simps)
  have i: "map_inside serial_map SERIAL_PORT" by (simp add: addr_simps device_maps_def map_inside_def)
  have "SERIAL_PORT = 0xa00003f8" by (simp add: addr_simps)
  then show ?thesis
    using serial_put [OF assms, of e "ucast c"] u
    by (simp add: putch_def outb_def guest_device [OF assms device_in i] glift_def)
qed

lemma putch_run:
  assumes "attached s"
  shows "\<exists>s'. putch e c s = Returns () s' \<and> attached s' \<and> serial_out s' = serial_out s @ [c]"
  using assms by (simp add: putch_eq)

text \<open>Sending text only touches the transmit register.\<close>

definition sent :: "u8 list \<Rightarrow> sim \<Rightarrow> sim \<Rightarrow> bool" where
  "sent cs s s' \<longleftrightarrow> s' = s\<lparr>skip_ref := skip_ref s', io_space := io_space s', serial_out := serial_out s @ cs\<rparr> \<and>
     (\<forall>k\<ge>1. io_space s' k = io_space s k)"

lemma sent_refl: "sent [] s s"
  by (simp add: sent_def)

lemma sent_trans: "sent cs s t \<Longrightarrow> sent ds t u \<Longrightarrow> sent (cs @ ds) s u"
  unfolding sent_def
proof (elim conjE, intro conjI)
  assume t: "t = s\<lparr>skip_ref := skip_ref t, io_space := io_space t, serial_out := serial_out s @ cs\<rparr>"
    and u: "u = t\<lparr>skip_ref := skip_ref u, io_space := io_space u, serial_out := serial_out t @ ds\<rparr>"
  have o: "serial_out t = serial_out s @ cs" by (subst t, simp)
  show "u = s\<lparr>skip_ref := skip_ref u, io_space := io_space u, serial_out := serial_out s @ cs @ ds\<rparr>"
    by (subst u, subst t, simp add: o)
qed simp

lemma sent_fields:
  assumes "sent cs s s'"
  shows "attached s' = attached s" and "serial_out s' = serial_out s @ cs" and "sim_pmem s' = sim_pmem s"
    and "ramdisk s' = ramdisk s" and "kbd s' = kbd s"
proof -
  have s': "s' = s\<lparr>skip_ref := skip_ref s', io_space := io_space s', serial_out := serial_out s @ cs\<rparr>"
    using assms by (simp add: sent_def)
  show "attached s' = attached s" "serial_out s' = serial_out s @ cs" "sim_pmem s' = sim_pmem s"
    "ramdisk s' = ramdisk s" "kbd s' = kbd s"
    by (subst s', simp)+
qed

lemma send_run:
  assumes "attached s"
  shows "\<exists>s'. gfor cs (putch e) s = Returns () s' \<and> sent cs s s'"
  using assms
proof (induction cs arbitrary: s)
  case (Cons c cs)
  let ?t = "s\<lparr>skip_ref := True, io_space := store (io_space s) 0 (bytes_of_word 1 (ucast c :: u32)), serial_out := serial_out s @ [c]\<rparr>"
  have t: "putch e c s = Returns () ?t" "sent [c] s ?t" "attached ?t"
    using putch_eq [OF Cons.prems] Cons.prems by (auto simp: sent_def store_outside)
  then show ?case using Cons.IH [OF t(3)] sent_trans [OF t(2)] by (auto simp: gbind_def)
qed (simp add: sent_refl)

lemma putstr_run:
  assumes "attached s"
  shows "\<exists>s'. putstr e cs s = Returns () s' \<and> attached s' \<and> serial_out s' = serial_out s @ takeWhile (\<lambda>c. c \<noteq> 0) cs"
proof -
  obtain s' where s': "putstr e cs s = Returns () s'" "sent (takeWhile (\<lambda>c. c \<noteq> 0) cs) s s'"
    using send_run [OF assms] unfolding putstr_def by blast
  then show ?thesis using assms sent_fields [OF s'(2)] by blast
qed

lemma panic_run:
  assumes "attached s" and "0 \<notin> set loc" and "0 \<notin> set msg"
  shows "\<exists>s'. panic e loc msg s = Halted 1 s' \<and> serial_out s' =
    serial_out s @ cstr ''Panic: '' @ msg @ cstr '' @ '' @ loc @ cstr ''  '' @ [10]"
proof -
  have nz: "takeWhile (\<lambda>c. c \<noteq> 0) xs = xs" if "0 \<notin> set xs" for xs :: "u8 list"
    using that by (simp add: takeWhile_eq_all_conv) metis
  have lit: "0 \<notin> set (cstr ''Panic: '')" "0 \<notin> set (cstr '' @ '' @ loc @ cstr ''  '' @ [10])"
    using assms(2) by (simp_all add: cstr_def)
  obtain s1 where 1: "putstr e (cstr ''Panic: '') s = Returns () s1" "attached s1"
    "serial_out s1 = serial_out s @ cstr ''Panic: ''"
    using putstr_run [OF assms(1), of e "cstr ''Panic: ''"] nz [OF lit(1)] by auto
  obtain s2 where 2: "putstr e msg s1 = Returns () s2" "attached s2" "serial_out s2 = serial_out s1 @ msg"
    using putstr_run [OF 1(2), of e msg] nz [OF assms(3)] by auto
  obtain s3 where 3: "putstr e (cstr '' @ '' @ loc @ cstr ''  '' @ [10]) s2 = Returns () s3"
    "serial_out s3 = serial_out s2 @ cstr '' @ '' @ loc @ cstr ''  '' @ [10]"
    using putstr_run [OF 2(2), of e] nz [OF lit(2)] by metis
  show ?thesis
    unfolding panic_def using 1 2 3 by (simp add: gbind_def halt_def)
qed

text \<open>A device register of the table without a driver stops the machine with code 1 after
  printing the panic message; a register with a driver never does, and a number beyond the table is
  an access out of bounds.\<close>

lemma ioe_unhandled:
  assumes "attached s" and "0 \<notin> set loc"
  shows "(reg < 128 \<and> lut reg = None \<longrightarrow> (\<exists>s'. ioe_read (ioe_init loc) e reg buf s = Halted 1 s' \<and>
      serial_out s' = serial_out s @ cstr ''Panic: unhandled ioe port @ '' @ loc @ cstr ''  '' @ [10])) \<and>
    (reg \<in> {1, 4, 5, 6, 7, 8, 9, 10, 11} \<longleftrightarrow> lut reg \<noteq> None) \<and>
    (128 \<le> reg \<longrightarrow> ioe_read (ioe_init loc) e reg buf s = Faulted Out_of_bounds)"
proof (intro conjI impI)
  assume r: "reg < 128 \<and> lut reg = None"
  have "0 \<notin> set (cstr ''unhandled ioe port'')" by (simp add: cstr_def)
  from panic_run [OF assms this, of "e 0"] r
  show "\<exists>s'. ioe_read (ioe_init loc) e reg buf s = Halted 1 s' \<and>
      serial_out s' = serial_out s @ cstr ''Panic: unhandled ioe port @ '' @ loc @ cstr ''  '' @ [10]"
    by (simp add: ioe_read_def ioe_init_def fail_def cstr_def)
qed (auto simp: lut_def ioe_read_def ioe_init_def)

lemma ioe_unhandled_witness:
  "\<exists>s. ioe_read (ioe_init []) (\<lambda>_. quiet_host) 2 (UART_CONFIG True) ready = Halted 1 s \<and>
     ioe_read (ioe_init []) (\<lambda>_. quiet_host) 200 (UART_CONFIG True) ready = Faulted Out_of_bounds"
  using ioe_unhandled [OF ready_attached, of "[]" 2 "\<lambda>_. quiet_host" "UART_CONFIG True"]
    ioe_unhandled [OF ready_attached, of "[]" 200 "\<lambda>_. quiet_host" "UART_CONFIG True"]
  by auto

section \<open>Keyboard\<close>

lemma keybrd_of_code:
  assumes "i < 82"
  shows "keybrd_of (key_code i down) = \<lparr>keydown = down, keycode = of_nat (i + 1)\<rparr>"
proof -
  let ?x = "of_nat (i + 1) :: u32"
  have "unat ?x = i + 1" using assms by (subst unsigned_of_nat) (simp add: take_bit_nat_eq_self)
  then have "take_bit 15 ?x = ?x" using assms by (intro take_bit_word_self) simp
  then have x: "\<not> bit ?x 15" by (metis bit_take_bit_iff less_irrefl)
  have m: "KEYDOWN_MASK = 2 ^ 15" by (simp add: KEYDOWN_MASK_def)
  have "(?x OR (if down then KEYDOWN_MASK else 0)) AND KEYDOWN_MASK = (if down then KEYDOWN_MASK else 0)"
    unfolding m by (rule bit_word_eqI) (use x in \<open>auto simp only: bit_and_iff bit_or_iff bit_exp_iff bit_0_eq bot_apply bot_bool_def possible_bit_word split: if_splits\<close>)
  moreover have "(?x OR (if down then KEYDOWN_MASK else 0)) AND NOT KEYDOWN_MASK = ?x"
    unfolding m by (rule bit_word_eqI) (use x in \<open>auto simp only: bit_and_iff bit_or_iff bit_not_iff bit_exp_iff bit_0_eq bot_apply bot_bool_def possible_bit_word split: if_splits\<close>)
  ultimately show ?thesis by (simp add: keybrd_of_def key_code_def m)
qed

text \<open>Repeated reads of the keyboard.\<close>

fun read_keys :: "host \<Rightarrow> nat \<Rightarrow> (input_keybrd_data list, sim) prog" where
  "read_keys e 0 = Returns []"
| "read_keys e (Suc n) = gbind (input_keybrd e) (\<lambda>k. gbind (read_keys e n) (\<lambda>ks. Returns (k # ks)))"

lemma input_keybrd_run:
  assumes "attached s"
  shows "input_keybrd e s = Returns (keybrd_of (fst (bus_dequeue e s))) (snd (bus_dequeue e s)) \<and>
    attached (snd (bus_dequeue e s))"
proof -
  have i: "map_inside kbd_map KBD_ADDR" and a: "KBD_ADDR = 0xa0000060"
    by (simp_all add: addr_simps device_maps_def map_inside_def)
  obtain s' where "mmio_read (device_fun e) 0xa0000060 4 s = Inr (bus_dequeue e s)"
    "bus_dequeue e s = (fst (key_dequeue (kbd s)), s')" "attached s'"
    using bus_dequeue_eq [OF assms] by blast
  then have "mmio_read (device_fun e) KBD_ADDR 4 s = Inr (fst (bus_dequeue e s), snd (bus_dequeue e s))"
    "attached (snd (bus_dequeue e s))" by (simp_all add: a)
  then show ?thesis
    using guest_device(1) [OF assms device_in i, of e 2] by (simp add: input_keybrd_def inl_def gbind_def glift_def split_beta)
qed

lemma read_keys_drain:
  "attached s \<Longrightarrow> \<exists>s'. read_keys e n s = Returns (map keybrd_of (fst (drain (bus_dequeue e) n s))) s'"
proof (induction n arbitrary: s)
  case (Suc n)
  let ?s = "snd (bus_dequeue e s)"
  have r: "input_keybrd e s = Returns (keybrd_of (fst (bus_dequeue e s))) ?s" "attached ?s"
    using input_keybrd_run [OF Suc.prems] by blast+
  obtain s' where "read_keys e n ?s = Returns (map keybrd_of (fst (drain (bus_dequeue e) n ?s))) s'"
    using Suc.IH [OF r(2)] by blast
  then show ?case using r by (simp add: gbind_def split: prod.split)
qed simp

lemma handle_keys_attached:
  "rfold handle_event evs s = Inr s' \<Longrightarrow> attached s \<Longrightarrow> attached s'"
  by (erule rfold_invariant)
    (auto simp: handle_event_def send_key_def Let_def rbind_eq_Inr_iff attached_def split: sdl_event.splits if_splits)

text \<open>C14: Key presses and releases reach the program: after up to 1023 key events of the window, the
  keyboard driver reports the same keys in the same order, each with its direction and its number in
  the table, and then that there is no key; one event more stops the simulator (queue overflow).\<close>

theorem keyboard_end_to_end:
  assumes "scancodes_ok sc" and "keymap_ready sc s" and "kbd_ok s" and "queued (kbd s) = []"
    and "\<forall>(i, _) \<in> set evs. i < length KEYS"
  shows "if length evs \<le> 1023
    then \<exists>s1 s2. rfold handle_event (map (key_event sc) evs) s = Inr s1 \<and>
      read_keys e (length evs + n) s1 = Returns
        (map (\<lambda>(i, down). \<lparr>keydown = down, keycode = of_nat (i + 1)\<rparr>) evs @
         replicate n \<lparr>keydown = False, keycode = 0\<rparr>) s2
    else rfold handle_event (map (key_event sc) evs) s = Inl Assertion"
proof -
  note run = keyboard_run [OF assms, of e n]
  have keys: "map keybrd_of (map (\<lambda>(i, down). key_code i down) evs @ replicate n KEY_NONE) =
      map (\<lambda>(i, down). \<lparr>keydown = down, keycode = of_nat (i + 1)\<rparr>) evs @ replicate n \<lparr>keydown = False, keycode = 0\<rparr>"
  proof -
    have "keybrd_of (key_code i down) = \<lparr>keydown = down, keycode = of_nat (i + 1)\<rparr>" if "(i, down) \<in> set evs" for i down
      using assms(5) that by (intro keybrd_of_code) (auto simp: length_KEYS)
    moreover have "keybrd_of KEY_NONE = \<lparr>keydown = False, keycode = 0\<rparr>" by (simp add: keybrd_of_def KEY_NONE_def)
    ultimately show ?thesis by (auto simp: map_replicate_const)
  qed
  show ?thesis
  proof (cases "length evs \<le> 1023")
    case True
    then obtain s1 where s1: "rfold handle_event (map (key_event sc) evs) s = Inr s1"
      "fst (drain (bus_dequeue e) (length evs + n) s1) = map (\<lambda>(i, down). key_code i down) evs @ replicate n KEY_NONE"
      using run by auto
    have "attached s1" using handle_keys_attached [OF s1(1)] assms(3) by (simp add: kbd_ok_def)
    then obtain s2 where "read_keys e (length evs + n) s1 = Returns (map keybrd_of
        (map (\<lambda>(i, down). key_code i down) evs @ replicate n KEY_NONE)) s2"
      using read_keys_drain [of s1 e "length evs + n"] unfolding s1(2) by blast
    then show ?thesis using True s1(1) unfolding keys by simp
  next
    case False
    then show ?thesis using run by simp
  qed
qed

lemma keyboard_end_to_end_witness:
  "\<exists>s1 s2. rfold handle_event (map (key_event position) [(0, True), (0, False)])
      (ready\<lparr>kbd := init_keymap position (kbd power_on)\<rparr>) = Inr s1 \<and>
     read_keys quiet_host 3 s1 = Returns [\<lparr>keydown = True, keycode = 1\<rparr>, \<lparr>keydown = False, keycode = 1\<rparr>,
       \<lparr>keydown = False, keycode = 0\<rparr>] s2"
proof -
  let ?s = "ready\<lparr>kbd := init_keymap position (kbd power_on)\<rparr>"
  have "keymap_ready position ?s"
    by (rule init_keymap_ready [OF position_ok]) (simp add: ready_def power_on_def)
  moreover have "kbd_ok ?s" "queued (kbd ?s) = []"
    using ready_attached
    by (simp_all add: kbd_ok_def attached_def queue_ok_def queued_def init_keymap_def power_on_def KEY_QUEUE_LEN_def)
  ultimately show ?thesis
    using keyboard_end_to_end [OF position_ok, of ?s "[(0, True), (0, False)]" quiet_host 1]
    by (simp add: length_KEYS numeral_3_eq_3 del: rfold.simps read_keys.simps)
qed

section \<open>Clock\<close>

text \<open>The up-time the program sees joins the high half of the first clock reading with the low
  half of the second: it is the time since start when the high half has not changed in between, and
  is off by a multiple of \<open>2 ^ 32\<close> microseconds when it has.\<close>

lemma timer_uptime_correct:
  assumes "attached s" and "boot_time s \<noteq> 0"
  shows "\<exists>t s'. timer_uptime e s = Returns t s' \<and>
    (let us1 = tod2 (e 0) - boot_time s; us2 = tod2 (e 1) - boot_time s in
     unat t = unat us1 div 2 ^ 32 * 2 ^ 32 + unat us2 mod 2 ^ 32 \<and>
     (t = us2 \<longleftrightarrow> unat us1 div 2 ^ 32 = unat us2 div 2 ^ 32))"
proof -
  define us1 where "us1 = tod2 (e 0) - boot_time s"
  define us2 where "us2 = tod2 (e 1) - boot_time s"
  have i: "map_inside rtc_map (RTC_ADDR + 4)" "map_inside rtc_map RTC_ADDR"
    by (simp_all add: addr_simps device_maps_def map_inside_def)
  have a: "RTC_ADDR + 4 = 0xa0000040 + 4 * of_nat 1" "RTC_ADDR = 0xa0000040 + 4 * of_nat 0"
    by (simp_all add: addr_simps)
  obtain s1 where s1: "mmio_read (device_fun (e 0)) (RTC_ADDR + 4) 4 s = Inr (ucast (drop_bit 32 us1), s1)"
    "attached s1" "boot_time s1 = boot_time s"
    using rtc_run [OF assms(1), of 1 "e 0"] assms(2) unfolding a us1_def by (auto simp: rtc_words_def Let_def)
  obtain s2 where s2: "mmio_read (device_fun (e 1)) RTC_ADDR 4 s1 = Inr (ucast us2, s2)"
    using rtc_run [OF s1(2), of 0 "e 1"] assms(2) s1(3) unfolding a us2_def by (auto simp: rtc_words_def Let_def)
  define t where "t = (push_bit 32 (ucast (ucast (drop_bit 32 us1) :: u32)) OR ucast (ucast us2 :: u32) :: u64)"
  have "timer_uptime e s = Returns t s2"
    using s1 s2 by (simp add: timer_uptime_def inl_def guest_device [OF assms(1) device_in i(1), simplified]
        guest_device [OF s1(2) device_in i(2), simplified] gbind_def glift_def t_def)
  moreover have ut: "unat t = unat us1 div 2 ^ 32 * 2 ^ 32 + unat us2 mod 2 ^ 32"
  proof -
    have tb: "t = push_bit 32 (drop_bit 32 us1) OR take_bit 32 us2"
      unfolding t_def by (rule bit_word_eqI) (auto simp: bit_simps)
    have "push_bit 32 (drop_bit 32 us1) AND take_bit 32 us2 = 0"
      by (rule bit_word_eqI) (auto simp: bit_simps)
    then have "t = push_bit 32 (drop_bit 32 us1) + take_bit 32 us2"
      using tb by (simp add: disjunctive_add_eq_or)
    moreover have "unat us1 < 2 ^ 64" using unsigned_less [of us1] by simp
    then have A: "unat (push_bit 32 (drop_bit 32 us1)) = unat us1 div 2 ^ 32 * 2 ^ 32"
      by (simp only: unsigned_push_bit_eq unsigned_drop_bit_eq push_bit_eq_mult [where 'a = nat]
          drop_bit_eq_div [where 'a = nat]) (simp add: take_bit_nat_eq_self)
    moreover have B: "unat (take_bit 32 us2) = unat us2 mod 2 ^ 32"
      by (simp only: unsigned_take_bit_eq take_bit_eq_mod [where 'a = nat])
    have "unat us1 div 2 ^ 32 < 2 ^ 32" using \<open>unat us1 < 2 ^ 64\<close> by simp
    then have "unat us1 div 2 ^ 32 * 2 ^ 32 + unat us2 mod 2 ^ 32 < 2 ^ 64" by simp
    ultimately show ?thesis using A B unat_add_lem [of "push_bit 32 (drop_bit 32 us1)" "take_bit 32 us2"] by simp
  qed
  moreover have "t = us2 \<longleftrightarrow> unat us1 div 2 ^ 32 = unat us2 div 2 ^ 32"
  proof -
    have "unat us2 = unat us2 div 2 ^ 32 * 2 ^ 32 + unat us2 mod 2 ^ 32" by (rule div_mult_mod_eq [symmetric])
    moreover have "(a :: nat) * 2 ^ 32 + r = b * 2 ^ 32 + r \<longleftrightarrow> a = b" for a b r by simp
    ultimately show ?thesis unfolding word_unat_eq_iff ut by metis
  qed
  ultimately show ?thesis unfolding Let_def us1_def [symmetric] us2_def [symmetric] by blast
qed

lemma timer_uptime_correct_witness:
  "\<exists>t s. timer_uptime (\<lambda>i. quiet_host\<lparr>tod2 := 0x1fffffff0 + 0x20 * of_nat i\<rparr>) (ready\<lparr>boot_time := 1\<rparr>) = Returns t s \<and>
     unat t = 0x10000000f"
proof -
  have "attached (ready\<lparr>boot_time := 1\<rparr>)" using ready_attached by (simp add: attached_def)
  from timer_uptime_correct [OF this, of "\<lambda>i. quiet_host\<lparr>tod2 := 0x1fffffff0 + 0x20 * of_nat i\<rparr>"]
  show ?thesis by auto
qed

section \<open>Screen\<close>

abbreviation "vgactl_map \<equiv> device_maps ! 2"
abbreviation "ffb_map \<equiv> device_maps ! 4"
abbreviation "ffbdraw_map \<equiv> device_maps ! 5"
abbreviation "diskctl_map \<equiv> device_maps ! 7"

text \<open>Register \<open>i\<close> of a plain region.\<close>

lemma outl_reg:
  assumes "attached s" and "(j :: nat, base, n :: nat, p :: nat) \<in> {(2, 0xa0000100, 2, 0x2000), (4, 0xa2000000, 7, 0x79000), (7, 0xa0000300, 3, 0x7c000)}"
    and "i < n"
  shows "outl e (base + 4 * of_nat i) d s =
      Returns () (s\<lparr>skip_ref := True, io_space := store (io_space s) (p + 4 * i) (bytes_of_word 4 d)\<rparr>)"
    and "inl e (base + 4 * of_nat i) s =
      Returns (word_of_bytes (load (io_space s) (p + 4 * i) 4)) (s\<lparr>skip_ref := True\<rparr>)"
proof -
  let ?m = "device_maps ! j"
  have m: "low ?m = base" "callback ?m = None" "space ?m = int p" "j < 9"
    "unat (high ?m) + 1 = unat base + 4 * n" "unat base + 4 * n < 2 ^ 32" "n \<le> 7" "p + 4 * n \<le> 0x80000"
    using assms(2) by (auto simp: device_maps_def)
  have i: "unat (4 * of_nat i :: u32) = 4 * i"
  proof -
    have "(4 * of_nat i :: u32) = of_nat (4 * i)" by simp
    then show ?thesis using m(7) assms(3) by (simp add: unsigned_of_nat take_bit_nat_eq_self del: of_nat_mult)
  qed
  have "unat (base + 4 * of_nat i) = unat base + 4 * i"
    using m(6) assms(3) i by (subst unat_add_lem [THEN iffD1]) auto
  then have inside: "map_inside ?m (base + 4 * of_nat i)"
    using m(1,5) assms(3) by (auto simp: map_inside_def word_le_nat_alt)
  have fits: "space ?m + int (unat (base + 4 * of_nat i - low ?m)) + 4 \<le> int IO_SPACE_MAX"
    using m(1,3,8) assms(3) by (simp add: i IO_SPACE_MAX_def flip: uint_nat)
  have pos: "nat (space ?m + int (unat (base + 4 * of_nat i - low ?m))) = p + 4 * i"
    using m(1,3) by (simp add: i flip: uint_nat) 
  note g = guest_plain [OF assms(1) device_in [OF m(4)] inside m(2) _ fits, unfolded pos]
  show "outl e (base + 4 * of_nat i) d s =
      Returns () (s\<lparr>skip_ref := True, io_space := store (io_space s) (p + 4 * i) (bytes_of_word 4 d)\<rparr>)"
    "inl e (base + 4 * of_nat i) s =
      Returns (word_of_bytes (load (io_space s) (p + 4 * i) 4)) (s\<lparr>skip_ref := True\<rparr>)"
    using g m(3) by simp_all
qed

lemmas vga_reg = outl_reg [where j = 2 and base = "0xa0000100" and n = 2 and p = "0x2000", simplified]
lemmas ffb_reg = outl_reg(1) [where j = 4 and base = "0xa2000000" and n = 7 and p = "0x79000", simplified]
lemmas disk_reg = outl_reg(1) [where j = 7 and base = "0xa0000300" and n = 3 and p = "0x7c000", simplified]

lemmas ffb_regs = ffb_reg [where i = 0, simplified] ffb_reg [where i = 1, simplified] ffb_reg [where i = 2, simplified]
  ffb_reg [where i = 3, simplified] ffb_reg [where i = 4, simplified] ffb_reg [where i = 5, simplified]
  ffb_reg [where i = 6, simplified]
lemmas vga_regs = vga_reg(1) [where i = 1, simplified] vga_reg(2) [where i = 0, simplified]
lemmas disk_regs = disk_reg [where i = 0, simplified] disk_reg [where i = 1, simplified] disk_reg [where i = 2, simplified]

lemma ffb_draw_store:
  assumes "attached s"
  shows "outl e 0xa200001c d s = glift (\<lambda>s. rbind (fast_fb_draw 0 4 True
      (s\<lparr>skip_ref := True, io_space := store (io_space s) 0x7a000 (bytes_of_word 4 d)\<rparr>)) (\<lambda>s. Inr ((), s))) s"
proof -
  have m: "callback ffbdraw_map = Some Fast_fb_draw" "low ffbdraw_map = 0xa200001c" "space ffbdraw_map = 0x7a000"
    "map_inside ffbdraw_map 0xa200001c"
    by (simp_all add: device_maps_def map_inside_def)
  show ?thesis
    by (simp add: outl_def guest_device [OF assms device_in [of 5] m(4)] mmio_device [OF assms device_in [of 5] m(4)]
        m io_host_simps IO_SPACE_MAX_def invoke_callback_def device_fun_def glift_def)
qed

text \<open>The words the driver leaves in the drawing registers.\<close>

definition ffb_args :: "gpu_fbdraw_ctl \<Rightarrow> u32 list" where
  "ffb_args ctl = [fb_x ctl, fb_y ctl, fb_w ctl, fb_h ctl, 400, 300, fb_pixels ctl]"

definition ffb_ready :: "gpu_fbdraw_ctl \<Rightarrow> sim \<Rightarrow> sim" where
  "ffb_ready ctl s = s\<lparr>skip_ref := True, io_space :=
     store (store (io_space s) 0x79000 (concat (map (bytes_of_word 4) (ffb_args ctl)))) 0x7a000 (bytes_of_word 4 (0 :: u32))\<rparr>"

lemma gpu_fbdraw_eval:
  assumes "attached s" and "port_get s 0x2000 0 = Inr 0x0190012c"
    and "fast_fb_draw 0 4 True (ffb_ready ctl s) = Inr s'" and "attached s'"
  shows "gpu_fbdraw e ctl s = Returns () (if fb_sync ctl
    then s'\<lparr>skip_ref := True, io_space := store (io_space s') 0x2004 (bytes_of_word 4 (1 :: u32))\<rparr> else s')"
proof -
  have sz: "word_of_bytes (load (io_space s) 0x2000 4) = (0x0190012c :: u32)"
    using assms(2) by (simp add: port_get_eq IO_SPACE_MAX_def)
  have wh: "drop_bit 16 (0x0190012c :: u32) AND 0x0ffff = 400" "(0x0190012c :: u32) AND 0x0ffff = 300"
    by simp_all
  have "fast_fb_draw 0 4 True (s\<lparr>skip_ref := True, io_space :=
      store (store (io_space s) 0x79000 (concat (map (bytes_of_word 4) (ffb_args ctl)))) 0x7a000 (bytes_of_word 4 (0 :: u32))\<rparr>) = Inr s'"
    using assms(3) by (simp only: ffb_ready_def)
  then show ?thesis
    using assms(1,4) by (simp add: gpu_fbdraw_def addr_simps gbind_def vga_regs ffb_regs sz wh store_append ffb_draw_store
        glift_def ffb_args_def Let_def)
qed

lemma get_pixel_fb_store:
  assumes "k < 120000" and "0x78300 \<le> p \<or> p + length bs \<le> 0x3000"
  shows "get_pixel fb_base (store m p bs) k = get_pixel fb_base m k"
proof -
  have "p + length bs \<le> fb_base + 4 * k \<or> fb_base + 4 * k + 4 \<le> p" using assms by (auto simp: fb_base_def)
  then show ?thesis by (simp add: get_pixel_def load_store_disjoint)
qed

text \<open>The screen after the driver has drawn: the pixel at position \<open>k\<close>, counted row by row.\<close>

definition drawn_pixel :: "gpu_fbdraw_ctl \<Rightarrow> sim \<Rightarrow> nat \<Rightarrow> u32" where
  "drawn_pixel ctl s k =
     (let r = k div 400; c = k mod 400 in
      if unat (fb_y ctl) \<le> r \<and> r < min (unat (fb_y ctl) + unat (fb_h ctl)) 300 \<and>
         unat (fb_x ctl) \<le> c \<and> c < unat (fb_x ctl) + unat (fb_w ctl)
      then src_pixel s (fb_pixels ctl) ((r - unat (fb_y ctl)) * unat (fb_w ctl) + (c - unat (fb_x ctl)))
      else get_pixel fb_base (io_space s) k)"

definition draw_ok :: "gpu_fbdraw_ctl \<Rightarrow> bool" where
  "draw_ok ctl \<longleftrightarrow> unat (fb_x ctl) + unat (fb_w ctl) < 2 ^ 32 \<and> unat (fb_y ctl) + unat (fb_h ctl) < 2 ^ 32 \<and>
     fb_x ctl \<le> 400 \<and> 0x80000000 \<le> unat (fb_pixels ctl) \<and>
     unat (fb_pixels ctl) + 4 * (unat (fb_w ctl) * unat (fb_h ctl)) \<le> 0x88000000"

lemma gpu_fbdraw_run:
  assumes "attached s" and "port_get s 0x2000 0 = Inr 0x0190012c" and "draw_ok ctl"
  shows "\<exists>s'. gpu_fbdraw e ctl s = Returns () s' \<and> s' = s\<lparr>skip_ref := True, io_space := io_space s'\<rparr> \<and>
    (\<forall>k<120000. get_pixel fb_base (io_space s') k = drawn_pixel ctl s k) \<and>
    port_get s' 0x2000 0 = Inr 0x0190012c \<and>
    (fb_sync ctl \<longrightarrow> port_get s' 0x2000 1 = Inr 1)"
proof -
  let ?r = "ffb_ready ctl s"
  have args: "\<forall>i<7. port_get ?r 0x79000 i = Inr ([fb_x ctl, fb_y ctl, fb_w ctl, fb_h ctl, 400, 300, fb_pixels ctl] ! i)"
    by (simp add: all_less_numeral port_get_eq IO_SPACE_MAX_def load_store_within load_store_disjoint
        ffb_ready_def ffb_args_def byte_simps)
  have "attached ?r" using assms(1) by (simp add: ffb_ready_def)
  from fast_fb_draw_run [OF this args, of 0 4] assms(3) obtain t where
    t: "fast_fb_draw 0 4 True ?r = Inr t" "t = ?r\<lparr>io_space := io_space t\<rparr>"
    and lo: "\<And>a. a < fb_base \<Longrightarrow> io_space t a = io_space ?r a"
    and px: "\<And>k. get_pixel fb_base (io_space t) k =
      (if unat (fb_y ctl) \<le> k div 400 \<and> k div 400 < min (unat (fb_y ctl) + unat (fb_h ctl)) 300 \<and>
          unat (fb_x ctl) \<le> k mod 400 \<and> k mod 400 < min (unat (fb_x ctl) + unat (fb_w ctl)) 400
       then src_pixel ?r (fb_pixels ctl) ((k div 400 - unat (fb_y ctl)) * unat (fb_w ctl) + (k mod 400 - unat (fb_x ctl)))
       else get_pixel fb_base (io_space ?r) k)"
    by (auto simp: draw_ok_def)
  have at: "attached t" using \<open>attached ?r\<close> by (subst t(2)) simp
  have size: "word_of_bytes (load (io_space t) 0x2000 4) = (0x0190012c :: u32)"
  proof -
    have "load (io_space t) 0x2000 4 = load (io_space ?r) 0x2000 4"
      by (rule load_cong) (rule lo, simp add: fb_base_def)
    also have "\<dots> = load (io_space s) 0x2000 4"
      by (simp add: ffb_ready_def ffb_args_def load_store_disjoint)
    finally show ?thesis using assms(2) by (simp add: port_get_eq IO_SPACE_MAX_def)
  qed
  have pt: "get_pixel fb_base (io_space t) k = drawn_pixel ctl s k" if "k < 120000" for k
  proof -
    have "get_pixel fb_base (io_space ?r) k = get_pixel fb_base (io_space s) k"
      using that by (simp add: ffb_ready_def ffb_args_def get_pixel_fb_store)
    then show ?thesis by (simp add: px drawn_pixel_def Let_def) (simp add: ffb_ready_def)
  qed
  let ?u = "if fb_sync ctl then t\<lparr>skip_ref := True, io_space := store (io_space t) 0x2004 (bytes_of_word 4 (1 :: u32))\<rparr> else t"
  have "gpu_fbdraw e ctl s = Returns () ?u" by (rule gpu_fbdraw_eval [OF assms(1,2) t(1) at])
  moreover obtain m where m: "t = s\<lparr>skip_ref := True, io_space := m\<rparr>"
    using t(2) by (auto simp: ffb_ready_def)
  then have "?u = s\<lparr>skip_ref := True, io_space := io_space ?u\<rparr>"
    by (cases "fb_sync ctl") simp_all
  moreover have "get_pixel fb_base (io_space ?u) k = drawn_pixel ctl s k" if "k < 120000" for k
    using pt [OF that] that by (simp add: get_pixel_fb_store)
  moreover have "port_get ?u 0x2000 0 = Inr 0x0190012c"
    using size by (simp add: port_get_eq IO_SPACE_MAX_def load_store_disjoint)
  moreover have "fb_sync ctl \<Longrightarrow> port_get ?u 0x2000 1 = Inr 1"
    by (simp add: port_get_eq IO_SPACE_MAX_def byte_simps del: One_nat_def)
  ultimately show ?thesis by blast
qed

lemma vga_update_run:
  assumes "attached s" and "port_get s 0x2000 1 = Inr v"
  shows "vga_update_screen s = Inr (if v \<noteq> 0
    then s\<lparr>texture := (\<lambda>k. io_space s (fb_base + k)), io_space := store (io_space s) 0x2004 (bytes_of_word 4 (0 :: u32))\<rparr> else s)"
  using assms by (simp add: vga_update_screen_def update_screen_def attached_def device_ports_def port_set_ok
      IO_SPACE_MAX_def fb_base_def del: One_nat_def)

text \<open>C13: A drawing request reaches the window: the pixels of the program's rectangle that fit the 400
  by 300 screen are in the frame buffer at their place, all others are as before, the rest of the
  machine is unchanged; and with \<open>sync\<close> the next update shows exactly this picture in the window
  and takes the request back.\<close>

theorem gpu_fbdraw_correct:
  assumes "attached s" and "port_get s 0x2000 0 = Inr 0x0190012c" and "draw_ok ctl"
  shows "\<exists>s'. gpu_fbdraw e ctl s = Returns () s' \<and> s' = s\<lparr>skip_ref := True, io_space := io_space s'\<rparr> \<and>
    (\<forall>k<120000. get_pixel fb_base (io_space s') k = drawn_pixel ctl s k) \<and>
    (fb_sync ctl \<longrightarrow> (\<exists>s2. vga_update_screen s' = Inr s2 \<and>
       (\<forall>k<120000. get_pixel 0 (texture s2) k = drawn_pixel ctl s k) \<and> port_get s2 0x2000 1 = Inr 0))"
proof -
  obtain s' where s': "gpu_fbdraw e ctl s = Returns () s'" "s' = s\<lparr>skip_ref := True, io_space := io_space s'\<rparr>"
    "\<forall>k<120000. get_pixel fb_base (io_space s') k = drawn_pixel ctl s k" "fb_sync ctl \<longrightarrow> port_get s' 0x2000 1 = Inr 1"
    using gpu_fbdraw_run [OF assms] by blast
  have "attached s'" using assms(1) by (subst s'(2)) simp
  then have up: "fb_sync ctl \<Longrightarrow> vga_update_screen s' = Inr (s'\<lparr>texture := (\<lambda>k. io_space s' (fb_base + k)),
      io_space := store (io_space s') 0x2004 (bytes_of_word 4 (0 :: u32))\<rparr>)"
    using vga_update_run [of s' 1] s'(4) by (simp del: One_nat_def)
  have tex: "get_pixel 0 (\<lambda>k. io_space s' (fb_base + k)) k = get_pixel fb_base (io_space s') k" for k
  proof -
    have "load (\<lambda>k. io_space s' (fb_base + k)) (4 * k) 4 = load (io_space s') (fb_base + 4 * k) 4"
      by (rule nth_equalityI) (simp_all add: nth_load add.assoc)
    then show ?thesis by (simp add: get_pixel_def)
  qed
  show ?thesis
    using s' up by (intro exI [of _ s']) (auto simp: tex port_get_eq IO_SPACE_MAX_def byte_simps simp del: One_nat_def)
qed

text \<open>A two-pixel row at the right edge of the screen: one pixel is drawn.\<close>

lemma gpu_fbdraw_correct_witness:
  "\<exists>s1 s2. gpu_fbdraw quiet_host \<lparr>fb_x = 399, fb_y = 1, fb_pixels = 0x80001000, fb_w = 2, fb_h = 1, fb_sync = True\<rparr>
       (ready\<lparr>io_space := store (\<lambda>_. 0) 0x2000 (bytes_of_word 4 (0x0190012c :: u32)), sim_pmem := (\<lambda>_. 1)\<rparr>) = Returns () s1 \<and>
     vga_update_screen s1 = Inr s2 \<and> get_pixel 0 (texture s2) 799 = 0x01010101 \<and> get_pixel 0 (texture s2) 800 = 0"
proof -
  let ?ctl = "\<lparr>fb_x = 399, fb_y = 1, fb_pixels = 0x80001000, fb_w = 2, fb_h = 1, fb_sync = True\<rparr>"
  let ?s = "ready\<lparr>io_space := store (\<lambda>_. 0) 0x2000 (bytes_of_word 4 (0x0190012c :: u32)), sim_pmem := (\<lambda>_. 1)\<rparr>"
  have "attached ?s" using ready_attached by simp
  moreover have "port_get ?s 0x2000 0 = Inr 0x0190012c" by (simp add: port_get_eq IO_SPACE_MAX_def byte_simps)
  moreover have "draw_ok ?ctl" by (simp add: draw_ok_def)
  ultimately obtain s1 s2 where r: "gpu_fbdraw quiet_host ?ctl ?s = Returns () s1" "vga_update_screen s1 = Inr s2"
    and px: "\<And>k. k < 120000 \<Longrightarrow> get_pixel 0 (texture s2) k = drawn_pixel ?ctl ?s k"
    using gpu_fbdraw_correct [of ?s ?ctl quiet_host] by auto
  have "word_of_bytes (load (\<lambda>_. 1) 4096 4) = (0x01010101 :: u32)" by code_simp
  then have "drawn_pixel ?ctl ?s 799 = 0x01010101" by (simp add: drawn_pixel_def get_pixel_def)
  moreover have "load (store (\<lambda>_. 0) 8192 (bytes_of_word 4 (0x0190012c :: u32))) (fb_base + 3200) 4 = [0, 0, 0, 0]"
    by (simp add: load_store_disjoint fb_base_def) (simp add: load_def upt_rec_numeral)
  then have "drawn_pixel ?ctl ?s 800 = 0" by (simp add: drawn_pixel_def get_pixel_def)
  ultimately show ?thesis using r px [of 799] px [of 800] by auto
qed

section \<open>Disk\<close>

lemma ramdisk_cmd_eval:
  assumes "attached s"
  shows "ramdisk_cmd e buf offset len cmd s = glift (\<lambda>s. rbind (mmio_write (device_fun e) 0xa000030c 4 cmd s) (\<lambda>s. Inr (len, s)))
    (s\<lparr>skip_ref := True, io_space := store (io_space s) 0x7c000
       (concat (map (bytes_of_word 4) [ucast offset, buf, ucast len :: u32]))\<rparr>)"
proof -
  have i: "map_inside diskrw_map 0xa000030c" by (simp add: device_maps_def map_inside_def)
  have "outl e 0xa000030c d t = glift (\<lambda>s. rbind (mmio_write (device_fun e) 0xa000030c 4 d s) (\<lambda>s. Inr ((), s))) t"
    if "attached t" for d t
    using guest_device(2) [OF that device_in [of 8] i, of e 2] by (simp add: outl_def)
  then show ?thesis
    using assms by (simp add: ramdisk_cmd_def addr_simps gbind_def disk_regs store_append)
      (simp add: glift_def rbind_def split: sum.split)
qed

lemma ramdisk_run:
  assumes "attached s" and "unat offset + unat len \<le> length (ramdisk s)" and "unat offset < 2 ^ 32"
    and "unat len < 2 ^ 32" and "0x80000000 \<le> unat buf" and "unat buf + unat len \<le> 0x88000000"
    and "cmd \<in> {1, 2}"
  shows "\<exists>s'. ramdisk_cmd e buf offset len cmd s = Returns len s' \<and>
    s' = s\<lparr>skip_ref := True, io_space := io_space s', sim_pmem := sim_pmem s', ref_pmem := ref_pmem s'\<rparr> \<and>
    (\<forall>k<0x7c000. io_space s' k = io_space s k) \<and>
    (\<forall>k. sim_pmem s' k = (if cmd = 1 \<and> offset_of buf \<le> k \<and> k < offset_of buf + unat len
       then ramdisk s ! (unat offset + (k - offset_of buf)) else sim_pmem s k)) \<and>
    (cmd = 1 \<longrightarrow> (\<forall>k<CONFIG_MSIZE. ref_pmem s' k = sim_pmem s' k))"
proof -
  let ?s = "s\<lparr>skip_ref := True, io_space := store (io_space s) 0x7c000
       (concat (map (bytes_of_word 4) [ucast offset, buf, ucast len :: u32]))\<rparr>"
  have u: "unat (ucast offset :: u32) = unat offset" "unat (ucast len :: u32) = unat len"
    using assms(3,4) by (simp_all add: unsigned_ucast_eq take_bit_nat_eq_self)
  have args: "\<forall>i<3. port_get ?s 0x7c000 i = Inr ([ucast offset, buf, ucast len] ! i)"
    by (simp add: all_less_numeral port_get_eq IO_SPACE_MAX_def load_store_within byte_simps)
  have "attached ?s" using assms(1) by simp
  from disk_command_run [OF this args, of cmd e] assms(2,5-7) obtain s' where
    s': "mmio_write (device_fun e) 0xa000030c 4 cmd ?s = Inr s'"
    "s' = ?s\<lparr>skip_ref := True, io_space := io_space s', sim_pmem := sim_pmem s', ref_pmem := ref_pmem s'\<rparr>"
    "\<forall>k<0x7c00c. io_space s' k = io_space ?s k"
    "\<forall>k. sim_pmem s' k = (if cmd = 1 \<and> offset_of buf \<le> k \<and> k < offset_of buf + unat len
       then ramdisk s ! (unat offset + (k - offset_of buf)) else sim_pmem s k)"
    "cmd = 1 \<longrightarrow> (\<forall>k<CONFIG_MSIZE. ref_pmem s' k = sim_pmem s' k)"
    unfolding u by auto
  have "\<forall>k<0x7c000. io_space s' k = io_space s k" using s'(3) by (auto simp: store_outside)
  moreover have "s' = s\<lparr>skip_ref := True, io_space := io_space s', sim_pmem := sim_pmem s', ref_pmem := ref_pmem s'\<rparr>"
    by (subst s'(2)) simp
  ultimately show ?thesis
    using s'(1,4,5) by (intro exI [of _ s']) (simp add: ramdisk_cmd_eval [OF assms(1)] glift_def)
qed

text \<open>Reading the disk puts the image's bytes at the requested offset into the program's buffer and
  nowhere else, in the reference's memory too, and changes nothing but the devices' registers
  besides; writing the disk leaves memory and image unchanged.\<close>

lemma ramdisk_correct:
  assumes "attached s" and "unat offset + unat len \<le> length (ramdisk s)" and "unat offset < 2 ^ 32"
    and "unat len < 2 ^ 32" and "0x80000000 \<le> unat buf" and "unat buf + unat len \<le> 0x88000000"
  shows "\<exists>s1 s2. ramdisk_read e buf offset len s = Returns len s1 \<and>
    s1 = s\<lparr>skip_ref := True, io_space := io_space s1, sim_pmem := sim_pmem s1, ref_pmem := ref_pmem s1\<rparr> \<and>
    load (sim_pmem s1) (offset_of buf) (unat len) = take (unat len) (drop (unat offset) (ramdisk s)) \<and>
    (\<forall>k. k < offset_of buf \<or> offset_of buf + unat len \<le> k \<longrightarrow> sim_pmem s1 k = sim_pmem s k) \<and>
    (\<forall>k<CONFIG_MSIZE. ref_pmem s1 k = sim_pmem s1 k) \<and>
    ramdisk_write e buf offset len s = Returns len s2 \<and> sim_pmem s2 = sim_pmem s \<and> ramdisk s2 = ramdisk s"
proof -
  obtain s1 where s1: "ramdisk_read e buf offset len s = Returns len s1"
    "s1 = s\<lparr>skip_ref := True, io_space := io_space s1, sim_pmem := sim_pmem s1, ref_pmem := ref_pmem s1\<rparr>"
    "\<forall>k. sim_pmem s1 k = (if offset_of buf \<le> k \<and> k < offset_of buf + unat len
       then ramdisk s ! (unat offset + (k - offset_of buf)) else sim_pmem s k)"
    "\<forall>k<CONFIG_MSIZE. ref_pmem s1 k = sim_pmem s1 k"
    using ramdisk_run [OF assms, of 1 e] unfolding ramdisk_read_def by auto
  obtain s2 where s2: "ramdisk_write e buf offset len s = Returns len s2" "\<forall>k. sim_pmem s2 k = sim_pmem s k"
    "s2 = s\<lparr>skip_ref := True, io_space := io_space s2, sim_pmem := sim_pmem s2, ref_pmem := ref_pmem s2\<rparr>"
    using ramdisk_run [OF assms, of 2 e] unfolding ramdisk_write_def by auto
  have "load (sim_pmem s1) (offset_of buf) (unat len) = take (unat len) (drop (unat offset) (ramdisk s))"
    using assms(2) by (intro nth_equalityI) (simp_all add: nth_load s1(3))
  moreover have "ramdisk s2 = ramdisk s" by (subst s2(3)) simp
  moreover have "sim_pmem s2 = sim_pmem s" using s2(2) by (intro ext) simp
  ultimately show ?thesis using s1 s2(1) by auto
qed

lemma ramdisk_correct_witness:
  "\<exists>s. ramdisk_read quiet_host 0x80000010 2 4 (ready\<lparr>ramdisk := [1, 2, 3, 4, 5, 6, 7, 8]\<rparr>) = Returns 4 s \<and>
     load (sim_pmem s) 16 4 = [3, 4, 5, 6]"
proof -
  have "attached (ready\<lparr>ramdisk := [1, 2, 3, 4, 5, 6, 7, 8]\<rparr>)" using ready_attached by (simp add: attached_def)
  from ramdisk_correct [OF this, of 2 4 "0x80000010" quiet_host] show ?thesis by auto
qed

end
