(* ===== verification/Tool_Int64.thy ===== *)
theory Tool_Int64
  imports Prelude
begin

text \<open>
  The 64-bit division routines the compiler calls on the 32-bit target
  (\<open>software/base-port/tool/src/int64.c\<close>): counting zeros, unsigned and signed division.
\<close>

section \<open>Counting zeros\<close>

definition clzsi2 :: "u32 \<Rightarrow> u32" where
  "clzsi2 a =
     (let x = a;
          t = (if x AND 0xFFFF0000 = 0 then 16 else 0);
          x = drop_bit (16 - unat t) x;
          r = t;
          t = (if x AND 0xFF00 = 0 then 8 else 0);
          x = drop_bit (8 - unat t) x;
          r = r + t;
          t = (if x AND 0xF0 = 0 then 4 else 0);
          x = drop_bit (4 - unat t) x;
          r = r + t;
          t = (if x AND 0xC = 0 then 2 else 0);
          x = drop_bit (2 - unat t) x;
          r = r + t
      in r + ((2 - x) AND (if x AND 2 = 0 then -1 else 0)))"

definition ctzsi2 :: "u32 \<Rightarrow> u32" where
  "ctzsi2 a =
     (let x = a;
          t = (if x AND 0x0000FFFF = 0 then 16 else 0);
          x = drop_bit (unat t) x;
          r = t;
          t = (if x AND 0x00FF = 0 then 8 else 0);
          x = drop_bit (unat t) x;
          r = r + t;
          t = (if x AND 0x0F = 0 then 4 else 0);
          x = drop_bit (unat t) x;
          r = r + t;
          t = (if x AND 0x3 = 0 then 2 else 0);
          x = drop_bit (unat t) x;
          x = x AND 3;
          r = r + t
      in r + ((2 - drop_bit 1 x) AND (if x AND 1 = 0 then -1 else 0)))"

section \<open>Division\<close>

text \<open>
  The union \<open>udwords\<close> declares \<open>high\<close> before \<open>low\<close>; on the little-endian target the first member is
  the low-order half.
\<close>

definition s_high :: "u64 \<Rightarrow> u32" where "s_high n = ucast n"
definition s_low :: "u64 \<Rightarrow> u32" where "s_low n = ucast (drop_bit 32 n)"
definition udwords :: "u32 \<Rightarrow> u32 \<Rightarrow> u64" where
  "udwords hi lo = ucast hi OR push_bit 32 (ucast lo)"

text \<open>The loop: quotient \<open>q\<close>, remainder \<open>r\<close> and carry after \<open>sr\<close> steps.\<close>

fun udiv_loop :: "nat \<Rightarrow> u64 \<Rightarrow> u64 \<Rightarrow> u64 \<Rightarrow> u32 \<Rightarrow> u64 \<times> u64 \<times> u32" where
  "udiv_loop 0 d q r carry = (q, r, carry)"
| "udiv_loop (Suc sr) d q r carry =
     (let r = udwords (push_bit 1 (s_high r) OR drop_bit 31 (s_low r)) (s_low r);
          r = udwords (s_high r) (push_bit 1 (s_low r) OR drop_bit 31 (s_high q));
          q = udwords (push_bit 1 (s_high q) OR drop_bit 31 (s_low q)) (s_low q);
          q = udwords (s_high q) (push_bit 1 (s_low q) OR carry);
          s = signed_drop_bit 63 (d - r - 1);
          carry = ucast (s AND 1);
          r = r - (d AND s)
      in udiv_loop sr d q r carry)"

definition udiv_finish :: "u32 \<Rightarrow> u64 \<Rightarrow> u64 \<Rightarrow> u64 \<Rightarrow> u64 \<times> u64" where
  "udiv_finish sr d q r =
     (case udiv_loop (unat sr) d q r 0 of (q, r, carry) \<Rightarrow> (push_bit 1 q OR ucast carry, r))"

text \<open>A 32-bit division.\<close>

definition udiv :: "u32 \<Rightarrow> u32 \<Rightarrow> u32 res" where
  "udiv a b = (if b = 0 then Inl Division_by_zero else Inr (a div b))"

definition umod :: "u32 \<Rightarrow> u32 \<Rightarrow> u32 res" where
  "umod a b = (if b = 0 then Inl Division_by_zero else Inr (a mod b))"

text \<open>The branch of a divisor whose \<open>low\<close> half is not zero.\<close>

definition udivmoddi4_low :: "u32 \<Rightarrow> u32 \<Rightarrow> u32 \<Rightarrow> u32 \<Rightarrow> u64 \<Rightarrow> u64 \<Rightarrow> (u64 \<times> u64) res" where
  "udivmoddi4_low nh nl dh dl a b =
     (if dh = 0 then
        if dl AND (dl - 1) = 0 then
          if dl = 1 then Inr (a, ucast (nl AND (dl - 1)))
          else
            let sr = ctzsi2 dl in
            Inr (udwords (drop_bit (unat sr) nh) (push_bit (32 - unat sr) nh OR drop_bit (unat sr) nl),
                 ucast (nl AND (dl - 1)))
        else
          let sr = 1 + 32 + clzsi2 dl - clzsi2 nh in
          if sr = 32 then Inr (udiv_finish sr b (udwords nl 0) (udwords 0 nh))
          else if sr < 32 then
            Inr (udiv_finish sr b (udwords (push_bit (32 - unat sr) nl) 0)
              (udwords (drop_bit (unat sr) nh) (push_bit (32 - unat sr) nh OR drop_bit (unat sr) nl)))
          else
            Inr (udiv_finish sr b
              (udwords (push_bit (64 - unat sr) nh OR drop_bit (unat sr - 32) nl) (push_bit (64 - unat sr) nl))
              (udwords 0 (drop_bit (unat sr - 32) nh)))
      else
        let sr = clzsi2 dh - clzsi2 nh in
        if sr > 32 - 1 then Inr (0, a)
        else
          let sr = sr + 1 in
          if sr = 32 then Inr (udiv_finish sr b (udwords nl 0) (udwords 0 nh))
          else
            Inr (udiv_finish sr b (udwords (push_bit (32 - unat sr) nl) 0)
              (udwords (drop_bit (unat sr) nh) (push_bit (32 - unat sr) nh OR drop_bit (unat sr) nl))))"

text \<open>The quotient and what is stored at \<open>rem\<close>.\<close>

definition udivmoddi4 :: "u64 \<Rightarrow> u64 \<Rightarrow> (u64 \<times> u64) res" where
  "udivmoddi4 a b =
     (let nh = s_high a; nl = s_low a; dh = s_high b; dl = s_low b in
      if nh = 0 then
        if dh = 0 then
          rbind (umod nl dl) (\<lambda>r. rbind (udiv nl dl) (\<lambda>q. Inr (ucast q, ucast r)))
        else Inr (0, ucast nl)
      else if dl = 0 then
        if dh = 0 then
          rbind (umod nh dl) (\<lambda>r. rbind (udiv nh dl) (\<lambda>q. Inr (ucast q, ucast r)))
        else if nl = 0 then
          rbind (umod nh dh) (\<lambda>r. rbind (udiv nh dh) (\<lambda>q. Inr (ucast q, udwords r 0)))
        else if dh AND (dh - 1) = 0 then
          Inr (ucast (drop_bit (unat (ctzsi2 dh)) nh), udwords (nh AND (dh - 1)) nl)
        else
          let sr = clzsi2 dh - clzsi2 nh in
          if sr > 32 - 2 then Inr (0, a)
          else
            let sr = sr + 1;
                q = udwords (push_bit (32 - unat sr) nl) 0;
                r = udwords (drop_bit (unat sr) nh) (push_bit (32 - unat sr) nh OR drop_bit (unat sr) nl)
            in Inr (udiv_finish sr b q r)
      else udivmoddi4_low nh nl dh dl a b)"

definition udivdi3 :: "u64 \<Rightarrow> u64 \<Rightarrow> u64 res" where
  "udivdi3 a b = rbind (udivmoddi4 a b) (\<lambda>(q, r). Inr q)"

definition umoddi3 :: "u64 \<Rightarrow> u64 \<Rightarrow> u64 res" where
  "umoddi3 a b = rbind (udivmoddi4 a b) (\<lambda>(q, r). Inr r)"

definition divdi3 :: "u64 \<Rightarrow> u64 \<Rightarrow> u64 res" where
  "divdi3 a b =
     (let s_a = signed_drop_bit 63 a;
          s_b = signed_drop_bit 63 b;
          a = (a XOR s_a) - s_a;
          b = (b XOR s_b) - s_b;
          s_a = s_a XOR s_b
      in rbind (udivmoddi4 a b) (\<lambda>(q, r). Inr ((q XOR s_a) - s_a)))"

definition divmoddi4 :: "u64 \<Rightarrow> u64 \<Rightarrow> (u64 \<times> u64) res" where
  "divmoddi4 a b = rbind (divdi3 a b) (\<lambda>d. Inr (d, a - d * b))"

definition moddi3 :: "u64 \<Rightarrow> u64 \<Rightarrow> u64 res" where
  "moddi3 a b =
     (let s = signed_drop_bit 63 b;
          b = (b XOR s) - s;
          s = signed_drop_bit 63 a;
          a = (a XOR s) - s
      in rbind (udivmoddi4 a b) (\<lambda>(q, r). Inr ((r XOR s) - s)))"

section \<open>Lemmas: counting zeros\<close>

text \<open>\<open>k\<close> is the highest, or the lowest, set bit.\<close>

definition top_bit :: "u32 \<Rightarrow> nat \<Rightarrow> bool" where
  "top_bit x k \<longleftrightarrow> 2 ^ k \<le> unat x \<and> unat x < 2 ^ (k + 1)"

definition low_bit :: "u32 \<Rightarrow> nat \<Rightarrow> bool" where
  "low_bit x k \<longleftrightarrow> 2 ^ k dvd unat x \<and> \<not> 2 ^ (k + 1) dvd unat x"

lemma unat_drop: "unat (drop_bit n w) = unat (w :: u32) div 2 ^ n"
proof -
  have "take_bit LENGTH(32) (unat w) = unat w" by (rule take_bit_nat_eq_self) (rule unsigned_less)
  then show ?thesis by (simp only: unsigned_drop_bit_eq drop_bit_eq_div [where 'a = nat])
qed

lemma clz_masks:
  "(0xFFFF0000 :: u32) = push_bit 16 (mask 16)" "(0xFF00 :: u32) = push_bit 8 (mask 8)"
  "(0xF0 :: u32) = push_bit 4 (mask 4)" "(0xC :: u32) = push_bit 2 (mask 2)"
  by (simp_all add: mask_eq_exp_minus_1)

lemma ctz_masks:
  "(0xFFFF :: u32) = mask 16" "(0xFF :: u32) = mask 8" "(0xF :: u32) = mask 4" "(0x3 :: u32) = mask 2"
  by (simp_all add: mask_eq_exp_minus_1)

lemma low_and: "x AND mask n = 0 \<longleftrightarrow> 2 ^ n dvd unat (x :: u32)"
proof -
  have "x AND mask n = take_bit n x" by (simp add: take_bit_eq_mask)
  moreover have "take_bit n x = 0 \<longleftrightarrow> unat (take_bit n x) = 0" by (simp add: unat_eq_0)
  moreover have "unat (take_bit n x) = unat x mod 2 ^ n"
    by (simp only: unsigned_take_bit_eq take_bit_eq_mod [where 'a = nat])
  ultimately show ?thesis by (simp add: dvd_eq_mod_eq_0)
qed

lemma high_and:
  assumes "unat (x :: u32) < 2 ^ (n + n)"
  shows "x AND push_bit n (mask n) = 0 \<longleftrightarrow> unat x < 2 ^ n"
proof -
  have bits: "bit x i \<Longrightarrow> i < n + n" for i
    using take_bit_word_self [OF assms] by (metis bit_take_bit_iff)
  have "x AND push_bit n (mask n) = push_bit n (drop_bit n x)"
    by (rule bit_word_eqI) (fastforce simp: bit_simps dest: bits)
  moreover have "push_bit n (drop_bit n x) = 0 \<longleftrightarrow> drop_bit n x = 0"
  proof
    assume "push_bit n (drop_bit n x) = 0"
    then have "drop_bit n (push_bit n (drop_bit n x)) = 0" by simp
    moreover have "drop_bit n (push_bit n (drop_bit n x)) = drop_bit n x"
      by (rule bit_word_eqI) (auto simp: bit_simps dest: bit_imp_le_length)
    ultimately show "drop_bit n x = 0" by simp
  qed simp
  moreover have "drop_bit n x = 0 \<longleftrightarrow> unat x div 2 ^ n = 0"
    by (simp add: unat_eq_0 [symmetric] unat_drop)
  ultimately show ?thesis by (simp add: div_eq_0_iff)
qed

lemma clz_step:
  assumes "unat (x :: u32) < 2 ^ (n + n)" and "x \<noteq> 0" and "M = push_bit n (mask n)"
  defines "t \<equiv> if x AND M = 0 then n else 0"
  shows "unat (drop_bit (n - t) x) < 2 ^ n" and "drop_bit (n - t) x \<noteq> 0"
    and "top_bit (drop_bit (n - t) x) k \<Longrightarrow> top_bit x (k + (n - t))"
proof -
  note h = high_and [OF assms(1), folded assms(3)]
  have x: "0 < unat x" using assms(2) by (simp add: unat_gt_0)
  show "unat (drop_bit (n - t) x) < 2 ^ n"
    using h assms(1) by (auto simp: t_def unat_drop power_add less_mult_imp_div_less)
  have "0 < unat (drop_bit (n - t) x)"
    using h x by (auto simp: t_def unat_drop div_greater_zero_iff)
  then show "drop_bit (n - t) x \<noteq> 0" by (simp add: unat_gt_0)
  show "top_bit x (k + (n - t))" if "top_bit (drop_bit (n - t) x) k"
  proof -
    have pos: "0 < (2 :: nat) ^ (n - t)" by simp
    have "2 ^ k \<le> unat x div 2 ^ (n - t)" "unat x div 2 ^ (n - t) < 2 ^ (k + 1)"
      using that by (simp_all add: top_bit_def unat_drop)
    then have "2 ^ k * 2 ^ (n - t) \<le> unat x" "unat x < 2 ^ (k + 1) * 2 ^ (n - t)"
      using pos by (simp_all add: less_eq_div_iff_mult_less_eq div_less_iff_less_mult)
    then show ?thesis by (simp add: top_bit_def power_add mult.commute mult.left_commute)
  qed
qed

lemma ctz_step:
  assumes "\<not> 2 ^ (n + n) dvd unat (x :: u32)" and "M = mask n"
  defines "t \<equiv> if x AND M = 0 then n else 0"
  shows "\<not> 2 ^ n dvd unat (drop_bit t x)" and "low_bit (drop_bit t x) k \<Longrightarrow> low_bit x (k + t)"
proof -
  note l = low_and [of x n, folded assms(2)]
  show "\<not> 2 ^ n dvd unat (drop_bit t x)"
  proof (cases "x AND M = 0")
    case True
    then have "unat x = 2 ^ n * (unat x div 2 ^ n)" using l by simp
    then have "\<not> 2 ^ n dvd unat x div 2 ^ n"
      using assms(1) by (metis dvd_mult_cancel_left mult_dvd_mono dvd_refl power_add)
    then show ?thesis using True by (simp add: t_def unat_drop)
  next
    case False
    then show ?thesis using l by (simp add: t_def)
  qed
  show "low_bit x (k + t)" if "low_bit (drop_bit t x) k"
  proof -
    have "2 ^ t dvd unat x" using l by (simp add: t_def)
    then have x: "unat x = 2 ^ t * unat (drop_bit t x)" by (simp add: unat_drop)
    have "2 ^ (j + t) dvd unat x \<longleftrightarrow> 2 ^ j dvd unat (drop_bit t x)" for j
      unfolding power_add mult.commute [of "2 ^ j"] by (subst x) (rule nat_mult_dvd_cancel1, simp)
    from this [of k] this [of "k + 1"] that show ?thesis by (simp add: low_bit_def)
  qed
qed

lemma clzsi2_top:
  assumes "a \<noteq> 0"
  shows "unat (clzsi2 a) \<le> 31 \<and> top_bit a (31 - unat (clzsi2 a))"
proof -
  define w1 :: u32 where "w1 = (if a AND 0xFFFF0000 = 0 then 16 else 0)"
  define x1 where "x1 = drop_bit (16 - unat w1) a"
  define w2 :: u32 where "w2 = (if x1 AND 0xFF00 = 0 then 8 else 0)"
  define x2 where "x2 = drop_bit (8 - unat w2) x1"
  define w3 :: u32 where "w3 = (if x2 AND 0xF0 = 0 then 4 else 0)"
  define x3 where "x3 = drop_bit (4 - unat w3) x2"
  define w4 :: u32 where "w4 = (if x3 AND 0xC = 0 then 2 else 0)"
  define x4 where "x4 = drop_bit (2 - unat w4) x3"
  define t1 where "t1 = unat w1"
  define t2 where "t2 = unat w2"
  define t3 where "t3 = unat w3"
  define t4 where "t4 = unat w4"
  have t1: "(if a AND 0xFFFF0000 = 0 then 16 else 0) = t1" by (simp add: t1_def w1_def)
  have t2: "(if x1 AND 0xFF00 = 0 then 8 else 0) = t2" by (simp add: t2_def w2_def)
  have t3: "(if x2 AND 0xF0 = 0 then 4 else 0) = t3" by (simp add: t3_def w3_def)
  have t4: "(if x3 AND 0xC = 0 then 2 else 0) = t4" by (simp add: t4_def w4_def)
  define f :: nat where "f = (if x4 = 1 then 1 else 0)"
  have a: "unat a < 2 ^ (16 + 16)" using unsigned_less [of a] by simp
  note s1 = clz_step [OF a assms clz_masks(1), unfolded t1, unfolded t1_def, folded x1_def, folded t1_def]
  have a1: "unat x1 < 2 ^ (8 + 8)" using s1(1) by simp
  note s2 = clz_step [OF a1 s1(2) clz_masks(2), unfolded t2, unfolded t2_def, folded x2_def, folded t2_def]
  have a2: "unat x2 < 2 ^ (4 + 4)" using s2(1) by simp
  note s3 = clz_step [OF a2 s2(2) clz_masks(3), unfolded t3, unfolded t3_def, folded x3_def, folded t3_def]
  have a3: "unat x3 < 2 ^ (2 + 2)" using s3(1) by simp
  note s4 = clz_step [OF a3 s3(2) clz_masks(4), unfolded t4, unfolded t4_def, folded x4_def, folded t4_def]
  have 4: "unat x4 < 4" "unat x4 \<noteq> 0" using s4(1,2) by (simp_all add: unat_eq_0)
  then have "unat x4 = 1 \<or> unat x4 = 2 \<or> unat x4 = 3" by linarith
  then have x4: "x4 = 1 \<or> x4 = 2 \<or> x4 = 3" by (auto simp: word_unat_eq_iff)
  then have top4: "top_bit x4 (1 - f)" by (auto simp: f_def top_bit_def)
  have "top_bit a (1 - f + (2 - t4) + (4 - t3) + (8 - t2) + (16 - t1))"
    by (intro s1(3) s2(3) s3(3) s4(3) top4)
  moreover have le: "t1 \<le> 16" "t2 \<le> 8" "t3 \<le> 4" "t4 \<le> 2" "f \<le> 1"
    by (simp_all add: t1_def t2_def t3_def t4_def w1_def w2_def w3_def w4_def f_def)
  moreover have "unat (clzsi2 a) = t1 + t2 + t3 + t4 + f"
  proof -
    have last: "((2 - x4) AND (if x4 AND 2 = 0 then -1 else 0)) = of_nat f"
      using x4 by (auto simp: f_def)
    have "clzsi2 a = w1 + w2 + w3 + w4 + ((2 - x4) AND (if x4 AND 2 = 0 then -1 else 0))"
      unfolding clzsi2_def Let_def w1_def [symmetric] x1_def [symmetric] w2_def [symmetric] x2_def [symmetric]
        w3_def [symmetric] x3_def [symmetric] w4_def [symmetric] x4_def [symmetric] by (rule refl)
    then have "clzsi2 a = of_nat (t1 + t2 + t3 + t4 + f)" unfolding last by (simp add: t1_def t2_def t3_def t4_def)
    then show ?thesis using le by (simp add: unsigned_of_nat take_bit_nat_eq_self del: of_nat_add)
  qed
  moreover have "1 - f + (2 - t4) + (4 - t3) + (8 - t2) + (16 - t1) = 31 - (t1 + t2 + t3 + t4 + f)"
    using le by linarith
  ultimately show ?thesis by simp
qed

lemma ctzsi2_low:
  assumes "a \<noteq> 0"
  shows "unat (ctzsi2 a) \<le> 31 \<and> low_bit a (unat (ctzsi2 a))"
proof -
  define w1 :: u32 where "w1 = (if a AND 0x0000FFFF = 0 then 16 else 0)"
  define x1 where "x1 = drop_bit (unat w1) a"
  define w2 :: u32 where "w2 = (if x1 AND 0xFF = 0 then 8 else 0)"
  define x2 where "x2 = drop_bit (unat w2) x1"
  define w3 :: u32 where "w3 = (if x2 AND 0xF = 0 then 4 else 0)"
  define x3 where "x3 = drop_bit (unat w3) x2"
  define w4 :: u32 where "w4 = (if x3 AND 0x3 = 0 then 2 else 0)"
  define x4 where "x4 = drop_bit (unat w4) x3"
  define t1 where "t1 = unat w1"
  define t2 where "t2 = unat w2"
  define t3 where "t3 = unat w3"
  define t4 where "t4 = unat w4"
  have t1: "(if a AND 0x0000FFFF = 0 then 16 else 0) = t1" by (simp add: t1_def w1_def)
  have t2: "(if x1 AND 0xFF = 0 then 8 else 0) = t2" by (simp add: t2_def w2_def)
  have t3: "(if x2 AND 0xF = 0 then 4 else 0) = t3" by (simp add: t3_def w3_def)
  have t4: "(if x3 AND 0x3 = 0 then 2 else 0) = t4" by (simp add: t4_def w4_def)
  define f :: nat where "f = (if odd (unat x4) then 0 else 1)"
  have a: "\<not> 2 ^ (16 + 16) dvd unat a"
  proof
    assume "2 ^ (16 + 16) dvd unat a"
    moreover have "0 < unat a" using assms by (simp add: unat_gt_0)
    ultimately have "2 ^ (16 + 16) \<le> unat a" by (rule dvd_imp_le)
    moreover have "unat a < 2 ^ LENGTH(32)" by (rule unsigned_less)
    ultimately show False by simp
  qed
  note s1 = ctz_step [OF a ctz_masks(1), unfolded t1, unfolded t1_def, folded x1_def, folded t1_def]
  have a1: "\<not> 2 ^ (8 + 8) dvd unat x1" using s1(1) by simp
  note s2 = ctz_step [OF a1 ctz_masks(2), unfolded t2, unfolded t2_def, folded x2_def, folded t2_def]
  have a2: "\<not> 2 ^ (4 + 4) dvd unat x2" using s2(1) by simp
  note s3 = ctz_step [OF a2 ctz_masks(3), unfolded t3, unfolded t3_def, folded x3_def, folded t3_def]
  have a3: "\<not> 2 ^ (2 + 2) dvd unat x3" using s3(1) by simp
  note s4 = ctz_step [OF a3 ctz_masks(4), unfolded t4, unfolded t4_def, folded x4_def, folded t4_def]
  have 4: "\<not> 4 dvd unat x4" using s4(1) by simp
  have low4: "low_bit x4 f"
  proof (cases "odd (unat x4)")
    case True
    then show ?thesis by (simp add: f_def low_bit_def)
  next
    case False
    then show ?thesis using 4 by (simp add: f_def low_bit_def)
  qed
  have low: "low_bit a (f + t4 + t3 + t2 + t1)"
    by (intro s1(2) s2(2) s3(2) s4(2) low4)
  moreover have le: "t1 \<le> 16" "t2 \<le> 8" "t3 \<le> 4" "t4 \<le> 2" "f \<le> 1"
    by (simp_all add: t1_def t2_def t3_def t4_def w1_def w2_def w3_def w4_def f_def)
  moreover have "unat (ctzsi2 a) = t1 + t2 + t3 + t4 + f"
  proof -
    define y where "y = x4 AND 3"
    have "(3 :: u32) = mask 2" by (simp add: mask_eq_exp_minus_1)
    then have "unat y = unat x4 mod 4" unfolding y_def
      by (simp only: take_bit_eq_mask [symmetric] unsigned_take_bit_eq take_bit_eq_mod [where 'a = nat]) simp
    moreover have "unat x4 mod 4 = 1 \<or> unat x4 mod 4 = 2 \<or> unat x4 mod 4 = 3" using 4 by presburger
    ultimately have "y = 1 \<and> odd (unat x4) \<or> y = 2 \<and> even (unat x4) \<or> y = 3 \<and> odd (unat x4)"
      unfolding word_unat_eq_iff by (auto; presburger)
    then have last: "((2 - drop_bit 1 y) AND (if y AND 1 = 0 then -1 else 0)) = of_nat f"
      by (auto simp: f_def)
    have "ctzsi2 a = w1 + w2 + w3 + w4 + ((2 - drop_bit 1 y) AND (if y AND 1 = 0 then -1 else 0))"
      unfolding ctzsi2_def Let_def w1_def [symmetric] x1_def [symmetric] w2_def [symmetric] x2_def [symmetric]
        w3_def [symmetric] x3_def [symmetric] w4_def [symmetric] x4_def [symmetric] y_def [symmetric] by (rule refl)
    then have "ctzsi2 a = of_nat (t1 + t2 + t3 + t4 + f)" unfolding last by (simp add: t1_def t2_def t3_def t4_def)
    then show ?thesis using le by (simp add: unsigned_of_nat take_bit_nat_eq_self del: of_nat_add)
  qed
  moreover have "f + t4 + t3 + t2 + t1 = t1 + t2 + t3 + t4 + f" by simp
  moreover have "f + t4 + t3 + t2 + t1 < 32"
  proof (rule ccontr)
    assume "\<not> ?thesis"
    then have "16 + 16 \<le> f + t4 + t3 + t2 + t1" by linarith
    then have "(2 :: nat) ^ (16 + 16) dvd 2 ^ (f + t4 + t3 + t2 + t1)" by (rule le_imp_power_dvd)
    then show False using low a unfolding low_bit_def by (metis dvd_trans)
  qed
  ultimately show ?thesis by simp
qed

text \<open>Counting leading and trailing zeros finds the highest and the lowest set bit of every non-zero
  word.\<close>

lemma clz_ctz_bounds:
  assumes "a \<noteq> 0"
  shows "2 ^ (31 - unat (clzsi2 a)) \<le> unat a \<and> unat a < 2 ^ (32 - unat (clzsi2 a)) \<and> unat (clzsi2 a) \<le> 31 \<and>
    2 ^ unat (ctzsi2 a) dvd unat a \<and> odd (unat a div 2 ^ unat (ctzsi2 a)) \<and> unat (ctzsi2 a) \<le> 31"
proof -
  note t = clzsi2_top [OF assms] and l = ctzsi2_low [OF assms]
  have "31 - unat (clzsi2 a) + 1 = 32 - unat (clzsi2 a)" using t by linarith
  then have "2 ^ (31 - unat (clzsi2 a)) \<le> unat a" "unat a < 2 ^ (32 - unat (clzsi2 a))"
    using t unfolding top_bit_def by (metis, metis)
  moreover have d: "2 ^ unat (ctzsi2 a) dvd unat a" "\<not> 2 ^ (unat (ctzsi2 a) + 1) dvd unat a"
    using l unfolding low_bit_def by blast+
  moreover have "odd (unat a div 2 ^ unat (ctzsi2 a))"
  proof
    assume "even (unat a div 2 ^ unat (ctzsi2 a))"
    then obtain y where "unat a div 2 ^ unat (ctzsi2 a) = 2 * y" by blast
    then have "unat a = 2 ^ (unat (ctzsi2 a) + 1) * y" using d(1) by (metis dvd_mult_div_cancel mult.assoc power_add power_one_right)
    then show False using d(2) by (metis dvd_triv_left)
  qed
  ultimately show ?thesis using t l by blast
qed

lemma clz_ctz_example:
  "unat (12 :: u32) < 2 ^ (32 - unat (clzsi2 12)) \<and> 2 ^ unat (ctzsi2 12) dvd unat (12 :: u32)"
proof -
  have "(12 :: u32) \<noteq> 0" by simp
  from clz_ctz_bounds [OF this] show ?thesis by blast
qed

section \<open>Lemmas: division\<close>

lemma halves: "s_high (udwords h l) = h" "s_low (udwords h l) = l" "udwords (s_high a) (s_low a) = a"
proof -
  show "s_high (udwords h l) = h" "s_low (udwords h l) = l"
    unfolding s_high_def s_low_def udwords_def
    by (rule bit_word_eqI, auto simp: bit_simps dest: bit_imp_le_length)+
  show "udwords (s_high a) (s_low a) = a"
    unfolding s_high_def s_low_def udwords_def by (rule bit_word_eqI) (auto simp: bit_simps)
qed

lemma unat_2_power: "k < LENGTH('a) \<Longrightarrow> unat (2 ^ k :: 'a::len word) = 2 ^ k"
proof -
  assume k: "k < LENGTH('a)"
  have "unat (push_bit k 1 :: 'a word) = take_bit LENGTH('a) (push_bit k 1)"
    by (simp only: unsigned_push_bit_eq unsigned_1)
  also have "\<dots> = 2 ^ k" using k by (simp add: take_bit_nat_eq_self)
  finally show ?thesis by simp
qed

lemma unat_s_high: "unat (s_high a) = unat a mod 2 ^ 32"
  by (simp only: s_high_def unsigned_ucast_eq take_bit_eq_mod [where 'a = nat]) simp

lemma small_halves:
  assumes "unat a < 2 ^ 32"
  shows "s_low a = 0" and "unat (s_high a) = unat a" and "ucast (s_high a) = a"
proof -
  have bits: "bit a i \<Longrightarrow> i < 32" for i
    using take_bit_word_self [OF assms] by (metis bit_take_bit_iff)
  show "s_low a = 0" unfolding s_low_def by (rule bit_word_eqI) (auto simp: bit_simps dest: bits)
  show "unat (s_high a) = unat a" using assms by (simp add: unat_s_high)
  show "ucast (s_high a) = a" unfolding s_high_def by (rule bit_word_eqI) (auto simp: bit_simps dest: bits)
qed

lemma ucast_divmod:
  "unat (ucast (x div y :: u32) :: u64) = unat x div unat y" "unat (ucast (x mod y :: u32) :: u64) = unat x mod unat y"
proof -
  have u: "unat (ucast z :: u64) = unat z" for z :: u32
  proof -
    have "unat z < 2 ^ LENGTH(32)" by (rule unsigned_less)
    then show ?thesis by (simp add: unsigned_ucast_eq take_bit_nat_eq_self)
  qed
  show "unat (ucast (x div y :: u32) :: u64) = unat x div unat y" "unat (ucast (x mod y :: u32) :: u64) = unat x mod unat y"
    by (simp_all add: u unat_div_distrib unat_mod_distrib)
qed

lemma udwords_0: "udwords h 0 = ucast h"
  by (simp add: udwords_def)

lemma udivmoddi4_small:
  assumes "unat a < 2 ^ 32" and "unat b < 2 ^ 32" and "b \<noteq> 0"
  shows "udivmoddi4 a b = Inr (a div b, a mod b)"
proof -
  note A = small_halves [OF assms(1)] and B = small_halves [OF assms(2)]
  have b: "s_high b \<noteq> 0" using B(2) assms(3) by (metis unat_eq_0)
  have d: "ucast (s_high a div s_high b) = a div b" "ucast (s_high a mod s_high b) = a mod b"
    by (simp_all add: word_unat_eq_iff ucast_divmod A(2) B(2) unat_div_distrib unat_mod_distrib)
  show ?thesis
  proof (cases "s_high a = 0")
    case True
    then have "a = 0" using A(2) by (metis unat_eq_0)
    then show ?thesis using True b A(1) by (simp add: udivmoddi4_def Let_def)
  next
    case False
    then show ?thesis using b A B d by (simp add: udivmoddi4_def Let_def umod_def udiv_def udwords_0)
  qed
qed

lemma ctz_power:
  assumes "k < 32"
  shows "unat (ctzsi2 (2 ^ k)) = k"
proof -
  have u: "unat (2 ^ k :: u32) = 2 ^ k" using assms by (simp add: unat_2_power)
  have "(2 :: u32) ^ k \<noteq> 0"
  proof
    assume "(2 :: u32) ^ k = 0"
    then have "(2 :: nat) ^ k = 0" using u by (metis unsigned_0)
    then show False by simp
  qed
  from ctzsi2_low [OF this] have "2 ^ unat (ctzsi2 (2 ^ k)) dvd (2 :: nat) ^ k" "\<not> 2 ^ (unat (ctzsi2 (2 ^ k)) + 1) dvd (2 :: nat) ^ k"
    unfolding low_bit_def u by blast+
  then have "unat (ctzsi2 (2 ^ k)) \<le> k" "\<not> unat (ctzsi2 (2 ^ k)) + 1 \<le> k"
    using power_dvd_imp_le [of "2 :: nat"] le_imp_power_dvd [of "unat (ctzsi2 (2 ^ k)) + 1" k "2 :: nat"] by (force, blast)
  then show ?thesis by linarith
qed

lemma udivmoddi4_power:
  assumes "k < 32"
  shows "\<exists>q r. udivmoddi4 a (2 ^ k) = Inr (q, r) \<and> unat q = unat a mod 2 ^ 32 div 2 ^ k"
proof -
  let ?b = "2 ^ k :: u64"
  have ub: "unat ?b = 2 ^ k" using assms by (intro unat_2_power) simp
  moreover have "(2 :: nat) ^ k < 2 ^ 32" using assms by (intro power_strict_increasing) simp_all
  ultimately have lt: "unat ?b < 2 ^ 32" by simp
  note B = small_halves [OF lt]
  have h: "s_high ?b = 2 ^ k" using B(2) ub assms by (simp add: word_unat_eq_iff unat_2_power)
  have nz: "(2 :: u32) ^ k \<noteq> 0" using h B(2) ub by (metis power_eq_0_iff unsigned_0 zero_neq_numeral)
  have "(2 :: u32) ^ k - 1 = mask k" by (simp add: mask_eq_exp_minus_1)
  then have p: "(2 :: u32) ^ k AND (2 ^ k - 1) = 0" by (simp only:) (rule bit_word_eqI, auto simp: bit_simps)
  have ua: "unat (ucast z :: u64) = unat z" for z :: u32
  proof -
    have "unat z < 2 ^ LENGTH(32)" by (rule unsigned_less)
    then show ?thesis by (simp add: unsigned_ucast_eq take_bit_nat_eq_self)
  qed
  show ?thesis
  proof (cases "s_high a = 0")
    case True
    then have "unat a mod 2 ^ 32 = 0" using unat_s_high [of a] by simp
    then show ?thesis using True nz by (simp add: udivmoddi4_def Let_def h)
  next
    case False
    show ?thesis
    proof (cases "s_low a = 0")
      case True
      have "unat (s_high a div 2 ^ k) = unat a mod 2 ^ 32 div 2 ^ k"
        using assms by (simp add: unat_div_distrib unat_s_high unat_2_power)
      then show ?thesis using False True nz
        by (simp add: udivmoddi4_def Let_def h B(1) umod_def udiv_def ua)
    next
      case nl: False
      have "unat (drop_bit k (s_high a)) = unat a mod 2 ^ 32 div 2 ^ k" by (simp add: unat_drop unat_s_high)
      then show ?thesis using False nl nz p by (simp add: udivmoddi4_def Let_def h B(1) ctz_power [OF assms] ua)
    qed
  qed
qed

text \<open>The 64-bit division routines are right for operands below \<open>2 ^ 32\<close>, where they return the
  quotient and the remainder; but since the halves of \<open>udwords\<close> are declared in big-endian order,
  dividing any number by a power of two below \<open>2 ^ 32\<close> divides only its lower half.\<close>

lemma udivmoddi4_correct:
  "(\<forall>a b. unat a < 2 ^ 32 \<and> unat b < 2 ^ 32 \<and> b \<noteq> 0 \<longrightarrow>
      udivmoddi4 a b = Inr (a div b, a mod b) \<and> udivdi3 a b = Inr (a div b) \<and> umoddi3 a b = Inr (a mod b)) \<and>
   (\<forall>a k. k < 32 \<longrightarrow> (\<exists>q. udivdi3 a (2 ^ k) = Inr q \<and> unat q = unat a mod 2 ^ 32 div 2 ^ k))"
proof (intro conjI allI impI)
  fix a b :: u64
  assume "unat a < 2 ^ 32 \<and> unat b < 2 ^ 32 \<and> b \<noteq> 0"
  then have "udivmoddi4 a b = Inr (a div b, a mod b)" by (intro udivmoddi4_small) blast+
  then show "udivmoddi4 a b = Inr (a div b, a mod b)" "udivdi3 a b = Inr (a div b)" "umoddi3 a b = Inr (a mod b)"
    by (simp_all add: udivdi3_def umoddi3_def)
next
  fix a :: u64 and k :: nat
  assume "k < 32"
  from udivmoddi4_power [OF this, of a] show "\<exists>q. udivdi3 a (2 ^ k) = Inr q \<and> unat q = unat a mod 2 ^ 32 div 2 ^ k"
    by (auto simp: udivdi3_def)
qed

lemma udivmoddi4_correct_witness:
  "udivdi3 1000000007 1000 = Inr 1000000 \<and> (\<exists>q. udivdi3 0x500000008 (2 ^ 1) = Inr q \<and> unat q = 4)"
proof -
  have "unat (1000000007 :: u64) < 2 ^ 32 \<and> unat (1000 :: u64) < 2 ^ 32 \<and> (1000 :: u64) \<noteq> 0" by simp
  then have "udivdi3 1000000007 1000 = Inr (1000000007 div 1000)" using udivmoddi4_correct by blast
  moreover have "(1 :: nat) < 32" by simp
  then have "\<exists>q. udivdi3 0x500000008 (2 ^ 1) = Inr q \<and> unat q = unat (0x500000008 :: u64) mod 2 ^ 32 div 2 ^ 1"
    using udivmoddi4_correct by blast
  ultimately show ?thesis by simp
qed

end
