(* ===== verification/Tool_String.thy ===== *)
theory Tool_String
  imports Bytes
begin

text \<open>
  The string and memory functions of the runtime (\<open>software/base-port/tool/src/string.c\<close>) over a
  byte memory, with what they do to strings and blocks that lie in it.
\<close>

section \<open>Operations\<close>

text \<open>
  A pointer is an address in the byte memory. A loop that runs to a zero byte is a partial function:
  it returns \<open>None\<close> when there is none. The guards \<open>n < 0\<close> of the code compare an unsigned number
  and are never true.
\<close>

partial_function (option) strlen_loop :: "bytes \<Rightarrow> nat \<Rightarrow> nat \<Rightarrow> nat option" where
  "strlen_loop m s sz = (if m s = 0 then Some sz else strlen_loop m (s + 1) (sz + 1))"

definition strlen :: "bytes \<Rightarrow> nat \<Rightarrow> nat option" where
  "strlen m s = strlen_loop m s 0"

function strnlen_loop :: "bytes \<Rightarrow> nat \<Rightarrow> nat \<Rightarrow> nat" where
  "strnlen_loop m sc count = (if m sc \<noteq> 0 \<and> count \<noteq> 0 then strnlen_loop m (sc + 1) (count - 1) else sc)"
  by auto
termination by (relation "measure (\<lambda>(m, sc, count). count)") auto

declare strnlen_loop.simps [simp del]

definition strnlen :: "bytes \<Rightarrow> nat \<Rightarrow> nat \<Rightarrow> nat" where
  "strnlen m s count = strnlen_loop m s count - s"

partial_function (option) strcpy_loop :: "nat \<Rightarrow> nat \<Rightarrow> nat \<Rightarrow> bytes \<Rightarrow> bytes option" where
  "strcpy_loop dst src i m =
     (if m (src + i) \<noteq> 0 then strcpy_loop dst src (i + 1) (m(dst + i := m (src + i)))
      else Some (m(dst + i := m (src + i))))"

definition strcpy :: "nat \<Rightarrow> nat \<Rightarrow> bytes \<Rightarrow> (nat \<times> bytes) option" where
  "strcpy dst src m = map_option (\<lambda>m. (dst, m)) (strcpy_loop dst src 0 m)"

function strncpy_loop :: "nat \<Rightarrow> nat \<Rightarrow> nat \<Rightarrow> nat \<Rightarrow> bytes \<Rightarrow> bytes" where
  "strncpy_loop dst src n i m =
     (if i < n \<and> m (src + i) \<noteq> 0 then strncpy_loop dst src n (i + 1) (m(dst + i := m (src + i))) else m)"
  by auto
termination by (relation "measure (\<lambda>(dst, src, n, i, m). n - i)") auto

declare strncpy_loop.simps [simp del]

definition strncpy :: "nat \<Rightarrow> nat \<Rightarrow> nat \<Rightarrow> bytes \<Rightarrow> nat \<times> bytes" where
  "strncpy dst src n m = (dst, strncpy_loop dst src n 0 m)"

partial_function (option) strcat_loop :: "nat \<Rightarrow> nat \<Rightarrow> nat \<Rightarrow> nat \<Rightarrow> bytes \<Rightarrow> bytes option" where
  "strcat_loop dst src i j m =
     (if m (src + j) \<noteq> 0 then strcat_loop dst src (i + 1) (j + 1) (m(dst + i := m (src + j)))
      else Some (m(dst + i := 0)))"

definition strcat :: "nat \<Rightarrow> nat \<Rightarrow> bytes \<Rightarrow> (nat \<times> bytes) option" where
  "strcat dst src m =
     Option.bind (strlen m dst) (\<lambda>i. map_option (\<lambda>m. (dst, m)) (strcat_loop dst src i 0 m))"

partial_function (option) strcmp_loop :: "bytes \<Rightarrow> nat \<Rightarrow> nat \<Rightarrow> nat \<Rightarrow> int option" where
  "strcmp_loop m s1 s2 i =
     (if m (s1 + i) \<noteq> 0 \<and> m (s2 + i) \<noteq> 0 then
        if m (s1 + i) > m (s2 + i) then Some 1
        else if m (s1 + i) < m (s2 + i) then Some (- 1)
        else strcmp_loop m s1 s2 (i + 1)
      else if m (s1 + i) \<noteq> 0 then Some 1
      else if m (s2 + i) \<noteq> 0 then Some (- 1)
      else Some 0)"

definition strcmp :: "bytes \<Rightarrow> nat \<Rightarrow> nat \<Rightarrow> int option" where
  "strcmp m s1 s2 = strcmp_loop m s1 s2 0"

text \<open>\<open>strncmp\<close> and \<open>memcmp\<close> have the same body.\<close>

function strncmp_loop :: "bytes \<Rightarrow> nat \<Rightarrow> nat \<Rightarrow> nat \<Rightarrow> nat \<Rightarrow> int" where
  "strncmp_loop m s1 s2 n i =
     (if i < n \<and> m (s1 + i) \<noteq> 0 \<and> m (s2 + i) \<noteq> 0 then
        if m (s1 + i) > m (s2 + i) then 1
        else if m (s1 + i) < m (s2 + i) then - 1
        else strncmp_loop m s1 s2 n (i + 1)
      else if i = n then 0
      else if m (s1 + i) \<noteq> 0 then 1
      else - 1)"
  by auto
termination by (relation "measure (\<lambda>(m, s1, s2, n, i). n - i)") auto

declare strncmp_loop.simps [simp del]

definition strncmp :: "bytes \<Rightarrow> nat \<Rightarrow> nat \<Rightarrow> nat \<Rightarrow> int" where
  "strncmp m s1 s2 n = strncmp_loop m s1 s2 n 0"

partial_function (option) strchr :: "bytes \<Rightarrow> nat \<Rightarrow> u32 \<Rightarrow> nat option option" where
  "strchr m s c =
     (if m s \<noteq> 0 then (if ucast (m s) = c then Some (Some s) else strchr m (s + 1) c) else Some None)"

partial_function (option) strrchr_loop :: "bytes \<Rightarrow> nat \<Rightarrow> u32 \<Rightarrow> nat option \<Rightarrow> nat option option" where
  "strrchr_loop m s c p =
     (if m s \<noteq> 0 then strrchr_loop m (s + 1) c (if ucast (m s) = c then Some s else p) else Some p)"

definition strrchr :: "bytes \<Rightarrow> nat \<Rightarrow> u32 \<Rightarrow> nat option option" where
  "strrchr m s c = strrchr_loop m s c None"

definition memset :: "nat \<Rightarrow> u32 \<Rightarrow> nat \<Rightarrow> bytes \<Rightarrow> nat option \<times> bytes" where
  "memset s c n m =
     (if s = 0 then (None, m) else (Some s, fold (\<lambda>i m. m(s + i := ucast c)) [0..<n] m))"

definition copy_up :: "nat \<Rightarrow> nat \<Rightarrow> nat \<Rightarrow> bytes \<Rightarrow> bytes" where
  "copy_up p q n m = fold (\<lambda>i m. m(p + i := m (q + i))) [0..<n] m"

fun copy_down :: "nat \<Rightarrow> nat \<Rightarrow> nat \<Rightarrow> bytes \<Rightarrow> bytes" where
  "copy_down p q 0 m = m"
| "copy_down p q (Suc n) m = copy_down p q n (m(p + n := m (q + n)))"

definition memmove :: "nat \<Rightarrow> nat \<Rightarrow> nat \<Rightarrow> bytes \<Rightarrow> nat \<times> bytes" where
  "memmove dst src n m = (dst, if dst < src then copy_up dst src n m else copy_down dst src n m)"

definition memcpy :: "nat \<Rightarrow> nat \<Rightarrow> nat \<Rightarrow> bytes \<Rightarrow> nat \<times> bytes" where
  "memcpy out src n m = (out, copy_up out src n m)"

definition memcmp :: "bytes \<Rightarrow> nat \<Rightarrow> nat \<Rightarrow> nat \<Rightarrow> int" where
  "memcmp m s1 s2 n = strncmp_loop m s1 s2 n 0"

section \<open>Copying\<close>

lemma copy_down_eq:
  assumes "q \<le> p"
  shows "copy_down p q n m = store m p (load m q n)"
proof -
  have "copy_down p q n m x = (if p \<le> x \<and> x < p + n then m (q + (x - p)) else m x)" for x
  proof (induction n arbitrary: m)
    case (Suc n)
    show ?case using assms by (auto simp: Suc.IH less_Suc_eq)
  qed auto
  then show ?thesis by (intro ext) (auto simp: store_def nth_load)
qed

text \<open>Copying upwards reads bytes it has written when the target starts inside the source.\<close>

lemma copy_up_apply:
  "copy_up p q n m x = (if p \<le> x \<and> x < p + n
     then m (if p \<le> q then q + (x - p) else q + (x - p) mod (p - q)) else m x)"
proof (induction n arbitrary: x)
  case 0
  then show ?case by (auto simp: copy_up_def)
next
  case (Suc n)
  have step: "copy_up p q (Suc n) m = (copy_up p q n m)(p + n := copy_up p q n m (q + n))"
    by (simp add: copy_up_def)
  show ?case
  proof (cases "x = p + n")
    case False
    then show ?thesis by (auto simp: step Suc.IH)
  next
    case True
    consider "p \<le> q" | "q < p" "q + n < p" | "q < p" "p \<le> q + n" by linarith
    then show ?thesis
    proof cases
      case 1
      then show ?thesis using True by (auto simp: step Suc.IH)
    next
      case 2
      then have "n mod (p - q) = n" by simp
      then show ?thesis using True 2 by (auto simp: step Suc.IH)
    next
      case 3
      have "n - (p - q) = q + n - p" using 3 by linarith
      then have "(q + n - p) mod (p - q) = n mod (p - q)" using 3 by (simp add: le_mod_geq)
      then show ?thesis using True 3 by (auto simp: step Suc.IH)
    qed
  qed
qed

lemma copy_up_eq:
  assumes "p \<le> q \<or> q + n \<le> p"
  shows "copy_up p q n m = store m p (load m q n)"
proof (rule ext)
  fix x
  have "(x - p) mod (p - q) = x - p" if "\<not> p \<le> q" "p \<le> x" "x < p + n"
  proof -
    have "x - p < p - q" using assms that by linarith
    then show ?thesis by simp
  qed
  then show "copy_up p q n m x = store m p (load m q n) x"
    by (auto simp: copy_up_apply store_def nth_load)
qed

text \<open>C33: Moving \<open>n\<close> bytes puts the bytes the source had at the target, however the two overlap, and
  changes no other byte. Copying does the same when the target does not start inside the source;
  when it starts \<open>d\<close> bytes into it, the first \<open>d\<close> bytes are repeated.\<close>

theorem memmove_correct:
  "memmove dst src n m = (dst, store m dst (load m src n)) \<and>
   (\<not> (src < dst \<and> dst < src + n) \<longrightarrow> memcpy dst src n m = (dst, store m dst (load m src n))) \<and>
   (src < dst \<longrightarrow> (\<forall>i<n. snd (memcpy dst src n m) (dst + i) = m (src + i mod (dst - src))))"
  by (auto simp: memmove_def memcpy_def copy_up_eq copy_down_eq copy_up_apply)

lemma memmove_correct_witness:
  "memcpy 8 4 2 (\<lambda>k. of_nat k) = (8, store (\<lambda>k. of_nat k) 8 [4, 5]) \<and>
   snd (memcpy 6 4 4 (\<lambda>k. of_nat k)) 9 = 5"
proof -
  have "load (\<lambda>k. of_nat k) 4 2 = [4, 5 :: u8]" by (simp add: load_def upt_rec_numeral)
  then have "memcpy 8 4 2 (\<lambda>k. of_nat k) = (8, store (\<lambda>k. of_nat k) 8 [4, 5])"
    using memmove_correct [of 8 4 2 "\<lambda>k. of_nat k"] by simp
  moreover have "\<forall>i<4. snd (memcpy 6 4 4 (\<lambda>k. of_nat k)) (6 + i) = (of_nat (4 + i mod 2) :: u8)"
    using memmove_correct [of 6 4 4 "\<lambda>k. of_nat k"] by simp
  then have "snd (memcpy 6 4 4 (\<lambda>k. of_nat k)) (6 + 3) = (of_nat (4 + 3 mod 2) :: u8)"
    by (rule allE [where x = 3]) simp
  ultimately show ?thesis by (simp add: numeral_3_eq_3 mod_Suc)
qed

lemma memset_eq: "s \<noteq> 0 \<Longrightarrow> memset s c n m = (Some s, store m s (replicate n (ucast c)))"
proof -
  have "fold (\<lambda>i m. m(s + i := v)) [0..<n] m x = (if s \<le> x \<and> x < s + n then v else m x)" for v :: u8 and x
    by (induction n) auto
  then have "fold (\<lambda>i m. m(s + i := v)) [0..<n] m = store m s (replicate n v)" for v :: u8
    by (intro ext) (auto simp: store_def)
  then show "s \<noteq> 0 \<Longrightarrow> ?thesis" by (simp add: memset_def)
qed

section \<open>Strings\<close>

text \<open>The string \<open>xs\<close> is at address \<open>p\<close>.\<close>

definition string_at :: "bytes \<Rightarrow> nat \<Rightarrow> u8 list \<Rightarrow> bool" where
  "string_at m p xs \<longleftrightarrow> 0 \<notin> set xs \<and> (\<forall>i<length xs. m (p + i) = xs ! i) \<and> m (p + length xs) = 0"

lemma string_at_Nil [simp]: "string_at m p [] \<longleftrightarrow> m p = 0"
  by (simp add: string_at_def)

lemma string_at_Cons: "string_at m p (x # xs) \<longleftrightarrow> x \<noteq> 0 \<and> m p = x \<and> string_at m (p + 1) xs"
  unfolding string_at_def by (auto simp: All_less_Suc2 nth_Cons')

lemma string_at_store: "0 \<notin> set xs \<Longrightarrow> string_at (store m p (xs @ [0])) p xs"
  by (auto simp: string_at_def store_def nth_append)

lemma string_at_load: "string_at m p xs \<Longrightarrow> load m p (length xs) = xs"
  by (rule nth_equalityI) (simp_all add: string_at_def nth_load)

lemma string_at_cong: "string_at m p xs \<Longrightarrow> (\<And>x. p \<le> x \<Longrightarrow> x \<le> p + length xs \<Longrightarrow> m' x = m x) \<Longrightarrow> string_at m' p xs"
  by (simp add: string_at_def)

lemma strlen_loop_string: "string_at m s xs \<Longrightarrow> strlen_loop m s k = Some (k + length xs)"
proof (induction xs arbitrary: s k)
  case Nil
  then show ?case by (subst strlen_loop.simps) simp
next
  case (Cons x xs)
  then show ?case by (subst strlen_loop.simps) (auto simp: string_at_Cons)
qed

lemma strlen_string: "string_at m s xs \<Longrightarrow> strlen m s = Some (length xs)"
  by (simp add: strlen_def strlen_loop_string)

lemma strnlen_string: "string_at m s xs \<Longrightarrow> strnlen m s n = min n (length xs)"
proof -
  have "string_at m s xs \<Longrightarrow> strnlen_loop m s n = s + min n (length xs)"
  proof (induction xs arbitrary: s n)
    case Nil
    then show ?case by (subst strnlen_loop.simps) simp
  next
    case (Cons x xs)
    then show ?case by (subst strnlen_loop.simps) (auto simp: string_at_Cons min_def)
  qed
  then show "string_at m s xs \<Longrightarrow> ?thesis" by (simp add: strnlen_def)
qed

lemma strcpy_loop_string:
  assumes "string_at m (src + i) xs" and "dst + i + length xs < src + i \<or> src + i + length xs < dst + i"
  shows "strcpy_loop dst src i m = Some (store m (dst + i) (xs @ [0]))"
  using assms
proof (induction xs arbitrary: i m)
  case Nil
  then show ?case by (subst strcpy_loop.simps) (simp add: store_Cons)
next
  case (Cons x xs)
  let ?m = "m(dst + i := x)"
  have "string_at m (src + Suc i) xs" using Cons.prems(1) by (simp add: string_at_Cons)
  then have "string_at ?m (src + Suc i) xs" by (rule string_at_cong) (use Cons.prems(2) in auto)
  moreover have "dst + Suc i + length xs < src + Suc i \<or> src + Suc i + length xs < dst + Suc i"
    using Cons.prems(2) by auto
  ultimately have "strcpy_loop dst src (Suc i) ?m = Some (store ?m (dst + Suc i) (xs @ [0]))" by (rule Cons.IH)
  moreover have "store ?m (dst + Suc i) (xs @ [0]) = store m (dst + i) (x # xs @ [0])"
    by (rule ext) (auto simp: store_def nth_Cons')
  ultimately show ?case using Cons.prems(1) by (subst strcpy_loop.simps) (simp add: string_at_Cons)
qed

lemma strcat_loop_string:
  assumes "string_at m (src + j) xs" and "dst + i + length xs < src + j \<or> src + j + length xs < dst + i"
  shows "strcat_loop dst src i j m = Some (store m (dst + i) (xs @ [0]))"
  using assms
proof (induction xs arbitrary: i j m)
  case Nil
  then show ?case by (subst strcat_loop.simps) (simp add: store_Cons)
next
  case (Cons x xs)
  let ?m = "m(dst + i := x)"
  have "string_at m (src + Suc j) xs" using Cons.prems(1) by (simp add: string_at_Cons)
  then have "string_at ?m (src + Suc j) xs" by (rule string_at_cong) (use Cons.prems(2) in auto)
  moreover have "dst + Suc i + length xs < src + Suc j \<or> src + Suc j + length xs < dst + Suc i"
    using Cons.prems(2) by auto
  ultimately have "strcat_loop dst src (Suc i) (Suc j) ?m = Some (store ?m (dst + Suc i) (xs @ [0]))" by (rule Cons.IH)
  moreover have "store ?m (dst + Suc i) (xs @ [0]) = store m (dst + i) (x # xs @ [0])"
    by (rule ext) (auto simp: store_def nth_Cons')
  ultimately show ?case using Cons.prems(1) by (subst strcat_loop.simps) (simp add: string_at_Cons)
qed

text \<open>For strings in memory that do not overlap, copying leaves the source string at the target and
  appending leaves the concatenation there, both with their terminator, and neither changes a byte
  outside; the result has the length the strings have.\<close>

lemma strcpy_strcat_run:
  assumes "string_at m src xs" and "string_at m dst ys"
    and "dst + length ys + length xs < src \<or> src + length xs < dst"
  shows "strcpy dst src m = Some (dst, store m dst (xs @ [0])) \<and>
    strcat dst src m = Some (dst, store m (dst + length ys) (xs @ [0])) \<and>
    string_at (store m (dst + length ys) (xs @ [0])) dst (ys @ xs) \<and>
    strlen (store m (dst + length ys) (xs @ [0])) dst = Some (length ys + length xs)"
proof -
  have nz: "0 \<notin> set xs" "0 \<notin> set ys" using assms by (simp_all add: string_at_def)
  have "strcpy_loop dst src 0 m = Some (store m (dst + 0) (xs @ [0]))"
    using assms by (intro strcpy_loop_string) auto
  moreover have "strcat_loop dst src (length ys) 0 m = Some (store m (dst + length ys) (xs @ [0]))"
    using assms by (intro strcat_loop_string) auto
  moreover have "store m (dst + length ys) (xs @ [0]) = store m dst ((ys @ xs) @ [0])"
  proof -
    have "store m dst ys = m"
      using string_at_load [OF assms(2)] store_load_id [of m dst "length ys"] by simp
    then show ?thesis using store_append [of "dst + length ys" dst ys m "xs @ [0]"] by simp
  qed
  moreover have "string_at (store m dst ((ys @ xs) @ [0])) dst (ys @ xs)"
    by (rule string_at_store) (use nz in simp)
  ultimately show ?thesis
    using strlen_string [OF assms(2)] strlen_string [of "store m dst ((ys @ xs) @ [0])" dst "ys @ xs"]
    by (simp add: strcpy_def strcat_def)
qed

lemma strcpy_strcat_example:
  "strcat 10 20 (store (store (\<lambda>_. 0) 20 [104, 105]) 10 [111, 104]) =
     Some (10, store (store (store (\<lambda>_. 0) 20 [104, 105]) 10 [111, 104]) 12 [104, 105, 0])"
proof -
  let ?m = "store (store (\<lambda>_. 0) 20 [104, 105]) 10 [111, 104] :: bytes"
  have "string_at ?m 20 [104, 105]" "string_at ?m 10 [111, 104]"
    by (simp_all add: string_at_Cons store_def)
  from strcpy_strcat_run [OF this] show ?thesis by simp
qed

section \<open>Comparing\<close>

lemma strcmp_loop_strings:
  "string_at m (s1 + i) xs \<Longrightarrow> string_at m (s2 + i) ys \<Longrightarrow>
     strcmp_loop m s1 s2 i = Some (if xs = ys then 0 else if ord_class.lexordp xs ys then - 1 else 1)"
proof (induction xs arbitrary: i ys)
  case Nil
  then show ?case by (subst strcmp_loop.simps) (cases ys, auto simp: string_at_Cons)
next
  case (Cons x xs)
  show ?case
  proof (cases ys)
    case Nil
    then show ?thesis using Cons.prems by (subst strcmp_loop.simps) (auto simp: string_at_Cons)
  next
    case (Cons y ys')
    have "string_at m (s1 + Suc i) xs" "string_at m (s2 + Suc i) ys'"
      using Cons.prems Cons by (simp_all add: string_at_Cons)
    from Cons.IH [OF this] show ?thesis
      using Cons.prems Cons by (subst strcmp_loop.simps) (auto simp: string_at_Cons)
  qed
qed

lemma strchr_string:
  "string_at m s xs \<Longrightarrow> strchr m s (ucast c) = Some (if c \<in> set xs then Some (s + length (takeWhile (\<lambda>x. x \<noteq> c) xs)) else None)"
proof (induction xs arbitrary: s)
  case Nil
  then show ?case by (subst strchr.simps) simp
next
  case (Cons x xs)
  have u: "(ucast x :: u32) = ucast c \<longleftrightarrow> x = c" by (metis bit_ucast_8_32 bit_word_eqI)
  show ?case using Cons by (subst strchr.simps) (auto simp: string_at_Cons u)
qed

lemma takeWhile_less: "c \<in> set xs \<Longrightarrow> length (takeWhile (\<lambda>x. x \<noteq> c) xs) < length xs"
  by (induction xs) auto

lemma strrchr_loop_string:
  "string_at m s xs \<Longrightarrow> strrchr_loop m s (ucast c) p =
     Some (if c \<in> set xs then Some (s + (length xs - 1 - length (takeWhile (\<lambda>x. x \<noteq> c) (rev xs)))) else p)"
proof (induction xs arbitrary: s p)
  case Nil
  then show ?case by (subst strrchr_loop.simps) simp
next
  case (Cons x xs)
  have u: "(ucast x :: u32) = ucast c \<longleftrightarrow> x = c" by (metis bit_ucast_8_32 bit_word_eqI)
  have tw: "length (takeWhile (\<lambda>x. x \<noteq> c) (rev xs)) < length xs" if "c \<in> set xs"
    using takeWhile_less [of c "rev xs"] that by simp
  show ?case using Cons tw by (subst strrchr_loop.simps) (auto simp: string_at_Cons u takeWhile_append takeWhile_tail)
qed

text \<open>On strings in memory, the comparison is the lexicographic order of unsigned bytes, the forward
  search finds the first occurrence of a non-zero byte and the backward search the last.\<close>

lemma strcmp_strchr_correct:
  assumes "string_at m s xs" and "string_at m t ys"
  shows "strcmp m s t = Some (if xs = ys then 0 else if ord_class.lexordp xs ys then - 1 else 1) \<and>
    strchr m s (ucast c) = Some (if c \<in> set xs then Some (s + length (takeWhile (\<lambda>x. x \<noteq> c) xs)) else None) \<and>
    strrchr m s (ucast c) =
      Some (if c \<in> set xs then Some (s + (length xs - 1 - length (takeWhile (\<lambda>x. x \<noteq> c) (rev xs)))) else None)"
  using strcmp_loop_strings [of m s 0 xs t ys] assms strchr_string strrchr_loop_string
  by (simp add: strcmp_def strrchr_def)

lemma strcmp_strchr_correct_witness:
  "strcmp (store (store (\<lambda>_. 0) 20 [104, 105]) 10 [111, 104]) 20 10 = Some (- 1)"
proof -
  let ?m = "store (store (\<lambda>_. 0) 20 [104, 105]) 10 [111, 104] :: bytes"
  have "string_at ?m 20 [104, 105]" "string_at ?m 10 [111, 104]"
    by (simp_all add: string_at_Cons store_def)
  from strcmp_strchr_correct [OF this] show ?thesis by simp
qed

text \<open>The bounded loop on bytes that agree.\<close>

lemma strncmp_loop_equal:
  assumes "\<forall>i<n. m (s1 + i) = m (s2 + i)" and "i \<le> n"
  shows "strncmp_loop m s1 s2 n i = (if \<exists>k. i \<le> k \<and> k < n \<and> m (s1 + k) = 0 then - 1 else 0)"
  using assms
proof (induction m s1 s2 n i rule: strncmp_loop.induct)
  case (1 m s1 s2 n i)
  consider "i = n" | "i < n" "m (s1 + i) = 0" | "i < n" "m (s1 + i) \<noteq> 0" using 1(3) by linarith
  then show ?case
  proof cases
    case 3
    then have "strncmp_loop m s1 s2 n i = strncmp_loop m s1 s2 n (i + 1)"
      using 1(2) by (subst strncmp_loop.simps) simp
    also have "\<dots> = (if \<exists>k. i + 1 \<le> k \<and> k < n \<and> m (s1 + k) = 0 then - 1 else 0)"
      using 3 1(2) by (intro 1(1)) auto
    also have "(\<exists>k. i + 1 \<le> k \<and> k < n \<and> m (s1 + k) = 0) = (\<exists>k. i \<le> k \<and> k < n \<and> m (s1 + k) = 0)"
      using 3 by (metis Suc_eq_plus1 Suc_leD Suc_leI le_neq_implies_less)
    finally show ?thesis .
  qed (use 1(2) in \<open>subst strncmp_loop.simps, auto\<close>)+
qed

lemma strncmp_loop_strings:
  "string_at m (s1 + i) xs \<Longrightarrow> string_at m (s2 + i) xs \<Longrightarrow> i \<le> n \<Longrightarrow>
     strncmp_loop m s1 s2 n i = (if i + length xs < n then - 1 else 0)"
proof (induction xs arbitrary: i)
  case Nil
  then show ?case by (subst strncmp_loop.simps) auto
next
  case (Cons x xs)
  then have "string_at m (s1 + Suc i) xs" "string_at m (s2 + Suc i) xs" by (simp_all add: string_at_Cons)
  note ih = Cons.IH [OF this]
  show ?case
  proof (cases "i = n")
    case True
    then show ?thesis by (subst strncmp_loop.simps) simp
  next
    case False
    then show ?thesis using Cons.prems ih by (subst strncmp_loop.simps) (auto simp: string_at_Cons)
  qed
qed

lemma zero_in_load: "0 \<in> set (load m s n) \<longleftrightarrow> (\<exists>k<n. m (s + k) = 0)"
  by (auto simp: in_set_conv_nth nth_load)

text \<open>Bounded comparison of equal data is wrong in one way: equal buffers compare as \<open>- 1\<close> as soon as
  they contain a zero byte within the bound, so \<open>memcmp\<close> reports them unequal, and \<open>strncmp\<close> reports two
  equal strings unequal unless they are at least \<open>n\<close> long.\<close>

lemma memcmp_strncmp_equal:
  "(load m s1 n = load m s2 n \<longrightarrow> memcmp m s1 s2 n = (if 0 \<in> set (load m s1 n) then - 1 else 0)) \<and>
   (string_at m s1 xs \<and> string_at m s2 xs \<longrightarrow> strncmp m s1 s2 n = (if length xs < n then - 1 else 0))"
proof (intro conjI impI)
  assume "load m s1 n = load m s2 n"
  then have "\<forall>i<n. m (s1 + i) = m (s2 + i)" by (metis nth_load)
  then show "memcmp m s1 s2 n = (if 0 \<in> set (load m s1 n) then - 1 else 0)"
    by (simp add: memcmp_def strncmp_loop_equal zero_in_load)
next
  assume "string_at m s1 xs \<and> string_at m s2 xs"
  then show "strncmp m s1 s2 n = (if length xs < n then - 1 else 0)"
    using strncmp_loop_strings [of m s1 0 xs s2 n] by (simp add: strncmp_def)
qed

lemma memcmp_strncmp_equal_witness:
  "memcmp (\<lambda>_. 0) 10 20 4 = - 1 \<and> strncmp (store (store (\<lambda>_. 0) 20 [104]) 10 [104]) 10 20 5 = - 1"
proof -
  let ?m = "store (store (\<lambda>_. 0) 20 [104]) 10 [104] :: bytes"
  have "string_at ?m 10 [104]" "string_at ?m 20 [104]" by (simp_all add: string_at_Cons store_def)
  then have "strncmp ?m 10 20 5 = - 1" using memcmp_strncmp_equal [of ?m 10 0 20 "[104]"]
      memcmp_strncmp_equal [of ?m 10 5 20 "[104]"] by simp
  moreover have "load (\<lambda>_. 0) 10 4 = (load (\<lambda>_. 0) 20 4 :: u8 list)" "0 \<in> set (load (\<lambda>_. 0) 10 4 :: u8 list)"
    by (simp_all add: load_def upt_rec_numeral)
  then have "memcmp (\<lambda>_. 0) 10 20 4 = - 1" using memcmp_strncmp_equal [of "\<lambda>_. 0" 10 4 20] by metis
  ultimately show ?thesis by blast
qed

end
