(* ===== verification/Tool_Stdio.thy ===== *)
theory Tool_Stdio
  imports Tool_String Base_Drivers
begin

text \<open>
  Formatted output (\<open>software/base-port/tool/src/stdio.c\<close>). A format and a string argument are byte
  lists without their terminating zero; what the C code appends through \<open>str\<close> is a list; the
  variable arguments are a list.
\<close>

section \<open>Numbers\<close>

definition ZEROPAD :: u32 where "ZEROPAD = 1"
definition SIGN :: u32 where "SIGN = 2"
definition PLUS :: u32 where "PLUS = 4"
definition SPACE :: u32 where "SPACE = 8"
definition LEFT :: u32 where "LEFT = 16"
definition SPECIAL :: u32 where "SPECIAL = 32"
definition LARGE :: u32 where "LARGE = 64"

definition has :: "u32 \<Rightarrow> u32 \<Rightarrow> bool" where
  "has type flag \<longleftrightarrow> type AND flag \<noteq> 0"

definition is_digit :: "u8 \<Rightarrow> bool" where
  "is_digit c \<longleftrightarrow> c \<ge> chr CHR ''0'' \<and> c \<le> chr CHR ''9''"

definition digits :: "u8 list" where
  "digits = cstr ''0123456789abcdefghijklmnopqrstuvwxyz''"

definition upper_digits :: "u8 list" where
  "upper_digits = cstr ''0123456789ABCDEFGHIJKLMNOPQRSTUVWXYZ''"

text \<open>The number at the start of the format and the rest of the format.\<close>

fun skip_atoi :: "u8 list \<Rightarrow> int \<Rightarrow> int \<times> u8 list" where
  "skip_atoi [] i = (i, [])"
| "skip_atoi (c # s) i =
     (if is_digit c then skip_atoi s (i * 10 + uint c - uint (chr CHR ''0'')) else (i, c # s))"

text \<open>\<open>while (lo < sz--) *str++ = c;\<close> with the bytes written and the final value of \<open>sz\<close>.\<close>

function emit_while :: "u8 \<Rightarrow> int \<Rightarrow> int \<Rightarrow> u8 list \<times> int" where
  "emit_while c lo sz =
     (if lo < sz then (case emit_while c lo (sz - 1) of (s, sz) \<Rightarrow> (c # s, sz)) else ([], sz - 1))"
  by auto
termination by (relation "measure (\<lambda>(c, lo, sz). nat (sz - lo))") auto

declare emit_while.simps [simp del]

text \<open>The digits in \<open>tmp\<close>, least significant first.\<close>

function tmp_digits :: "u8 list \<Rightarrow> nat \<Rightarrow> nat \<Rightarrow> u8 list" where
  "tmp_digits dig base num =
     (if num = 0 \<or> base < 2 then [] else dig ! (num mod base) # tmp_digits dig base (num div base))"
  by auto
termination by (relation "measure (\<lambda>(dig, base, num). num)") auto

declare tmp_digits.simps [simp del]

definition number :: "u32 \<Rightarrow> int \<Rightarrow> int \<Rightarrow> int \<Rightarrow> u32 \<Rightarrow> u8 list option" where
  "number num base sz precision type =
     (let dig = (if has type LARGE then upper_digits else digits);
          type = (if has type LEFT then type AND NOT ZEROPAD else type) in
      if base < 2 \<or> base > 36 then None
      else
        let c = (if has type ZEROPAD then chr CHR ''0'' else chr CHR '' '');
            (sign, num, sz) =
              (if has type SIGN then
                 if sint num < 0 then ([chr CHR ''-''], - num, sz - 1)
                 else if has type PLUS then ([chr CHR ''+''], num, sz - 1)
                 else if has type SPACE then ([chr CHR '' ''], num, sz - 1)
                 else ([], num, sz)
               else ([], num, sz));
            sz = (if has type SPECIAL then if base = 16 then sz - 2 else if base = 8 then sz - 1 else sz else sz);
            tmp = (if num = 0 then [chr CHR ''0''] else tmp_digits dig (nat base) (unat num));
            i = int (length tmp);
            precision = (if i > precision then i else precision);
            sz = sz - precision;
            (lead, sz) = (if \<not> has type (ZEROPAD OR LEFT) then emit_while (chr CHR '' '') 0 sz else ([], sz));
            special = (if has type SPECIAL then
                         if base = 8 then [chr CHR ''0'']
                         else if base = 16 then [chr CHR ''0'', digits ! 33] else []
                       else []);
            (pad, sz) = (if \<not> has type LEFT then emit_while c 0 sz else ([], sz));
            (zeros, precision) = emit_while (chr CHR ''0'') i precision;
            (trail, sz) = emit_while (chr CHR '' '') 0 sz
        in Some (lead @ sign @ special @ pad @ zeros @ rev tmp @ trail))"

text \<open>Six bytes as an Ethernet address, four bytes as an IP address.\<close>

definition eaddr :: "u8 list \<Rightarrow> int \<Rightarrow> u32 \<Rightarrow> u8 list" where
  "eaddr addr sz type =
     (let dig = (if has type LARGE then upper_digits else digits);
          tmp = concat (map (\<lambda>i. (if i \<noteq> 0 then [chr CHR '':''] else []) @
                  [dig ! (unat (addr ! i) div 16), dig ! (unat (addr ! i) mod 16)]) [0..<6]);
          len = int (length tmp);
          (lead, sz) = (if \<not> has type LEFT then emit_while (chr CHR '' '') len sz else ([], sz));
          (trail, sz) = emit_while (chr CHR '' '') len sz
      in lead @ tmp @ trail)"

definition iaddr_byte :: "nat \<Rightarrow> u8 list" where
  "iaddr_byte n =
     (if n = 0 then [digits ! 0]
      else if n \<ge> 100 then [digits ! (n div 100), digits ! (n mod 100 div 10), digits ! (n mod 100 mod 10)]
      else if n \<ge> 10 then [digits ! (n div 10), digits ! (n mod 10)]
      else [digits ! n])"

definition iaddr :: "u8 list \<Rightarrow> int \<Rightarrow> u32 \<Rightarrow> u8 list" where
  "iaddr addr sz type =
     (let tmp = concat (map (\<lambda>i. (if i \<noteq> 0 then [chr CHR ''.''] else []) @ iaddr_byte (unat (addr ! i))) [0..<4]);
          len = int (length tmp);
          (lead, sz) = (if \<not> has type LEFT then emit_while (chr CHR '' '') len sz else ([], sz));
          (trail, sz) = emit_while (chr CHR '' '') len sz
      in lead @ tmp @ trail)"

section \<open>Formats\<close>

text \<open>
  The variable arguments: an integer or pointer, a string (or \<open>NULL\<close>), a block of bytes. Reading
  more arguments than there are, or one of another kind, is an access out of bounds.
\<close>

datatype va_arg = VWord u32 | VStr "u8 list option" | VBytes "u8 list"

fun va_word :: "va_arg list \<Rightarrow> (u32 \<times> va_arg list) res" where
  "va_word (VWord w # ap) = Inr (w, ap)"
| "va_word _ = Inl Out_of_bounds"

fun va_str :: "va_arg list \<Rightarrow> (u8 list option \<times> va_arg list) res" where
  "va_str (VStr s # ap) = Inr (s, ap)"
| "va_str _ = Inl Out_of_bounds"

fun va_bytes :: "nat \<Rightarrow> va_arg list \<Rightarrow> (u8 list \<times> va_arg list) res" where
  "va_bytes n (VBytes bs # ap) = (if n \<le> length bs then Inr (bs, ap) else Inl Out_of_bounds)"
| "va_bytes n _ = Inl Out_of_bounds"

fun parse_flags :: "u8 list \<Rightarrow> u32 \<Rightarrow> u8 list \<times> u32" where
  "parse_flags [] flags = ([], flags)"
| "parse_flags (c # fmt) flags =
     (if c = chr CHR ''-'' then parse_flags fmt (flags OR LEFT)
      else if c = chr CHR ''+'' then parse_flags fmt (flags OR PLUS)
      else if c = chr CHR '' '' then parse_flags fmt (flags OR SPACE)
      else if c = chr CHR ''#'' then parse_flags fmt (flags OR SPECIAL)
      else if c = chr CHR ''0'' then parse_flags fmt (flags OR ZEROPAD)
      else (c # fmt, flags))"

definition parse_width :: "u8 list \<Rightarrow> va_arg list \<Rightarrow> u32 \<Rightarrow> (u8 list \<times> va_arg list \<times> int \<times> u32) res" where
  "parse_width fmt ap flags =
     (case fmt of
        [] \<Rightarrow> Inr (fmt, ap, - 1, flags)
      | c # cs \<Rightarrow>
          if is_digit c then (case skip_atoi fmt 0 of (w, fmt) \<Rightarrow> Inr (fmt, ap, w, flags))
          else if c = chr CHR ''*'' then
            rbind (va_word ap) (\<lambda>(w, ap).
              if sint w < 0 then Inr (cs, ap, - sint w, flags OR LEFT) else Inr (cs, ap, sint w, flags))
          else Inr (fmt, ap, - 1, flags))"

definition parse_precision :: "u8 list \<Rightarrow> va_arg list \<Rightarrow> (u8 list \<times> va_arg list \<times> int) res" where
  "parse_precision fmt ap =
     (case fmt of
        [] \<Rightarrow> Inr (fmt, ap, - 1)
      | c # cs \<Rightarrow>
          if c = chr CHR ''.'' then
            rbind (case cs of
                [] \<Rightarrow> Inr (cs, ap, - 1)
              | d # ds \<Rightarrow>
                  if is_digit d then (case skip_atoi cs 0 of (p, fmt) \<Rightarrow> Inr (fmt, ap, p))
                  else if d = chr CHR ''*'' then rbind (va_word ap) (\<lambda>(p, ap). Inr (ds, ap, sint p))
                  else Inr (cs, ap, - 1)) (\<lambda>(fmt, ap, p). Inr (fmt, ap, if p < 0 then 0 else p))
          else Inr (fmt, ap, - 1))"

definition parse_qualifier :: "u8 list \<Rightarrow> u8 list \<times> u8 option" where
  "parse_qualifier fmt =
     (case fmt of
        [] \<Rightarrow> ([], None)
      | c # cs \<Rightarrow>
          if c = chr CHR ''h'' \<or> c = chr CHR ''l'' \<or> c = chr CHR ''L'' then (cs, Some c) else (fmt, None))"

text \<open>\<open>while (--w > 0) *str++ = ' ';\<close>\<close>

definition emit_pre :: "int \<Rightarrow> u8 list \<times> int" where
  "emit_pre w = (case emit_while (chr CHR '' '') 0 (w - 1) of (s, w) \<Rightarrow> (s, w + 1))"

text \<open>
  One conversion: the text it writes, the arguments left, and the stores of \<open>%n\<close> (pointer and
  value, \<open>pos\<close> bytes being written so far). \<open>int\<close>, \<open>long\<close> and pointers all have 32 bits, so the
  qualifiers do not change which argument is read.
\<close>

definition convert :: "u8 \<Rightarrow> u8 option \<Rightarrow> va_arg list \<Rightarrow> nat \<Rightarrow> int \<Rightarrow> int \<Rightarrow> u32 \<Rightarrow>
    (va_arg list \<times> u8 list \<times> (u32 \<times> nat) list) res" where
  "convert c qualifier ap pos field_width precision flags =
     (let num = (\<lambda>base flags. rbind (va_word ap) (\<lambda>(w, ap).
            case number w base field_width precision flags of
              None \<Rightarrow> Inl Out_of_bounds | Some s \<Rightarrow> Inr (ap, s, []))) in
      if c = chr CHR ''c'' then
        rbind (va_word ap) (\<lambda>(w, ap).
          let (lead, width) = (if \<not> has flags LEFT then emit_pre field_width else ([], field_width));
              (trail, width) = emit_pre width
          in Inr (ap, lead @ [ucast w] @ trail, []))
      else if c = chr CHR ''s'' then
        rbind (va_str ap) (\<lambda>(s, ap).
          let s = (case s of None \<Rightarrow> cstr ''<NULL>'' | Some s \<Rightarrow> s);
              len = int (min (nat (precision mod 2 ^ 32)) (length s));
              (lead, width) = (if \<not> has flags LEFT then emit_while (chr CHR '' '') len field_width else ([], field_width));
              (trail, width) = emit_while (chr CHR '' '') len width
          in Inr (ap, lead @ take (nat len) s @ trail, []))
      else if c = chr CHR ''p'' then
        rbind (va_word ap) (\<lambda>(w, ap).
          let (width, flags) = (if field_width = - 1 then (8, flags OR ZEROPAD) else (field_width, flags)) in
          case number w 16 width precision flags of
            None \<Rightarrow> Inl Out_of_bounds | Some s \<Rightarrow> Inr (ap, s, []))
      else if c = chr CHR ''n'' then rbind (va_word ap) (\<lambda>(ip, ap). Inr (ap, [], [(ip, pos)]))
      else if c = chr CHR ''A'' \<or> c = chr CHR ''a'' then
        let flags = (if c = chr CHR ''A'' then flags OR LARGE else flags) in
        if qualifier = Some (chr CHR ''l'')
        then rbind (va_bytes 6 ap) (\<lambda>(bs, ap). Inr (ap, eaddr bs field_width flags, []))
        else rbind (va_bytes 4 ap) (\<lambda>(bs, ap). Inr (ap, iaddr bs field_width flags, []))
      else if c = chr CHR ''o'' then num 8 flags
      else if c = chr CHR ''X'' then num 16 (flags OR LARGE)
      else if c = chr CHR ''x'' then num 16 flags
      else if c = chr CHR ''d'' \<or> c = chr CHR ''i'' then num 10 (flags OR SIGN)
      else if c = chr CHR ''u'' then num 10 flags
      else Inr (ap, (if c \<noteq> chr CHR ''%'' then [chr CHR ''%''] else []) @ [c], []))"

text \<open>A directive, after its percent sign.\<close>

definition directive :: "u8 list \<Rightarrow> va_arg list \<Rightarrow> nat \<Rightarrow>
    (u8 list \<times> va_arg list \<times> u8 list \<times> (u32 \<times> nat) list) res" where
  "directive fmt ap pos =
     (case parse_flags fmt 0 of (fmt, flags) \<Rightarrow>
      rbind (parse_width fmt ap flags) (\<lambda>(fmt, ap, field_width, flags).
      rbind (parse_precision fmt ap) (\<lambda>(fmt, ap, precision).
      case parse_qualifier fmt of (fmt, qualifier) \<Rightarrow>
      case fmt of
        [] \<Rightarrow> Inr ([], ap, [chr CHR ''%''], [])
      | c # fmt \<Rightarrow>
          rbind (convert c qualifier ap pos field_width precision flags) (\<lambda>(ap, text, ws). Inr (fmt, ap, text, ws)))))"

lemma parse_flags_length: "length (fst (parse_flags fmt flags)) \<le> length fmt"
  by (induction fmt flags rule: parse_flags.induct) auto

lemma skip_atoi_length: "length (snd (skip_atoi s i)) \<le> length s"
  by (induction s i rule: skip_atoi.induct) auto

lemma directive_shorter:
  assumes "directive fmt ap pos = Inr (fmt', ap', text, ws)"
  shows "length fmt' \<le> length fmt"
proof -
  obtain f1 flags where 1: "parse_flags fmt 0 = (f1, flags)" by fastforce
  obtain f2 ap2 w flags2 where 2: "parse_width f1 ap flags = Inr (f2, ap2, w, flags2)"
    using assms 1 by (auto simp: directive_def rbind_eq_Inr_iff)
  obtain f3 ap3 p where 3: "parse_precision f2 ap2 = Inr (f3, ap3, p)"
    using assms 1 2 by (auto simp: directive_def rbind_eq_Inr_iff)
  obtain f4 q where 4: "parse_qualifier f3 = (f4, q)" by fastforce
  have "length f1 \<le> length fmt" using parse_flags_length [of fmt 0] 1 by simp
  moreover have "length f2 \<le> length f1" using 2 skip_atoi_length [of f1 0]
    by (auto simp: parse_width_def rbind_eq_Inr_iff split: list.splits if_splits prod.splits)
  moreover have "length f3 \<le> length f2" using 3 skip_atoi_length [of "tl f2" 0]
    by (auto simp: parse_precision_def rbind_eq_Inr_iff split: list.splits if_splits prod.splits)
  moreover have "length f4 \<le> length f3" using 4
    by (auto simp: parse_qualifier_def split: list.splits if_splits)
  moreover have "length fmt' \<le> length f4"
    using assms 1 2 3 4 by (auto simp: directive_def rbind_eq_Inr_iff split: list.splits)
  ultimately show ?thesis by linarith
qed

text \<open>The loop over the format: output so far and stores so far.\<close>

function vloop :: "u8 list \<Rightarrow> va_arg list \<Rightarrow> u8 list \<Rightarrow> (u32 \<times> nat) list \<Rightarrow> (u8 list \<times> (u32 \<times> nat) list) res" where
  "vloop [] ap out ws = Inr (out, ws)"
| "vloop (c # fmt) ap out ws =
     (if c \<noteq> chr CHR ''%'' then vloop fmt ap (out @ [c]) ws
      else rbind (directive fmt ap (length out)) (\<lambda>r. case r of (fmt, ap, text, ws') \<Rightarrow>
        vloop fmt ap (out @ text) (ws @ ws')))"
  by pat_completeness auto
termination
  by (relation "measure (\<lambda>(fmt, ap, out, ws). length fmt)") (auto dest: directive_shorter)

text \<open>
  The bound \<open>n\<close> is compared with \<open>j\<close>, which stays 0: it only matters whether it is 0. The text does
  not include the terminating zero, which is always written.
\<close>

definition vsnprintf :: "nat \<Rightarrow> u8 list \<Rightarrow> va_arg list \<Rightarrow> (u8 list \<times> (u32 \<times> nat) list) res" where
  "vsnprintf n fmt ap = (if 0 < n then vloop fmt ap [] [] else Inr ([], []))"

definition vsprintf :: "u8 list \<Rightarrow> va_arg list \<Rightarrow> (u8 list \<times> (u32 \<times> nat) list) res" where
  "vsprintf fmt ap = vsnprintf (length fmt) fmt ap"

text \<open>A block of bytes in the memory of the program.\<close>

definition mem_put :: "u32 \<Rightarrow> u8 list \<Rightarrow> (unit, sim) prog" where
  "mem_put a bs s =
     (if 0x80000000 \<le> unat a \<and> unat a + length bs \<le> 0x88000000
      then Returns () (s\<lparr>sim_pmem := store (sim_pmem s) (offset_of a) bs\<rparr>)
      else Faulted Out_of_bounds)"

definition mem_get :: "u32 \<Rightarrow> nat \<Rightarrow> (u8 list, sim) prog" where
  "mem_get a n s =
     (if 0x80000000 \<le> unat a \<and> unat a + n \<le> 0x88000000
      then Returns (load (sim_pmem s) (offset_of a) n) s
      else Faulted Out_of_bounds)"

text \<open>The text and its zero are written at \<open>out\<close>, then the stores of \<open>%n\<close>; the result is the length.\<close>

definition put_text :: "u32 \<Rightarrow> u8 list \<times> (u32 \<times> nat) list \<Rightarrow> (u32, sim) prog" where
  "put_text out r =
     (case r of (text, ws) \<Rightarrow>
      gbind (mem_put out (text @ [0])) (\<lambda>_.
      gbind (gfor ws (\<lambda>(ip, n). mem_put ip (bytes_of_word 4 (of_nat n :: u32)))) (\<lambda>_.
        Returns (of_nat (length text)))))"

definition sprintf :: "u32 \<Rightarrow> u8 list \<Rightarrow> va_arg list \<Rightarrow> (u32, sim) prog" where
  "sprintf out fmt ap = gbind (glift (\<lambda>s. rbind (vsprintf fmt ap) (\<lambda>r. Inr (r, s)))) (put_text out)"

definition snprintf :: "u32 \<Rightarrow> nat \<Rightarrow> u8 list \<Rightarrow> va_arg list \<Rightarrow> (u32, sim) prog" where
  "snprintf out n fmt ap = gbind (glift (\<lambda>s. rbind (vsnprintf n fmt ap) (\<lambda>r. Inr (r, s)))) (put_text out)"

text \<open>\<open>printf\<close> formats into a static buffer of 65536 bytes and sends what is before the first zero.\<close>

definition printf :: "host \<Rightarrow> u8 list \<Rightarrow> va_arg list \<Rightarrow> (u32, sim) prog" where
  "printf e fmt ap =
     gbind (glift (\<lambda>s. rbind (vsprintf fmt ap) (\<lambda>r. Inr (r, s)))) (\<lambda>(text, ws).
     gbind (glift (\<lambda>s. rbind (rassert Out_of_bounds (length text < 65536)) (\<lambda>_. Inr ((), s)))) (\<lambda>_.
     gbind (gfor ws (\<lambda>(ip, n). mem_put ip (bytes_of_word 4 (of_nat n :: u32)))) (\<lambda>_.
     gbind (gfor (takeWhile (\<lambda>c. c \<noteq> 0) text) (putch e)) (\<lambda>_.
       Returns (of_nat (length text))))))"

section \<open>Lemmas: numbers\<close>

lemma emit_while_eq: "emit_while c lo sz = (replicate (nat (sz - lo)) c, min sz lo - 1)"
proof (induction c lo sz rule: emit_while.induct)
  case (1 c lo sz)
  show ?case
  proof (cases "lo < sz")
    case True
    then have "nat (sz - lo) = Suc (nat (sz - 1 - lo))" by simp
    then show ?thesis using 1 True by (subst emit_while.simps) simp
  qed (subst emit_while.simps, simp)
qed

lemma length_digits: "length digits = 36" "length upper_digits = 36"
  by (simp_all add: digits_def upper_digits_def cstr_def)

lemma digit_values: "i < 10 \<Longrightarrow> digits ! i = of_nat (48 + i)"
proof -
  assume "i < 10"
  then have "i \<in> {0, 1, 2, 3, 4, 5, 6, 7, 8, 9}" by auto
  then show "digits ! i = of_nat (48 + i)" by (auto simp: digits_def cstr_def)
qed

lemma digit_props:
  assumes "i < 10"
  shows "is_digit (digits ! i)" and "uint (digits ! i) - uint (chr CHR ''0'') = int i"
proof -
  have "unat (of_nat (48 + i) :: u8) = 48 + i" using assms by (subst unsigned_of_nat) (simp add: take_bit_nat_eq_self)
  then show "is_digit (digits ! i)" "uint (digits ! i) - uint (chr CHR ''0'') = int i"
    using assms by (simp_all add: digit_values is_digit_def word_le_nat_alt uint_nat)
qed

text \<open>The digits of a number, most significant first, and what the parser makes of them.\<close>

lemma skip_atoi_digits:
  assumes "rest = [] \<or> \<not> is_digit (hd rest)"
  shows "skip_atoi (rev (tmp_digits digits 10 n) @ rest) i =
    (i * 10 ^ length (tmp_digits digits 10 n) + int n, rest)"
proof -
  have app: "skip_atoi (xs @ ys) i = (case skip_atoi xs i of (j, []) \<Rightarrow> skip_atoi ys j | (j, zs) \<Rightarrow> (j, zs @ ys))" for xs ys i
    by (induction xs i rule: skip_atoi.induct) auto
  have "skip_atoi (rev (tmp_digits digits 10 n)) i = (i * 10 ^ length (tmp_digits digits 10 n) + int n, [])"
  proof (induction n arbitrary: i rule: less_induct)
    case (less n)
    show ?case
    proof (cases "n = 0")
      case True
      then show ?thesis by (subst tmp_digits.simps, subst (2) tmp_digits.simps) simp
    next
      case False
      then have t: "tmp_digits digits 10 n = digits ! (n mod 10) # tmp_digits digits 10 (n div 10)"
        by (subst tmp_digits.simps) simp
      have lt: "n mod 10 < 10" by simp
      have "int n = int (n div 10 * 10 + n mod 10)" by (simp only: div_mult_mod_eq)
      then have "int n = int (n div 10) * 10 + int (n mod 10)"
        by (simp only: of_nat_add of_nat_mult of_nat_numeral)
      then show ?thesis using less.IH [of "n div 10"] False digit_props [OF lt]
        by (simp add: t app algebra_simps)
    qed
  qed
  then show ?thesis using assms by (cases rest) (auto simp: app)
qed

lemma tmp_digits_decimal:
  "set (tmp_digits digits 10 n) \<subseteq> Collect is_digit" "n \<noteq> 0 \<Longrightarrow> last (tmp_digits digits 10 n) \<noteq> chr CHR ''0''"
  "n \<noteq> 0 \<Longrightarrow> tmp_digits digits 10 n \<noteq> []"
proof -
  show "set (tmp_digits digits 10 n) \<subseteq> Collect is_digit"
  proof (induction n rule: less_induct)
    case (less n)
    show ?case
    proof (cases "n = 0")
      case False
      then show ?thesis using less.IH [of "n div 10"] digit_props(1) [of "n mod 10"]
        by (subst tmp_digits.simps) simp
    qed (subst tmp_digits.simps, simp)
  qed
  show ne: "n \<noteq> 0 \<Longrightarrow> tmp_digits digits 10 n \<noteq> []" for n by (subst tmp_digits.simps) simp
  show "n \<noteq> 0 \<Longrightarrow> last (tmp_digits digits 10 n) \<noteq> chr CHR ''0''"
  proof (induction n rule: less_induct)
    case (less n)
    show ?case
    proof (cases "n div 10 = 0")
      case True
      then have n: "n < 10" by auto
      have "unat (of_nat (48 + n) :: u8) = 48 + n" using n by (subst unsigned_of_nat) (simp add: take_bit_nat_eq_self)
      then have "digits ! n \<noteq> chr CHR ''0''" using n less.prems by (simp add: digit_values word_unat_eq_iff)
      moreover have "tmp_digits digits 10 n = [digits ! n]"
        using n less.prems by (subst tmp_digits.simps, subst tmp_digits.simps) simp
      ultimately show ?thesis by simp
    next
      case False
      then show ?thesis using less.IH [of "n div 10"] less.prems ne [OF False]
        by (subst tmp_digits.simps) simp
    qed
  qed
qed

definition decimal :: "u32 \<Rightarrow> u8 list" where
  "decimal w = (let n = nat \<bar>sint w\<bar> in if n = 0 then [chr CHR ''0''] else rev (tmp_digits digits 10 n))"

lemma abs_sint:
  "unat (if sint (w :: u32) < 0 then - w else w) = nat \<bar>sint w\<bar>"
proof -
  have u: "uint (word_of_int j :: u32) = j" if "0 \<le> j" "j < 2 ^ 32" for j
    using that by (simp add: uint_word_of_int)
  have b: "- (2 ^ 31) \<le> sint w" "sint w < 2 ^ 31" using sint_ge [of w] sint_lt [of w] by simp_all
  have w: "word_of_int (sint w) = w" "word_of_int (- sint w) = - w" by simp_all
  have "uint (if sint w < 0 then - w else w) = \<bar>sint w\<bar>"
  proof (cases "sint w < 0")
    case True
    then have "uint (word_of_int (- sint w) :: u32) = - sint w" using b by (intro u) auto
    then show ?thesis using True w(2) by simp
  next
    case False
    then have "uint (word_of_int (sint w) :: u32) = sint w" using b by (intro u) auto
    then show ?thesis using False w(1) by simp
  qed
  then have "nat (uint (if sint w < 0 then - w else w)) = nat \<bar>sint w\<bar>" by (rule arg_cong)
  then show ?thesis by (simp only: nat_uint_eq)
qed

lemma has_SIGN:
  "has SIGN LARGE = False" "has SIGN LEFT = False" "has SIGN ZEROPAD = False" "has SIGN SIGN = True"
  "has SIGN PLUS = False" "has SIGN SPACE = False" "has SIGN SPECIAL = False" "has SIGN (ZEROPAD OR LEFT) = False"
  by (simp_all add: has_def SIGN_def LARGE_def LEFT_def ZEROPAD_def PLUS_def SPACE_def SPECIAL_def)

lemma number_signed:
  "number w 10 sz (- 1) SIGN = Some (replicate (nat (sz - int (length ((if sint w < 0 then [chr CHR ''-''] else []) @ decimal w)))) (chr CHR '' '') @
     (if sint w < 0 then [chr CHR ''-''] else []) @ decimal w)"
proof -
  define v where "v = (if sint w < 0 then - w else w)"
  have v: "unat v = nat \<bar>sint w\<bar>" using abs_sint [of w] by (simp add: v_def)
  then have z: "v = 0 \<longleftrightarrow> nat \<bar>sint w\<bar> = 0" by (metis unat_eq_0)
  show ?thesis
  proof (cases "v = 0")
    case True
    then have "w = 0" by (simp add: v_def split: if_splits)
    then show ?thesis by (simp add: number_def has_SIGN emit_while_eq decimal_def)
  next
    case nz: False
    then have d: "decimal w = rev (tmp_digits digits 10 (unat v))" using v z by (simp add: decimal_def)
    show ?thesis
    proof (cases "sint w < 0")
      case True
      then have "- w = v" by (simp add: v_def)
      then show ?thesis using True nz
        by (simp add: number_def has_SIGN emit_while_eq d) (simp add: Let_def emit_while_eq diff_diff_eq min_def)
    next
      case False
      then have "w = v" by (simp add: v_def)
      then show ?thesis using False nz d
        by (simp add: number_def has_SIGN emit_while_eq) (simp add: Let_def emit_while_eq min_def)
    qed
  qed
qed

lemma decimal_correct:
  "skip_atoi (decimal w @ rest) 0 = (\<bar>sint w\<bar>, rest)" if "rest = [] \<or> \<not> is_digit (hd rest)"
proof (cases "sint w = 0")
  case True
  have "is_digit (digits ! 0)" "uint (digits ! 0) - uint (chr CHR ''0'') = 0" using digit_props [of 0] by simp_all
  moreover have "digits ! 0 = chr CHR ''0''" by (simp add: digits_def cstr_def)
  ultimately show ?thesis using True that by (cases rest) (simp_all add: decimal_def)
next
  case False
  then show ?thesis using skip_atoi_digits [OF that, of "nat \<bar>sint w\<bar>" 0] by (simp add: decimal_def Let_def)
qed

lemma decimal_shape:
  "decimal w \<noteq> []" "set (decimal w) \<subseteq> Collect is_digit" "hd (decimal w) = chr CHR ''0'' \<longleftrightarrow> decimal w = [chr CHR ''0'']"
proof -
  let ?n = "nat \<bar>sint w\<bar>"
  note t = tmp_digits_decimal [of ?n]
  have "is_digit (chr CHR ''0'')" by (simp add: is_digit_def)
  then show "set (decimal w) \<subseteq> Collect is_digit" using t(1) by (simp add: decimal_def Let_def)
  show ne: "decimal w \<noteq> []" using t(3) by (simp add: decimal_def Let_def)
  show "hd (decimal w) = chr CHR ''0'' \<longleftrightarrow> decimal w = [chr CHR ''0'']"
  proof (cases "?n = 0")
    case False
    then have "hd (decimal w) \<noteq> chr CHR ''0''" using t(2,3) by (simp add: decimal_def Let_def hd_rev)
    then show ?thesis by auto
  qed (simp add: decimal_def)
qed

section \<open>Lemmas: formats\<close>

lemma vloop_plain: "chr CHR ''%'' \<notin> set xs \<Longrightarrow> vloop (xs @ fmt) ap out ws = vloop fmt ap (out @ xs) ws"
  by (induction xs arbitrary: out) auto

text \<open>The directives \<open>%d\<close> and \<open>%s\<close> without flags.\<close>

lemma convert_signed:
  "convert (chr CHR ''d'') q (VWord w # ap) pos (- 1) (- 1) 0 =
    Inr (ap, (if sint w < 0 then [chr CHR ''-''] else []) @ decimal w, [])"
  using number_signed [of w "- 1"] by (simp add: convert_def)

lemma directive_d:
  "directive (chr CHR ''d'' # fmt) (VWord w # ap) pos =
    Inr (fmt, ap, (if sint w < 0 then [chr CHR ''-''] else []) @ decimal w, [])"
  using convert_signed by (simp add: directive_def parse_width_def parse_precision_def parse_qualifier_def is_digit_def)

lemma directive_s:
  assumes "length xs < 2 ^ 32 - 1"
  shows "directive (chr CHR ''s'' # fmt) (VStr (Some xs) # ap) pos = Inr (fmt, ap, xs, [])"
proof -
  have "nat ((- 1 :: int) mod 2 ^ 32) = 2 ^ 32 - 1" by simp
  then have "min (nat ((- 1 :: int) mod 2 ^ 32)) (length xs) = length xs" using assms by simp
  then show ?thesis
    by (simp add: directive_def parse_width_def parse_precision_def parse_qualifier_def is_digit_def
        convert_def has_def emit_while_eq Let_def)
qed

text \<open>C20: The decimal conversion prints the value: an optional minus sign and digits without leading
  zeros that the number parser of the same file reads back as the absolute value (also for the least
  integer), padded on the left to the field width; text around the conversion is copied, and a
  non-zero bound of \<open>vsnprintf\<close> does not limit the output.\<close>

theorem decimal_round_trip:
  fixes w :: u32
  assumes "chr CHR ''%'' \<notin> set pre" and "chr CHR ''%'' \<notin> set post" and "0 < n"
  defines "mns \<equiv> if sint w < 0 then [chr CHR ''-''] else []"
  shows "skip_atoi (decimal w) 0 = (\<bar>sint w\<bar>, []) \<and> decimal w \<noteq> [] \<and> set (decimal w) \<subseteq> Collect is_digit \<and>
    (hd (decimal w) = chr CHR ''0'' \<longleftrightarrow> decimal w = [chr CHR ''0'']) \<and>
    number w 10 sz (- 1) SIGN = Some (replicate (nat (sz - int (length (mns @ decimal w)))) (chr CHR '' '') @ mns @ decimal w) \<and>
    vsnprintf n (pre @ cstr ''%d'' @ post) [VWord w] = Inr (pre @ mns @ decimal w @ post, [])"
proof -
  have "vloop (pre @ (chr CHR ''%'' # chr CHR ''d'' # post)) [VWord w] [] [] = Inr (pre @ mns @ decimal w @ post, [])"
    using vloop_plain [OF assms(1), of "chr CHR ''%'' # chr CHR ''d'' # post"] vloop_plain [OF assms(2), of "[]"]
      directive_d [of post w "[]"] by (simp add: mns_def)
  then have "vsnprintf n (pre @ cstr ''%d'' @ post) [VWord w] = Inr (pre @ mns @ decimal w @ post, [])"
    using assms(3) by (simp add: vsnprintf_def cstr_def)
  then show ?thesis
    using decimal_correct [of "[]" w] decimal_shape number_signed unfolding mns_def by simp
qed

lemma decimal_round_trip_witness:
  "vsnprintf 1 (cstr ''x = '' @ cstr ''%d'' @ cstr ''!'') [VWord (- 42)] = Inr (cstr ''x = '' @ [chr CHR ''-''] @ decimal (- 42) @ cstr ''!'', [])"
proof -
  have "chr CHR ''%'' \<notin> set (cstr ''x = '')" "chr CHR ''%'' \<notin> set (cstr ''!'')" by (simp_all add: cstr_def)
  from decimal_round_trip [OF this, of 1 "- 42"] show ?thesis by simp
qed

end
