(* ===== verification/Os_Fs.thy ===== *)
theory Os_Fs
  imports Tool_Stdio Base_Services
begin

text \<open>
  The file system of the operating system (\<open>software/os/src/fs.c\<close>, \<open>files.h\<close>) and the device files
  behind it (\<open>device.c\<close>), on top of the drivers.
\<close>

section \<open>Messages of the operating system\<close>

text \<open>\<open>Log\<close>, \<open>panic\<close> and \<open>assert\<close> of \<open>include/debug.h\<close>; \<open>file\<close> is the last part of \<open>__FILE__\<close>.\<close>

definition klog :: "host \<Rightarrow> string \<Rightarrow> u8 list \<Rightarrow> va_arg list \<Rightarrow> (unit, sim) prog" where
  "klog e file fmt args =
     gbind (printf e ([27] @ cstr ''[1;33m[%9s]'' @ [27] @ cstr ''[0m '' @ [27] @ cstr ''[1;32m'' @ fmt @ [27] @
         cstr ''[0m'' @ [10]) (VStr (Some (cstr file)) # args))
       (\<lambda>_. Returns ())"

definition os_panic :: "host \<Rightarrow> string \<Rightarrow> u8 list \<Rightarrow> va_arg list \<Rightarrow> ('a, sim) prog" where
  "os_panic e file fmt args =
     gbind (klog e file ([27] @ cstr ''[1;31msystem panic: '' @ fmt) args) (\<lambda>_. halt 1)"

definition os_assert :: "host \<Rightarrow> string \<Rightarrow> string \<Rightarrow> bool \<Rightarrow> (unit, sim) prog" where
  "os_assert e file text c =
     (if c then Returns ()
      else os_panic e file (cstr ''Assertion failed: %s'') [VStr (Some (cstr text))])"

section \<open>Device files\<close>

text \<open>The names of the keys, by number; the entries after the last key are null.\<close>

definition keyname :: "nat \<Rightarrow> u8 list option" where
  "keyname k =
     (if k = 0 then Some (cstr ''NONE'')
      else if k \<le> length KEYS then Some (cstr (KEYS ! (k - 1))) else None)"

definition keyname_at :: "u32 \<Rightarrow> (u8 list option, sim) prog" where
  "keyname_at k s = (if unat k < 256 then Returns (keyname (unat k)) s else Faulted Out_of_bounds)"

definition serial_write :: "host \<Rightarrow> u32 \<Rightarrow> u32 \<Rightarrow> u32 \<Rightarrow> (u32, sim) prog" where
  "serial_write e buf offset len =
     gbind (gfor [0..<unat len] (\<lambda>i.
       gbind (mem_get (buf + of_nat i) 1) (\<lambda>c. putch e (hd c)))) (\<lambda>_. Returns len)"

text \<open>\<open>io_read\<close> and \<open>io_write\<close> go through the static table, which \<open>main\<close> does not initialise further.\<close>

definition io_keybrd :: "host \<Rightarrow> (input_keybrd_data, sim) prog" where
  "io_keybrd e =
     gbind (ioe_read lut (\<lambda>_. e) 8 (INPUT_KEYBRD \<lparr>keydown = False, keycode = 0\<rparr>)) (\<lambda>d s.
       case d of INPUT_KEYBRD k \<Rightarrow> Returns k s | _ \<Rightarrow> Faulted Out_of_bounds)"

definition io_gpu_config :: "host \<Rightarrow> (gpu_config, sim) prog" where
  "io_gpu_config e =
     gbind (ioe_read lut (\<lambda>_. e) 9 (GPU_CONFIG (gpu_config_of 0))) (\<lambda>d s.
       case d of GPU_CONFIG c \<Rightarrow> Returns c s | _ \<Rightarrow> Faulted Out_of_bounds)"

definition io_fbdraw :: "host \<Rightarrow> gpu_fbdraw_ctl \<Rightarrow> (unit, sim) prog" where
  "io_fbdraw e ctl = gbind (ioe_write lut (\<lambda>_. e) 11 (GPU_FBDRAW ctl)) (\<lambda>_. Returns ())"

definition io_uptime :: "(nat \<Rightarrow> host) \<Rightarrow> (u64, sim) prog" where
  "io_uptime e =
     gbind (ioe_read lut e 6 (TIMER_UPTIME 0)) (\<lambda>d s.
       case d of TIMER_UPTIME t \<Rightarrow> Returns t s | _ \<Rightarrow> Faulted Out_of_bounds)"

definition keyboard_read :: "host \<Rightarrow> u32 \<Rightarrow> u32 \<Rightarrow> u32 \<Rightarrow> (u32, sim) prog" where
  "keyboard_read e buf offset len =
     gbind (io_keybrd e) (\<lambda>kbd.
       if keydown kbd then
         gbind (keyname_at (keycode kbd)) (\<lambda>name. sprintf buf (cstr ''kd %s'' @ [10]) [VStr name])
       else if keycode kbd \<noteq> KEY_NONE then
         gbind (keyname_at (keycode kbd)) (\<lambda>name. sprintf buf (cstr ''ku %s'' @ [10]) [VStr name])
       else Returns 0)"

definition dispinfo_read :: "host \<Rightarrow> u32 \<Rightarrow> u32 \<Rightarrow> u32 \<Rightarrow> (u32, sim) prog" where
  "dispinfo_read e buf offset len =
     gbind (io_gpu_config e) (\<lambda>c.
       sprintf buf (cstr ''WIDTH: %d'' @ [10] @ cstr ''HEIGHT: %d'') [VWord (width c), VWord (height c)])"

text \<open>The coordinates are \<open>int\<close>, the width is converted to unsigned for the division.\<close>

definition fb_write :: "host \<Rightarrow> u32 \<Rightarrow> u32 \<Rightarrow> u32 \<Rightarrow> (u32, sim) prog" where
  "fb_write e buf offset len =
     gbind (io_gpu_config e) (\<lambda>c s.
       let offset = offset div 4; len = len div 4 in
       if width c = 0 then Faulted Division_by_zero
       else gbind (io_fbdraw e \<lparr>fb_x = offset mod width c, fb_y = offset div width c, fb_pixels = buf,
              fb_w = len, fb_h = 1, fb_sync = True\<rparr>) (\<lambda>_. Returns len) s)"

definition invalid_read :: "host \<Rightarrow> u32 \<Rightarrow> u32 \<Rightarrow> u32 \<Rightarrow> (u32, sim) prog" where
  "invalid_read e buf offset len = os_panic e ''device.c'' (cstr ''should not reach here'') []"

definition invalid_write :: "host \<Rightarrow> u32 \<Rightarrow> u32 \<Rightarrow> u32 \<Rightarrow> (u32, sim) prog" where
  "invalid_write e buf offset len = os_panic e ''device.c'' (cstr ''should not reach here'') []"

section \<open>The file table\<close>

datatype ReadFn = Invalid_read | Keyboard_read | Dispinfo_read
datatype WriteFn = Invalid_write | Serial_write | Fb_write

definition call_read :: "host \<Rightarrow> ReadFn \<Rightarrow> u32 \<Rightarrow> u32 \<Rightarrow> u32 \<Rightarrow> (u32, sim) prog" where
  "call_read e f = (case f of Invalid_read \<Rightarrow> invalid_read e | Keyboard_read \<Rightarrow> keyboard_read e | Dispinfo_read \<Rightarrow> dispinfo_read e)"

definition call_write :: "host \<Rightarrow> WriteFn \<Rightarrow> u32 \<Rightarrow> u32 \<Rightarrow> u32 \<Rightarrow> (u32, sim) prog" where
  "call_write e f = (case f of Invalid_write \<Rightarrow> invalid_write e | Serial_write \<Rightarrow> serial_write e | Fb_write \<Rightarrow> fb_write e)"

record Finfo =
  f_name :: string
  f_size :: u32
  disk_offset :: u32
  is_open :: bool
  read_fn :: "ReadFn option"
  write_fn :: "WriteFn option"
  open_offset :: u32

definition disk_files :: "(string \<times> u32 \<times> u32) list" where
  "disk_files =
    [(''/share/slides/slides-1.bmp'', 360138, 0),
     (''/share/slides/slides-0.bmp'', 360138, 360138),
     (''/share/slides/slides-7.bmp'', 360138, 720276),
     (''/share/slides/slides-3.bmp'', 360138, 1080414),
     (''/share/slides/slides-4.bmp'', 360138, 1440552),
     (''/share/slides/slides-5.bmp'', 360138, 1800690),
     (''/share/slides/slides-8.bmp'', 360138, 2160828),
     (''/share/slides/slides-2.bmp'', 360138, 2520966),
     (''/share/slides/slides-9.bmp'', 360138, 2881104),
     (''/share/slides/slides-6.bmp'', 360138, 3241242),
     (''/share/pictures/projectn.bmp'', 49290, 3601380),
     (''/share/games/bird/atlas.png'', 45166, 3650670),
     (''/share/games/bird/splash.png'', 4771, 3695836),
     (''/share/games/bird/sfx_wing.wav'', 28224, 3700607),
     (''/share/games/bird/atlas.txt'', 1820, 3728831),
     (''/share/games/bird/sfx_die.wav'', 132344, 3730651),
     (''/share/games/bird/sfx_swooshing.wav'', 352844, 3862995),
     (''/share/games/bird/sfx_hit.wav'', 96020, 4215839),
     (''/share/games/bird/sfx_point.wav'', 176444, 4311859),
     (''/share/fonts/Courier-7.bdf'', 19567, 4488303),
     (''/share/fonts/Courier-10.bdf'', 21440, 4507870),
     (''/share/fonts/Courier-12.bdf'', 24339, 4529310),
     (''/share/fonts/Courier-13.bdf'', 25677, 4553649),
     (''/share/fonts/Courier-9.bdf'', 20488, 4579326),
     (''/share/fonts/Courier-11.bdf'', 23272, 4599814),
     (''/share/fonts/Courier-8.bdf'', 20114, 4623086),
     (''/share/files/num'', 5000, 4643200),
     (''/share/music/little-star.ogg'', 140946, 4648200),
     (''/share/music/rhythm/So.ogg'', 6538, 4789146),
     (''/share/music/rhythm/Fa.ogg'', 6625, 4795684),
     (''/share/music/rhythm/La.ogg'', 6542, 4802309),
     (''/share/music/rhythm/Si.ogg'', 6647, 4808851),
     (''/share/music/rhythm/Mi.ogg'', 6611, 4815498),
     (''/share/music/rhythm/Do.ogg'', 6473, 4822109),
     (''/share/music/rhythm/Re.ogg'', 6503, 4828582),
     (''/share/music/rhythm/empty.ogg'', 4071, 4835085),
     (''/bin/dummy'', 37336, 4839156),
     (''/bin/menu'', 93692, 4876492),
     (''/bin/nslider'', 71680, 4970184),
     (''/bin/bird'', 165944, 5041864),
     (''/bin/nterm'', 104636, 5207808),
     (''/bin/file-test'', 56584, 5312444)]"

definition special_file :: "string \<Rightarrow> ReadFn \<Rightarrow> WriteFn \<Rightarrow> Finfo" where
  "special_file n r w = \<lparr>f_name = n, f_size = 0, disk_offset = 0, is_open = False,
     read_fn = Some r, write_fn = Some w, open_offset = 0\<rparr>"

definition disk_file :: "string \<times> u32 \<times> u32 \<Rightarrow> Finfo" where
  "disk_file = (\<lambda>(n, sz, off). \<lparr>f_name = n, f_size = sz, disk_offset = off, is_open = False,
     read_fn = None, write_fn = None, open_offset = 0\<rparr>)"

definition init_file_table :: "Finfo list" where
  "init_file_table =
     [special_file ''stdin'' Invalid_read Invalid_write,
      special_file ''stdout'' Invalid_read Serial_write,
      special_file ''stderr'' Invalid_read Serial_write,
      special_file ''/dev/events'' Keyboard_read Invalid_write,
      special_file ''/dev/fb'' Invalid_read Fb_write,
      special_file ''/proc/dispinfo'' Dispinfo_read Invalid_write] @ map disk_file disk_files"

definition FD_FB :: nat where "FD_FB = 4"
definition FILE_NUM :: nat where "FILE_NUM = 48"

text \<open>The operating system's static state above the machine: files, next free page, break, current
  process and trap vector.\<close>

record os =
  hw :: sim
  file_table :: "Finfo list"
  pf :: u32
  pbrk :: u32
  current :: u32
  mtvec_reg :: u32

definition on_hw :: "('a, sim) prog \<Rightarrow> ('a, os) prog" where
  "on_hw = gzoom hw (\<lambda>h st. st\<lparr>hw := h\<rparr>)"

definition set_file :: "nat \<Rightarrow> (Finfo \<Rightarrow> Finfo) \<Rightarrow> (unit, os) prog" where
  "set_file fd f st = Returns () (st\<lparr>file_table := (file_table st)[fd := f (file_table st ! fd)]\<rparr>)"

section \<open>Operations\<close>

definition init_fs :: "host \<Rightarrow> (unit, os) prog" where
  "init_fs e =
     gbind (on_hw (klog e ''fs.c'' (cstr ''Initializing file system...'') [])) (\<lambda>_.
     gbind (on_hw (io_gpu_config e)) (\<lambda>c.
       set_file FD_FB (\<lambda>f. f\<lparr>f_size := height c * width c * 4\<rparr>)))"

text \<open>\<open>strcmp\<close> returns 0 on equal strings only.\<close>

fun find_file :: "Finfo list \<Rightarrow> nat \<Rightarrow> u8 list \<Rightarrow> nat option" where
  "find_file [] i path = None"
| "find_file (f # fs) i path = (if cstr (f_name f) = path then Some i else find_file fs (Suc i) path)"

text \<open>Results are unsigned words; \<open>-1\<close> is the greatest.\<close>

definition fs_open :: "u8 list \<Rightarrow> (u32, os) prog" where
  "fs_open path st =
     (case find_file (file_table st) 0 path of
        Some i \<Rightarrow> gbind (set_file i (\<lambda>f. f\<lparr>is_open := True, open_offset := 0\<rparr>)) (\<lambda>_. Returns (of_nat i)) st
      | None \<Rightarrow> Returns (- 1) st)"

text \<open>\<open>fd < 0 || fd >= FILE_NUM || !file_table[fd].is_open\<close>: the comparison with the unsigned
  \<open>FILE_NUM\<close> treats \<open>fd\<close> as unsigned too.\<close>

definition bad_fd :: "u32 \<Rightarrow> os \<Rightarrow> bool" where
  "bad_fd fd st \<longleftrightarrow> sint fd < 0 \<or> unat fd \<ge> FILE_NUM \<or> \<not> is_open (file_table st ! unat fd)"

definition clip :: "Finfo \<Rightarrow> u32 \<Rightarrow> u32" where
  "clip f len = (if open_offset f + len > f_size f then f_size f - open_offset f else len)"

definition advance :: "nat \<Rightarrow> u32 \<Rightarrow> (u32, os) prog" where
  "advance fd n = gbind (set_file fd (\<lambda>f. f\<lparr>open_offset := open_offset f + n\<rparr>)) (\<lambda>_. Returns n)"

definition fs_read :: "host \<Rightarrow> u32 \<Rightarrow> u32 \<Rightarrow> u32 \<Rightarrow> (u32, os) prog" where
  "fs_read e fd buf len st =
     (if bad_fd fd st then Returns (- 1) st
      else
        let f = file_table st ! unat fd; read_len = clip f len in
        (case read_fn f of
           Some r \<Rightarrow> gbind (on_hw (call_read e r buf (open_offset f) read_len)) (advance (unat fd))
         | None \<Rightarrow> gbind (on_hw (ramdisk_read e buf (ucast (disk_offset f + open_offset f)) (ucast read_len)))
                     (\<lambda>_. advance (unat fd) read_len)) st)"

definition fs_write :: "host \<Rightarrow> u32 \<Rightarrow> u32 \<Rightarrow> u32 \<Rightarrow> (u32, os) prog" where
  "fs_write e fd buf len st =
     (if bad_fd fd st then Returns (- 1) st
      else
        let f = file_table st ! unat fd; write_len = clip f len in
        (case write_fn f of
           Some w \<Rightarrow> gbind (on_hw (call_write e w buf (open_offset f) write_len)) (advance (unat fd))
         | None \<Rightarrow> gbind (on_hw (ramdisk_write e buf (ucast (disk_offset f + open_offset f)) (ucast write_len)))
                     (\<lambda>_. advance (unat fd) write_len)) st)"

definition fs_lseek :: "u32 \<Rightarrow> u32 \<Rightarrow> u32 \<Rightarrow> (u32, os) prog" where
  "fs_lseek fd offset whence st =
     (if bad_fd fd st then Returns (- 1) st
      else
        let f = file_table st ! unat fd;
            target = (if whence = 0 then Some offset
                      else if whence = 1 then Some (open_offset f + offset)
                      else if whence = 2 then Some (f_size f + offset)
                      else None) in
        (case target of
           None \<Rightarrow> Returns (- 1) st
         | Some new_offset \<Rightarrow>
             if new_offset > f_size f then Returns (- 1) st
             else gbind (set_file (unat fd) (\<lambda>f. f\<lparr>open_offset := new_offset\<rparr>)) (\<lambda>_. Returns new_offset) st))"

definition fs_close :: "u32 \<Rightarrow> (u32, os) prog" where
  "fs_close fd st =
     (if bad_fd fd st then Returns (- 1) st
      else gbind (set_file (unat fd) (\<lambda>f. f\<lparr>is_open := False, open_offset := 0\<rparr>)) (\<lambda>_. Returns 0) st)"

section \<open>Messages\<close>

lemma printf_run:
  assumes "attached s" and "vsprintf fmt ap = Inr (text, [])" and "length text < 65536"
  shows "\<exists>s'. printf e fmt ap s = Returns (of_nat (length text)) s' \<and> sent (takeWhile (\<lambda>c. c \<noteq> 0) text) s s'"
  using send_run [OF assms(1), of "takeWhile (\<lambda>c. c \<noteq> 0) text" e] assms(2,3)
  by (auto simp: printf_def gbind_def glift_def rassert_def)

lemma directive_9s:
  assumes "length xs < 2 ^ 32 - 1"
  shows "directive (chr CHR ''9'' # chr CHR ''s'' # fmt) (VStr (Some xs) # ap) pos =
    Inr (fmt, ap, replicate (9 - length xs) (chr CHR '' '') @ xs, [])"
proof -
  have "nat ((- 1 :: int) mod 2 ^ 32) = 2 ^ 32 - 1" by simp
  then have "min (nat ((- 1 :: int) mod 2 ^ 32)) (length xs) = length xs" using assms by simp
  then show ?thesis
    by (simp add: directive_def parse_width_def parse_precision_def parse_qualifier_def is_digit_def
        convert_def has_def emit_while_eq Let_def)
qed


text \<open>The line a message without conversions sends.\<close>

definition log_line :: "string \<Rightarrow> u8 list \<Rightarrow> u8 list" where
  "log_line file msg =
     [27] @ cstr ''[1;33m['' @ replicate (9 - length file) 32 @ cstr file @ cstr '']'' @ [27] @ cstr ''[0m '' @ [27] @
     cstr ''[1;32m'' @ msg @ [27] @ cstr ''[0m'' @ [10]"

lemma vsprintf_log:
  assumes "chr CHR ''%'' \<notin> set msg" and "length file < 1000"
  shows "vsprintf ([27] @ cstr ''[1;33m[%9s]'' @ [27] @ cstr ''[0m '' @ [27] @ cstr ''[1;32m'' @ msg @ [27] @
      cstr ''[0m'' @ [10]) [VStr (Some (cstr file))] = Inr (log_line file msg, [])"
proof -
  define R where "R = [27] @ cstr ''[0m '' @ [27] @ cstr ''[1;32m'' @ msg @ [27] @ cstr ''[0m'' @ [10]"
  have len: "length (cstr file) < 2 ^ 32 - 1" using assms(2) by (simp add: cstr_def)
  have rest: "vloop R [] out [] = Inr (out @ R, [])" for out
  proof -
    have "chr CHR ''%'' \<notin> set R" using assms(1) by (simp add: cstr_def R_def)
    from vloop_plain [OF this, of "[]" "[]" out "[]"] show ?thesis by simp
  qed
  have "vloop ([27] @ cstr ''[1;33m[%9s]'' @ R) [VStr (Some (cstr file))] [] [] = Inr (log_line file msg, [])"
    using directive_9s [OF len, of "93 # R" "[]"] rest
    by (simp add: log_line_def cstr_def) (simp add: R_def cstr_def)
  then show ?thesis by (simp add: vsprintf_def vsnprintf_def R_def)
qed

lemma klog_run:
  assumes "attached s" and "chr CHR ''%'' \<notin> set msg" and "length file < 1000" and "length msg < 60000"
    and "0 \<notin> set msg" and "0 \<notin> set (cstr file)"
  shows "\<exists>s'. klog e file msg [] s = Returns () s' \<and> sent (log_line file msg) s s'"
proof -
  have l: "length (log_line file msg) < 65536" using assms(3,4) by (simp add: log_line_def cstr_def)
  have nz: "takeWhile (\<lambda>c. c \<noteq> 0) (log_line file msg) = log_line file msg"
  proof -
    have "0 \<notin> set (log_line file msg)" using assms(5,6) by (auto simp: log_line_def cstr_def)
    then show ?thesis by (subst takeWhile_eq_all_conv) auto
  qed
  show ?thesis
    using printf_run [OF assms(1) vsprintf_log [OF assms(2,3)] l, of e]
    by (auto simp: klog_def gbind_def nz)
qed

end
