(* ===== verification/Os_Files.thy ===== *)
theory Os_Files
  imports Os_Fs
begin

text \<open>
  What the file system promises: a read returns the bytes of the file, no sequence of calls damages
  the table of files, key events are read as text, and nothing is printed through \<open>stdout\<close>.
\<close>

section \<open>Reading a file\<close>

lemma on_hw_eval:
  "m (hw st) = Returns x h \<Longrightarrow> on_hw m st = Returns x (st\<lparr>hw := h\<rparr>)"
  "m (hw st) = Halted c h \<Longrightarrow> on_hw m st = Halted c (st\<lparr>hw := h\<rparr>)"
  "m (hw st) = Faulted e \<Longrightarrow> on_hw m st = Faulted e"
  by (simp_all add: on_hw_def gzoom_def)

text \<open>The bytes of a file in the image, and how many of them a read can get.\<close>

definition content :: "Finfo \<Rightarrow> sim \<Rightarrow> u8 list" where
  "content f s = take (unat (f_size f)) (drop (unat (disk_offset f)) (ramdisk s))"

definition on_disk :: "Finfo \<Rightarrow> sim \<Rightarrow> bool" where
  "on_disk f s \<longleftrightarrow> read_fn f = None \<and> write_fn f = None \<and> open_offset f \<le> f_size f \<and>
     unat (disk_offset f) + unat (f_size f) \<le> length (ramdisk s) \<and>
     unat (disk_offset f) + unat (f_size f) < 2 ^ 32"

lemma clip_eq:
  assumes "open_offset f \<le> f_size f" and "unat (open_offset f) + unat len < 2 ^ 32"
  shows "unat (clip f len) = min (unat len) (unat (f_size f) - unat (open_offset f))"
proof -
  have "unat (open_offset f + len) = unat (open_offset f) + unat len"
    using assms(2) by (simp add: unat_add_lem [symmetric])
  then show ?thesis using assms(1)
    by (auto simp: clip_def word_less_nat_alt word_le_nat_alt unat_sub_if' min_def)
qed

lemma fs_read_run:
  assumes "attached (hw st)" and "\<not> bad_fd fd st" and "file_table st ! unat fd = f" and "on_disk f (hw st)"
    and "unat (open_offset f) + unat len < 2 ^ 32" and "n = min (unat len) (unat (f_size f) - unat (open_offset f))"
    and "0x80000000 \<le> unat buf" and "unat buf + n \<le> 0x88000000"
  shows "\<exists>h. fs_read e fd buf len st = Returns (of_nat n) (st\<lparr>hw := h,
      file_table := (file_table st)[unat fd := f\<lparr>open_offset := open_offset f + of_nat n\<rparr>]\<rparr>) \<and>
    h = (hw st)\<lparr>skip_ref := True, io_space := io_space h, sim_pmem := sim_pmem h, ref_pmem := ref_pmem h\<rparr> \<and>
    (\<forall>k<0x7c000. io_space h k = io_space (hw st) k) \<and>
    sim_pmem h = store (sim_pmem (hw st)) (offset_of buf) (take n (drop (unat (open_offset f)) (content f (hw st))))"
proof -
  let ?s = "hw st" and ?off = "ucast (disk_offset f + open_offset f) :: u64" and ?len = "ucast (clip f len) :: u64"
  have d: "read_fn f = None" "open_offset f \<le> f_size f" "unat (disk_offset f) + unat (f_size f) \<le> length (ramdisk ?s)"
    "unat (disk_offset f) + unat (f_size f) < 2 ^ 32" using assms(4) by (simp_all add: on_disk_def)
  have le: "unat (open_offset f) \<le> unat (f_size f)" using d(2) by (simp add: word_le_nat_alt)
  have c: "unat (clip f len) = n" using clip_eq [OF d(2) assms(5)] assms(6) by simp
  have "of_nat (unat (clip f len)) = clip f len" by simp
  then have cn: "clip f len = of_nat n" by (simp only: c)
  have nl: "n \<le> unat (f_size f) - unat (open_offset f)" using assms(6) by simp
  have "unat (disk_offset f + open_offset f) = unat (disk_offset f) + unat (open_offset f)"
    using d(4) le by (simp add: unat_add_lem [symmetric])
  then have off: "unat ?off = unat (disk_offset f) + unat (open_offset f)" by (simp add: unat_ucast_u64)
  have len: "unat ?len = n" using c by (simp add: unat_ucast_u64)
  have n32: "n < 2 ^ 32" using nl d(4) by linarith
  have r: "unat ?off + unat ?len \<le> length (ramdisk ?s)" "unat ?off < 2 ^ 32" "unat ?len < 2 ^ 32"
    "unat buf + unat ?len \<le> 0x88000000"
    using off len nl le d(3,4) n32 assms(8) by linarith+
  obtain h where h: "ramdisk_cmd e buf ?off ?len 1 ?s = Returns ?len h"
    "h = ?s\<lparr>skip_ref := True, io_space := io_space h, sim_pmem := sim_pmem h, ref_pmem := ref_pmem h\<rparr>"
    "\<forall>k<0x7c000. io_space h k = io_space ?s k"
    "\<forall>k. sim_pmem h k = (if offset_of buf \<le> k \<and> k < offset_of buf + unat ?len
       then ramdisk ?s ! (unat ?off + (k - offset_of buf)) else sim_pmem ?s k)"
    using ramdisk_run [OF assms(1) r(1-3) assms(7) r(4), of 1 e] by auto
  have "fs_read e fd buf len st = Returns (of_nat n) (st\<lparr>hw := h,
      file_table := (file_table st)[unat fd := f\<lparr>open_offset := open_offset f + of_nat n\<rparr>]\<rparr>)"
    using assms(2,3) h(1) d(1)
    by (simp add: fs_read_def Let_def gbind_def on_hw_eval ramdisk_read_def advance_def set_file_def cn)
  moreover have "sim_pmem h = store (sim_pmem ?s) (offset_of buf) (take n (drop (unat (open_offset f)) (content f ?s)))"
  proof (rule ext)
    fix k
    define T where "T = take n (drop (unat (open_offset f)) (content f ?s))"
    have l: "length T = n" using nl d(3) le by (simp add: content_def T_def)
    have nth: "T ! j = ramdisk ?s ! (unat ?off + j)" if "j < n" for j
      using that nl d(3) le by (simp add: content_def off add.assoc T_def)
    have "sim_pmem h k = store (sim_pmem ?s) (offset_of buf) T k"
    proof (cases "offset_of buf \<le> k \<and> k < offset_of buf + n")
      case True
      then have "k - offset_of buf < n" by linarith
      then show ?thesis using True h(4) nth [of "k - offset_of buf"] by (simp add: store_def len l)
    next
      case False
      then show ?thesis using h(4) by (auto simp: store_def len l)
    qed
    then show "sim_pmem h k = store (sim_pmem ?s) (offset_of buf) (take n (drop (unat (open_offset f)) (content f ?s))) k"
      by (simp add: T_def)
  qed
  ultimately show ?thesis using h(2,3) by blast
qed

text \<open>C15: Reading an open disk file returns the next bytes of the file, as many as asked or as are
  left, puts exactly these into the buffer, and advances the offset by their number; the image, the
  other files and the rest of memory stay as they are.\<close>

theorem fs_read_correct:
  assumes "attached (hw st)" and "\<not> bad_fd fd st" and "file_table st ! unat fd = f" and "on_disk f (hw st)"
    and "unat (open_offset f) + unat len < 2 ^ 32" and "n = min (unat len) (unat (f_size f) - unat (open_offset f))"
    and "0x80000000 \<le> unat buf" and "unat buf + n \<le> 0x88000000"
  shows "\<exists>st'. fs_read e fd buf len st = Returns (of_nat n) st' \<and>
    load (sim_pmem (hw st')) (offset_of buf) n = take n (drop (unat (open_offset f)) (content f (hw st))) \<and>
    (\<forall>k. k < offset_of buf \<or> offset_of buf + n \<le> k \<longrightarrow> sim_pmem (hw st') k = sim_pmem (hw st) k) \<and>
    file_table st' = (file_table st)[unat fd := f\<lparr>open_offset := open_offset f + of_nat n\<rparr>] \<and>
    ramdisk (hw st') = ramdisk (hw st) \<and> attached (hw st') \<and> serial_out (hw st') = serial_out (hw st)"
proof -
  obtain h where h: "fs_read e fd buf len st = Returns (of_nat n) (st\<lparr>hw := h,
      file_table := (file_table st)[unat fd := f\<lparr>open_offset := open_offset f + of_nat n\<rparr>]\<rparr>)"
    "h = (hw st)\<lparr>skip_ref := True, io_space := io_space h, sim_pmem := sim_pmem h, ref_pmem := ref_pmem h\<rparr>"
    "sim_pmem h = store (sim_pmem (hw st)) (offset_of buf) (take n (drop (unat (open_offset f)) (content f (hw st))))"
    using fs_read_run [OF assms] by blast
  have "length (take n (drop (unat (open_offset f)) (content f (hw st)))) = n"
    using assms(4,6) by (auto simp: content_def on_disk_def)
  then have "load (sim_pmem h) (offset_of buf) n = take n (drop (unat (open_offset f)) (content f (hw st)))"
    "\<forall>k. k < offset_of buf \<or> offset_of buf + n \<le> k \<longrightarrow> sim_pmem h k = sim_pmem (hw st) k"
    unfolding h(3) by (auto simp: store_outside)
  moreover have "ramdisk h = ramdisk (hw st)" "serial_out h = serial_out (hw st)" "maps h = maps (hw st)" "ptr h = ptr (hw st)"
    by (subst h(2), simp)+
  ultimately show ?thesis using h(1) assms(1) by (simp add: attached_def)
qed

text \<open>A machine with a small image and one file, of which two bytes have been read.\<close>

definition small_os :: os where
  "small_os = \<lparr>hw = ready\<lparr>ramdisk := [1, 2, 3, 4, 5, 6, 7, 8]\<rparr>,
     file_table = [\<lparr>f_name = ''a'', f_size = 5, disk_offset = 1, is_open = True, read_fn = None, write_fn = None, open_offset = 2\<rparr>],
     pf = 0, pbrk = 0, current = 0, mtvec_reg = 0\<rparr>"

lemma fs_read_correct_witness:
  "\<exists>st. fs_read quiet_host 0 0x80000010 10 small_os = Returns 3 st \<and> load (sim_pmem (hw st)) 16 3 = [4, 5, 6]"
proof -
  let ?f = "file_table small_os ! unat (0 :: u32)"
  have "attached (hw small_os)" using ready_attached by (simp add: small_os_def attached_def)
  moreover have "\<not> bad_fd 0 small_os" by (simp add: bad_fd_def FILE_NUM_def small_os_def)
  moreover have "on_disk ?f (hw small_os)" by (simp add: on_disk_def small_os_def)
  ultimately show ?thesis
    using fs_read_correct [of small_os 0 ?f 10 3 "0x80000010" quiet_host]
    by (auto simp: small_os_def content_def)
qed

section \<open>Calls\<close>

datatype fs_op = Open "u8 list" | Read u32 u32 u32 | Write u32 u32 u32 | Lseek u32 u32 u32 | Close u32

definition fs_step :: "host \<Rightarrow> fs_op \<Rightarrow> (u32, os) prog" where
  "fs_step e op =
     (case op of
        Open path \<Rightarrow> fs_open path
      | Read fd buf len \<Rightarrow> fs_read e fd buf len
      | Write fd buf len \<Rightarrow> fs_write e fd buf len
      | Lseek fd offset whence \<Rightarrow> fs_lseek fd offset whence
      | Close fd \<Rightarrow> fs_close fd)"

fun fs_run :: "host \<Rightarrow> fs_op list \<Rightarrow> (u32 list, os) prog" where
  "fs_run e [] = Returns []"
| "fs_run e (op # ops) = gbind (fs_step e op) (\<lambda>r. gbind (fs_run e ops) (\<lambda>rs. Returns (r # rs)))"

lemma fs_run_invariant:
  assumes "fs_run e ops st = Returns rs st'" and "P st"
    and "\<And>op st r st'. op \<in> set ops \<Longrightarrow> P st \<Longrightarrow> fs_step e op st = Returns r st' \<Longrightarrow> P st'"
  shows "P st'"
  using assms
proof (induction ops arbitrary: st rs)
  case (Cons op ops)
  from Cons.prems(1) obtain r s1 rs1 s2 where s1: "fs_step e op st = Returns r s1"
    and s2: "fs_run e ops s1 = Returns rs1 s2" "s2 = st'"
    by (auto simp: gbind_eq_Returns)
  show ?case by (rule Cons.IH [OF s2(1) [unfolded s2(2)]]) (use Cons.prems s1 in auto)
qed simp

text \<open>What one call does to the table and to the machine.\<close>

definition moved :: "Finfo \<Rightarrow> u32 \<Rightarrow> Finfo" where
  "moved f n = f\<lparr>open_offset := open_offset f + n\<rparr>"


lemma find_file_Some: "find_file fs i path = Some k \<Longrightarrow> i \<le> k \<and> k < i + length fs \<and> cstr (f_name (fs ! (k - i))) = path"
proof (induction fs arbitrary: i)
  case (Cons f fs)
  then show ?case by (cases "cstr (f_name f) = path") (auto dest!: Cons.IH simp: nth_Cons')
qed simp

lemma on_hw_Returns:
  "on_hw m st = Returns x st' \<longleftrightarrow> (\<exists>h. m (hw st) = Returns x h \<and> st' = st\<lparr>hw := h\<rparr>)"
  by (cases "m (hw st)") (auto simp: on_hw_def gzoom_def)

lemma advance_eq: "advance fd n st = Returns n (st\<lparr>file_table := (file_table st)[fd := moved (file_table st ! fd) n]\<rparr>)"
  by (simp add: advance_def set_file_def gbind_def moved_def)

text \<open>What is fixed about an entry, and what holds of one that only the calls change.\<close>

definition same_file :: "Finfo \<Rightarrow> Finfo \<Rightarrow> bool" where
  "same_file f f' \<longleftrightarrow> f_name f' = f_name f \<and> f_size f' = f_size f \<and> disk_offset f' = disk_offset f \<and>
     read_fn f' = read_fn f \<and> write_fn f' = write_fn f"

definition entry_ok :: "Finfo \<Rightarrow> bool" where
  "entry_ok f \<longleftrightarrow> (\<not> is_open f \<longrightarrow> open_offset f = 0) \<and>
     (read_fn f = None \<and> write_fn f = None \<longrightarrow> open_offset f \<le> f_size f) \<and>
     (read_fn f = Some Invalid_read \<and> write_fn f = Some Serial_write \<longrightarrow> f_size f = 0 \<and> open_offset f = 0)"

definition table_step :: "os \<Rightarrow> os \<Rightarrow> bool" where
  "table_step st st' \<longleftrightarrow> length (file_table st') = length (file_table st) \<and>
     (\<forall>i < length (file_table st). same_file (file_table st ! i) (file_table st' ! i) \<and>
        (entry_ok (file_table st ! i) \<longrightarrow> entry_ok (file_table st' ! i)))"

lemma same_file_refl [simp]: "same_file f f"
  by (simp add: same_file_def)

lemma table_step_refl [simp]: "table_step st st"
  by (simp add: table_step_def)

lemma table_step_hw [simp]: "table_step st (st\<lparr>hw := h\<rparr>)"
  by (simp add: table_step_def)

lemma table_step_trans: "table_step st st' \<Longrightarrow> table_step st' st'' \<Longrightarrow> table_step st st''"
  by (simp add: table_step_def same_file_def)

lemma table_step_entry:
  assumes "same_file (file_table st ! i) f'" and "entry_ok (file_table st ! i) \<Longrightarrow> entry_ok f'"
  shows "table_step st (st\<lparr>file_table := (file_table st)[i := f']\<rparr>)"
    and "table_step st (st\<lparr>hw := h, file_table := (file_table st)[i := f']\<rparr>)"
  using assms by (auto simp: table_step_def nth_update)

text \<open>A transfer of the clipped length stays within a file on disk, whether or not the sum of offset
  and length wraps.\<close>

lemma moved_clip: "is_open f \<Longrightarrow> entry_ok f \<Longrightarrow> entry_ok (moved f (clip f len))"
  by (auto simp: entry_ok_def moved_def clip_def word_gt_0)

lemma moved_same [simp]: "same_file f (moved f n)"
  by (simp add: same_file_def moved_def)

lemma serial_write_Returns: "serial_write e buf offset len s = Returns n s' \<Longrightarrow> n = len"
  by (auto simp: serial_write_def gbind_eq_Returns)

lemma invalid_not_returns [simp]:
  "invalid_read e buf offset len s \<noteq> Returns n s'" "invalid_write e buf offset len s \<noteq> Returns n s'"
  by (simp_all add: invalid_read_def invalid_write_def os_panic_def gbind_eq_Returns halt_def)

lemma moved_device:
  assumes "is_open f" and "entry_ok f" and "read_fn f \<noteq> None \<or> write_fn f \<noteq> None"
    and "read_fn f = Some Invalid_read \<Longrightarrow> write_fn f = Some Serial_write \<Longrightarrow> n = clip f len"
  shows "entry_ok (moved f n)"
  using assms by (auto simp: entry_ok_def moved_def clip_def word_gt_0)

lemma fs_read_step: "fs_read e fd buf len st = Returns r st' \<Longrightarrow> table_step st st'"
proof (cases "read_fn (file_table st ! unat fd)")
  case None
  assume "fs_read e fd buf len st = Returns r st'"
  then show ?thesis using None
    by (auto simp: fs_read_def Let_def bad_fd_def gbind_eq_Returns on_hw_Returns advance_eq
        intro!: table_step_entry moved_clip split: if_splits)
next
  case (Some f)
  assume "fs_read e fd buf len st = Returns r st'"
  then show ?thesis using Some
    by (auto simp: fs_read_def Let_def bad_fd_def gbind_eq_Returns on_hw_Returns advance_eq call_read_def
        intro!: table_step_entry moved_device split: if_splits)
qed

lemma fs_write_step: "fs_write e fd buf len st = Returns r st' \<Longrightarrow> table_step st st'"
proof (cases "write_fn (file_table st ! unat fd)")
  case None
  assume "fs_write e fd buf len st = Returns r st'"
  then show ?thesis using None
    by (auto simp: fs_write_def Let_def bad_fd_def gbind_eq_Returns on_hw_Returns advance_eq
        intro!: table_step_entry moved_clip split: if_splits)
next
  case (Some f)
  assume "fs_write e fd buf len st = Returns r st'"
  then show ?thesis using Some
    by (auto simp: fs_write_def Let_def bad_fd_def gbind_eq_Returns on_hw_Returns advance_eq call_write_def
        dest!: serial_write_Returns intro!: table_step_entry moved_device split: if_splits)
qed

lemma set_file_step:
  assumes "set_file i g st = Returns r st'" and "same_file (file_table st ! i) (g (file_table st ! i))"
    and "entry_ok (file_table st ! i) \<Longrightarrow> entry_ok (g (file_table st ! i))"
  shows "table_step st st'"
  using assms by (auto simp: set_file_def intro!: table_step_entry)

lemma fs_lseek_step: "fs_lseek fd offset whence st = Returns r st' \<Longrightarrow> table_step st st'"
  by (auto simp: fs_lseek_def Let_def bad_fd_def gbind_eq_Returns same_file_def entry_ok_def not_less
      elim!: set_file_step split: if_splits)

lemma fs_open_step: "fs_open path st = Returns r st' \<Longrightarrow> table_step st st'"
  by (auto simp: fs_open_def gbind_eq_Returns same_file_def entry_ok_def elim!: set_file_step split: option.splits)

lemma fs_close_step: "fs_close fd st = Returns r st' \<Longrightarrow> table_step st st'"
  by (auto simp: fs_close_def gbind_eq_Returns same_file_def entry_ok_def elim!: set_file_step split: if_splits)

lemma fs_step_step: "fs_step e op st = Returns r st' \<Longrightarrow> table_step st st'"
  by (cases op) (auto simp: fs_step_def intro: fs_read_step fs_write_step fs_lseek_step fs_open_step fs_close_step)

lemma fs_run_step:
  assumes "fs_run e ops st = Returns rs st'"
  shows "table_step st st'"
  by (rule fs_run_invariant [OF assms, of "table_step st"])
    (auto intro: table_step_trans fs_step_step)


text \<open>C16: No sequence of calls changes which files there are: names, sizes, places and device functions of
  all entries stay, closed files have offset 0, and the offset of a file on disk stays within the
  file, even when the sum of offset and length wraps.\<close>

theorem fs_table_invariant:
  assumes "fs_run e ops st = Returns rs st'" and "\<forall>i < length (file_table st). entry_ok (file_table st ! i)"
  shows "length (file_table st') = length (file_table st) \<and>
    (\<forall>i < length (file_table st). same_file (file_table st ! i) (file_table st' ! i) \<and> entry_ok (file_table st' ! i))"
  using fs_run_step [OF assms(1)] assms(2) by (simp add: table_step_def)

lemma init_entries_ok:
  assumes "i < length init_file_table"
  shows "entry_ok (init_file_table ! i)" and "\<not> is_open (init_file_table ! i)"
proof -
  have "init_file_table ! i \<in> set init_file_table" using assms by (rule nth_mem)
  then show "entry_ok (init_file_table ! i)" and "\<not> is_open (init_file_table ! i)"
    by (auto simp: init_file_table_def special_file_def disk_file_def entry_ok_def)
qed

definition booted_os :: os where
  "booted_os = \<lparr>hw = ready, file_table = init_file_table, pf = 0, pbrk = 0, current = 0, mtvec_reg = 0\<rparr>"

lemma find_first: "find_file (f # g # fs) i (cstr (f_name f)) = Some i"
  "cstr (f_name f) \<noteq> cstr (f_name g) \<Longrightarrow> find_file (f # g # fs) i (cstr (f_name g)) = Some (Suc i)"
  by simp_all

lemma fs_table_invariant_witness:
  "\<exists>st. fs_run quiet_host [Open (cstr ''stdout''), Write 1 0 5, Lseek 1 4 0, Close 1] booted_os = Returns [1, 0, - 1, 0] st \<and>
     \<not> is_open (file_table st ! 1) \<and> entry_ok (file_table st ! 1)"
proof -
  let ?ops = "[Open (cstr ''stdout''), Write 1 0 5, Lseek 1 4 0, Close 1]"
  have ft: "\<exists>xs. init_file_table = special_file ''stdin'' Invalid_read Invalid_write # special_file ''stdout'' Invalid_read Serial_write # xs"
    by (simp add: init_file_table_def)
  then obtain xs where xs: "init_file_table = special_file ''stdin'' Invalid_read Invalid_write #
      special_file ''stdout'' Invalid_read Serial_write # xs" by blast
  have run: "\<exists>st. fs_run quiet_host ?ops booted_os = Returns [1, 0, - 1, 0] st \<and> \<not> is_open (file_table st ! 1)"
    by (simp add: fs_step_def gbind_def fs_open_def booted_os_def xs special_file_def cstr_def set_file_def fs_write_def
        bad_fd_def FILE_NUM_def clip_def on_hw_def gzoom_def call_write_def serial_write_def advance_def fs_lseek_def
        fs_close_def)
  then obtain st where st: "fs_run quiet_host ?ops booted_os = Returns [1, 0, - 1, 0] st" "\<not> is_open (file_table st ! 1)"
    by blast
  have "1 < length init_file_table" by (simp add: xs)
  then have "entry_ok (file_table st ! 1)"
    using fs_table_invariant [OF st(1)] by (simp add: booted_os_def init_entries_ok)
  then show ?thesis using st by blast
qed

lemma init_fs_Returns:
  assumes "init_fs e st = Returns () st'" and "file_table st = init_file_table"
  shows "file_table st' = init_file_table[4 := (init_file_table ! 4)\<lparr>f_size := f_size (file_table st' ! 4)\<rparr>]"
proof -
  have "4 < length init_file_table" by (simp add: init_file_table_def)
  then show ?thesis
    using assms by (auto simp: init_fs_def gbind_eq_Returns on_hw_Returns set_file_def FD_FB_def)
qed

text \<open>Nothing can be printed through the file system: after its initialisation and any calls,
  writing to \<open>stdout\<close> or \<open>stderr\<close> returns \<open>-1\<close> (before they are opened) or \<open>0\<close> and changes nothing.\<close>

lemma stdout_silent:
  assumes "file_table st = init_file_table" and "init_fs e st = Returns () st1" and "fs_run e ops st1 = Returns rs st2"
    and "fd = 1 \<or> fd = 2"
  shows "fs_write e fd buf len st2 = Returns (if is_open (file_table st2 ! unat fd) then 0 else - 1) st2"
proof -
  let ?f = "file_table st2 ! unat fd"
  have l: "unat fd < 6" "unat fd < length init_file_table" "unat fd \<noteq> 4" using assms(4) by (auto simp: init_file_table_def)
  have f1: "file_table st1 ! unat fd = init_file_table ! unat fd" "length (file_table st1) = length init_file_table"
    using l(3) by (subst init_fs_Returns [OF assms(2,1)], simp)+
  have init: "read_fn (init_file_table ! unat fd) = Some Invalid_read \<and> write_fn (init_file_table ! unat fd) = Some Serial_write"
    using assms(4) by (auto simp: init_file_table_def special_file_def)
  have "table_step st1 st2" by (rule fs_run_step [OF assms(3)])
  then have "same_file (init_file_table ! unat fd) ?f" "entry_ok ?f" "length (file_table st2) = length init_file_table"
    using f1 l(2) init_entries_ok [OF l(2)] by (auto simp: table_step_def)
  then have f: "write_fn ?f = Some Serial_write" "f_size ?f = 0" "open_offset ?f = 0" "unat fd < length (file_table st2)"
    using init l(2) by (auto simp: same_file_def entry_ok_def)
  have c: "clip ?f len = 0" by (simp add: clip_def f word_gt_0)
  have m: "moved ?f 0 = ?f" by (simp add: moved_def)
  have s: "serial_write e buf 0 0 h = Returns 0 h" for h by (simp add: serial_write_def)
  show ?thesis
  proof (cases "is_open ?f")
    case True
    moreover have "0 \<le> sint fd" using assms(4) by auto
    ultimately have "\<not> bad_fd fd st2" using l(1) by (simp add: bad_fd_def FILE_NUM_def)
    then show ?thesis using True f(1,3,4)
      by (simp add: fs_write_def c gbind_def on_hw_def gzoom_def call_write_def s advance_eq m)
  next
    case False
    then show ?thesis by (simp add: fs_write_def bad_fd_def)
  qed
qed

lemma io_gpu_config_run:
  assumes "attached s" and "port_get s 0x2000 0 = Inr 0x0190012c"
  shows "io_gpu_config e s = Returns \<lparr>present = True, has_accel = False, width = 400, height = 300, vmemsz = 0\<rparr>
    (s\<lparr>skip_ref := True\<rparr>)"
proof -
  have sz: "word_of_bytes (load (io_space s) 0x2000 4) = (0x0190012c :: u32)"
    using assms(2) by (simp add: port_get_eq IO_SPACE_MAX_def)
  have wh: "drop_bit 16 (0x0190012c :: u32) AND 0x0ffff = 400" "(0x0190012c :: u32) AND 0x0ffff = 300"
    by simp_all
  show ?thesis using assms(1)
    by (simp add: io_gpu_config_def ioe_read_def lut_def gpu_config_def gbind_def addr_simps vga_regs sz
        gpu_config_of_def wh Let_def)
qed

text \<open>The screen size register holds 400 and 300.\<close>

definition screen_on :: sim where
  "screen_on = ready\<lparr>io_space := store (io_space ready) 0x2000 (bytes_of_word 4 (0x0190012c :: u32))\<rparr>"

lemma screen_on_ready: "attached screen_on" "port_get screen_on 0x2000 0 = Inr 0x0190012c"
  using ready_attached by (simp_all add: screen_on_def port_get_eq IO_SPACE_MAX_def load_store_same byte_simps)

lemma sent_port_get: "sent cs s s' \<Longrightarrow> port_get s' 0x2000 0 = port_get s 0x2000 0"
  by (simp add: port_get_eq IO_SPACE_MAX_def sent_def) (simp add: load_def)

lemma init_fs_run:
  assumes "attached (hw st)" and "port_get (hw st) 0x2000 0 = Inr 0x0190012c"
  shows "\<exists>st'. init_fs e st = Returns () st'"
proof -
  obtain h where h: "klog e ''fs.c'' (cstr ''Initializing file system...'') [] (hw st) = Returns () h"
    "sent (log_line ''fs.c'' (cstr ''Initializing file system...'')) (hw st) h"
    using klog_run [OF assms(1), of "cstr ''Initializing file system...''" "''fs.c''" e] by (auto simp: cstr_def)
  have a: "attached h" "port_get h 0x2000 0 = Inr 0x0190012c"
    using assms sent_fields(1) [OF h(2)] sent_port_get [OF h(2)] by simp_all
  show ?thesis
    using h(1) io_gpu_config_run [OF a, of e]
    by (simp add: init_fs_def gbind_def on_hw_def gzoom_def set_file_def)
qed

lemma stdout_silent_witness:
  "\<exists>st1 st2. init_fs quiet_host (booted_os\<lparr>hw := screen_on\<rparr>) = Returns () st1 \<and>
     fs_run quiet_host [Open (cstr ''stdin''), Lseek 0 0 0] st1 = Returns [0, 0] st2 \<and>
     fs_write quiet_host 1 0x80000000 5 st2 = Returns (- 1) st2"
proof -
  obtain xs where xs: "init_file_table = special_file ''stdin'' Invalid_read Invalid_write #
      special_file ''stdout'' Invalid_read Serial_write # xs"
    by (simp add: init_file_table_def)
  obtain st1 where st1: "init_fs quiet_host (booted_os\<lparr>hw := screen_on\<rparr>) = Returns () st1"
    using init_fs_run [of "booted_os\<lparr>hw := screen_on\<rparr>" quiet_host] screen_on_ready by auto
  have t: "file_table st1 = init_file_table[4 := (init_file_table ! 4)\<lparr>f_size := f_size (file_table st1 ! 4)\<rparr>]"
    by (rule init_fs_Returns [OF st1]) (simp add: booted_os_def)
  obtain ys where ys: "file_table st1 = special_file ''stdin'' Invalid_read Invalid_write #
      special_file ''stdout'' Invalid_read Serial_write # ys"
    by (subst (asm) t, simp add: xs numeral_eq_Suc)
  obtain st2 where st2: "fs_run quiet_host [Open (cstr ''stdin''), Lseek 0 0 0] st1 = Returns [0, 0] st2"
    "\<not> is_open (file_table st2 ! 1)"
    by (simp add: fs_step_def gbind_def fs_open_def ys special_file_def cstr_def set_file_def
        bad_fd_def FILE_NUM_def fs_lseek_def)
  then show ?thesis
    using st1 stdout_silent [OF _ st1 st2(1), of 1 "0x80000000" 5] by (auto simp: booted_os_def)
qed

section \<open>Key events as text\<close>

definition event_text :: "bool \<Rightarrow> nat \<Rightarrow> u8 list" where
  "event_text down i = cstr (if down then ''kd '' else ''ku '') @ cstr (KEYS ! i) @ [10]"

lemma cstr_append: "cstr (xs @ ys) = cstr xs @ cstr ys"
  by (simp add: cstr_def)

lemma key_name_length:
  assumes "i < length KEYS"
  shows "length (KEYS ! i) \<le> 12"
proof -
  have "\<forall>k \<in> set KEYS. length k \<le> 12" by (simp add: KEYS_def)
  then show ?thesis using assms by simp
qed

lemma sprintf_event:
  assumes "length name < 2 ^ 32 - 1"
  shows "vsprintf (cstr ''kd %s'' @ [10]) [VStr (Some name)] = Inr (cstr ''kd '' @ name @ [10], [])"
    and "vsprintf (cstr ''ku %s'' @ [10]) [VStr (Some name)] = Inr (cstr ''ku '' @ name @ [10], [])"
  using directive_s [OF assms, of "[10]" "[]" 3]
  by (simp_all add: vsprintf_def vsnprintf_def cstr_def numeral_3_eq_3)

lemma io_keybrd_run:
  "attached s \<Longrightarrow> io_keybrd e s = Returns (keybrd_of (fst (bus_dequeue e s))) (snd (bus_dequeue e s))"
  using input_keybrd_run [of s e] by (simp add: io_keybrd_def ioe_read_def lut_def gbind_def)

lemma keyboard_read_run:
  assumes "attached s" and "bus_dequeue e s = (code, s1)"
    and "keybrd_of code = \<lparr>keydown = down, keycode = of_nat (i + 1)\<rparr>" and "i < length KEYS"
    and "0x80000000 \<le> unat buf" and "unat buf + 17 \<le> 0x88000000"
  shows "keyboard_read e buf offset len s = Returns (of_nat (length (event_text down i)))
    (s1\<lparr>sim_pmem := store (sim_pmem s1) (offset_of buf) (event_text down i @ [0])\<rparr>)"
proof -
  let ?name = "cstr (KEYS ! i)"
  have k: "unat (of_nat (i + 1) :: u32) = i + 1" "(of_nat (i + 1) :: u32) \<noteq> KEY_NONE"
  proof -
    show u: "unat (of_nat (i + 1) :: u32) = i + 1"
      using assms(4) length_KEYS by (subst unsigned_of_nat) (simp add: take_bit_nat_eq_self)
    show "(of_nat (i + 1) :: u32) \<noteq> KEY_NONE"
      using u unfolding KEY_NONE_def by (metis add_is_0 one_neq_zero unsigned_0)
  qed
  define w :: u32 where "w = of_nat (i + 1)"
  have n: "keyname_at w = Returns (Some ?name)"
    using k(1) assms(4) length_KEYS by (auto simp: w_def keyname_at_def keyname_def fun_eq_iff)
  have kk: "w \<noteq> KEY_NONE" unfolding w_def by (fact k(2))
  have w: "keybrd_of code = \<lparr>keydown = down, keycode = w\<rparr>" unfolding w_def by (fact assms(3))
  have len: "length ?name \<le> 12" using key_name_length [OF assms(4)] by (simp add: cstr_def)
  then have v: "length ?name < 2 ^ 32 - 1" by simp
  have fits: "unat buf + length (event_text down i @ [0]) \<le> 0x88000000"
    using assms(6) len by (simp add: event_text_def cstr_def)
  show ?thesis
    using assms(5) fits
    by (cases down) (simp_all add: keyboard_read_def io_keybrd_run [OF assms(1)] assms(2) w kk gbind_def n sprintf_def
        glift_def sprintf_event [OF v] put_text_def mem_put_def event_text_def)
qed

text \<open>C37: A key event read from \<open>/dev/events\<close> is the text \<open>kd\<close> or \<open>ku\<close>, a space, the name of the key and a
  newline, terminated in the buffer; the result is its length, and how long the buffer is plays no
  part.\<close>

theorem keyboard_event_text:
  assumes "attached (hw st)" and "bus_dequeue e (hw st) = (key_code i down, s1)" and "i < length KEYS"
    and "file_table st ! 3 = f" and "read_fn f = Some Keyboard_read" and "is_open f"
    and "0x80000000 \<le> unat buf" and "unat buf + 17 \<le> 0x88000000"
  shows "fs_read e 3 buf len st = Returns (of_nat (length (event_text down i)))
    (st\<lparr>hw := s1\<lparr>sim_pmem := store (sim_pmem s1) (offset_of buf) (event_text down i @ [0])\<rparr>,
       file_table := (file_table st)[3 := moved f (of_nat (length (event_text down i)))]\<rparr>)"
proof -
  have "keybrd_of (key_code i down) = \<lparr>keydown = down, keycode = of_nat (i + 1)\<rparr>"
    using assms(3) by (intro keybrd_of_code) (auto simp: length_KEYS)
  note r = keyboard_read_run [OF assms(1,2) this assms(3,7,8)]
  have "\<not> bad_fd 3 st" using assms(4,6) by (simp add: bad_fd_def FILE_NUM_def)
  then show ?thesis using assms(4,5) r
    by (simp add: fs_read_def Let_def gbind_def on_hw_def gzoom_def call_read_def advance_eq)
qed

lemma keyboard_event_text_witness:
  "\<exists>s1. fs_read quiet_host 3 0x80000000 2 (booted_os\<lparr>
      hw := ready\<lparr>kbd := (kbd ready)\<lparr>key_queue := (\<lambda>_. 0x8001), key_f := 0, key_r := 1\<rparr>\<rparr>,
      file_table := init_file_table[3 := (init_file_table ! 3)\<lparr>is_open := True\<rparr>]\<rparr>) = Returns 10 s1 \<and>
    load (sim_pmem (hw s1)) 0 10 = cstr ''kd ESCAPE'' @ [10]"
proof -
  let ?h = "ready\<lparr>kbd := (kbd ready)\<lparr>key_queue := (\<lambda>_. 0x8001), key_f := 0, key_r := 1\<rparr>\<rparr>"
  let ?f = "(init_file_table ! 3)\<lparr>is_open := True\<rparr>"
  let ?st = "booted_os\<lparr>hw := ?h, file_table := init_file_table[3 := ?f]\<rparr>"
  have k: "key_code 0 True = 0x8001" by (simp add: key_code_def KEYDOWN_MASK_def)
  have a: "attached ?h" using ready_attached by simp
  obtain s1 where s1: "bus_dequeue quiet_host ?h = (key_code 0 True, s1)"
    using bus_dequeue_eq [OF a, of quiet_host] by (auto simp: key_dequeue_def k)
  have t: "event_text True 0 = [107, 100, 32, 69, 83, 67, 65, 80, 69, 10]"
    by (simp add: event_text_def cstr_def KEYS_def)
  have ld: "load (store m 0 [107, 100, 32, 69, 83, 67, 65, 80, 69, 10, 0]) 0 10 =
      [107, 100, 32, 69, 83, 67, 65, 80, 69, 10]" for m
    by (simp add: load_def store_def numeral_eq_Suc del: upt_Suc) (simp add: upt_rec)
  have f: "read_fn ?f = Some Keyboard_read" "file_table ?st ! 3 = ?f"
    by (simp_all add: init_file_table_def special_file_def)
  show ?thesis
    using keyboard_event_text [of ?st quiet_host 0 True s1 ?f "0x80000000" 2] a s1 f
    by (auto simp: length_KEYS t cstr_def ld)
qed

end
