(* ===== verification/Os_Kernel.thy ===== *)
theory Os_Kernel
  imports Os_Files
begin

text \<open>
  The rest of the operating system: pages (\<open>mem.c\<close>), traps (\<open>irq.c\<close>, \<open>trap.S\<close>), system calls
  (\<open>syscall.c\<close>), processes (\<open>proc.c\<close>), contexts (\<open>context.c\<close>), the loader (\<open>loader.c\<close>) and
  \<open>main.c\<close>. Structures the C code keeps in memory are kept there: a context or an ELF header is read
  and written field by field at its address.
\<close>

section \<open>Accesses to memory\<close>

definition ld16 :: "u32 \<Rightarrow> (u32, os) prog" where
  "ld16 a = gbind (on_hw (mem_get a 2)) (\<lambda>bs. Returns (word_of_bytes bs))"

definition ld32 :: "u32 \<Rightarrow> (u32, os) prog" where
  "ld32 a = gbind (on_hw (mem_get a 4)) (\<lambda>bs. Returns (word_of_bytes bs))"

definition st32 :: "u32 \<Rightarrow> u32 \<Rightarrow> (unit, os) prog" where
  "st32 a w = on_hw (mem_put a (bytes_of_word 4 w))"

text \<open>A C string that ends inside the memory, and the copy of one.\<close>

definition ld_str :: "u32 \<Rightarrow> (u8 list, os) prog" where
  "ld_str a st =
     (case strlen (sim_pmem (hw st)) (offset_of a) of
        None \<Rightarrow> Faulted Out_of_bounds
      | Some n \<Rightarrow> gbind (on_hw (mem_get a (n + 1))) (\<lambda>bs. Returns (take n bs)) st)"

definition st_strcpy :: "u32 \<Rightarrow> u32 \<Rightarrow> (unit, os) prog" where
  "st_strcpy dst src =
     gbind (ld_str src) (\<lambda>s.
     gbind (on_hw (mem_get dst (length s + 1))) (\<lambda>_ st.
       case strcpy (offset_of dst) (offset_of src) (sim_pmem (hw st)) of
         None \<Rightarrow> Faulted Out_of_bounds
       | Some (_, m) \<Rightarrow> Returns () (st\<lparr>hw := (hw st)\<lparr>sim_pmem := m\<rparr>\<rparr>)))"

text \<open>\<open>memset\<close> with 0 at a place in memory, which is not null (\<open>memset_eq\<close>).\<close>

definition st_zeros :: "u32 \<Rightarrow> u32 \<Rightarrow> (unit, os) prog" where
  "st_zeros a n = on_hw (mem_put a (replicate (unat n) 0))"

text \<open>What comes from outside the C files: what the host answers, where the compiler and the linker
  place objects, the program that is jumped to, and the registers at the \<open>ecall\<close> of \<open>yield\<close>.\<close>

record hart =
  hart_x :: "u32 list"
  hart_mcause :: u32
  hart_mstatus :: u32
  hart_mepc :: u32

record kenv =
  clock :: "nat \<Rightarrow> host"
  heap_start :: u32
  trap_entry :: u32
  ehdr_at :: u32
  phdr_at :: u32
  pcb_at :: u32
  tv_usec_at :: u32
  tv_sec_size :: nat
  at_yield :: hart
  run_from :: "u32 \<Rightarrow> (unit, os) prog"
  logo :: "u8 list"
  built :: "u8 list \<times> u8 list"

abbreviation host_of :: "kenv \<Rightarrow> host" where
  "host_of v \<equiv> clock v 0"

definition os_log :: "kenv \<Rightarrow> string \<Rightarrow> u8 list \<Rightarrow> va_arg list \<Rightarrow> (unit, os) prog" where
  "os_log v file fmt args = on_hw (klog (host_of v) file fmt args)"

definition kassert :: "kenv \<Rightarrow> string \<Rightarrow> string \<Rightarrow> bool \<Rightarrow> (unit, os) prog" where
  "kassert v file text c = on_hw (os_assert (host_of v) file text c)"

section \<open>Pages\<close>

definition PGSIZE :: u32 where "PGSIZE = 4096"
definition STACK_SIZE :: u32 where "STACK_SIZE = 8 * PGSIZE"

definition ROUNDUP :: "u32 \<Rightarrow> u32 \<Rightarrow> u32" where
  "ROUNDUP a sz = (a + sz - 1) AND NOT (sz - 1)"

definition new_page :: "u32 \<Rightarrow> (u32, os) prog" where
  "new_page nr_page st = Returns (pf st) (st\<lparr>pf := pf st + nr_page * PGSIZE\<rparr>)"

definition mm_brk :: "u32 \<Rightarrow> (u32, os) prog" where
  "mm_brk brk st = Returns 0 (st\<lparr>pbrk := brk\<rparr>)"

definition init_mm :: "kenv \<Rightarrow> (unit, os) prog" where
  "init_mm v st =
     (let st = st\<lparr>pf := ROUNDUP (heap_start v) PGSIZE\<rparr> in
      os_log v ''mem.c'' (cstr ''Physical pages starting from %p'') [VWord (pf st)] st)"

section \<open>Loader\<close>

text \<open>Offsets in \<open>Elf32_Ehdr\<close> (52 bytes): machine 18, entry 24, phoff 28, phentsize 42, phnum 44; in
  \<open>Elf32_Phdr\<close> (32 bytes): type 0, offset 4, vaddr 8, filesz 16, memsz 20.\<close>

definition load_segment :: "kenv \<Rightarrow> u32 \<Rightarrow> (unit, os) prog" where
  "load_segment v fd =
     (let ph = phdr_at v in
      gbind (ld32 ph) (\<lambda>p_type.
      if p_type = 1 then
        gbind (ld32 (ph + 4)) (\<lambda>p_offset.
        gbind (fs_lseek fd p_offset 0) (\<lambda>_.
        gbind (ld32 (ph + 8)) (\<lambda>p_vaddr.
        gbind (ld32 (ph + 16)) (\<lambda>p_filesz.
        gbind (fs_read (host_of v) fd p_vaddr p_filesz) (\<lambda>_.
        gbind (ld32 (ph + 8)) (\<lambda>p_vaddr.
        gbind (ld32 (ph + 16)) (\<lambda>p_filesz.
        gbind (ld32 (ph + 20)) (\<lambda>p_memsz.
        if p_filesz < p_memsz then st_zeros (p_vaddr + p_filesz) (p_memsz - p_filesz) else Returns ()))))))))
      else Returns ()))"

text \<open>The number of headers is 16 bits wide: the bound \<open>n = 2 ^ 16\<close> on the loop is never reached.\<close>

fun load_segments :: "kenv \<Rightarrow> u32 \<Rightarrow> nat \<Rightarrow> u32 \<Rightarrow> (unit, os) prog" where
  "load_segments v fd 0 i = Returns ()"
| "load_segments v fd (Suc n) i =
     gbind (ld16 (ehdr_at v + 44)) (\<lambda>e_phnum.
     if i < e_phnum then
       gbind (ld32 (ehdr_at v + 28)) (\<lambda>e_phoff.
       gbind (ld16 (ehdr_at v + 42)) (\<lambda>e_phentsize.
       gbind (fs_lseek fd (e_phoff + i * e_phentsize) 0) (\<lambda>_.
       gbind (fs_read (host_of v) fd (phdr_at v) 32) (\<lambda>_.
       gbind (load_segment v fd) (\<lambda>_. load_segments v fd n (i + 1))))))
     else Returns ())"

definition elf_load :: "kenv \<Rightarrow> u8 list \<Rightarrow> (u32, os) prog" where
  "elf_load v filename =
     gbind (fs_open filename) (\<lambda>fd.
     gbind (kassert v ''loader.c'' ''fd != -1'' (fd \<noteq> - 1)) (\<lambda>_.
     gbind (fs_read (host_of v) fd (ehdr_at v) 52) (\<lambda>_.
     gbind (ld32 (ehdr_at v)) (\<lambda>magic.
     gbind (kassert v ''loader.c'' ''*(uint32_t*)elf_h.e_ident == 0x464C457F'' (magic = 0x464C457F)) (\<lambda>_.
     gbind (ld16 (ehdr_at v + 18)) (\<lambda>e_machine.
     gbind (kassert v ''loader.c'' ''elf_h.e_machine == EM_RISCV'' (e_machine = 243)) (\<lambda>_.
     gbind (load_segments v fd (2 ^ 16) 0) (\<lambda>_.
     gbind (fs_close fd) (\<lambda>_.
     ld32 (ehdr_at v + 24))))))))))"

definition user_naive_load :: "kenv \<Rightarrow> u8 list \<Rightarrow> (unit, os) prog" where
  "user_naive_load v filename =
     gbind (os_log v ''loader.c'' (cstr ''Loading %s...'') [VStr (Some filename)]) (\<lambda>_.
     gbind (elf_load v filename) (\<lambda>entry.
     gbind (os_log v ''loader.c'' (cstr ''Jump to entry = %p'') [VWord entry]) (\<lambda>_.
     run_from v entry)))"

section \<open>System calls\<close>

text \<open>A context is 32 registers, \<open>mcause\<close>, \<open>mstatus\<close> and \<open>mepc\<close>, as words in this order.\<close>

definition sizeof_Context :: u32 where "sizeof_Context = 140"

definition c_gpr :: "u32 \<Rightarrow> nat \<Rightarrow> u32" where "c_gpr c i = c + 4 * of_nat i"
definition c_mcause :: "u32 \<Rightarrow> u32" where "c_mcause c = c + 128"
definition c_mstatus :: "u32 \<Rightarrow> u32" where "c_mstatus c = c + 132"
definition c_mepc :: "u32 \<Rightarrow> u32" where "c_mepc c = c + 136"

definition sys_gettimeofday :: "kenv \<Rightarrow> u32 \<Rightarrow> u32 \<Rightarrow> (unit, os) prog" where
  "sys_gettimeofday v c tv =
     gbind (on_hw (io_uptime (clock v))) (\<lambda>us.
     let time = ucast us :: u32 in
     gbind (on_hw (mem_put tv (bytes_of_word (tv_sec_size v) (ucast (time div 1000000) :: u64)))) (\<lambda>_.
     gbind (st32 (tv + tv_usec_at v) (time mod 1000000)) (\<lambda>_.
     st32 (c_gpr c 10) 0)))"

text \<open>The call numbers are the positions in \<open>syscall.h\<close>; \<open>yield_now\<close> is the \<open>yield\<close> of \<open>irq.c\<close>.\<close>

definition syscall_handle :: "(unit, os) prog \<Rightarrow> kenv \<Rightarrow> u32 \<Rightarrow> (unit, os) prog" where
  "syscall_handle yield_now v c =
     gbind (ld32 (c_gpr c 17)) (\<lambda>a0.
     gbind (ld32 (c_gpr c 10)) (\<lambda>a1.
     gbind (ld32 (c_gpr c 11)) (\<lambda>a2.
     gbind (ld32 (c_gpr c 12)) (\<lambda>a3.
     let ret = st32 (c_gpr c 10) in
     if a0 = 0 then on_hw (halt 0)
     else if a0 = 1 then yield_now
     else if a0 = 4 then gbind (fs_write (host_of v) a1 a2 a3) ret
     else if a0 = 2 then gbind (ld_str a1) (\<lambda>path. gbind (fs_open path) ret)
     else if a0 = 3 then gbind (fs_read (host_of v) a1 a2 a3) ret
     else if a0 = 8 then gbind (fs_lseek a1 a2 a3) ret
     else if a0 = 7 then gbind (fs_close a1) ret
     else if a0 = 19 then sys_gettimeofday v c a1
     else if a0 = 13 then gbind (ld_str a1) (\<lambda>path. gbind (user_naive_load v path) (\<lambda>_. ret 0))
     else if a0 = 9 then gbind (mm_brk a1) ret
     else on_hw (os_panic (host_of v) ''syscall.c'' (cstr ''Unhandled syscall ID = %d'') [VWord a0])))))"

section \<open>Traps\<close>

datatype event = EVENT_NULL | EVENT_YIELD | EVENT_SYSCALL | EVENT_PAGEFAULT | EVENT_IRQ_TIMER | EVENT_IRQ_IODEV | EVENT_ERROR

fun event_number :: "event \<Rightarrow> u32" where
  "event_number EVENT_NULL = 0"
| "event_number EVENT_YIELD = 1"
| "event_number EVENT_SYSCALL = 2"
| "event_number EVENT_PAGEFAULT = 3"
| "event_number EVENT_IRQ_TIMER = 4"
| "event_number EVENT_IRQ_IODEV = 5"
| "event_number EVENT_ERROR = 6"

definition step_over :: "u32 \<Rightarrow> (unit, os) prog" where
  "step_over c = gbind (ld32 (c_mepc c)) (\<lambda>epc. st32 (c_mepc c) (epc + 4))"

definition event_handle :: "(u32 \<Rightarrow> (unit, os) prog) \<Rightarrow> kenv \<Rightarrow> event \<Rightarrow> u32 \<Rightarrow> (u32, os) prog" where
  "event_handle sys v e c =
     (if e = EVENT_YIELD then gbind (step_over c) (\<lambda>_. Returns c)
      else if e = EVENT_SYSCALL then gbind (sys c) (\<lambda>_. gbind (step_over c) (\<lambda>_. Returns c))
      else on_hw (os_panic (host_of v) ''irq.c'' (cstr ''Unhandled event ID = %d'') [VWord (event_number e)]))"

definition irq_handle :: "(u32 \<Rightarrow> (unit, os) prog) \<Rightarrow> kenv \<Rightarrow> u32 \<Rightarrow> (u32, os) prog" where
  "irq_handle sys v c =
     gbind (ld32 (c_mcause c)) (\<lambda>mcause.
     gbind (if mcause = 0xb
            then gbind (ld32 (c_gpr c 17)) (\<lambda>a7. Returns (if a7 = 0xffffffff then EVENT_YIELD else EVENT_SYSCALL))
            else Returns EVENT_ERROR) (\<lambda>ev.
     gbind (event_handle sys v ev c) (\<lambda>c.
     gbind (kassert v ''irq.c'' ''c != NULL'' (c \<noteq> 0)) (\<lambda>_. Returns c))))"

text \<open>\<open>__trap_vector\<close>: the registers but \<open>x0\<close> and \<open>x2\<close> are saved below the stack pointer, then the
  stack pointer and the control registers; everything is loaded back from the context returned.\<close>

definition saved_regs :: "nat list" where
  "saved_regs = 1 # [3..<32]"

fun pop_regs :: "u32 \<Rightarrow> nat list \<Rightarrow> u32 list \<Rightarrow> (u32 list, os) prog" where
  "pop_regs c [] xs = Returns xs"
| "pop_regs c (n # ns) xs = gbind (ld32 (c_gpr c n)) (\<lambda>w. pop_regs c ns (xs[n := w]))"

definition trap_vector :: "(u32 \<Rightarrow> (u32, os) prog) \<Rightarrow> hart \<Rightarrow> (hart, os) prog" where
  "trap_vector handle h =
     (let c = hart_x h ! 2 - sizeof_Context in
      gbind (gfor saved_regs (\<lambda>n. st32 (c_gpr c n) (hart_x h ! n))) (\<lambda>_.
      gbind (st32 (c_gpr c 2) (hart_x h ! 2)) (\<lambda>_.
      gbind (st32 (c_mcause c) (hart_mcause h)) (\<lambda>_.
      gbind (st32 (c_mstatus c) (hart_mstatus h)) (\<lambda>_.
      gbind (st32 (c_mepc c) (hart_mepc h)) (\<lambda>_.
      gbind (handle c) (\<lambda>c.
      gbind (ld32 (c_mstatus c)) (\<lambda>mstatus.
      gbind (ld32 (c_mepc c)) (\<lambda>mepc.
      gbind (pop_regs c saved_regs (hart_x h)) (\<lambda>xs.
        Returns (h\<lparr>hart_x := xs[2 := c + sizeof_Context], hart_mstatus := mstatus, hart_mepc := mepc\<rparr>)))))))))))"

text \<open>\<open>li a7, -1; ecall\<close>: with this number the handler makes no system call, so the function it would
  call does not matter (\<open>irq_yield\<close> below).\<close>

definition yield :: "kenv \<Rightarrow> (unit, os) prog" where
  "yield v =
     (let h = (at_yield v)\<lparr>hart_x := (hart_x (at_yield v))[17 := - 1], hart_mcause := 0xb\<rparr> in
      gbind (trap_vector (irq_handle (\<lambda>_. Returns ()) v) h) (\<lambda>_. Returns ()))"

definition trap :: "kenv \<Rightarrow> hart \<Rightarrow> (hart, os) prog" where
  "trap v = trap_vector (irq_handle (syscall_handle (yield v) v) v)"

definition init_irq :: "kenv \<Rightarrow> (unit, os) prog" where
  "init_irq v =
     gbind (os_log v ''irq.c'' (cstr ''Initializing interrupt/exception handler...'') []) (\<lambda>_ st.
       Returns () (st\<lparr>mtvec_reg := trap_entry v\<rparr>))"

section \<open>Contexts and processes\<close>

definition ucontext :: "u32 \<Rightarrow> u32 \<Rightarrow> (u32, os) prog" where
  "ucontext kstack_end entry =
     (let p = kstack_end - sizeof_Context in gbind (st32 (c_mepc p) entry) (\<lambda>_. Returns p))"

definition kcontext :: "u32 \<Rightarrow> u32 \<Rightarrow> u32 \<Rightarrow> (u32, os) prog" where
  "kcontext kstack_end entry arg =
     (let p = kstack_end - sizeof_Context in
      gbind (st32 (c_mepc p) entry) (\<lambda>_. gbind (st32 (c_gpr p 10) arg) (\<lambda>_. Returns p)))"

definition kernel_ctx_load :: "u32 \<Rightarrow> u32 \<Rightarrow> u32 \<Rightarrow> (unit, os) prog" where
  "kernel_ctx_load pcb entry arg =
     gbind (kcontext (pcb + STACK_SIZE) entry arg) (\<lambda>p. st32 pcb p)"

text \<open>The entries of a null-terminated array of pointers; the loop ends at the end of memory at the
  latest, with a fault.\<close>

function count_ptrs :: "u32 \<Rightarrow> nat \<Rightarrow> os \<Rightarrow> (nat, os) outcome" where
  "count_ptrs a k st =
     (if 0x80000000 \<le> unat a + 4 * k \<and> unat a + 4 * k + 4 \<le> 0x88000000 then
        (if word_of_bytes (load (sim_pmem (hw st)) (unat a + 4 * k - 0x80000000) 4) = (0 :: u32)
         then Returns k st else count_ptrs a (Suc k) st)
      else Faulted Out_of_bounds)"
  by pat_completeness auto
termination
  by (relation "measure (\<lambda>(a, k, st). 0x88000000 - (unat a + 4 * k))") (simp, clarsimp, arith)

text \<open>One after the other, the strings are copied below \<open>sp\<close> and their places noted in the array.\<close>

fun push_strings :: "u32 \<Rightarrow> u32 \<Rightarrow> nat list \<Rightarrow> u32 \<Rightarrow> (u32, os) prog" where
  "push_strings from_ptrs to_ptrs [] sp = Returns sp"
| "push_strings from_ptrs to_ptrs (i # is) sp =
     gbind (ld32 (from_ptrs + 4 * of_nat i)) (\<lambda>s.
     gbind (ld_str s) (\<lambda>t.
     let sp = sp - of_nat (length t + 1) in
     gbind (ld32 (from_ptrs + 4 * of_nat i)) (\<lambda>s.
     gbind (st_strcpy sp s) (\<lambda>_.
     gbind (st32 (to_ptrs + 4 * of_nat i) sp) (\<lambda>_. push_strings from_ptrs to_ptrs is sp)))))"

definition user_ctx_load :: "kenv \<Rightarrow> u32 \<Rightarrow> u32 \<Rightarrow> u32 \<Rightarrow> u32 \<Rightarrow> (unit, os) prog" where
  "user_ctx_load v pcb filename argv envp =
     gbind (if argv \<noteq> 0 then count_ptrs argv 0 else Returns 0) (\<lambda>argv_num.
     gbind (if envp \<noteq> 0 then count_ptrs envp 0 else Returns 0) (\<lambda>envp_num.
     gbind (new_page 8) (\<lambda>ustack.
     let argv_ptr = ustack; envp_ptr = ustack + 4 * (of_nat argv_num + 1) in
     gbind (st32 (argv_ptr + 4 * of_nat argv_num) 0) (\<lambda>_.
     gbind (st32 (envp_ptr + 4 * of_nat envp_num) 0) (\<lambda>_.
     gbind (push_strings envp envp_ptr [0..<envp_num] (ustack + STACK_SIZE)) (\<lambda>sp.
     gbind (push_strings argv argv_ptr [0..<argv_num] sp) (\<lambda>_.
     let p = ustack - 4 in
     gbind (st32 p (of_nat argv_num)) (\<lambda>_.
     gbind (ld_str filename) (\<lambda>name.
     gbind (os_log v ''loader.c'' (cstr ''Loading %s...'') [VStr (Some name)]) (\<lambda>_.
     gbind (elf_load v name) (\<lambda>entry.
     gbind (os_log v ''loader.c'' (cstr ''Load finish. Entry = %lx'') [VWord filename, VWord entry]) (\<lambda>_.
     gbind (ucontext (pcb + STACK_SIZE) entry) (\<lambda>cp.
     gbind (st32 pcb cp) (\<lambda>_.
     gbind (ld32 pcb) (\<lambda>cp.
     st32 (c_gpr cp 10) p)))))))))))))))"

definition schedule :: "u32 \<Rightarrow> (u32, os) prog" where
  "schedule prev = Returns 0"

definition init_proc :: "kenv \<Rightarrow> (unit, os) prog" where
  "init_proc v =
     gbind (os_log v ''proc.c'' (cstr ''Initializing processes...'') []) (\<lambda>_.
     user_naive_load v (cstr ''/bin/menu''))"

definition execve :: "kenv \<Rightarrow> u32 \<Rightarrow> u32 \<Rightarrow> u32 \<Rightarrow> (u32, os) prog" where
  "execve v filename argv envp =
     gbind (ld_str filename) (\<lambda>name.
     gbind (fs_open name) (\<lambda>fd.
     if fd = - 1 then Returns (- 2)
     else
       gbind (fs_close fd) (\<lambda>_.
       gbind (\<lambda>st. user_ctx_load v (current st) filename argv envp st) (\<lambda>_.
       gbind (\<lambda>st. Returns () (st\<lparr>current := pcb_at v\<rparr>)) (\<lambda>_.
       gbind (yield v) (\<lambda>_. Returns 0))))))"

definition os_main :: "kenv \<Rightarrow> (u32, os) prog" where
  "os_main v =
     gbind (on_hw (printf (host_of v) (cstr ''%s'') [VStr (Some (logo v))])) (\<lambda>_.
     gbind (os_log v ''main.c'' (cstr ''Build time: %s, %s'') [VStr (Some (fst (built v))), VStr (Some (snd (built v)))]) (\<lambda>_.
     gbind (os_log v ''main.c'' (cstr ''Start initialization...'') []) (\<lambda>_.
     gbind (init_mm v) (\<lambda>_.
     gbind (init_irq v) (\<lambda>_.
     gbind (init_fs (host_of v)) (\<lambda>_.
     gbind (init_proc v) (\<lambda>_.
     gbind (os_log v ''main.c'' (cstr ''Finish initialization'') []) (\<lambda>_.
     gbind (yield v) (\<lambda>_.
     on_hw (os_panic (host_of v) ''main.c'' (cstr ''Should not reach here'') []))))))))))"

end
