(* ===== verification/Os_Traps.thy ===== *)
theory Os_Traps
  imports Os_Kernel
begin

text \<open>
  The trap path of the operating system as the running program sees it: registers saved, a system
  call or a yield handled, registers restored.
\<close>

declare count_ptrs.simps [simp del]

section \<open>Words in memory\<close>

definition word_at :: "bytes \<Rightarrow> u32 \<Rightarrow> u32" where
  "word_at m a = word_of_bytes (load m (offset_of a) 4)"

definition in_ram :: "u32 \<Rightarrow> nat \<Rightarrow> bool" where
  "in_ram a n \<longleftrightarrow> 0x80000000 \<le> unat a \<and> unat a + n \<le> 0x88000000"

definition apart_from :: "u32 \<Rightarrow> nat \<Rightarrow> u32 \<Rightarrow> nat \<Rightarrow> bool" where
  "apart_from a n b k \<longleftrightarrow> unat a + n \<le> unat b \<or> unat b + k \<le> unat a"

lemma in_ram_le: "in_ram a n \<Longrightarrow> k \<le> n \<Longrightarrow> in_ram a k"
  by (simp add: in_ram_def)

definition with_mem :: "bytes \<Rightarrow> os \<Rightarrow> os" where
  "with_mem m st = st\<lparr>hw := (hw st)\<lparr>sim_pmem := m\<rparr>\<rparr>"

abbreviation mem :: "os \<Rightarrow> bytes" where
  "mem st \<equiv> sim_pmem (hw st)"

lemma with_mem_simps [simp]:
  "mem (with_mem m st) = m" "with_mem m' (with_mem m st) = with_mem m' st" "with_mem (mem st) st = st"
  "file_table (with_mem m st) = file_table st" "pf (with_mem m st) = pf st" "ramdisk (hw (with_mem m st)) = ramdisk (hw st)"
  "attached (hw (with_mem m st)) = attached (hw st)"
  by (simp_all add: with_mem_def)

lemma ld32_run: "in_ram a 4 \<Longrightarrow> ld32 a st = Returns (word_at (mem st) a) st"
  by (simp add: ld32_def gbind_def on_hw_def gzoom_def mem_get_def in_ram_def word_at_def)

lemma st32_run: "in_ram a 4 \<Longrightarrow> st32 a w st = Returns () (with_mem (store (mem st) (offset_of a) (bytes_of_word 4 w)) st)"
  by (simp add: st32_def on_hw_def gzoom_def mem_put_def in_ram_def with_mem_def)

lemma word_at_store [simp]: "word_at (store m (offset_of a) (bytes_of_word 4 w)) a = w"
  by (simp add: word_at_def byte_simps)

lemma word_at_load: "load m (offset_of a) 4 = load m' (offset_of a) 4 \<Longrightarrow> word_at m a = word_at m' a"
  by (simp add: word_at_def)

text \<open>Word \<open>i\<close> of a block.\<close>

lemma word_offset:
  assumes "in_ram c (4 * n)" and "i < n"
  shows "offset_of (c_gpr c i) = offset_of c + 4 * i" and "in_ram (c_gpr c i) 4"
proof -
  have n: "4 * i < 2 ^ 27" "unat c + 4 * i < 2 ^ 32" using assms by (auto simp: in_ram_def)
  have "(4 * of_nat i :: u32) = of_nat (4 * i)" by simp
  then have "unat (4 * of_nat i :: u32) = 4 * i"
    using n(1) by (simp add: unsigned_of_nat take_bit_nat_eq_self del: of_nat_mult)
  then have u: "unat (c_gpr c i) = unat c + 4 * i"
    using n(2) unfolding c_gpr_def by (subst unat_add_lem [THEN iffD1]) auto
  show "in_ram (c_gpr c i) 4" using u assms by (auto simp: in_ram_def)
  show "offset_of (c_gpr c i) = offset_of c + 4 * i" using u assms by (auto simp: in_ram_def)
qed

lemma word_at_other:
  assumes "in_ram c (4 * n)" and "i < n" and "j < n" and "i \<noteq> j"
  shows "word_at (store m (offset_of (c_gpr c i)) (bytes_of_word 4 w)) (c_gpr c j) = word_at m (c_gpr c j)"
  using word_offset(1) [OF assms(1,2)] word_offset(1) [OF assms(1,3)] assms(4)
  by (intro word_at_load load_store_disjoint) (auto simp: not_le)

text \<open>Words of a block, set one after the other.\<close>

definition put_word :: "u32 \<Rightarrow> nat \<times> u32 \<Rightarrow> bytes \<Rightarrow> bytes" where
  "put_word c iv m = store m (offset_of (c_gpr c (fst iv))) (bytes_of_word 4 (snd iv))"

lemma st32s_run:
  assumes "in_ram c (4 * n)" and "\<forall>iv \<in> set ivs. fst iv < n"
  shows "gfor ivs (\<lambda>iv. st32 (c_gpr c (fst iv)) (snd iv)) st = Returns () (with_mem (fold (put_word c) ivs (mem st)) st)"
  using assms(2)
proof (induction ivs arbitrary: st)
  case (Cons iv ivs)
  then have "in_ram (c_gpr c (fst iv)) 4" by (intro word_offset(2) [OF assms(1)]) simp
  then show ?case using Cons by (simp add: gbind_def st32_run put_word_def)
qed simp

lemma word_at_put_words:
  assumes "in_ram c (4 * n)" and "\<forall>iv \<in> set ivs. fst iv < n" and "distinct (map fst ivs)" and "j < n"
  shows "word_at (fold (put_word c) ivs m) (c_gpr c j) =
    (case map_of ivs j of Some w \<Rightarrow> w | None \<Rightarrow> word_at m (c_gpr c j))"
  using assms(2,3)
proof (induction ivs arbitrary: m)
  case (Cons iv ivs)
  obtain i w where iv: "iv = (i, w)" by fastforce
  have i: "i < n" "i \<notin> fst ` set ivs" using Cons.prems iv by auto
  have IH: "word_at (fold (put_word c) ivs (put_word c (i, w) m)) (c_gpr c j) =
      (case map_of ivs j of Some w \<Rightarrow> w | None \<Rightarrow> word_at (put_word c (i, w) m) (c_gpr c j))"
    using Cons by simp
  show ?case
  proof (cases "i = j")
    case True
    then have "map_of ivs j = None" using i(2) by (simp add: map_of_eq_None_iff)
    moreover have "word_at (put_word c (i, w) m) (c_gpr c i) = w" by (simp add: put_word_def)
    ultimately show ?thesis using IH True by (simp add: iv)
  next
    case False
    have "word_at (put_word c (i, w) m) (c_gpr c j) = word_at m (c_gpr c j)"
      using word_at_other [OF assms(1) i(1) assms(4) False] by (simp add: put_word_def)
    then show ?thesis using IH False by (simp add: iv split: option.split)
  qed
qed simp

lemma put_words_outside:
  assumes "in_ram c (4 * n)" and "\<forall>iv \<in> set ivs. fst iv < n" and "k < offset_of c \<or> offset_of c + 4 * n \<le> k"
  shows "fold (put_word c) ivs m k = m k"
  using assms(2)
proof (induction ivs arbitrary: m)
  case (Cons iv ivs)
  have "offset_of (c_gpr c (fst iv)) = offset_of c + 4 * fst iv" "fst iv < n"
    using word_offset(1) [OF assms(1)] Cons.prems by auto
  then have "put_word c iv m k = m k" using assms(3) by (auto simp: put_word_def store_def)
  then show ?case using Cons by simp
qed simp


section \<open>Traps\<close>

definition frame_of :: "hart \<Rightarrow> u32" where
  "frame_of h = hart_x h ! 2 - sizeof_Context"

definition frame_words :: "hart \<Rightarrow> (nat \<times> u32) list" where
  "frame_words h = map (\<lambda>n. (n, hart_x h ! n)) saved_regs @
     [(2, hart_x h ! 2), (32, hart_mcause h), (33, hart_mstatus h), (34, hart_mepc h)]"

text \<open>The memory after the registers have been saved.\<close>

definition saved :: "hart \<Rightarrow> os \<Rightarrow> os" where
  "saved h st = with_mem (fold (put_word (frame_of h)) (frame_words h) (mem st)) st"

lemma gfor_map: "gfor (map g xs) f = gfor xs (\<lambda>x. f (g x))"
  by (induction xs) simp_all

lemma c_words: "c_mcause c = c_gpr c 32" "c_mstatus c = c_gpr c 33" "c_mepc c = c_gpr c 34"
  by (simp_all add: c_mcause_def c_mstatus_def c_mepc_def c_gpr_def)

lemma saved_regs_in: "n \<in> set saved_regs \<longleftrightarrow> n = 1 \<or> 3 \<le> n \<and> n < 32"
  unfolding saved_regs_def list.set set_upt by auto

lemma frame_words_ok: "\<forall>iv \<in> set (frame_words h). fst iv < 35" "distinct (map fst (frame_words h))"
  by (auto simp: frame_words_def saved_regs_in) (simp_all add: saved_regs_def comp_def)

lemma frame_words_of:
  "map_of (frame_words h) n = (if n = 1 \<or> 3 \<le> n \<and> n < 32 then Some (hart_x h ! n) else if n = 2 then Some (hart_x h ! 2)
    else if n = 32 then Some (hart_mcause h) else if n = 33 then Some (hart_mstatus h)
    else if n = 34 then Some (hart_mepc h) else None)"
proof -
  have "map_of (map (\<lambda>n. (n, hart_x h ! n)) saved_regs) n =
      (if n = 1 \<or> 3 \<le> n \<and> n < 32 then Some (hart_x h ! n) else None)"
    by (simp add: map_of_map_restrict restrict_map_def saved_regs_in)
  then show ?thesis by (auto simp: frame_words_def map_add_def)
qed

lemma saved_word:
  assumes "in_ram (frame_of h) 140" and "j < 35" and "j \<noteq> 0"
  shows "word_at (mem (saved h st)) (c_gpr (frame_of h) j) =
    (if j < 32 then hart_x h ! j else [hart_mcause h, hart_mstatus h, hart_mepc h] ! (j - 32))"
proof -
  have r: "in_ram (frame_of h) (4 * 35)" using assms(1) by simp
  have "j = 32 \<or> j = 33 \<or> j = 34 \<or> j = 2 \<or> j = 1 \<or> 3 \<le> j \<and> j < 32" using assms(2,3) by linarith
  then show ?thesis
    using word_at_put_words [OF r frame_words_ok assms(2)] assms(3)
    by (auto simp: saved_def frame_words_of)
qed

lemma saved_outside:
  assumes "in_ram (frame_of h) 140" and "k < offset_of (frame_of h) \<or> offset_of (frame_of h) + 140 \<le> k"
  shows "mem (saved h st) k = mem st k"
  using put_words_outside [of "frame_of h" 35] frame_words_ok(1) assms by (simp add: saved_def)

lemma pop_regs_run:
  assumes "in_ram c 140" and "\<forall>n \<in> set ns. n < 32"
  shows "pop_regs c ns xs st = Returns (fold (\<lambda>n xs. xs[n := word_at (mem st) (c_gpr c n)]) ns xs) st"
  using assms(2)
proof (induction ns arbitrary: xs)
  case (Cons n ns)
  have "in_ram c (4 * 35)" using assms(1) by simp
  then have "in_ram (c_gpr c n) 4" using Cons.prems by (intro word_offset(2) [of c 35]) auto
  then show ?case using Cons by (simp add: gbind_def ld32_run)
qed simp

lemma fold_update:
  "length (fold (\<lambda>n xs. xs[n := f n]) ns xs) = length xs"
  "i < length xs \<Longrightarrow> fold (\<lambda>n xs. xs[n := f n]) ns xs ! i = (if i \<in> set ns then f i else xs ! i)"
  by (induction ns arbitrary: xs) (auto simp: nth_list_update)

text \<open>A trap whose handler returns the context it got.\<close>

definition restored :: "hart \<Rightarrow> bytes \<Rightarrow> hart" where
  "restored h m = h\<lparr>
     hart_x := map (\<lambda>n. if n = 0 \<or> n = 2 then hart_x h ! n else word_at m (c_gpr (frame_of h) n)) [0..<32],
     hart_mstatus := word_at m (c_gpr (frame_of h) 33), hart_mepc := word_at m (c_gpr (frame_of h) 34)\<rparr>"

lemma trap_vector_run:
  assumes "length (hart_x h) = 32" and "in_ram (frame_of h) 140"
    and "handle (frame_of h) (saved h st) = Returns (frame_of h) st2"
  shows "trap_vector handle h st = Returns (restored h (mem st2)) st2"
proof -
  let ?c = "frame_of h"
  have r: "in_ram ?c (4 * 35)" using assms(2) by simp
  define M where "M = gbind (gfor saved_regs (\<lambda>n. st32 (c_gpr ?c n) (hart_x h ! n))) (\<lambda>_.
      gbind (st32 (c_gpr ?c 2) (hart_x h ! 2)) (\<lambda>_.
      gbind (st32 (c_gpr ?c 32) (hart_mcause h)) (\<lambda>_.
      gbind (st32 (c_gpr ?c 33) (hart_mstatus h)) (\<lambda>_. st32 (c_gpr ?c 34) (hart_mepc h)))))"
  have save: "M st = Returns () (saved h st)"
    using st32s_run [OF r frame_words_ok(1), of h st]
    by (simp add: M_def saved_def frame_words_def gfor_append gfor_map gbind_assoc)
  have ram: "in_ram (c_gpr ?c 33) 4" "in_ram (c_gpr ?c 34) 4" using word_offset(2) [OF r] by simp_all
  let ?f = "\<lambda>n. word_at (mem st2) (c_gpr ?c n)"
  have "\<forall>n \<in> set saved_regs. n < 32" by (auto simp: saved_regs_in)
  from pop_regs_run [OF assms(2) this, of "hart_x h" st2]
  have pop: "pop_regs ?c saved_regs (hart_x h) st2 = Returns (fold (\<lambda>n xs. xs[n := ?f n]) saved_regs (hart_x h)) st2" .
  have sp: "?c + sizeof_Context = hart_x h ! 2" by (simp add: frame_of_def)
  have xs: "(fold (\<lambda>n xs. xs[n := ?f n]) saved_regs (hart_x h))[2 := hart_x h ! 2] =
      map (\<lambda>n. if n = 0 \<or> n = 2 then hart_x h ! n else ?f n) [0..<32]"
    by (rule nth_equalityI)
      (auto simp: fold_update assms(1) nth_list_update saved_regs_in less_Suc_eq_0_disj not_le)
  have "trap_vector handle h st = gbind M (\<lambda>_.
      gbind (handle ?c) (\<lambda>c.
      gbind (ld32 (c_mstatus c)) (\<lambda>mstatus.
      gbind (ld32 (c_mepc c)) (\<lambda>mepc.
      gbind (pop_regs c saved_regs (hart_x h)) (\<lambda>xs.
        Returns (h\<lparr>hart_x := xs[2 := c + sizeof_Context], hart_mstatus := mstatus, hart_mepc := mepc\<rparr>)))))) st"
    by (simp add: trap_vector_def frame_of_def Let_def c_words gbind_assoc M_def)
  also have "\<dots> = Returns (restored h (mem st2)) st2"
    by (simp add: gbind_def save assms(3) c_words ld32_run ram pop sp xs restored_def)
  finally show ?thesis .
qed


lemma block_word:
  assumes "in_ram c 140" and "i < 35"
  shows "in_ram (c_gpr c i) 4"
  using word_offset(2) [of c 35 i] assms by simp

lemma step_over_run:
  assumes "in_ram c 140"
  shows "step_over c st = Returns () (with_mem (put_word c (34, word_at (mem st) (c_gpr c 34) + 4) (mem st)) st)"
  using block_word [OF assms, of 34] by (simp add: step_over_def c_words gbind_def ld32_run st32_run put_word_def)

lemma kassert_true [simp]: "kassert v file text True st = Returns () st"
  by (simp add: kassert_def os_assert_def on_hw_def gzoom_def)

lemma irq_yield:
  assumes "in_ram c 140" and "word_at (mem st) (c_gpr c 32) = 0xb" and "word_at (mem st) (c_gpr c 17) = - 1"
  shows "irq_handle sys v c st = Returns c (with_mem (put_word c (34, word_at (mem st) (c_gpr c 34) + 4) (mem st)) st)"
proof -
  have "c \<noteq> 0" using assms(1) by (auto simp: in_ram_def)
  then show ?thesis
    using assms(2,3) block_word [OF assms(1)]
    by (simp add: irq_handle_def event_handle_def gbind_def c_words ld32_run step_over_run [OF assms(1)])
qed

lemma max_word: "(0xffffffff :: u32) = - 1"
  by simp

lemma irq_syscall:
  assumes "in_ram c 140" and "word_at (mem st) (c_gpr c 32) = 0xb" and "word_at (mem st) (c_gpr c 17) \<noteq> - 1"
    and "sys c st = Returns () st2"
  shows "irq_handle sys v c st = Returns c (with_mem (put_word c (34, word_at (mem st2) (c_gpr c 34) + 4) (mem st2)) st2)"
proof -
  have "c \<noteq> 0" using assms(1) by (auto simp: in_ram_def)
  moreover have "word_at (mem st) (c_gpr c 17) \<noteq> 0xffffffff" using assms(3) unfolding max_word .
  ultimately show ?thesis
    using assms(2,4) block_word [OF assms(1)]
    by (simp add: irq_handle_def event_handle_def gbind_def c_words ld32_run step_over_run [OF assms(1)])
qed

text \<open>The context as the program sees it, with other values in \<open>a0\<close> and \<open>mepc\<close>.\<close>

lemma put_word_outside:
  assumes "in_ram c 140" and "i < 35" and "k < offset_of c \<or> offset_of c + 140 \<le> k"
  shows "put_word c (i, w) m k = m k"
  using put_words_outside [of c 35 "[(i, w)]" k m] assms by simp

lemma put_word_at:
  assumes "in_ram c 140" and "i < 35" and "j < 35"
  shows "word_at (put_word c (i, w) m) (c_gpr c j) = (if i = j then w else word_at m (c_gpr c j))"
  using word_at_put_words [of c 35 "[(i, w)]" j m] assms by (simp split: option.split)

lemma restored_frame:
  assumes "length (hart_x h) = 32" and "in_ram (frame_of h) 140"
    and "\<forall>j. 0 < j \<and> j < 35 \<longrightarrow> word_at m (c_gpr (frame_of h) j) =
      (if j = 10 then r else if j = 34 then epc else word_at (mem (saved h st)) (c_gpr (frame_of h) j))"
  shows "restored h m = h\<lparr>hart_x := (hart_x h)[10 := r], hart_mepc := epc\<rparr>"
proof -
  let ?c = "frame_of h"
  have w: "word_at m (c_gpr ?c j) = (if j = 10 then r else if j = 34 then epc
      else if j < 32 then hart_x h ! j else [hart_mcause h, hart_mstatus h, hart_mepc h] ! (j - 32))"
    if "0 < j" "j < 35" for j
    using assms(3) that saved_word [OF assms(2), of j st] by auto
  have "map (\<lambda>n. if n = 0 \<or> n = 2 then hart_x h ! n else word_at m (c_gpr ?c n)) [0..<32] = (hart_x h)[10 := r]"
    by (rule nth_equalityI) (auto simp: assms(1) w nth_list_update)
  then show ?thesis by (simp add: restored_def w)
qed

section \<open>System calls as the program sees them\<close>

definition syscall_fun :: "kenv \<Rightarrow> u32 \<Rightarrow> u32 \<Rightarrow> u32 \<Rightarrow> u32 \<Rightarrow> (u32, os) prog option" where
  "syscall_fun v n a1 a2 a3 =
     (if n = 4 then Some (fs_write (host_of v) a1 a2 a3)
      else if n = 2 then Some (gbind (ld_str a1) fs_open)
      else if n = 3 then Some (fs_read (host_of v) a1 a2 a3)
      else if n = 8 then Some (fs_lseek a1 a2 a3)
      else if n = 7 then Some (fs_close a1)
      else if n = 9 then Some (mm_brk a1)
      else None)"

lemma syscall_handle_run:
  assumes "in_ram c 140"
    and "syscall_fun v (word_at (mem st) (c_gpr c 17)) (word_at (mem st) (c_gpr c 10)) (word_at (mem st) (c_gpr c 11))
      (word_at (mem st) (c_gpr c 12)) = Some f"
    and "f st = Returns r st2"
  shows "syscall_handle y v c st = Returns () (with_mem (put_word c (10, r) (mem st2)) st2)"
  using assms(2,3) block_word [OF assms(1)]
  by (auto simp: syscall_handle_def syscall_fun_def Let_def gbind_eval(1) [OF ld32_run] gbind_def ld32_run st32_run put_word_def
      split: if_splits outcome.splits)


text \<open>C8: A system call returns to the program behind its \<open>ecall\<close> with the result of the function the
  number names in \<open>a0\<close> and every other register as it was, provided the call leaves the saved
  registers on the stack alone; nothing but the frame below the stack pointer is written beside what
  the function itself does.\<close>

theorem trap_syscall_correct:
  assumes "length (hart_x h) = 32" and "in_ram (frame_of h) 140" and "hart_mcause h = 0xb" and "hart_x h ! 17 \<noteq> - 1"
    and "syscall_fun v (hart_x h ! 17) (hart_x h ! 10) (hart_x h ! 11) (hart_x h ! 12) = Some f"
    and "f (saved h st) = Returns r st2"
    and "load (mem st2) (offset_of (frame_of h)) 140 = load (mem (saved h st)) (offset_of (frame_of h)) 140"
  shows "\<exists>m. trap v h st = Returns (h\<lparr>hart_x := (hart_x h)[10 := r], hart_mepc := hart_mepc h + 4\<rparr>) (with_mem m st2) \<and>
    (\<forall>k. k < offset_of (frame_of h) \<or> offset_of (frame_of h) + 140 \<le> k \<longrightarrow> m k = mem st2 k)"
proof -
  let ?c = "frame_of h" and ?s1 = "saved h st"
  have w: "word_at (mem ?s1) (c_gpr ?c j) =
      (if j < 32 then hart_x h ! j else [hart_mcause h, hart_mstatus h, hart_mepc h] ! (j - 32))" if "0 < j" "j < 35" for j
    using saved_word [OF assms(2) that(2), of st] that(1) by simp
  have same: "word_at (mem st2) (c_gpr ?c j) = word_at (mem ?s1) (c_gpr ?c j)" if "j < 35" for j
  proof (rule word_at_load, rule load_cong)
    fix x assume x: "offset_of (c_gpr ?c j) \<le> x" "x < offset_of (c_gpr ?c j) + 4"
    have o: "offset_of (c_gpr ?c j) = offset_of ?c + 4 * j" using word_offset(1) [of ?c 35 j] assms(2) that by simp
    obtain i where i: "x = offset_of ?c + i" using x(1) o by (metis add.assoc le_iff_add)
    then have "i < 140" using x(2) o that by linarith
    then show "mem st2 x = mem ?s1 x" using assms(7) unfolding i by (metis nth_load)
  qed
  define m1 where "m1 = put_word ?c (10, r) (mem st2)"
  define m2 where "m2 = put_word ?c (34, word_at m1 (c_gpr ?c 34) + 4) m1"
  have sys: "syscall_handle (yield v) v ?c ?s1 = Returns () (with_mem m1 st2)"
    unfolding m1_def by (rule syscall_handle_run [where f = f, OF assms(2) _ assms(6)]) (simp add: w assms(5))
  have irq: "irq_handle (syscall_handle (yield v) v) v ?c ?s1 = Returns ?c (with_mem m2 st2)"
    using irq_syscall [where sys = "syscall_handle (yield v) v", OF assms(2) _ _ sys] w assms(3,4) by (simp add: m2_def)
  have "word_at m2 (c_gpr ?c j) = (if j = 10 then r else if j = 34 then hart_mepc h + 4
      else word_at (mem ?s1) (c_gpr ?c j))" if "0 < j" "j < 35" for j
    using that by (auto simp: m2_def m1_def put_word_at [OF assms(2)] same w)
  then have "trap v h st = Returns (h\<lparr>hart_x := (hart_x h)[10 := r], hart_mepc := hart_mepc h + 4\<rparr>) (with_mem m2 st2)"
    using trap_vector_run [where handle = "irq_handle (syscall_handle (yield v) v) v", OF assms(1,2) irq] restored_frame [OF assms(1,2), of m2 r "hart_mepc h + 4" st]
    by (simp add: trap_def)
  moreover have "m2 k = mem st2 k" if "k < offset_of ?c \<or> offset_of ?c + 140 \<le> k" for k
    using put_word_outside [OF assms(2) _ that] by (simp add: m2_def m1_def)
  ultimately show ?thesis by blast
qed

text \<open>The registers of a program that sets its break.\<close>

definition calling :: "u32 \<Rightarrow> u32 \<Rightarrow> hart" where
  "calling n a = \<lparr>hart_x = (replicate 32 0)[2 := 0x80001000, 10 := a, 17 := n], hart_mcause = 0xb, hart_mstatus = 0, hart_mepc = 0x80000100\<rparr>"

lemma trap_syscall_correct_witness:
  "\<forall>v. \<exists>st. trap v (calling 9 0x80200000) booted_os =
     Returns (calling 9 0\<lparr>hart_mepc := 0x80000104\<rparr>) st \<and> pbrk st = 0x80200000"
proof
  fix v
  let ?h = "calling 9 0x80200000"
  have f: "frame_of ?h = 0x80000f74" "length (hart_x ?h) = 32" "hart_x ?h ! 17 = 9" "hart_x ?h ! 10 = 0x80200000"
    "hart_mcause ?h = 0xb" "hart_mepc ?h = 0x80000100"
    by (simp_all add: frame_of_def calling_def sizeof_Context_def)
  have r: "in_ram (frame_of ?h) 140" by (simp add: f in_ram_def)
  have "(hart_x ?h)[10 := 0] = hart_x (calling 9 0)" by (simp add: calling_def list_update_swap)
  then have h: "?h\<lparr>hart_x := (hart_x ?h)[10 := 0], hart_mepc := 0x80000104\<rparr> = calling 9 0\<lparr>hart_mepc := 0x80000104\<rparr>"
    by (simp add: calling_def)
  obtain m where "trap v ?h booted_os = Returns (?h\<lparr>hart_x := (hart_x ?h)[10 := 0], hart_mepc := 0x80000104\<rparr>)
      (with_mem m ((saved ?h booted_os)\<lparr>pbrk := 0x80200000\<rparr>))"
    using trap_syscall_correct [OF f(2) r f(5), of v "mm_brk 0x80200000" booted_os 0
        "(saved ?h booted_os)\<lparr>pbrk := 0x80200000\<rparr>"] f
    by (auto simp: syscall_fun_def mm_brk_def)
  then show "\<exists>st. trap v ?h booted_os = Returns (calling 9 0\<lparr>hart_mepc := 0x80000104\<rparr>) st \<and> pbrk st = 0x80200000"
    unfolding h by (simp add: with_mem_def)
qed

text \<open>A yield changes nothing but the place where the program goes on.\<close>

lemma trap_yield_run:
  assumes "length (hart_x h) = 32" and "in_ram (frame_of h) 140" and "hart_mcause h = 0xb" and "hart_x h ! 17 = - 1"
  shows "\<exists>m. trap v h st = Returns (h\<lparr>hart_mepc := hart_mepc h + 4\<rparr>) (with_mem m st) \<and>
    (\<forall>k. k < offset_of (frame_of h) \<or> offset_of (frame_of h) + 140 \<le> k \<longrightarrow> m k = mem st k)"
proof -
  let ?c = "frame_of h" and ?s1 = "saved h st"
  have w: "word_at (mem ?s1) (c_gpr ?c j) =
      (if j < 32 then hart_x h ! j else [hart_mcause h, hart_mstatus h, hart_mepc h] ! (j - 32))" if "0 < j" "j < 35" for j
    using saved_word [OF assms(2) that(2), of st] that(1) by simp
  define m2 where "m2 = put_word ?c (34, word_at (mem ?s1) (c_gpr ?c 34) + 4) (mem ?s1)"
  have irq: "irq_handle (syscall_handle (yield v) v) v ?c ?s1 = Returns ?c (with_mem m2 st)"
    using irq_yield [OF assms(2), of ?s1 "syscall_handle (yield v) v" v] w assms(3,4) by (simp add: m2_def saved_def)
  have "word_at m2 (c_gpr ?c j) = (if j = 10 then hart_x h ! 10 else if j = 34 then hart_mepc h + 4
      else word_at (mem ?s1) (c_gpr ?c j))" if "0 < j" "j < 35" for j
    using that by (auto simp: m2_def put_word_at [OF assms(2)] w)
  then have "trap v h st = Returns (h\<lparr>hart_mepc := hart_mepc h + 4\<rparr>) (with_mem m2 st)"
    using trap_vector_run [where handle = "irq_handle (syscall_handle (yield v) v) v", OF assms(1,2) irq] restored_frame [OF assms(1,2), of m2 "hart_x h ! 10" "hart_mepc h + 4" st]
    by (simp add: trap_def)
  moreover have "m2 k = mem st k" if "k < offset_of ?c \<or> offset_of ?c + 140 \<le> k" for k
    using put_word_outside [OF assms(2) _ that] saved_outside [OF assms(2) that, of st] by (simp add: m2_def)
  ultimately show ?thesis by blast
qed

end
