(* ===== verification/Os_Loader.thy ===== *)
theory Os_Loader
  imports Os_Traps
begin

text \<open>
  Loading an executable, from the file in the disk image to the segments in memory: the loader over
  the file system over the disk driver and the disk device.
\<close>

section \<open>An open file\<close>

text \<open>The state \<open>st\<close> while file \<open>fd\<close>, entry \<open>f\<close> of the table of \<open>st0\<close>, is read, at offset \<open>pos\<close>.\<close>

definition reading :: "os \<Rightarrow> u32 \<Rightarrow> Finfo \<Rightarrow> u32 \<Rightarrow> os \<Rightarrow> bool" where
  "reading st0 fd f pos st \<longleftrightarrow>
     st = st0\<lparr>hw := hw st, file_table := (file_table st0)[unat fd := f\<lparr>is_open := True, open_offset := pos\<rparr>]\<rparr> \<and>
     attached (hw st) \<and> ramdisk (hw st) = ramdisk (hw st0) \<and> pos \<le> f_size f"

definition readable :: "os \<Rightarrow> u32 \<Rightarrow> Finfo \<Rightarrow> bool" where
  "readable st0 fd f \<longleftrightarrow> unat fd < FILE_NUM \<and> length (file_table st0) = FILE_NUM \<and> file_table st0 ! unat fd = f \<and>
     on_disk (f\<lparr>open_offset := 0\<rparr>) (hw st0)"

lemma readingD:
  assumes "readable st0 fd f" and "reading st0 fd f pos st"
  shows "\<not> bad_fd fd st" and "file_table st ! unat fd = f\<lparr>is_open := True, open_offset := pos\<rparr>"
    and "on_disk (f\<lparr>is_open := True, open_offset := pos\<rparr>) (hw st)" and "attached (hw st)" and "pos \<le> f_size f"
    and "content (f\<lparr>is_open := True, open_offset := pos\<rparr>) (hw st) = content f (hw st0)"
    and "unat (f_size f) = length (content f (hw st0))"
proof -
  have st: "st = st0\<lparr>hw := hw st, file_table := (file_table st0)[unat fd := f\<lparr>is_open := True, open_offset := pos\<rparr>]\<rparr>"
    using assms(2) by (simp add: reading_def)
  have l: "unat fd < length (file_table st0)" "unat fd < 48" using assms(1) by (simp_all add: readable_def FILE_NUM_def)
  show e: "file_table st ! unat fd = f\<lparr>is_open := True, open_offset := pos\<rparr>" by (subst st) (simp add: l)
  have "sint fd = int (unat fd)" using l(2) by (intro sint_small) simp
  then have "0 \<le> sint fd" by linarith
  then show "\<not> bad_fd fd st" using l by (simp add: bad_fd_def FILE_NUM_def e)
  show "on_disk (f\<lparr>is_open := True, open_offset := pos\<rparr>) (hw st)" "attached (hw st)" "pos \<le> f_size f"
    "content (f\<lparr>is_open := True, open_offset := pos\<rparr>) (hw st) = content f (hw st0)"
    "unat (f_size f) = length (content f (hw st0))"
    using assms by (auto simp: reading_def readable_def on_disk_def content_def)
qed


lemma reading_seek:
  assumes "readable st0 fd f" and "reading st0 fd f pos st" and "n \<le> f_size f"
  shows "\<exists>st'. fs_lseek fd n 0 st = Returns n st' \<and> reading st0 fd f n st' \<and> mem st' = mem st"
proof -
  note d = readingD [OF assms(1,2)]
  have st: "st = st0\<lparr>hw := hw st, file_table := (file_table st0)[unat fd := f\<lparr>is_open := True, open_offset := pos\<rparr>]\<rparr>"
    using assms(2) by (simp add: reading_def)
  let ?st = "st\<lparr>file_table := (file_table st)[unat fd := f\<lparr>is_open := True, open_offset := n\<rparr>]\<rparr>"
  have "fs_lseek fd n 0 st = Returns n ?st"
    using d(1,2) assms(3) by (simp add: fs_lseek_def Let_def set_file_def gbind_def leD)
  moreover have "file_table ?st = (file_table st0)[unat fd := f\<lparr>is_open := True, open_offset := n\<rparr>]"
    by (subst st) simp
  then have "?st = st0\<lparr>hw := hw ?st, file_table := (file_table st0)[unat fd := f\<lparr>is_open := True, open_offset := n\<rparr>]\<rparr>"
    by (subst (1) st) simp
  then have "reading st0 fd f n ?st" using assms(2,3) by (simp add: reading_def)
  ultimately show ?thesis by auto
qed

lemma reading_read:
  assumes "readable st0 fd f" and "reading st0 fd f pos st" and "unat pos + unat len \<le> unat (f_size f)"
    and "in_ram buf (unat len)"
  shows "\<exists>st'. fs_read e fd buf len st = Returns len st' \<and> reading st0 fd f (pos + len) st' \<and>
    mem st' = store (mem st) (offset_of buf) (take (unat len) (drop (unat pos) (content f (hw st0))))"
proof -
  note d = readingD [OF assms(1,2)]
  let ?f = "f\<lparr>is_open := True, open_offset := pos\<rparr>"
  have st: "st = st0\<lparr>hw := hw st, file_table := (file_table st0)[unat fd := ?f]\<rparr>"
    using assms(2) by (simp add: reading_def)
  have fs: "unat (f_size f) < 2 ^ 32" using unsigned_less [of "f_size f"] by simp
  have n: "unat len = min (unat len) (unat (f_size ?f) - unat (open_offset ?f))" using assms(3) by simp
  have lt: "unat (open_offset ?f) + unat len < 2 ^ 32" using assms(3) fs by simp
  have ram: "0x80000000 \<le> unat buf" "unat buf + unat len \<le> 0x88000000" using assms(4) by (simp_all add: in_ram_def)
  obtain h where h: "fs_read e fd buf len st = Returns (of_nat (unat len)) (st\<lparr>hw := h,
      file_table := (file_table st)[unat fd := ?f\<lparr>open_offset := open_offset ?f + of_nat (unat len)\<rparr>]\<rparr>)"
    "h = (hw st)\<lparr>skip_ref := True, io_space := io_space h, sim_pmem := sim_pmem h, ref_pmem := ref_pmem h\<rparr>"
    "sim_pmem h = store (sim_pmem (hw st)) (offset_of buf) (take (unat len) (drop (unat (open_offset ?f)) (content ?f (hw st))))"
    using fs_read_run [OF d(4,1,2,3) lt n ram, of e] by blast
  let ?st = "st\<lparr>hw := h, file_table := (file_table st)[unat fd := f\<lparr>is_open := True, open_offset := pos + len\<rparr>]\<rparr>"
  have "fs_read e fd buf len st = Returns len ?st" using h(1) by simp
  moreover have "mem ?st = store (mem st) (offset_of buf) (take (unat len) (drop (unat pos) (content f (hw st0))))"
    using h(3) d(6) by simp
  moreover have "reading st0 fd f (pos + len) ?st"
  proof -
    have "maps h = maps (hw st)" "ptr h = ptr (hw st)" "ramdisk h = ramdisk (hw st)" by (subst h(2), simp)+
    then have "attached h = attached (hw st)" "ramdisk h = ramdisk (hw st)" by (simp_all add: attached_def)
    moreover have "file_table ?st = (file_table st0)[unat fd := f\<lparr>is_open := True, open_offset := pos + len\<rparr>]"
      by (subst st) simp
    then have "?st = st0\<lparr>hw := hw ?st, file_table := (file_table st0)[unat fd := f\<lparr>is_open := True, open_offset := pos + len\<rparr>]\<rparr>"
      by (subst (1) st) simp
    moreover have "unat (pos + len) = unat pos + unat len" using lt by (simp add: unat_add_lem [symmetric])
    then have "pos + len \<le> f_size f" using assms(3) by (simp add: word_le_nat_alt)
    ultimately show ?thesis using assms(2) by (simp add: reading_def)
  qed
  ultimately show ?thesis by blast
qed

section \<open>Executables\<close>

text \<open>Numbers in a file, and the fields of a program header at \<open>p\<close>.\<close>

definition half_of :: "u8 list \<Rightarrow> nat \<Rightarrow> u32" where
  "half_of F i = word_of_bytes (take 2 (drop i F))"

definition word_of :: "u8 list \<Rightarrow> nat \<Rightarrow> u32" where
  "word_of F i = word_of_bytes (take 4 (drop i F))"

record phdr =
  ph_type :: u32
  ph_offset :: u32
  ph_vaddr :: u32
  ph_filesz :: u32
  ph_memsz :: u32

definition phdr_in :: "u8 list \<Rightarrow> nat \<Rightarrow> phdr" where
  "phdr_in F p = \<lparr>ph_type = word_of F p, ph_offset = word_of F (p + 4), ph_vaddr = word_of F (p + 8),
     ph_filesz = word_of F (p + 16), ph_memsz = word_of F (p + 20)\<rparr>"

definition phdr_pos :: "u8 list \<Rightarrow> nat \<Rightarrow> nat" where
  "phdr_pos F i = unat (word_of F 28) + i * unat (half_of F 42)"

definition phdrs_of :: "u8 list \<Rightarrow> phdr list" where
  "phdrs_of F = map (\<lambda>i. phdr_in F (phdr_pos F i)) [0..<unat (half_of F 44)]"

text \<open>What a segment puts into memory: its bytes in the file, then zeros.\<close>

definition segment_image :: "u8 list \<Rightarrow> phdr \<Rightarrow> u8 list" where
  "segment_image F s = take (unat (ph_filesz s)) (drop (unat (ph_offset s)) F) @
     replicate (unat (ph_memsz s) - unat (ph_filesz s)) 0"

definition put_segment :: "u8 list \<Rightarrow> phdr \<Rightarrow> bytes \<Rightarrow> bytes" where
  "put_segment F s m = (if ph_type s = 1 then store m (offset_of (ph_vaddr s)) (segment_image F s) else m)"

text \<open>A file the loader can load: all it reads is there, and the segments lie in memory, off the two
  structures of the loader.\<close>

definition segment_ok :: "kenv \<Rightarrow> u8 list \<Rightarrow> phdr \<Rightarrow> bool" where
  "segment_ok v F s \<longleftrightarrow> (ph_type s = 1 \<longrightarrow>
     unat (ph_offset s) + unat (ph_filesz s) \<le> length F \<and>
     (let n = max (unat (ph_filesz s)) (unat (ph_memsz s)) in
        in_ram (ph_vaddr s) n \<and> apart_from (ph_vaddr s) n (ehdr_at v) 52 \<and> apart_from (ph_vaddr s) n (phdr_at v) 32))"

definition elf_ok :: "kenv \<Rightarrow> u8 list \<Rightarrow> bool" where
  "elf_ok v F \<longleftrightarrow> 52 \<le> length F \<and> word_of F 0 = 0x464C457F \<and> half_of F 18 = 243 \<and>
     (\<forall>i < unat (half_of F 44). phdr_pos F i + 32 \<le> length F) \<and> (\<forall>s \<in> set (phdrs_of F). segment_ok v F s)"


section \<open>The loader\<close>

lemma ld16_run: "in_ram a 2 \<Longrightarrow> ld16 a st = Returns (word_of_bytes (load (mem st) (offset_of a) 2)) st"
  by (simp add: ld16_def gbind_def on_hw_def gzoom_def mem_get_def in_ram_def)

lemma field_addr:
  assumes "in_ram a n" and "i + k \<le> n" and "0 < k"
  shows "in_ram (a + of_nat i) k" and "offset_of (a + of_nat i) = offset_of a + i"
proof -
  have n: "i < 2 ^ 32" "unat a + i < 2 ^ 32" using assms by (auto simp: in_ram_def)
  then have "unat (of_nat i :: u32) = i" by (simp add: unsigned_of_nat take_bit_nat_eq_self)
  then have u: "unat (a + of_nat i) = unat a + i"
    using n(2) by (subst unat_add_lem [THEN iffD1]) auto
  then show "in_ram (a + of_nat i) k" "offset_of (a + of_nat i) = offset_of a + i"
    using assms by (auto simp: in_ram_def)
qed

lemma sub_load: "load m a n = xs \<Longrightarrow> i + k \<le> n \<Longrightarrow> load m (a + i) k = take k (drop i xs)"
  by (rule nth_equalityI) (auto simp: nth_load add.assoc)

lemma ld_field:
  assumes "in_ram a n" and "load (mem st) (offset_of a) n = take n (drop p F)" and "i + 4 \<le> n"
  shows "ld32 (a + of_nat i) st = Returns (word_of F (p + i)) st"
proof -
  note f = field_addr [OF assms(1,3)]
  have "load (mem st) (offset_of a + i) 4 = take 4 (drop i (take n (drop p F)))"
    by (rule sub_load [OF assms(2,3)])
  also have "\<dots> = take 4 (drop (p + i) F)" using assms(3) by (simp add: drop_take add.commute)
  finally show ?thesis using f by (simp add: ld32_run word_at_def word_of_def)
qed

lemma ld_half_field:
  assumes "in_ram a n" and "load (mem st) (offset_of a) n = take n (drop p F)" and "i + 2 \<le> n"
  shows "ld16 (a + of_nat i) st = Returns (half_of F (p + i)) st"
proof -
  note f = field_addr [OF assms(1,3)]
  have "load (mem st) (offset_of a + i) 2 = take 2 (drop i (take n (drop p F)))"
    by (rule sub_load [OF assms(2,3)])
  also have "\<dots> = take 2 (drop (p + i) F)" using assms(3) by (simp add: drop_take add.commute)
  finally show ?thesis using f by (simp add: ld16_run half_of_def)
qed

lemma st_zeros_run:
  assumes "in_ram a (unat n)"
  shows "on_hw (mem_put a (replicate (unat n) 0)) st = Returns () (with_mem (store (mem st) (offset_of a) (replicate (unat n) 0)) st)"
  using assms by (simp add: on_hw_def gzoom_def mem_put_def in_ram_def with_mem_def)

lemma reading_with_mem:
  assumes "reading st0 fd f pos st"
  shows "reading st0 fd f pos (with_mem m st)"
proof -
  let ?st = "with_mem m st"
  have st: "st = st0\<lparr>hw := hw st, file_table := (file_table st0)[unat fd := f\<lparr>is_open := True, open_offset := pos\<rparr>]\<rparr>"
    using assms by (simp add: reading_def)
  have "?st = st0\<lparr>hw := hw ?st, file_table := (file_table st0)[unat fd := f\<lparr>is_open := True, open_offset := pos\<rparr>]\<rparr>"
    unfolding with_mem_def by (subst (1) st) simp
  then show ?thesis using assms by (simp add: reading_def)
qed


lemma load_apart:
  assumes "in_ram a (length bs)" and "in_ram b n" and "apart_from a (length bs) b n"
  shows "load (store m (offset_of a) bs) (offset_of b) n = load m (offset_of b) n"
  using assms by (intro load_store_disjoint) (auto simp: in_ram_def apart_from_def)

lemma load_segment_run:
  assumes "readable st0 fd f" and "reading st0 fd f pos st" and "content f (hw st0) = F"
    and "in_ram (phdr_at v) 32" and "load (mem st) (offset_of (phdr_at v)) 32 = take 32 (drop p F)"
    and "segment_ok v F (phdr_in F p)"
  shows "\<exists>st' pos'. load_segment v fd st = Returns () st' \<and> reading st0 fd f pos' st' \<and>
    mem st' = put_segment F (phdr_in F p) (mem st)"
proof -
  let ?s = "phdr_in F p" and ?ph = "phdr_at v"
  note w = ld_field [OF assms(4)]
  have fields: "ld32 ?ph st' = Returns (ph_type ?s) st'" "ld32 (?ph + 4) st' = Returns (ph_offset ?s) st'"
    "ld32 (?ph + 8) st' = Returns (ph_vaddr ?s) st'" "ld32 (?ph + 16) st' = Returns (ph_filesz ?s) st'"
    "ld32 (?ph + 20) st' = Returns (ph_memsz ?s) st'"
    if "load (mem st') (offset_of ?ph) 32 = take 32 (drop p F)" for st'
    using w [OF that, of 0] w [OF that, of 4] w [OF that, of 8] w [OF that, of 16] w [OF that, of 20]
    by (simp_all add: phdr_in_def)
  show ?thesis
  proof (cases "ph_type ?s = 1")
    case False
    then show ?thesis using assms(2) fields [OF assms(5)]
      by (auto simp: load_segment_def Let_def gbind_def put_segment_def)
  next
    case True
    let ?fs = "unat (ph_filesz ?s)" and ?ms = "unat (ph_memsz ?s)"
    let ?bytes = "take ?fs (drop (unat (ph_offset ?s)) F)"
    have ok: "unat (ph_offset ?s) + ?fs \<le> length F" "in_ram (ph_vaddr ?s) (max ?fs ?ms)"
      "apart_from (ph_vaddr ?s) (max ?fs ?ms) ?ph 32"
      using assms(6) True by (simp_all add: segment_ok_def Let_def)
    have size: "unat (f_size f) = length F" using readingD(7) [OF assms(1,2)] assms(3) by simp
    have len: "length ?bytes = ?fs" using ok(1) by simp
    obtain s1 where s1: "fs_lseek fd (ph_offset ?s) 0 st = Returns (ph_offset ?s) s1" "reading st0 fd f (ph_offset ?s) s1"
      "mem s1 = mem st"
      using reading_seek [OF assms(1,2), of "ph_offset ?s"] ok(1) size by (auto simp: word_le_nat_alt)
    obtain s2 where s2: "fs_read (host_of v) fd (ph_vaddr ?s) (ph_filesz ?s) s1 = Returns (ph_filesz ?s) s2"
      "reading st0 fd f (ph_offset ?s + ph_filesz ?s) s2" "mem s2 = store (mem st) (offset_of (ph_vaddr ?s)) ?bytes"
      using reading_read [OF assms(1) s1(2), of "ph_filesz ?s" "ph_vaddr ?s" "host_of v"] ok(1) size s1(3)
        in_ram_le [OF ok(2), of ?fs] assms(3) by auto
    have "load (mem s2) (offset_of ?ph) 32 = load (mem st) (offset_of ?ph) 32" unfolding s2(3)
      using ok(2,3) len by (intro load_apart assms(4)) (auto simp: in_ram_def apart_from_def)
    note f2 = fields [OF this [unfolded assms(5)]]
    have run: "load_segment v fd st = (if ph_filesz ?s < ph_memsz ?s
        then st_zeros (ph_vaddr ?s + ph_filesz ?s) (ph_memsz ?s - ph_filesz ?s) else Returns ()) s2"
      using fields [OF assms(5)] fields(3,4) [of s1] s1(1,3) s2(1) f2 assms(5) True
      by (simp add: load_segment_def Let_def gbind_def)
    show ?thesis
    proof (cases "ph_filesz ?s < ph_memsz ?s")
      case False
      then have "segment_image F ?s = ?bytes" by (simp add: segment_image_def word_less_nat_alt)
      then have "mem s2 = put_segment F ?s (mem st)" using s2(3) True by (simp add: put_segment_def)
      then show ?thesis using run False s2(2) by auto
    next
      case less: True
      then have lt: "?fs < ?ms" by (simp add: word_less_nat_alt)
      have z: "in_ram (ph_vaddr ?s + of_nat ?fs) (?ms - ?fs)" "offset_of (ph_vaddr ?s + of_nat ?fs) = offset_of (ph_vaddr ?s) + ?fs"
        using field_addr [OF ok(2), of ?fs "?ms - ?fs"] lt by auto
      have n: "unat (ph_memsz ?s - ph_filesz ?s) = ?ms - ?fs" using lt by (simp add: unat_sub word_le_nat_alt)
      let ?m = "store (mem s2) (offset_of (ph_vaddr ?s) + ?fs) (replicate (?ms - ?fs) 0)"
      have "load_segment v fd st = Returns () (with_mem ?m s2)"
        using run less st_zeros_run [of "ph_vaddr ?s + ph_filesz ?s" "ph_memsz ?s - ph_filesz ?s" s2] z n
        by (simp add: st_zeros_def)
      moreover have "?m = put_segment F ?s (mem st)"
        using s2(3) True store_append [of "offset_of (ph_vaddr ?s) + ?fs" "offset_of (ph_vaddr ?s)" ?bytes] len
        by (simp add: put_segment_def segment_image_def)
      ultimately show ?thesis using reading_with_mem [OF s2(2)] by auto
    qed
  qed
qed


lemma half_of_small: "unat (half_of F i) < 2 ^ 16"
proof -
  have "take_bit 16 (half_of F i) = half_of F i"
    by (rule bit_word_eqI) (auto simp: half_of_def bit_simps bit_word_of_bytes)
  then show ?thesis by (metis unat_take_bit_less)
qed

lemma put_segment_cong: "m x = m' x \<Longrightarrow> put_segment F s m x = put_segment F s m' x"
  by (simp add: put_segment_def store_def)

lemma put_segment_load:
  assumes "segment_ok v F s" and "in_ram (ehdr_at v) 52"
  shows "load (put_segment F s m) (offset_of (ehdr_at v)) 52 = load m (offset_of (ehdr_at v)) 52"
proof (cases "ph_type s = 1")
  case True
  then have "length (segment_image F s) = max (unat (ph_filesz s)) (unat (ph_memsz s))"
    using assms(1) by (auto simp: segment_ok_def segment_image_def Let_def)
  then show ?thesis using assms True
    by (auto simp: put_segment_def segment_ok_def Let_def intro!: load_apart)
qed (simp add: put_segment_def)

text \<open>Where the loader keeps its two structures.\<close>

definition frames_ok :: "kenv \<Rightarrow> bool" where
  "frames_ok v \<longleftrightarrow> in_ram (ehdr_at v) 52 \<and> in_ram (phdr_at v) 32 \<and> apart_from (phdr_at v) 32 (ehdr_at v) 52"

definition in_frames :: "kenv \<Rightarrow> nat \<Rightarrow> bool" where
  "in_frames v x \<longleftrightarrow> offset_of (ehdr_at v) \<le> x \<and> x < offset_of (ehdr_at v) + 52 \<or>
     offset_of (phdr_at v) \<le> x \<and> x < offset_of (phdr_at v) + 32"

definition loaded :: "kenv \<Rightarrow> os \<Rightarrow> u32 \<Rightarrow> Finfo \<Rightarrow> nat \<Rightarrow> os \<Rightarrow> bool" where
  "loaded v st0 fd f k st \<longleftrightarrow> (\<exists>pos. reading st0 fd f pos st) \<and>
     load (mem st) (offset_of (ehdr_at v)) 52 = take 52 (content f (hw st0)) \<and>
     (\<forall>x. \<not> in_frames v x \<longrightarrow>
        mem st x = fold (put_segment (content f (hw st0))) (take k (phdrs_of (content f (hw st0)))) (mem st0) x)"

lemma load_segments_step:
  assumes "readable st0 fd f" and "content f (hw st0) = F" and "elf_ok v F" and "frames_ok v"
    and "loaded v st0 fd f k st" and "k < unat (half_of F 44)"
  shows "\<exists>st'. load_segments v fd (Suc n) (of_nat k) st = load_segments v fd n (of_nat (Suc k)) st' \<and>
    loaded v st0 fd f (Suc k) st'"
proof -
  let ?eh = "ehdr_at v" and ?ph = "phdr_at v" and ?p = "phdr_pos F k"
  have fr: "in_ram ?eh 52" "in_ram ?ph 32" "apart_from ?ph 32 ?eh 52" using assms(4) by (simp_all add: frames_ok_def)
  obtain pos where rd: "reading st0 fd f pos st" using assms(5) by (auto simp: loaded_def)
  have eh: "load (mem st) (offset_of ?eh) 52 = take 52 (drop 0 F)"
    and out: "\<And>x. \<not> in_frames v x \<Longrightarrow> mem st x = fold (put_segment F) (take k (phdrs_of F)) (mem st0) x"
    using assms(2,5) by (simp_all add: loaded_def)
  have size: "unat (f_size f) = length F" using readingD(7) [OF assms(1) rd] assms(2) by simp
  have "unat (f_size f) < 2 ^ 32" using unsigned_less [of "f_size f"] by simp
  then have fs: "length F < 2 ^ 32" using size by simp
  have pk: "?p + 32 \<le> length F" "segment_ok v F (phdr_in F ?p)"
    using assms(3,6) by (auto simp: elf_ok_def phdrs_of_def)
  have k32: "unat (of_nat k :: u32) = k"
    using assms(6) half_of_small [of F 44] by (simp add: unsigned_of_nat take_bit_nat_eq_self)
  have lt: "(of_nat k :: u32) < half_of F 44" using assms(6) k32 by (simp add: word_less_nat_alt)
  let ?pos = "word_of F 28 + of_nat k * half_of F 42"
  have m: "unat (of_nat k * half_of F 42) = k * unat (half_of F 42)"
    using pk(1) fs k32 unat_mult_lem [of "of_nat k :: u32" "half_of F 42"] by (simp add: phdr_pos_def)
  have pos: "unat ?pos = ?p"
    using pk(1) fs m unat_add_lem [of "word_of F 28" "of_nat k * half_of F 42"] by (simp add: phdr_pos_def)
  note w = ld_field [OF fr(1) eh] ld_half_field [OF fr(1) eh]
  have hdr: "ld16 (?eh + 44) st = Returns (half_of F 44) st" "ld32 (?eh + 28) st = Returns (word_of F 28) st"
    "ld16 (?eh + 42) st = Returns (half_of F 42) st"
    using w(2) [of 44] w(1) [of 28] w(2) [of 42] by simp_all
  obtain s1 where s1: "fs_lseek fd ?pos 0 st = Returns ?pos s1" "reading st0 fd f ?pos s1" "mem s1 = mem st"
    using reading_seek [OF assms(1) rd, of ?pos] pk(1) size pos by (auto simp: word_le_nat_alt)
  obtain s2 where s2: "fs_read (host_of v) fd ?ph 32 s1 = Returns 32 s2" "reading st0 fd f (?pos + 32) s2"
    "mem s2 = store (mem st) (offset_of ?ph) (take 32 (drop ?p F))"
    using reading_read [OF assms(1) s1(2), of 32 ?ph "host_of v"] pk(1) size s1(3) fr(2) assms(2) by (auto simp: pos)
  have len: "length (take 32 (drop ?p F)) = 32" using pk(1) by simp
  then have ph: "load (mem s2) (offset_of ?ph) 32 = take 32 (drop ?p F)" by (simp add: s2(3))
  obtain s3 where s3: "load_segment v fd s2 = Returns () s3" "\<exists>pos'. reading st0 fd f pos' s3"
    "mem s3 = put_segment F (phdr_in F ?p) (mem s2)"
    using load_segment_run [OF assms(1) s2(2) assms(2) fr(2) ph pk(2)] by blast
  have "load_segments v fd (Suc n) (of_nat k) st = load_segments v fd n (of_nat (Suc k)) s3"
    using hdr lt s1(1) s2(1) s3(1) by (simp add: gbind_def add.commute [of 1])
  moreover have "load (mem s3) (offset_of ?eh) 52 = take 52 F"
  proof -
    have "load (mem s2) (offset_of ?eh) 52 = load (mem st) (offset_of ?eh) 52"
      unfolding s2(3) using fr len by (intro load_apart) simp_all
    then show ?thesis using put_segment_load [OF pk(2) fr(1)] eh by (simp add: s3(3))
  qed
  moreover have "mem s3 x = fold (put_segment F) (take (Suc k) (phdrs_of F)) (mem st0) x" if "\<not> in_frames v x" for x
  proof -
    have "mem s2 x = mem st x" using that len by (auto simp: s2(3) in_frames_def store_def)
    then have "mem s3 x = put_segment F (phdr_in F ?p) (fold (put_segment F) (take k (phdrs_of F)) (mem st0)) x"
      using out [OF that] unfolding s3(3) by (intro put_segment_cong) simp
    moreover have "take (Suc k) (phdrs_of F) = take k (phdrs_of F) @ [phdr_in F ?p]"
      using assms(6) by (simp add: phdrs_of_def take_Suc_conv_app_nth)
    ultimately show ?thesis by simp
  qed
  ultimately show ?thesis using s3(2) assms(2) by (auto simp: loaded_def)
qed

lemma load_segments_run:
  assumes "readable st0 fd f" and "content f (hw st0) = F" and "elf_ok v F" and "frames_ok v"
    and "loaded v st0 fd f k st" and "k + j = unat (half_of F 44)" and "j < n"
  shows "\<exists>st'. load_segments v fd n (of_nat k) st = Returns () st' \<and> loaded v st0 fd f (unat (half_of F 44)) st'"
  using assms(5-7)
proof (induction j arbitrary: k n st)
  case 0
  obtain n' where n: "n = Suc n'" using 0 by (cases n) auto
  have k: "k = unat (half_of F 44)" using 0 by simp
  have eh: "load (mem st) (offset_of (ehdr_at v)) 52 = take 52 (drop 0 F)"
    using 0(1) assms(2) by (simp add: loaded_def)
  have "in_ram (ehdr_at v) 52" using assms(4) by (simp add: frames_ok_def)
  from ld_half_field [OF this eh, of 44] have "ld16 (ehdr_at v + 44) st = Returns (half_of F 44) st" by simp
  then show ?case using 0(1) by (simp add: n gbind_def k)
next
  case (Suc j)
  obtain n' where n: "n = Suc n'" using Suc.prems by (cases n) auto
  have "k < unat (half_of F 44)" using Suc.prems by simp
  from load_segments_step [OF assms(1-4) Suc.prems(1) this, of n'] obtain s1 where
    "load_segments v fd n (of_nat k) st = load_segments v fd n' (of_nat (Suc k)) s1" "loaded v st0 fd f (Suc k) s1"
    using n by blast
  then show ?case using Suc.IH [of "Suc k" s1 n'] Suc.prems n by simp
qed


text \<open>A descriptor is a small word; the header that is read first.\<close>

lemma descriptor_word: "i < 48 \<Longrightarrow> unat (of_nat i :: u32) = i \<and> (of_nat i :: u32) \<noteq> - 1"
proof -
  assume i: "i < 48"
  then have u: "unat (of_nat i :: u32) = i" by (simp add: unsigned_of_nat take_bit_nat_eq_self)
  have "(of_nat i :: u32) \<noteq> - 1"
    unfolding max_word [symmetric]
  proof
    assume "(of_nat i :: u32) = 0xffffffff"
    then have "unat (of_nat i :: u32) = unat (0xffffffff :: u32)" by (rule arg_cong)
    then show False using u i by simp
  qed
  then show ?thesis using u by blast
qed

lemma header_read:
  assumes "readable st fd f" and "reading st fd f 0 s0" and "mem s0 = mem st" and "content f (hw st) = F" and "elf_ok v F" and "frames_ok v"
  shows "\<exists>s1. fs_read (host_of v) fd (ehdr_at v) 52 s0 = Returns 52 s1 \<and> loaded v st fd f 0 s1 \<and>
    load (mem s1) (offset_of (ehdr_at v)) 52 = take 52 (drop 0 F)"
proof -
  have fr: "in_ram (ehdr_at v) 52" using assms(6) by (simp add: frames_ok_def)
  have ok: "52 \<le> length F" using assms(5) by (simp add: elf_ok_def)
  have size: "unat (f_size f) = length F" using readingD(7) [OF assms(1,2)] assms(4) by simp
  obtain s1 where s1: "fs_read (host_of v) fd (ehdr_at v) 52 s0 = Returns 52 s1" "reading st fd f 52 s1"
    "mem s1 = store (mem st) (offset_of (ehdr_at v)) (take 52 F)"
    using reading_read [OF assms(1,2), of 52 "ehdr_at v" "host_of v"] ok size fr assms(3,4) by auto
  have len: "length (take 52 F) = 52" using ok by simp
  then have eh: "load (mem s1) (offset_of (ehdr_at v)) 52 = take 52 (drop 0 F)" by (simp add: s1(3))
  have "mem s1 x = mem st x" if "\<not> in_frames v x" for x
    using that len by (auto simp: s1(3) in_frames_def store_def)
  then have "loaded v st fd f 0 s1" using s1(2) eh assms(4) by (auto simp: loaded_def)
  then show ?thesis using s1(1) eh by blast
qed

text \<open>C9: Loading an executable file puts every loadable segment into memory, its bytes followed by zeros
  up to its size, in the order of the program headers, and returns the entry point; the rest of
  memory stays (but for the two structures the loader keeps on its stack), and the file is closed
  again.\<close>

theorem elf_load_correct:
  assumes "attached (hw st)" and "length (file_table st) = FILE_NUM" and "find_file (file_table st) 0 path = Some i"
    and "file_table st ! i = f" and "on_disk (f\<lparr>open_offset := 0\<rparr>) (hw st)"
    and "content f (hw st) = F" and "elf_ok v F" and "frames_ok v"
  shows "\<exists>st'. elf_load v path st = Returns (word_of F 24) st' \<and>
    (\<forall>x. \<not> in_frames v x \<longrightarrow> mem st' x = fold (put_segment F) (phdrs_of F) (mem st) x) \<and>
    st' = st\<lparr>hw := hw st', file_table := (file_table st)[i := f\<lparr>is_open := False, open_offset := 0\<rparr>]\<rparr> \<and>
    attached (hw st') \<and> ramdisk (hw st') = ramdisk (hw st)"
proof -
  let ?fd = "of_nat i :: u32" and ?eh = "ehdr_at v"
  have i: "i < 48" using find_file_Some [OF assms(3)] assms(2) by (simp add: FILE_NUM_def)
  have fd: "unat ?fd = i" "?fd \<noteq> - 1" using descriptor_word [OF i] by blast+
  have rdb: "readable st ?fd f" using assms(2,4,5) fd i by (simp add: readable_def FILE_NUM_def)
  let ?s0 = "st\<lparr>file_table := (file_table st)[i := f\<lparr>is_open := True, open_offset := 0\<rparr>]\<rparr>"
  have op: "fs_open path st = Returns ?fd ?s0"
    using assms(3,4) by (simp add: fs_open_def set_file_def gbind_def)
  have r0: "reading st ?fd f 0 ?s0" using assms(1) fd by (simp add: reading_def)
  have fr: "in_ram ?eh 52" using assms(8) by (simp add: frames_ok_def)
  have ok: "word_of F 0 = 0x464C457F" "half_of F 18 = 243" using assms(7) by (simp_all add: elf_ok_def)
  obtain s1 where s1: "fs_read (host_of v) ?fd ?eh 52 ?s0 = Returns 52 s1" "loaded v st ?fd f 0 s1"
    and eh: "load (mem s1) (offset_of ?eh) 52 = take 52 (drop 0 F)"
    using header_read [OF rdb r0 _ assms(6-8)] by auto
  obtain s2 where s2: "load_segments v ?fd (2 ^ 16) 0 s1 = Returns () s2" "loaded v st ?fd f (unat (half_of F 44)) s2"
    using load_segments_run [OF rdb assms(6-8), of 0 s1 "unat (half_of F 44)" "2 ^ 16"] s1(2) half_of_small [of F 44] by auto
  then obtain pos where r2: "reading st ?fd f pos s2" by (auto simp: loaded_def)
  have eh2: "load (mem s2) (offset_of ?eh) 52 = take 52 (drop 0 F)" using s2(2) assms(6) by (simp add: loaded_def)
  have st2: "s2 = st\<lparr>hw := hw s2, file_table := (file_table st)[i := f\<lparr>is_open := True, open_offset := pos\<rparr>]\<rparr>"
    using r2 fd by (simp add: reading_def)
  let ?s3 = "s2\<lparr>file_table := (file_table s2)[i := f\<lparr>is_open := False, open_offset := 0\<rparr>]\<rparr>"
  have cl: "fs_close ?fd s2 = Returns 0 ?s3"
    using readingD(1,2) [OF rdb r2] fd by (simp add: fs_close_def set_file_def gbind_def)
  have run: "elf_load v path st = Returns (word_of F 24) ?s3"
    using ld_field [OF fr eh, of 0] ld_half_field [OF fr eh, of 18] ld_field [OF fr, of ?s3 0 F 24] eh2 ok fd(2) op s1(1) s2(1) cl
    by (simp add: elf_load_def gbind_def)
  have "phdrs_of F = take (unat (half_of F 44)) (phdrs_of F)" by (simp add: phdrs_of_def)
  then have "\<forall>x. \<not> in_frames v x \<longrightarrow> mem ?s3 x = fold (put_segment F) (phdrs_of F) (mem st) x"
    using s2(2) assms(6) by (simp add: loaded_def)
  moreover have "?s3 = st\<lparr>hw := hw ?s3, file_table := (file_table st)[i := f\<lparr>is_open := False, open_offset := 0\<rparr>]\<rparr>"
    by (subst (1 2) st2) simp
  moreover have "attached (hw ?s3)" "ramdisk (hw ?s3) = ramdisk (hw st)" using r2 by (simp_all add: reading_def)
  ultimately show ?thesis using run by blast
qed

text \<open>A file with one segment of two bytes that takes four in memory.\<close>

definition tiny_elf :: "u8 list" where
  "tiny_elf =
     [0x7f, 0x45, 0x4c, 0x46, 0, 0, 0, 0, 0, 0, 0, 0, 0, 0, 0, 0, 0, 0, 243, 0, 0, 0, 0, 0, 0, 0, 0x10, 0x80,
      52, 0, 0, 0, 0, 0, 0, 0, 0, 0, 0, 0, 0, 0, 32, 0, 1, 0, 0, 0, 0, 0, 0, 0,
      1, 0, 0, 0, 84, 0, 0, 0, 0, 0, 0x10, 0x80, 0, 0, 0, 0, 2, 0, 0, 0, 4, 0, 0, 0, 0, 0, 0, 0, 0, 0, 0, 0,
      7, 9]"

definition tiny_env :: kenv where
  "tiny_env = \<lparr>clock = (\<lambda>_. quiet_host), heap_start = 0x80400000, trap_entry = 0x80000004, ehdr_at = 0x80200000,
     phdr_at = 0x80200040, pcb_at = 0x80300000, tv_usec_at = 8, tv_sec_size = 8, at_yield = calling 0 0,
     run_from = (\<lambda>_. Returns ()), logo = [], built = ([], [])\<rparr>"

definition tiny_file :: Finfo where
  "tiny_file = \<lparr>f_name = ''a'', f_size = 86, disk_offset = 0, is_open = False, read_fn = None, write_fn = None, open_offset = 0\<rparr>"

definition tiny_os :: os where
  "tiny_os = booted_os\<lparr>hw := ready\<lparr>ramdisk := tiny_elf\<rparr>, file_table := init_file_table[0 := tiny_file]\<rparr>"

lemma tiny_fields:
  "word_of tiny_elf 0 = 0x464C457F" "half_of tiny_elf 18 = 243" "word_of tiny_elf 24 = 0x80100000"
  "half_of tiny_elf 44 = 1" "phdr_pos tiny_elf 0 = 52" "length tiny_elf = 86"
  "phdr_in tiny_elf 52 = \<lparr>ph_type = 1, ph_offset = 84, ph_vaddr = 0x80100000, ph_filesz = 2, ph_memsz = 4\<rparr>"
  by (simp_all add: tiny_elf_def word_of_def half_of_def phdr_pos_def phdr_in_def)

lemma elf_load_correct_witness:
  "\<exists>st. elf_load tiny_env (cstr ''a'') tiny_os = Returns 0x80100000 st \<and> load (mem st) 0x100000 4 = [7, 9, 0, 0]"
proof -
  let ?s = "\<lparr>ph_type = 1, ph_offset = 84, ph_vaddr = 0x80100000, ph_filesz = 2, ph_memsz = 4\<rparr>"
  have att: "attached (hw tiny_os)" using ready_attached by (simp add: tiny_os_def attached_def)
  have len: "length (file_table tiny_os) = FILE_NUM" "length init_file_table = 48"
    by (simp_all add: tiny_os_def FILE_NUM_def init_file_table_def disk_files_def)
  obtain x xs where xs: "init_file_table = x # xs" by (simp add: init_file_table_def)
  have found: "find_file (file_table tiny_os) 0 (cstr ''a'') = Some 0" "file_table tiny_os ! 0 = tiny_file"
    by (simp_all add: tiny_os_def xs tiny_file_def)
  have disk: "on_disk (tiny_file\<lparr>open_offset := 0\<rparr>) (hw tiny_os)" "content tiny_file (hw tiny_os) = tiny_elf"
    by (simp_all add: on_disk_def content_def tiny_file_def tiny_os_def tiny_fields(6))
  have phs: "phdrs_of tiny_elf = [?s]" by (simp add: phdrs_of_def tiny_fields)
  have ok: "elf_ok tiny_env tiny_elf"
    by (simp add: elf_ok_def phs tiny_fields segment_ok_def in_ram_def apart_from_def tiny_env_def)
  have fr: "frames_ok tiny_env" by (simp add: frames_ok_def in_ram_def apart_from_def tiny_env_def)
  obtain st where st: "elf_load tiny_env (cstr ''a'') tiny_os = Returns (word_of tiny_elf 24) st"
    "\<forall>x. \<not> in_frames tiny_env x \<longrightarrow> mem st x = fold (put_segment tiny_elf) (phdrs_of tiny_elf) (mem tiny_os) x"
    using elf_load_correct [OF att len(1) found disk ok fr] by blast
  have img: "segment_image tiny_elf ?s = [7, 9, 0, 0]"
  proof -
    have "replicate 2 (0 :: u8) = [0, 0]" by (simp add: numeral_2_eq_2)
    then show ?thesis by (simp add: segment_image_def tiny_elf_def)
  qed
  have "load (mem st) 0x100000 4 = load (fold (put_segment tiny_elf) (phdrs_of tiny_elf) (mem tiny_os)) 0x100000 4"
    using st(2) by (intro load_cong) (simp add: in_frames_def tiny_env_def)
  also have "\<dots> = [7, 9, 0, 0]" by (simp add: phs put_segment_def img)
  finally show ?thesis using st(1) by (simp add: tiny_fields)
qed

end
