(* ===== verification/Lib_Fixed.thy ===== *)
theory Lib_Fixed
  imports Bytes "HOL-Library.Signed_Division"
begin

text \<open>
  The fixed-point numbers of the applications (\<open>software/os-app/libs/libfixedptc\<close>): 32-bit words with
  8 fraction bits, read as signed. A division by zero and a shift by 32 or more are faults.
\<close>

section \<open>Constants and macros\<close>

type_synonym fixedpt = u32

definition FIXEDPT_FBITS :: nat where "FIXEDPT_FBITS = 8"
definition FIXEDPT_WBITS :: nat where "FIXEDPT_WBITS = 24"
definition FIXEDPT_FMASK :: fixedpt where "FIXEDPT_FMASK = push_bit FIXEDPT_FBITS 1 - 1"
definition FIXEDPT_ONE :: fixedpt where "FIXEDPT_ONE = push_bit FIXEDPT_FBITS 1"
definition FIXEDPT_ONE_HALF :: fixedpt where "FIXEDPT_ONE_HALF = signed_drop_bit 1 FIXEDPT_ONE"
definition FIXEDPT_TWO :: fixedpt where "FIXEDPT_TWO = FIXEDPT_ONE + FIXEDPT_ONE"

text \<open>\<open>fixedpt_rconst\<close> of the constant \<open>n / d\<close>, rounded to the nearest; the conversion truncates.\<close>

definition fixedpt_rconst :: "int \<Rightarrow> int \<Rightarrow> fixedpt" where
  "fixedpt_rconst n d = word_of_int ((2 * 256 * n + (if 0 \<le> n then d else - d)) sdiv (2 * d))"

definition FIXEDPT_PI :: fixedpt where "FIXEDPT_PI = fixedpt_rconst 314159265358979323846 (10 ^ 20)"
definition FIXEDPT_TWO_PI :: fixedpt where "FIXEDPT_TWO_PI = fixedpt_rconst (2 * 314159265358979323846) (10 ^ 20)"
definition FIXEDPT_HALF_PI :: fixedpt where "FIXEDPT_HALF_PI = fixedpt_rconst 314159265358979323846 (2 * 10 ^ 20)"
definition FIXEDPT_E :: fixedpt where "FIXEDPT_E = fixedpt_rconst 27182818284590452354 (10 ^ 19)"

definition fixedpt_fromint :: "u32 \<Rightarrow> u64" where
  "fixedpt_fromint i = push_bit FIXEDPT_FBITS (scast i)"
definition fixedpt_toint :: "fixedpt \<Rightarrow> u32" where
  "fixedpt_toint f = signed_drop_bit FIXEDPT_FBITS f"
definition fixedpt_add :: "fixedpt \<Rightarrow> fixedpt \<Rightarrow> fixedpt" where
  "fixedpt_add a b = a + b"
definition fixedpt_sub :: "fixedpt \<Rightarrow> fixedpt \<Rightarrow> fixedpt" where
  "fixedpt_sub a b = a - b"
definition fixedpt_fracpart :: "fixedpt \<Rightarrow> fixedpt" where
  "fixedpt_fracpart a = a AND FIXEDPT_FMASK"

section \<open>Arithmetic\<close>

text \<open>The division and the remainder of C on \<open>int\<close>.\<close>

definition int_div :: "u32 \<Rightarrow> u32 \<Rightarrow> u32 res" where
  "int_div a b = (if b = 0 then Inl Division_by_zero else Inr (word_of_int (sint a sdiv sint b)))"

definition int_rem :: "u32 \<Rightarrow> u32 \<Rightarrow> u32 res" where
  "int_rem a b = (if b = 0 then Inl Division_by_zero else Inr (word_of_int (sint a smod sint b)))"

definition fixedpt_muli :: "fixedpt \<Rightarrow> u32 \<Rightarrow> fixedpt" where
  "fixedpt_muli a b = a * b"

definition fixedpt_divi :: "fixedpt \<Rightarrow> u32 \<Rightarrow> fixedpt res" where
  "fixedpt_divi a b = int_div a b"

definition fixedpt_mul :: "fixedpt \<Rightarrow> fixedpt \<Rightarrow> fixedpt" where
  "fixedpt_mul a b = signed_drop_bit 8 (a * b)"

definition fixedpt_div :: "fixedpt \<Rightarrow> fixedpt \<Rightarrow> fixedpt res" where
  "fixedpt_div a b = rbind (int_div a b) (\<lambda>q. Inr (push_bit 8 q))"

definition fixedpt_abs :: "fixedpt \<Rightarrow> fixedpt" where
  "fixedpt_abs a = (if sint a < 0 then - a else a)"

definition fixedpt_floor :: "fixedpt \<Rightarrow> fixedpt" where
  "fixedpt_floor a = a AND 0xffffff00"

text \<open>\<open>==\<close> binds tighter than \<open>&\<close>, and so does \<open>+\<close>.\<close>

definition fixedpt_ceil :: "fixedpt \<Rightarrow> fixedpt" where
  "fixedpt_ceil a =
     (if a AND (if (0xff :: u32) = 0 then 1 else 0) \<noteq> 0 then a else a AND (0xffffff00 + FIXEDPT_ONE))"

section \<open>Text\<close>

text \<open>The digits of the whole part go through an array of 12 bytes, last digit first.\<close>

function str_int :: "u64 \<Rightarrow> nat \<Rightarrow> u8 list res" where
  "str_int ip ndec =
     (if 12 \<le> ndec then Inl Out_of_bounds
      else
        let d = 48 + ucast (ip mod 10) in
        if ip div 10 \<noteq> 0 then rbind (str_int (ip div 10) (Suc ndec)) (\<lambda>ds. Inr (ds @ [d])) else Inr [d])"
  by pat_completeness auto
termination
  by (relation "measure (\<lambda>(ip, ndec). 12 - ndec)") auto

declare str_int.simps [simp del]

definition frac_mask :: u64 where "frac_mask = push_bit 32 1 - 1"

function str_frac :: "u64 \<Rightarrow> nat \<Rightarrow> int \<Rightarrow> u8 list" where
  "str_frac fr ndec max_dec =
     (let fr = (fr AND frac_mask) * 10; d = 48 + ucast (drop_bit 32 fr mod 10) in
      if fr \<noteq> 0 \<and> int (Suc ndec) < max_dec then d # str_frac fr (Suc ndec) max_dec else [d])"
  by pat_completeness auto
termination
  by (relation "measure (\<lambda>(fr, ndec, max_dec). nat max_dec - ndec)") auto

declare str_frac.simps [simp del]

definition fixedpt_str :: "fixedpt \<Rightarrow> int \<Rightarrow> u8 list res" where
  "fixedpt_str A max_dec =
     (let max_dec = (if max_dec = - 1 then 2 else if max_dec = - 2 then 15 else max_dec);
          neg = (sint A < 0);
          A = (if neg then A * - 1 else A) in
      rbind (str_int (scast (fixedpt_toint A)) 0) (\<lambda>ip.
      let fr = scast (push_bit FIXEDPT_WBITS (fixedpt_fracpart A)) AND frac_mask;
          fs = str_frac fr 0 max_dec in
      Inr ((if neg then [chr CHR ''-''] else []) @ ip @ [chr CHR ''.''] @
        (if 1 < length fs \<and> last fs = chr CHR ''0'' then butlast fs else fs))))"

text \<open>The static buffer has 25 bytes.\<close>

definition fixedpt_cstr :: "fixedpt \<Rightarrow> int \<Rightarrow> u8 list res" where
  "fixedpt_cstr A max_dec =
     rbind (fixedpt_str A max_dec) (\<lambda>s. rbind (rassert Out_of_bounds (length s < 25)) (\<lambda>_. Inr s))"

section \<open>Functions\<close>

function sqrt_iter :: "u32 \<Rightarrow> nat \<Rightarrow> nat" where
  "sqrt_iter s iter = (if sint s > 0 then sqrt_iter (signed_drop_bit 2 s) (Suc iter) else iter)"
  by pat_completeness auto
termination
proof (relation "measure (\<lambda>(s, iter). nat (sint s))")
  fix s :: u32 and iter assume "sint s > 0"
  then show "((signed_drop_bit 2 s, Suc iter), s, iter) \<in> measure (\<lambda>(s, iter). nat (sint s))"
    by (simp add: sint_signed_drop_bit_eq drop_bit_int_def)
qed simp

declare sqrt_iter.simps [simp del]

fun newton :: "fixedpt \<Rightarrow> nat \<Rightarrow> fixedpt \<Rightarrow> fixedpt res" where
  "newton A 0 l = Inr l"
| "newton A (Suc i) l = rbind (fixedpt_div A l) (\<lambda>d. newton A i (signed_drop_bit 1 (l + d)))"

definition fixedpt_sqrt :: "fixedpt \<Rightarrow> fixedpt res" where
  "fixedpt_sqrt A =
     (if sint A < 0 then Inr (- 1)
      else if A = 0 \<or> A = FIXEDPT_ONE then Inr A
      else
        let invert = (sint A < sint FIXEDPT_ONE \<and> 6 < sint A) in
        rbind (if invert then fixedpt_div FIXEDPT_ONE A else Inr A) (\<lambda>A.
        let iter = (if sint A > sint FIXEDPT_ONE then sqrt_iter A 0 else FIXEDPT_FBITS) in
        rbind (newton A iter (signed_drop_bit 1 A + 1)) (\<lambda>l.
        if invert then fixedpt_div FIXEDPT_ONE l else Inr l)))"

definition fixedpt_sin :: "fixedpt \<Rightarrow> fixedpt res" where
  "fixedpt_sin fp =
     rbind (int_rem fp (2 * FIXEDPT_PI)) (\<lambda>fp.
     let SK0 = fixedpt_rconst 761 100000; SK1 = fixedpt_rconst 16605 100000;
         fp = (if sint fp < 0 then FIXEDPT_PI * 2 + fp else fp);
         (fp, sign) =
           (if sint fp > sint FIXEDPT_HALF_PI \<and> sint fp \<le> sint FIXEDPT_PI then (FIXEDPT_PI - fp, 1)
            else if sint fp > sint FIXEDPT_PI \<and> sint fp \<le> sint (FIXEDPT_PI + FIXEDPT_HALF_PI) then (fp - FIXEDPT_PI, - 1)
            else if sint fp > sint (FIXEDPT_PI + FIXEDPT_HALF_PI) then (push_bit 1 FIXEDPT_PI - fp, - 1)
            else (fp, 1));
         sqr = fixedpt_mul fp fp;
         result = fixedpt_mul SK0 sqr;
         result = result - SK1;
         result = fixedpt_mul result sqr;
         result = result + FIXEDPT_ONE;
         result = fixedpt_mul result fp in
     Inr (sign * result))"

definition fixedpt_cos :: "fixedpt \<Rightarrow> fixedpt res" where
  "fixedpt_cos A = fixedpt_sin (FIXEDPT_HALF_PI - A)"

definition fixedpt_tan :: "fixedpt \<Rightarrow> fixedpt res" where
  "fixedpt_tan A = rbind (fixedpt_sin A) (\<lambda>s. rbind (fixedpt_cos A) (\<lambda>c. fixedpt_div s c))"

definition LN2 :: fixedpt where "LN2 = fixedpt_rconst 69314718055994530942 (10 ^ 20)"
definition LN2_INV :: fixedpt where "LN2_INV = fixedpt_rconst 14426950408889634074 (10 ^ 19)"

definition EXP_P :: "fixedpt list" where
  "EXP_P = [fixedpt_rconst 166666666666666019037 (10 ^ 21), fixedpt_rconst (- 277777777770155933842) (10 ^ 23),
     fixedpt_rconst 661375632143793436117 (10 ^ 25), fixedpt_rconst (- 165339022054652515390) (10 ^ 26),
     fixedpt_rconst 413813679705723846039 (10 ^ 28)]"

text \<open>A shift of \<open>FIXEDPT_ONE\<close> by a variable amount.\<close>

definition shift_one :: "bool \<Rightarrow> u32 \<Rightarrow> fixedpt res" where
  "shift_one left n =
     (if 32 \<le> unat n then Inl Out_of_bounds
      else Inr (if left then push_bit (unat n) FIXEDPT_ONE else signed_drop_bit (unat n) FIXEDPT_ONE))"

definition fixedpt_exp :: "fixedpt \<Rightarrow> fixedpt res" where
  "fixedpt_exp fp =
     (if fp = 0 then Inr FIXEDPT_ONE
      else
        let xabs = fixedpt_abs fp;
            k = fixedpt_mul xabs LN2_INV;
            k = k + FIXEDPT_ONE_HALF;
            k = k AND NOT FIXEDPT_FMASK;
            k = (if sint fp < 0 then - k else k);
            fp = fp - fixedpt_mul k LN2;
            z = fixedpt_mul fp fp;
            R = FIXEDPT_TWO + fixedpt_mul z (EXP_P ! 0 + fixedpt_mul z (EXP_P ! 1 + fixedpt_mul z (EXP_P ! 2 +
                  fixedpt_mul z (EXP_P ! 3 + fixedpt_mul z (EXP_P ! 4))))) in
        rbind (fixedpt_div (fixedpt_mul fp FIXEDPT_TWO) (R - fp)) (\<lambda>q.
        let xp = FIXEDPT_ONE + q in
        rbind (if sint k < 0 then shift_one False (signed_drop_bit FIXEDPT_FBITS (- k))
               else shift_one True (signed_drop_bit FIXEDPT_FBITS k)) (\<lambda>k.
        Inr (fixedpt_mul k xp))))"

definition LG :: "fixedpt list" where
  "LG = [fixedpt_rconst 6666666666666735130 (10 ^ 19), fixedpt_rconst 3999999999940941908 (10 ^ 19),
     fixedpt_rconst 2857142874366239149 (10 ^ 19), fixedpt_rconst 2222219843214978396 (10 ^ 19),
     fixedpt_rconst 1818357216161805012 (10 ^ 19), fixedpt_rconst 1531383769920937332 (10 ^ 19),
     fixedpt_rconst 1479819860511658591 (10 ^ 19)]"

function ln_scale :: "fixedpt \<Rightarrow> u32 \<Rightarrow> fixedpt \<times> u32" where
  "ln_scale xi log2 = (if sint xi > sint FIXEDPT_TWO then ln_scale (signed_drop_bit 1 xi) (log2 + 1) else (xi, log2))"
  by pat_completeness auto
termination
proof (relation "measure (\<lambda>(xi, log2). nat (sint xi))")
  fix xi log2 :: u32 assume "sint xi > sint FIXEDPT_TWO"
  then have "sint xi > 0" by (simp add: FIXEDPT_TWO_def FIXEDPT_ONE_def FIXEDPT_FBITS_def)
  then show "((signed_drop_bit 1 xi, log2 + 1), xi, log2) \<in> measure (\<lambda>(xi, log2). nat (sint xi))"
    by (simp add: sint_signed_drop_bit_eq drop_bit_int_def)
qed simp

declare ln_scale.simps [simp del]

definition fixedpt_ln :: "fixedpt \<Rightarrow> fixedpt res" where
  "fixedpt_ln x =
     (if sint x < 0 then Inr 0
      else if x = 0 then Inr 0xffffffff
      else case ln_scale x 0 of (xi, log2) \<Rightarrow>
        let f = xi - FIXEDPT_ONE in
        rbind (fixedpt_div f (FIXEDPT_TWO + f)) (\<lambda>s.
        let z = fixedpt_mul s s;
            w = fixedpt_mul z z;
            R = fixedpt_mul w (LG ! 1 + fixedpt_mul w (LG ! 3 + fixedpt_mul w (LG ! 5))) +
                fixedpt_mul z (LG ! 0 + fixedpt_mul w (LG ! 2 + fixedpt_mul w (LG ! 4 + fixedpt_mul w (LG ! 6)))) in
        Inr (fixedpt_mul LN2 (push_bit FIXEDPT_FBITS log2) + f - fixedpt_mul s (f - R))))"

definition fixedpt_log :: "fixedpt \<Rightarrow> fixedpt \<Rightarrow> fixedpt res" where
  "fixedpt_log x base = rbind (fixedpt_ln x) (\<lambda>a. rbind (fixedpt_ln base) (\<lambda>b. fixedpt_div a b))"

definition fixedpt_pow :: "fixedpt \<Rightarrow> fixedpt \<Rightarrow> fixedpt res" where
  "fixedpt_pow n e =
     (if e = 0 then Inr FIXEDPT_ONE
      else if sint n < 0 then Inr 0
      else rbind (fixedpt_ln n) (\<lambda>l. fixedpt_exp (fixedpt_mul l e)))"

section \<open>Arithmetic: lemmas\<close>

lemma sint_word_of_int:
  assumes "- (2 ^ 31) \<le> k" and "k < 2 ^ 31"
  shows "sint (word_of_int k :: u32) = k"
  using assms by (simp add: signed_of_int signed_take_bit_int_eq_self)

lemma sint_mul:
  assumes "- (2 ^ 31) \<le> sint a * sint b" and "sint a * sint b < 2 ^ 31"
  shows "sint (a * b :: u32) = sint a * sint b"
proof -
  have "a * b = word_of_int (sint a * sint b)" by simp
  then show ?thesis using sint_word_of_int [OF assms] by simp
qed

lemma fixedpt_mul_value:
  assumes "- (2 ^ 31) \<le> sint a * sint b" and "sint a * sint b < 2 ^ 31"
  shows "sint (fixedpt_mul a b) = sint a * sint b div 256"
  using sint_mul [OF assms] by (simp add: fixedpt_mul_def sint_signed_drop_bit_eq drop_bit_int_def)

lemma fixedpt_div_value:
  assumes "b \<noteq> 0" and "- (2 ^ 23) \<le> sint a sdiv sint b" and "sint a sdiv sint b < 2 ^ 23"
  shows "\<exists>q. fixedpt_div a b = Inr q \<and> sint q = 256 * (sint a sdiv sint b)"
proof -
  have "push_bit 8 (word_of_int (sint a sdiv sint b) :: u32) = word_of_int (256 * (sint a sdiv sint b))"
    by (simp add: push_bit_eq_mult)
  moreover have "sint (word_of_int (256 * (sint a sdiv sint b)) :: u32) = 256 * (sint a sdiv sint b)"
    using assms(2,3) by (intro sint_word_of_int) simp_all
  ultimately show ?thesis using assms(1) by (simp add: fixedpt_div_def int_div_def)
qed

lemma fixedpt_ceil_zero: "fixedpt_ceil a = 0"
proof -
  have "(0xffffff00 :: u32) + FIXEDPT_ONE = 0" by (simp add: FIXEDPT_ONE_def FIXEDPT_FBITS_def)
  then show ?thesis by (simp add: fixedpt_ceil_def)
qed

lemma fixedpt_floor_value: "sint (fixedpt_floor a) = 256 * (sint a div 256)"
proof -
  have "fixedpt_floor a = push_bit 8 (signed_drop_bit 8 a)"
  proof (rule bit_word_eqI)
    fix n assume n: "n < LENGTH(32)"
    have e: "0xffffff00 = (NOT (mask 8) :: u32)" by (simp add: mask_eq_exp_minus_1)
    have m: "bit (0xffffff00 :: u32) n \<longleftrightarrow> 8 \<le> n" unfolding e using n by (simp add: bit_simps not_less)
    have "n - 8 + 8 = n" if "8 \<le> n" using that by simp
    then show "bit (fixedpt_floor a) n = bit (push_bit 8 (signed_drop_bit 8 a)) n"
      using n m by (auto simp: fixedpt_floor_def bit_simps)
  qed
  also have "\<dots> = word_of_int (256 * (sint a div 256))"
  proof -
    have e: "sint (signed_drop_bit 8 a) = sint a div 256" by (simp add: sint_signed_drop_bit_eq drop_bit_int_def)
    have "word_of_int (sint (signed_drop_bit 8 a)) = signed_drop_bit 8 a" by simp
    then have "signed_drop_bit 8 a = word_of_int (sint a div 256)" unfolding e by (rule sym)
    then show ?thesis by (simp add: push_bit_eq_mult)
  qed
  finally have "fixedpt_floor a = word_of_int (256 * (sint a div 256))" .
  moreover have "- 2147483648 \<le> sint a" "sint a < 2147483648" using sint_range_size [of a] by (auto simp: word_size)
  then have "- 2147483648 \<le> 256 * (sint a div 256) \<and> 256 * (sint a div 256) < 2147483648" by presburger
  ultimately show ?thesis using sint_word_of_int [of "256 * (sint a div 256)"] by (simp only:) simp
qed


section \<open>Text: lemmas\<close>

definition digit_values :: "u8 list \<Rightarrow> nat list" where
  "digit_values = map (\<lambda>c. unat c - 48)"

definition digit_text :: "u8 list \<Rightarrow> bool" where
  "digit_text ds \<longleftrightarrow> (\<forall>c \<in> set ds. 48 \<le> unat c \<and> unat c < 58)"

definition decimal_value :: "u8 list \<Rightarrow> nat" where
  "decimal_value ds = foldl (\<lambda>a d. 10 * a + d) 0 (digit_values ds)"

lemma decimal_value_snoc: "decimal_value (ds @ [c]) = 10 * decimal_value ds + (unat c - 48)"
  by (simp add: decimal_value_def digit_values_def)

lemma decimal_value_Nil [simp]: "decimal_value [] = 0"
  by (simp add: decimal_value_def digit_values_def)

lemma foldl_decimal: "foldl (\<lambda>a d. 10 * a + d) a ds = a * 10 ^ length ds + foldl (\<lambda>a d. 10 * a + d) (0 :: nat) ds"
proof (induction ds arbitrary: a)
  case (Cons d ds)
  show ?case unfolding foldl_Cons by (subst (1 2) Cons.IH) (simp add: algebra_simps)
qed simp

lemma decimal_value_Cons: "decimal_value (c # ds) = (unat c - 48) * 10 ^ length ds + decimal_value ds"
  using foldl_decimal [of "unat c - 48" "digit_values ds"] by (simp add: decimal_value_def digit_values_def)

lemma digit_char:
  assumes "x < 10"
  shows "unat (48 + ucast (x :: u64) :: u8) = 48 + unat x"
proof -
  have x: "unat x < 10" using assms by (simp add: word_less_nat_alt)
  have "unat (ucast x :: u8) = unat x" using x by (simp add: unsigned_ucast_eq take_bit_nat_eq_self)
  then show ?thesis using x by (subst unat_add_lem [THEN iffD1]) auto
qed

lemma mod10_less: "(x :: u64) mod 10 < 10"
  by (simp add: word_mod_less_divisor)

lemma str_int_value:
  assumes "unat ip < 10 ^ k" and "n + k \<le> 12" and "0 < k"
  shows "\<exists>ds. str_int ip n = Inr ds \<and> digit_text ds \<and> decimal_value ds = unat ip \<and> ds \<noteq> [] \<and> length ds \<le> k \<and>
    (1 < length ds \<longrightarrow> hd ds \<noteq> 48)"
  using assms
proof (induction k arbitrary: ip n)
  case (Suc k)
  let ?d = "48 + ucast (ip mod 10) :: u8"
  have d: "unat ?d = 48 + unat ip mod 10" by (simp add: digit_char [OF mod10_less] unat_mod)
  have n: "\<not> 12 \<le> n" using Suc.prems by simp
  have q: "unat (ip div 10) = unat ip div 10" by (simp add: unat_div)
  show ?case
  proof (cases "ip div 10 = 0")
    case True
    then have "unat ip div 10 = 0" using q by simp
    then have "unat ip mod 10 = unat ip" by simp
    then show ?thesis using True n d by (simp add: str_int.simps [of ip n] digit_text_def decimal_value_def digit_values_def)
  next
    case False
    have nz: "unat ip div 10 \<noteq> 0" using False q by (metis unsigned_eq_0_iff)
    have "0 < k" using Suc.prems nz by (cases k) auto
    moreover have "unat (ip div 10) < 10 ^ k" using Suc.prems(1) q by (simp add: less_mult_imp_div_less mult.commute)
    ultimately obtain ds where ds: "str_int (ip div 10) (Suc n) = Inr ds" "digit_text ds" "decimal_value ds = unat ip div 10"
      "ds \<noteq> []" "length ds \<le> k" "1 < length ds \<longrightarrow> hd ds \<noteq> 48"
      using Suc.IH [of "ip div 10" "Suc n"] Suc.prems q by auto
    have "hd ds \<noteq> 48"
    proof (cases "1 < length ds")
      case False
      then obtain c where "ds = [c]" using ds(4) by (cases ds) auto
      then show ?thesis using ds(3) nz by (auto simp: decimal_value_def digit_values_def)
    qed (use ds in simp)
    moreover have "str_int ip n = Inr (ds @ [?d])" using False n ds(1) by (simp add: str_int.simps [of ip n] Let_def)
    ultimately show ?thesis using ds d by (auto simp: decimal_value_snoc digit_text_def)
  qed
qed simp


lemma frac_mask_and: "unat (fr AND frac_mask) = unat fr mod 2 ^ 32"
proof -
  have e: "frac_mask = mask 32" by (simp add: frac_mask_def mask_eq_exp_minus_1)
  show ?thesis unfolding e
    by (simp only: take_bit_eq_mask [symmetric] unsigned_take_bit_eq take_bit_eq_mod [where 'a = nat])
qed

lemma str_frac_value:
  assumes "unat (fr AND frac_mask) = r * 2 ^ 24" and "r < 256" and "ds = str_frac fr n d"
  shows "digit_text ds \<and> (\<exists>r' < 256. r * 10 ^ length ds = decimal_value ds * 256 + r') \<and>
    1 \<le> length ds \<and> (length ds \<le> 1 \<or> int (n + length ds) \<le> d)"
  using assms
proof (induction fr n d arbitrary: r ds rule: str_frac.induct)
  case (1 fr n d)
  define fr' where "fr' = (fr AND frac_mask) * 10"
  define q where "q = 10 * r div 256"
  define r1 where "r1 = 10 * r mod 256"
  have r: "10 * r = q * 256 + r1" "r1 < 256" "q < 10"
    unfolding q_def r1_def by (rule div_mult_mod_eq [symmetric], simp, use 1(3) in linarith)
  have fr: "unat fr' = 10 * r * 2 ^ 24" unfolding fr'_def
    using 1(2,3) by (subst unat_mult_lem [THEN iffD1]) (auto simp: 1(2))
  let ?c = "48 + ucast (drop_bit 32 fr' mod 10) :: u8"
  have "unat (drop_bit 32 fr') = 10 * r * 2 ^ 24 div 2 ^ 32"
    by (simp only: unsigned_drop_bit_eq fr drop_bit_eq_div [where 'a = nat]) (use 1(3) in \<open>simp add: take_bit_nat_eq_self\<close>)
  also have "\<dots> = q" unfolding q_def by simp
  finally have c: "unat ?c = 48 + q" using r(3) by (simp add: digit_char [OF mod10_less] unat_mod)
  have next_r: "unat (fr' AND frac_mask) = r1 * 2 ^ 24" unfolding r1_def
    using mod_mult_mult2 [of "10 * r" "2 ^ 24" 256] by (simp add: frac_mask_and fr)
  show ?case
  proof (cases "fr' \<noteq> 0 \<and> int (Suc n) < d")
    case True
    let ?es = "str_frac fr' (Suc n) d"
    have ds: "ds = ?c # ?es" using True 1(4) by (simp add: str_frac.simps [of fr n d] Let_def flip: fr'_def)
    obtain r' where e: "digit_text ?es" "r' < 256" "r1 * 10 ^ length ?es = decimal_value ?es * 256 + r'"
      "1 \<le> length ?es" "length ?es \<le> 1 \<or> int (Suc n + length ?es) \<le> d"
      using 1(1) [OF fr'_def refl True next_r r(2) refl] by auto
    have "r * 10 ^ length ds = (q * 256 + r1) * 10 ^ length ?es" using r(1) by (simp add: ds)
    also have "\<dots> = decimal_value ds * 256 + r'"
      using e(3) c by (simp add: ds decimal_value_Cons algebra_simps)
    finally have "r * 10 ^ length ds = decimal_value ds * 256 + r'" .
    then show ?thesis using e c r(3) True by (auto simp: ds digit_text_def)
  next
    case False
    then have ds: "ds = [?c]" using 1(4) by (auto simp: str_frac.simps [of fr n d] Let_def fr'_def [symmetric])
    have "r * 10 ^ length ds = decimal_value ds * 256 + r1"
      using c r(1) by (simp add: ds decimal_value_def digit_values_def)
    then show ?thesis using c r by (auto simp: ds digit_text_def)
  qed
qed

text \<open>The parts of a number: its absolute value, the whole part and the fraction.\<close>

lemma abs_word:
  assumes "A \<noteq> (0x80000000 :: u32)" and "B = (if sint A < 0 then A * - 1 else A)" and "n = nat \<bar>sint A\<bar>"
  shows "n < 2147483648" "sint B = int n" "unat B = n"
proof -
  have rng: "- 2147483648 \<le> sint A" "sint A < 2147483648" using sint_range_size [of A] by (auto simp: word_size)
  have ne: "sint A \<noteq> - 2147483648"
  proof
    assume s: "sint A = - 2147483648"
    have "word_of_int (sint A) = A" by simp
    then show False using assms(1) unfolding s by simp
  qed
  show n: "n < 2147483648" using ne rng by (simp add: assms(3))
  have "sint (word_of_int (- sint A) :: u32) = - sint A" using rng ne by (intro sint_word_of_int) auto
  then show B: "sint B = int n" by (simp add: assms(2,3))
  have "word_of_int (sint B) = B" by simp
  then have "B = of_nat n" unfolding B by simp
  then show "unat B = n" using n by (simp add: unsigned_of_nat take_bit_nat_eq_self)
qed

lemma whole_part:
  assumes "n < 2147483648" and "sint B = int n"
  shows "unat (scast (fixedpt_toint B) :: u64) = n div 256"
proof -
  have "sint (fixedpt_toint B) = int (n div 256)"
    by (simp add: fixedpt_toint_def FIXEDPT_FBITS_def sint_signed_drop_bit_eq drop_bit_int_def assms(2) zdiv_int)
  then have e: "(scast (fixedpt_toint B) :: u64) = of_nat (n div 256)" by (simp add: scast_eq)
  have "n div 256 < 2 ^ 64" using assms(1) by simp
  then show ?thesis unfolding e by (simp only: unsigned_of_nat) (simp add: take_bit_nat_eq_self)
qed

lemma frac_mask_scast: "(scast w AND frac_mask) AND frac_mask = (ucast (w :: u32) :: u64)"
proof -
  have e: "frac_mask = mask 32" by (simp add: frac_mask_def mask_eq_exp_minus_1)
  show ?thesis unfolding e
  proof (rule bit_word_eqI)
    fix i
    have "bit w i \<Longrightarrow> i < 32" using bit_imp_le_length [of w i] by simp
    moreover have "i < 32 \<Longrightarrow> 31 \<le> i \<Longrightarrow> i = 31" by linarith
    ultimately show "bit ((scast w AND mask 32) AND mask 32 :: u64) i = bit (ucast w :: u64) i"
      by (cases "i = 31") (auto simp: bit_simps min_def)
  qed
qed

lemma frac_part:
  assumes "unat B = n"
  shows "unat ((scast (push_bit FIXEDPT_WBITS (fixedpt_fracpart B)) AND frac_mask) AND frac_mask) = n mod 256 * 2 ^ 24"
proof -
  have "push_bit FIXEDPT_WBITS (fixedpt_fracpart B) = push_bit 24 (take_bit 8 B)"
    by (simp add: fixedpt_fracpart_def FIXEDPT_FMASK_def FIXEDPT_FBITS_def FIXEDPT_WBITS_def take_bit_eq_mask mask_eq_exp_minus_1)
  then have "unat ((scast (push_bit FIXEDPT_WBITS (fixedpt_fracpart B)) AND frac_mask) AND frac_mask) = unat (push_bit 24 (take_bit 8 B))"
    unfolding frac_mask_scast unat_ucast_u64 by (rule arg_cong)
  moreover have "unat (take_bit 8 B) = n mod 256"
    by (simp only: unsigned_take_bit_eq take_bit_eq_mod [where 'a = nat] assms) simp
  moreover have "n mod 256 * 2 ^ 24 < 2 ^ 32" by (simp add: less_mult_imp_div_less)
  ultimately show ?thesis
    by (simp only: unsigned_push_bit_eq push_bit_eq_mult [where 'a = nat]) (simp add: take_bit_nat_eq_self)
qed

text \<open>The digits after the point without a last zero are still the expansion, cut off.\<close>

lemma cut_zero:
  assumes "digit_text fs" and "r' < 256" and "r * 10 ^ length fs = decimal_value fs * 256 + r'" and "1 \<le> length fs"
    and "length fs \<le> 1 \<or> int (length fs) \<le> d" and "0 < d" and "gs = (if 1 < length fs \<and> last fs = 48 then butlast fs else fs)"
  shows "digit_text gs \<and> 1 \<le> length gs \<and> int (length gs) \<le> d \<and>
    decimal_value gs * 256 \<le> r * 10 ^ length gs \<and> r * 10 ^ length gs < (decimal_value gs + 1) * 256"
proof (cases "1 < length fs \<and> last fs = 48")
  case False
  then show ?thesis using assms by auto
next
  case True
  then have fs: "fs = gs @ [48]" by (cases fs rule: rev_cases) (auto simp: assms(7))
  define X where "X = r * 10 ^ length gs"
  have "X * 10 = decimal_value gs * 256 * 10 + r'"
    using assms(3) by (simp add: fs decimal_value_snoc algebra_simps X_def)
  then have "decimal_value gs * 256 \<le> X \<and> X < (decimal_value gs + 1) * 256" using assms(2) by (simp add: algebra_simps)
  then have "decimal_value gs * 256 \<le> r * 10 ^ length gs" "r * 10 ^ length gs < (decimal_value gs + 1) * 256"
    unfolding X_def by blast+
  then show ?thesis using assms(1,4,5) True fs by (cases gs) (auto simp: digit_text_def)
qed

text \<open>C25: The decimal text of a fixed-point number: a sign, the digits of the whole part without leading
  zeros, a point, and between one and the asked number of digits that are the decimal expansion of
  the fraction, cut off (not rounded).\<close>

theorem fixedpt_str_correct:
  assumes "A \<noteq> 0x80000000" and "0 < d"
  shows "\<exists>ip fs. fixedpt_str A d = Inr ((if sint A < 0 then [45] else []) @ ip @ [46] @ fs) \<and>
    digit_text ip \<and> decimal_value ip = nat \<bar>sint A\<bar> div 256 \<and> (1 < length ip \<longrightarrow> hd ip \<noteq> 48) \<and>
    digit_text fs \<and> 1 \<le> length fs \<and> int (length fs) \<le> d \<and>
    decimal_value fs * 256 \<le> nat \<bar>sint A\<bar> mod 256 * 10 ^ length fs \<and>
    nat \<bar>sint A\<bar> mod 256 * 10 ^ length fs < (decimal_value fs + 1) * 256"
proof -
  define B where "B = (if sint A < 0 then A * - 1 else A)"
  define n where "n = nat \<bar>sint A\<bar>"
  note B = abs_word [OF assms(1) B_def n_def]
  let ?fr = "scast (push_bit FIXEDPT_WBITS (fixedpt_fracpart B)) AND frac_mask :: u64"
  have small: "n div 256 < 10 ^ 7" using B(1) by (simp add: less_mult_imp_div_less)
  obtain ds where ds: "str_int (scast (fixedpt_toint B)) 0 = Inr ds" "digit_text ds" "decimal_value ds = n div 256"
    "1 < length ds \<longrightarrow> hd ds \<noteq> 48"
    using str_int_value [of "scast (fixedpt_toint B)" 7 0] whole_part [OF B(1,2)] small by auto
  define fs where "fs = str_frac ?fr 0 d"
  obtain r' where f: "digit_text fs" "r' < 256" "n mod 256 * 10 ^ length fs = decimal_value fs * 256 + r'"
    "1 \<le> length fs" "length fs \<le> 1 \<or> int (length fs) \<le> d"
    using str_frac_value [OF frac_part [OF B(3)] _ fs_def] by auto
  define gs where "gs = (if 1 < length fs \<and> last fs = 48 then butlast fs else fs)"
  have run: "fixedpt_str A d = Inr ((if sint A < 0 then [45] else []) @ ds @ [46] @ gs)"
    using assms(2) ds(1) by (simp add: fixedpt_str_def Let_def B_def gs_def fs_def)
  note gs = cut_zero [OF f assms(2) gs_def]
  show ?thesis
    by (rule exI [of _ ds], rule exI [of _ gs]) (use run ds gs in \<open>simp add: n_def\<close>)
qed

lemma fixedpt_str_correct_witness:
  "\<exists>ip fs. fixedpt_str (- 804) 2 = Inr ([45] @ ip @ [46] @ fs) \<and> decimal_value ip = 3 \<and>
     decimal_value fs * 256 \<le> 36 * 10 ^ length fs \<and> 36 * 10 ^ length fs < (decimal_value fs + 1) * 256"
proof -
  have a: "(- 804 :: u32) \<noteq> 0x80000000" "sint (- 804 :: u32) = - 804" "(0 :: int) < 2" by simp_all
  show ?thesis using fixedpt_str_correct [OF a(1,3)] by (simp add: a(2)) blast
qed

text \<open>C38: Products are those of the fractions, rounded down, as long as the product of the words fits into
  32 bits; quotients lose their fraction: they are whole numbers; \<open>floor\<close> is right and \<open>ceil\<close> is 0 for
  every number.\<close>

theorem fixedpt_arith_correct:
  assumes "- (2 ^ 31) \<le> sint a * sint b" and "sint a * sint b < 2 ^ 31"
    and "d \<noteq> 0" and "- (2 ^ 23) \<le> sint a sdiv sint d" and "sint a sdiv sint d < 2 ^ 23"
  shows "sint (fixedpt_mul a b) = sint a * sint b div 256 \<and>
    (\<exists>q. fixedpt_div a d = Inr q \<and> sint q = 256 * (sint a sdiv sint d)) \<and>
    sint (fixedpt_floor a) = 256 * (sint a div 256) \<and> fixedpt_ceil a = 0"
  using fixedpt_mul_value [OF assms(1,2)] fixedpt_div_value [OF assms(3-5)] fixedpt_floor_value fixedpt_ceil_zero by blast

lemma fixedpt_arith_correct_witness:
  "sint (fixedpt_mul 384 (- 128)) = - 192 \<and> (\<exists>q. fixedpt_div 384 512 = Inr q \<and> sint q = 0) \<and>
   sint (fixedpt_floor 384) = 256 \<and> fixedpt_ceil 384 = 0"
  using fixedpt_arith_correct [of 384 "- 128" 512] by (simp add: signed_divide_int_def)

end
