(* ===== verification/Lib_Sdl.thy ===== *)
theory Lib_Sdl
  imports Os_Traps "HOL-Library.Signed_Division"
begin

text \<open>
  The libraries the applications draw and read keys with: the system call stubs
  (\<open>libs/libos/src/syscall.c\<close>), the display library (\<open>libs/libndl/NDL.c\<close>), the part of SDL that is
  there (\<open>libs/libSDL/src\<close>) and the bitmap reader (\<open>libs/libbmp\<close>). Pixels are words in memory. The C
  library below (newlib: allocation, streams, the environment) is a parameter.
\<close>

section \<open>The C library\<close>

text \<open>A stream is a number, 0 the null pointer. \<open>fscanf2\<close> reads a format with two \<open>%d\<close> and gives the
  values it assigns.\<close>

record SDL_PixelFormat =
  palette_at :: u32
  palette_size :: "u32 option"
  colors :: u32
  BitsPerPixel :: u8
  BytesPerPixel :: u8
  Rloss :: u8
  Gloss :: u8
  Bloss :: u8
  Aloss :: u8
  Rshift :: u8
  Gshift :: u8
  Bshift :: u8
  Ashift :: u8
  Rmask :: u32
  Gmask :: u32
  Bmask :: u32
  Amask :: u32

record clib =
  env_of :: kenv
  user_hart :: hart
  malloc :: "u32 \<Rightarrow> (u32, os) prog"
  free :: "u32 \<Rightarrow> (unit, os) prog"
  nwm_app :: bool
  fopen :: "u8 list \<Rightarrow> (u32, os) prog"
  fread :: "u32 \<Rightarrow> u32 \<Rightarrow> u32 \<Rightarrow> u32 \<Rightarrow> (u32, os) prog"
  fseek :: "u32 \<Rightarrow> u32 \<Rightarrow> (unit, os) prog"
  fclose :: "u32 \<Rightarrow> (unit, os) prog"
  fscanf2 :: "u32 \<Rightarrow> u8 list \<Rightarrow> (u32 option \<times> u32 option, os) prog"
  str_buf :: u32
  junk_format :: SDL_PixelFormat
  junk :: u32

definition lib_assert :: "bool \<Rightarrow> (unit, 's) prog" where
  "lib_assert c s = (if c then Returns () s else Faulted Assertion)"

section \<open>System call stubs\<close>

text \<open>The registers of the program at the \<open>ecall\<close> are those of \<open>user_hart\<close> but for the arguments.\<close>

definition syscall_hart :: "clib \<Rightarrow> u32 \<Rightarrow> u32 \<Rightarrow> u32 \<Rightarrow> u32 \<Rightarrow> hart" where
  "syscall_hart cl type a0 a1 a2 = (user_hart cl)\<lparr>
     hart_x := (hart_x (user_hart cl))[17 := type, 10 := a0, 11 := a1, 12 := a2], hart_mcause := 0xb\<rparr>"

definition syscall :: "clib \<Rightarrow> u32 \<Rightarrow> u32 \<Rightarrow> u32 \<Rightarrow> u32 \<Rightarrow> (u32, os) prog" where
  "syscall cl type a0 a1 a2 =
     gbind (trap (env_of cl) (syscall_hart cl type a0 a1 a2)) (\<lambda>h. Returns (hart_x h ! 10))"

text \<open>The loop behind the call of \<open>_exit\<close> is not reached when the call halts the machine.\<close>

definition sys_exit :: "clib \<Rightarrow> u32 \<Rightarrow> ('a, os) prog" where
  "sys_exit cl status = gbind (syscall cl 0 status 0 0) (\<lambda>_ _. Faulted Panic)"

definition sys_open :: "clib \<Rightarrow> u32 \<Rightarrow> u32 \<Rightarrow> u32 \<Rightarrow> (u32, os) prog" where
  "sys_open cl path flags mode = syscall cl 2 path flags mode"
definition sys_write :: "clib \<Rightarrow> u32 \<Rightarrow> u32 \<Rightarrow> u32 \<Rightarrow> (u32, os) prog" where
  "sys_write cl fd buf count = syscall cl 4 fd buf count"
definition sys_read :: "clib \<Rightarrow> u32 \<Rightarrow> u32 \<Rightarrow> u32 \<Rightarrow> (u32, os) prog" where
  "sys_read cl fd buf count = syscall cl 3 fd buf count"
definition sys_close :: "clib \<Rightarrow> u32 \<Rightarrow> (u32, os) prog" where
  "sys_close cl fd = syscall cl 7 fd 0 0"
definition sys_lseek :: "clib \<Rightarrow> u32 \<Rightarrow> u32 \<Rightarrow> u32 \<Rightarrow> (u32, os) prog" where
  "sys_lseek cl fd offset whence = syscall cl 8 fd offset whence"
definition sys_time :: "clib \<Rightarrow> u32 \<Rightarrow> u32 \<Rightarrow> (u32, os) prog" where
  "sys_time cl tv tz = syscall cl 19 tv tz 0"
definition sys_execve :: "clib \<Rightarrow> u32 \<Rightarrow> u32 \<Rightarrow> u32 \<Rightarrow> (u32, os) prog" where
  "sys_execve cl fname argv envp = gbind (syscall cl 13 fname argv envp) (\<lambda>_. Returns 0)"

text \<open>\<open>_sbrk\<close> with the program break of the process as its state.\<close>

definition sbrk :: "clib \<Rightarrow> u32 \<Rightarrow> u32 \<Rightarrow> (u32 \<times> u32, os) prog" where
  "sbrk cl increment prg_break =
     gbind (syscall cl 9 (prg_break + increment) 0 0) (\<lambda>r.
     if r = 0 then Returns (prg_break, prg_break + increment) else (\<lambda>_. Faulted Assertion))"

text \<open>\<open>_kill\<close> and \<open>_getpid\<close> exit with the negated call number; the other stubs fail an assertion or
  return \<open>-1\<close>.\<close>

definition sys_kill :: "clib \<Rightarrow> (u32, os) prog" where
  "sys_kill cl = sys_exit cl (- 5)"
definition sys_getpid :: "clib \<Rightarrow> (u32, os) prog" where
  "sys_getpid cl = sys_exit cl (- 6)"
definition sys_missing :: "(u32, os) prog" where
  "sys_missing = gbind (lib_assert False) (\<lambda>_. Returns (- 1))"
definition sys_dummy :: "(u32, os) prog" where
  "sys_dummy = Returns (- 1)"

section \<open>Display\<close>

text \<open>The static variables of \<open>NDL.c\<close> above the operating system.\<close>

record app =
  os_of :: os
  evtdev :: u32
  fbdev :: u32
  screen_w :: u32
  screen_h :: u32
  canvas_w :: u32
  canvas_h :: u32

definition app_start :: "os \<Rightarrow> app" where
  "app_start st = \<lparr>os_of = st, evtdev = - 1, fbdev = - 1, screen_w = 0, screen_h = 0, canvas_w = 0, canvas_h = 0\<rparr>"

definition on_os :: "('a, os) prog \<Rightarrow> ('a, app) prog" where
  "on_os = gzoom os_of (\<lambda>st a. a\<lparr>os_of := st\<rparr>)"

definition set_app :: "(app \<Rightarrow> app) \<Rightarrow> (unit, app) prog" where
  "set_app f a = Returns () (f a)"

text \<open>A literal string of the program, put at a place of its own before the call that gets it.\<close>

definition with_str :: "clib \<Rightarrow> u8 list \<Rightarrow> (u32 \<Rightarrow> ('a, os) prog) \<Rightarrow> ('a, os) prog" where
  "with_str cl s f = gbind (on_hw (mem_put (str_buf cl) (s @ [0]))) (\<lambda>_. f (str_buf cl))"

definition NDL_GetTicks :: "clib \<Rightarrow> u32 \<Rightarrow> (u32, app) prog" where
  "NDL_GetTicks cl tv =
     on_os (gbind (sys_time cl tv 0) (\<lambda>_.
       gbind (ld32 tv) (\<lambda>sec. gbind (ld32 (tv + tv_usec_at (env_of cl))) (\<lambda>usec.
         Returns (sec * 1000 + word_of_int (sint usec sdiv 1000))))))"

definition NDL_PollEvent :: "clib \<Rightarrow> u32 \<Rightarrow> u32 \<Rightarrow> (u32, app) prog" where
  "NDL_PollEvent cl buf len =
     on_os (gbind (fopen cl (cstr ''/dev/events'')) (\<lambda>fd.
       gbind (fread cl buf 1 len fd) (\<lambda>ans.
       gbind (fclose cl fd) (\<lambda>_. Returns ans))))"

text \<open>Waiting for the window manager to answer; \<open>n\<close> bounds the number of reads.\<close>

fun nwm_wait :: "clib \<Rightarrow> u32 \<Rightarrow> nat \<Rightarrow> (unit, os) prog" where
  "nwm_wait cl buf 0 = (\<lambda>_. Faulted Panic)"
| "nwm_wait cl buf (Suc n) =
     gbind (sys_read cl 3 buf 63) (\<lambda>nread.
     if sint nread \<le> 0 then nwm_wait cl buf n
     else
       gbind (on_hw (mem_put (buf + nread) [0])) (\<lambda>_.
       gbind (ld_str buf) (\<lambda>s. if s = cstr ''mmap ok'' then Returns () else nwm_wait cl buf n)))"

definition NDL_OpenCanvas :: "clib \<Rightarrow> nat \<Rightarrow> u32 \<Rightarrow> u32 \<Rightarrow> u32 \<Rightarrow> (u32 \<times> u32, app) prog" where
  "NDL_OpenCanvas cl n buf w h =
     gbind (if nwm_app cl then
         gbind (set_app (\<lambda>a. a\<lparr>fbdev := 5, screen_w := w, screen_h := h\<rparr>)) (\<lambda>_.
         on_os (gbind (on_hw (sprintf buf (cstr ''%d %d'') [VWord w, VWord h])) (\<lambda>len.
           gbind (sys_write cl 4 buf len) (\<lambda>_.
           gbind (nwm_wait cl buf n) (\<lambda>_.
           gbind (sys_close cl 4) (\<lambda>_. Returns ()))))))
       else Returns ()) (\<lambda>_.
     gbind (on_os (fopen cl (cstr ''/proc/dispinfo''))) (\<lambda>fd.
     gbind (on_os (fscanf2 cl fd (cstr ''WIDTH: %d'' @ [10] @ cstr ''HEIGHT: %d'' @ [10]))) (\<lambda>(sw, sh).
     gbind (set_app (\<lambda>a. a\<lparr>screen_w := (case sw of None \<Rightarrow> screen_w a | Some x \<Rightarrow> x),
       screen_h := (case sh of None \<Rightarrow> screen_h a | Some x \<Rightarrow> x)\<rparr>)) (\<lambda>_.
     gbind (\<lambda>a. let (w', h') = (if w = 0 \<and> h = 0 then (screen_w a, screen_h a) else (w, h)) in
       Returns (w', h') (a\<lparr>canvas_w := w', canvas_h := h'\<rparr>)) (\<lambda>wh.
     gbind (on_os (fclose cl fd)) (\<lambda>_. Returns wh))))))"

text \<open>Half of a difference of sizes, rounded to zero.\<close>

definition half_int :: "u32 \<Rightarrow> u32" where
  "half_int x = word_of_int (sint x sdiv 2)"

definition NDL_DrawRect :: "clib \<Rightarrow> u32 \<Rightarrow> u32 \<Rightarrow> u32 \<Rightarrow> u32 \<Rightarrow> u32 \<Rightarrow> (unit, app) prog" where
  "NDL_DrawRect cl pixels x y w h =
     gbind (on_os (with_str cl (cstr ''/dev/fb'') (\<lambda>p. sys_open cl p 0 0))) (\<lambda>fp a.
     let x = x + half_int (screen_w a - canvas_w a); y = y + half_int (screen_h a - canvas_h a) in
     gfor [0..<nat (sint h)] (\<lambda>i.
       gbind (on_os (sys_lseek cl fp (((y + of_nat i) * screen_w a + x) * 4) 0)) (\<lambda>_.
       gbind (on_os (sys_write cl fp (pixels + 4 * (of_nat i * w)) (w * 4))) (\<lambda>_. Returns ()))) a)"

definition NDL_Init :: "clib \<Rightarrow> u32 \<Rightarrow> (u32, app) prog" where
  "NDL_Init cl flags a = Returns 0 (if nwm_app cl then a\<lparr>evtdev := 3\<rparr> else a)"

end
