(* ===== verification/Lib_Video.thy ===== *)
theory Lib_Video
  imports Lib_Sdl
begin

text \<open>
  Surfaces, rectangles and events of the SDL port (\<open>libs/libSDL/src/video.c\<close>, \<open>event.c\<close>) and the
  bitmap reader (\<open>libs/libbmp/src/BMP.c\<close>). A surface is the record its pointer points to, with the
  place of its pixels; the pixels are words in memory.
\<close>

section \<open>Surfaces\<close>

record SDL_Rect =
  rect_x :: u16
  rect_y :: u16
  rect_w :: u16
  rect_h :: u16

text \<open>The coordinates of a rectangle are \<open>int16_t\<close>, its sizes \<open>uint16_t\<close>.\<close>

definition rx :: "SDL_Rect \<Rightarrow> u32" where "rx r = scast (rect_x r)"
definition ry :: "SDL_Rect \<Rightarrow> u32" where "ry r = scast (rect_y r)"
definition rw :: "SDL_Rect \<Rightarrow> u32" where "rw r = ucast (rect_w r)"
definition rh :: "SDL_Rect \<Rightarrow> u32" where "rh r = ucast (rect_h r)"

record SDL_Surface =
  surf_at :: u32
  format_at :: u32
  surf_flags :: u32
  format :: SDL_PixelFormat
  surf_w :: u32
  surf_h :: u32
  pitch :: u16
  pixels_at :: u32

definition SDL_HWSURFACE :: u32 where "SDL_HWSURFACE = 0x1"
definition SDL_PREALLOC :: u32 where "SDL_PREALLOC = 0x10"
definition DEFAULT_RMASK :: u32 where "DEFAULT_RMASK = 0x00ff0000"
definition DEFAULT_GMASK :: u32 where "DEFAULT_GMASK = 0x0000ff00"
definition DEFAULT_BMASK :: u32 where "DEFAULT_BMASK = 0x000000ff"
definition DEFAULT_AMASK :: u32 where "DEFAULT_AMASK = 0xff000000"

text \<open>The place of the pixel with a (signed) index.\<close>

definition pixel_addr :: "u32 \<Rightarrow> u32 \<Rightarrow> u32" where
  "pixel_addr base i = base + 4 * i"

text \<open>Two nested loops from 0 to sizes that are \<open>int\<close>.\<close>

definition for_rect :: "u32 \<Rightarrow> u32 \<Rightarrow> (u32 \<Rightarrow> u32 \<Rightarrow> (unit, os) prog) \<Rightarrow> (unit, os) prog" where
  "for_rect w h f = gfor [0..<nat (sint h)] (\<lambda>i. gfor [0..<nat (sint w)] (\<lambda>j. f (of_nat i) (of_nat j)))"

definition SDL_BlitSurface :: "SDL_Surface \<Rightarrow> SDL_Rect option \<Rightarrow> SDL_Surface \<Rightarrow> SDL_Rect option \<Rightarrow> (unit, os) prog" where
  "SDL_BlitSurface src srcrect dst dstrect =
     gbind (lib_assert (BitsPerPixel (format dst) = BitsPerPixel (format src))) (\<lambda>_.
     let (w, h, s_x, s_y) = (case srcrect of None \<Rightarrow> (surf_w src, surf_h src, 0, 0) | Some r \<Rightarrow> (rw r, rh r, rx r, ry r));
         (d_x, d_y) = (case dstrect of None \<Rightarrow> (0, 0) | Some r \<Rightarrow> (rx r, ry r)) in
     gbind (lib_assert (BitsPerPixel (format dst) = 32)) (\<lambda>_.
     for_rect w h (\<lambda>i j.
       gbind (ld32 (pixel_addr (pixels_at src) ((s_y + i) * surf_w src + s_x + j))) (\<lambda>p.
       st32 (pixel_addr (pixels_at dst) ((d_y + i) * surf_w dst + d_x + j)) p))))"

definition SDL_FillRect :: "SDL_Surface \<Rightarrow> SDL_Rect option \<Rightarrow> u32 \<Rightarrow> (unit, os) prog" where
  "SDL_FillRect dst dstrect color =
     (let (x, y, w, h) = (case dstrect of None \<Rightarrow> (0, 0, surf_w dst, surf_h dst) | Some r \<Rightarrow> (rx r, ry r, rw r, rh r)) in
      gbind (lib_assert (BytesPerPixel (format dst) = 4)) (\<lambda>_.
      for_rect w h (\<lambda>i j. st32 (pixel_addr (pixels_at dst) ((y + i) * w + x + j)) color)))"

definition SDL_UpdateRect :: "clib \<Rightarrow> SDL_Surface \<Rightarrow> u32 \<Rightarrow> u32 \<Rightarrow> u32 \<Rightarrow> u32 \<Rightarrow> (unit, app) prog" where
  "SDL_UpdateRect cl s x y w h =
     (if x = 0 \<and> y = 0 \<and> w = 0 \<and> h = 0 then NDL_DrawRect cl (pixels_at s) 0 0 (surf_w s) (surf_h s)
      else lib_assert False)"

definition maskToShift :: "u32 \<Rightarrow> (u8, os) prog" where
  "maskToShift m =
     (if m = 0x000000ff then Returns 0
      else if m = 0x0000ff00 then Returns 8
      else if m = 0x00ff0000 then Returns 16
      else if m = 0xff000000 then Returns 24
      else if m = 0 then Returns 24
      else (\<lambda>_. Faulted Assertion))"

text \<open>\<open>sizeof (SDL_Surface)\<close> and the others are 20, 44, 8 and 4 bytes.\<close>

definition new_format :: "clib \<Rightarrow> u32 \<Rightarrow> u32 \<Rightarrow> u32 \<Rightarrow> u32 \<Rightarrow> u32 \<Rightarrow> (SDL_PixelFormat, os) prog" where
  "new_format cl depth Rm Gm Bm Am =
     (if depth = 8 then
        gbind (malloc cl 8) (\<lambda>p.
        gbind (lib_assert (p \<noteq> 0)) (\<lambda>_.
        gbind (malloc cl (4 * 256)) (\<lambda>c.
        gbind (lib_assert (c \<noteq> 0)) (\<lambda>_.
        gbind (st_zeros c (4 * 256)) (\<lambda>_.
        Returns ((junk_format cl)\<lparr>palette_at := p, palette_size := Some 256, colors := c\<rparr>))))))
      else
        gbind (maskToShift Rm) (\<lambda>r. gbind (maskToShift Gm) (\<lambda>g. gbind (maskToShift Bm) (\<lambda>b. gbind (maskToShift Am) (\<lambda>a.
        Returns ((junk_format cl)\<lparr>palette_size := None, Rmask := Rm, Rshift := r, Rloss := 0,
          Gmask := Gm, Gshift := g, Gloss := 0, Bmask := Bm, Bshift := b, Bloss := 0,
          Amask := Am, Ashift := a, Aloss := 0\<rparr>))))))"

definition SDL_CreateRGBSurface :: "clib \<Rightarrow> u32 \<Rightarrow> u32 \<Rightarrow> u32 \<Rightarrow> u32 \<Rightarrow> u32 \<Rightarrow> u32 \<Rightarrow> u32 \<Rightarrow> u32 \<Rightarrow> (SDL_Surface, os) prog" where
  "SDL_CreateRGBSurface cl flags w h depth Rm Gm Bm Am =
     gbind (lib_assert (depth = 8 \<or> depth = 32)) (\<lambda>_.
     gbind (malloc cl 20) (\<lambda>s.
     gbind (lib_assert (s \<noteq> 0)) (\<lambda>_.
     gbind (malloc cl 44) (\<lambda>fp.
     gbind (lib_assert (fp \<noteq> 0)) (\<lambda>_.
     gbind (new_format cl depth Rm Gm Bm Am) (\<lambda>f.
     let f = f\<lparr>BitsPerPixel := ucast depth, BytesPerPixel := ucast (depth div 8)\<rparr>;
         p = ucast (word_of_int (sint (w * depth) sdiv 8) :: u32) in
     gbind (lib_assert (ucast (p :: u16) = w * ucast (BytesPerPixel f))) (\<lambda>_.
     gbind (if flags AND SDL_PREALLOC = 0
            then gbind (malloc cl (ucast p * h)) (\<lambda>px. gbind (lib_assert (px \<noteq> 0)) (\<lambda>_. Returns px))
            else Returns (junk cl)) (\<lambda>px.
     Returns \<lparr>surf_at = s, format_at = fp, surf_flags = flags, format = f, surf_w = w, surf_h = h, pitch = p, pixels_at = px\<rparr>))))))))"

definition SDL_CreateRGBSurfaceFrom :: "clib \<Rightarrow> u32 \<Rightarrow> u32 \<Rightarrow> u32 \<Rightarrow> u32 \<Rightarrow> u32 \<Rightarrow> u32 \<Rightarrow> u32 \<Rightarrow> u32 \<Rightarrow> u32 \<Rightarrow> (SDL_Surface, os) prog" where
  "SDL_CreateRGBSurfaceFrom cl px w h depth pt Rm Gm Bm Am =
     gbind (SDL_CreateRGBSurface cl SDL_PREALLOC w h depth Rm Gm Bm Am) (\<lambda>s.
     gbind (lib_assert (pt = ucast (pitch s))) (\<lambda>_.
     Returns (s\<lparr>pixels_at := px\<rparr>)))"

definition SDL_FreeSurface :: "clib \<Rightarrow> SDL_Surface \<Rightarrow> (unit, os) prog" where
  "SDL_FreeSurface cl s =
     gbind (if palette_size (format s) \<noteq> None then
         gbind (if colors (format s) \<noteq> 0 then free cl (colors (format s)) else Returns ()) (\<lambda>_.
         free cl (palette_at (format s)))
       else Returns ()) (\<lambda>_.
     gbind (free cl (format_at s)) (\<lambda>_.
     gbind (if pixels_at s \<noteq> 0 \<and> surf_flags s AND SDL_PREALLOC = 0 then free cl (pixels_at s) else Returns ()) (\<lambda>_.
     free cl (surf_at s))))"

definition SDL_SetVideoMode :: "clib \<Rightarrow> nat \<Rightarrow> u32 \<Rightarrow> u32 \<Rightarrow> u32 \<Rightarrow> u32 \<Rightarrow> u32 \<Rightarrow> (SDL_Surface, app) prog" where
  "SDL_SetVideoMode cl n buf w h bpp flags =
     gbind (if flags AND SDL_HWSURFACE \<noteq> 0 then NDL_OpenCanvas cl n buf w h else Returns (w, h)) (\<lambda>(w, h).
     on_os (SDL_CreateRGBSurface cl flags w h bpp DEFAULT_RMASK DEFAULT_GMASK DEFAULT_BMASK DEFAULT_AMASK))"

definition SDL_SoftStretch :: "SDL_Surface \<Rightarrow> SDL_Rect option \<Rightarrow> SDL_Surface \<Rightarrow> SDL_Rect option \<Rightarrow> (unit, os) prog" where
  "SDL_SoftStretch src srcrect dst dstrect =
     gbind (lib_assert (BitsPerPixel (format dst) = BitsPerPixel (format src))) (\<lambda>_.
     gbind (lib_assert (BitsPerPixel (format dst) = 8)) (\<lambda>_.
     let x = (case srcrect of None \<Rightarrow> 0 | Some r \<Rightarrow> rx r);
         y = (case srcrect of None \<Rightarrow> 0 | Some r \<Rightarrow> ry r);
         w = (case srcrect of None \<Rightarrow> surf_w src | Some r \<Rightarrow> rw r);
         h = (case srcrect of None \<Rightarrow> surf_h src | Some r \<Rightarrow> rh r) in
     case dstrect of
       None \<Rightarrow> lib_assert False
     | Some d \<Rightarrow>
         if w = rw d \<and> h = rh d
         then SDL_BlitSurface src (Some \<lparr>rect_x = ucast x, rect_y = ucast y, rect_w = ucast w, rect_h = ucast h\<rparr>) dst (Some d)
         else lib_assert False))"

definition SDL_SetPalette :: "clib \<Rightarrow> SDL_Surface \<Rightarrow> u32 \<Rightarrow> u32 \<Rightarrow> u32 \<Rightarrow> (SDL_Surface, app) prog" where
  "SDL_SetPalette cl s cols firstcolor ncolors =
     gbind (lib_assert (palette_size (format s) \<noteq> None)) (\<lambda>_.
     gbind (lib_assert (firstcolor = 0)) (\<lambda>_.
     let s' = s\<lparr>format := (format s)\<lparr>palette_size := Some ncolors\<rparr>\<rparr> in
     gbind (on_os (on_hw (gbind (mem_get cols (unat (4 * ncolors))) (mem_put (colors (format s)))))) (\<lambda>_.
     if surf_flags s AND SDL_HWSURFACE \<noteq> 0 then
       gbind (lib_assert (ncolors = 256)) (\<lambda>_.
       gbind (SDL_UpdateRect cl s' 0 0 0 0) (\<lambda>_. Returns s'))
     else Returns s')))"

text \<open>One pixel: the word is copied, then the bytes 0 and 2 are exchanged in the copy.\<close>

definition swap_pixel :: "u32 \<Rightarrow> u32 \<Rightarrow> nat \<Rightarrow> (unit, os) prog" where
  "swap_pixel dst src i =
     gbind (ld32 (pixel_addr src (of_nat i))) (\<lambda>v.
     gbind (st32 (pixel_addr dst (of_nat i)) v) (\<lambda>_.
     gbind (on_hw (mem_put (pixel_addr dst (of_nat i)) [bytes_of_word 4 v ! 2])) (\<lambda>_.
     on_hw (mem_put (pixel_addr dst (of_nat i) + 2) [bytes_of_word 4 v ! 0]))))"

text \<open>Sixteen pixels at a time, then the rest; with a negative length there is nothing to do.\<close>

definition ConvertPixelsARGB_ABGR :: "u32 \<Rightarrow> u32 \<Rightarrow> u32 \<Rightarrow> (unit, os) prog" where
  "ConvertPixelsARGB_ABGR dst src len =
     (let first = nat (sint (len AND NOT 0xf)) in
      gbind (gfor [0..<first div 16] (\<lambda>k. gfor [16 * k..<16 * k + 16] (swap_pixel dst src))) (\<lambda>_.
      gfor [first..<nat (sint len)] (swap_pixel dst src)))"

definition SDL_ConvertSurface :: "clib \<Rightarrow> SDL_Surface \<Rightarrow> SDL_PixelFormat \<Rightarrow> u32 \<Rightarrow> (SDL_Surface, os) prog" where
  "SDL_ConvertSurface cl src fmt flags =
     gbind (lib_assert (BitsPerPixel (format src) = 32)) (\<lambda>_.
     gbind (lib_assert (surf_w src * ucast (BytesPerPixel (format src)) = ucast (pitch src))) (\<lambda>_.
     gbind (lib_assert (BitsPerPixel (format src) = BitsPerPixel fmt)) (\<lambda>_.
     gbind (SDL_CreateRGBSurface cl flags (surf_w src) (surf_h src) (ucast (BitsPerPixel fmt)) (Rmask fmt) (Gmask fmt) (Bmask fmt) (Amask fmt)) (\<lambda>ret.
     gbind (lib_assert (Gmask fmt = Gmask (format src))) (\<lambda>_.
     gbind (lib_assert (Amask fmt = 0 \<or> Amask (format src) = 0 \<or> Amask fmt = Amask (format src))) (\<lambda>_.
     gbind (ConvertPixelsARGB_ABGR (pixels_at ret) (pixels_at src) (surf_w src * surf_h src)) (\<lambda>_.
     Returns ret)))))))"

definition SDL_MapRGBA :: "SDL_PixelFormat \<Rightarrow> u8 \<Rightarrow> u8 \<Rightarrow> u8 \<Rightarrow> u8 \<Rightarrow> (u32, os) prog" where
  "SDL_MapRGBA fmt r g b a =
     gbind (lib_assert (BytesPerPixel fmt = 4)) (\<lambda>_.
     let p = push_bit (unat (Rshift fmt)) (ucast r) OR push_bit (unat (Gshift fmt)) (ucast g) OR push_bit (unat (Bshift fmt)) (ucast b) in
     Returns (if Amask fmt \<noteq> 0 then p OR push_bit (unat (Ashift fmt)) (ucast a) else p))"

section \<open>Events\<close>

definition sdl_keyname :: "nat \<Rightarrow> u8 list" where
  "sdl_keyname k = (if k = 0 then cstr ''NONE'' else cstr (KEYS ! (k - 1)))"

text \<open>The loop of \<open>SDL_PollEvent\<close> over the text after the first three bytes. Its bound is the size of the
  table in bytes, 332; an index from 83 on reads beyond the table.\<close>

function find_key :: "u8 list \<Rightarrow> nat \<Rightarrow> nat option res" where
  "find_key code i =
     (if 332 \<le> i then Inr None
      else if length code \<le> i then Inl Out_of_bounds
      else
        let code = (if code ! i = 10 then code[i := 0] else code) in
        if 82 < i then Inl Out_of_bounds
        else if sdl_keyname i = takeWhile (\<lambda>c. c \<noteq> 0) code then Inr (Some i)
        else find_key code (Suc i))"
  by pat_completeness auto
termination
  by (relation "measure (\<lambda>(code, i). 332 - i)") auto

declare find_key.simps [simp del]

record key_event =
  ev_type :: u8
  ev_sym :: u8

definition SDL_KEYDOWN :: u8 where "SDL_KEYDOWN = 0"
definition SDL_KEYUP :: u8 where "SDL_KEYUP = 1"
definition SDL_USEREVENT :: u8 where "SDL_USEREVENT = 2"

text \<open>\<open>tem\<close> holds the text read and zeros after it, 101 bytes in all.\<close>

definition poll_text :: "u8 list \<Rightarrow> key_event \<Rightarrow> (u32 \<times> key_event) res" where
  "poll_text tem ev =
     (let ev = ev\<lparr>ev_type := (if take 2 tem = cstr ''kd'' then SDL_KEYDOWN else SDL_KEYUP)\<rparr> in
      rbind (find_key (drop 3 tem) 0) (\<lambda>r.
      case r of Some i \<Rightarrow> Inr (1, ev\<lparr>ev_sym := of_nat i\<rparr>) | None \<Rightarrow> Inr (0, ev)))"

definition SDL_PollEvent :: "clib \<Rightarrow> u32 \<Rightarrow> key_event \<Rightarrow> (u32 \<times> key_event, app) prog" where
  "SDL_PollEvent cl tem ev =
     gbind (on_os (on_hw (mem_put tem (replicate 101 0)))) (\<lambda>_.
     gbind (NDL_PollEvent cl tem 100) (\<lambda>n.
     if n = 0 then Returns (0, \<lparr>ev_type = SDL_USEREVENT, ev_sym = 0\<rparr>)
     else gbind (on_os (on_hw (mem_get tem 101))) (\<lambda>bs. glift (\<lambda>a. rbind (poll_text bs ev) (\<lambda>r. Inr (r, a))))))"

text \<open>\<open>n\<close> bounds the number of polls.\<close>

fun SDL_WaitEvent :: "clib \<Rightarrow> u32 \<Rightarrow> nat \<Rightarrow> key_event \<Rightarrow> (u32 \<times> key_event, app) prog" where
  "SDL_WaitEvent cl tem 0 ev = (\<lambda>_. Faulted Panic)"
| "SDL_WaitEvent cl tem (Suc n) ev =
     gbind (SDL_PollEvent cl tem ev) (\<lambda>(r, ev). if r = 1 then Returns (1, ev) else SDL_WaitEvent cl tem n ev)"

section \<open>Bitmaps\<close>

text \<open>The header is 54 bytes, packed: type at 0, offset of the pixels at 10, width at 18, height at 22,
  bits per pixel at 28, compression at 30.\<close>

definition bmp_pixel :: "u32 \<Rightarrow> nat \<Rightarrow> (unit, os) prog" where
  "bmp_pixel row j =
     gbind (on_hw (mem_get (row + 3 * of_nat j) 3)) (\<lambda>c.
     st32 (row + 4 * of_nat j)
       (push_bit 16 (ucast (c ! 2)) OR push_bit 8 (ucast (c ! 1)) OR ucast (c ! 0)))"

text \<open>The pixels of a line are widened in place, from the last to the first.\<close>

definition bmp_line :: "u32 \<Rightarrow> nat \<Rightarrow> (unit, os) prog" where
  "bmp_line row w = gfor (rev [0..<w]) (bmp_pixel row)"

definition BMP_Load :: "clib \<Rightarrow> u8 list \<Rightarrow> u32 \<Rightarrow> ((u32 \<times> u32 \<times> u32) option, os) prog" where
  "BMP_Load cl filename hdr =
     gbind (fopen cl filename) (\<lambda>fp.
     if fp = 0 then Returns None
     else
       gbind (fread cl hdr 54 1 fp) (\<lambda>n.
       gbind (lib_assert (n = 1)) (\<lambda>_.
       gbind (ld16 (hdr + 28)) (\<lambda>bitcount.
       if bitcount \<noteq> 24 then Returns None
       else gbind (ld32 (hdr + 30)) (\<lambda>compression.
       if compression \<noteq> 0 then Returns None
       else
         gbind (ld32 (hdr + 18)) (\<lambda>w.
         gbind (ld32 (hdr + 22)) (\<lambda>h.
         gbind (malloc cl (w * h * 4)) (\<lambda>pixels.
         let line_off = (w * 3 + 3) AND NOT 0x3 in
         gbind (gfor [0..<nat (sint h)] (\<lambda>i.
           gbind (ld32 (hdr + 10)) (\<lambda>offset.
           gbind (fseek cl fp (offset + (h - 1 - of_nat i) * line_off)) (\<lambda>_.
           gbind (fread cl (pixels + 4 * (w * of_nat i)) 3 w fp) (\<lambda>_.
           bmp_line (pixels + 4 * (w * of_nat i)) (nat (sint w))))))) (\<lambda>_.
         gbind (fclose cl fp) (\<lambda>_. Returns (Some (pixels, w, h))))))))))))"

definition SDL_LoadBMP :: "clib \<Rightarrow> u8 list \<Rightarrow> u32 \<Rightarrow> (SDL_Surface, os) prog" where
  "SDL_LoadBMP cl filename hdr =
     gbind (BMP_Load cl filename hdr) (\<lambda>r.
     case r of
       None \<Rightarrow> (\<lambda>_. Faulted Assertion)
     | Some (pixels, w, h) \<Rightarrow>
         gbind (lib_assert (pixels \<noteq> 0)) (\<lambda>_.
         gbind (SDL_CreateRGBSurfaceFrom cl pixels w h 32 (w * 4) DEFAULT_RMASK DEFAULT_GMASK DEFAULT_BMASK DEFAULT_AMASK) (\<lambda>s.
         Returns (s\<lparr>surf_flags := surf_flags s AND NOT SDL_PREALLOC\<rparr>))))"

section \<open>The other calls\<close>

definition SDL_Init :: "clib \<Rightarrow> u32 \<Rightarrow> (u32, app) prog" where "SDL_Init cl flags = NDL_Init cl flags"
definition SDL_GetTicks :: "clib \<Rightarrow> u32 \<Rightarrow> (u32, app) prog" where "SDL_GetTicks cl tv = NDL_GetTicks cl tv"

text \<open>The rest of the interface is there to link: every call returns a constant and does nothing. Null
  pointers are 0.\<close>

definition no_effect :: "(unit, app) prog" where "no_effect = Returns ()"

definition NDL_Quit :: "(unit, app) prog" where "NDL_Quit = no_effect"
definition SDL_Quit :: "(unit, app) prog" where "SDL_Quit = NDL_Quit"
definition NDL_OpenAudio :: "u32 \<Rightarrow> u32 \<Rightarrow> u32 \<Rightarrow> (unit, app) prog" where "NDL_OpenAudio freq channels samples = no_effect"
definition NDL_CloseAudio :: "(unit, app) prog" where "NDL_CloseAudio = no_effect"
definition NDL_PlayAudio :: "u32 \<Rightarrow> u32 \<Rightarrow> (u32, app) prog" where "NDL_PlayAudio buf len = Returns 0"
definition NDL_QueryAudio :: "(u32, app) prog" where "NDL_QueryAudio = Returns 0"
definition SDL_SetError :: "(u32, app) prog" where "SDL_SetError = Returns (- 1)"
definition SDL_ShowCursor :: "u32 \<Rightarrow> (u32, app) prog" where "SDL_ShowCursor toggle = Returns 0"
definition SDL_WM_SetCaption :: "u32 \<Rightarrow> u32 \<Rightarrow> (unit, app) prog" where "SDL_WM_SetCaption title icon = no_effect"
definition SDL_AddTimer :: "u32 \<Rightarrow> u32 \<Rightarrow> u32 \<Rightarrow> (u32, app) prog" where "SDL_AddTimer interval cb param = Returns 0"
definition SDL_RemoveTimer :: "u32 \<Rightarrow> (u32, app) prog" where "SDL_RemoveTimer timer = Returns 1"
definition SDL_Delay :: "u32 \<Rightarrow> (unit, app) prog" where "SDL_Delay ms = no_effect"
definition SDL_OpenAudio :: "u32 \<Rightarrow> u32 \<Rightarrow> (u32, app) prog" where "SDL_OpenAudio desired obtained = Returns 0"
definition SDL_CloseAudio :: "(unit, app) prog" where "SDL_CloseAudio = no_effect"
definition SDL_PauseAudio :: "u32 \<Rightarrow> (unit, app) prog" where "SDL_PauseAudio pause_on = no_effect"
definition SDL_LoadWAV :: "u32 \<Rightarrow> u32 \<Rightarrow> u32 \<Rightarrow> u32 \<Rightarrow> (u32, app) prog" where "SDL_LoadWAV file spec buf len = Returns 0"
definition SDL_PushEvent :: "(u32, app) prog" where "SDL_PushEvent = Returns 0"
definition SDL_PeepEvents :: "(u32, app) prog" where "SDL_PeepEvents = Returns 0"
definition SDL_GetKeyState :: "(u32, app) prog" where "SDL_GetKeyState = Returns 0"
definition SDL_RWFromFile :: "u32 \<Rightarrow> u32 \<Rightarrow> (u32, app) prog" where "SDL_RWFromFile filename mode = Returns 0"
definition SDL_RWFromMem :: "u32 \<Rightarrow> u32 \<Rightarrow> (u32, app) prog" where "SDL_RWFromMem buf n = Returns 0"
definition SDL_LockSurface :: "(u32, app) prog" where "SDL_LockSurface = Returns 0"
definition SDL_UnlockSurface :: "(unit, app) prog" where "SDL_UnlockSurface = no_effect"

end
