(* ===== verification/Lib_Drawing.thy ===== *)
theory Lib_Drawing
  imports Lib_Video
begin

text \<open>
  What the display libraries do: every key event the kernel reports is recognised by \<open>SDL_PollEvent\<close>
  but one, \<open>SDL_BlitSurface\<close> copies a rectangle, \<open>SDL_FillRect\<close> fills a run of pixels.
\<close>

section \<open>Events: lemmas\<close>

lemma keys_fit: "\<forall>i < 81. length (KEYS ! (i + 1)) \<le> i + 2"
  by (simp add: all_less_numeral KEYS_def)

lemma find_key_step:
  assumes "i \<le> 82" and "i < length code"
  shows "find_key code i = (let code = (if code ! i = 10 then code[i := 0] else code) in
    if sdl_keyname i = takeWhile (\<lambda>c. c \<noteq> 0) code then Inr (Some i) else find_key code (Suc i))"
  using assms by (simp add: find_key.simps [of code i] Let_def)


lemma key_bytes: "x \<in> set KEYS \<Longrightarrow> 0 \<notin> set (cstr x) \<and> 10 \<notin> set (cstr x)"
proof -
  have "\<forall>x \<in> set KEYS. 0 \<notin> set (cstr x) \<and> 10 \<notin> set (cstr x)" by (simp add: KEYS_def cstr_def)
  then show "x \<in> set KEYS \<Longrightarrow> 0 \<notin> set (cstr x) \<and> 10 \<notin> set (cstr x)" by blast
qed

lemma sdl_keyname_eq: "a \<le> 82 \<Longrightarrow> sdl_keyname a = cstr ((''NONE'' # KEYS) ! a)"
  by (cases a) (simp_all add: sdl_keyname_def)

lemma sdl_keyname_10: "a \<le> 82 \<Longrightarrow> 10 \<notin> set (sdl_keyname a)"
  using key_bytes [of "KEYS ! (a - 1)"] length_KEYS by (auto simp: sdl_keyname_def cstr_def)

lemma inj_chr: "inj (of_char :: char \<Rightarrow> u8)"
proof (rule injI)
  fix x y :: char assume e: "(of_char x :: u8) = of_char y"
  obtain a0 a1 a2 a3 a4 a5 a6 a7 where x: "x = Char a0 a1 a2 a3 a4 a5 a6 a7" by (cases x)
  obtain b0 b1 b2 b3 b4 b5 b6 b7 where y: "y = Char b0 b1 b2 b3 b4 b5 b6 b7" by (cases y)
  have "\<forall>n < 8. bit (of_char x :: u8) n = bit (of_char y :: u8) n" by (simp add: e)
  then have "\<forall>n < 8. [a0, a1, a2, a3, a4, a5, a6, a7] ! n = [b0, b1, b2, b3, b4, b5, b6, b7] ! n"
    by (simp only: x y of_char_Char bit_horner_sum_bit_iff) simp
  then show "x = y" by (simp add: x y all_less_numeral)
qed

lemma sdl_keyname_inj:
  assumes "a \<le> 82" and "b \<le> 82" and "sdl_keyname a = sdl_keyname b"
  shows "a = b"
proof -
  have "''NONE'' \<notin> set KEYS" by (simp add: KEYS_def)
  then have d: "distinct (''NONE'' # KEYS)" using distinct_KEYS by simp
  have "(''NONE'' # KEYS) ! a = (''NONE'' # KEYS) ! b"
    using assms inj_chr by (simp add: sdl_keyname_eq cstr_def inj_map_eq_map)
  then show ?thesis using d assms length_KEYS by (simp add: nth_eq_iff_index_eq del: distinct.simps nth_Cons')
qed

text \<open>The buffer while the loop runs: the name, then the newline or, once it has been passed, zeros.\<close>

lemma find_key_before:
  assumes "0 \<notin> set name" and "10 \<notin> set name" and "j \<le> length name" and "j \<le> 83"
  shows "find_key (name @ 10 # replicate n 0) 0 = find_key (name @ 10 # replicate n 0) j"
  using assms(3,4)
proof (induction j)
  case (Suc j)
  let ?code = "name @ 10 # replicate n (0 :: u8)"
  have j: "j < length name" using Suc.prems by simp
  then have "name ! j \<noteq> 10" using assms(2) nth_mem by metis
  then have c: "?code ! j \<noteq> 10" using j by (simp add: nth_append)
  have "takeWhile (\<lambda>c. c \<noteq> 0) ?code = name @ [10]" using assms(1)
    by (subst takeWhile_append2) (auto simp: takeWhile_replicate)
  then have "sdl_keyname j \<noteq> takeWhile (\<lambda>c. c \<noteq> 0) ?code" using sdl_keyname_10 [of j] Suc.prems by auto
  then show ?case using Suc c find_key_step [of j ?code] by simp
qed simp

lemma find_key_after:
  assumes "0 \<notin> set name" and "10 \<notin> set name" and "length name \<le> j" and "j \<le> m" and "m \<le> 83" and "m \<le> length name + n"
    and "\<forall>i. length name \<le> i \<and> i < m \<longrightarrow> sdl_keyname i \<noteq> name"
  shows "length name < j \<Longrightarrow> find_key (name @ 0 # replicate n 0) j = find_key (name @ 0 # replicate n 0) m"
  using assms(4)
proof (induction "m - j" arbitrary: j)
  case (Suc d)
  let ?code = "name @ 0 # replicate n (0 :: u8)"
  have "?code ! j = 0" using Suc.prems assms(6) Suc.hyps(2) by (auto simp: nth_append nth_Cons')
  moreover have "takeWhile (\<lambda>c. c \<noteq> 0) ?code = name" using assms(1) by (subst takeWhile_append2) auto
  moreover have "sdl_keyname j \<noteq> name" using assms(7) Suc.prems Suc.hyps(2) by auto
  ultimately have "find_key ?code j = find_key ?code (Suc j)"
    using Suc.prems Suc.hyps(2) assms(5,6) find_key_step [of j ?code] by auto
  then show ?case using Suc.hyps(1) [of "Suc j"] Suc.hyps(2) Suc.prems by simp
qed simp


lemma find_key_text:
  assumes "i < 82" and "name = cstr (KEYS ! i)" and "i + 1 \<le> n" and "83 \<le> n"
  shows "find_key (name @ 10 # replicate n 0) 0 = (if i = 0 then Inl Out_of_bounds else Inr (Some (i + 1)))"
proof -
  let ?L = "length name" and ?c1 = "name @ 0 # replicate n (0 :: u8)"
  have k: "KEYS ! i \<in> set KEYS" using assms(1) length_KEYS by simp
  have nz: "0 \<notin> set name" "10 \<notin> set name" using key_bytes [OF k] assms(2) by auto
  have L: "?L \<le> 12" using key_name_length assms(1,2) length_KEYS by (simp add: cstr_def)
  have name: "name = sdl_keyname (i + 1)" using assms(2) by (simp add: sdl_keyname_def)
  have other: "sdl_keyname j \<noteq> name" if "j \<le> 82" "j \<noteq> i + 1" for j
    using sdl_keyname_inj [of j "i + 1"] that assms(1) unfolding name by auto
  have tw: "takeWhile (\<lambda>c. c \<noteq> 0) ?c1 = name" using nz(1) by (subst takeWhile_append2) auto
  have code: "find_key (name @ 10 # replicate n 0) ?L = (if sdl_keyname ?L = name then Inr (Some ?L) else find_key ?c1 (Suc ?L))"
    using L tw find_key_step [of ?L "name @ 10 # replicate n 0"] by (simp add: nth_append Let_def)
  have first: "find_key (name @ 10 # replicate n 0) 0 = find_key (name @ 10 # replicate n 0) ?L"
    using nz L by (intro find_key_before) auto
  show ?thesis
  proof (cases "i = 0")
    case True
    have l6: "?L = 6" using assms(2) True by (simp add: KEYS_def cstr_def)
    have "find_key ?c1 (Suc ?L) = find_key ?c1 83"
      using nz assms(3,4) l6 True other by (intro find_key_after [where name = name]) auto
    also have "\<dots> = Inl Out_of_bounds" using assms(4) by (simp add: find_key.simps [of ?c1 83] Let_def)
    finally show ?thesis using first code other [of ?L] l6 True by simp
  next
    case False
    then have le: "?L \<le> i + 1" using keys_fit [rule_format, of "i - 1"] assms(1,2) by (simp add: cstr_def)
    show ?thesis
    proof (cases "?L = i + 1")
      case True
      then show ?thesis using first code name False by simp
    next
      case neq: False
      have "find_key ?c1 (Suc ?L) = find_key ?c1 (i + 1)"
        using nz assms(1,3) le neq other by (intro find_key_after [where name = name]) auto
      also have "\<dots> = Inr (Some (i + 1))"
      proof -
        have "?c1 ! (i + 1) = 0" using le neq assms(3) by (auto simp: nth_append nth_Cons')
        then show ?thesis using find_key_step [of "i + 1" ?c1] assms(1,3) name tw by simp
      qed
      finally show ?thesis using first code other [of ?L] neq L False by simp
    qed
  qed
qed

text \<open>The program gets every key event of the kernel with its direction and key number, except those
  of the key \<open>ESCAPE\<close>: its name is longer than its number, the newline is not removed in time, and
  the search runs off the end of the table.\<close>

lemma poll_event_text:
  assumes "i < 82" and "tem = event_text down i @ replicate (101 - length (event_text down i)) 0"
  shows "poll_text tem ev = (if i = 0 then Inl Out_of_bounds
    else Inr (1, \<lparr>ev_type = (if down then SDL_KEYDOWN else SDL_KEYUP), ev_sym = of_nat (i + 1)\<rparr>))"
proof -
  let ?name = "cstr (KEYS ! i)"
  have l: "length ?name \<le> 12" using key_name_length assms(1) length_KEYS by (simp add: cstr_def)
  have "drop 3 tem = ?name @ 10 # replicate (97 - length ?name) 0" "take 2 tem = cstr (if down then ''kd'' else ''ku'')"
    using l by (auto simp: assms(2) event_text_def cstr_def)
  moreover have "find_key (?name @ 10 # replicate (97 - length ?name) 0) 0 =
      (if i = 0 then Inl Out_of_bounds else Inr (Some (i + 1)))"
    using assms(1) l by (intro find_key_text) auto
  ultimately show ?thesis by (auto simp: poll_text_def Let_def cstr_def SDL_KEYDOWN_def SDL_KEYUP_def)
qed

lemma poll_event_text_witness:
  "poll_text (event_text True 42 @ replicate (101 - length (event_text True 42)) 0) \<lparr>ev_type = 9, ev_sym = 9\<rparr> =
     Inr (1, \<lparr>ev_type = SDL_KEYDOWN, ev_sym = 43\<rparr>)"
  using poll_event_text [of 42, OF _ refl, of True] by simp

section \<open>Rectangles: lemmas\<close>

lemma pixel_addr_eq: "pixel_addr base (of_nat k) = c_gpr base k"
  by (simp add: pixel_addr_def c_gpr_def)

lemma put_px_run:
  assumes "in_ram base (4 * n)" and "k < n"
  shows "st32 (pixel_addr base (of_nat k)) v (with_mem m st) = Returns () (with_mem (store m (offset_of base + 4 * k) (bytes_of_word 4 v)) st)"
  using word_offset [OF assms] by (simp add: pixel_addr_eq st32_run)

lemma get_px_run:
  assumes "in_ram base (4 * n)" and "k < n"
  shows "ld32 (pixel_addr base (of_nat k)) (with_mem m st) = Returns (get_pixel (offset_of base) m k) (with_mem m st)"
  using word_offset [OF assms] by (simp add: pixel_addr_eq ld32_run word_at_def get_pixel_def)

lemma fold_mem: "fold (\<lambda>x a. with_mem (g x (mem a)) a) xs (with_mem m st) = with_mem (fold g xs m) st"
  by (induction xs arbitrary: m) simp_all

text \<open>A doubly nested loop that stores a pixel in every step, as long as \<open>Q\<close> holds of the memory.\<close>

lemma for_rect_put:
  assumes "\<And>i j m. i < nat (sint h) \<Longrightarrow> j < nat (sint w) \<Longrightarrow> Q m \<Longrightarrow>
      f (of_nat i) (of_nat j) (with_mem m st) = Returns () (with_mem (store m (B + 4 * idx i j) (bytes_of_word 4 (v i j))) st)"
    and "\<And>i j m. i < nat (sint h) \<Longrightarrow> j < nat (sint w) \<Longrightarrow> Q m \<Longrightarrow> Q (store m (B + 4 * idx i j) (bytes_of_word 4 (v i j)))"
    and "Q m"
  shows "for_rect w h f (with_mem m st) =
    Returns () (with_mem (put_pixels B (rect (nat (sint h)) (nat (sint w)) (\<lambda>i j. (idx i j, v i j))) m) st)"
proof -
  let ?w = "nat (sint w)" and ?h = "nat (sint h)"
  let ?row = "\<lambda>i. map (\<lambda>j. (idx i j, v i j)) [0..<?w]"
  have inner: "gfor xs (\<lambda>j. f (of_nat i) (of_nat j)) (with_mem m st) =
      Returns () (with_mem (put_pixels B (map (\<lambda>j. (idx i j, v i j)) xs) m) st) \<and>
      Q (put_pixels B (map (\<lambda>j. (idx i j, v i j)) xs) m)"
    if "i < ?h" "set xs \<subseteq> {0..<?w}" "Q m" for i xs m
    using that
  proof (induction xs arbitrary: m)
    case (Cons x xs)
    let ?m = "store m (B + 4 * idx i x) (bytes_of_word 4 (v i x))"
    have "f (of_nat i) (of_nat x) (with_mem m st) = Returns () (with_mem ?m st)" "Q ?m"
      using assms(1,2) Cons.prems by auto
    then show ?case using Cons.IH [of ?m] Cons.prems by (simp add: gbind_def put_pixels_def)
  qed simp
  have "gfor ys (\<lambda>i. gfor [0..<?w] (\<lambda>j. f (of_nat i) (of_nat j))) (with_mem m st) =
      Returns () (with_mem (put_pixels B (concat (map ?row ys)) m) st)" if "set ys \<subseteq> {0..<?h}" "Q m" for ys m
    using that
  proof (induction ys arbitrary: m)
    case (Cons y ys)
    have "gfor [0..<?w] (\<lambda>j. f (of_nat y) (of_nat j)) (with_mem m st) = Returns () (with_mem (put_pixels B (?row y) m) st)"
      "Q (put_pixels B (?row y) m)"
      using inner [of y "[0..<?w]" m] Cons.prems by auto
    then show ?case using Cons.IH [of "put_pixels B (?row y) m"] Cons.prems by (simp add: gbind_def)
  qed simp
  then show ?thesis using assms(3) by (simp add: for_rect_def rect_def)
qed

text \<open>A rectangle inside a surface.\<close>

lemma index_bound:
  fixes y i H W x w j :: nat
  assumes "y + h \<le> H" and "x + w \<le> W" and "i < h" and "j < w"
  shows "(y + i) * W + x + j < W * H"
proof -
  have "Suc (y + i) * W \<le> H * W" using assms(1,3) by (intro mult_le_mono1) simp
  then show ?thesis using assms(2,4) by (simp add: mult.commute)
qed


lemma index_word: "(a + of_nat i) * b + c + of_nat j = (of_nat ((unat a + i) * unat b + unat c + j) :: u32)"
  by simp

lemma int_u16: "int (unat (ucast (x :: u16) :: u32)) = sint (ucast x :: u32)"
proof -
  have "unat (ucast x :: u32) = unat x" by (simp add: unsigned_ucast_eq take_bit_nat_eq_self unsigned_less [THEN less_trans])
  moreover have "unat x < 2 ^ 16" using unsigned_less [of x] by simp
  ultimately show ?thesis by (intro sint_small [symmetric]) simp
qed

lemma sint_u16: "nat (sint (ucast (x :: u16) :: u32)) = unat (ucast x :: u32)"
  by (metis int_u16 nat_int)

text \<open>C19: Copying a rectangle between two surfaces that lie apart in memory: the pixels of the target
  rectangle become those of the source rectangle, all other pixels and the rest of memory stay.\<close>

theorem blit_correct:
  assumes "BitsPerPixel (format src) = 32" and "BitsPerPixel (format dst) = 32"
    and "unat (rx sr) + unat (rw sr) \<le> unat (surf_w src)" and "unat (ry sr) + unat (rh sr) \<le> Hs"
    and "unat (rx dr) + unat (rw sr) \<le> unat (surf_w dst)" and "unat (ry dr) + unat (rh sr) \<le> Hd"
    and "in_ram (pixels_at src) (4 * (unat (surf_w src) * Hs))" and "in_ram (pixels_at dst) (4 * (unat (surf_w dst) * Hd))"
    and "apart_from (pixels_at src) (4 * (unat (surf_w src) * Hs)) (pixels_at dst) (4 * (unat (surf_w dst) * Hd))"
  shows "\<exists>m. SDL_BlitSurface src (Some sr) dst (Some dr) st = Returns () (with_mem m st) \<and>
    (\<forall>k. get_pixel (offset_of (pixels_at dst)) m k =
      (let X = k mod unat (surf_w dst); Y = k div unat (surf_w dst) in
       if unat (ry dr) \<le> Y \<and> Y < unat (ry dr) + unat (rh sr) \<and> unat (rx dr) \<le> X \<and> X < unat (rx dr) + unat (rw sr)
       then get_pixel (offset_of (pixels_at src)) (mem st)
         ((unat (ry sr) + (Y - unat (ry dr))) * unat (surf_w src) + unat (rx sr) + (X - unat (rx dr)))
       else get_pixel (offset_of (pixels_at dst)) (mem st) k)) \<and>
    (\<forall>x. x < offset_of (pixels_at dst) \<or> offset_of (pixels_at dst) + 4 * (unat (surf_w dst) * Hd) \<le> x \<longrightarrow> m x = mem st x)"
proof -
  let ?S = "offset_of (pixels_at src)" and ?D = "offset_of (pixels_at dst)"
  let ?Ws = "unat (surf_w src)" and ?Wd = "unat (surf_w dst)" and ?w = "unat (rw sr)" and ?h = "unat (rh sr)"
  let ?si = "\<lambda>i j. (unat (ry sr) + i) * ?Ws + unat (rx sr) + j" and ?di = "\<lambda>i j. (unat (ry dr) + i) * ?Wd + unat (rx dr) + j"
  define v where "v i j = get_pixel ?S (mem st) (?si i j)" for i j
  define Q where "Q m \<longleftrightarrow> (\<forall>k < ?Ws * Hs. get_pixel ?S m k = get_pixel ?S (mem st) k)" for m
  have wh: "nat (sint (rw sr)) = ?w" "nat (sint (rh sr)) = ?h" by (simp_all add: rw_def rh_def sint_u16)
  have sb: "?si i j < ?Ws * Hs" and db: "?di i j < ?Wd * Hd" if "i < ?h" "j < ?w" for i j
    using index_bound [OF assms(4,3) that] index_bound [OF assms(6,5) that] by auto
  define f where "f i j = gbind (ld32 (pixel_addr (pixels_at src) ((ry sr + i) * surf_w src + rx sr + j)))
      (\<lambda>p. st32 (pixel_addr (pixels_at dst) ((ry dr + i) * surf_w dst + rx dr + j)) p)" for i j
  have step: "f (of_nat i) (of_nat j) (with_mem m st) =
      Returns () (with_mem (store m (?D + 4 * ?di i j) (bytes_of_word 4 (v i j))) st)" if "i < ?h" "j < ?w" "Q m" for i j m
    using that(3) sb [OF that(1,2)] get_px_run [OF assms(7) sb [OF that(1,2)], of m st]
      put_px_run [OF assms(8) db [OF that(1,2)], of "v i j" m st]
    by (simp only: f_def gbind_def index_word) (simp add: Q_def v_def)
  have keep: "Q (store m (?D + 4 * ?di i j) bs)" if "i < ?h" "j < ?w" "Q m" "length bs = 4" for i j m bs
  proof -
    have "get_pixel ?S (store m (?D + 4 * ?di i j) bs) k = get_pixel ?S m k" if k: "k < ?Ws * Hs" for k
      unfolding get_pixel_def using k db [OF \<open>i < ?h\<close> \<open>j < ?w\<close>] assms(7-9) \<open>length bs = 4\<close>
      by (intro arg_cong [where f = word_of_bytes] load_store_disjoint) (auto simp: in_ram_def apart_from_def)
    then show ?thesis using that(3) by (simp add: Q_def)
  qed
  let ?ps = "rect ?h ?w (\<lambda>i j. (?di i j, v i j))"
  have "for_rect (rw sr) (rh sr) f (with_mem (mem st) st) = Returns () (with_mem (put_pixels ?D ?ps (mem st)) st)"
    unfolding wh [symmetric] by (rule for_rect_put [where Q = Q]) (use step keep in \<open>auto simp only: wh length_bytes_of_word Q_def\<close>)
  then have run: "SDL_BlitSurface src (Some sr) dst (Some dr) st = Returns () (with_mem (put_pixels ?D ?ps (mem st)) st)"
    using assms(1,2) by (simp add: SDL_BlitSurface_def gbind_def lib_assert_def f_def [abs_def])
  have px: "get_pixel ?D (put_pixels ?D ?ps (mem st)) k = (if unat (ry dr) \<le> k div ?Wd \<and> k div ?Wd < unat (ry dr) + ?h \<and>
      unat (rx dr) \<le> k mod ?Wd \<and> k mod ?Wd < unat (rx dr) + ?w
      then v (k div ?Wd - unat (ry dr)) (k mod ?Wd - unat (rx dr)) else get_pixel ?D (mem st) k)" for k
    using put_rect [OF assms(5)] .
  have "put_pixels ?D ?ps (mem st) x = mem st x" if "x < ?D \<or> ?D + 4 * (?Wd * Hd) \<le> x" for x
    using that db by (intro put_pixels_outside) (fastforce simp: set_rect)
  then show ?thesis using run px by (intro exI [of _ "put_pixels ?D ?ps (mem st)"]) (simp add: v_def Let_def)
qed

definition demo_surface :: "clib \<Rightarrow> u32 \<Rightarrow> u32 \<Rightarrow> SDL_Surface" where
  "demo_surface cl w px = \<lparr>surf_at = 0, format_at = 0, surf_flags = 0,
     format = (junk_format cl)\<lparr>BitsPerPixel := 32, BytesPerPixel := 4\<rparr>, surf_w = w, surf_h = 4, pitch = 0, pixels_at = px\<rparr>"

lemma demo_surface_simps [simp]:
  "BitsPerPixel (format (demo_surface cl w px)) = 32" "BytesPerPixel (format (demo_surface cl w px)) = 4"
  "surf_w (demo_surface cl w px) = w" "pixels_at (demo_surface cl w px) = px" "surf_h (demo_surface cl w px) = 4"
  by (simp_all add: demo_surface_def)

theorem blit_correct_witness:
  "\<forall>cl st. \<exists>m. SDL_BlitSurface (demo_surface cl 4 0x80001000) (Some \<lparr>rect_x = 1, rect_y = 2, rect_w = 3, rect_h = 2\<rparr>)
      (demo_surface cl 8 0x80002000) (Some \<lparr>rect_x = 5, rect_y = 0, rect_w = 0, rect_h = 0\<rparr>) st = Returns () (with_mem m st) \<and>
    get_pixel 0x2000 m 14 = get_pixel 0x1000 (mem st) 14 \<and> get_pixel 0x2000 m 4 = get_pixel 0x2000 (mem st) 4"
proof (intro allI)
  fix cl st
  let ?src = "demo_surface cl 4 0x80001000" and ?dst = "demo_surface cl 8 0x80002000"
  let ?sr = "\<lparr>rect_x = 1, rect_y = 2, rect_w = 3, rect_h = 2\<rparr> :: SDL_Rect"
  let ?dr = "\<lparr>rect_x = 5, rect_y = 0, rect_w = 0, rect_h = 0\<rparr> :: SDL_Rect"
  have r: "rx ?sr = 1" "ry ?sr = 2" "rw ?sr = 3" "rh ?sr = 2" "rx ?dr = 5" "ry ?dr = 0"
    by (simp_all add: rx_def ry_def rw_def rh_def)
  obtain m where m: "SDL_BlitSurface ?src (Some ?sr) ?dst (Some ?dr) st = Returns () (with_mem m st)"
    and px: "\<And>k. get_pixel (offset_of (pixels_at ?dst)) m k =
      (let X = k mod unat (surf_w ?dst); Y = k div unat (surf_w ?dst) in
       if unat (ry ?dr) \<le> Y \<and> Y < unat (ry ?dr) + unat (rh ?sr) \<and> unat (rx ?dr) \<le> X \<and> X < unat (rx ?dr) + unat (rw ?sr)
       then get_pixel (offset_of (pixels_at ?src)) (mem st)
         ((unat (ry ?sr) + (Y - unat (ry ?dr))) * unat (surf_w ?src) + unat (rx ?sr) + (X - unat (rx ?dr)))
       else get_pixel (offset_of (pixels_at ?dst)) (mem st) k)"
    using blit_correct [of ?src ?dst ?sr 4 ?dr 4 st] unfolding r demo_surface_simps
    by (auto simp: in_ram_def apart_from_def r)
  then show "\<exists>m. SDL_BlitSurface ?src (Some ?sr) ?dst (Some ?dr) st = Returns () (with_mem m st) \<and>
      get_pixel 0x2000 m 14 = get_pixel 0x1000 (mem st) 14 \<and> get_pixel 0x2000 m 4 = get_pixel 0x2000 (mem st) 4"
    using px [of 14] px [of 4] by (intro exI [of _ m]) (simp add: r Let_def)
qed

text \<open>Filling a rectangle of any width fills a run of pixels: the rows of the rectangle are taken to be as
  wide as the rectangle itself.\<close>

lemma block_pixels:
  fixes w h c k :: nat and v :: u32
  shows "get_pixel B (put_pixels B (rect h w (\<lambda>i j. (c + (i * w + j), v))) m) k =
    (if c \<le> k \<and> k < c + w * h then v else get_pixel B m k)"
proof -
  have "(c \<le> k \<and> k < c + w * h) \<longleftrightarrow> (\<exists>i j. k = c + (i * w + j) \<and> i < h \<and> j < w)"
  proof
    assume k: "c \<le> k \<and> k < c + w * h"
    then have "k - c < w * h" "0 < w" by (auto intro: Nat.gr0I)
    then have "(k - c) div w < h" "(k - c) mod w < w" by (simp_all add: less_mult_imp_div_less mult.commute)
    then show "\<exists>i j. k = c + (i * w + j) \<and> i < h \<and> j < w"
      using k by (intro exI [of _ "(k - c) div w"] exI [of _ "(k - c) mod w"]) simp
  next
    assume "\<exists>i j. k = c + (i * w + j) \<and> i < h \<and> j < w"
    then obtain i j where "k = c + (i * w + j)" "i < h" "j < w" by blast
    then show "c \<le> k \<and> k < c + w * h" using index_bound [of 0 h h 0 w w i j] by simp
  qed
  moreover have "get_pixel B (put_pixels B (rect h w (\<lambda>i j. (c + (i * w + j), v))) m) k = v"
    if "k = c + (i * w + j)" "i < h" "j < w" for i j
    using that by (intro get_put_pixels_in) (auto simp: set_rect)
  moreover have "get_pixel B (put_pixels B (rect h w (\<lambda>i j. (c + (i * w + j), v))) m) k = get_pixel B m k"
    if "\<not> (\<exists>i j. k = c + (i * w + j) \<and> i < h \<and> j < w)"
    using that by (intro get_put_pixels_out) (force simp: set_rect)
  ultimately show ?thesis by metis
qed

lemma fill_run:
  assumes "in_ram B (4 * (c + unat w * unat h))" and "int (unat w) = sint w" and "int (unat h) = sint h"
    and "unat y * unat w + unat x = c"
  shows "for_rect w h (\<lambda>i j. st32 (pixel_addr B ((y + i) * w + x + j)) v) st =
    Returns () (with_mem (put_pixels (offset_of B) (rect (unat h) (unat w) (\<lambda>i j. (c + (i * unat w + j), v))) (mem st)) st)"
proof -
  have "st32 (pixel_addr B ((y + of_nat i) * w + x + of_nat j)) v (with_mem m st) =
      Returns () (with_mem (store m (offset_of B + 4 * (c + (i * unat w + j))) (bytes_of_word 4 v)) st)"
    if "i < unat h" "j < unat w" for i j m
  proof -
    have "(y + of_nat i) * w + x + of_nat j = (of_nat (c + (i * unat w + j)) :: u32)"
      unfolding assms(4) [symmetric] by (simp add: algebra_simps)
    moreover have b: "c + (i * unat w + j) < c + unat w * unat h"
      using index_bound [of 0 "unat h" "unat h" 0 "unat w" "unat w" i j] that by simp
    ultimately show ?thesis using put_px_run [OF assms(1) b, of v m st] by metis
  qed
  moreover have "nat (sint w) = unat w" "nat (sint h) = unat h" using assms(2,3) by (metis nat_int)+
  ultimately have "for_rect w h (\<lambda>i j. st32 (pixel_addr B ((y + i) * w + x + j)) v) (with_mem (mem st) st) =
      Returns () (with_mem (put_pixels (offset_of B) (rect (unat h) (unat w) (\<lambda>i j. (c + (i * unat w + j), v))) (mem st)) st)"
    using for_rect_put [where Q = "\<lambda>_. True" and B = "offset_of B" and w = w and h = h and v = "\<lambda>i j. v"
        and idx = "\<lambda>i j. c + (i * unat w + j)" and m = "mem st" and st = st] by simp
  then show ?thesis by simp
qed

lemma nonneg_sint: "0 \<le> sint (x :: u32) \<Longrightarrow> uint x = sint x"
proof -
  assume "0 \<le> sint x"
  moreover have "sint x < 2 ^ 31" using sint_less [of x] by simp
  moreover have "uint x = sint x mod 2 ^ 32" by (simp add: uint_sint take_bit_eq_mod)
  ultimately show ?thesis by (simp add: mod_pos_pos_trivial)
qed

lemma fill_block:
  assumes "in_ram B (4 * (c + unat w * unat h))" and "int (unat w) = sint w" and "int (unat h) = sint h"
    and "unat y * unat w + unat x = c"
  shows "\<exists>m. for_rect w h (\<lambda>i j. st32 (pixel_addr B ((y + i) * w + x + j)) v) st = Returns () (with_mem m st) \<and>
    (\<forall>k. get_pixel (offset_of B) m k =
      (if c \<le> k \<and> k < c + unat w * unat h then v else get_pixel (offset_of B) (mem st) k))"
  unfolding fill_run [OF assms] by (rule exI, rule conjI [OF refl], rule allI, rule block_pixels)

text \<open>Filling a rectangle puts the colour into the run of width times height pixels that begins at pixel
  \<open>y * width + x\<close>, width being that of the rectangle: the rectangle itself only when it is as wide as
  the surface and starts at its left edge. Without a rectangle it is the whole surface.\<close>

lemma fill_correct:
  assumes "BytesPerPixel (format dst) = 4"
    and "in_ram (pixels_at dst) (4 * (unat (ry r) * unat (rw r) + unat (rx r) + unat (rw r) * unat (rh r)))"
    and "in_ram (pixels_at dst) (4 * (unat (surf_w dst) * unat (surf_h dst)))"
    and "0 \<le> sint (surf_w dst)" and "0 \<le> sint (surf_h dst)"
  shows "(\<exists>m. SDL_FillRect dst (Some r) color st = Returns () (with_mem m st) \<and>
      (\<forall>k. get_pixel (offset_of (pixels_at dst)) m k =
        (let c = unat (ry r) * unat (rw r) + unat (rx r) in
         if c \<le> k \<and> k < c + unat (rw r) * unat (rh r) then color else get_pixel (offset_of (pixels_at dst)) (mem st) k))) \<and>
    (\<exists>m. SDL_FillRect dst None color st = Returns () (with_mem m st) \<and>
      (\<forall>k. get_pixel (offset_of (pixels_at dst)) m k =
        (if k < unat (surf_w dst) * unat (surf_h dst) then color else get_pixel (offset_of (pixels_at dst)) (mem st) k)))"
proof (rule conjI)
  let ?c = "unat (ry r) * unat (rw r) + unat (rx r)"
  have "int (unat (rw r)) = sint (rw r)" "int (unat (rh r)) = sint (rh r)"
    using int_u16 by (simp_all only: rw_def rh_def)
  then show "\<exists>m. SDL_FillRect dst (Some r) color st = Returns () (with_mem m st) \<and>
      (\<forall>k. get_pixel (offset_of (pixels_at dst)) m k =
        (let c = ?c in if c \<le> k \<and> k < c + unat (rw r) * unat (rh r) then color else get_pixel (offset_of (pixels_at dst)) (mem st) k))"
    using fill_block [OF assms(2) _ _ refl, of color st] assms(1)
    by (simp add: SDL_FillRect_def gbind_def lib_assert_def Let_def)
  have "int (unat (surf_w dst)) = sint (surf_w dst)" "int (unat (surf_h dst)) = sint (surf_h dst)"
    using assms(4,5) by (simp_all add: nonneg_sint)
  then show "\<exists>m. SDL_FillRect dst None color st = Returns () (with_mem m st) \<and>
      (\<forall>k. get_pixel (offset_of (pixels_at dst)) m k =
        (if k < unat (surf_w dst) * unat (surf_h dst) then color else get_pixel (offset_of (pixels_at dst)) (mem st) k))"
    using fill_block [of "pixels_at dst" 0 "surf_w dst" "surf_h dst" 0 0 color st] assms(1,3)
    by (simp add: SDL_FillRect_def gbind_def lib_assert_def)
qed

lemma fill_correct_witness:
  "\<forall>cl st. \<exists>m. SDL_FillRect (demo_surface cl 8 0x80001000) (Some \<lparr>rect_x = 1, rect_y = 1, rect_w = 2, rect_h = 2\<rparr>) 7 st =
      Returns () (with_mem m st) \<and> get_pixel 0x1000 m 3 = 7 \<and> get_pixel 0x1000 m 9 = get_pixel 0x1000 (mem st) 9"
proof (intro allI)
  fix cl st
  let ?d = "demo_surface cl 8 0x80001000"
  let ?r = "\<lparr>rect_x = 1, rect_y = 1, rect_w = 2, rect_h = 2\<rparr> :: SDL_Rect"
  have r: "rx ?r = 1" "ry ?r = 1" "rw ?r = 2" "rh ?r = 2"
    by (simp_all add: rx_def ry_def rw_def rh_def)
  obtain m where "SDL_FillRect ?d (Some ?r) 7 st = Returns () (with_mem m st)"
    and "\<And>k. get_pixel (offset_of (pixels_at ?d)) m k = (let c = unat (ry ?r) * unat (rw ?r) + unat (rx ?r) in
         if c \<le> k \<and> k < c + unat (rw ?r) * unat (rh ?r) then 7 else get_pixel (offset_of (pixels_at ?d)) (mem st) k)"
    using fill_correct [of ?d ?r 7 st, THEN conjunct1] by (auto simp: in_ram_def r)
  then show "\<exists>m. SDL_FillRect ?d (Some ?r) 7 st = Returns () (with_mem m st) \<and> get_pixel 0x1000 m 3 = 7 \<and>
      get_pixel 0x1000 m 9 = get_pixel 0x1000 (mem st) 9"
    by (intro exI [of _ m]) (simp add: r Let_def)
qed

end
