(* ===== verification/Lib_Surfaces.thy ===== *)
theory Lib_Surfaces
  imports Lib_Drawing
begin

text \<open>
  What holds of every surface the SDL port makes (\<open>libs/libSDL/src/video.c\<close>), and that the bitmap reader
  (\<open>libs/libbmp/src/BMP.c\<close>) widens its lines in place without losing a byte.
\<close>

section \<open>Surfaces: what a surface is\<close>

text \<open>A surface has 8 or 32 bits for a pixel, a palette exactly when it has 8, and rows without padding.\<close>

definition surface_ok :: "SDL_Surface \<Rightarrow> bool" where
  "surface_ok s \<longleftrightarrow>
     (BitsPerPixel (format s) = 8 \<or> BitsPerPixel (format s) = 32) \<and>
     BytesPerPixel (format s) = BitsPerPixel (format s) div 8 \<and>
     (palette_size (format s) = None \<longleftrightarrow> BitsPerPixel (format s) = 32) \<and>
     ucast (pitch s) = surf_w s * ucast (BytesPerPixel (format s))"

lemma lib_assert_Returns: "lib_assert c s = Returns u s' \<longleftrightarrow> c \<and> s' = s"
  by (auto simp: lib_assert_def)

lemma new_format_palette:
  "new_format cl depth Rm Gm Bm Am st = Returns f st' \<Longrightarrow> palette_size f = (if depth = 8 then Some 256 else None)"
  by (auto simp: new_format_def gbind_eq_Returns split: if_splits)

lemma create_surface_ok:
  assumes "SDL_CreateRGBSurface cl flags w h depth Rm Gm Bm Am st = Returns s st'"
  shows "surface_ok s \<and> surf_w s = w \<and> surf_h s = h \<and> surf_flags s = flags \<and> BitsPerPixel (format s) = ucast depth"
proof -
  obtain f st1 st2 where f: "new_format cl depth Rm Gm Bm Am st1 = Returns f st2"
    and d: "depth = 8 \<or> depth = 32"
    and s: "format s = f\<lparr>BitsPerPixel := ucast depth, BytesPerPixel := ucast (depth div 8)\<rparr>" "surf_w s = w" "surf_h s = h" "surf_flags s = flags"
    and p: "ucast (pitch s) = w * ucast (BytesPerPixel (format s))"
    using assms by (auto simp: SDL_CreateRGBSurface_def gbind_eq_Returns lib_assert_Returns Let_def)
  show ?thesis using new_format_palette [OF f] d s p by (auto simp: surface_ok_def)
qed

text \<open>Whatever a program returns satisfies a predicate.\<close>

definition yields :: "('a \<Rightarrow> bool) \<Rightarrow> ('a, 's) prog \<Rightarrow> bool" where
  "yields P f \<longleftrightarrow> (\<forall>st x st'. f st = Returns x st' \<longrightarrow> P x)"

lemma yields_bind: "(\<And>x. yields P (g x)) \<Longrightarrow> yields P (gbind f g)"
  unfolding yields_def by (auto simp: gbind_eq_Returns)

lemma yields_bind_from: "yields Q f \<Longrightarrow> (\<And>x. Q x \<Longrightarrow> yields P (g x)) \<Longrightarrow> yields P (gbind f g)"
  unfolding yields_def by (fastforce simp: gbind_eq_Returns)

lemma yields_Returns [simp]: "yields P (Returns x) \<longleftrightarrow> P x"
  by (simp add: yields_def)

lemma yields_Faulted [simp]: "yields P (\<lambda>_. Faulted e)"
  by (simp add: yields_def)

lemma yields_on_os: "yields P f \<Longrightarrow> yields P (on_os f)"
  by (auto simp: yields_def on_os_def gzoom_def split: outcome.splits)

lemma yields_assert: "(c \<Longrightarrow> yields P (f ())) \<Longrightarrow> yields P (gbind (lib_assert c) f)"
  by (auto simp: yields_def gbind_eq_Returns lib_assert_Returns)

lemma yields_mono: "yields Q f \<Longrightarrow> (\<And>x. Q x \<Longrightarrow> P x) \<Longrightarrow> yields P f"
  by (auto simp: yields_def)

lemma create_yields:
  "yields (\<lambda>s. surface_ok s \<and> surf_w s = w \<and> surf_h s = h \<and> BitsPerPixel (format s) = ucast depth)
     (SDL_CreateRGBSurface cl flags w h depth Rm Gm Bm Am)"
  unfolding yields_def using create_surface_ok by blast

lemma create_from_yields:
  "yields (\<lambda>s. surface_ok s \<and> surf_w s = w \<and> surf_h s = h \<and> pixels_at s = px)
     (SDL_CreateRGBSurfaceFrom cl px w h depth pt Rm Gm Bm Am)"
  unfolding SDL_CreateRGBSurfaceFrom_def
  by (rule yields_bind_from [OF create_yields]) (auto intro!: yields_assert simp: surface_ok_def)

lemma video_yields: "yields surface_ok (SDL_SetVideoMode cl n buf w h bpp flags)"
  unfolding SDL_SetVideoMode_def
  by (rule yields_bind) (auto intro!: yields_on_os intro: yields_mono [OF create_yields])

lemma convert_yields:
  "yields (\<lambda>s. surface_ok s \<and> surf_w s = surf_w src \<and> surf_h s = surf_h src) (SDL_ConvertSurface cl src fmt flags)"
  unfolding SDL_ConvertSurface_def
  by (intro yields_assert, rule yields_bind_from [OF create_yields]) (auto intro!: yields_assert yields_bind)

lemma load_yields: "yields surface_ok (SDL_LoadBMP cl filename hdr)"
  unfolding SDL_LoadBMP_def
  by (rule yields_bind)
    (auto split: option.split intro!: yields_assert intro: yields_bind_from [OF create_from_yields] simp: surface_ok_def)

lemma palette_yields: "surface_ok s \<Longrightarrow> yields surface_ok (SDL_SetPalette cl s cols firstcolor ncolors)"
  unfolding SDL_SetPalette_def
  unfolding Let_def by (intro yields_assert) (auto simp: surface_ok_def intro!: yields_bind)

text \<open>The row length of a surface of 32 bits fits its 16 bits only below 16384 pixels.\<close>

lemma sdiv_positive: "0 \<le> a \<Longrightarrow> 0 < b \<Longrightarrow> (a :: int) sdiv b = a div b"
  by (cases "a = 0") (simp_all add: signed_divide_int_def sgn_1_pos)

lemma ucast_of_nat_u16: "(ucast (of_nat n :: u32) :: u16) = of_nat n"
  by (simp add: word_unat_eq_iff unsigned_ucast_eq unsigned_of_nat take_bit_take_bit)

lemma unat_u16_u32: "unat (ucast (of_nat n :: u16) :: u32) = n mod 2 ^ 16"
proof -
  have "unat (of_nat n :: u16) = n mod 2 ^ 16" by (simp add: unsigned_of_nat take_bit_eq_mod)
  moreover have "n mod 2 ^ 16 < 2 ^ LENGTH(32)" by (rule less_trans [of _ "2 ^ 16"]) simp_all
  ultimately show ?thesis by (simp only: unsigned_ucast_eq take_bit_nat_eq_self)
qed

lemma pitch_fits:
  assumes "unat w < 2 ^ 26"
  shows "ucast (ucast (word_of_int (sint (w * 32) sdiv 8) :: u32) :: u16) = w * (4 :: u32) \<longleftrightarrow> unat w < 16384"
proof -
  have "unat (w * 32) = unat w * 32" using assms by (simp add: unat_word_ariths)
  then have "sint (w * 32) = int (unat w * 32)" using assms sint_small [of "w * 32"] by simp
  then have "sint (w * 32) sdiv 8 = int (4 * unat w)" using sdiv_positive [of "int (unat w * 32)" 8] by simp
  then have p: "(ucast (word_of_int (sint (w * 32) sdiv 8) :: u32) :: u16) = of_nat (4 * unat w)"
    by (simp only: of_int_of_nat_eq ucast_of_nat_u16)
  have "unat (ucast (of_nat (4 * unat w) :: u16) :: u32) = (4 * unat w) mod 2 ^ 16"
    by (rule unat_u16_u32)
  moreover have "unat (w * 4) = 4 * unat w" using assms by (simp add: unat_word_ariths)
  ultimately have "ucast (of_nat (4 * unat w) :: u16) = w * (4 :: u32) \<longleftrightarrow> (4 * unat w) mod 2 ^ 16 = 4 * unat w"
    by (metis word_unat_eq_iff)
  also have "\<dots> \<longleftrightarrow> unat w < 16384" by (auto simp: mod_eq_self_iff_div_eq_0)
  finally show ?thesis unfolding p .
qed

lemma create_run:
  assumes "\<And>n st. malloc cl n st = Returns 0x80100000 st" and "unat w < 2 ^ 26"
  shows "(\<exists>s. SDL_CreateRGBSurface cl flags w h 32 DEFAULT_RMASK DEFAULT_GMASK DEFAULT_BMASK DEFAULT_AMASK st = Returns s st)
    \<longleftrightarrow> unat w < 16384"
  using pitch_fits [OF assms(2)]
    by (simp add: SDL_CreateRGBSurface_def gbind_def lib_assert_def new_format_def maskToShift_def assms(1)
        DEFAULT_RMASK_def DEFAULT_GMASK_def DEFAULT_BMASK_def DEFAULT_AMASK_def Let_def)


definition never_fails :: "clib \<Rightarrow> clib" where
  "never_fails cl = cl\<lparr>malloc := \<lambda>n. Returns 0x80100000\<rparr>"


section \<open>Bitmaps\<close>

lemma mem_get_run: "in_ram a n \<Longrightarrow> on_hw (mem_get a n) st = Returns (load (mem st) (offset_of a) n) st"
  by (simp add: on_hw_def gzoom_def mem_get_def in_ram_def)

lemma three_bytes:
  "push_bit 16 (ucast c2) OR push_bit 8 (ucast c1) OR ucast c0 = (word_of_bytes [c0, c1, c2] :: u32)"
  by (simp add: push_bit_or ac_simps)

lemma byte_addr:
  assumes "in_ram row n" and "k + l \<le> n"
  shows "in_ram (row + of_nat k) l" and "offset_of (row + of_nat k) = offset_of row + k"
proof -
  have "unat row + k < 2 ^ 32" using assms by (auto simp: in_ram_def)
  moreover have "k < 2 ^ 32" using calculation by simp
  ultimately have "unat (row + of_nat k) = unat row + k" by (simp add: unat_word_ariths unsigned_of_nat take_bit_nat_eq_self)
  then show "in_ram (row + of_nat k) l" "offset_of (row + of_nat k) = offset_of row + k"
    using assms by (auto simp: in_ram_def)
qed

lemma bmp_pixel_run:
  assumes "in_ram row (4 * w)" and "j < w"
  shows "bmp_pixel row j (with_mem m st) =
    Returns () (with_mem (store m (offset_of row + 4 * j) (bytes_of_word 4 (word_of_bytes (load m (offset_of row + 3 * j) 3) :: u32))) st)"
proof -
  have a: "row + 3 * of_nat j = row + of_nat (3 * j)" "row + 4 * of_nat j = row + of_nat (4 * j)" by simp_all
  note src = byte_addr [OF assms(1), of "3 * j" 3]
  note dst = byte_addr [OF assms(1), of "4 * j" 4]
  let ?c = "load m (offset_of row + 3 * j) 3"
  have "?c = [?c ! 0, ?c ! 1, ?c ! 2]" by (intro nth_equalityI) (auto simp: less_Suc_eq numeral_3_eq_3 numeral_2_eq_2 nth_Cons')
  then have "push_bit 16 (ucast (?c ! 2)) OR push_bit 8 (ucast (?c ! 1)) OR ucast (?c ! 0) = (word_of_bytes ?c :: u32)"
    by (metis three_bytes)
  then show ?thesis
    unfolding bmp_pixel_def a gbind_def using src dst assms(2)
    by (simp add: mem_get_run st32_run del: of_nat_mult)
qed

lemma bmp_pixels_run:
  fixes m :: bytes
  assumes "in_ram row (4 * w)" and "n \<le> w"
  defines "v \<equiv> \<lambda>j. word_of_bytes (load m (offset_of row + 3 * j) 3) :: u32"
  shows "gfor (rev [n..<w]) (bmp_pixel row) (with_mem m st) =
    Returns () (with_mem (put_pixels (offset_of row) (map (\<lambda>j. (j, v j)) (rev [n..<w])) m) st)"
  using assms(2)
proof (induction "w - n" arbitrary: n)
  case 0
  then show ?case by simp
next
  case (Suc d)
  then have n: "n < w" "d = w - Suc n" by simp_all
  let ?ps = "map (\<lambda>j. (j, v j)) (rev [Suc n..<w])"
  let ?m = "put_pixels (offset_of row) ?ps m"
  have split: "rev [n..<w] = rev [Suc n..<w] @ [n]" using n(1) by (simp add: upt_conv_Cons)
  have "load ?m (offset_of row + 3 * n) 3 = load m (offset_of row + 3 * n) 3"
    by (intro load_cong put_pixels_outside) auto
  then have "bmp_pixel row n (with_mem ?m st) = Returns () (with_mem (put_pixels (offset_of row) (?ps @ [(n, v n)]) m) st)"
    using bmp_pixel_run [OF assms(1) n(1)] by (simp add: v_def)
  then show ?case using Suc(1) [OF n(2)] n(1) unfolding split by (simp add: gfor_append gbind_def)
qed

text \<open>A line of a bitmap is widened in place: every pixel becomes the word of the three bytes that were
  read for it, although the words overlap the bytes, and nothing outside the line changes.\<close>

lemma bmp_line_correct:
  assumes "in_ram row (4 * w)"
  shows "\<exists>m. bmp_line row w st = Returns () (with_mem m st) \<and>
    (\<forall>k < w. get_pixel (offset_of row) m k = word_of_bytes (load (mem st) (offset_of row + 3 * k) 3)) \<and>
    (\<forall>x. x < offset_of row \<or> offset_of row + 4 * w \<le> x \<longrightarrow> m x = mem st x)"
proof -
  let ?v = "\<lambda>j. word_of_bytes (load (mem st) (offset_of row + 3 * j) 3) :: u32"
  let ?ps = "map (\<lambda>j. (j, ?v j)) (rev [0..<w])"
  have "bmp_line row w st = Returns () (with_mem (put_pixels (offset_of row) ?ps (mem st)) st)"
    using bmp_pixels_run [OF assms, of 0 "mem st" st] by (simp add: bmp_line_def)
  moreover have "get_pixel (offset_of row) (put_pixels (offset_of row) ?ps (mem st)) k = ?v k" if "k < w" for k
    using that by (intro get_put_pixels_in) auto
  moreover have "put_pixels (offset_of row) ?ps (mem st) x = mem st x" if "x < offset_of row \<or> offset_of row + 4 * w \<le> x" for x
    using that by (intro put_pixels_outside) auto
  ultimately show ?thesis by blast
qed

lemma bmp_line_correct_witness:
  "\<forall>st. \<exists>m. bmp_line 0x80000000 2 (with_mem (store (\<lambda>_. 0) 0 [1, 2, 3, 4, 5, 6]) st) = Returns () (with_mem m st) \<and>
    get_pixel 0 m 0 = 0x030201 \<and> get_pixel 0 m 1 = 0x060504"
proof
  fix st
  let ?m = "store (\<lambda>_. 0) 0 [1, 2, 3, 4, 5, 6]"
  have "in_ram 0x80000000 (4 * 2)" by (simp add: in_ram_def)
  from bmp_line_correct [OF this, of "with_mem ?m st"] obtain m where
    m: "bmp_line 0x80000000 2 (with_mem ?m st) = Returns () (with_mem m st)"
    "\<forall>k < 2. get_pixel 0 m k = word_of_bytes (load ?m (3 * k) 3)" by auto
  have "load ?m 0 3 = [1, 2, 3]" "load ?m 3 3 = [4, 5, 6]"
    by (simp_all add: load_def store_def numeral_3_eq_3)
  then show "\<exists>m. bmp_line 0x80000000 2 (with_mem ?m st) = Returns () (with_mem m st) \<and>
      get_pixel 0 m 0 = 0x030201 \<and> get_pixel 0 m 1 = 0x060504"
    using m(1) m(2) [rule_format, of 0] m(2) [rule_format, of 1] by (intro exI [of _ m]) simp
qed

end
