(* ===== verification/Func_Base.thy ===== *)
theory Func_Base
  imports Prelude
begin

text \<open>
  What the programs of \<open>functest/src\<close> share: \<open>check\<close> of \<open>functest/include/trap.h\<close>, arrays with their
  bounds, counting loops. A failed check, which halts the machine with code 1, is the fault
  \<open>Assertion\<close>; an access outside an array is \<open>Out_of_bounds\<close>.
\<close>

definition check :: "bool \<Rightarrow> unit res" where
  "check c = rassert Assertion c"

lemma check_simps [simp, res_simps]: "check True = Inr ()" "check False = Inl Assertion"
  by (simp_all add: check_def)

text \<open>What the machine reports at the end of a program, 0 for a good one.\<close>

definition exit_code :: "u32 res \<Rightarrow> u32 option" where
  "exit_code r = (case r of Inr c \<Rightarrow> Some c | Inl Assertion \<Rightarrow> Some 1 | Inl _ \<Rightarrow> None)"

definition rget :: "'a list \<Rightarrow> int \<Rightarrow> 'a res" where
  "rget a i = (if 0 \<le> i \<and> nat i < length a then Inr (a ! nat i) else Inl Out_of_bounds)"

definition rput :: "'a list \<Rightarrow> int \<Rightarrow> 'a \<Rightarrow> 'a list res" where
  "rput a i v = (if 0 \<le> i \<and> nat i < length a then Inr (a[nat i := v]) else Inl Out_of_bounds)"

lemma rget_in [simp]: "0 \<le> i \<Longrightarrow> nat i < length a \<Longrightarrow> rget a i = Inr (a ! nat i)"
  by (simp add: rget_def)

lemma rput_in [simp]: "0 \<le> i \<Longrightarrow> nat i < length a \<Longrightarrow> rput a i v = Inr (a[nat i := v])"
  by (simp add: rput_def)

lemma rget_eq_Inr_iff: "rget a i = Inr x \<longleftrightarrow> 0 \<le> i \<and> nat i < length a \<and> x = a ! nat i"
  by (auto simp: rget_def)

lemma rput_eq_Inr_iff: "rput a i v = Inr b \<longleftrightarrow> 0 \<le> i \<and> nat i < length a \<and> b = a[nat i := v]"
  by (auto simp: rput_def)

text \<open>A loop over a range with an invariant for every step.\<close>

lemma rfold_upt:
  assumes "P m s" and "m \<le> n"
    and "\<And>i a. m \<le> i \<Longrightarrow> i < n \<Longrightarrow> P i a \<Longrightarrow> \<exists>b. f i a = Inr b \<and> P (Suc i) b"
  shows "\<exists>t. rfold f [m..<n] s = Inr t \<and> P n t"
  using assms(2,3)
proof (induction n)
  case 0
  then show ?case using assms(1) by simp
next
  case (Suc n)
  show ?case
  proof (cases "m \<le> n")
    case True
    then obtain t where "rfold f [m..<n] s = Inr t" "P n t" using Suc by fastforce
    moreover obtain u where "f n t = Inr u" "P (Suc n) u" using Suc.prems(2) [of n t] True \<open>P n t\<close> by auto
    ultimately show ?thesis using True by (simp add: rfold_append)
  next
    case False
    then have "m = Suc n" using Suc.prems(1) by simp
    then show ?thesis using assms(1) by simp
  qed
qed

lemma rfold_cong_upt:
  "(\<And>i a. i \<in> set xs \<Longrightarrow> f i a = g i a) \<Longrightarrow> rfold f xs s = rfold g xs s"
proof (induction xs arbitrary: s)
  case (Cons x xs)
  then have "rfold f xs = rfold g xs" by (intro ext) simp
  then show ?case using Cons.prems by simp
qed simp

end
