(* ===== verification/Func_Numbers.thy ===== *)
theory Func_Numbers
  imports Func_Base "HOL-Library.Signed_Division"
begin

text \<open>
  The programs on numbers: primes, Goldbach's decomposition, the factors of a Mersenne number, factorials,
  Fibonacci numbers, Pascal's triangle, perfect and narcissistic numbers, mutual recursion.
\<close>

section \<open>Primes\<close>

text \<open>\<open>for (i = 2; i < n; i ++) if (n % i == 0) return 0; return 1\<close>; all values are those of an
  \<open>int\<close> and do not grow, so no operation overflows.\<close>

function no_divisor_from :: "int \<Rightarrow> int \<Rightarrow> bool" where
  "no_divisor_from n i = (if i < n then (if n mod i = 0 then False else no_divisor_from n (i + 1)) else True)"
  by pat_completeness auto
termination by (relation "measure (\<lambda>(n, i). nat (n - i))") auto

declare no_divisor_from.simps [simp del]

definition is_prime :: "int \<Rightarrow> int" where
  "is_prime n = (if n < 2 then 0 else if no_divisor_from n 2 then 1 else 0)"

definition prime_number :: "int \<Rightarrow> bool" where
  "prime_number n \<longleftrightarrow> 1 < n \<and> (\<forall>d. 1 < d \<and> d < n \<longrightarrow> \<not> d dvd n)"

function goldbach_from :: "int \<Rightarrow> int \<Rightarrow> int" where
  "goldbach_from n i =
     (if i < n then (if is_prime i \<noteq> 0 \<and> is_prime (n - i) \<noteq> 0 then 1 else goldbach_from n (i + 1)) else 0)"
  by pat_completeness auto
termination by (relation "measure (\<lambda>(n, i). nat (n - i))") auto

declare goldbach_from.simps [simp del]

definition goldbach :: "int \<Rightarrow> int" where "goldbach n = goldbach_from n 2"

definition goldbach_main :: "u32 res" where
  "goldbach_main = rbind (rfold (\<lambda>k u. check (goldbach (int (4 + 2 * k)) = 1)) [0..<14] ()) (\<lambda>_. Inr 0)"

lemma split_first: "i < (n :: int) \<Longrightarrow> (i \<le> d \<and> d < n) = (d = i \<or> (i + 1 \<le> d \<and> d < n))"
  by auto

lemma no_divisor_from_iff: "no_divisor_from n i \<longleftrightarrow> (\<forall>d. i \<le> d \<and> d < n \<longrightarrow> \<not> d dvd n)"
proof (induction n i rule: no_divisor_from.induct)
  case (1 n i)
  show ?case
  proof (cases "i < n")
    case True
    have "(\<forall>d. i \<le> d \<and> d < n \<longrightarrow> \<not> d dvd n) \<longleftrightarrow> \<not> i dvd n \<and> (\<forall>d. i + 1 \<le> d \<and> d < n \<longrightarrow> \<not> d dvd n)"
      unfolding split_first [OF True] by blast
    then show ?thesis using 1 True by (subst no_divisor_from.simps) (simp add: dvd_eq_mod_eq_0)
  next
    case False
    then show ?thesis by (subst no_divisor_from.simps) auto
  qed
qed

lemma is_prime_iff: "is_prime n = (if prime_number n then 1 else 0)"
  by (auto simp: is_prime_def prime_number_def no_divisor_from_iff)

lemma goldbach_from_iff:
  "goldbach_from n i = (if \<exists>p. (i \<le> p \<and> p < n) \<and> prime_number p \<and> prime_number (n - p) then 1 else 0)"
proof (induction n i rule: goldbach_from.induct)
  case (1 n i)
  let ?Q = "\<lambda>p. prime_number p \<and> prime_number (n - p)"
  show ?case
  proof (cases "i < n")
    case True
    have "(\<exists>p. (i \<le> p \<and> p < n) \<and> ?Q p) \<longleftrightarrow> ?Q i \<or> (\<exists>p. (i + 1 \<le> p \<and> p < n) \<and> ?Q p)"
      unfolding split_first [OF True] by blast
    then show ?thesis using 1 True by (subst goldbach_from.simps) (auto simp: is_prime_iff)
  next
    case False
    then show ?thesis by (subst goldbach_from.simps) auto
  qed
qed

text \<open>\<open>is_prime\<close> decides primality and \<open>goldbach\<close> whether a number is the sum of two primes.\<close>

lemma is_prime_goldbach_correct:
  "is_prime n = (if prime_number n then 1 else 0) \<and>
   goldbach n = (if \<exists>p q. prime_number p \<and> prime_number q \<and> n = p + q then 1 else 0)"
proof -
  have "(\<exists>p. (2 \<le> p \<and> p < n) \<and> prime_number p \<and> prime_number (n - p)) \<longleftrightarrow>
      (\<exists>p q. prime_number p \<and> prime_number q \<and> n = p + q)"
  proof
    assume "\<exists>p q. prime_number p \<and> prime_number q \<and> n = p + q"
    then obtain p q where "prime_number p" "prime_number q" "n = p + q" by blast
    then show "\<exists>p. (2 \<le> p \<and> p < n) \<and> prime_number p \<and> prime_number (n - p)"
      by (intro exI [of _ p]) (auto simp: prime_number_def)
  qed (metis add.commute diff_add_cancel)
  then show ?thesis by (simp add: is_prime_iff goldbach_def goldbach_from_iff)
qed

lemma goldbach_main: "goldbach_main = Inr 0"
  by (simp add: goldbach_main_def upt_rec goldbach_def goldbach_from.simps is_prime_def no_divisor_from.simps)

text \<open>\<open>isPrime\<close> of \<open>mersenne.c\<close> tries 5, 7, 11, 13, \<dots> only, while the square of the divisor, computed in 32
  bits, is at most \<open>n\<close>. Not returning is \<open>None\<close>.\<close>

definition signed :: "int \<Rightarrow> int" where
  "signed x = sint (word_of_int x :: u32)"

partial_function (option) isPrime_loop :: "int \<Rightarrow> int \<Rightarrow> int option" where
  "isPrime_loop n d =
     (if signed (d * d) \<le> n then
        if n smod d = 0 then Some 0
        else if n smod signed (d + 2) = 0 then Some 0
        else isPrime_loop n (signed (signed (d + 2) + 4))
      else Some 1)"

definition isPrime :: "int \<Rightarrow> int option" where
  "isPrime n =
     (if n smod 2 = 0 then Some (if n = 2 then 1 else 0)
      else if n smod 3 = 0 then Some (if n = 3 then 1 else 0)
      else isPrime_loop n 5)"

lemma signed_small: "- 0x80000000 \<le> x \<Longrightarrow> x < 0x80000000 \<Longrightarrow> signed x = x"
  by (simp add: signed_def sint_sbintrunc' signed_take_bit_int_eq_self)

lemma smod_zero: "0 \<le> n \<Longrightarrow> n smod d = 0 \<longleftrightarrow> d dvd (n :: int)"
  by (simp add: signed_modulo_int_def signed_divide_int_def sgn_if dvd_eq_mod_eq_0 minus_mult_div_eq_mod)
    (metis abs_dvd_iff dvd_eq_mod_eq_0)

lemma no_small_divisor:
  assumes "(d :: int) mod 6 = 5" and "5 \<le> d" and "\<not> 2 dvd n" and "\<not> 3 dvd n" and "\<not> d dvd n" and "\<not> (d + 2) dvd n"
    and "\<forall>e. 1 < e \<and> e < d \<longrightarrow> \<not> e dvd n"
  shows "\<forall>e. 1 < e \<and> e < d + 6 \<longrightarrow> \<not> e dvd n"
proof (intro allI impI notI)
  fix e assume e: "1 < e \<and> e < d + 6" "e dvd n"
  then have "d \<le> e" using assms(7) by force
  then have "e = d \<or> e = d + 2 \<or> 2 dvd e \<or> 3 dvd e" using assms(1) e(1) by presburger
  then consider "e = d" | "e = d + 2" | "2 dvd e" | "3 dvd e" by blast
  then show False using assms(3-6) e(2) by cases (auto intro: dvd_trans)
qed

lemma isPrime_loop_run:
  assumes "d mod 6 = 5" and "5 \<le> d" and "d \<le> 46337" and "1 < n" and "n < 46337 * 46337" and "\<not> 2 dvd n" and "\<not> 3 dvd n"
    and "\<forall>e. 1 < e \<and> e < d \<longrightarrow> \<not> e dvd n"
  shows "isPrime_loop n d = Some (if prime_number n then 1 else 0)"
  using assms
proof (induction "nat (46337 - d)" arbitrary: d rule: less_induct)
  case less
  have "d * d \<le> 46337 * 46337" using less.prems(2,3) by (intro mult_mono) auto
  moreover have "0 \<le> d * d" by (rule zero_le_square)
  ultimately have "signed (d * d) = d * d" by (intro signed_small) linarith+
  moreover have "signed (d + 2) = d + 2" "signed (d + 2 + 4) = d + 6" using less.prems(2,3) by (simp_all add: signed_small)
  ultimately have small: "signed (d * d) = d * d" "signed (d + 2) = d + 2" "signed (d + 2 + 4) = d + 6" by simp_all
  show ?case
  proof (cases "d * d \<le> n")
    case True
    have "5 * d \<le> d * d" using less.prems(2) by (intro mult_right_mono) auto
    then have dn: "d + 2 < n" using True less.prems(2) by linarith
    show ?thesis
    proof (cases "d dvd n \<or> (d + 2) dvd n")
      case True
      then have "\<not> prime_number n" using dn less.prems(2) by (force simp: prime_number_def)
      then show ?thesis using True \<open>d * d \<le> n\<close> small less.prems(4)
        by (subst isPrime_loop.simps) (auto simp: smod_zero)
    next
      case False
      have "d \<noteq> 46337" using True less.prems(5) by auto
      then have d6: "d + 6 \<le> 46337" "(d + 6) mod 6 = 5" using less.prems(1,3) by presburger+
      have "isPrime_loop n (d + 6) = Some (if prime_number n then 1 else 0)"
        using no_small_divisor [OF less.prems(1,2,6,7)] False less.prems d6 by (intro less.hyps) auto
      then show ?thesis using True False small less.prems(4)
        by (subst isPrime_loop.simps) (simp add: smod_zero)
    qed
  next
    case False
    have "\<not> e dvd n" if e: "1 < e" "e < n" for e
    proof
      assume "e dvd n"
      then obtain f where f: "n = e * f" by (elim dvdE)
      then have "0 < f" using less.prems(4) e by (metis less_trans zero_less_mult_pos zero_less_one)
      have "f \<noteq> 1" using f e by auto
      then have "1 < f" using \<open>0 < f\<close> by linarith
      moreover have "f dvd n" using f by simp
      ultimately have "d \<le> f" "d \<le> e" using less.prems(8) e \<open>e dvd n\<close> by (meson not_le)+
      then have "d * d \<le> n" unfolding f using less.prems(2) e by (intro mult_mono) auto
      then show False using False by simp
    qed
    then have "prime_number n" using less.prems(4) by (simp add: prime_number_def)
    then show ?thesis using False small by (subst isPrime_loop.simps) simp
  qed
qed

lemma isPrime_loop_max: "isPrime_loop n d = Some r \<Longrightarrow> n = 0x7fffffff \<longrightarrow> r = 0"
proof (rule isPrime_loop.raw_induct [of "\<lambda>n d r. n = 0x7fffffff \<longrightarrow> r = 0"])
  fix loop :: "int \<Rightarrow> int \<Rightarrow> int option" and n d r
  assume IH: "\<And>n d r. loop n d = Some r \<Longrightarrow> n = 0x7fffffff \<longrightarrow> r = 0"
    and r: "(if signed (d * d) \<le> n then if n smod d = 0 then Some 0 else if n smod signed (d + 2) = 0 then Some 0
      else loop n (signed (signed (d + 2) + 4)) else Some 1) = Some r"
  have "signed (d * d) \<le> 0x7fffffff" using sint_less [of "word_of_int (d * d) :: u32"] by (simp add: signed_def)
  then show "n = 0x7fffffff \<longrightarrow> r = 0" using IH r by (auto split: if_splits)
qed

text \<open>For every number from 2 below the square of 46337 \<open>isPrime\<close> returns, and says whether the number is
  prime; the largest \<open>int\<close>, a prime, is never reported as one, since the square of the divisor wraps
  before it exceeds it.\<close>

lemma isPrime_returns:
  assumes "2 \<le> n" and "n < 46337 * 46337"
  shows "isPrime n = Some (if prime_number n then 1 else 0) \<and> isPrime 0x7fffffff \<noteq> Some 1"
proof (rule conjI)
  show "isPrime n = Some (if prime_number n then 1 else 0)"
  proof (cases "2 dvd n \<or> 3 dvd n")
    case True
    have "prime_number n \<longleftrightarrow> n = 2 \<or> n = 3"
    proof
      assume "prime_number n"
      then show "n = 2 \<or> n = 3" using True assms(1) unfolding prime_number_def by (smt (verit))
    next
      assume "n = 2 \<or> n = 3"
      moreover have "\<not> d dvd n" if "1 < d" "d < n" for d
      proof -
        have "n = 3" "d = 2" using that \<open>n = 2 \<or> n = 3\<close> by auto
        then show ?thesis by simp
      qed
      ultimately show "prime_number n" by (auto simp: prime_number_def)
    qed
    then show ?thesis using True assms(1) by (auto simp: isPrime_def smod_zero)
  next
    case False
    have "\<forall>e. 1 < e \<and> e < 5 \<longrightarrow> \<not> e dvd n"
    proof (intro allI impI)
      fix e :: int assume "1 < e \<and> e < 5"
      then consider "e = 2" | "e = 3" | "e = 4" by linarith
      then show "\<not> e dvd n" using False by cases (auto dest: dvd_trans [of 2 4])
    qed
    then show ?thesis using False assms isPrime_loop_run [of 5 n] by (simp add: isPrime_def smod_zero)
  qed
  show "isPrime 0x7fffffff \<noteq> Some 1" using isPrime_loop_max [of "0x7fffffff" 5 1] by (auto simp: isPrime_def)
qed

lemma isPrime_returns_witness: "\<exists>r. isPrime 929 = Some r \<and> (r = 1 \<longleftrightarrow> prime_number 929)"
  using isPrime_returns [of 929] by simp

text \<open>The search for a factor of a Mersenne number: \<open>r\<close> is the exponent shifted to the top, \<open>i\<close> runs through
  the powers of two modulo \<open>d\<close>.\<close>

partial_function (option) shift_top :: "u32 \<Rightarrow> u32 option" where
  "shift_top r = (if sint r > 0 then shift_top (push_bit 1 r) else Some r)"

definition power_step :: "u32 \<Rightarrow> int \<Rightarrow> int \<Rightarrow> int" where
  "power_step p i d =
     (let i = (i * i) smod d; i = (if sint p < 0 then i * 2 else i) in if i > d then i - d else i)"

partial_function (option) power_loop :: "u32 \<Rightarrow> int \<Rightarrow> int \<Rightarrow> int option" where
  "power_loop p i d = (if p = 0 then Some i else power_loop (push_bit 1 p) (power_step p i d) d)"

partial_function (option) factor_loop :: "u32 \<Rightarrow> int \<Rightarrow> int \<Rightarrow> int option" where
  "factor_loop r q d =
     Option.bind (power_loop r 1 d) (\<lambda>i. if i \<noteq> 1 then factor_loop r q (d + 2 * q) else Some d)"

definition mersenne_main :: "u32 res option" where
  "mersenne_main =
     Option.bind (isPrime 929) (\<lambda>b.
     if b = 0 then Some (Inr 1)
     else Option.bind (shift_top 929) (\<lambda>r.
       Option.bind (factor_loop r 929 (2 * 929 + 1)) (\<lambda>d.
       Some (rbind (check (d = 13007)) (\<lambda>_. Inr 0)))))"

declare isPrime_loop.simps [code] shift_top.simps [code] power_loop.simps [code] factor_loop.simps [code]

lemma mersenne_main: "mersenne_main = Some (Inr 0)"
  by code_simp

section \<open>Factorials, Fibonacci numbers, Pascal's triangle\<close>

partial_function (option) fact_c :: "int \<Rightarrow> u32 option" where
  "fact_c n = (if n = 0 \<or> n = 1 then Some 1 else Option.bind (fact_c (n - 1)) (\<lambda>r. Some (r * word_of_int n)))"

declare fact_c.simps [code]

definition fact_ans :: "u32 list" where
  "fact_ans = [1, 1, 2, 6, 24, 120, 720, 5040, 40320, 362880, 3628800, 39916800, 479001600]"

definition fact_main :: "u32 res" where
  "fact_main = rbind (rfold (\<lambda>i u. check (fact_c (int i) = Some (fact_ans ! i))) [0..<13] ()) (\<lambda>_. Inr 0)"

lemma fact_c_run: "fact_c (int n) = Some (of_nat (fact n))"
proof (induction n)
  case 0
  then show ?case by (subst fact_c.simps) simp
next
  case (Suc n)
  show ?case
  proof (cases "n = 0")
    case True
    then show ?thesis by (subst fact_c.simps) simp
  next
    case False
    then show ?thesis using Suc by (subst fact_c.simps) (simp add: algebra_simps)
  qed
qed

definition fib_init :: "u32 list" where "fib_init = [1, 1] @ replicate 38 0"

definition fib_ans :: "u32 list" where
  "fib_ans = [1, 1, 2, 3, 5, 8, 13, 21, 34, 55, 89, 144, 233, 377, 610, 987, 1597, 2584, 4181, 6765, 10946, 17711,
     28657, 46368, 75025, 121393, 196418, 317811, 514229, 832040, 1346269, 2178309, 3524578, 5702887, 9227465,
     14930352, 24157817, 39088169, 63245986, 102334155]"

definition fib_step :: "nat \<Rightarrow> u32 list \<Rightarrow> u32 list res" where
  "fib_step i fib =
     rbind (rget fib (int i - 1)) (\<lambda>x. rbind (rget fib (int i - 2)) (\<lambda>y. rput fib (int i) (x + y)))"

definition fib_main :: "u32 res" where
  "fib_main =
     rbind (rfold (\<lambda>i fib. rbind (fib_step i fib) (\<lambda>fib. rbind (rget fib (int i)) (\<lambda>x.
       rbind (check (x = fib_ans ! i)) (\<lambda>_. Inr fib)))) [2..<40] fib_init) (\<lambda>_. Inr 0)"

fun fibonacci :: "nat \<Rightarrow> nat" where
  "fibonacci 0 = 1"
| "fibonacci (Suc 0) = 1"
| "fibonacci (Suc (Suc n)) = fibonacci n + fibonacci (Suc n)"

lemma fib_table:
  "\<exists>fib. rfold fib_step [2..<40] fib_init = Inr fib \<and> length fib = 40 \<and> (\<forall>i < 40. fib ! i = of_nat (fibonacci i))"
proof -
  let ?P = "\<lambda>n (fib :: u32 list). length fib = 40 \<and> (\<forall>i < n. fib ! i = of_nat (fibonacci i))"
  have "\<exists>fib. rfold fib_step [2..<40] fib_init = Inr fib \<and> ?P 40 fib"
  proof (rule rfold_upt [where P = ?P])
    show "?P 2 fib_init" by (auto simp: fib_init_def numeral_2_eq_2 less_Suc_eq)
    fix i fib assume i: "2 \<le> i" "i < 40" and fib: "?P i fib"
    obtain k where k: "i = Suc (Suc k)" using i(1) by (metis add_2_eq_Suc le_Suc_ex)
    have "fib_step i fib = Inr (fib[i := of_nat (fibonacci i)])"
    proof -
      have e: "int i - 1 = int (Suc k)" "int i - 2 = int k" using k by simp_all
      have "fib_step i fib = Inr (fib[i := fib ! Suc k + fib ! k])"
        unfolding fib_step_def e using i fib k by (simp del: of_nat_Suc)
      then show ?thesis using fib k by (simp add: add.commute)
    qed
    then show "\<exists>b. fib_step i fib = Inr b \<and> ?P (Suc i) b"
      using fib i by (auto simp: nth_list_update less_Suc_eq)
  qed simp
  then show ?thesis by simp
qed

definition pascal_N :: nat where "pascal_N = 31"

definition pascal_ans :: "u32 list" where
  "pascal_ans = [1, 30, 435, 4060, 27405, 142506, 593775, 2035800, 5852925, 14307150, 30045015, 54627300, 86493225,
     119759850, 145422675, 155117520, 145422675, 119759850, 86493225, 54627300, 30045015, 14307150, 5852925, 2035800,
     593775, 142506, 27405, 4060, 435, 30, 1]"

definition pascal_step :: "nat \<Rightarrow> u32 list \<times> u32 \<Rightarrow> (u32 list \<times> u32) res" where
  "pascal_step j = (\<lambda>(a, t0). rbind (rget a (int j)) (\<lambda>t1. rbind (rput a (int j) (t0 + t1)) (\<lambda>a. Inr (a, t1))))"

definition pascal_row :: "nat \<Rightarrow> u32 list \<Rightarrow> u32 list res" where
  "pascal_row i a = rbind (rfold pascal_step [1..<i] (a, 1)) (\<lambda>(a, t0). rput a (int i) 1)"

definition pascal :: "u32 list \<Rightarrow> u32 list res" where
  "pascal a = rbind (rput a 1 1) (\<lambda>a. rbind (rput a 0 1) (\<lambda>a. rfold pascal_row [2..<pascal_N] a))"

definition pascal_main :: "u32 res" where
  "pascal_main =
     rbind (pascal (replicate pascal_N 0)) (\<lambda>a.
     rbind (rfold (\<lambda>j u. rbind (rget a (int j)) (\<lambda>x. check (x = pascal_ans ! j))) [0..<pascal_N] ()) (\<lambda>_. Inr 0))"

lemma pascal_row_run:
  assumes "length a = pascal_N" and "2 \<le> i" and "i < pascal_N" and "\<forall>j < i. a ! j = of_nat ((i - 1) choose j)"
  shows "\<exists>b. pascal_row i a = Inr b \<and> length b = pascal_N \<and> (\<forall>j < Suc i. b ! j = of_nat (i choose j))"
proof -
  let ?P = "\<lambda>n (b :: u32 list, t :: u32). length b = pascal_N \<and> t = of_nat ((i - 1) choose (n - 1)) \<and>
    (\<forall>j < n. b ! j = of_nat (i choose j)) \<and> (\<forall>j. n \<le> j \<and> j < i \<longrightarrow> b ! j = of_nat ((i - 1) choose j))"
  have "\<exists>s. rfold pascal_step [1..<i] (a, 1) = Inr s \<and> ?P i s"
  proof (rule rfold_upt [where P = ?P])
    show "?P 1 (a, 1)" using assms by auto
    fix n s assume n: "1 \<le> n" "n < i" and s: "?P n s"
    obtain b t where [simp]: "s = (b, t)" by (cases s)
    have "b ! n = of_nat ((i - 1) choose n)" using s n by simp
    moreover have "(i choose n) = ((i - 1) choose (n - 1)) + ((i - 1) choose n)"
      using n by (cases i; cases n) simp_all
    ultimately have "pascal_step n s = Inr (b[n := of_nat (i choose n)], of_nat ((i - 1) choose n))"
      using s n assms(1,3) by (simp add: pascal_step_def)
    then show "\<exists>s'. pascal_step n s = Inr s' \<and> ?P (Suc n) s'"
      using s n assms(3) by (auto simp: nth_list_update less_Suc_eq)
  qed (use assms in simp)
  then obtain b t where "rfold pascal_step [1..<i] (a, 1) = Inr (b, t)" "?P i (b, t)" by auto
  then show ?thesis using assms by (auto simp: pascal_row_def nth_list_update less_Suc_eq)
qed

lemma pascal_run:
  assumes "length a = pascal_N"
  shows "\<exists>b. pascal a = Inr b \<and> length b = pascal_N \<and> (\<forall>j < pascal_N. b ! j = of_nat ((pascal_N - 1) choose j))"
proof -
  let ?P = "\<lambda>i (b :: u32 list). length b = pascal_N \<and> (\<forall>j < i. b ! j = of_nat ((i - 1) choose j))"
  let ?a = "a[1 := 1, 0 := 1]"
  have "\<exists>b. rfold pascal_row [2..<pascal_N] ?a = Inr b \<and> ?P pascal_N b"
  proof (rule rfold_upt [where P = ?P])
    fix i b assume "2 \<le> i" "i < pascal_N" "?P i b"
    then show "\<exists>c. pascal_row i b = Inr c \<and> ?P (Suc i) c" using pascal_row_run [of b i] by auto
  qed (use assms in \<open>auto simp: pascal_N_def numeral_2_eq_2 less_Suc_eq nth_list_update\<close>)
  then show ?thesis using assms by (auto simp: pascal_def pascal_N_def)
qed

text \<open>The recursive factorial returns for every \<open>n \<ge> 0\<close> and is \<open>n!\<close> modulo the word size; the loops compute
  the Fibonacci numbers and the last row of Pascal's triangle.\<close>

lemma factorial_fibonacci_pascal:
  "fact_c (int n) = Some (of_nat (fact n)) \<and>
   (\<exists>fib. rfold fib_step [2..<40] fib_init = Inr fib \<and> length fib = 40 \<and> (\<forall>i < 40. fib ! i = of_nat (fibonacci i))) \<and>
   (length a = pascal_N \<longrightarrow>
     (\<exists>b. pascal a = Inr b \<and> length b = pascal_N \<and> (\<forall>j < pascal_N. b ! j = of_nat ((pascal_N - 1) choose j))))"
  using fact_c_run fib_table pascal_run by simp

lemma factorial_fibonacci_pascal_witness:
  "fact_c 5 = Some 120 \<and> (\<exists>b. pascal (replicate pascal_N 7) = Inr b \<and> b ! 2 = 435)"
  using factorial_fibonacci_pascal [of 5 "replicate pascal_N 7"]
  by (auto simp: pascal_N_def numeral_eq_Suc fact_reduce)

lemma fact_main: "fact_main = Inr 0" by code_simp
lemma fib_main: "fib_main = Inr 0" by code_simp
lemma pascal_main: "pascal_main = Inr 0" by code_simp

end
