(* ===== verification/Func_Bits.thy ===== *)
theory Func_Bits
  imports Func_Base Bytes
begin

text \<open>
  The programs on bits and bytes: the CRC of \<open>crc32.c\<close> with its table, the bit array of \<open>bit.c\<close>, shifts,
  sign extension and unaligned accesses.
\<close>

section \<open>CRC\<close>

text \<open>The static variables of \<open>rc_crc32\<close>. One step of the division, the table, the sum.\<close>

record crc_state =
  crc_table :: "u32 list"
  have_table :: bool

definition crc_start :: crc_state where
  "crc_start = \<lparr>crc_table = replicate 256 0, have_table = False\<rparr>"

definition crc_step :: "u32 \<Rightarrow> u32" where
  "crc_step rem = (if rem AND 1 \<noteq> 0 then drop_bit 1 rem XOR 0xedb88320 else drop_bit 1 rem)"

definition crc_entry :: "nat \<Rightarrow> u32" where
  "crc_entry i = (crc_step ^^ 8) (of_nat i)"

definition make_table :: "crc_state \<Rightarrow> crc_state" where
  "make_table s =
     (if have_table s then s
      else \<lparr>crc_table = fold (\<lambda>i t. t[i := crc_entry i]) [0..<256] (crc_table s), have_table = True\<rparr>)"

text \<open>\<open>octet\<close> is the byte of the \<open>char\<close> buffer; the index is below 256.\<close>

definition crc_byte :: "u32 list \<Rightarrow> u8 \<Rightarrow> u32 \<Rightarrow> u32" where
  "crc_byte t octet crc = drop_bit 8 crc XOR (t ! unat ((crc AND 0xff) XOR ucast octet))"

definition rc_crc32 :: "u32 \<Rightarrow> u8 list \<Rightarrow> crc_state \<Rightarrow> u32 \<times> crc_state" where
  "rc_crc32 crc buf s =
     (let s = make_table s in (NOT (fold (crc_byte (crc_table s)) buf (NOT crc)), s))"

text \<open>The reference: shift the message in bit by bit and divide by the polynomial.\<close>

definition crc_bits :: "u8 \<Rightarrow> u32 \<Rightarrow> u32" where
  "crc_bits octet crc = (crc_step ^^ 8) (crc XOR ucast octet)"

definition crc_reference :: "u32 \<Rightarrow> u8 list \<Rightarrow> u32" where
  "crc_reference crc buf = NOT (fold crc_bits buf (NOT crc))"

definition crc_ready :: "crc_state \<Rightarrow> bool" where
  "crc_ready s \<longleftrightarrow> length (crc_table s) = 256 \<and> (have_table s \<longrightarrow> (\<forall>i < 256. crc_table s ! i = crc_entry i))"

lemma crc_step_odd: "crc_step x = (if odd x then drop_bit 1 x XOR 0xedb88320 else drop_bit 1 x)"
  by (simp add: crc_step_def and_one_eq odd_iff_mod_2_eq_one)

lemma low_byte: "x AND 0xff = (take_bit 8 x :: u32)"
  by (simp add: take_bit_eq_mask mask_eq_exp_minus_1)

lemma crc_step_xor: "crc_step (x XOR y) = crc_step x XOR crc_step y"
  by (rule bit_word_eqI) (auto simp: crc_step_odd even_xor_iff bit_simps)

lemma crc_steps_xor: "(crc_step ^^ n) (x XOR y) = (crc_step ^^ n) x XOR (crc_step ^^ n) y"
  by (induction n) (simp_all add: crc_step_xor)

lemma crc_steps_shift: "n \<le> 8 \<Longrightarrow> (crc_step ^^ n) (push_bit 8 (y :: u32)) = push_bit (8 - n) (take_bit 24 y)"
proof (induction n)
  case 0
  then show ?case by (intro bit_word_eqI) (auto simp: bit_simps)
next
  case (Suc n)
  have "even (push_bit (8 - n) (take_bit 24 y) :: u32)"
    using Suc.prems by (simp add: even_push_bit_iff)
  then have "crc_step (push_bit (8 - n) (take_bit 24 y)) = drop_bit 1 (push_bit (8 - n) (take_bit 24 y))"
    by (simp add: crc_step_odd)
  also have "\<dots> = push_bit (8 - Suc n) (take_bit 24 y)"
    using Suc.prems by (intro bit_word_eqI) (auto simp: bit_simps)
  finally show ?case using Suc by simp
qed

lemma crc_split: "(crc_step ^^ 8) x = drop_bit 8 x XOR (crc_step ^^ 8) (take_bit 8 x)"
proof -
  have x: "x = push_bit 8 (drop_bit 8 x) XOR take_bit 8 x"
    by (rule bit_word_eqI) (auto simp: bit_simps)
  have "(crc_step ^^ 8) (push_bit 8 (drop_bit 8 x)) = take_bit 24 (drop_bit 8 x)"
    using crc_steps_shift [of 8 "drop_bit 8 x"] by simp
  also have "\<dots> = drop_bit 8 x" by (rule bit_word_eqI) (auto simp: bit_simps dest: bit_imp_le_length)
  finally show ?thesis using crc_steps_xor [of 8 "push_bit 8 (drop_bit 8 x)" "take_bit 8 x"] x by simp
qed

lemma fold_entries:
  "length t = n \<Longrightarrow> \<forall>i < length t. fold (\<lambda>i t. t[i := f i]) [0..<n] t ! i = f i"
proof -
  have "length (fold (\<lambda>i t. t[i := f i]) [0..<m] t) = length t \<and>
      (\<forall>i < m. i < length t \<longrightarrow> fold (\<lambda>i t. t[i := f i]) [0..<m] t ! i = f i)" for m
    by (induction m) (auto simp: nth_list_update less_Suc_eq)
  then show "length t = n \<Longrightarrow> \<forall>i < length t. fold (\<lambda>i t. t[i := f i]) [0..<n] t ! i = f i" by blast
qed

lemma length_fold_update: "length (fold (\<lambda>i t. t[i := f i]) xs t) = length t"
  by (induction xs arbitrary: t) simp_all

lemma make_table_ready:
  "crc_ready s \<Longrightarrow> crc_ready (make_table s) \<and> have_table (make_table s)"
  using fold_entries [of "crc_table s" 256 crc_entry] by (simp add: crc_ready_def make_table_def length_fold_update)

lemma crc_byte_eq:
  assumes "\<forall>i < 256. t ! i = crc_entry i"
  shows "crc_byte t c crc = crc_bits c crc"
proof -
  let ?y = "(crc AND 0xff) XOR ucast c"
  have y: "?y = take_bit 8 (crc XOR ucast c)"
    unfolding low_byte by (rule bit_word_eqI) (auto simp: bit_simps dest: bit_imp_le_length)
  have "unat ?y < 256" unfolding y using unat_take_bit_less [of 8 "crc XOR ucast c"] by simp
  then have "t ! unat ?y = (crc_step ^^ 8) ?y" using assms by (simp add: crc_entry_def)
  moreover have "drop_bit 8 (crc XOR ucast c) = drop_bit 8 crc"
    by (rule bit_word_eqI) (auto simp: bit_simps dest: bit_imp_le_length)
  ultimately show ?thesis
    unfolding crc_byte_def crc_bits_def crc_split [of "crc XOR ucast c"] y by simp
qed

text \<open>C34: The table-driven sum is the bitwise one for every message and start value, whether the table is
  made by this call or was made before, the table stays right for the calls to come, and the sum of a
  message can be computed in pieces.\<close>

theorem crc32_correct:
  assumes "crc_ready s"
  shows "fst (rc_crc32 crc buf s) = crc_reference crc buf \<and> crc_ready (snd (rc_crc32 crc buf s)) \<and>
    fst (rc_crc32 (fst (rc_crc32 crc buf s)) rest (snd (rc_crc32 crc buf s))) = crc_reference crc (buf @ rest)"
proof -
  have run: "rc_crc32 crc buf s = (crc_reference crc buf, make_table s)" if "crc_ready s" for crc buf s
  proof -
    have "\<forall>i < 256. crc_table (make_table s) ! i = crc_entry i"
      using make_table_ready [OF that] by (simp add: crc_ready_def)
    then have "crc_byte (crc_table (make_table s)) = crc_bits" by (intro ext crc_byte_eq)
    then show ?thesis by (simp add: rc_crc32_def crc_reference_def Let_def)
  qed
  show ?thesis using make_table_ready [OF assms] by (simp add: run assms crc_reference_def)
qed

definition crc_text :: "u8 list" where
  "crc_text = cstr ''The quick brown fox jumps over the lazy dog''"

definition crc_main :: "u32 res" where
  "crc_main = (let (r, s) = rc_crc32 0 crc_text crc_start in rbind (check (r = 0x414FA339)) (\<lambda>_. Inr 0))"

lemma crc_bits_eval:
  "crc_bits c x = crc_step (crc_step (crc_step (crc_step (crc_step (crc_step (crc_step (crc_step (x XOR ucast c))))))))"
  by (simp add: crc_bits_def numeral_eq_Suc)

theorem crc32_correct_witness:
  "fst (rc_crc32 0 [0x61] crc_start) = 0xE8B7BE43"
  using crc32_correct [of crc_start 0 "[0x61]" "[]"]
  by (simp add: crc_ready_def crc_start_def crc_reference_def crc_bits_eval crc_step_odd)

lemma crc_main: "crc_main = Inr 0"
proof -
  have "crc_reference 0 crc_text = 0x414FA339"
    by (simp add: crc_reference_def crc_text_def cstr_def crc_bits_eval crc_step_odd)
  then show ?thesis
    using crc32_correct [of crc_start 0 crc_text "[]"]
    by (simp add: crc_main_def case_prod_beta crc_ready_def crc_start_def)
qed

section \<open>Bit arrays\<close>

definition bit_mask :: "int \<Rightarrow> u8" where
  "bit_mask offset = push_bit (nat (offset AND 7)) 1"

definition getbit :: "u8 list \<Rightarrow> int \<Rightarrow> bool res" where
  "getbit buf offset = rbind (rget buf (drop_bit 3 offset)) (\<lambda>b. Inr (b AND bit_mask offset \<noteq> 0))"

definition setbit :: "u8 list \<Rightarrow> int \<Rightarrow> bool \<Rightarrow> u8 list res" where
  "setbit buf offset v =
     rbind (rget buf (drop_bit 3 offset)) (\<lambda>b.
     rput buf (drop_bit 3 offset) (if v then b OR bit_mask offset else b AND NOT (bit_mask offset)))"

lemma bit_of_byte: "n < 8 \<Longrightarrow> (b AND push_bit n 1 \<noteq> 0) = bit (b :: u8) n"
proof -
  assume n: "n < 8"
  show ?thesis
  proof
    assume "bit b n"
    then have "bit (b AND push_bit n 1) n" using n by (simp add: bit_simps)
    then show "b AND push_bit n 1 \<noteq> 0" by auto
  next
    assume "b AND push_bit n 1 \<noteq> 0"
    then obtain k where "bit (b AND push_bit n 1) k" by (auto simp: word_bit_eq_iff)
    then show "bit b n" by (auto simp: bit_simps)
  qed
qed

lemma and_7: "offset AND 7 = offset mod (8 :: int)"
proof -
  have "offset AND 7 = take_bit 3 offset" by (simp add: take_bit_eq_mask mask_eq_exp_minus_1)
  then show ?thesis by (simp add: take_bit_eq_mod)
qed

lemma getbit_bit:
  assumes "0 \<le> offset" and "offset < 8 * int (length buf)"
  shows "getbit buf offset = Inr (bit (buf ! nat (offset div 8)) (nat (offset mod 8)))"
proof -
  have "offset AND 7 = offset mod 8" by (rule and_7)
  moreover have "0 \<le> offset div 8" "nat (offset div 8) < length buf" using assms by auto
  ultimately show ?thesis
    using bit_of_byte [of "nat (offset mod 8)" "buf ! nat (offset div 8)"]
    by (simp add: getbit_def bit_mask_def drop_bit_eq_div)
qed

lemma setbit_bit:
  assumes "0 \<le> offset" and "offset < 8 * int (length buf)"
  shows "\<exists>b. setbit buf offset v = Inr (buf[nat (offset div 8) := b]) \<and>
    (\<forall>k < 8. bit b k = (if k = nat (offset mod 8) then v else bit (buf ! nat (offset div 8)) k))"
proof -
  let ?old = "buf ! nat (offset div 8)" and ?m = "push_bit (nat (offset mod 8)) 1 :: u8"
  let ?b = "if v then ?old OR ?m else ?old AND NOT ?m"
  have "offset AND 7 = offset mod 8" by (rule and_7)
  moreover have "0 \<le> offset div 8" "nat (offset div 8) < length buf" using assms by auto
  ultimately have "setbit buf offset v = Inr (buf[nat (offset div 8) := ?b])"
    by (simp add: setbit_def bit_mask_def drop_bit_eq_div)
  moreover have "\<forall>k < 8. bit ?b k = (if k = nat (offset mod 8) then v else bit ?old k)"
    by (auto simp: bit_simps)
  ultimately show ?thesis by blast
qed

text \<open>Inside the array \<open>setbit\<close> changes the one bit it is asked to and no other.\<close>

lemma setbit_getbit:
  assumes "0 \<le> offset" and "offset < 8 * int (length buf)"
  shows "\<exists>buf'. setbit buf offset v = Inr buf' \<and> length buf' = length buf \<and>
    (\<forall>i. 0 \<le> i \<and> i < 8 * int (length buf) \<longrightarrow> getbit buf' i = (if i = offset then Inr v else getbit buf i))"
proof -
  obtain b where b: "setbit buf offset v = Inr (buf[nat (offset div 8) := b])"
    "\<And>k. k < 8 \<Longrightarrow> bit b k = (if k = nat (offset mod 8) then v else bit (buf ! nat (offset div 8)) k)"
    using setbit_bit [OF assms] by blast
  let ?c = "buf[nat (offset div 8) := b]"
  have "getbit ?c i = (if i = offset then Inr v else getbit buf i)" if i: "0 \<le> i" "i < 8 * int (length buf)" for i
  proof -
    have pos: "0 \<le> i div 8" "nat (i div 8) < length buf" using i by auto
    have get: "getbit ?c i = Inr (bit (?c ! nat (i div 8)) (nat (i mod 8)))"
      using getbit_bit [of i ?c] i by simp
    show ?thesis
    proof (cases "i div 8 = offset div 8")
      case True
      then have "nat (i mod 8) = nat (offset mod 8) \<longleftrightarrow> i = offset"
        using i(1) assms(1) by (metis eq_nat_nat_iff mult_div_mod_eq pos_mod_sign zero_less_numeral)
      then show ?thesis using get getbit_bit [OF i] b(2) [of "nat (i mod 8)"] True pos by auto
    next
      case False
      then have "nat (i div 8) \<noteq> nat (offset div 8)" using i(1) assms(1) by auto
      then show ?thesis using get getbit_bit [OF i] False by auto
    qed
  qed
  then show ?thesis using b(1) by (intro exI [of _ ?c]) auto
qed

lemma setbit_getbit_witness:
  "\<exists>buf'. setbit [0xaa, 0] 8 True = Inr buf' \<and> getbit buf' 8 = Inr True \<and> getbit buf' 7 = getbit [0xaa, 0] 7"
proof -
  obtain buf' where "setbit [0xaa, 0] 8 True = Inr buf'"
    "\<And>i. 0 \<le> i \<Longrightarrow> i < 16 \<Longrightarrow> getbit buf' i = (if i = 8 then Inr True else getbit [0xaa, 0] i)"
    using setbit_getbit [of 8 "[0xaa, 0]" True] by auto
  then show ?thesis by (intro exI [of _ buf']) simp
qed

definition bit_main :: "u32 res" where
  "bit_main =
     (let buf = [0xaa, 0] in
      rbind (rfold (\<lambda>i u. rbind (getbit buf i) (\<lambda>b. check (b = odd i))) [0, 1, 2, 3, 4, 5, 6, 7] ()) (\<lambda>_.
      rbind (rfold (\<lambda>i buf. setbit buf i (even i)) [8, 9, 10, 11, 12, 13, 14, 15] buf) (\<lambda>buf.
      rbind (rget buf 1) (\<lambda>b. rbind (check (b = 0x55)) (\<lambda>_. Inr 0)))))"

lemma bit_main: "bit_main = Inr 0"
  by (simp add: bit_main_def getbit_def setbit_def bit_mask_def rget_def rput_def)

section \<open>Shifts, extensions, unaligned accesses\<close>

definition all_checks :: "nat \<Rightarrow> (nat \<Rightarrow> bool) \<Rightarrow> unit res" where
  "all_checks n ok = rfold (\<lambda>i u. check (ok i)) [0..<n] ()"

lemma all_checks_iff: "all_checks n ok = Inr () \<longleftrightarrow> (\<forall>i < n. ok i)"
  by (induction n) (auto simp: all_checks_def rfold_append rbind_eq_Inr_iff check_def less_Suc_eq)

definition shift_test :: "u32 list" where
  "shift_test = [0x12345678, 0x98765432, 0x0, 0xeffa1000, 0x7fffffff, 0x80000000, 0x33, 0xffffffff]"
definition srl_ans :: "u32 list" where
  "srl_ans = [0x2468ac, 0x130eca8, 0x0, 0x1dff420, 0xffffff, 0x1000000, 0x0, 0x1ffffff]"
definition srlv_ans :: "u32 list" where
  "srlv_ans = [0x1234567, 0x4c3b2a1, 0x0, 0x1dff420, 0x7fffff, 0x400000, 0x0, 0x1fffff]"
definition srav_ans :: "u32 list" where
  "srav_ans = [0x1234567, 0xfcc3b2a1, 0x0, 0xffdff420, 0x7fffff, 0xffc00000, 0x0, 0xffffffff]"

definition shift_main :: "u32 res" where
  "shift_main =
     rbind (all_checks 8 (\<lambda>i. drop_bit 7 (shift_test ! i) = srl_ans ! i)) (\<lambda>_.
     rbind (all_checks 8 (\<lambda>i. signed_drop_bit (i + 4) (shift_test ! i) = srav_ans ! i)) (\<lambda>_.
     rbind (all_checks 8 (\<lambda>i. drop_bit (i + 4) (shift_test ! i) = srlv_ans ! i)) (\<lambda>_. Inr 0)))"

lemma all_checks_run: "\<forall>i < n. ok i \<Longrightarrow> all_checks n ok = Inr ()"
  by (simp add: all_checks_iff)

lemma shift_main: "shift_main = Inr 0"
proof -
  have "all_checks 8 (\<lambda>i. drop_bit 7 (shift_test ! i) = srl_ans ! i) = Inr ()"
    by (rule all_checks_run) (simp add: all_less_numeral shift_test_def srl_ans_def)
  moreover have "all_checks 8 (\<lambda>i. signed_drop_bit (i + 4) (shift_test ! i) = srav_ans ! i) = Inr ()"
    by (rule all_checks_run) (simp add: all_less_numeral shift_test_def srav_ans_def)
  moreover have "all_checks 8 (\<lambda>i. drop_bit (i + 4) (shift_test ! i) = srlv_ans ! i) = Inr ()"
    by (rule all_checks_run) (simp add: all_less_numeral shift_test_def srlv_ans_def)
  ultimately show ?thesis by (simp add: shift_main_def)
qed

definition ls_mem :: "u16 list" where
  "ls_mem = [0x0, 0x0258, 0x4abc, 0x7fff, 0x8000, 0x8100, 0xabcd, 0xffff]"
definition lh_ans :: "u32 list" where
  "lh_ans = [0x00000000, 0x00000258, 0x00004abc, 0x00007fff, 0xffff8000, 0xffff8100, 0xffffabcd, 0xffffffff]"
definition lhu_ans :: "u32 list" where
  "lhu_ans = [0x00000000, 0x00000258, 0x00004abc, 0x00007fff, 0x00008000, 0x00008100, 0x0000abcd, 0x0000ffff]"
definition sh_ans :: "u32 list" where
  "sh_ans = [0x0000fffd, 0x0000fff7, 0x0000ffdf, 0x0000ff7f, 0x0000fdff, 0x0000f7ff, 0x0000dfff, 0x00007fff]"
definition lwlr_ans :: "u32 list" where
  "lwlr_ans = [0xbc025800, 0x7fff4a, 0xcd810080, 0xffffab]"

text \<open>The word at an odd place of the array of halfwords.\<close>

definition unaligned_word :: "u16 list \<Rightarrow> nat \<Rightarrow> u32" where
  "unaligned_word hs i = word_of_bytes (take 4 (drop (1 + 4 * i) (concat (map (bytes_of_word 2) hs))))"

definition load_store_main :: "u32 res" where
  "load_store_main =
     rbind (all_checks 8 (\<lambda>i. scast (ls_mem ! i) = lh_ans ! i)) (\<lambda>_.
     rbind (all_checks 8 (\<lambda>i. ucast (ls_mem ! i) = lhu_ans ! i)) (\<lambda>_.
     rbind (all_checks (8 div 2 - 1) (\<lambda>i. unaligned_word ls_mem i = lwlr_ans ! i)) (\<lambda>_.
     rbind (rfold (\<lambda>i hs. let hs = hs[i := ucast (NOT (push_bit (2 * i + 1) 1 :: u32))] in
         rbind (check (ucast (hs ! i) = sh_ans ! i)) (\<lambda>_. Inr hs)) [0..<8] ls_mem) (\<lambda>_. Inr 0))))"

lemma two_bytes: "bytes_of_word 2 w = [ucast w, ucast (drop_bit 8 w)]"
  by (simp add: bytes_of_word_def upt_rec)

lemma load_store_main: "load_store_main = Inr 0"
proof -
  have "all_checks 8 (\<lambda>i. scast (ls_mem ! i) = lh_ans ! i) = Inr ()"
    by (rule all_checks_run) (simp add: all_less_numeral ls_mem_def lh_ans_def)
  moreover have "all_checks 8 (\<lambda>i. ucast (ls_mem ! i) = lhu_ans ! i) = Inr ()"
    by (rule all_checks_run) (simp add: all_less_numeral ls_mem_def lhu_ans_def)
  moreover have "all_checks 3 (\<lambda>i. unaligned_word ls_mem i = lwlr_ans ! i) = Inr ()"
    by (rule all_checks_run) (simp add: all_less_numeral ls_mem_def lwlr_ans_def unaligned_word_def two_bytes)
  moreover have "rfold (\<lambda>i hs. let hs = hs[i := ucast (NOT (push_bit (2 * i + 1) 1 :: u32))] in
         rbind (check (ucast (hs ! i) = sh_ans ! i)) (\<lambda>_. Inr hs)) [0..<8] ls_mem \<noteq> Inl e" for e
    by (simp add: upt_rec ls_mem_def sh_ans_def)
  ultimately show ?thesis by (auto simp: load_store_main_def rbind_def split: sum.splits)
qed

end
