(* ===== verification/Func_Sort.thy ===== *)
theory Func_Sort
  imports Func_Base "HOL-Library.Multiset"
begin

text \<open>
  The sorting programs (\<open>bubble-sort.c\<close>, \<open>select-sort.c\<close>, \<open>quick-sort.c\<close>) on an array of integers,
  which are only compared and moved, and that they sort it.
\<close>

section \<open>The programs\<close>

definition sort_N :: nat where "sort_N = 20"

definition sort_data :: "int list" where
  "sort_data = [2, 12, 14, 6, 13, 15, 16, 10, 0, 18, 11, 19, 9, 1, 7, 5, 4, 3, 8, 17]"

text \<open>\<open>t = a[i]; a[i] = a[k]; a[k] = t\<close>\<close>

definition exchange :: "int \<Rightarrow> int \<Rightarrow> int list \<Rightarrow> int list res" where
  "exchange i k a =
     rbind (rget a i) (\<lambda>t. rbind (rget a k) (\<lambda>v. rbind (rput a i v) (\<lambda>a. rput a k t)))"

definition bubble_step :: "nat \<Rightarrow> int list \<Rightarrow> int list res" where
  "bubble_step i a =
     rbind (rget a (int i)) (\<lambda>x. rbind (rget a (int i + 1)) (\<lambda>y.
     if x > y then exchange (int i) (int i + 1) a else Inr a))"

definition bubble_sort :: "int list \<Rightarrow> int list res" where
  "bubble_sort a = rfold (\<lambda>j. rfold bubble_step [0..<sort_N - 1 - j]) [0..<sort_N] a"

definition select_min :: "int list \<Rightarrow> nat \<Rightarrow> int res" where
  "select_min a i =
     rfold (\<lambda>j k. rbind (rget a (int j)) (\<lambda>x. rbind (rget a k) (\<lambda>y. Inr (if x < y then int j else k))))
       [i + 1..<sort_N] (int i)"

definition select_sort :: "int list \<Rightarrow> int list res" where
  "select_sort a = rfold (\<lambda>i a. rbind (select_min a i) (\<lambda>k. exchange (int i) k a)) [0..<sort_N - 1] a"

text \<open>The two inner loops of \<open>partition\<close>.\<close>

function scan_down :: "int list \<Rightarrow> int \<Rightarrow> int \<Rightarrow> int \<Rightarrow> int res" where
  "scan_down a pivot i j =
     (if i < j then rbind (rget a j) (\<lambda>x. if x > pivot then scan_down a pivot i (j - 1) else Inr j) else Inr j)"
  by pat_completeness auto
termination by (relation "measure (\<lambda>(a, pivot, i, j). nat (j - i))") auto

function scan_up :: "int list \<Rightarrow> int \<Rightarrow> int \<Rightarrow> int \<Rightarrow> int res" where
  "scan_up a pivot i j =
     (if i < j then rbind (rget a i) (\<lambda>x. if x \<le> pivot then scan_up a pivot (i + 1) j else Inr i) else Inr i)"
  by pat_completeness auto
termination by (relation "measure (\<lambda>(a, pivot, i, j). nat (j - i))") auto

declare scan_down.simps [simp del] scan_up.simps [simp del]

lemma scan_down_result:
  "scan_down a pivot i j = Inr k \<Longrightarrow> i \<le> j \<Longrightarrow>
   i \<le> k \<and> k \<le> j \<and> (i < k \<longrightarrow> a ! nat k \<le> pivot) \<and> (\<forall>l. k < l \<and> l \<le> j \<longrightarrow> pivot < a ! nat l)"
proof (induction a pivot i j rule: scan_down.induct)
  case (1 a pivot i j)
  show ?case
  proof (cases "i < j")
    case True
    then obtain x where x: "rget a j = Inr x" using 1(2) by (subst (asm) scan_down.simps) (auto elim: rbind_Inr_E)
    then have [simp]: "x = a ! nat j" by (simp add: rget_eq_Inr_iff)
    show ?thesis
    proof (cases "x > pivot")
      case gt: True
      then have "scan_down a pivot i (j - 1) = Inr k" using 1(2) True x by (subst (asm) scan_down.simps) simp
      then have IH: "i \<le> k \<and> k \<le> j - 1 \<and> (i < k \<longrightarrow> a ! nat k \<le> pivot) \<and> (\<forall>l. k < l \<and> l \<le> j - 1 \<longrightarrow> pivot < a ! nat l)"
        using 1(1) [OF True x gt] True by simp
      have "pivot < a ! nat l" if "k < l" "l \<le> j" for l using IH gt that by (cases "l = j") auto
      then show ?thesis using IH by auto
    next
      case False
      then have "k = j" using 1(2) True x by (subst (asm) scan_down.simps) simp
      then show ?thesis using False 1(3) by auto
    qed
  next
    case False
    then have "k = j" using 1(2) by (subst (asm) scan_down.simps) simp
    then show ?thesis using False 1(3) by auto
  qed
qed

lemma scan_up_result:
  "scan_up a pivot i j = Inr k \<Longrightarrow> i \<le> j \<Longrightarrow>
   i \<le> k \<and> k \<le> j \<and> (k < j \<longrightarrow> pivot < a ! nat k) \<and> (\<forall>l. i \<le> l \<and> l < k \<longrightarrow> a ! nat l \<le> pivot)"
proof (induction a pivot i j rule: scan_up.induct)
  case (1 a pivot i j)
  show ?case
  proof (cases "i < j")
    case True
    then obtain x where x: "rget a i = Inr x" using 1(2) by (subst (asm) scan_up.simps) (auto elim: rbind_Inr_E)
    then have [simp]: "x = a ! nat i" by (simp add: rget_eq_Inr_iff)
    show ?thesis
    proof (cases "x \<le> pivot")
      case le: True
      then have "scan_up a pivot (i + 1) j = Inr k" using 1(2) True x by (subst (asm) scan_up.simps) simp
      then have IH: "i + 1 \<le> k \<and> k \<le> j \<and> (k < j \<longrightarrow> pivot < a ! nat k) \<and> (\<forall>l. i + 1 \<le> l \<and> l < k \<longrightarrow> a ! nat l \<le> pivot)"
        using 1(1) [OF True x le] True by simp
      have "a ! nat l \<le> pivot" if "i \<le> l" "l < k" for l using IH le that by (cases "l = i") auto
      then show ?thesis using IH by auto
    next
      case False
      then have "k = i" using 1(2) True x by (subst (asm) scan_up.simps) simp
      then show ?thesis using False 1(3) by auto
    qed
  next
    case False
    then have "k = i" using 1(2) by (subst (asm) scan_up.simps) simp
    then show ?thesis using False 1(3) by auto
  qed
qed

text \<open>The outer loop: every round moves the two ends closer.\<close>

function partition_loop :: "int \<Rightarrow> int list \<Rightarrow> int \<Rightarrow> int \<Rightarrow> (int list \<times> int) res" where
  "partition_loop pivot a i j =
     (if i < j then
        rbind (scan_down a pivot i j) (\<lambda>j. rbind (rget a j) (\<lambda>x. rbind (rput a i x) (\<lambda>a.
        rbind (scan_up a pivot i j) (\<lambda>i. rbind (rget a i) (\<lambda>y. rbind (rput a j y) (\<lambda>a.
        partition_loop pivot a i j))))))
      else Inr (a, i))"
  by pat_completeness auto

lemma partition_progress:
  assumes "i < j" and "scan_down a pivot i j = Inr j'" and "rget a j' = Inr x" and "rput a i x = Inr a'"
    and "scan_up a' pivot i j' = Inr i'"
  shows "i \<le> i' \<and> i' \<le> j' \<and> j' \<le> j \<and> j' - i' < j - i"
proof -
  have j: "i \<le> j'" "j' \<le> j" "i < j' \<longrightarrow> a ! nat j' \<le> pivot" using scan_down_result [OF assms(2)] assms(1) by auto
  have i: "i \<le> i'" "i' \<le> j'" "i' < j' \<longrightarrow> pivot < a' ! nat i'" using scan_up_result [OF assms(5) j(1)] by auto
  have a': "a' ! nat i = a ! nat j'" using assms(3,4) by (auto simp: rget_eq_Inr_iff rput_eq_Inr_iff)
  have "j' - i' < j - i"
  proof (cases "j' = i")
    case True
    then show ?thesis using i assms(1) by simp
  next
    case False
    then have "i' \<noteq> i" using j i a' by auto
    then show ?thesis using i j by simp
  qed
  then show ?thesis using i j by simp
qed

termination partition_loop
proof (relation "measure (\<lambda>(pivot, a, i, j). nat (j - i))")
  fix pivot a i j j' x a' i' y a''
  assume a: "i < j" "scan_down a pivot i j = Inr j'" "rget a j' = Inr x" "rput a i x = Inr a'" "scan_up a' pivot i j' = Inr i'"
  show "((pivot, a'', i', j'), pivot, a, i, j) \<in> measure (\<lambda>(pivot, a, i, j). nat (j - i))"
    using partition_progress [OF a] a(1) by simp
qed simp

declare partition_loop.simps [simp del]

definition partition :: "int list \<Rightarrow> int \<Rightarrow> int \<Rightarrow> (int list \<times> int) res" where
  "partition a p q =
     rbind (rget a p) (\<lambda>pivot.
     rbind (partition_loop pivot a p q) (\<lambda>(a, i). rbind (rput a i pivot) (\<lambda>a. Inr (a, i))))"

section \<open>Partition\<close>

lemma scan_down_total: "0 \<le> i \<Longrightarrow> nat j < length a \<Longrightarrow> \<exists>k. scan_down a pivot i j = Inr k"
proof (induction a pivot i j rule: scan_down.induct)
  case (1 a pivot i j)
  then show ?case by (subst scan_down.simps) auto
qed

lemma scan_up_total: "0 \<le> i \<Longrightarrow> nat j < length a \<Longrightarrow> \<exists>k. scan_up a pivot i j = Inr k"
proof (induction a pivot i j rule: scan_up.induct)
  case (1 a pivot i j)
  then show ?case by (subst scan_up.simps) auto
qed

lemma mset_hole:
  assumes "i < length a" and "j < length a"
  shows "mset (a[i := a ! j, j := x]) = mset (a[i := x])"
proof (cases "i = j")
  case False
  then have "a[i := a ! j, j := x] = (a[i := x])[j := (a[i := x]) ! i, i := (a[i := x]) ! j]"
    using assms False by (intro nth_equalityI) (auto simp: nth_list_update)
  then show ?thesis using mset_swap [of i "a[i := x]" j] assms by simp
qed simp

text \<open>What a partition of \<open>[p, q]\<close> at \<open>k\<close> is.\<close>

definition parted :: "int \<Rightarrow> int \<Rightarrow> int \<Rightarrow> int \<Rightarrow> int list \<Rightarrow> bool" where
  "parted pivot p q k b \<longleftrightarrow> p \<le> k \<and> k \<le> q \<and>
     (\<forall>l. p \<le> l \<and> l < k \<longrightarrow> b ! nat l \<le> pivot) \<and> (\<forall>l. k < l \<and> l \<le> q \<longrightarrow> pivot < b ! nat l)"

definition same_outside :: "int \<Rightarrow> int \<Rightarrow> int list \<Rightarrow> int list \<Rightarrow> bool" where
  "same_outside p q a b \<longleftrightarrow> length b = length a \<and> (\<forall>l. int l < p \<or> q < int l \<longrightarrow> b ! l = a ! l)"

lemma partition_loop_correct:
  "0 \<le> p \<Longrightarrow> p \<le> i \<Longrightarrow> i \<le> j \<Longrightarrow> j \<le> q \<Longrightarrow> nat q < length a \<Longrightarrow>
   \<forall>l. p \<le> l \<and> l < i \<longrightarrow> a ! nat l \<le> pivot \<Longrightarrow> \<forall>l. j < l \<and> l \<le> q \<longrightarrow> pivot < a ! nat l \<Longrightarrow>
   \<exists>b k. partition_loop pivot a i j = Inr (b, k) \<and> parted pivot p q k b \<and> same_outside p q a b \<and>
     mset (b[nat k := pivot]) = mset (a[nat i := pivot])"
proof (induction pivot a i j rule: partition_loop.induct)
  case (1 pivot a i j)
  show ?case
  proof (cases "i < j")
    case False
    then show ?thesis using 1(2-) by (subst partition_loop.simps) (auto simp: parted_def same_outside_def)
  next
    case True
    obtain j' where d: "scan_down a pivot i j = Inr j'" using scan_down_total 1(2-6) by fastforce
    have j': "i \<le> j'" "j' \<le> j" "\<forall>l. j' < l \<and> l \<le> j \<longrightarrow> pivot < a ! nat l" "i < j' \<longrightarrow> a ! nat j' \<le> pivot"
      using scan_down_result [OF d] 1(4) by auto
    define a1 where "a1 = a[nat i := a ! nat j']"
    have g1: "rget a j' = Inr (a ! nat j')" "rput a i (a ! nat j') = Inr a1"
      using j' 1(2-6) by (auto simp: a1_def rget_eq_Inr_iff rput_eq_Inr_iff)
    obtain i' where u: "scan_up a1 pivot i j' = Inr i'"
      using scan_up_total [of i j' a1 pivot] j'(1,2) 1(2-6) nat_mono [of j' q] by (auto simp: a1_def)
    have i': "i \<le> i'" "i' \<le> j'" "\<forall>l. i \<le> l \<and> l < i' \<longrightarrow> a1 ! nat l \<le> pivot" "i' < j' \<longrightarrow> pivot < a1 ! nat i'"
      using scan_up_result [OF u j'(1)] by auto
    define a2 where "a2 = a1[nat j' := a1 ! nat i']"
    have g2: "rget a1 i' = Inr (a1 ! nat i')" "rput a1 j' (a1 ! nat i') = Inr a2"
      using i' j' 1(2-6) by (auto simp: a1_def a2_def rget_eq_Inr_iff rput_eq_Inr_iff)
    have low: "\<forall>l. p \<le> l \<and> l < i' \<longrightarrow> a2 ! nat l \<le> pivot"
    proof (intro allI impI)
      fix l assume l: "p \<le> l \<and> l < i'"
      show "a2 ! nat l \<le> pivot"
      proof (cases "l < i")
        case True
        then have "a2 ! nat l = a ! nat l" using l i' j' 1(2) by (auto simp: a2_def a1_def nth_list_update)
        then show ?thesis using True l 1(7) by auto
      next
        case False
        then have "a2 ! nat l = a1 ! nat l" using l i' j' 1(2) by (auto simp: a2_def nth_list_update)
        then show ?thesis using False l i'(3) by auto
      qed
    qed
    have high: "\<forall>l. j' < l \<and> l \<le> q \<longrightarrow> pivot < a2 ! nat l"
    proof (intro allI impI)
      fix l assume l: "j' < l \<and> l \<le> q"
      have "a2 ! nat l = a ! nat l" using l i' j' 1(2,3) by (auto simp: a2_def a1_def nth_list_update)
      then show "pivot < a2 ! nat l" using l j'(3) 1(8) by (cases "l \<le> j") auto
    qed
    have "i' = j' \<or> pivot < a2 ! nat j'" using i' j' 1(2-6) by (auto simp: a2_def a1_def)
    then have high': "\<forall>l. j' < l \<and> l \<le> q \<longrightarrow> pivot < a2 ! nat l" using high by simp
    have "\<exists>b k. partition_loop pivot a2 i' j' = Inr (b, k) \<and> parted pivot p q k b \<and> same_outside p q a2 b \<and>
        mset (b[nat k := pivot]) = mset (a2[nat i' := pivot])"
      using low high' i' j' 1(2-6)
      by (intro 1(1) [OF True d g1 u g2]) (auto simp: a2_def a1_def)
    moreover have "mset (a2[nat i' := pivot]) = mset (a[nat i := pivot])"
    proof -
      have "mset (a2[nat i' := pivot]) = mset (a1[nat j' := pivot])"
        unfolding a2_def using mset_hole [of "nat j'" a1 "nat i'"] i' j' 1(2-6) by (simp add: a1_def)
      also have "\<dots> = mset (a[nat i := pivot])"
        unfolding a1_def using mset_hole [of "nat i" a "nat j'"] i' j' 1(2-6) by simp
      finally show ?thesis .
    qed
    moreover have "same_outside p q a a2"
      using i' j' 1(2-6) by (auto simp: same_outside_def a2_def a1_def nth_list_update)
    moreover have "partition_loop pivot a i j = partition_loop pivot a2 i' j'"
      using True by (subst partition_loop.simps) (simp add: d g1 u g2)
    ultimately show ?thesis by (auto simp: same_outside_def)
  qed
qed

lemma partition_correct:
  assumes "0 \<le> p" and "p \<le> q" and "nat q < length a"
  shows "\<exists>b k. partition a p q = Inr (b, k) \<and> parted (b ! nat k) p q k b \<and> same_outside p q a b \<and> mset b = mset a"
proof -
  let ?v = "a ! nat p"
  obtain b k where b: "partition_loop ?v a p q = Inr (b, k)" "parted ?v p q k b" "same_outside p q a b"
    "mset (b[nat k := ?v]) = mset (a[nat p := ?v])"
    using partition_loop_correct [of p p q q a ?v] assms by auto
  have k: "0 \<le> k" "nat k < length b" "p \<le> k" "k \<le> q" using b(2,3) assms by (auto simp: parted_def same_outside_def)
  have "partition a p q = Inr (b[nat k := ?v], k)" using assms b(1) k by (simp add: partition_def)
  moreover have "parted (b[nat k := ?v] ! nat k) p q k (b[nat k := ?v])"
    using b(2) k assms by (auto simp: parted_def nth_list_update)
  moreover have "same_outside p q a (b[nat k := ?v])" using b(3) k assms by (auto simp: same_outside_def nth_list_update)
  ultimately show ?thesis using b(4) assms by auto
qed

lemma partition_result: "partition a p q = Inr (b, k) \<Longrightarrow> p < q \<Longrightarrow> p \<le> k \<and> k \<le> q"
proof -
  assume r: "partition a p q = Inr (b, k)" "p < q"
  obtain i b' where loop: "partition_loop (a ! nat p) a p q = Inr (b', i)" "k = i"
    using r by (auto simp: partition_def rbind_eq_Inr_iff rget_eq_Inr_iff)
  have "partition_loop v a i j = Inr (b', k') \<Longrightarrow> i \<le> j \<Longrightarrow> i \<le> k' \<and> k' \<le> j" for v a i j k'
  proof (induction v a i j rule: partition_loop.induct)
    case (1 v a i j)
    show ?case
    proof (cases "i < j")
      case True
      then obtain j' x a1 i' y a2 where s: "scan_down a v i j = Inr j'" "rget a j' = Inr x" "rput a i x = Inr a1"
        "scan_up a1 v i j' = Inr i'" "rget a1 i' = Inr y" "rput a1 j' y = Inr a2" "partition_loop v a2 i' j' = Inr (b', k')"
        using 1(2) by (subst (asm) partition_loop.simps) (auto simp: rbind_eq_Inr_iff)
      have "i \<le> i' \<and> i' \<le> j' \<and> j' \<le> j" using partition_progress [OF True s(1-4)] by simp
      then show ?thesis using 1(1) [OF True s(1-6) s(7)] by auto
    next
      case False
      then have "k' = i" using 1(2) by (subst (asm) partition_loop.simps) simp
      then show ?thesis using 1(3) by simp
    qed
  qed
  then show ?thesis using loop r(2) by auto
qed

section \<open>Quick sort\<close>

function quick_sort :: "int list \<Rightarrow> int \<Rightarrow> int \<Rightarrow> int list res" where
  "quick_sort a p q =
     (if p \<ge> q then Inr a
      else rbind (partition a p q) (\<lambda>r. rbind (quick_sort (fst r) p (snd r - 1)) (\<lambda>a. quick_sort a (snd r + 1) q)))"
  by pat_completeness auto
termination
proof (relation "measure (\<lambda>(a, p, q). nat (q - p + 1))")
  fix a p q r
  assume a: "\<not> q \<le> p" "partition a p q = Inr r"
  have k: "p \<le> snd r \<and> snd r \<le> q" using partition_result [of a p q "fst r" "snd r"] a by simp
  show "((fst r, p, snd r - 1), a, p, q) \<in> measure (\<lambda>(a, p, q). nat (q - p + 1))"
    using k a(1) by simp
  fix a'
  show "((a', snd r + 1, q), a, p, q) \<in> measure (\<lambda>(a, p, q). nat (q - p + 1))"
    using k a(1) by simp
qed simp

declare quick_sort.simps [simp del]

lemma range_values:
  assumes "same_outside p q a b" and "mset b = mset a" and "0 \<le> p" and "nat q < length a" and "p \<le> l" and "l \<le> q"
  shows "\<exists>l'. p \<le> l' \<and> l' \<le> q \<and> b ! nat l = a ! nat l'"
proof -
  let ?P = "nat p" and ?Q = "nat q + 1"
  define mid where "mid xs = take (?Q - ?P) (drop ?P xs)" for xs :: "int list"
  have split: "mset xs = mset (take ?P xs) + mset (mid xs) + mset (drop ?Q xs)" for xs
  proof -
    have "xs = take ?P xs @ mid xs @ drop ?Q xs"
      using assms(3,5,6) by (simp add: mid_def) (metis append_take_drop_id drop_drop le_add_diff_inverse2 nat_mono order.trans add.commute le_Suc_eq)
    then show ?thesis by (metis mset_append add.assoc)
  qed
  have len: "length b = length a" using assms(1) by (simp add: same_outside_def)
  have "take ?P b = take ?P a" using assms(1,3) len by (intro nth_equalityI) (auto simp: same_outside_def)
  moreover have "drop ?Q b = drop ?Q a" using assms(1,3,5,6) len by (intro nth_equalityI) (auto simp: same_outside_def)
  ultimately have "mset (mid b) = mset (mid a)" using split [of a] split [of b] assms(2) by simp
  then have "set (mid b) = set (mid a)" by (rule mset_eq_setD)
  moreover have "b ! nat l \<in> set (mid b)"
  proof -
    have "nat l - ?P < length (mid b)" "mid b ! (nat l - ?P) = b ! nat l"
      using assms(3-6) len by (auto simp: mid_def)
    then show ?thesis by (metis nth_mem)
  qed
  ultimately obtain i where i: "i < length (mid a)" "mid a ! i = b ! nat l" by (metis in_set_conv_nth)
  then have "b ! nat l = a ! nat (p + int i)" "i < ?Q - ?P" using assms(3) by (auto simp: mid_def nat_add_distrib)
  moreover have "p + int i \<le> q" using \<open>i < ?Q - ?P\<close> assms(3,5,6) by linarith
  ultimately show ?thesis by (intro exI [of _ "p + int i"]) auto
qed

definition sorted_range :: "int \<Rightarrow> int \<Rightarrow> int list \<Rightarrow> bool" where
  "sorted_range p q b \<longleftrightarrow> (\<forall>l l'. p \<le> l \<and> l \<le> l' \<and> l' \<le> q \<longrightarrow> b ! nat l \<le> b ! nat l')"

lemma same_outside_at: "same_outside p q a b \<Longrightarrow> 0 \<le> l \<Longrightarrow> l < p \<or> q < l \<Longrightarrow> b ! nat l = a ! nat l"
  unfolding same_outside_def by (metis int_nat_eq)

lemma quick_sort_run:
  "0 \<le> p \<Longrightarrow> nat q < length a \<Longrightarrow>
   \<exists>b. quick_sort a p q = Inr b \<and> same_outside p q a b \<and> mset b = mset a \<and> sorted_range p q b"
proof (induction a p q rule: quick_sort.induct)
  case (1 a p q)
  show ?case
  proof (cases "q \<le> p")
    case True
    then have "sorted_range p q a" unfolding sorted_range_def by (smt (verit))
    then show ?thesis using True by (subst quick_sort.simps) (simp add: same_outside_def)
  next
    case False
    then obtain b k where part: "partition a p q = Inr (b, k)" "parted (b ! nat k) p q k b" "same_outside p q a b" "mset b = mset a"
      using partition_correct [of p q a] 1(3,4) by auto
    have k: "p \<le> k" "k \<le> q" using part(2) by (auto simp: parted_def)
    have lb: "length b = length a" using part(3) by (simp add: same_outside_def)
    have nk: "nat (k - 1) < length b" using nat_mono [of "k - 1" q] k(2) 1(4) lb by simp
    obtain c where c: "quick_sort b p (k - 1) = Inr c" "same_outside p (k - 1) b c" "mset c = mset b" "sorted_range p (k - 1) c"
      using 1(1) [OF _ part(1)] False 1(3) nk by auto
    have lc: "length c = length b" using c(2) by (simp add: same_outside_def)
    obtain d where d: "quick_sort c (k + 1) q = Inr d" "same_outside (k + 1) q c d" "mset d = mset c" "sorted_range (k + 1) q d"
      using 1(2) [OF _ part(1), of c] False 1(3,4) k lb lc c(1) by auto
    have low: "d ! nat l \<le> b ! nat k" if l: "p \<le> l" "l < k" for l
    proof -
      have "d ! nat l = c ! nat l" using same_outside_at [OF d(2)] l 1(3) by simp
      moreover obtain l' where "p \<le> l'" "l' \<le> k - 1" "c ! nat l = b ! nat l'"
        using range_values [OF c(2,3) 1(3) nk, of l] l by auto
      ultimately show ?thesis using part(2) by (auto simp: parted_def)
    qed
    have high: "b ! nat k < d ! nat l" if l: "k < l" "l \<le> q" for l
    proof -
      obtain l' where l': "k + 1 \<le> l'" "l' \<le> q" "d ! nat l = c ! nat l'"
        using range_values [OF d(2,3), of l] l k 1(3,4) lb lc by auto
      then have "d ! nat l = b ! nat l'" using same_outside_at [OF c(2)] k 1(3) by simp
      then show ?thesis using part(2) l' by (auto simp: parted_def)
    qed
    have mid: "d ! nat k = b ! nat k" using same_outside_at [OF d(2)] same_outside_at [OF c(2)] k 1(3) by simp
    have "sorted_range p q d"
      unfolding sorted_range_def
    proof (intro allI impI)
      fix l l' assume l: "p \<le> l \<and> l \<le> l' \<and> l' \<le> q"
      consider "l' < k" | "l < k" "k \<le> l'" | "l = k" | "k < l" by linarith
      then show "d ! nat l \<le> d ! nat l'"
      proof cases
        case 1
        then have "d ! nat l = c ! nat l" "d ! nat l' = c ! nat l'" using same_outside_at [OF d(2)] l \<open>0 \<le> p\<close> by auto
        then show ?thesis using c(4) l 1 by (auto simp: sorted_range_def)
      next
        case 2
        then show ?thesis using low [of l] high [of l'] mid l by (cases "l' = k") auto
      next
        case 3
        then show ?thesis using high [of l'] mid l by (cases "l' = k") auto
      next
        case 4
        then show ?thesis using d(4) l by (auto simp: sorted_range_def)
      qed
    qed
    moreover have "quick_sort a p q = Inr d" using False by (subst quick_sort.simps) (simp add: part(1) c(1) d(1))
    moreover have "same_outside p q a d"
      using part(3) c(2) d(2) k by (auto simp: same_outside_def)
    ultimately show ?thesis using part(4) c(3) d(3) by auto
  qed
qed

lemma sorted_whole: "sorted_range 0 (int (length b) - 1) b \<Longrightarrow> sorted b"
  unfolding sorted_iff_nth_mono sorted_range_def
proof (intro allI impI)
  fix i j
  assume a: "\<forall>l l'. 0 \<le> l \<and> l \<le> l' \<and> l' \<le> int (length b) - 1 \<longrightarrow> b ! nat l \<le> b ! nat l'" "i \<le> j" "j < length b"
  then show "b ! i \<le> b ! j" using a(1) [rule_format, of "int i" "int j"] by simp
qed

section \<open>Bubble sort and selection sort\<close>

lemma exchange_run:
  assumes "i < length a" and "k < length a"
  shows "exchange (int i) (int k) a = Inr (a[i := a ! k, k := a ! i])"
  using assms by (simp add: exchange_def)

text \<open>After \<open>j\<close> rounds of bubble sort the last \<open>j\<close> places are final; within a round the largest of the
  first \<open>i + 1\<close> numbers is at \<open>i\<close>.\<close>

definition top_sorted :: "nat \<Rightarrow> int list \<Rightarrow> bool" where
  "top_sorted n a \<longleftrightarrow> (\<forall>l k. l \<le> k \<and> n \<le> k \<and> k < length a \<longrightarrow> a ! l \<le> a ! k)"

lemma bubble_step_run:
  assumes "Suc i < length a"
  shows "bubble_step i a = Inr (if a ! i > a ! Suc i then a[i := a ! Suc i, Suc i := a ! i] else a)"
proof -
  have eq: "int i + 1 = int (Suc i)" by simp
  show ?thesis using assms exchange_run [of i a "Suc i"] unfolding bubble_step_def eq by (simp del: of_nat_Suc)
qed

lemma bubble_round:
  assumes "n < length a" and "top_sorted (Suc n) a"
  shows "\<exists>b. rfold bubble_step [0..<n] a = Inr b \<and> top_sorted n b \<and> mset b = mset a \<and> length b = length a"
proof -
  let ?P = "\<lambda>i b. top_sorted (Suc n) b \<and> mset b = mset a \<and> length b = length a \<and> (\<forall>l \<le> i. b ! l \<le> b ! i)"
  have "\<exists>b. rfold bubble_step [0..<n] a = Inr b \<and> ?P n b"
  proof (rule rfold_upt [where P = ?P])
    fix i b assume i: "i < n" and b: "?P i b"
    have in_b: "Suc i < length b" using i b assms(1) by simp
    show "\<exists>c. bubble_step i b = Inr c \<and> ?P (Suc i) c"
    proof (cases "b ! i > b ! Suc i")
      case True
      let ?c = "b[i := b ! Suc i, Suc i := b ! i]"
      have "top_sorted (Suc n) ?c"
        using b i in_b unfolding top_sorted_def by (auto simp: nth_list_update)
      moreover have "mset ?c = mset a" using mset_swap [of "Suc i" b i] in_b b by (simp add: list_update_swap)
      moreover have "\<forall>l \<le> Suc i. ?c ! l \<le> ?c ! Suc i"
        using b True in_b by (auto simp: nth_list_update le_Suc_eq)
      ultimately show ?thesis using True b by (simp add: bubble_step_run [OF in_b])
    next
      case False
      then show ?thesis using b by (auto simp: bubble_step_run [OF in_b] le_Suc_eq intro: order.trans)
    qed
  qed (use assms in auto)
  then obtain b where b: "rfold bubble_step [0..<n] a = Inr b" "?P n b" by blast
  have "top_sorted n b"
    using b(2) unfolding top_sorted_def by (metis Suc_leI le_neq_implies_less)
  then show ?thesis using b by blast
qed

lemma bubble_sort_run:
  assumes "length a = sort_N"
  shows "\<exists>b. bubble_sort a = Inr b \<and> sorted b \<and> mset b = mset a"
proof -
  let ?P = "\<lambda>j b. top_sorted (sort_N - j) b \<and> mset b = mset a \<and> length b = sort_N"
  have "\<exists>b. rfold (\<lambda>j. rfold bubble_step [0..<sort_N - 1 - j]) [0..<sort_N] a = Inr b \<and> ?P sort_N b"
  proof (rule rfold_upt [where P = ?P])
    fix j b assume "j < sort_N" "?P j b"
    then show "\<exists>c. rfold bubble_step [0..<sort_N - 1 - j] b = Inr c \<and> ?P (Suc j) c"
      using bubble_round [of "sort_N - 1 - j" b] by (auto simp: Suc_diff_Suc)
  qed (use assms in \<open>auto simp: top_sorted_def\<close>)
  then show ?thesis by (auto simp: bubble_sort_def top_sorted_def sorted_iff_nth_mono)
qed

text \<open>After \<open>i\<close> rounds of selection sort the first \<open>i\<close> places are final.\<close>

definition bottom_sorted :: "nat \<Rightarrow> int list \<Rightarrow> bool" where
  "bottom_sorted n a \<longleftrightarrow> (\<forall>l k. l < n \<and> l \<le> k \<and> k < length a \<longrightarrow> a ! l \<le> a ! k)"

lemma select_min_run:
  assumes "length a = sort_N" and "i < sort_N"
  shows "\<exists>k. select_min a i = Inr (int k) \<and> i \<le> k \<and> k < sort_N \<and> (\<forall>l. i \<le> l \<and> l < sort_N \<longrightarrow> a ! k \<le> a ! l)"
proof -
  let ?P = "\<lambda>j k. \<exists>k'. k = int k' \<and> i \<le> k' \<and> k' < sort_N \<and> (\<forall>l. i \<le> l \<and> l < j \<longrightarrow> a ! k' \<le> a ! l)"
  have "\<exists>k. select_min a i = Inr k \<and> ?P sort_N k"
    unfolding select_min_def
  proof (rule rfold_upt [where P = ?P])
    fix j k assume j: "i + 1 \<le> j" "j < sort_N" and "?P j k"
    then obtain k' where k: "k = int k'" "i \<le> k'" "k' < sort_N" "\<forall>l. i \<le> l \<and> l < j \<longrightarrow> a ! k' \<le> a ! l" by blast
    show "\<exists>b. rbind (rget a (int j)) (\<lambda>x. rbind (rget a k) (\<lambda>y. Inr (if x < y then int j else k))) = Inr b \<and> ?P (Suc j) b"
    proof (cases "a ! j < a ! k'")
      case True
      then have "\<forall>l. i \<le> l \<and> l < Suc j \<longrightarrow> a ! j \<le> a ! l" using k(4) by (auto simp: less_Suc_eq intro: less_imp_le order.strict_trans2)
      then show ?thesis using True j k assms by auto
    next
      case False
      then have "\<forall>l. i \<le> l \<and> l < Suc j \<longrightarrow> a ! k' \<le> a ! l" using k(4) by (auto simp: less_Suc_eq)
      then show ?thesis using False j k assms by auto
    qed
  qed (use assms in \<open>auto simp: less_Suc_eq\<close>)
  then show ?thesis by auto
qed

lemma select_sort_run:
  assumes "length a = sort_N"
  shows "\<exists>b. select_sort a = Inr b \<and> sorted b \<and> mset b = mset a"
proof -
  let ?P = "\<lambda>i b. bottom_sorted i b \<and> mset b = mset a \<and> length b = sort_N"
  have "\<exists>b. select_sort a = Inr b \<and> ?P (sort_N - 1) b"
    unfolding select_sort_def
  proof (rule rfold_upt [where P = ?P])
    fix i b assume i: "i < sort_N - 1" and b: "?P i b"
    obtain k where k: "select_min b i = Inr (int k)" "i \<le> k" "k < sort_N" "\<forall>l. i \<le> l \<and> l < sort_N \<longrightarrow> b ! k \<le> b ! l"
      using select_min_run [of b i] b i by (auto simp: less_diff_conv)
    let ?c = "b[i := b ! k, k := b ! i]"
    have "bottom_sorted (Suc i) ?c"
      unfolding bottom_sorted_def
    proof (intro allI impI)
      fix l m assume l: "l < Suc i \<and> l \<le> m \<and> m < length ?c"
      show "?c ! l \<le> ?c ! m"
      proof (cases "l = i")
        case True
        then show ?thesis using k b l i by (cases "i = k") (auto simp: nth_list_update)
      next
        case False
        then have "\<And>n. l \<le> n \<Longrightarrow> n < sort_N \<Longrightarrow> b ! l \<le> b ! n" using b l by (auto simp: bottom_sorted_def)
        then show ?thesis using False k b l i by (auto simp: nth_list_update)
      qed
    qed
    moreover have "mset ?c = mset a" using mset_swap [of k b i] k i b by (cases "i = k") (auto simp: list_update_swap)
    moreover have "exchange (int i) (int k) b = Inr ?c" using exchange_run [of i b k] k i b by simp
    ultimately show "\<exists>c. rbind (select_min b i) (\<lambda>k. exchange (int i) k b) = Inr c \<and> ?P (Suc i) c"
      using k(1) b by auto
  qed (use assms in \<open>auto simp: bottom_sorted_def sort_N_def\<close>)
  then show ?thesis
    by (fastforce simp: bottom_sorted_def sorted_iff_nth_mono le_eq_less_or_eq)
qed

section \<open>The three programs\<close>

text \<open>The check of the sorted array in \<open>main\<close>, then again after sorting it a second time.\<close>

definition check_sorted :: "int list \<Rightarrow> unit res" where
  "check_sorted a =
     rbind (rfold (\<lambda>i _. rbind (rget a (int i)) (\<lambda>x. rbind (check (x = int i)) (\<lambda>_. Inr (i + 1)))) [0..<sort_N] 0)
       (\<lambda>i. check (i = sort_N))"

definition sort_main :: "(int list \<Rightarrow> int list res) \<Rightarrow> u32 res" where
  "sort_main sort_it =
     rbind (sort_it sort_data) (\<lambda>a. rbind (check_sorted a) (\<lambda>_.
     rbind (sort_it a) (\<lambda>a. rbind (check_sorted a) (\<lambda>_. Inr 0))))"

definition bubble_main :: "u32 res" where "bubble_main = sort_main bubble_sort"
definition select_main :: "u32 res" where "select_main = sort_main select_sort"
definition quick_main :: "u32 res" where "quick_main = sort_main (\<lambda>a. quick_sort a 0 (int sort_N - 1))"

lemma sorted_unique: "sorted b \<Longrightarrow> mset b = mset a \<Longrightarrow> b = sort a"
  by (metis properties_for_sort)

lemma sort_main_run:
  assumes "\<And>a. length a = sort_N \<Longrightarrow> \<exists>b. f a = Inr b \<and> sorted b \<and> mset b = mset a"
  shows "sort_main f = Inr 0"
proof -
  let ?b = "[0, 1, 2, 3, 4, 5, 6, 7, 8, 9, 10, 11, 12, 13, 14, 15, 16, 17, 18, 19] :: int list"
  have sorts: "f a = Inr (sort a)" if "length a = sort_N" for a using assms [OF that] by (auto dest: sorted_unique)
  have "f sort_data = Inr ?b" using sorts [of sort_data] by (simp add: sort_data_def sort_N_def)
  moreover have "f ?b = Inr ?b" using sorts [of ?b] by (simp add: sort_N_def)
  moreover have "check_sorted ?b = Inr ()"
    by (simp add: check_sorted_def sort_N_def upt_rec rget_def)
  ultimately show ?thesis by (simp add: sort_main_def)
qed

text \<open>On an array of \<open>N\<close> numbers bubble sort and selection sort end without leaving the array, and the
  result is the sorted array.\<close>

lemma bubble_select_correct:
  assumes "length a = sort_N"
  shows "bubble_sort a = Inr (sort a) \<and> select_sort a = Inr (sort a)"
  using bubble_sort_run [OF assms] select_sort_run [OF assms] by (auto dest: sorted_unique)

lemma bubble_select_correct_witness:
  "bubble_sort sort_data = Inr [0, 1, 2, 3, 4, 5, 6, 7, 8, 9, 10, 11, 12, 13, 14, 15, 16, 17, 18, 19] \<and>
   select_sort sort_data = Inr [0, 1, 2, 3, 4, 5, 6, 7, 8, 9, 10, 11, 12, 13, 14, 15, 16, 17, 18, 19]"
  using bubble_select_correct [of sort_data] by (simp add: sort_N_def sort_data_def)

text \<open>C18: Quick sort of the places \<open>p\<close> to \<open>q\<close> of an array ends without leaving it: it sorts these places,
  permutes the array and leaves all other places alone.\<close>

theorem quick_sort_correct:
  assumes "0 \<le> p" and "nat q < length a"
  shows "\<exists>b. quick_sort a p q = Inr b \<and> mset b = mset a \<and>
    (\<forall>l l'. p \<le> l \<and> l \<le> l' \<and> l' \<le> q \<longrightarrow> b ! nat l \<le> b ! nat l') \<and>
    (\<forall>l. int l < p \<or> q < int l \<longrightarrow> b ! l = a ! l)"
  using quick_sort_run [OF assms] unfolding sorted_range_def same_outside_def by blast

theorem quick_sort_correct_witness:
  "\<exists>b. quick_sort [3, 9, 5, 7, 1] 1 3 = Inr b \<and> b ! 0 = 3 \<and> b ! 1 \<le> b ! 2 \<and> b ! 2 \<le> b ! 3 \<and> b ! 4 = 1"
proof -
  obtain b where b: "quick_sort [3, 9, 5, 7, 1] 1 3 = Inr b"
    "\<forall>l l'. 1 \<le> l \<and> l \<le> l' \<and> l' \<le> 3 \<longrightarrow> b ! nat l \<le> b ! nat l'"
    "\<forall>l. int l < 1 \<or> 3 < int l \<longrightarrow> b ! l = [3, 9, 5, 7, 1] ! l"
    using quick_sort_correct [of 1 3 "[3, 9, 5, 7, 1]"] by force
  show ?thesis
    using b(1) b(2) [rule_format, of 1 2] b(2) [rule_format, of 2 3] b(3) [rule_format, of 0] b(3) [rule_format, of 4] by simp
qed

lemma quick_sort_whole:
  assumes "length a = sort_N"
  shows "\<exists>b. quick_sort a 0 (int sort_N - 1) = Inr b \<and> sorted b \<and> mset b = mset a"
proof -
  obtain b where "quick_sort a 0 (int sort_N - 1) = Inr b" "same_outside 0 (int sort_N - 1) a b" "mset b = mset a"
    "sorted_range 0 (int sort_N - 1) b"
    using quick_sort_run [of 0 "int sort_N - 1" a] assms by (auto simp: sort_N_def)
  then show ?thesis using sorted_whole [of b] assms by (auto simp: same_outside_def)
qed

lemma sort_mains: "bubble_main = Inr 0" "select_main = Inr 0" "quick_main = Inr 0"
  unfolding bubble_main_def select_main_def quick_main_def
  by (rule sort_main_run, erule bubble_sort_run select_sort_run quick_sort_whole)+

end
