(* ===== verification/Func_Programs.thy ===== *)
theory Func_Programs
  imports Func_Numbers Func_Bits Func_Sort
begin

text \<open>
  The remaining programs of \<open>functest/src\<close>, with their tables of data and answers, and that every one of
  them ends with code 0. The type \<open>int\<close> is a word of 32 bits where a program computes with the whole range.
\<close>

section \<open>Recursion through a table of functions\<close>

text \<open>The state holds \<open>rec\<close>, the number of calls, and \<open>lvl\<close>, the deepest level; \<open>n\<close> only shrinks.\<close>

type_synonym rec_state = "u32 \<times> int"

definition enter :: "int \<Rightarrow> rec_state \<Rightarrow> rec_state" where
  "enter l = (\<lambda>(rc, lvl). (rc + 1, if l > lvl then l else lvl))"

function f0 :: "int \<Rightarrow> int \<Rightarrow> rec_state \<Rightarrow> u32 \<times> rec_state"
  and f1 :: "int \<Rightarrow> int \<Rightarrow> rec_state \<Rightarrow> u32 \<times> rec_state"
  and f2 :: "int \<Rightarrow> int \<Rightarrow> rec_state \<Rightarrow> u32 \<times> rec_state"
  and f3 :: "int \<Rightarrow> int \<Rightarrow> rec_state \<Rightarrow> u32 \<times> rec_state" where
  "f0 n l s = (if n \<le> 0 then (1, enter l s) else f3 (n div 3) (l + 1) (enter l s))"
| "f1 n l s = (if n \<le> 0 then (1, enter l s) else f0 (n - 1) (l + 1) (enter l s))"
| "f2 n l s =
     (if n \<le> 0 then (1, enter l s) else case f1 n (l + 1) (enter l s) of (v, s) \<Rightarrow> (v + 9, s))"
| "f3 n l s =
     (if n \<le> 0 then (1, enter l s)
      else case f2 (n div 2) (l + 1) (enter l s) of (v, s) \<Rightarrow>
        case f2 (n div 2) (l + 1) s of (w, s) \<Rightarrow> (v * 3 + w * 2, s))"
  by pat_completeness auto
termination
  by (relation "measure (case_sum (case_sum (\<lambda>(n, l, s). 3 * nat n) (\<lambda>(n, l, s). 3 * nat n))
    (case_sum (\<lambda>(n, l, s). 3 * nat n + 1) (\<lambda>(n, l, s). 3 * nat n)))") auto

definition recursion_main :: "u32 res" where
  "recursion_main =
     (case f0 14371 0 (0, 0) of (x, rc, lvl) \<Rightarrow>
      rbind (check (x = 38270)) (\<lambda>_. rbind (check (rc = 218)) (\<lambda>_. rbind (check (lvl = 20)) (\<lambda>_. Inr 0))))"

lemma recursion_main: "recursion_main = Inr 0"
  by code_simp

section \<open>Matrices\<close>

type_synonym matrix = "u32 list list"

definition mat_N :: nat where "mat_N = 10"

definition at2 :: "matrix \<Rightarrow> nat \<Rightarrow> nat \<Rightarrow> u32" where "at2 c i j = c ! i ! j"
definition put2 :: "matrix \<Rightarrow> nat \<Rightarrow> nat \<Rightarrow> u32 \<Rightarrow> matrix" where "put2 c i j v = c[i := (c ! i)[j := v]]"

definition mat_cell :: "matrix \<Rightarrow> matrix \<Rightarrow> nat \<Rightarrow> nat \<Rightarrow> matrix \<Rightarrow> matrix" where
  "mat_cell a b i j c = fold (\<lambda>k c. put2 c i j (at2 c i j + at2 a i k * at2 b k j)) [0..<mat_N] (put2 c i j 0)"

definition mat_mul :: "matrix \<Rightarrow> matrix \<Rightarrow> matrix \<Rightarrow> matrix \<Rightarrow> matrix res" where
  "mat_mul a b ans c =
     rfold (\<lambda>i. rfold (\<lambda>j c. let c = mat_cell a b i j c in
       rbind (check (at2 c i j = at2 ans i j)) (\<lambda>_. Inr c)) [0..<mat_N]) [0..<mat_N] c"

definition mat_a :: matrix where
  "mat_a =
    [[31, - 73, - 67, - 28, 87, - 17, - 15, - 35, - 53, - 54],
     [52, 36, 9, - 91, - 27, - 78, 42, 82, 19, - 6],
     [41, - 56, 31, 32, - 52, 74, 28, 20, 55, - 72],
     [- 59, 2, - 79, - 8, 44, 55, - 83, - 95, - 45, 50],
     [- 95, 61, - 63, 62, - 16, 52, 40, 92, - 32, - 26],
     [- 99, 52, 96, 63, - 75, - 74, - 82, 82, - 95, 42],
     [11, - 22, 27, - 27, - 27, - 76, - 71, 58, - 40, - 65],
     [91, - 53, - 67, 72, 36, - 77, - 3, 93, - 24, 97],
     [- 52, - 11, - 77, - 93, - 92, - 24, 70, 18, 56, 88],
     [- 43, - 41, - 26, 11, - 84, - 14, - 41, 83, 27, - 11]]"

definition mat_b :: matrix where
  "mat_b =
    [[- 48, - 70, - 40, - 82, - 74, - 63, - 59, - 72, - 100, - 72],
     [5, - 84, 28, 56, 60, - 33, - 42, - 50, - 83, - 83],
     [- 5, 5, 48, 75, - 78, - 9, 9, 2, 88, 70],
     [69, 23, 66, 66, - 11, 50, 67, 18, - 58, 76],
     [30, 45, 32, 25, - 73, 57, - 67, - 14, 53, - 33],
     [98, - 86, - 63, 80, - 45, - 88, 80, - 64, 58, - 84],
     [- 55, - 39, - 13, - 27, - 37, 8, - 96, 84, - 89, 31],
     [- 82, 58, 81, - 41, - 58, 36, 76, - 79, - 29, 23],
     [86, - 46, 16, - 18, 81, 90, 35, - 90, 43, 55],
     [- 38, - 19, - 40, 82, - 76, 57, - 29, - 2, 79, - 48]]"

definition mat_ans :: matrix where
  "mat_ans =
    [[- 1317, 10379, - 5821, - 14322, - 4330, - 3114, - 9940, 7033, - 1883, - 6027],
     [- 24266, - 861, 4044, - 19824, - 223, 886, - 11988, - 6442, - 13846, - 1054],
     [9783, - 7073, - 918, - 5911, - 967, - 7100, 14605, - 7556, - 3439, 9607],
     [15980, - 520, - 13297, 15043, 6185, - 3654, 1325, 4193, 16925, - 17761],
     [2566, 3187, 10248, 7925, 6318, 1421, 14648, 700, - 12193, 1083],
     [- 12603, 19006, 20952, 18599, - 1539, 5184, 17408, 6740, 6264, 15114],
     [- 12715, 15121, 9963, - 13717, 2411, - 2196, 6147, - 1698, - 3389, 8200],
     [- 19007, 12417, 5723, - 11309, - 19242, 15740, - 3791, - 3949, - 13130, - 21],
     [- 12557, - 5970, - 11570, - 8905, 12227, 7814, - 5094, 4532, 1071, - 1309],
     [- 2955, 9381, 6372, - 6898, 9117, 5753, 20778, - 5045, 1047, 12114]]"

definition matrix_main :: "u32 res" where
  "matrix_main = rbind (mat_mul mat_a mat_b mat_ans (replicate mat_N (replicate mat_N 0))) (\<lambda>_. Inr 0)"

text \<open>The product, and the shape of a matrix.\<close>

definition mat_product :: "matrix \<Rightarrow> matrix \<Rightarrow> nat \<Rightarrow> nat \<Rightarrow> u32" where
  "mat_product a b i j = (\<Sum>k<mat_N. at2 a i k * at2 b k j)"

definition square_matrix :: "matrix \<Rightarrow> bool" where
  "square_matrix c \<longleftrightarrow> length c = mat_N \<and> (\<forall>r \<in> set c. length r = mat_N)"

lemma square_put: "square_matrix c \<Longrightarrow> i < mat_N \<Longrightarrow> square_matrix (put2 c i j v)"
  by (auto simp: square_matrix_def put2_def dest!: set_update_subset_insert [THEN subsetD])

lemma at2_put2:
  assumes "square_matrix c" and "i < mat_N" and "j < mat_N"
  shows "at2 (put2 c i j v) i' j' = (if i' = i \<and> j' = j then v else at2 c i' j')"
  using assms by (auto simp: at2_def put2_def square_matrix_def nth_list_update)

lemma put2_put2: "i < length c \<Longrightarrow> put2 (put2 c i j u) i j v = put2 c i j v"
  by (simp add: put2_def)

lemma mat_cell_eq:
  assumes "square_matrix c" and "i < mat_N" and "j < mat_N"
  shows "mat_cell a b i j c = put2 c i j (mat_product a b i j)"
proof -
  have "fold (\<lambda>k c. put2 c i j (at2 c i j + at2 a i k * at2 b k j)) [0..<n] (put2 c i j 0) =
      put2 c i j (\<Sum>k<n. at2 a i k * at2 b k j)" for n
  proof (induction n)
    case (Suc n)
    have "i < length c" using assms by (simp add: square_matrix_def)
    then show ?case using Suc by (simp add: at2_put2 [OF assms] put2_put2)
  qed simp
  then show ?thesis by (simp add: mat_cell_def mat_product_def)
qed

lemma mat_mul_run:
  assumes "square_matrix c" and "\<forall>i < mat_N. \<forall>j < mat_N. at2 ans i j = mat_product a b i j"
  shows "\<exists>d. mat_mul a b ans c = Inr d \<and> (\<forall>i < mat_N. \<forall>j < mat_N. at2 d i j = mat_product a b i j)"
proof -
  let ?f = "\<lambda>i j c. let c = mat_cell a b i j c in rbind (check (at2 c i j = at2 ans i j)) (\<lambda>_. Inr c)"
  let ?P = "\<lambda>i d. square_matrix d \<and> (\<forall>i' < i. \<forall>j < mat_N. at2 d i' j = mat_product a b i' j)"
  have "\<exists>d. rfold (\<lambda>i. rfold (?f i) [0..<mat_N]) [0..<mat_N] c = Inr d \<and> ?P mat_N d"
  proof (rule rfold_upt [where P = ?P])
    fix i d assume i: "i < mat_N" and d: "?P i d"
    let ?Q = "\<lambda>j e. ?P i e \<and> (\<forall>j' < j. at2 e i j' = mat_product a b i j')"
    have "\<exists>e. rfold (?f i) [0..<mat_N] d = Inr e \<and> ?Q mat_N e"
    proof (rule rfold_upt [where P = ?Q])
      fix j e assume j: "j < mat_N" and e: "?Q j e"
      have sq: "square_matrix e" using e by simp
      have "?f i j e = Inr (put2 e i j (mat_product a b i j))"
        using assms(2) i j by (simp add: mat_cell_eq [OF sq i j] at2_put2 [OF sq i j])
      moreover have "?Q (Suc j) (put2 e i j (mat_product a b i j))"
        using e i by (simp add: square_put at2_put2 [OF sq i j] less_Suc_eq)
      ultimately show "\<exists>e'. ?f i j e = Inr e' \<and> ?Q (Suc j) e'" by blast
    qed (use d in simp_all)
    then show "\<exists>e. rfold (?f i) [0..<mat_N] d = Inr e \<and> ?P (Suc i) e" by (auto simp: less_Suc_eq)
  qed (use assms(1) in simp_all)
  then show ?thesis unfolding mat_mul_def by blast
qed

lemma mat_answers: "\<forall>i < mat_N. \<forall>j < mat_N. at2 mat_ans i j = mat_product mat_a mat_b i j"
  by (simp add: mat_N_def all_less_numeral mat_product_def at2_def mat_a_def mat_b_def mat_ans_def lessThan_nat_numeral lessThan_Suc)

lemma zero_matrix: "square_matrix (replicate mat_N (replicate mat_N 0))"
  by (simp add: square_matrix_def)

text \<open>The three loops compute the matrix product, in wrap-around arithmetic: when the answers are the
  product, all checks pass and the result is the product, whatever was in the target before.\<close>

lemma mat_mul_correct:
  assumes "square_matrix c" and "\<forall>i < mat_N. \<forall>j < mat_N. at2 ans i j = mat_product a b i j"
  shows "\<exists>d. mat_mul a b ans c = Inr d \<and> (\<forall>i < mat_N. \<forall>j < mat_N. at2 d i j = mat_product a b i j)"
  by (rule mat_mul_run [OF assms])

lemma mat_mul_correct_witness:
  "\<exists>d. mat_mul mat_a mat_b mat_ans (replicate mat_N (replicate mat_N 0)) = Inr d \<and> at2 d 0 1 = 10379"
proof -
  obtain d where "mat_mul mat_a mat_b mat_ans (replicate mat_N (replicate mat_N 0)) = Inr d"
    and d: "\<forall>i < mat_N. \<forall>j < mat_N. at2 d i j = mat_product mat_a mat_b i j"
    using mat_mul_correct [OF zero_matrix mat_answers] by blast
  moreover have "at2 d 0 1 = at2 mat_ans 0 1" using mat_answers d by (simp add: mat_N_def)
  moreover have "at2 mat_ans 0 1 = 10379" by (simp add: at2_def mat_ans_def)
  ultimately show ?thesis by auto
qed

lemma matrix_main: "matrix_main = Inr 0"
  using mat_mul_run [OF zero_matrix mat_answers] by (auto simp: matrix_main_def)

section \<open>Tables of answers\<close>

text \<open>Two and three nested loops over the data with one index into the answers.\<close>

definition next_answer :: "'a list \<Rightarrow> 'a \<Rightarrow> nat \<Rightarrow> nat res" where
  "next_answer ans x k = rbind (rget ans (int k)) (\<lambda>y. rbind (check (x = y)) (\<lambda>_. Inr (k + 1)))"

definition check_all :: "'b list \<Rightarrow> ('b \<Rightarrow> 'a) \<Rightarrow> 'a list \<Rightarrow> u32 res" where
  "check_all data f ans = rbind (rfold (\<lambda>x. next_answer ans (f x)) data 0) (\<lambda>_. Inr 0)"

definition check_pairs :: "'b list \<Rightarrow> ('b \<Rightarrow> 'b \<Rightarrow> 'a) \<Rightarrow> 'a list \<Rightarrow> u32 res" where
  "check_pairs data f ans =
     rbind (rfold (\<lambda>x. rfold (\<lambda>y. next_answer ans (f x y)) data) data 0) (\<lambda>_. Inr 0)"

definition check_triples :: "'b list \<Rightarrow> ('b \<Rightarrow> 'b \<Rightarrow> 'b \<Rightarrow> 'a) \<Rightarrow> 'a list \<Rightarrow> u32 res" where
  "check_triples data f ans =
     rbind (rfold (\<lambda>x. rfold (\<lambda>y. rfold (\<lambda>z. next_answer ans (f x y z)) data) data) data 0) (\<lambda>_. Inr 0)"

definition add_int :: "u32 \<Rightarrow> u32 \<Rightarrow> u32" where "add_int a b = a + b"

definition add_data :: "u32 list" where
  "add_data =
    [0, 1, 2, 0x7fffffff, 0x80000000, 0x80000001, 0xfffffffe, 0xffffffff]"

definition add_ans :: "u32 list" where
  "add_ans =
    [0, 0x1, 0x2, 0x7fffffff, 0x80000000, 0x80000001, 0xfffffffe, 0xffffffff, 0x1, 0x2, 0x3, 0x80000000,
     0x80000001, 0x80000002, 0xffffffff, 0, 0x2, 0x3, 0x4, 0x80000001, 0x80000002, 0x80000003, 0, 0x1,
     0x7fffffff, 0x80000000, 0x80000001, 0xfffffffe, 0xffffffff, 0, 0x7ffffffd, 0x7ffffffe, 0x80000000,
     0x80000001, 0x80000002, 0xffffffff, 0, 0x1, 0x7ffffffe, 0x7fffffff, 0x80000001, 0x80000002, 0x80000003, 0,
     0x1, 0x2, 0x7fffffff, 0x80000000, 0xfffffffe, 0xffffffff, 0, 0x7ffffffd, 0x7ffffffe, 0x7fffffff,
     0xfffffffc, 0xfffffffd, 0xffffffff, 0, 0x1, 0x7ffffffe, 0x7fffffff, 0x80000000, 0xfffffffd, 0xfffffffe]"

definition add_main :: "u32 res" where
  "add_main = check_pairs add_data add_int add_ans"

lemma add_main: "add_main = Inr 0"
  by code_simp

definition add_longlong :: "u64 \<Rightarrow> u64 \<Rightarrow> u64" where "add_longlong a b = a + b"

definition add_ll_data :: "u64 list" where
  "add_ll_data =
    [0, 1, 2, 0x7fffffffffffffff, 0x8000000000000000, 0x8000000000000001, 0xfffffffffffffffe,
     0xffffffffffffffff]"

definition add_ll_ans :: "u64 list" where
  "add_ll_ans =
    [0, 0x1, 0x2, 0x7fffffffffffffff, 0x8000000000000000, 0x8000000000000001, 0xfffffffffffffffe,
     0xffffffffffffffff, 0x1, 0x2, 0x3, 0x8000000000000000, 0x8000000000000001, 0x8000000000000002,
     0xffffffffffffffff, 0, 0x2, 0x3, 0x4, 0x8000000000000001, 0x8000000000000002, 0x8000000000000003, 0, 0x1,
     0x7fffffffffffffff, 0x8000000000000000, 0x8000000000000001, 0xfffffffffffffffe, 0xffffffffffffffff, 0,
     0x7ffffffffffffffd, 0x7ffffffffffffffe, 0x8000000000000000, 0x8000000000000001, 0x8000000000000002,
     0xffffffffffffffff, 0, 0x1, 0x7ffffffffffffffe, 0x7fffffffffffffff, 0x8000000000000001,
     0x8000000000000002, 0x8000000000000003, 0, 0x1, 0x2, 0x7fffffffffffffff, 0x8000000000000000,
     0xfffffffffffffffe, 0xffffffffffffffff, 0, 0x7ffffffffffffffd, 0x7ffffffffffffffe, 0x7fffffffffffffff,
     0xfffffffffffffffc, 0xfffffffffffffffd, 0xffffffffffffffff, 0, 0x1, 0x7ffffffffffffffe,
     0x7fffffffffffffff, 0x8000000000000000, 0xfffffffffffffffd, 0xfffffffffffffffe]"

definition add_ll_main :: "u32 res" where
  "add_ll_main = check_pairs add_ll_data add_longlong add_ll_ans"

lemma add_ll_main: "add_ll_main = Inr 0"
  by code_simp

definition sub_longlong :: "u64 \<Rightarrow> u64 \<Rightarrow> u64" where "sub_longlong a b = a - b"

definition sub_ll_data :: "u64 list" where
  "sub_ll_data =
    [0, 1, 2, 0x7fffffffffffffff, 0x8000000000000000, 0x8000000000000001, 0xfffffffffffffffe,
     0xffffffffffffffff]"

definition sub_ll_ans :: "u64 list" where
  "sub_ll_ans =
    [0, 0xffffffffffffffff, 0xfffffffffffffffe, 0x8000000000000001, 0x8000000000000000, 0x7fffffffffffffff,
     0x2, 0x1, 0x1, 0, 0xffffffffffffffff, 0x8000000000000002, 0x8000000000000001, 0x8000000000000000, 0x3,
     0x2, 0x2, 0x1, 0, 0x8000000000000003, 0x8000000000000002, 0x8000000000000001, 0x4, 0x3,
     0x7fffffffffffffff, 0x7ffffffffffffffe, 0x7ffffffffffffffd, 0, 0xffffffffffffffff, 0xfffffffffffffffe,
     0x8000000000000001, 0x8000000000000000, 0x8000000000000000, 0x7fffffffffffffff, 0x7ffffffffffffffe, 0x1,
     0, 0xffffffffffffffff, 0x8000000000000002, 0x8000000000000001, 0x8000000000000001, 0x8000000000000000,
     0x7fffffffffffffff, 0x2, 0x1, 0, 0x8000000000000003, 0x8000000000000002, 0xfffffffffffffffe,
     0xfffffffffffffffd, 0xfffffffffffffffc, 0x7fffffffffffffff, 0x7ffffffffffffffe, 0x7ffffffffffffffd, 0,
     0xffffffffffffffff, 0xffffffffffffffff, 0xfffffffffffffffe, 0xfffffffffffffffd, 0x8000000000000000,
     0x7fffffffffffffff, 0x7ffffffffffffffe, 0x1, 0]"

definition sub_ll_main :: "u32 res" where
  "sub_ll_main = check_pairs sub_ll_data sub_longlong sub_ll_ans"

lemma sub_ll_main: "sub_ll_main = Inr 0"
  by code_simp

definition max_int :: "u32 \<Rightarrow> u32 \<Rightarrow> u32" where "max_int x y = (if sint x > sint y then x else y)"

definition max_data :: "u32 list" where
  "max_data =
    [0, 1, 2, 0x7fffffff, 0x80000000, 0x80000001, 0xfffffffe, 0xffffffff]"

definition max_ans :: "u32 list" where
  "max_ans =
    [0, 0x1, 0x2, 0x7fffffff, 0, 0, 0, 0, 0x1, 0x1, 0x2, 0x7fffffff, 0x1, 0x1, 0x1, 0x1, 0x2, 0x2, 0x2,
     0x7fffffff, 0x2, 0x2, 0x2, 0x2, 0x7fffffff, 0x7fffffff, 0x7fffffff, 0x7fffffff, 0x7fffffff, 0x7fffffff,
     0x7fffffff, 0x7fffffff, 0, 0x1, 0x2, 0x7fffffff, 0x80000000, 0x80000001, 0xfffffffe, 0xffffffff, 0, 0x1,
     0x2, 0x7fffffff, 0x80000001, 0x80000001, 0xfffffffe, 0xffffffff, 0, 0x1, 0x2, 0x7fffffff, 0xfffffffe,
     0xfffffffe, 0xfffffffe, 0xffffffff, 0, 0x1, 0x2, 0x7fffffff, 0xffffffff, 0xffffffff, 0xffffffff,
     0xffffffff]"

definition max_main :: "u32 res" where
  "max_main = check_pairs max_data max_int max_ans"

lemma max_main: "max_main = Inr 0"
  by code_simp

definition min3 :: "u32 \<Rightarrow> u32 \<Rightarrow> u32 \<Rightarrow> u32" where
  "min3 x y z = (let m = (if sint x < sint y then x else y) in if sint z < sint m then z else m)"

definition min3_data :: "u32 list" where
  "min3_data =
    [0, 0x7fffffff, 0x80000000, 0xffffffff]"

definition min3_ans :: "u32 list" where
  "min3_ans =
    [0, 0, - 2147483648, - 1, 0, 0, - 2147483648, - 1, - 2147483648, - 2147483648, - 2147483648, - 2147483648,
     - 1, - 1, - 2147483648, - 1, 0, 0, - 2147483648, - 1, 0, 2147483647, - 2147483648, - 1, - 2147483648,
     - 2147483648, - 2147483648, - 2147483648, - 1, - 1, - 2147483648, - 1, - 2147483648, - 2147483648,
     - 2147483648, - 2147483648, - 2147483648, - 2147483648, - 2147483648, - 2147483648, - 2147483648,
     - 2147483648, - 2147483648, - 2147483648, - 2147483648, - 2147483648, - 2147483648, - 2147483648, - 1,
     - 1, - 2147483648, - 1, - 1, - 1, - 2147483648, - 1, - 2147483648, - 2147483648, - 2147483648,
     - 2147483648, - 1, - 1, - 2147483648, - 1]"

definition min3_main :: "u32 res" where
  "min3_main = check_triples min3_data min3 min3_ans"

lemma min3_main: "min3_main = Inr 0"
  by code_simp

definition mul_longlong :: "u64 \<Rightarrow> u64 \<Rightarrow> u64" where "mul_longlong a b = a * b"

definition mul_data :: "u32 list" where
  "mul_data =
    [0xaeb1c2aa, 0x4500ff2b, 0x877190af, 0x11f42438]"

definition mul_ans :: "u64 list" where
  "mul_ans =
    [0x19d29ab9db1a18e4, 0xea15986d3ac3088e, 0x2649e980fc0db236, 0xfa4c43da0a4a7d30, 0x1299898e2c56b139,
     0xdf8123d50a319e65, 0x4d6dfa84c15dd68, 0x38c5d79b9e4357a1, 0xf78b91cb1efc4248, 0x14255a47fdfcc40]"

definition mul_main :: "u32 res" where
  "mul_main =
     rbind (rfold (\<lambda>i. rfold (\<lambda>j. next_answer mul_ans (mul_longlong (scast (mul_data ! i)) (scast (mul_data ! j)))) [i..<4]) [0..<4] 0)
       (\<lambda>_. Inr 0)"

lemma mul_main: "mul_main = Inr 0"
  by code_simp

definition if_else :: "int \<Rightarrow> int" where
  "if_else n = (if n > 500 then 150 else if n > 300 then 100 else if n > 100 then 75 else if n > 50 then 50 else 0)"

definition if_else_data :: "int list" where
  "if_else_data =
    [- 1, 0, 49, 50, 51, 99, 100, 101, 299, 300, 301, 499, 500, 501]"

definition if_else_ans :: "int list" where
  "if_else_ans =
    [0, 0, 0, 0, 50, 50, 50, 75, 75, 75, 100, 100, 100, 150]"

definition if_else_main :: "u32 res" where
  "if_else_main = check_all if_else_data if_else if_else_ans"

lemma if_else_main: "if_else_main = Inr 0"
  by code_simp

definition switch_case :: "int \<Rightarrow> int" where
  "switch_case n =
     (if n = 0 then 0 else if n = 1 then 2 else if n = 2 \<or> n = 3 then 5
      else if n = 4 \<or> n = 5 \<or> n = 6 \<or> n = 7 then 8
      else if n = 8 \<or> n = 9 \<or> n = 10 \<or> n = 11 then 10 else if n = 12 then 15 else - 1)"

definition switch_ans :: "int list" where
  "switch_ans =
    [- 1, 0, 2, 5, 5, 8, 8, 8, 8, 10, 10, 10, 10, 15, - 1]"

definition switch_main :: "u32 res" where
  "switch_main = check_all (map (\<lambda>i. int i - 1) [0..<15]) switch_case switch_ans"

lemma switch_main: "switch_main = Inr 0"
  by code_simp

definition is_leap_year :: "int \<Rightarrow> int" where
  "is_leap_year n = (if (n mod 4 = 0 \<and> n mod 100 \<noteq> 0) \<or> n mod 400 = 0 then 1 else 0)"

definition leap_year_ans :: "int list" where
  "leap_year_ans =
    [0, 0, 1, 0, 0, 0, 1, 0, 0, 0, 0, 0, 0, 0, 1, 0, 0, 0, 1, 0, 0, 0, 1, 0, 0, 0, 1, 0, 0, 0, 1, 0, 0, 0, 1,
     0, 0, 0, 1, 0, 0, 0, 1, 0, 0, 0, 1, 0, 0, 0, 1, 0, 0, 0, 1, 0, 0, 0, 1, 0, 0, 0, 1, 0, 0, 0, 1, 0, 0, 0,
     1, 0, 0, 0, 1, 0, 0, 0, 1, 0, 0, 0, 1, 0, 0, 0, 1, 0, 0, 0, 1, 0, 0, 0, 1, 0, 0, 0, 1, 0, 0, 0, 1, 0, 0,
     0, 1, 0, 0, 0, 1, 0, 0, 0, 1, 0, 0, 0, 1, 0, 0, 0, 1, 0, 0]"

definition leap_year_main :: "u32 res" where
  "leap_year_main = check_all (map (\<lambda>i. int i + 1890) [0..<125]) is_leap_year leap_year_ans"

lemma leap_year_main: "leap_year_main = Inr 0"
  by code_simp

definition to_lower_case :: "u8 \<Rightarrow> u8" where
  "to_lower_case c = (if 0x41 \<le> sint c \<and> sint c \<le> 0x5A then c + 32 else c)"

definition lower_ans :: "u8 list" where
  "lower_ans =
    [0, 1, 2, 3, 4, 5, 6, 7, 8, 9, 10, 11, 12, 13, 14, 15, 16, 17, 18, 19, 20, 21, 22, 23, 24, 25, 26, 27, 28,
     29, 30, 31, 32, 33, 34, 35, 36, 37, 38, 39, 40, 41, 42, 43, 44, 45, 46, 47, 48, 49, 50, 51, 52, 53, 54,
     55, 56, 57, 58, 59, 60, 61, 62, 63, 64, 97, 98, 99, 100, 101, 102, 103, 104, 105, 106, 107, 108, 109, 110,
     111, 112, 113, 114, 115, 116, 117, 118, 119, 120, 121, 122, 91, 92, 93, 94, 95, 96, 97, 98, 99, 100, 101,
     102, 103, 104, 105, 106, 107, 108, 109, 110, 111, 112, 113, 114, 115, 116, 117, 118, 119, 120, 121, 122,
     123, 124, 125, 126, 127]"

definition lower_main :: "u32 res" where
  "lower_main = check_all (map of_nat [0..<128]) to_lower_case lower_ans"

lemma lower_main: "lower_main = Inr 0"
  by code_simp

section \<open>Counting programs\<close>

text \<open>\<open>prime.c\<close>: the inner loop stops at the first divisor; \<open>i\<close> is \<open>m\<close> when there is none.\<close>

definition prime_ans :: "int list" where
  "prime_ans = [101, 103, 107, 109, 113, 127, 131, 137, 139, 149]"

function first_divisor :: "int \<Rightarrow> int \<Rightarrow> int" where
  "first_divisor m i = (if i < m then (if m mod i = 0 then i else first_divisor m (i + 1)) else i)"
  by pat_completeness auto
termination by (relation "measure (\<lambda>(m, i). nat (m - i))") auto

definition prime_main :: "u32 res" where
  "prime_main =
     rbind (rfold (\<lambda>k n. let m = int (101 + 2 * k); i = first_divisor m 2 in
         if i = m then next_answer prime_ans i n else Inr n) [0..<25] 0) (\<lambda>n.
     rbind (check (n = 10)) (\<lambda>_. Inr 0))"

lemma prime_main: "prime_main = Inr 0"
  by code_simp

text \<open>\<open>wanshu.c\<close>: the perfect numbers below 30; \<open>shuixianhua.c\<close>: the numbers below 500 that are the sum of the
  cubes of their digits.\<close>

definition divisor_sum :: "int \<Rightarrow> int" where
  "divisor_sum n = fold (\<lambda>i sum. if n mod int i = 0 then sum + int i else sum) [1..<nat n] 0"

definition wanshu_main :: "u32 res" where
  "wanshu_main =
     rbind (rfold (\<lambda>n k. if divisor_sum (int n) = int n then next_answer [6, 28] (int n) k else Inr k) [1..<30] 0) (\<lambda>k.
     rbind (check (k = 2)) (\<lambda>_. Inr 0))"

lemma wanshu_main: "wanshu_main = Inr 0"
  by code_simp

definition cube :: "int \<Rightarrow> int" where "cube n = n * n * n"

definition digit_cubes :: "int \<Rightarrow> bool" where
  "digit_cubes n \<longleftrightarrow> (let n2 = n div 100; n1 = (n div 10) mod 10; n0 = n mod 10 in n = cube n2 + cube n1 + cube n0)"

definition shuixianhua_main :: "u32 res" where
  "shuixianhua_main =
     rbind (rfold (\<lambda>n k. if digit_cubes n then next_answer [153, 370, 371, 407] n k else Inr k) [100..499] 0) (\<lambda>k.
     rbind (check (k = 4)) (\<lambda>_. Inr 0))"

lemma shuixianhua_main: "shuixianhua_main = Inr 0"
  by code_simp

definition sum_main :: "u32 res" where
  "sum_main = rbind (check (fold (\<lambda>i sum. sum + of_nat i) [1..<101] (0 :: u32) = 5050)) (\<lambda>_. Inr 0)"

lemma sum_main: "sum_main = Inr 0"
  by code_simp

text \<open>\<open>div.c\<close>: every element times 10!, then divided by the same factors again; nothing overflows.\<close>

definition div_main :: "u32 res" where
  "div_main =
     (let a = map int [0..<10];
          a = fold (\<lambda>i. fold (\<lambda>j a. a[i := a ! i * int j]) [1..<11]) [0..<10] a;
          a = fold (\<lambda>i. fold (\<lambda>j a. a[i := a ! i sdiv int j]) [1..<11]) [0..<10] a in
      rbind (rfold (\<lambda>i u. check (a ! i = int i)) [0..<10] ()) (\<lambda>_. Inr 0))"

lemma div_main: "div_main = Inr 0"
  by code_simp

section \<open>Moves and accesses\<close>

definition mov_main :: "u32 res" where
  "mov_main =
     (let A = replicate 10 (0 :: u32);
          A = A[0 := 0]; A = A[1 := 1]; A = A[2 := 2]; A = A[3 := 3]; A = A[4 := 4];
          b = A ! 3; A = A[5 := b] in
      rbind (check (A ! 0 = 0)) (\<lambda>_. rbind (check (A ! 1 = 1)) (\<lambda>_. rbind (check (A ! 2 = 2)) (\<lambda>_.
      rbind (check (A ! 3 = 3)) (\<lambda>_. rbind (check (A ! 4 = 4)) (\<lambda>_. rbind (check (b = 3)) (\<lambda>_.
      rbind (check (A ! 5 = 3)) (\<lambda>_. Inr 0))))))))"

lemma mov_main: "mov_main = Inr 0"
  by code_simp

text \<open>\<open>movsx.c\<close>: \<open>C\<close> is an array of \<open>signed char\<close>.\<close>

definition movsx_main :: "u32 res" where
  "movsx_main =
     (let A = replicate 10 (0 :: u32); C = replicate 10 (0 :: u8);
          A = A[0 := 0]; A = A[1 := 1]; A = A[2 := 2]; A = A[3 := 3]; A = A[4 := 4];
          b = A ! 3; A = A[5 := b]; C = C[0 := 0x61] in
      rbind (check ((scast (C ! 0) :: u32) = 0x61)) (\<lambda>_.
      let C = C[1 := C ! 0] in
      rbind (check ((scast (C ! 1) :: u32) = 0x61)) (\<lambda>_.
      let A = A[0 := scast (C ! 0)] in
      rbind (check (A ! 0 = 0x61)) (\<lambda>_.
      let C = C[1 := 0x80]; A = A[0 := scast (C ! 1)] in
      rbind (check (A ! 1 = 1)) (\<lambda>_. rbind (check (A ! 2 = 2)) (\<lambda>_. rbind (check (A ! 3 = 3)) (\<lambda>_.
      rbind (check (A ! 4 = 4)) (\<lambda>_. rbind (check (b = 3)) (\<lambda>_. rbind (check (A ! 5 = 3)) (\<lambda>_.
      rbind (check ((scast (C ! 1) :: u32) = 0xffffff80)) (\<lambda>_. rbind (check (A ! 0 = 0xffffff80)) (\<lambda>_. Inr 0))))))))))))"

lemma movsx_main: "movsx_main = Inr 0"
  by code_simp

text \<open>\<open>unalign.c\<close>: a word stored at the odd place 3 of a byte buffer and read back, four times.\<close>

definition unalign_main :: "u32 res" where
  "unalign_main =
     rbind (rfold (\<lambda>i buf.
       let buf = fold (\<lambda>k buf. buf[3 + k := bytes_of_word 4 (0xaabbccdd :: u32) ! k]) [0..<4] buf;
           x = word_of_bytes (take 4 (drop 3 buf)) :: u32 in
       rbind (check (x = 0xaabbccdd)) (\<lambda>_. Inr (buf[1 := 0, 0 := 0]))) [0..<4] (replicate 16 0)) (\<lambda>_. Inr 0)"

lemma unalign_main: "unalign_main = Inr 0"
  by code_simp

definition dummy_main :: "u32 res" where "dummy_main = Inr 0"

section \<open>All programs\<close>

definition programs :: "u32 res list" where
  "programs =
     [add_main, add_ll_main, bit_main, bubble_main, crc_main, div_main, dummy_main, fact_main, fib_main,
      goldbach_main, if_else_main, leap_year_main, load_store_main, matrix_main, max_main, min3_main, mov_main,
      movsx_main, mul_main, pascal_main, prime_main, quick_main, recursion_main, select_main, shift_main,
      shuixianhua_main, sub_ll_main, sum_main, switch_main, lower_main, unalign_main, wanshu_main]"


end
