(* ===== verification/App_Terminal.thy ===== *)
theory App_Terminal
  imports Func_Base
begin

text \<open>
  The terminal of \<open>apps/nterm\<close>: the screen of characters, its escape sequences and the line being
  typed (\<open>src/term.cpp\<close>). The arrays of the class are lists with their bounds, an access outside is
  \<open>Inl Out_of_bounds\<close>; an \<open>int\<close> is an integer that wraps at 32 bits. \<open>App_Screen\<close> holds what is
  proved of it and \<open>App_Nterm\<close> the program around it.
\<close>

section \<open>The terminal\<close>

definition wrap32 :: "int \<Rightarrow> int" where
  "wrap32 i = signed_take_bit 31 i"

definition EMPTY :: char where "EMPTY = CHR '' ''"

text \<open>The colours are their numbers.\<close>

definition BLACK :: u8 where "BLACK = 0"
definition RED :: u8 where "RED = 1"
definition GREEN :: u8 where "GREEN = 2"
definition YELLOW :: u8 where "YELLOW = 3"
definition BLUE :: u8 where "BLUE = 4"
definition MAGENTA :: u8 where "MAGENTA = 5"
definition CYAN :: u8 where "CYAN = 6"
definition WHITE :: u8 where "WHITE = 7"

definition term_colors :: "u32 list" where
  "term_colors = [0x323232, 0xe41b17, 0x4aa02c, 0xe8a317, 0x0041c2, 0xe3319d, 0x77bfc7, 0xf0f0f0]"

datatype term_mode = Raw_mode | Cook_mode

record terminal =
  t_buf :: string
  t_color :: "u8 list"
  t_dirty :: "bool list"
  t_input :: string
  t_cooked :: string
  inp_len :: int
  t_mode :: term_mode
  t_w :: int
  t_h :: int
  cur_x :: int
  cur_y :: int
  saved_x :: int
  saved_y :: int
  col_f :: u8
  col_b :: u8

definition cell_at :: "terminal \<Rightarrow> int \<Rightarrow> int \<Rightarrow> int" where
  "cell_at t x y = x + y * t_w t"

definition term_putch :: "int \<Rightarrow> int \<Rightarrow> char \<Rightarrow> terminal \<Rightarrow> terminal res" where
  "term_putch x y ch t =
     rbind (rput (t_buf t) (cell_at t x y) ch) (\<lambda>b.
     rbind (rput (t_color t) (cell_at t x y) (push_bit 4 (col_f t) OR col_b t)) (\<lambda>c.
     rbind (rput (t_dirty t) (cell_at t x y) True) (\<lambda>d.
       Inr (t\<lparr>t_buf := b, t_color := c, t_dirty := d\<rparr>))))"

definition term_getch :: "int \<Rightarrow> int \<Rightarrow> terminal \<Rightarrow> char res" where
  "term_getch x y t = rget (t_buf t) (cell_at t x y)"

definition foreground :: "int \<Rightarrow> int \<Rightarrow> terminal \<Rightarrow> u32 res" where
  "foreground x y t = rbind (rget (t_color t) (cell_at t x y)) (\<lambda>c. rget term_colors (uint (drop_bit 4 c)))"

definition background :: "int \<Rightarrow> int \<Rightarrow> terminal \<Rightarrow> u32 res" where
  "background x y t = rbind (rget (t_color t) (cell_at t x y)) (\<lambda>c. rget term_colors (uint (c AND 0xf)))"

definition is_dirty :: "int \<Rightarrow> int \<Rightarrow> terminal \<Rightarrow> bool res" where
  "is_dirty x y t = rget (t_dirty t) (cell_at t x y)"

definition term_clear :: "terminal \<Rightarrow> terminal res" where
  "term_clear t =
     rbind (rfold (\<lambda>i d. rput d (int i) False) [0..<nat (t_w t * t_h t)] (t_dirty t)) (\<lambda>d.
     rbind (rput d (cell_at t (cur_x t) (cur_y t)) True) (\<lambda>d. Inr (t\<lparr>t_dirty := d\<rparr>)))"

text \<open>The constructor; \<open>heap\<close> is what \<open>new\<close> finds in the memory.\<close>

definition fill_empty :: "terminal \<Rightarrow> terminal res" where
  "fill_empty t =
     rfold (\<lambda>x. rfold (\<lambda>y. term_putch (int x) (int y) EMPTY) [0..<nat (t_h t)]) [0..<nat (t_w t)] t"

definition terminal_new :: "(nat \<Rightarrow> char \<times> u8 \<times> bool) \<Rightarrow> int \<Rightarrow> int \<Rightarrow> terminal res" where
  "terminal_new heap width height =
     (let cells = [0..<nat (width * height)] in
      fill_empty \<lparr>t_buf = map (fst \<circ> heap) cells, t_color = map (fst \<circ> snd \<circ> heap) cells,
        t_dirty = map (snd \<circ> snd \<circ> heap) cells,
        t_input = (map (fst \<circ> heap) [0..<256])[0 := CHR 0x00], t_cooked = map (fst \<circ> heap) [0..<256], inp_len = 0,
        t_mode = Cook_mode, t_w = width, t_h = height, cur_x = 0, cur_y = 0, saved_x = 0, saved_y = 0,
        col_f = BLACK, col_b = WHITE\<rparr>)"

text \<open>\<open>memmove(a, a + w, n)\<close> on an array.\<close>

definition move_down :: "int \<Rightarrow> int \<Rightarrow> 'a list \<Rightarrow> 'a list res" where
  "move_down w n a =
     (if 0 \<le> w \<and> 0 \<le> n \<and> nat w + nat n \<le> length a
      then Inr (take (nat n) (drop (nat w) a) @ drop (nat n) a) else Inl Out_of_bounds)"

definition scroll_up :: "terminal \<Rightarrow> terminal res" where
  "scroll_up t =
     rbind (move_down (t_w t) (t_w t * (t_h t - 1)) (t_buf t)) (\<lambda>b.
     rbind (move_down (t_w t) (t_w t * (t_h t - 1)) (t_color t)) (\<lambda>c.
     rbind (rfold (\<lambda>i. term_putch (int i) (t_h t - 1) EMPTY) [0..<nat (t_w t)] (t\<lparr>t_buf := b, t_color := c\<rparr>)) (\<lambda>t.
     rbind (rfold (\<lambda>i d. rput d (int i) True) [0..<nat (t_w t * t_h t)] (t_dirty t)) (\<lambda>d.
       Inr (t\<lparr>t_dirty := d\<rparr>)))))"

definition move_one :: "terminal \<Rightarrow> terminal res" where
  "move_one t =
     (let t = t\<lparr>cur_x := wrap32 (cur_x t + 1)\<rparr>;
          t = (if cur_x t \<ge> t_w t then t\<lparr>cur_x := 0, cur_y := wrap32 (cur_y t + 1)\<rparr> else t) in
      if cur_y t \<ge> t_h t then rbind (scroll_up t) (\<lambda>t. Inr (t\<lparr>cur_y := wrap32 (cur_y t - 1)\<rparr>)) else Inr t)"

definition backspace :: "terminal \<Rightarrow> terminal res" where
  "backspace t =
     (let t = t\<lparr>cur_x := wrap32 (cur_x t - 1)\<rparr>;
          t = (if cur_x t < 0
               then let t = t\<lparr>cur_x := t_w t - 1, cur_y := wrap32 (cur_y t - 1)\<rparr> in
                    if cur_y t < 0 then t\<lparr>cur_x := 0, cur_y := 0\<rparr> else t
               else t) in
      rbind (rput (t_buf t) (cell_at t (cur_x t) (cur_y t)) EMPTY) (\<lambda>b.
      rbind (rput (t_dirty t) (cell_at t (cur_x t) (cur_y t)) True) (\<lambda>d.
        Inr (t\<lparr>t_buf := b, t_dirty := d\<rparr>))))"

section \<open>Escape sequences\<close>

type_synonym esc_handler = "int list \<Rightarrow> terminal \<Rightarrow> terminal res"

definition esc_move :: esc_handler where
  "esc_move args t = Inr (t\<lparr>cur_x := wrap32 (args ! 1 - 1), cur_y := wrap32 (args ! 0 - 1)\<rparr>)"
definition esc_movefirst :: esc_handler where
  "esc_movefirst args t = Inr (t\<lparr>cur_x := 0, cur_y := 0\<rparr>)"
definition esc_moveup :: esc_handler where
  "esc_moveup args t = Inr (t\<lparr>cur_y := wrap32 (cur_y t - args ! 0)\<rparr>)"
definition esc_movedown :: esc_handler where
  "esc_movedown args t = Inr (t\<lparr>cur_y := wrap32 (cur_y t + args ! 0)\<rparr>)"
definition esc_moveleft :: esc_handler where
  "esc_moveleft args t = Inr (t\<lparr>cur_x := wrap32 (cur_x t - args ! 0)\<rparr>)"
definition esc_moveright :: esc_handler where
  "esc_moveright args t = Inr (t\<lparr>cur_x := wrap32 (cur_x t + args ! 0)\<rparr>)"
definition esc_save :: esc_handler where
  "esc_save args t = Inr (t\<lparr>saved_x := cur_x t, saved_y := cur_y t\<rparr>)"
definition esc_restore :: esc_handler where
  "esc_restore args t = Inr (t\<lparr>cur_x := saved_x t, cur_y := saved_y t\<rparr>)"
definition esc_clear :: esc_handler where
  "esc_clear args t = rbind (fill_empty t) (\<lambda>t. Inr (t\<lparr>cur_x := 0, cur_y := 0\<rparr>))"

definition set_attr :: "int \<Rightarrow> terminal \<Rightarrow> terminal" where
  "set_attr attr t =
     (if attr = 0 then t\<lparr>col_f := BLACK, col_b := WHITE\<rparr>
      else if attr = 30 then t\<lparr>col_f := BLACK\<rparr> else if attr = 31 then t\<lparr>col_f := RED\<rparr>
      else if attr = 32 then t\<lparr>col_f := GREEN\<rparr> else if attr = 33 then t\<lparr>col_f := YELLOW\<rparr>
      else if attr = 34 then t\<lparr>col_f := BLUE\<rparr> else if attr = 35 then t\<lparr>col_f := MAGENTA\<rparr>
      else if attr = 36 then t\<lparr>col_f := CYAN\<rparr> else if attr = 37 then t\<lparr>col_f := WHITE\<rparr>
      else if attr = 40 then t\<lparr>col_b := BLACK\<rparr> else if attr = 41 then t\<lparr>col_b := RED\<rparr>
      else if attr = 42 then t\<lparr>col_b := GREEN\<rparr> else if attr = 43 then t\<lparr>col_b := YELLOW\<rparr>
      else if attr = 44 then t\<lparr>col_b := BLUE\<rparr> else if attr = 45 then t\<lparr>col_b := MAGENTA\<rparr>
      else if attr = 46 then t\<lparr>col_b := CYAN\<rparr> else if attr = 47 then t\<lparr>col_b := WHITE\<rparr> else t)"

definition esc_setattr1 :: esc_handler where
  "esc_setattr1 args t = Inr (set_attr (args ! 0) t)"
definition esc_setattr2 :: esc_handler where
  "esc_setattr2 args t = Inr (set_attr (args ! 1) (set_attr (args ! 0) t))"
definition esc_setattr3 :: esc_handler where
  "esc_setattr3 args t = Inr (set_attr (args ! 2) (set_attr (args ! 1) (set_attr (args ! 0) t)))"

text \<open>The row of the loop is that of the cursor, which the loop does not move.\<close>

definition esc_erase :: esc_handler where
  "esc_erase args t =
     rfold (\<lambda>i. term_putch (cur_x t + int i) (cur_y t) EMPTY) [0..<nat (t_w t - cur_x t)] t"
definition esc_rawmode :: esc_handler where
  "esc_rawmode args t = Inr (t\<lparr>t_mode := Raw_mode\<rparr>)"
definition esc_cookmode :: esc_handler where
  "esc_cookmode args t = Inr (t\<lparr>t_mode := Cook_mode\<rparr>)"

definition ESC :: char where "ESC = CHR 0x1B"

definition esc_seqs :: "(string \<times> esc_handler) list" where
  "esc_seqs = map (\<lambda>(p, h). (ESC # CHR ''['' # p, h)) [
     (''1t'', esc_cookmode), (''2t'', esc_rawmode), (''s'', esc_save), (''u'', esc_restore),
     (''J'', esc_clear), (''2J'', esc_clear), (''K'', esc_erase), (''f'', esc_movefirst), (''H'', esc_movefirst),
     (''#;#f'', esc_move), (''#;#H'', esc_move), (''#A'', esc_moveup), (''#B'', esc_movedown),
     (''#C'', esc_moveright), (''#D'', esc_moveleft), (''#m'', esc_setattr1), (''#;#m'', esc_setattr2),
     (''#;#;#m'', esc_setattr3)]"

text \<open>
  Matching a pattern against the memory from \<open>s\<close> on, \<open>len\<close> characters behind the start: digits are
  read only below \<open>count\<close>, other characters wherever they are.
\<close>

definition arg_digit :: "char \<Rightarrow> bool" where
  "arg_digit c \<longleftrightarrow> 48 \<le> (of_char c :: nat) \<and> (of_char c :: nat) \<le> 57"

fun scan_num :: "string \<Rightarrow> u64 \<Rightarrow> nat \<Rightarrow> int \<Rightarrow> (string \<times> nat \<times> int) res" where
  "scan_num [] count len data = Inl Out_of_bounds"
| "scan_num (c # s) count len data =
     (if arg_digit c \<and> len < unat count
      then scan_num s count (len + 1) (wrap32 (data * 10 + of_char c - 48))
      else Inr (c # s, len, data))"

fun match_seq :: "string \<Rightarrow> string \<Rightarrow> u64 \<Rightarrow> nat \<Rightarrow> int list \<Rightarrow> (nat \<times> int list) option res" where
  "match_seq [] s count len args = Inr (Some (len, args))"
| "match_seq (p # ps) s count len args =
     (if p \<noteq> CHR ''#''
      then case s of
             [] \<Rightarrow> Inl Out_of_bounds
           | c # s \<Rightarrow> if c \<noteq> p then Inr None else match_seq ps s count (len + 1) args
      else rbind (scan_num s count len 0) (\<lambda>(s, len, data). match_seq ps s count len (args @ [data])))"

fun find_seq :: "(string \<times> esc_handler) list \<Rightarrow> string \<Rightarrow> u64 \<Rightarrow> (nat \<times> int list \<times> esc_handler) option res" where
  "find_seq [] s count = Inr None"
| "find_seq ((p, h) # ps) s count =
     rbind (match_seq p s count 0 []) (\<lambda>r.
       case r of None \<Rightarrow> find_seq ps s count | Some (len, args) \<Rightarrow> Inr (Some (len, args, h)))"

definition clamp_cursor :: "terminal \<Rightarrow> terminal" where
  "clamp_cursor t = t\<lparr>cur_x := max (min (cur_x t) (t_w t - 1)) 0, cur_y := max (min (cur_y t) (t_h t - 1)) 0\<rparr>"

definition write_escape :: "string \<Rightarrow> u64 \<Rightarrow> terminal \<Rightarrow> (nat \<times> terminal) res" where
  "write_escape s count t =
     rbind (find_seq esc_seqs s count) (\<lambda>r. case r of
         None \<Rightarrow> Inr (1, t)
       | Some (len, args, h) \<Rightarrow> rbind (h args t) (\<lambda>t. Inr (len, clamp_cursor t)))"

section \<open>Writing\<close>

definition new_line :: "terminal \<Rightarrow> terminal res" where
  "new_line t =
     (let t = t\<lparr>cur_x := 0, cur_y := wrap32 (cur_y t + 1)\<rparr> in
      if cur_y t \<ge> t_h t then rbind (scroll_up t) (\<lambda>t. Inr (t\<lparr>cur_y := wrap32 (cur_y t - 1)\<rparr>)) else Inr t)"

definition write_char :: "char \<Rightarrow> terminal \<Rightarrow> terminal res" where
  "write_char ch t =
     (if ch = CHR 0x07 then Inr t
      else if ch = CHR 0x0A then new_line t
      else if ch = CHR 0x09 then Inr (t\<lparr>cur_x := wrap32 (cur_x t + 4)\<rparr>)
      else if ch = CHR 0x0D then Inr (t\<lparr>cur_x := 0\<rparr>)
      else rbind (term_putch (cur_x t) (cur_y t) ch t) move_one)"

text \<open>The memory from \<open>str + i\<close> on and \<open>count - i\<close>; the loop ends at a zero or when that is 0.\<close>

lemma match_seq_length: "match_seq p s count len args = Inr (Some (n, as)) \<Longrightarrow> len + length (filter (\<lambda>c. c \<noteq> CHR ''#'') p) \<le> n"
proof (induction p s count len args rule: match_seq.induct)
  case (2 p ps s count len args)
  have scan: "scan_num s count len d = Inr (s', m, d') \<Longrightarrow> len \<le> m" for s' m d d' len
    by (induction s count len d rule: scan_num.induct) (auto split: if_splits)
  show ?case using 2
    by (fastforce simp: rbind_eq_Inr_iff split: if_splits list.splits dest: scan)
qed simp

lemma find_seq_length:
  "find_seq ps s count = Inr (Some (n, as, h)) \<Longrightarrow> \<forall>q \<in> set ps. \<exists>c \<in> set (fst q). c \<noteq> CHR ''#'' \<Longrightarrow> 0 < n"
proof (induction ps s count rule: find_seq.induct)
  case (2 p k ps s count)
  have pos: "0 < length (filter (\<lambda>c. c \<noteq> CHR ''#'') p)" using 2(3) by (auto simp: filter_empty_conv)
  obtain r where r: "match_seq p s count 0 [] = Inr r" using 2(2) by (auto simp: rbind_eq_Inr_iff)
  show ?case
  proof (cases r)
    case None
    then show ?thesis using 2 r by simp
  next
    case (Some q)
    then obtain m bs where m: "r = Some (m, bs)" by (cases q) auto
    then have "length (filter (\<lambda>c. c \<noteq> CHR ''#'') p) \<le> m" using r match_seq_length [of p s count 0 "[]" m bs] by simp
    moreover have "m = n" using 2(2) r m by simp
    ultimately show ?thesis using pos by linarith
  qed
qed simp

lemma esc_seqs_literal: "\<forall>q \<in> set esc_seqs. \<exists>c \<in> set (fst q). c \<noteq> CHR ''#''"
  by (simp add: esc_seqs_def ESC_def)

lemma write_escape_length: "write_escape s count t = Inr (n, t') \<Longrightarrow> 0 < n"
  using find_seq_length [OF _ esc_seqs_literal, of s count]
  by (auto simp: write_escape_def rbind_eq_Inr_iff split: option.splits)

function term_write :: "string \<Rightarrow> u64 \<Rightarrow> terminal \<Rightarrow> terminal res" where
  "term_write s count t =
     (if count = 0 then Inr t
      else case s of
             [] \<Rightarrow> Inl Out_of_bounds
           | ch # r \<Rightarrow>
               if ch = CHR 0x00 then Inr t
               else if ch = ESC
               then rbind (write_escape s count t) (\<lambda>(n, t). term_write (drop n s) (count - of_nat n) t)
               else rbind (write_char ch t) (term_write r (count - 1)))"
  by auto
termination
  by (relation "measure (\<lambda>(s, _). length s)") (auto dest: write_escape_length)

declare term_write.simps [simp del]

section \<open>Keys\<close>

text \<open>The string at the start of an array, and a string copied into one.\<close>

definition cstr_of :: "string \<Rightarrow> string res" where
  "cstr_of a = (if CHR 0x00 \<in> set a then Inr (takeWhile (\<lambda>c. c \<noteq> CHR 0x00) a) else Inl Out_of_bounds)"

definition str_put :: "nat \<Rightarrow> string \<Rightarrow> string \<Rightarrow> string res" where
  "str_put i s a =
     (if i + length s < length a then Inr (take i a @ s @ [CHR 0x00] @ drop (i + length s + 1) a) else Inl Out_of_bounds)"

text \<open>The branches of \<open>keypress\<close> in cooked mode; the result is the string the pointer leads to.\<close>

definition key_enter :: "terminal \<Rightarrow> (string option \<times> terminal) res" where
  "key_enter t =
     rbind (cstr_of (t_input t)) (\<lambda>s. rbind (str_put 0 s (t_cooked t)) (\<lambda>c.
     rbind (cstr_of c) (\<lambda>s. rbind (str_put (length s) [CHR 0x0A] c) (\<lambda>c.
     rbind (term_write [CHR 0x0A, CHR 0x00] 1 (t\<lparr>t_cooked := c\<rparr>)) (\<lambda>t.
     rbind (cstr_of (t_cooked t)) (\<lambda>ret. Inr (Some ret, t\<lparr>inp_len := 0\<rparr>)))))))"

definition key_back :: "terminal \<Rightarrow> terminal res" where
  "key_back t = (if inp_len t > 0 then backspace (t\<lparr>inp_len := inp_len t - 1\<rparr>) else Inr t)"

definition key_plain :: "char \<Rightarrow> terminal \<Rightarrow> terminal res" where
  "key_plain ch t =
     (if inp_len t + 1 < 256
      then rbind (rput (t_input t) (inp_len t) ch) (\<lambda>a. term_write [ch] 1 (t\<lparr>t_input := a, inp_len := inp_len t + 1\<rparr>))
      else Inr t)"

definition keypress :: "char \<Rightarrow> terminal \<Rightarrow> (string option \<times> terminal) res" where
  "keypress ch t =
     (if ch = CHR 0x00 then Inr (None, t)
      else case t_mode t of
        Raw_mode \<Rightarrow>
          rbind (rput (t_input t) 0 ch) (\<lambda>a. rbind (rput a 1 (CHR 0x00)) (\<lambda>a.
          rbind (cstr_of a) (\<lambda>ret. Inr (Some ret, t\<lparr>t_input := a\<rparr>))))
      | Cook_mode \<Rightarrow>
          rbind (if ch = ESC then Inr (None, t)
                 else if ch = CHR 0x0A then key_enter t
                 else if ch = CHR 0x08 then rbind (key_back t) (\<lambda>t. Inr (None, t))
                 else rbind (key_plain ch t) (\<lambda>t. Inr (None, t))) (\<lambda>(ret, t).
          rbind (rput (t_input t) (inp_len t) (CHR 0x00)) (\<lambda>a. Inr (ret, t\<lparr>t_input := a\<rparr>))))"

end
