(* ===== verification/App_Screen.thy ===== *)
theory App_Screen
  imports App_Terminal
begin

text \<open>
  What the terminal of \<open>App_Terminal\<close> does: its arrays keep the size of the screen and the cursor stays
  on it, plain text appears as on a teletype that scrolls, every escape sequence of the table is
  recognised with its numbers, keys in cooked mode edit a line, and colours stay in their table.
\<close>

section \<open>Shape\<close>

text \<open>The arrays fit the screen and the saved cursor is on it; \<open>term_ok\<close>: so is the cursor.\<close>

definition on_screen :: "terminal \<Rightarrow> int \<Rightarrow> int \<Rightarrow> bool" where
  "on_screen t x y \<longleftrightarrow> 0 \<le> x \<and> x < t_w t \<and> 0 \<le> y \<and> y < t_h t"

definition shaped :: "terminal \<Rightarrow> bool" where
  "shaped t \<longleftrightarrow> 0 < t_w t \<and> t_w t < 2 ^ 15 \<and> 0 < t_h t \<and> t_h t < 2 ^ 15 \<and>
     length (t_buf t) = nat (t_w t * t_h t) \<and> length (t_color t) = nat (t_w t * t_h t) \<and>
     length (t_dirty t) = nat (t_w t * t_h t) \<and> on_screen t (saved_x t) (saved_y t)"

definition term_ok :: "terminal \<Rightarrow> bool" where
  "term_ok t \<longleftrightarrow> shaped t \<and> on_screen t (cur_x t) (cur_y t)"

text \<open>
  What all output operations keep: size, the line being typed, and that a cell that is not dirty
  afterwards was not dirty before and has not changed.
\<close>

definition keeps :: "terminal \<Rightarrow> terminal \<Rightarrow> bool" where
  "keeps t t' \<longleftrightarrow> t_w t' = t_w t \<and> t_h t' = t_h t \<and> t_input t' = t_input t \<and> t_cooked t' = t_cooked t \<and>
     inp_len t' = inp_len t \<and> length (t_buf t') = length (t_buf t) \<and> length (t_color t') = length (t_color t) \<and>
     length (t_dirty t') = length (t_dirty t) \<and>
     (\<forall>k < length (t_dirty t). \<not> t_dirty t' ! k \<longrightarrow>
        \<not> t_dirty t ! k \<and> t_buf t' ! k = t_buf t ! k \<and> t_color t' ! k = t_color t ! k)"

text \<open>The part of it that concerns the screen.\<close>

definition fresh :: "terminal \<Rightarrow> terminal \<Rightarrow> bool" where
  "fresh t t' \<longleftrightarrow> t_w t' = t_w t \<and> t_h t' = t_h t \<and> length (t_dirty t') = length (t_dirty t) \<and>
     (\<forall>k < length (t_dirty t). \<not> t_dirty t' ! k \<longrightarrow>
        \<not> t_dirty t ! k \<and> t_buf t' ! k = t_buf t ! k \<and> t_color t' ! k = t_color t ! k)"

lemma fresh_refl [simp]: "fresh t t"
  by (simp add: fresh_def)

lemma fresh_trans: "fresh t u \<Longrightarrow> fresh u v \<Longrightarrow> fresh t v"
  by (auto simp: fresh_def)

lemma keeps_fresh: "keeps t t' \<Longrightarrow> fresh t t'"
  by (simp add: keeps_def fresh_def)

lemma fresh_line [simp]:
  "fresh (t\<lparr>t_input := a\<rparr>) u = fresh t u" "fresh (t\<lparr>inp_len := i\<rparr>) u = fresh t u" "fresh (t\<lparr>t_cooked := a\<rparr>) u = fresh t u"
  "fresh t (u\<lparr>t_input := a\<rparr>) = fresh t u" "fresh t (u\<lparr>inp_len := i\<rparr>) = fresh t u" "fresh t (u\<lparr>t_cooked := a\<rparr>) = fresh t u"
  by (simp_all add: fresh_def)

lemma keeps_refl [simp]: "keeps t t"
  by (simp add: keeps_def)

lemma keeps_trans: "keeps t u \<Longrightarrow> keeps u v \<Longrightarrow> keeps t v"
  by (auto simp: keeps_def)

lemma keeps_cursor [simp]:
  "keeps t (t'\<lparr>cur_x := a\<rparr>) = keeps t t'" "keeps t (t'\<lparr>cur_y := b\<rparr>) = keeps t t'"
  "keeps t (t'\<lparr>saved_x := a\<rparr>) = keeps t t'" "keeps t (t'\<lparr>saved_y := b\<rparr>) = keeps t t'"
  "keeps t (t'\<lparr>col_f := c\<rparr>) = keeps t t'" "keeps t (t'\<lparr>col_b := c\<rparr>) = keeps t t'"
  "keeps t (t'\<lparr>t_mode := md\<rparr>) = keeps t t'"
  by (simp_all add: keeps_def)

lemma keeps_from_cursor [simp]:
  "keeps (t\<lparr>cur_x := a\<rparr>) t' = keeps t t'" "keeps (t\<lparr>cur_y := b\<rparr>) t' = keeps t t'"
  "keeps (t\<lparr>saved_x := a\<rparr>) t' = keeps t t'" "keeps (t\<lparr>saved_y := b\<rparr>) t' = keeps t t'"
  by (simp_all add: keeps_def)

lemma on_screen_cong:
  "t_w t' = t_w t \<Longrightarrow> t_h t' = t_h t \<Longrightarrow> on_screen t' = on_screen t"
  by (intro ext) (simp add: on_screen_def)

lemma keeps_on_screen: "keeps t t' \<Longrightarrow> on_screen t' = on_screen t"
  by (rule on_screen_cong) (simp_all add: keeps_def)

lemma on_screen_cursor [simp]:
  "on_screen (t\<lparr>cur_x := a\<rparr>) = on_screen t" "on_screen (t\<lparr>cur_y := a\<rparr>) = on_screen t"
  "on_screen (t\<lparr>saved_x := a\<rparr>) = on_screen t" "on_screen (t\<lparr>saved_y := a\<rparr>) = on_screen t"
  "on_screen (t\<lparr>col_f := c\<rparr>) = on_screen t" "on_screen (t\<lparr>col_b := c\<rparr>) = on_screen t"
  "on_screen (t\<lparr>t_mode := md\<rparr>) = on_screen t"
  by (rule on_screen_cong; simp)+

lemma shaped_cursor [simp]:
  "shaped (t\<lparr>cur_x := a\<rparr>) = shaped t" "shaped (t\<lparr>cur_y := a\<rparr>) = shaped t"
  "shaped (t\<lparr>col_f := c\<rparr>) = shaped t" "shaped (t\<lparr>col_b := c\<rparr>) = shaped t" "shaped (t\<lparr>t_mode := md\<rparr>) = shaped t"
  by (simp_all add: shaped_def)

lemma keeps_shaped:
  "keeps t t' \<Longrightarrow> shaped t \<Longrightarrow> saved_x t' = saved_x t \<Longrightarrow> saved_y t' = saved_y t \<Longrightarrow> shaped t'"
  using keeps_on_screen [of t t'] by (auto simp: shaped_def keeps_def)

lemma wrap32_small: "- (2 ^ 31) \<le> i \<Longrightarrow> i < 2 ^ 31 \<Longrightarrow> wrap32 i = i"
  by (simp add: wrap32_def signed_take_bit_int_eq_self)

text \<open>The index of a cell.\<close>

lemma cell_bounds:
  assumes "on_screen t x y"
  shows "0 \<le> cell_at t x y" and "cell_at t x y < t_w t * t_h t"
proof -
  have "y * t_w t \<le> (t_h t - 1) * t_w t"
    using assms by (intro mult_right_mono) (auto simp: on_screen_def)
  moreover have "x < t_w t" using assms by (simp add: on_screen_def)
  ultimately have "x + y * t_w t < t_w t + (t_h t - 1) * t_w t" by linarith
  then show "cell_at t x y < t_w t * t_h t" by (simp add: cell_at_def algebra_simps)
  show "0 \<le> cell_at t x y" using assms by (simp add: on_screen_def cell_at_def)
qed

definition put_cell :: "int \<Rightarrow> int \<Rightarrow> char \<Rightarrow> terminal \<Rightarrow> terminal" where
  "put_cell x y ch t = (let k = nat (cell_at t x y) in
     t\<lparr>t_buf := (t_buf t)[k := ch], t_color := (t_color t)[k := push_bit 4 (col_f t) OR col_b t],
       t_dirty := (t_dirty t)[k := True]\<rparr>)"

lemma term_putch_run:
  assumes "shaped t" and "on_screen t x y"
  shows "term_putch x y ch t = Inr (put_cell x y ch t)"
  using cell_bounds [OF assms(2)] assms(1)
  by (simp add: term_putch_def put_cell_def shaped_def cell_at_def Let_def)

lemma put_cell_simps [simp]:
  "t_w (put_cell x y ch t) = t_w t" "t_h (put_cell x y ch t) = t_h t"
  "cur_x (put_cell x y ch t) = cur_x t" "cur_y (put_cell x y ch t) = cur_y t"
  "saved_x (put_cell x y ch t) = saved_x t" "saved_y (put_cell x y ch t) = saved_y t"
  "col_f (put_cell x y ch t) = col_f t" "col_b (put_cell x y ch t) = col_b t"
  "length (t_buf (put_cell x y ch t)) = length (t_buf t)"
  "t_mode (put_cell x y ch t) = t_mode t"
  by (simp_all add: put_cell_def Let_def)

lemma put_cell_keeps [simp]: "keeps t (put_cell x y ch t)"
  by (auto simp: keeps_def put_cell_def Let_def nth_update split: if_splits)

lemma put_cell_buf: "t_buf (put_cell x y ch t) = (t_buf t)[nat (cell_at t x y) := ch]"
  by (simp add: put_cell_def Let_def)

lemma put_cell_at [simp]: "cell_at (put_cell x y ch t) = cell_at t"
  by (intro ext) (simp add: cell_at_def)


lemma put_cell_shaped [simp]: "shaped (put_cell x y ch t) = shaped t"
  by (auto simp: shaped_def put_cell_def Let_def on_screen_def)

lemma put_cell_on_screen [simp]: "on_screen (put_cell x y ch t) = on_screen t"
  by (rule on_screen_cong) simp_all

text \<open>A loop that puts a character into cells of the screen.\<close>

lemma put_cells_run:
  assumes "shaped t" and "\<And>i. i \<in> set is \<Longrightarrow> on_screen t (f i) (g i)"
  shows "rfold (\<lambda>i. term_putch (f i) (g i) ch) is t = Inr (fold (\<lambda>i. put_cell (f i) (g i) ch) is t)"
  using assms
proof (induction "is" arbitrary: t)
  case (Cons i "is")
  then show ?case by (simp add: term_putch_run)
qed simp

lemma fold_put_simps [simp]:
  "t_w (fold (\<lambda>i. put_cell (f i) (g i) ch) is t) = t_w t" "t_h (fold (\<lambda>i. put_cell (f i) (g i) ch) is t) = t_h t"
  "cur_x (fold (\<lambda>i. put_cell (f i) (g i) ch) is t) = cur_x t" "cur_y (fold (\<lambda>i. put_cell (f i) (g i) ch) is t) = cur_y t"
  "saved_x (fold (\<lambda>i. put_cell (f i) (g i) ch) is t) = saved_x t"
  "saved_y (fold (\<lambda>i. put_cell (f i) (g i) ch) is t) = saved_y t"
  "col_f (fold (\<lambda>i. put_cell (f i) (g i) ch) is t) = col_f t" "col_b (fold (\<lambda>i. put_cell (f i) (g i) ch) is t) = col_b t"
  "t_mode (fold (\<lambda>i. put_cell (f i) (g i) ch) is t) = t_mode t"
  "length (t_buf (fold (\<lambda>i. put_cell (f i) (g i) ch) is t)) = length (t_buf t)"
  "shaped (fold (\<lambda>i. put_cell (f i) (g i) ch) is t) = shaped t"
  "keeps t (fold (\<lambda>i. put_cell (f i) (g i) ch) is t)"
proof -
  show "keeps t (fold (\<lambda>i. put_cell (f i) (g i) ch) is t)"
    by (induction "is" arbitrary: t) (auto intro: keeps_trans [OF put_cell_keeps])
qed (induction "is" arbitrary: t; simp)+

lemma fold_put_buf:
  assumes "\<And>i. i \<in> set is \<Longrightarrow> on_screen t (f i) (g i)" and "k < length (t_buf t)"
  shows "t_buf (fold (\<lambda>i. put_cell (f i) (g i) ch) is t) ! k =
    (if \<exists>i \<in> set is. nat (cell_at t (f i) (g i)) = k then ch else t_buf t ! k)"
  using assms
proof (induction "is" arbitrary: t)
  case (Cons i "is")
  then show ?case by (simp add: put_cell_buf nth_update)
qed simp

lemma fold_put_color:
  assumes "\<And>i. i \<in> set is \<Longrightarrow> on_screen t (f i) (g i)" and "k < length (t_color t)"
  shows "t_color (fold (\<lambda>i. put_cell (f i) (g i) ch) is t) ! k =
    (if \<exists>i \<in> set is. nat (cell_at t (f i) (g i)) = k then push_bit 4 (col_f t) OR col_b t else t_color t ! k)"
  using assms
proof (induction "is" arbitrary: t)
  case (Cons i "is")
  have "t_color (put_cell (f i) (g i) ch t) = (t_color t)[nat (cell_at t (f i) (g i)) := push_bit 4 (col_f t) OR col_b t]"
    by (simp add: put_cell_def Let_def)
  then show ?case using Cons by (simp add: nth_update)
qed simp

lemma fold_put_dirty:
  assumes "\<And>i. i \<in> set is \<Longrightarrow> on_screen t (f i) (g i)" and "k < length (t_dirty t)"
    and "\<exists>i \<in> set is. nat (cell_at t (f i) (g i)) = k"
  shows "t_dirty (fold (\<lambda>i. put_cell (f i) (g i) ch) is t) ! k"
proof -
  have "t_dirty (fold (\<lambda>i. put_cell (f i) (g i) ch) is t) ! k =
    ((\<exists>i \<in> set is. nat (cell_at t (f i) (g i)) = k) \<or> t_dirty t ! k)"
    using assms(1,2)
  proof (induction "is" arbitrary: t)
    case (Cons i "is")
    have "t_dirty (put_cell (f i) (g i) ch t) = (t_dirty t)[nat (cell_at t (f i) (g i)) := True]"
      by (simp add: put_cell_def Let_def)
    then show ?case using Cons by (simp add: nth_update)
  qed simp
  then show ?thesis using assms(3) by simp
qed

lemma rfold_product:
  "rfold (\<lambda>x. rfold (f x) ys) xs s = rfold (\<lambda>p. f (fst p) (snd p)) (List.product xs ys) s"
proof (induction xs arbitrary: s)
  case (Cons x xs)
  have "rfold (f x) zs s = rfold (\<lambda>p. f (fst p) (snd p)) (map (Pair x) zs) s" for zs s
    by (induction zs arbitrary: s) (simp_all cong: rbind_cong)
  then have "rfold (f x) ys = rfold (\<lambda>p. f (fst p) (snd p)) (map (Pair x) ys)" by blast
  then show ?case using Cons.IH by (simp add: rfold_append cong: rbind_cong)
qed simp

lemma cell_index:
  assumes "0 < t_w t" and "k < nat (t_w t * t_h t)"
  shows "on_screen t (int k mod t_w t) (int k div t_w t)" and "cell_at t (int k mod t_w t) (int k div t_w t) = int k"
proof -
  have k: "int k < t_h t * t_w t" using assms(2) by (simp add: mult.commute)
  have "int k div t_w t * t_w t \<le> int k"
    using div_mult_mod_eq [of "int k" "t_w t"] pos_mod_sign [OF assms(1), of "int k"] by linarith
  then have "int k div t_w t * t_w t < t_h t * t_w t" using k by linarith
  then have "int k div t_w t < t_h t" using assms(1) by simp
  then show "on_screen t (int k mod t_w t) (int k div t_w t)"
    using assms(1) by (simp add: on_screen_def pos_imp_zdiv_nonneg_iff)
  show "cell_at t (int k mod t_w t) (int k div t_w t) = int k"
    by (simp add: cell_at_def)
qed

lemma fill_empty_run:
  assumes "shaped t"
  shows "\<exists>t'. fill_empty t = Inr t' \<and> keeps t t' \<and> shaped t' \<and> cur_x t' = cur_x t \<and> cur_y t' = cur_y t \<and>
    col_f t' = col_f t \<and> col_b t' = col_b t \<and> t_mode t' = t_mode t \<and> saved_x t' = saved_x t \<and> saved_y t' = saved_y t \<and>
    (\<forall>k < length (t_buf t). t_buf t' ! k = EMPTY \<and> t_color t' ! k = push_bit 4 (col_f t) OR col_b t \<and> t_dirty t' ! k)"
proof -
  let ?ps = "List.product [0..<nat (t_w t)] [0..<nat (t_h t)]"
  let ?t = "fold (\<lambda>p. put_cell (int (fst p)) (int (snd p)) EMPTY) ?ps t"
  have in_: "on_screen t (int (fst p)) (int (snd p))" if "p \<in> set ?ps" for p
    using that by (auto simp: on_screen_def)
  have "\<exists>p \<in> set ?ps. nat (cell_at t (int (fst p)) (int (snd p))) = k" if "k < length (t_buf t)" for k
  proof -
    have k: "k < nat (t_w t * t_h t)" "0 < t_w t" using that assms by (simp_all add: shaped_def)
    note c = cell_index [OF k(2,1)]
    let ?p = "(nat (int k mod t_w t), nat (int k div t_w t))"
    have "?p \<in> set ?ps" "nat (cell_at t (int (fst ?p)) (int (snd ?p))) = k"
      using c by (simp_all add: on_screen_def)
    then show ?thesis by blast
  qed
  moreover have "length (t_color t) = length (t_buf t)" "length (t_dirty t) = length (t_buf t)" using assms by (simp_all add: shaped_def)
  ultimately have "\<forall>k < length (t_buf t). t_buf ?t ! k = EMPTY \<and> t_color ?t ! k = push_bit 4 (col_f t) OR col_b t \<and> t_dirty ?t ! k"
    using fold_put_dirty [of ?ps t "\<lambda>p. int (fst p)" "\<lambda>p. int (snd p)"] fold_put_buf [of ?ps t "\<lambda>p. int (fst p)" "\<lambda>p. int (snd p)"] 
      fold_put_color [of ?ps t "\<lambda>p. int (fst p)" "\<lambda>p. int (snd p)"] in_ by simp
  moreover have "fill_empty t = Inr ?t"
    using put_cells_run [OF assms in_, of ?ps "\<lambda>p. p" EMPTY] by (simp add: fill_empty_def rfold_product)
  ultimately show ?thesis using assms by simp
qed

lemma move_down_run:
  assumes "0 < w" and "0 < h" and "length a = nat (w * h)"
  shows "\<exists>b. move_down w (w * (h - 1)) a = Inr b \<and> length b = length a \<and>
    (\<forall>k < nat (w * (h - 1)). b ! k = a ! (k + nat w))"
proof -
  have e: "w * h = w * (h - 1) + w" by (simp add: algebra_simps)
  have n: "0 \<le> w * (h - 1)" using assms by simp
  have len: "length a = nat w + nat (w * (h - 1))" using assms(1,3) n unfolding e by (simp add: nat_add_distrib)
  then show ?thesis using assms(1) n
    by (intro exI [of _ "take (nat (w * (h - 1))) (drop (nat w) a) @ drop (nat (w * (h - 1))) a"])
      (simp add: move_down_def nth_append add.commute)
qed

lemma set_all_run:
  "n = length d \<Longrightarrow> rfold (\<lambda>i d. rput d (int i) v) [0..<n] d = Inr (replicate n v)"
proof -
  assume n: "n = length d"
  have "\<exists>t. rfold (\<lambda>i d. rput d (int i) v) [0..<n] d = Inr t \<and> (length t = n \<and> (\<forall>k < n. t ! k = v))"
    by (rule rfold_upt [where P = "\<lambda>i a. length a = n \<and> (\<forall>k < i. a ! k = v)"])
      (use n in \<open>auto simp: nth_list_update less_Suc_eq\<close>)
  then show ?thesis by (auto intro!: nth_equalityI)
qed

lemma scroll_up_run:
  assumes "shaped t"
  shows "\<exists>t'. scroll_up t = Inr t' \<and> keeps t t' \<and> shaped t' \<and> cur_x t' = cur_x t \<and> cur_y t' = cur_y t \<and>
    saved_x t' = saved_x t \<and> saved_y t' = saved_y t \<and> t_mode t' = t_mode t \<and>
    (\<forall>x y. on_screen t x y \<longrightarrow> t_buf t' ! nat (cell_at t x y) =
       (if y = t_h t - 1 then EMPTY else t_buf t ! nat (cell_at t x (y + 1))))"
proof -
  let ?n = "nat (t_w t * (t_h t - 1))"
  have wh: "0 < t_w t" "0 < t_h t" and len: "length (t_buf t) = nat (t_w t * t_h t)" "length (t_color t) = nat (t_w t * t_h t)"
    using assms by (simp_all add: shaped_def)
  obtain b where b: "move_down (t_w t) (t_w t * (t_h t - 1)) (t_buf t) = Inr b" "length b = length (t_buf t)"
      "\<forall>k < ?n. b ! k = t_buf t ! (k + nat (t_w t))"
    using move_down_run [OF wh len(1)] by blast
  obtain c where c: "move_down (t_w t) (t_w t * (t_h t - 1)) (t_color t) = Inr c" "length c = length (t_color t)"
    using move_down_run [OF wh len(2)] by blast
  let ?u = "t\<lparr>t_buf := b, t_color := c\<rparr>"
  let ?v = "fold (\<lambda>i. put_cell (int i) (t_h t - 1) EMPTY) [0..<nat (t_w t)] ?u"
  let ?d = "replicate (nat (t_w t * t_h t)) True"
  have u: "shaped ?u" "on_screen ?u = on_screen t" "cell_at ?u = cell_at t"
    using assms b(2) c(2) by (auto simp: shaped_def on_screen_def cell_at_def fun_eq_iff)
  have last: "on_screen ?u (int i) (t_h t - 1)" if "i \<in> set [0..<nat (t_w t)]" for i
    using that wh by (auto simp: on_screen_def)
  have v: "rfold (\<lambda>i. term_putch (int i) (t_h t - 1) EMPTY) [0..<nat (t_w t)] ?u = Inr ?v"
    using put_cells_run [OF u(1) last, of "[0..<nat (t_w t)]" "\<lambda>i. i"] by simp
  have vs: "shaped ?v" using u(1) by simp
  then have "rfold (\<lambda>i d. rput d (int i) True) [0..<nat (t_w t * t_h t)] (t_dirty ?v) = Inr ?d"
    by (intro set_all_run) (simp add: shaped_def)
  then have run: "scroll_up t = Inr (?v\<lparr>t_dirty := ?d\<rparr>)"
    using b(1) c(1) v by (simp add: scroll_up_def)
  have lens: "length (t_dirty t) = nat (t_w t * t_h t)" "length (t_color ?v) = nat (t_w t * t_h t)"
      "length (t_buf ?v) = length (t_buf t)"
    using assms vs b(2) by (simp_all add: shaped_def)
  have vk: "t_input ?v = t_input t \<and> t_cooked ?v = t_cooked t \<and> inp_len ?v = inp_len t"
    using fold_put_simps(12) [of ?u "\<lambda>i. int i" "\<lambda>_. t_h t - 1" EMPTY "[0..<nat (t_w t)]"] by (simp add: keeps_def)
  have keep: "keeps t (?v\<lparr>t_dirty := ?d\<rparr>)"
    using lens len vk by (simp add: keeps_def)
  have "t_buf ?v ! nat (cell_at t x y) = (if y = t_h t - 1 then EMPTY else t_buf t ! nat (cell_at t x (y + 1)))"
    if xy: "on_screen t x y" for x y
  proof -
    have k: "nat (cell_at t x y) < length (t_buf ?u)" using cell_bounds [OF xy] b(2) len by simp
    have buf: "t_buf ?v ! nat (cell_at t x y) =
        (if \<exists>i \<in> set [0..<nat (t_w t)]. nat (cell_at t (int i) (t_h t - 1)) = nat (cell_at t x y) then EMPTY else b ! nat (cell_at t x y))"
      using fold_put_buf [OF last k, of "[0..<nat (t_w t)]" "\<lambda>i. i" EMPTY] unfolding u(3) by simp
    show ?thesis
    proof (cases "y = t_h t - 1")
      case True
      then have "nat x \<in> set [0..<nat (t_w t)]" "nat (cell_at t (int (nat x)) (t_h t - 1)) = nat (cell_at t x y)"
        using xy by (simp_all add: on_screen_def)
      then show ?thesis using buf True by metis
    next
      case False
      then have y: "on_screen t x (y + 1)" "y \<le> t_h t - 2" using xy by (auto simp: on_screen_def)
      have below: "cell_at t x y + t_w t = cell_at t x (y + 1)" by (simp add: cell_at_def algebra_simps)
      have "cell_at t x (y + 1) < t_w t * t_h t" using cell_bounds [OF y(1)] by simp
      then have lt: "cell_at t x y < t_w t * (t_h t - 1)" using below by (simp add: algebra_simps)
      have "cell_at t (int i) (t_h t - 1) \<noteq> cell_at t x y" for i
        using lt by (simp add: cell_at_def algebra_simps)
      moreover have "0 \<le> cell_at t x y" "0 \<le> cell_at t (int i) (t_h t - 1)" for i
        using cell_bounds [OF xy] wh by (simp_all add: cell_at_def)
      ultimately have "\<not> (\<exists>i \<in> set [0..<nat (t_w t)]. nat (cell_at t (int i) (t_h t - 1)) = nat (cell_at t x y))"
        by (simp add: eq_nat_nat_iff)
      moreover have "nat (cell_at t x y) < ?n" using lt by (simp add: zless_nat_conj) (use cell_bounds [OF xy] in linarith)
      moreover have "nat (cell_at t x y) + nat (t_w t) = nat (cell_at t x (y + 1))"
        using cell_bounds [OF xy] wh by (simp add: below [symmetric] nat_add_distrib)
      ultimately show ?thesis using buf b(3) False by simp
    qed
  qed
  then show ?thesis using run keep vs by (intro exI [of _ "?v\<lparr>t_dirty := ?d\<rparr>"]) (simp add: shaped_def on_screen_def)
qed

section \<open>Plain text\<close>

text \<open>
  What a terminal is to plain text: a list of lines and a place. At the end of the screen the first
  line is dropped.
\<close>

type_synonym teletype = "string list \<times> nat \<times> nat"

definition tt_down :: "nat \<Rightarrow> string list \<times> nat \<Rightarrow> teletype" where
  "tt_down w = (\<lambda>(ls, y). if y + 1 < length ls then (ls, 0, y + 1) else (tl ls @ [replicate w EMPTY], 0, y))"

definition tt_char :: "nat \<Rightarrow> char \<Rightarrow> teletype \<Rightarrow> teletype" where
  "tt_char w ch = (\<lambda>(ls, x, y).
     if ch = CHR 0x07 then (ls, x, y)
     else if ch = CHR 0x0A then tt_down w (ls, y)
     else if ch = CHR 0x0D then (ls, 0, y)
     else let ls = ls[y := (ls ! y)[x := ch]] in if x + 1 < w then (ls, x + 1, y) else tt_down w (ls, y))"

definition grid :: "terminal \<Rightarrow> string list" where
  "grid t = map (\<lambda>y. map (\<lambda>x. t_buf t ! nat (cell_at t (int x) (int y))) [0..<nat (t_w t)]) [0..<nat (t_h t)]"

definition teletype_of :: "terminal \<Rightarrow> teletype" where
  "teletype_of t = (grid t, nat (cur_x t), nat (cur_y t))"

lemma length_grid [simp]: "length (grid t) = nat (t_h t)"
  by (simp add: grid_def)

lemma nth_grid:
  "y < nat (t_h t) \<Longrightarrow> grid t ! y = map (\<lambda>x. t_buf t ! nat (cell_at t (int x) (int y))) [0..<nat (t_w t)]"
  by (simp add: grid_def)

lemma grid_eqI:
  assumes "length ls = nat (t_h t)" and "\<And>y. y < nat (t_h t) \<Longrightarrow> length (ls ! y) = nat (t_w t)"
    and "\<And>x y. x < nat (t_w t) \<Longrightarrow> y < nat (t_h t) \<Longrightarrow> ls ! y ! x = t_buf t ! nat (cell_at t (int x) (int y))"
  shows "grid t = ls"
  using assms by (auto intro!: nth_equalityI simp: nth_grid)

lemma cell_at_inj:
  assumes "on_screen t x y" and "on_screen t x' y'" and "cell_at t x y = cell_at t x' y'"
  shows "x = x' \<and> y = y'"
proof -
  have "cell_at t a b mod t_w t = a \<and> cell_at t a b div t_w t = b" if "on_screen t a b" for a b
    using that by (simp add: cell_at_def on_screen_def)
  then show ?thesis using assms by metis
qed

lemma grid_cong: "t_w t' = t_w t \<Longrightarrow> t_h t' = t_h t \<Longrightarrow> t_buf t' = t_buf t \<Longrightarrow> grid t' = grid t"
  by (simp add: grid_def cell_at_def)

lemma grid_put_cell:
  assumes "shaped t" and "on_screen t x y"
  shows "grid (put_cell x y ch t) = (grid t)[nat y := (grid t ! nat y)[nat x := ch]]"
proof (rule grid_eqI)
  fix a b assume ab: "a < nat (t_w (put_cell x y ch t))" "b < nat (t_h (put_cell x y ch t))"
  then have on: "on_screen t (int a) (int b)" by (auto simp: on_screen_def)
  have k: "nat (cell_at t (int a) (int b)) < length (t_buf t)"
    using cell_bounds [OF on] assms(1) by (simp add: shaped_def)
  have eq: "nat (cell_at t x y) = nat (cell_at t (int a) (int b)) \<longleftrightarrow> nat x = a \<and> nat y = b"
    using cell_at_inj [OF assms(2) on] cell_bounds(1) [OF on] cell_bounds(1) [OF assms(2)] assms(2)
    by (auto simp: on_screen_def eq_nat_nat_iff)
  show "(grid t)[nat y := (grid t ! nat y)[nat x := ch]] ! b ! a =
      t_buf (put_cell x y ch t) ! nat (cell_at (put_cell x y ch t) (int a) (int b))"
    using ab k by (auto simp: put_cell_buf nth_update eq nth_grid)
qed (use assms in \<open>auto simp: nth_update nth_grid\<close>)

lemma grid_scrolled:
  assumes "0 < t_h t" and "t_w t' = t_w t" "t_h t' = t_h t"
    and "\<forall>x y. on_screen t x y \<longrightarrow> t_buf t' ! nat (cell_at t x y) =
       (if y = t_h t - 1 then EMPTY else t_buf t ! nat (cell_at t x (y + 1)))"
  shows "grid t' = tl (grid t) @ [replicate (nat (t_w t)) EMPTY]"
proof (rule grid_eqI)
  have c: "cell_at t' = cell_at t" using assms(2) by (auto simp: cell_at_def fun_eq_iff)
  fix a b assume ab: "a < nat (t_w t')" "b < nat (t_h t')"
  have "on_screen t (int a) (int b)" using ab assms(2,3) by (auto simp: on_screen_def)
  from assms(4) [rule_format, OF this]
  show "(tl (grid t) @ [replicate (nat (t_w t)) EMPTY]) ! b ! a = t_buf t' ! nat (cell_at t' (int a) (int b))"
    using ab assms(1-3) by (auto simp: c nth_append nth_tl nth_grid add.commute)
qed (use assms in \<open>auto simp: nth_append nth_tl nth_grid\<close>)

text \<open>One line down, at the end of the screen by scrolling.\<close>

lemma down_run:
  assumes "shaped t" and "0 \<le> cur_y t" "cur_y t < t_h t" and "cur_x t = 0"
    and "u = t\<lparr>cur_y := wrap32 (cur_y t + 1)\<rparr>"
  shows "\<exists>t'. (if cur_y u \<ge> t_h u then rbind (scroll_up u) (\<lambda>t. Inr (t\<lparr>cur_y := wrap32 (cur_y t - 1)\<rparr>)) else Inr u) = Inr t' \<and>
    keeps t t' \<and> term_ok t' \<and> saved_x t' = saved_x t \<and> saved_y t' = saved_y t \<and> t_mode t' = t_mode t \<and>
    teletype_of t' = tt_down (nat (t_w t)) (grid t, nat (cur_y t))"
proof -
  have sz: "0 < t_w t" "t_h t < 2 ^ 15" using assms(1) by (simp_all add: shaped_def)
  have y: "wrap32 (cur_y t + 1) = cur_y t + 1" "wrap32 (cur_y t) = cur_y t"
    using assms(2,3) sz by (auto intro!: wrap32_small)
  show ?thesis
  proof (cases "cur_y t + 1 < t_h t")
    case True
    moreover have "grid (t\<lparr>cur_y := cur_y t + 1\<rparr>) = grid t" by (rule grid_cong) simp_all
    ultimately show ?thesis using assms y sz
      by (auto simp: term_ok_def on_screen_def teletype_of_def tt_down_def nat_add_distrib)
  next
    case False
    have u: "shaped u" "cur_x u = 0" "cur_y u = cur_y t + 1" "on_screen u = on_screen t" "cell_at u = cell_at t"
        "t_w u = t_w t" "t_h u = t_h t" "t_buf u = t_buf t" "saved_x u = saved_x t" "saved_y u = saved_y t" "t_mode u = t_mode t"
      using assms y by (auto simp: cell_at_def fun_eq_iff)
    obtain v where v: "scroll_up u = Inr v" "keeps u v" "shaped v" "cur_x v = cur_x u" "cur_y v = cur_y u"
        "saved_x v = saved_x u" "saved_y v = saved_y u" "t_mode v = t_mode u"
        "\<forall>x y. on_screen t x y \<longrightarrow> t_buf v ! nat (cell_at t x y) =
          (if y = t_h t - 1 then EMPTY else t_buf t ! nat (cell_at t x (y + 1)))"
      using scroll_up_run [OF u(1)] unfolding u by blast
    have w: "t_w v = t_w t" "t_h v = t_h t" using v(2) u by (simp_all add: keeps_def)
    have "grid v = tl (grid t) @ [replicate (nat (t_w t)) EMPTY]"
      using grid_scrolled [OF _ w v(9)] assms(2,3) by simp
    moreover have "grid (v\<lparr>cur_y := cur_y t\<rparr>) = grid v" by (rule grid_cong) simp_all
    moreover have "keeps t v" using v(2) assms(5) by simp
    ultimately show ?thesis using v u y False assms sz w
      by (auto simp: term_ok_def on_screen_def teletype_of_def tt_down_def)
  qed
qed

lemma write_char_run:
  assumes "term_ok t" and "ch \<noteq> CHR 0x09"
  shows "\<exists>t'. write_char ch t = Inr t' \<and> keeps t t' \<and> term_ok t' \<and>
    saved_x t' = saved_x t \<and> saved_y t' = saved_y t \<and> t_mode t' = t_mode t \<and>
    teletype_of t' = tt_char (nat (t_w t)) ch (teletype_of t)"
proof -
  have sh: "shaped t" and on: "on_screen t (cur_x t) (cur_y t)" using assms(1) by (simp_all add: term_ok_def)
  have b: "0 \<le> cur_x t" "cur_x t < t_w t" "0 \<le> cur_y t" "cur_y t < t_h t" "t_w t < 2 ^ 15"
    using sh on by (simp_all add: shaped_def on_screen_def)
  consider "ch = CHR 0x07" | "ch = CHR 0x0A" | "ch = CHR 0x0D" | "ch \<noteq> CHR 0x07" "ch \<noteq> CHR 0x0A" "ch \<noteq> CHR 0x0D" by blast
  then show ?thesis
  proof cases
    case 1
    then show ?thesis using assms(1) by (simp add: write_char_def tt_char_def teletype_of_def)
  next
    case 2
    let ?t = "t\<lparr>cur_x := 0\<rparr>"
    have g: "grid ?t = grid t" by (rule grid_cong) simp_all
    show ?thesis using down_run [of ?t, OF _ _ _ _ refl] sh b unfolding g
      by (simp add: 2 write_char_def new_line_def tt_char_def teletype_of_def Let_def cong: if_cong split del: if_split)
  next
    case 3
    have "grid (t\<lparr>cur_x := 0\<rparr>) = grid t" by (rule grid_cong) simp_all
    then show ?thesis using sh b by (simp add: 3 write_char_def tt_char_def teletype_of_def term_ok_def on_screen_def)
  next
    case 4
    let ?p = "put_cell (cur_x t) (cur_y t) ch t"
    have x: "wrap32 (cur_x t + 1) = cur_x t + 1" using b by (auto intro!: wrap32_small)
    have put: "write_char ch t = move_one ?p"
      using 4 assms(2) by (simp add: write_char_def term_putch_run [OF sh on])
    have tt: "tt_char (nat (t_w t)) ch (teletype_of t) = (let ls = grid ?p in
        if cur_x t + 1 < t_w t then (ls, nat (cur_x t) + 1, nat (cur_y t)) else tt_down (nat (t_w t)) (ls, nat (cur_y t)))"
      using 4 b by (auto simp: tt_char_def teletype_of_def grid_put_cell [OF sh on] Let_def)
    show ?thesis
    proof (cases "cur_x t + 1 < t_w t")
      case True
      have "grid (?p\<lparr>cur_x := cur_x t + 1\<rparr>) = grid ?p" by (rule grid_cong) simp_all
      then show ?thesis using True x b sh tt put
        by (simp add: move_one_def term_ok_def on_screen_def teletype_of_def nat_add_distrib Let_def)
    next
      case False
      let ?q = "?p\<lparr>cur_x := 0\<rparr>"
      have g: "grid ?q = grid ?p" by (rule grid_cong) simp_all
      have "keeps t t'" if "keeps ?p t'" for t' by (rule keeps_trans [OF put_cell_keeps that])
      then show ?thesis using down_run [of ?q, OF _ _ _ _ refl] sh b put False x tt unfolding g
        by (auto simp: move_one_def Let_def cong: if_cong split del: if_split)
    qed
  qed
qed

section \<open>Escape sequences keep the screen\<close>

lemma clamp_ok: "shaped t \<Longrightarrow> term_ok (clamp_cursor t) \<and> keeps t (clamp_cursor t)"
  by (auto simp: term_ok_def clamp_cursor_def on_screen_def shaped_def)

lemma set_attr_same [simp]:
  "keeps t (set_attr a t)" "shaped (set_attr a t) = shaped t" "on_screen (set_attr a t) = on_screen t"
  by (simp_all add: set_attr_def)

lemma handler_run:
  assumes "(p, h) \<in> set esc_seqs" and "term_ok t"
  shows "\<exists>t'. h args t = Inr t' \<and> keeps t t' \<and> shaped t'"
proof -
  have sh: "shaped t" and on: "on_screen t (cur_x t) (cur_y t)" using assms(2) by (simp_all add: term_ok_def)
  have attr: "keeps t (set_attr b (set_attr a t))" "keeps t (set_attr c (set_attr b (set_attr a t)))" for a b c
    by (blast intro: keeps_trans set_attr_same)+
  have erase: "\<exists>t'. esc_erase args t = Inr t' \<and> keeps t t' \<and> shaped t'"
    using put_cells_run [OF sh, of "[0..<nat (t_w t - cur_x t)]" "\<lambda>i. cur_x t + int i" "\<lambda>_. cur_y t" EMPTY] on sh
    by (auto simp: esc_erase_def on_screen_def)
  have clear: "\<exists>t'. esc_clear args t = Inr t' \<and> keeps t t' \<and> shaped t'"
    using fill_empty_run [OF sh] by (auto simp: esc_clear_def)
  have save: "shaped (t\<lparr>saved_x := cur_x t, saved_y := cur_y t\<rparr>)"
    using sh on by (simp add: shaped_def)
  show ?thesis
    using assms(1) erase clear save sh attr
    by (auto simp: esc_seqs_def esc_move_def esc_movefirst_def esc_moveup_def esc_movedown_def esc_moveleft_def
        esc_moveright_def esc_save_def esc_restore_def esc_setattr1_def esc_setattr2_def esc_setattr3_def
        esc_rawmode_def esc_cookmode_def)
qed

text \<open>Matching stops at a zero: it reads no further and never matches beyond it.\<close>

lemma scan_num_within:
  "CHR 0x00 \<notin> set s \<Longrightarrow> \<exists>s' m d. scan_num (s @ CHR 0x00 # r) count len data = Inr (s' @ CHR 0x00 # r, m, d) \<and>
     m + length s' = len + length s \<and> set s' \<subseteq> set s"
proof (induction s arbitrary: len data)
  case Nil
  show ?case by (rule exI [of _ "[]"]) (simp add: arg_digit_def)
next
  case (Cons c s)
  show ?case
  proof (cases "arg_digit c \<and> len < unat count")
    case True
    then show ?thesis using Cons.IH [of "len + 1" "wrap32 (data * 10 + of_char c - 48)"] Cons.prems by auto
  next
    case False
    then show ?thesis by (intro exI [of _ "c # s"]) auto
  qed
qed

lemma match_seq_within:
  "CHR 0x00 \<notin> set s \<Longrightarrow> CHR 0x00 \<notin> set p \<Longrightarrow>
     \<exists>r'. match_seq p (s @ CHR 0x00 # r) count len args = Inr r' \<and> (\<forall>m bs. r' = Some (m, bs) \<longrightarrow> m \<le> len + length s)"
proof (induction p arbitrary: s len args)
  case (Cons q p)
  show ?case
  proof (cases "q = CHR ''#''")
    case True
    obtain s' m d where s': "scan_num (s @ CHR 0x00 # r) count len 0 = Inr (s' @ CHR 0x00 # r, m, d)"
        "m + length s' = len + length s" "set s' \<subseteq> set s"
      using scan_num_within [OF Cons.prems(1)] by blast
    then have "CHR 0x00 \<notin> set s'" using Cons.prems(1) by blast
    from Cons.IH [OF this, of m "args @ [d]"] show ?thesis using s' True Cons.prems(2) by auto
  next
    case False
    show ?thesis
    proof (cases s)
      case Nil
      then show ?thesis using False Cons.prems(2) by auto
    next
      case (Cons c s')
      then show ?thesis using False Cons.prems Cons.IH [of s' "len + 1" args] by auto
    qed
  qed
qed simp

lemma find_seq_within:
  "CHR 0x00 \<notin> set s \<Longrightarrow> \<forall>q \<in> set ps. CHR 0x00 \<notin> set (fst q) \<Longrightarrow>
     \<exists>r'. find_seq ps (s @ CHR 0x00 # r) count = Inr r' \<and>
       (\<forall>m bs h. r' = Some (m, bs, h) \<longrightarrow> m \<le> length s \<and> (\<exists>p. (p, h) \<in> set ps))"
proof (induction ps)
  case (Cons q ps)
  obtain p h where q: "q = (p, h)" by (cases q)
  obtain r' where r': "match_seq p (s @ CHR 0x00 # r) count 0 [] = Inr r'" "\<forall>m bs. r' = Some (m, bs) \<longrightarrow> m \<le> length s"
    using match_seq_within [OF Cons.prems(1), of p r count 0 "[]"] Cons.prems(2) q by auto
  show ?case using r' q Cons by (cases r') (auto, blast)
qed simp

lemma esc_seqs_zero: "\<forall>q \<in> set esc_seqs. CHR 0x00 \<notin> set (fst q)"
  by (simp add: esc_seqs_def ESC_def)

lemma write_escape_run:
  assumes "CHR 0x00 \<notin> set s" and "s \<noteq> []" and "term_ok t"
  shows "\<exists>n t'. write_escape (s @ CHR 0x00 # r) count t = Inr (n, t') \<and> 0 < n \<and> n \<le> length s \<and> keeps t t' \<and> term_ok t'"
proof -
  obtain r' where r': "find_seq esc_seqs (s @ CHR 0x00 # r) count = Inr r'"
      "\<forall>m bs h. r' = Some (m, bs, h) \<longrightarrow> m \<le> length s \<and> (\<exists>p. (p, h) \<in> set esc_seqs)"
    using find_seq_within [OF assms(1) esc_seqs_zero] by blast
  show ?thesis
  proof (cases r')
    case None
    then show ?thesis using r' assms by (cases s) (simp_all add: write_escape_def)
  next
    case (Some q)
    then obtain m bs h where q: "r' = Some (m, bs, h)" by (cases q) auto
    then obtain p where p: "(p, h) \<in> set esc_seqs" "m \<le> length s" using r'(2) by blast
    obtain t' where t': "h bs t = Inr t'" "keeps t t'" "shaped t'" using handler_run [OF p(1) assms(3)] by blast
    have run: "write_escape (s @ CHR 0x00 # r) count t = Inr (m, clamp_cursor t')"
      using r' q t' by (simp add: write_escape_def)
    show ?thesis using run write_escape_length [OF run] p clamp_ok [OF t'(3)] keeps_trans [OF t'(2)] by blast
  qed
qed

lemma of_nat_u64_nonzero: "0 < n \<Longrightarrow> n < 2 ^ 64 \<Longrightarrow> of_nat n \<noteq> (0 :: u64)"
  by (auto simp: word_of_nat_eq_0_iff dest: dvd_imp_le)

lemma term_write_run:
  assumes "CHR 0x00 \<notin> set s" and "CHR 0x09 \<notin> set s" and "term_ok t" and "length s < 2 ^ 64"
  shows "\<exists>t'. term_write (s @ CHR 0x00 # r) (of_nat (length s)) t = Inr t' \<and> keeps t t' \<and> term_ok t'"
  using assms
proof (induction "length s" arbitrary: s t rule: less_induct)
  case less
  have step: "\<exists>t'. term_write (drop n s @ CHR 0x00 # r) (of_nat (length s) - of_nat n) u = Inr t' \<and> keeps t t' \<and> term_ok t'"
    if u: "term_ok u" "keeps t u" and n: "0 < n" "n \<le> length s" for n u
  proof -
    have "set (drop n s) \<subseteq> set s" by (rule set_drop_subset)
    then have "\<exists>t'. term_write (drop n s @ CHR 0x00 # r) (of_nat (length (drop n s))) u = Inr t' \<and> keeps u t' \<and> term_ok t'"
      using less.prems u n by (intro less.hyps) auto
    moreover have "of_nat (length (drop n s)) = (of_nat (length s) - of_nat n :: u64)" using n by (simp add: of_nat_diff)
    ultimately show ?thesis using keeps_trans [OF u(2)] by metis
  qed
  show ?case
  proof (cases s)
    case Nil
    then show ?thesis using less.prems by (simp add: term_write.simps)
  next
    case (Cons c s')
    have len: "of_nat (length s) \<noteq> (0 :: u64)" using Cons less.prems(4) by (intro of_nat_u64_nonzero) simp_all
    have c: "c \<noteq> CHR 0x00" "c \<noteq> CHR 0x09" using Cons less.prems by auto
    show ?thesis
    proof (cases "c = ESC")
      case True
      obtain n u where n: "write_escape (s @ CHR 0x00 # r) (of_nat (length s)) t = Inr (n, u)" "0 < n" "n \<le> length s"
          "keeps t u" "term_ok u"
        using write_escape_run [OF less.prems(1) _ less.prems(3)] Cons by blast
      have "term_write (s @ CHR 0x00 # r) (of_nat (length s)) t =
          rbind (write_escape (s @ CHR 0x00 # r) (of_nat (length s)) t) (\<lambda>(n, u).
            term_write (drop n (s @ CHR 0x00 # r)) (of_nat (length s) - of_nat n) u)"
        using len c True Cons by (subst term_write.simps) simp
      moreover have "drop n (s @ CHR 0x00 # r) = drop n s @ CHR 0x00 # r" using n(3) by simp
      ultimately have "term_write (s @ CHR 0x00 # r) (of_nat (length s)) t =
          term_write (drop n s @ CHR 0x00 # r) (of_nat (length s) - of_nat n) u"
        by (simp only: n(1) rbind_Inr prod.case)
      then show ?thesis using step [OF n(5,4,2,3)] by simp
    next
      case False
      obtain u where u: "write_char c t = Inr u" "keeps t u" "term_ok u"
        using write_char_run [OF less.prems(3) c(2)] by blast
      have "term_write (s @ CHR 0x00 # r) (of_nat (length s)) t =
          term_write (drop 1 s @ CHR 0x00 # r) (of_nat (length s) - of_nat 1) u"
        using u(1) len c False Cons by (subst term_write.simps) simp
      then show ?thesis using step [OF u(3,2), of 1] Cons by simp
    qed
  qed
qed

text \<open>Plain text is the text of a teletype.\<close>

lemma term_write_plain:
  assumes "set s \<inter> {CHR 0x00, CHR 0x09, ESC} = {}" and "term_ok t" and "length s < 2 ^ 64"
  shows "\<exists>t'. term_write (s @ r) (of_nat (length s)) t = Inr t' \<and> keeps t t' \<and> term_ok t' \<and>
    t_mode t' = t_mode t \<and> teletype_of t' = fold (tt_char (nat (t_w t))) s (teletype_of t)"
  using assms
proof (induction s arbitrary: t)
  case Nil
  then show ?case by (simp add: term_write.simps)
next
  case (Cons c s)
  have len: "of_nat (length (c # s)) \<noteq> (0 :: u64)" using Cons.prems by (intro of_nat_u64_nonzero) simp_all
  obtain u where u: "write_char c t = Inr u" "keeps t u" "term_ok u" "t_mode u = t_mode t"
      "teletype_of u = tt_char (nat (t_w t)) c (teletype_of t)"
    using write_char_run [of t c] Cons.prems by auto
  have w: "t_w u = t_w t" using u(2) by (simp add: keeps_def)
  have step: "term_write ((c # s) @ r) (of_nat (length (c # s))) t = term_write (s @ r) (of_nat (length s)) u"
    using u(1) len Cons.prems by (subst term_write.simps) auto
  obtain t' where "term_write (s @ r) (of_nat (length s)) u = Inr t'" "keeps u t'" "term_ok t'" "t_mode t' = t_mode u"
      "teletype_of t' = fold (tt_char (nat (t_w u))) s (teletype_of u)"
    using Cons.IH [of u] Cons.prems u by auto
  then show ?case using step u w keeps_trans [OF u(2)] by simp
qed

section \<open>Escape sequences are recognised\<close>

text \<open>A pattern with its numbers filled in.\<close>

fun dec :: "nat \<Rightarrow> string" where
  "dec n = (if n < 10 then [char_of (48 + n)] else dec (n div 10) @ [char_of (48 + n mod 10)])"

declare dec.simps [simp del]

fun fill_seq :: "string \<Rightarrow> nat list \<Rightarrow> string" where
  "fill_seq [] as = []"
| "fill_seq (c # p) as =
     (if c = CHR ''#'' then dec (hd as) @ fill_seq p (tl as) else c # fill_seq p as)"

lemma digit_of [simp]: "m < 10 \<Longrightarrow> arg_digit (char_of (48 + m))" "m < 10 \<Longrightarrow> of_char (char_of (48 + m)) = (48 + int m)"
proof -
  assume m: "m < 10"
  have "(of_char (char_of (48 + m)) :: nat) = 48 + m" using m by simp
  then show "arg_digit (char_of (48 + m))" using m by (simp add: arg_digit_def)
  have "(of_char (char_of (48 + m)) :: int) = of_nat (of_char (char_of (48 + m) :: char))" by (simp only: of_nat_of_char)
  then show "of_char (char_of (48 + m)) = (48 + int m)" using m by simp
qed

lemma dec_digits: "c \<in> set (dec n) \<Longrightarrow> arg_digit c"
  by (induction n rule: dec.induct) (subst (asm) (2) dec.simps, auto split: if_splits)

lemma dec_nonempty [simp]: "dec n \<noteq> []"
  by (subst dec.simps) simp

lemma dec_value:
  "n < 2 ^ 31 \<Longrightarrow> foldl (\<lambda>d c. wrap32 (d * 10 + of_char c - 48)) 0 (dec n) = int n"
proof (induction n rule: dec.induct)
  case (1 n)
  show ?case
  proof (cases "n < 10")
    case True
    then show ?thesis by (subst dec.simps) (simp add: wrap32_small)
  next
    case False
    have "int (n div 10) * 10 + int (n mod 10) = int n" by (metis div_mult_mod_eq of_nat_add of_nat_mult of_nat_numeral)
    then show ?thesis using False 1 by (subst dec.simps) (simp add: wrap32_small)
  qed
qed

lemma scan_num_digits:
  "\<forall>c \<in> set ds. arg_digit c \<Longrightarrow> len + length ds \<le> unat count \<Longrightarrow>
     scan_num (ds @ s) count len d = scan_num s count (len + length ds) (foldl (\<lambda>d c. wrap32 (d * 10 + of_char c - 48)) d ds)"
  by (induction ds arbitrary: len d) auto

lemma scan_num_dec [simp]:
  assumes "n < 2 ^ 31" and "len + length (dec n) \<le> unat count" and "\<not> arg_digit c"
  shows "scan_num (dec n @ c # r) count len 0 = Inr (c # r, len + length (dec n), int n)"
  using assms scan_num_digits [of "dec n" len count "c # r" 0] by (simp add: dec_digits dec_value)

lemma match_other_dec [simp]:
  assumes "\<not> arg_digit p" and "p \<noteq> CHR ''#''"
  shows "match_seq (p # ps) (dec n @ s) count len args = Inr None"
proof (cases "dec n")
  case (Cons c cs)
  then show ?thesis using assms dec_digits [of c n] by auto
qed simp

lemma match_digit_dec [simp]:
  assumes "arg_digit p" "\<not> arg_digit q" "q \<noteq> CHR ''#''" "\<not> arg_digit c" "c \<noteq> q"
  shows "match_seq [p, q] (dec n @ c # s) count len args = Inr None"
proof -
  have p: "p \<noteq> CHR ''#''" using assms(1) by (auto simp: arg_digit_def)
  obtain d ds where d: "dec n = d # ds" by (cases "dec n") simp_all
  then have "\<forall>x \<in> set ds. arg_digit x" using dec_digits [of _ n] by simp
  then show ?thesis using assms p unfolding d by (cases ds) auto
qed

lemma digit_chars [simp]:
  "\<not> arg_digit CHR ''s''" "\<not> arg_digit CHR ''u''" "\<not> arg_digit CHR ''J''" "\<not> arg_digit CHR ''K''" "\<not> arg_digit CHR ''f''"
  "\<not> arg_digit CHR ''H''" "\<not> arg_digit CHR ''A''" "\<not> arg_digit CHR ''B''" "\<not> arg_digit CHR ''C''" "\<not> arg_digit CHR ''D''"
  "\<not> arg_digit CHR ''m''" "\<not> arg_digit CHR '';''" "\<not> arg_digit CHR ''t''" "arg_digit CHR ''1''" "arg_digit CHR ''2''"
  by (simp_all add: arg_digit_def)

lemma match_char_lit:
  "p \<noteq> CHR ''#'' \<Longrightarrow> match_seq (p # ps) (c # s) count len args =
     (if c \<noteq> p then Inr None else match_seq ps s count (len + 1) args)"
  by simp

lemma match_hash_dec:
  "n < 2 ^ 31 \<Longrightarrow> len + length (dec n) \<le> unat count \<Longrightarrow> \<not> arg_digit c \<Longrightarrow>
     match_seq (CHR ''#'' # ps) (dec n @ c # s) count len args =
     match_seq ps (c # s) count (len + length (dec n)) (args @ [int n])"
  by simp

lemma match_hash_none:
  "\<not> arg_digit c \<Longrightarrow> match_seq (CHR ''#'' # ps) (c # s) count len args = match_seq ps (c # s) count len (args @ [0])"
  by simp

lemma list_of_length: "length xs = Suc n \<longleftrightarrow> (\<exists>y ys. xs = y # ys \<and> length ys = n)"
  by (cases xs) auto

lemma find_filled:
  assumes "(p, h) \<in> set esc_seqs" and "length as = count_list p CHR ''#''" and "\<forall>a \<in> set as. a < 2 ^ 31"
    and "length (fill_seq p as) \<le> unat count"
  shows "find_seq esc_seqs (fill_seq p as @ r) count = Inr (Some (length (fill_seq p as), map int as, h))"
  using assms by (auto simp: esc_seqs_def list_of_length ESC_def count_list_append match_char_lit match_hash_dec match_hash_none
      simp del: match_seq.simps(2))

section \<open>Typing a line\<close>

definition edit_key :: "string \<Rightarrow> char \<Rightarrow> string" where
  "edit_key l c = (if c = CHR 0x00 \<or> c = ESC then l else if c = CHR 0x08 then butlast l
     else if length l < 255 then l @ [c] else l)"

definition typing :: "string \<Rightarrow> terminal \<Rightarrow> bool" where
  "typing l t \<longleftrightarrow> term_ok t \<and> t_mode t = Cook_mode \<and> length (t_input t) = 256 \<and> length (t_cooked t) = 256 \<and>
     inp_len t = int (length l) \<and> length l \<le> 255 \<and> take (length l) (t_input t) = l \<and>
     t_input t ! length l = CHR 0x00 \<and> CHR 0x00 \<notin> set l"

lemma cstr_of_line: "CHR 0x00 \<notin> set l \<Longrightarrow> cstr_of (l @ CHR 0x00 # r) = Inr l"
  by (simp add: cstr_of_def takeWhile_tail) (induction l, auto)

lemma typing_input:
  assumes "typing l t"
  shows "\<exists>r. t_input t = l @ CHR 0x00 # r \<and> length r + length l = 255"
proof -
  have "length l < length (t_input t)" using assms by (simp add: typing_def)
  from id_take_nth_drop [OF this] show ?thesis
    using assms by (intro exI [of _ "drop (Suc (length l)) (t_input t)"]) (simp add: typing_def)
qed

lemma term_write_char:
  assumes "term_ok t" and "c \<notin> {CHR 0x00, CHR 0x09, ESC}"
  shows "\<exists>t'. term_write (c # r) 1 t = Inr t' \<and> keeps t t' \<and> term_ok t' \<and> t_mode t' = t_mode t"
  using term_write_plain [of "[c]" t r] assms by auto

lemma backspace_run:
  assumes "term_ok t"
  shows "\<exists>t'. backspace t = Inr t' \<and> keeps t t' \<and> term_ok t' \<and> t_mode t' = t_mode t"
proof -
  have sh: "shaped t" and on: "on_screen t (cur_x t) (cur_y t)" using assms by (simp_all add: term_ok_def)
  have b: "0 \<le> cur_x t" "cur_x t < t_w t" "0 \<le> cur_y t" "cur_y t < t_h t" "t_w t < 2 ^ 15" "t_h t < 2 ^ 15"
    using sh on by (simp_all add: shaped_def on_screen_def)
  then have w: "wrap32 (cur_x t - 1) = cur_x t - 1" "wrap32 (cur_y t - 1) = cur_y t - 1" by (auto intro!: wrap32_small)
  have step: "\<exists>t'. rbind (rput (t_buf u) (cell_at u (cur_x u) (cur_y u)) EMPTY) (\<lambda>b.
      rbind (rput (t_dirty u) (cell_at u (cur_x u) (cur_y u)) True) (\<lambda>d. Inr (u\<lparr>t_buf := b, t_dirty := d\<rparr>))) = Inr t' \<and>
      keeps t t' \<and> term_ok t' \<and> t_mode t' = t_mode t"
    if u: "u = t\<lparr>cur_x := x, cur_y := y\<rparr>" and "on_screen t x y" for u x y
  proof -
    have c: "cell_at u = cell_at t" using u by (auto simp: cell_at_def fun_eq_iff)
    have lens: "length (t_buf t) = nat (t_w t * t_h t)" "length (t_dirty t) = nat (t_w t * t_h t)"
      using sh by (simp_all add: shaped_def)
    let ?k = "nat (cell_at t x y)"
    let ?v = "t\<lparr>cur_x := x, cur_y := y, t_buf := (t_buf t)[?k := EMPTY], t_dirty := (t_dirty t)[?k := True]\<rparr>"
    have "keeps t ?v" using lens by (auto simp: keeps_def nth_update)
    moreover have "term_ok ?v" using sh that(2) by (simp add: term_ok_def shaped_def on_screen_def)
    ultimately show ?thesis using cell_bounds [OF that(2)] lens by (simp add: u c [unfolded u])
  qed
  consider "0 < cur_x t" | "cur_x t = 0" "0 < cur_y t" | "cur_x t = 0" "cur_y t = 0" using b by linarith
  then show ?thesis
  proof cases
    case 1
    then show ?thesis using step [OF refl, of "cur_x t - 1" "cur_y t"] b w
      by (simp add: backspace_def on_screen_def Let_def)
  next
    case 2
    then show ?thesis using step [OF refl, of "t_w t - 1" "cur_y t - 1"] b w
      by (simp add: backspace_def on_screen_def Let_def)
  next
    case 3
    then show ?thesis using step [OF refl, of 0 0] b w
      by (simp add: backspace_def on_screen_def Let_def)
  qed
qed

lemma typing_facts:
  assumes "typing l t"
  shows "term_ok t" and "t_mode t = Cook_mode" and "length (t_cooked t) = 256" and "inp_len t = int (length l)"
    and "length l \<le> 255" and "CHR 0x00 \<notin> set l"
  using assms by (simp_all add: typing_def)

text \<open>The end of \<open>keypress\<close>: the new line is terminated.\<close>

lemma typing_end:
  assumes "keeps v u" and "t_input v = m @ c # q" "inp_len v = int (length m)" "length (t_cooked v) = 256"
    and "length m + length q = 255" and "CHR 0x00 \<notin> set m" and "term_ok u" and "t_mode u = Cook_mode"
  shows "rput (t_input u) (inp_len u) (CHR 0x00) = Inr (m @ CHR 0x00 # q)"
    and "typing m (u\<lparr>t_input := m @ CHR 0x00 # q\<rparr>)"
proof -
  have k: "t_input u = m @ c # q" "inp_len u = int (length m)" "length (t_cooked u) = 256"
    using assms(1-4) by (simp_all add: keeps_def)
  then show "rput (t_input u) (inp_len u) (CHR 0x00) = Inr (m @ CHR 0x00 # q)" by simp
  have "term_ok (u\<lparr>t_input := m @ CHR 0x00 # q\<rparr>)" using assms(7) by (simp add: term_ok_def shaped_def on_screen_def)
  then show "typing m (u\<lparr>t_input := m @ CHR 0x00 # q\<rparr>)" using k assms(5,6,8) by (simp add: typing_def)
qed

lemma typing_stays:
  assumes "typing l t"
  shows "\<exists>a. rput (t_input t) (inp_len t) (CHR 0x00) = Inr a \<and> typing l (t\<lparr>t_input := a\<rparr>)"
proof -
  obtain r where r: "t_input t = l @ CHR 0x00 # r" "length r + length l = 255" using typing_input [OF assms] by blast
  note ty = typing_facts [OF assms]
  show ?thesis using typing_end [OF keeps_refl r(1) ty(4,3) _ ty(6,1,2)] r(2) by (simp add: add.commute)
qed

lemma type_back:
  assumes "typing (m @ [c]) t"
  shows "\<exists>t'. keypress (CHR 0x08) t = Inr (None, t') \<and> typing m t' \<and> fresh t t'"
proof -
  obtain r where r: "t_input t = (m @ [c]) @ CHR 0x00 # r" "length r + length (m @ [c]) = 255"
    using typing_input [OF assms] by blast
  note ty = typing_facts [OF assms]
  let ?v = "t\<lparr>inp_len := int (length m)\<rparr>"
  have "term_ok ?v" using ty(1) by (simp add: term_ok_def shaped_def on_screen_def)
  then obtain u where u: "backspace ?v = Inr u" "keeps ?v u" "term_ok u" "t_mode u = t_mode ?v"
    using backspace_run by blast
  have "t_input ?v = m @ c # CHR 0x00 # r" "inp_len ?v = int (length m)" "length (t_cooked ?v) = 256"
    "length m + length (CHR 0x00 # r) = 255" "CHR 0x00 \<notin> set m" "t_mode u = Cook_mode"
    using r ty u(4) by simp_all
  note e = typing_end [OF u(2) this(1-5) u(3) this(6)]
  have "keypress (CHR 0x08) t = Inr (None, u\<lparr>t_input := m @ CHR 0x00 # CHR 0x00 # r\<rparr>)"
    using u(1) ty e(1) by (simp add: keypress_def key_back_def ESC_def)
  then show ?thesis using e(2) keeps_fresh [OF u(2)] by simp
qed

lemma type_put:
  assumes "typing l t" and "length l < 255" and "k \<notin> {CHR 0x00, CHR 0x08, CHR 0x09, CHR 0x0A, ESC}"
  shows "\<exists>t'. keypress k t = Inr (None, t') \<and> typing (l @ [k]) t' \<and> fresh t t'"
proof -
  obtain r where r: "t_input t = l @ CHR 0x00 # r" "length r + length l = 255" using typing_input [OF assms(1)] by blast
  note ty = typing_facts [OF assms(1)]
  let ?v = "t\<lparr>t_input := l @ k # r, inp_len := int (length l) + 1\<rparr>"
  have "r \<noteq> []" using assms(2) r by auto
  then obtain c q where q: "r = c # q" by (cases r) auto
  have "term_ok ?v" using ty(1) by (simp add: term_ok_def shaped_def on_screen_def)
  then obtain u where u: "term_write [k] 1 ?v = Inr u" "keeps ?v u" "term_ok u" "t_mode u = t_mode ?v"
    using term_write_char [of ?v k "[]"] assms(3) by auto
  have "t_input ?v = (l @ [k]) @ c # q" "inp_len ?v = int (length (l @ [k]))" "length (t_cooked ?v) = 256"
    "length (l @ [k]) + length q = 255" "CHR 0x00 \<notin> set (l @ [k])" "t_mode u = Cook_mode"
    using r q ty assms(3) u(4) by auto
  note e = typing_end [OF u(2) this(1-5) u(3) this(6)]
  have "keypress k t = Inr (None, u\<lparr>t_input := (l @ [k]) @ CHR 0x00 # q\<rparr>)"
    using u(1) ty e(1) assms(2,3) r(1) by (simp add: keypress_def key_plain_def)
  then show ?thesis using e(2) keeps_fresh [OF u(2)] by simp
qed

lemma type_key_run:
  assumes "typing l t" and "k \<noteq> CHR 0x09" and "k \<noteq> CHR 0x0A"
  shows "\<exists>t'. keypress k t = Inr (None, t') \<and> typing (edit_key l k) t' \<and> fresh t t'"
proof -
  note ty = typing_facts [OF assms(1)]
  obtain a where a: "rput (t_input t) (inp_len t) (CHR 0x00) = Inr a" "typing l (t\<lparr>t_input := a\<rparr>)"
    using typing_stays [OF assms(1)] by blast
  consider (zero) "k = CHR 0x00" | (none) "k = ESC \<or> k = CHR 0x08 \<and> l = [] \<or> k \<notin> {CHR 0x00, CHR 0x08, ESC} \<and> length l = 255"
    | (bs) m c where "k = CHR 0x08" "l = m @ [c]" | (put) "k \<notin> {CHR 0x00, CHR 0x08, ESC}" "length l < 255"
    using ty(5) rev_exhaust [of l] by (metis insert_iff le_neq_implies_less singletonD)
  then show ?thesis
  proof cases
    case zero
    then show ?thesis using assms(1) by (simp add: keypress_def edit_key_def)
  next
    case none
    have "keypress k t = Inr (None, t\<lparr>t_input := a\<rparr>)"
      using none a(1) ty(2,4) assms by (auto simp: keypress_def key_back_def key_plain_def ESC_def)
    moreover have "edit_key l k = l" using none assms by (auto simp: edit_key_def ESC_def)
    ultimately show ?thesis using a(2) by simp
  next
    case bs
    have "edit_key l k = m" using bs by (simp add: edit_key_def ESC_def)
    then show ?thesis using type_back [of m c t] bs assms(1) by simp
  next
    case put
    then have "edit_key l k = l @ [k]" by (simp add: edit_key_def)
    then show ?thesis using type_put [OF assms(1)] put assms by simp
  qed
qed

lemma enter_run:
  assumes "typing l t"
  shows "if length l \<le> 254 then \<exists>t'. keypress (CHR 0x0A) t = Inr (Some (l @ [CHR 0x0A]), t') \<and> typing [] t' \<and> fresh t t'
    else keypress (CHR 0x0A) t = Inl Out_of_bounds"
proof -
  obtain r where r: "t_input t = l @ CHR 0x00 # r" "length r + length l = 255" using typing_input [OF assms] by blast
  have ty: "term_ok t" "t_mode t = Cook_mode" "length (t_cooked t) = 256" "inp_len t = int (length l)" "length l \<le> 255"
      "CHR 0x00 \<notin> set l"
    using assms by (simp_all add: typing_def)
  let ?c = "l @ CHR 0x00 # drop (length l + 1) (t_cooked t)"
  have copy: "cstr_of (t_input t) = Inr l" "str_put 0 l (t_cooked t) = Inr ?c" "cstr_of ?c = Inr l"
    using cstr_of_line [OF ty(6)] r(1) ty by (simp_all add: str_put_def)
  show ?thesis
  proof (cases "length l \<le> 254")
    case False
    then have "str_put (length l) [CHR 0x0A] ?c = Inl Out_of_bounds" using ty by (simp add: str_put_def)
    then show ?thesis using False copy ty by (simp add: keypress_def key_enter_def ESC_def)
  next
    case True
    let ?d = "l @ [CHR 0x0A] @ [CHR 0x00] @ drop (length l + 2) ?c"
    have d: "str_put (length l) [CHR 0x0A] ?c = Inr ?d" using True ty by (simp add: str_put_def)
    have "term_ok (t\<lparr>t_cooked := ?d\<rparr>)" using ty(1) by (simp add: term_ok_def shaped_def on_screen_def)
    then obtain u where u: "term_write [CHR 0x0A, CHR 0x00] 1 (t\<lparr>t_cooked := ?d\<rparr>) = Inr u" "keeps (t\<lparr>t_cooked := ?d\<rparr>) u"
        "term_ok u" "t_mode u = t_mode t"
      using term_write_char [of "t\<lparr>t_cooked := ?d\<rparr>" "CHR 0x0A" "[CHR 0x00]"] by (auto simp: ESC_def)
    have k: "t_cooked u = ?d" "t_input u = t_input t" using u(2) by (simp_all add: keeps_def)
    have ret: "cstr_of (t_cooked u) = Inr (l @ [CHR 0x0A])"
      using cstr_of_line [of "l @ [CHR 0x0A]"] ty(6) unfolding k by simp
    have "length (t_input t) = 256" "length ?d = 256" using True ty r by simp_all
    moreover have "term_ok (u\<lparr>inp_len := 0, t_input := (t_input t)[0 := CHR 0x00]\<rparr>)"
      using u(3) by (simp add: term_ok_def shaped_def on_screen_def)
    ultimately have "typing [] (u\<lparr>inp_len := 0, t_input := (t_input t)[0 := CHR 0x00]\<rparr>)"
      using u(4) ty k(1) by (simp add: typing_def)
    moreover have "keypress (CHR 0x0A) t =
        Inr (Some (l @ [CHR 0x0A]), u\<lparr>inp_len := 0, t_input := (t_input t)[0 := CHR 0x00]\<rparr>)"
      using copy d u(1) ret ty k(2) \<open>length (t_input t) = 256\<close> by (simp add: keypress_def key_enter_def ESC_def)
    ultimately show ?thesis using True keeps_fresh [OF u(2)] by simp
  qed
qed

section \<open>Colours stay in the table\<close>

definition hue :: "u8 \<Rightarrow> bool" where
  "hue c \<longleftrightarrow> drop_bit 4 c < 8 \<and> c AND 0xf < 8"

definition hued :: "terminal \<Rightarrow> bool" where
  "hued t \<longleftrightarrow> col_f t < 8 \<and> col_b t < 8 \<and> (\<forall>c \<in> set (t_color t). hue c)"

lemma hue_pair:
  assumes "f < 8" and "b < 8"
  shows "hue (push_bit 4 f OR b)"
proof -
  have small: "x \<in> {0, 1, 2, 3, 4, 5, 6, 7}" if "x < 8" for x :: u8
  proof -
    have "unat x < 8" using that by (simp add: word_less_nat_alt)
    then have "unat x \<in> {0, 1, 2, 3, 4, 5, 6, 7}" by auto
    then show ?thesis by (auto simp: word_unat_eq_iff)
  qed
  show ?thesis using small [OF assms(1)] small [OF assms(2)] by (auto simp: hue_def)
qed

lemma hued_simps [simp]:
  "hued (t\<lparr>t_buf := x1\<rparr>) = hued t" "hued (t\<lparr>t_dirty := x2\<rparr>) = hued t" "hued (t\<lparr>t_input := x3\<rparr>) = hued t"
  "hued (t\<lparr>t_cooked := x3\<rparr>) = hued t" "hued (t\<lparr>inp_len := i\<rparr>) = hued t" "hued (t\<lparr>t_mode := md\<rparr>) = hued t"
  "hued (t\<lparr>cur_x := i\<rparr>) = hued t" "hued (t\<lparr>cur_y := i\<rparr>) = hued t" "hued (t\<lparr>saved_x := i\<rparr>) = hued t"
  "hued (t\<lparr>saved_y := i\<rparr>) = hued t"
  by (simp_all add: hued_def)

lemma putch_hued: "term_putch x y ch t = Inr t' \<Longrightarrow> hued t \<Longrightarrow> hued t'"
  using set_update_subset_insert by (fastforce simp: term_putch_def rbind_eq_Inr_iff rput_eq_Inr_iff hued_def hue_pair)

lemma putch_loop_hued: "rfold (\<lambda>i. term_putch (f i) (g i) ch) is t = Inr t' \<Longrightarrow> hued t \<Longrightarrow> hued t'"
  by (erule rfold_invariant [where P = hued]) (auto dest: putch_hued)

lemma fill_empty_hued: "fill_empty t = Inr t' \<Longrightarrow> hued t \<Longrightarrow> hued t'"
  unfolding fill_empty_def by (erule rfold_invariant [where P = hued]) (auto dest: putch_loop_hued)

lemma scroll_up_hued:
  assumes "scroll_up t = Inr t'" and "hued t"
  shows "hued t'"
proof -
  obtain b c u d where c: "move_down (t_w t) (t_w t * (t_h t - 1)) (t_color t) = Inr c"
    and u: "rfold (\<lambda>i. term_putch (int i) (t_h t - 1) EMPTY) [0..<nat (t_w t)] (t\<lparr>t_buf := b, t_color := c\<rparr>) = Inr u"
    and t': "t' = u\<lparr>t_dirty := d\<rparr>"
    using assms(1) by (auto simp: scroll_up_def rbind_eq_Inr_iff)
  have "set c \<subseteq> set (t_color t)"
    using c by (auto simp: move_down_def split: if_splits) (meson in_set_dropD in_set_takeD)+
  then have "hued (t\<lparr>t_buf := b, t_color := c\<rparr>)" using assms(2) by (auto simp: hued_def)
  then show ?thesis using putch_loop_hued [OF u] t' by simp
qed

lemma write_char_hued: "write_char ch t = Inr t' \<Longrightarrow> hued t \<Longrightarrow> hued t'"
  by (auto simp: write_char_def new_line_def move_one_def Let_def rbind_eq_Inr_iff
      dest!: scroll_up_hued putch_hued split: if_splits)

lemma set_attr_hued [simp]: "hued t \<Longrightarrow> hued (set_attr a t)"
  by (simp add: set_attr_def hued_def BLACK_def RED_def GREEN_def YELLOW_def BLUE_def MAGENTA_def CYAN_def WHITE_def)

lemma handler_hued: "(p, h) \<in> set esc_seqs \<Longrightarrow> h args t = Inr t' \<Longrightarrow> hued t \<Longrightarrow> hued t'"
  by (auto simp: esc_seqs_def esc_move_def esc_movefirst_def esc_moveup_def esc_movedown_def esc_moveleft_def
      esc_moveright_def esc_save_def esc_restore_def esc_setattr1_def esc_setattr2_def esc_setattr3_def
      esc_rawmode_def esc_cookmode_def esc_clear_def esc_erase_def rbind_eq_Inr_iff dest!: fill_empty_hued putch_loop_hued)

lemma find_seq_handler: "find_seq ps s c = Inr (Some (m, bs, h)) \<Longrightarrow> \<exists>p. (p, h) \<in> set ps"
  by (induction ps s c rule: find_seq.induct) (fastforce simp: rbind_eq_Inr_iff split: option.splits)+

lemma write_escape_hued: "write_escape s c t = Inr (n, t') \<Longrightarrow> hued t \<Longrightarrow> hued t'"
proof -
  assume run: "write_escape s c t = Inr (n, t')" and t: "hued t"
  then obtain r where r: "find_seq esc_seqs s c = Inr r" by (auto simp: write_escape_def rbind_eq_Inr_iff)
  show "hued t'"
  proof (cases r)
    case None
    then show ?thesis using run r t by (simp add: write_escape_def)
  next
    case (Some q)
    then obtain m bs h where q: "r = Some (m, bs, h)" by (cases q) auto
    then obtain p where p: "(p, h) \<in> set esc_seqs" using r find_seq_handler by blast
    obtain u where "h bs t = Inr u" "t' = clamp_cursor u"
      using run r q by (auto simp: write_escape_def rbind_eq_Inr_iff)
    then show ?thesis using handler_hued [OF p _ t] by (simp add: clamp_cursor_def)
  qed
qed

lemma term_write_hued: "term_write s c t = Inr t' \<Longrightarrow> hued t \<Longrightarrow> hued t'"
proof (induction s c t rule: term_write.induct)
  case (1 s count t)
  note prem = 1(3) [unfolded term_write.simps [of s count t]]
  show ?case
  proof (cases "count = 0 \<or> s = []")
    case True
    then show ?thesis using prem 1(4) by (auto split: if_splits)
  next
    case False
    then obtain ch r where s: "s = ch # r" by (cases s) auto
    consider "ch = CHR 0x00" | "ch \<noteq> CHR 0x00" "ch = ESC" | "ch \<noteq> CHR 0x00" "ch \<noteq> ESC" by blast
    then show ?thesis
    proof cases
      case 1
      then show ?thesis using prem 1 \<open>hued t\<close> s False by simp
    next
      case 2
      then obtain n u where u: "write_escape s count t = Inr (n, u)" "term_write (drop n s) (count - of_nat n) u = Inr t'"
        using prem False s by (auto simp: rbind_eq_Inr_iff)
      show ?thesis using "1.IH"(1) [OF _ s 2(1,2) u(1) refl u(2)] False write_escape_hued [OF u(1) \<open>hued t\<close>] by simp
    next
      case 3
      then obtain u where u: "write_char ch t = Inr u" "term_write r (count - 1) u = Inr t'"
        using prem False s by (auto simp: rbind_eq_Inr_iff)
      show ?thesis using "1.IH"(2) [OF _ s 3 u] False write_char_hued [OF u(1) \<open>hued t\<close>] by simp
    qed
  qed
qed

lemma backspace_hued: "backspace t = Inr t' \<Longrightarrow> hued t \<Longrightarrow> hued t'"
  by (auto simp: backspace_def Let_def rbind_eq_Inr_iff split: if_splits)

lemma keypress_hued: "keypress k t = Inr (ret, t') \<Longrightarrow> hued t \<Longrightarrow> hued t'"
  by (auto simp: keypress_def key_enter_def key_back_def key_plain_def rbind_eq_Inr_iff
      dest!: term_write_hued backspace_hued split: if_splits term_mode.splits)

section \<open>A new terminal\<close>

lemma terminal_new_run:
  assumes "0 < w" "w < 2 ^ 15" "0 < h" "h < 2 ^ 15"
  shows "\<exists>t. terminal_new heap w h = Inr t \<and> typing [] t \<and> hued t \<and> t_w t = w \<and> t_h t = h \<and> list_all id (t_dirty t) \<and>
    teletype_of t = (replicate (nat h) (replicate (nat w) EMPTY), 0, 0)"
proof -
  let ?cells = "[0..<nat (w * h)]"
  let ?t = "\<lparr>t_buf = map (fst \<circ> heap) ?cells, t_color = map (fst \<circ> snd \<circ> heap) ?cells,
        t_dirty = map (snd \<circ> snd \<circ> heap) ?cells,
        t_input = (map (fst \<circ> heap) [0..<256])[0 := CHR 0x00], t_cooked = map (fst \<circ> heap) [0..<256], inp_len = 0,
        t_mode = Cook_mode, t_w = w, t_h = h, cur_x = 0, cur_y = 0, saved_x = 0, saved_y = 0,
        col_f = BLACK, col_b = WHITE\<rparr>"
  have "shaped ?t" using assms by (simp add: shaped_def on_screen_def)
  from fill_empty_run [OF this] obtain t where t: "fill_empty ?t = Inr t" "keeps ?t t" "shaped t" "cur_x t = 0" "cur_y t = 0"
      "t_mode t = Cook_mode" "\<forall>k < nat (w * h). t_buf t ! k = EMPTY \<and> t_color t ! k = push_bit 4 BLACK OR WHITE \<and> t_dirty t ! k"
      "col_f t = BLACK" "col_b t = WHITE" by auto
  have d: "t_w t = w" "t_h t = h" "t_input t = t_input ?t" "t_cooked t = t_cooked ?t" "inp_len t = 0"
    using t(2) by (simp_all add: keeps_def)
  have "grid t = replicate (nat h) (replicate (nat w) EMPTY)"
  proof (rule grid_eqI)
    fix x y assume xy: "x < nat (t_w t)" "y < nat (t_h t)"
    then have on: "on_screen t (int x) (int y)" by (auto simp: on_screen_def)
    then have "nat (cell_at t (int x) (int y)) < nat (w * h)" using cell_bounds [OF on] d by simp
    then show "replicate (nat h) (replicate (nat w) EMPTY) ! y ! x = t_buf t ! nat (cell_at t (int x) (int y))"
      using t(7) xy d by simp
  qed (use d in simp_all)
  moreover have "hued t"
  proof -
    have "length (t_color t) = nat (w * h)" using t(2) by (simp add: keeps_def)
    moreover have "hue (push_bit 4 BLACK OR WHITE)" by (rule hue_pair) (simp_all add: BLACK_def WHITE_def)
    ultimately have "\<forall>c \<in> set (t_color t). hue c" using t(7) by (auto simp: in_set_conv_nth)
    then show ?thesis using t(8,9) by (simp add: hued_def BLACK_def WHITE_def)
  qed
  moreover have "typing [] t" using t d assms by (simp add: typing_def term_ok_def on_screen_def del: upt.simps)
  moreover have "list_all id (t_dirty t)"
    using t(2,7) by (simp add: keeps_def list_all_length)
  ultimately show ?thesis using t(1,4,5) d by (simp add: terminal_new_def Let_def teletype_of_def)
qed

section \<open>What the terminal does\<close>

text \<open>C26: Text without control sequences appears as on a teletype: the screen after it is that of the
  abstract machine that puts characters, goes to the next line and scrolls.\<close>

theorem terminal_text:
  assumes "set s \<inter> {CHR 0x00, CHR 0x09, ESC} = {}" and "term_ok t" and "length s < 2 ^ 64"
  shows "\<exists>t'. term_write (s @ r) (of_nat (length s)) t = Inr t' \<and> term_ok t' \<and>
    teletype_of t' = fold (tt_char (nat (t_w t))) s (teletype_of t)"
  using term_write_plain [OF assms] by blast

abbreviation small_screen :: "terminal res" where
  "small_screen \<equiv> terminal_new (\<lambda>_. (CHR ''?'', 0, False)) 4 2"

lemma small_screen:
  "\<exists>t. small_screen = Inr t \<and> typing [] t \<and> term_ok t \<and> t_w t = 4 \<and> t_h t = 2 \<and>
     teletype_of t = ([''    '', ''    ''], 0, 0)"
  using terminal_new_run [of 4 2 "\<lambda>_. (CHR ''?'', 0, False)"] typing_facts(1)
  by (auto simp: EMPTY_def numeral_eq_Suc)

lemma terminal_text_witness:
  "\<exists>t t'. small_screen = Inr t \<and> term_write (''abcdef'' @ [CHR 0x0A] @ ''g'') 8 t = Inr t' \<and>
     teletype_of t' = ([''ef  '', ''g   ''], 1, 1)"
proof -
  obtain t where t: "small_screen = Inr t" "term_ok t" "t_w t = 4" "teletype_of t = ([''    '', ''    ''], 0, 0)"
    using small_screen by blast
  have "fold (tt_char 4) (''abcdef'' @ [CHR 0x0A] @ ''g'') ([''    '', ''    ''], 0, 0) = ([''ef  '', ''g   ''], 1, 1)"
    by (simp add: tt_char_def tt_down_def EMPTY_def numeral_eq_Suc)
  moreover have "\<exists>t'. term_write (''abcdef'' @ [CHR 0x0A] @ ''g'') 8 t = Inr t' \<and> term_ok t' \<and>
      teletype_of t' = fold (tt_char 4) (''abcdef'' @ [CHR 0x0A] @ ''g'') ([''    '', ''    ''], 0, 0)"
    using terminal_text [of "''abcdef'' @ [CHR 0x0A] @ ''g''" t "[]"] t by (simp add: ESC_def)
  ultimately show ?thesis using t(1) by metis
qed

text \<open>C29: No text without tabulators, whatever escape sequences or parts of them it holds, makes the
  terminal write outside its arrays or leave the screen, and the line being typed is not touched.\<close>

theorem terminal_safe:
  assumes "CHR 0x00 \<notin> set s" and "CHR 0x09 \<notin> set s" and "term_ok t" and "length s < 2 ^ 64"
  shows "\<exists>t'. term_write (s @ CHR 0x00 # r) (of_nat (length s)) t = Inr t' \<and> term_ok t' \<and>
    t_w t' = t_w t \<and> t_h t' = t_h t \<and> t_input t' = t_input t \<and> inp_len t' = inp_len t"
  using term_write_run [OF assms] by (auto simp: keeps_def)

lemma terminal_safe_witness:
  "\<exists>t t'. small_screen = Inr t \<and>
     term_write ((ESC # ''[77;99Hab'' @ [ESC, ESC] @ ''[;'') @ [CHR 0x00]) 14 t = Inr t' \<and> term_ok t'"
proof -
  obtain t where t: "small_screen = Inr t" "term_ok t" using small_screen by blast
  have "\<exists>t'. term_write ((ESC # ''[77;99Hab'' @ [ESC, ESC] @ ''[;'') @ [CHR 0x00]) 14 t = Inr t' \<and> term_ok t' \<and>
      t_w t' = t_w t \<and> t_h t' = t_h t \<and> t_input t' = t_input t \<and> inp_len t' = inp_len t"
    using terminal_safe [of "ESC # ''[77;99Hab'' @ [ESC, ESC] @ ''[;''" t "[]"] t(2) by (simp add: ESC_def)
  then show ?thesis using t(1) by blast
qed

text \<open>A tabulator moves the cursor off the screen: on the last line the next character is written
  behind the arrays.\<close>

lemma tab_overrun:
  assumes "term_ok t" and "cur_y t = t_h t - 1" and "t_w t - 4 \<le> cur_x t"
  shows "term_write ([CHR 0x09, CHR ''x''] @ r) 2 t = Inl Out_of_bounds"
proof -
  have b: "0 \<le> cur_x t" "cur_x t < 2 ^ 15" and len: "length (t_buf t) = nat (t_w t * t_h t)"
    using assms(1) by (auto simp: term_ok_def shaped_def on_screen_def)
  have w: "wrap32 (cur_x t + 4) = cur_x t + 4" using b by (auto intro!: wrap32_small)
  have "t_w t * t_h t \<le> cell_at t (cur_x t + 4) (t_h t - 1)" using assms(3) by (simp add: cell_at_def algebra_simps)
  then have "rput (t_buf t) (cell_at t (cur_x t + 4) (t_h t - 1)) (CHR ''x'') = Inl Out_of_bounds"
    using len by (auto simp: rput_def)
  then have "write_char (CHR ''x'') (t\<lparr>cur_x := cur_x t + 4\<rparr>) = Inl Out_of_bounds"
    using assms(2) by (simp add: write_char_def term_putch_def cell_at_def)
  then show ?thesis using w by (simp add: term_write.simps write_char_def ESC_def)
qed

text \<open>C30: Every escape sequence of the table, with any numbers in decimal, is recognised: it is consumed
  entirely, its handler gets the numbers, and the cursor is put back on the screen.\<close>

theorem escape_recognised:
  assumes "(p, h) \<in> set esc_seqs" and "length as = count_list p CHR ''#''" and "\<forall>a \<in> set as. a < 2 ^ 31"
    and "length (fill_seq p as) + n < 2 ^ 64"
  shows "term_write (fill_seq p as @ s) (of_nat (length (fill_seq p as) + n)) t =
    rbind (h (map int as) t) (\<lambda>t. term_write s (of_nat n) (clamp_cursor t))"
proof -
  let ?f = "fill_seq p as"
  have f: "\<exists>q. ?f = ESC # q" using assms(1) by (auto simp: esc_seqs_def ESC_def)
  then have pos: "0 < length ?f" by auto
  have "unat (of_nat (length ?f + n) :: u64) = length ?f + n"
    using assms(4) by (simp only: unat_of_nat) simp
  then have find: "find_seq esc_seqs (?f @ s) (of_nat (length ?f + n)) = Inr (Some (length ?f, map int as, h))"
    using find_filled [OF assms(1-3)] by simp
  obtain N :: u64 where N: "N = of_nat (length ?f + n)" "N \<noteq> 0"
    using of_nat_u64_nonzero [of "length ?f + n"] pos assms(4) by blast
  obtain q where q: "?f @ s = ESC # q" using f by auto
  have "term_write (?f @ s) N t =
      rbind (write_escape (?f @ s) N t) (\<lambda>(m, t). term_write (drop m (?f @ s)) (N - of_nat m) t)"
    unfolding q using N(2) by (subst term_write.simps) (simp add: ESC_def)
  then have "term_write (?f @ s) (of_nat (length ?f + n)) t =
      rbind (write_escape (?f @ s) (of_nat (length ?f + n)) t)
        (\<lambda>(m, t). term_write (drop m (?f @ s)) (of_nat (length ?f + n) - of_nat m) t)"
    using N(1) by simp
  also have "\<dots> = rbind (h (map int as) t) (\<lambda>t. term_write s (of_nat n) (clamp_cursor t))"
    unfolding write_escape_def find by (simp add: rbind_assoc)
  finally show ?thesis .
qed

lemma escape_recognised_witness:
  "\<exists>t t'. small_screen = Inr t \<and> term_write (ESC # ''[2;3H'') 6 t = Inr t' \<and> cur_x t' = 2 \<and> cur_y t' = 1"
proof -
  obtain t where t: "small_screen = Inr t" "t_w t = 4" "t_h t = 2" using small_screen by blast
  have f: "fill_seq (ESC # ''[#;#H'') [2, 3] = ESC # ''[2;3H''" by (simp add: dec.simps ESC_def) code_simp
  show ?thesis
    using escape_recognised [of "ESC # ''[#;#H''" esc_move "[2, 3]" 0 "[]" t] t unfolding f
    by (simp add: esc_seqs_def ESC_def term_write.simps esc_move_def clamp_cursor_def wrap32_small)
qed

definition type_keys :: "string \<Rightarrow> terminal \<Rightarrow> terminal res" where
  "type_keys ks t = rfold (\<lambda>k t. rbind (keypress k t) (\<lambda>r. Inr (snd r))) ks t"

lemma type_keys_run:
  "typing l t \<Longrightarrow> \<forall>k \<in> set ks. k \<noteq> CHR 0x09 \<and> k \<noteq> CHR 0x0A \<Longrightarrow>
     \<exists>t'. type_keys ks t = Inr t' \<and> typing (foldl edit_key l ks) t'"
proof (induction ks arbitrary: l t)
  case (Cons k ks)
  obtain t1 where "keypress k t = Inr (None, t1)" "typing (edit_key l k) t1" using type_key_run [of l t k] Cons.prems by auto
  then show ?case using Cons.IH [of "edit_key l k" t1] Cons.prems(2) by (simp add: type_keys_def)
qed (simp add: type_keys_def)

text \<open>In cooked mode Enter returns the line that editing the keys leaves, with backspace taking back a
  character and escape ignored, and starts an empty one; a line of 255 characters runs over the
  array it is copied to.\<close>

lemma typed_line:
  assumes "typing [] t" and "\<forall>k \<in> set ks. k \<noteq> CHR 0x09 \<and> k \<noteq> CHR 0x0A" and "l = foldl edit_key [] ks"
  shows "\<exists>t'. type_keys ks t = Inr t' \<and> t_input t' = l @ CHR 0x00 # drop (length l + 1) (t_input t') \<and>
    (if length l \<le> 254 then \<exists>t''. keypress (CHR 0x0A) t' = Inr (Some (l @ [CHR 0x0A]), t'') \<and> typing [] t''
     else keypress (CHR 0x0A) t' = Inl Out_of_bounds)"
proof -
  obtain t' where t': "type_keys ks t = Inr t'" "typing l t'" using type_keys_run [OF assms(1,2)] assms(3) by blast
  obtain r where "t_input t' = l @ CHR 0x00 # r" using typing_input [OF t'(2)] by blast
  then show ?thesis using t' enter_run [OF t'(2)] by (auto split: if_splits)
qed

lemma typed_line_witness:
  "\<exists>t t' t''. small_screen = Inr t \<and> type_keys (''lx'' @ [CHR 0x08] @ ''s'') t = Inr t' \<and>
     keypress (CHR 0x0A) t' = Inr (Some (''ls'' @ [CHR 0x0A]), t'')"
proof -
  obtain t where t: "small_screen = Inr t" "typing [] t" using small_screen by blast
  have "''ls'' = foldl edit_key [] (''lx'' @ [CHR 0x08] @ ''s'')" by (simp add: edit_key_def ESC_def)
  from typed_line [OF t(2) _ this] show ?thesis using t(1) by auto
qed

end
