(* ===== verification/App_Nterm.thy ===== *)
theory App_Nterm
  imports App_Screen Lib_Video
begin

text \<open>
  The program around the terminal of \<open>apps/nterm\<close>: keys and the refresh of the window
  (\<open>src/main.cpp\<close>) and the built-in shell (\<open>src/builtin-sh.cpp\<close>). The window is known by what was
  last drawn into each cell, since the font and its file are a parameter of the program.
\<close>

section \<open>Keys\<close>

definition SDLK :: "string \<Rightarrow> u8" where
  "SDLK name = of_nat (length (takeWhile (\<lambda>k. k \<noteq> name) (''NONE'' # KEYS)))"

text \<open>The table, with the letters from \<open>A\<close> to \<open>Z\<close>.\<close>

definition letter_entries :: "(string \<times> char \<times> char) list" where
  "letter_entries = map (\<lambda>(c, d). ([c], d, c)) (zip ''ABCDEFGHIJKLMNOPQRSTUVWXYZ'' ''abcdefghijklmnopqrstuvwxyz'')"

definition SHIFT :: "(string \<times> char \<times> char) list" where
  "SHIFT = [
     (''ESCAPE'', ESC, ESC), (''SPACE'', CHR '' '', CHR '' ''), (''RETURN'', CHR 0x0A, CHR 0x0A),
     (''BACKSPACE'', CHR 0x08, CHR 0x08), (''1'', CHR ''1'', CHR ''!''), (''2'', CHR ''2'', CHR ''@''),
     (''3'', CHR ''3'', CHR ''#''), (''4'', CHR ''4'', CHR ''$''), (''5'', CHR ''5'', CHR ''%''),
     (''6'', CHR ''6'', CHR ''^''), (''7'', CHR ''7'', CHR ''&''), (''8'', CHR ''8'', CHR ''*''),
     (''9'', CHR ''9'', CHR ''(''), (''0'', CHR ''0'', CHR '')''), (''GRAVE'', CHR 0x60, CHR ''~''),
     (''MINUS'', CHR ''-'', CHR ''_''), (''EQUALS'', CHR ''='', CHR ''+''), (''SEMICOLON'', CHR '';'', CHR '':''),
     (''APOSTROPHE'', CHR 0x27, CHR 0x22), (''LEFTBRACKET'', CHR ''['', CHR ''{''),
     (''RIGHTBRACKET'', CHR '']'', CHR ''}''), (''BACKSLASH'', CHR 0x5C, CHR ''|''),
     (''COMMA'', CHR '','', CHR ''<''), (''PERIOD'', CHR ''.'', CHR ''>''), (''SLASH'', CHR ''/'', CHR ''?'')] @ letter_entries"

definition nterm_key :: "key_event \<Rightarrow> bool \<Rightarrow> char \<times> bool" where
  "nterm_key ev shift =
     (if ev_sym ev = SDLK ''LSHIFT'' \<or> ev_sym ev = SDLK ''RSHIFT'' then (CHR 0x00, \<not> shift)
      else if ev_type ev = SDL_KEYDOWN
      then (case find (\<lambda>(n, a, b). SDLK n = ev_sym ev) SHIFT of
              Some (n, a, b) \<Rightarrow> (if shift then b else a, shift)
            | None \<Rightarrow> (CHR 0x00, shift))
      else (CHR 0x00, shift))"

section \<open>The window\<close>

definition nterm_W :: int where "nterm_W = 48"
definition nterm_H :: int where "nterm_H = 16"

record term_window =
  painted :: "int \<Rightarrow> int \<Rightarrow> (char \<times> u32 \<times> u32) option"
  w_last :: u32
  w_flip :: bool

definition draw_ch :: "int \<Rightarrow> int \<Rightarrow> char \<Rightarrow> u32 \<Rightarrow> u32 \<Rightarrow> term_window \<Rightarrow> term_window" where
  "draw_ch x y ch fg bg w = w\<lparr>painted := (painted w)(x := (painted w x)(y := Some (ch, fg, bg)))\<rparr>"

definition redraw_cell :: "terminal \<Rightarrow> int \<Rightarrow> int \<Rightarrow> bool \<times> term_window \<Rightarrow> (bool \<times> term_window) res" where
  "redraw_cell t i j = (\<lambda>(needsync, w).
     rbind (is_dirty i j t) (\<lambda>d.
       if d then rbind (term_getch i j t) (\<lambda>ch. rbind (foreground i j t) (\<lambda>fg. rbind (background i j t) (\<lambda>bg.
         Inr (True, draw_ch i j ch fg bg w))))
       else Inr (needsync, w)))"

definition draw_cursor :: "u32 \<Rightarrow> bool \<Rightarrow> terminal \<Rightarrow> term_window \<Rightarrow> term_window res" where
  "draw_cursor now needsync t w =
     (if now - w_last w > 500 \<or> needsync
      then rbind (if w_flip w then foreground (cur_x t) (cur_y t) t else background (cur_x t) (cur_y t) t) (\<lambda>c.
        let w = draw_ch (cur_x t) (cur_y t) (CHR '' '') 0 c w in
        Inr (if now - w_last w > 500 then w\<lparr>w_flip := \<not> w_flip w, w_last := now\<rparr> else w))
      else Inr w)"

definition refresh_terminal :: "u32 \<Rightarrow> terminal \<Rightarrow> term_window \<Rightarrow> (terminal \<times> term_window) res" where
  "refresh_terminal now t w =
     rbind (rfold (\<lambda>i. rfold (\<lambda>j. redraw_cell t (int i) (int j)) [0..<nat nterm_H]) [0..<nat nterm_W] (False, w)) (\<lambda>(needsync, w).
     rbind (term_clear t) (\<lambda>t. rbind (draw_cursor now needsync t w) (\<lambda>w. Inr (t, w))))"

section \<open>The built-in shell\<close>

text \<open>A call that ends the program: \<open>exit\<close>, or \<open>execvp\<close> of a name; if that returns an assertion fails.\<close>

datatype sh_end = Sh_exit | Sh_exec string

definition sh_printf :: "string \<Rightarrow> terminal \<Rightarrow> terminal res" where
  "sh_printf text t = term_write (text @ [CHR 0x00]) (of_nat (length text)) t"

definition sh_banner :: "terminal \<Rightarrow> terminal res" where
  "sh_banner = sh_printf (''Built-in Shell in NTerm (NJU Terminal)'' @ [CHR 0x0A, CHR 0x0A])"

definition sh_prompt :: "terminal \<Rightarrow> terminal res" where
  "sh_prompt = sh_printf ''sh> ''"

text \<open>The array has 30 characters; \<open>strcpy\<close> does not look. The command is cut at its first newline.\<close>

definition sh_handle_cmd :: "string \<Rightarrow> sh_end res" where
  "sh_handle_cmd cmd =
     rbind (rassert Out_of_bounds (length cmd < 30)) (\<lambda>_.
       let name = takeWhile (\<lambda>c. c \<noteq> CHR 0x0A) cmd in
       Inr (if name = ''exit'' then Sh_exit else Sh_exec name))"

record nterm =
  the_term :: terminal
  the_window :: term_window
  shift_down :: bool

definition sh_event :: "key_event option \<Rightarrow> nterm \<Rightarrow> (sh_end option \<times> nterm) res" where
  "sh_event ev s =
     (case ev of
        None \<Rightarrow> Inr (None, s)
      | Some ev \<Rightarrow>
          if ev_type ev = SDL_KEYUP \<or> ev_type ev = SDL_KEYDOWN
          then let (ch, sh) = nterm_key ev (shift_down s) in
               rbind (keypress ch (the_term s)) (\<lambda>(ret, t).
               let s = s\<lparr>the_term := t, shift_down := sh\<rparr> in
               case ret of None \<Rightarrow> Inr (None, s)
                 | Some cmd \<Rightarrow> rbind (sh_handle_cmd cmd) (\<lambda>e. Inr (Some e, s)))
          else Inr (None, s))"

text \<open>The loop over what is polled, with the ticks at each refresh.\<close>

fun sh_loop :: "(key_event option \<times> u32) list \<Rightarrow> nterm \<Rightarrow> (sh_end option \<times> nterm) res" where
  "sh_loop [] s = Inr (None, s)"
| "sh_loop ((ev, now) # evs) s =
     rbind (sh_event ev s) (\<lambda>(e, s).
       case e of Some e \<Rightarrow> Inr (Some e, s)
       | None \<Rightarrow> rbind (refresh_terminal now (the_term s) (the_window s)) (\<lambda>(t, w). sh_loop evs (s\<lparr>the_term := t, the_window := w\<rparr>)))"

definition builtin_sh_run :: "(key_event option \<times> u32) list \<Rightarrow> nterm \<Rightarrow> (sh_end option \<times> nterm) res" where
  "builtin_sh_run evs s =
     rbind (sh_banner (the_term s)) (\<lambda>t. rbind (sh_prompt t) (\<lambda>t. sh_loop evs (s\<lparr>the_term := t\<rparr>)))"

definition nterm_main :: "(nat \<Rightarrow> char \<times> u8 \<times> bool) \<Rightarrow> (key_event option \<times> u32) list \<Rightarrow> (sh_end option \<times> nterm) res" where
  "nterm_main heap evs =
     rbind (terminal_new heap nterm_W nterm_H) (\<lambda>t.
       builtin_sh_run evs \<lparr>the_term = t, the_window = \<lparr>painted = \<lambda>_ _. None, w_last = 0, w_flip = False\<rparr>, shift_down = False\<rparr>)"

section \<open>The window shows the screen\<close>

definition cell_shown :: "terminal \<Rightarrow> int \<Rightarrow> int \<Rightarrow> char \<times> u32 \<times> u32" where
  "cell_shown t x y = (let k = nat (cell_at t x y); c = t_color t ! k in
     (t_buf t ! k, term_colors ! unat (drop_bit 4 c), term_colors ! unat (c AND 0xf)))"

text \<open>Every cell that is not dirty is drawn as it is.\<close>

definition window_ok :: "terminal \<Rightarrow> term_window \<Rightarrow> bool" where
  "window_ok t w \<longleftrightarrow> (\<forall>x y. on_screen t x y \<and> \<not> t_dirty t ! nat (cell_at t x y) \<longrightarrow>
     painted w x y = Some (cell_shown t x y))"

lemma cell_in:
  assumes "shaped t" and "on_screen t x y"
  shows "nat (cell_at t x y) < length (t_dirty t)" "nat (cell_at t x y) < length (t_buf t)"
    "nat (cell_at t x y) < length (t_color t)" "0 \<le> cell_at t x y"
  using cell_bounds [OF assms(2)] assms(1) by (simp_all add: shaped_def)

lemma fresh_window:
  assumes "fresh t t'" and "shaped t" and "window_ok t w"
  shows "window_ok t' w"
proof -
  have on: "on_screen t' = on_screen t" "cell_at t' = cell_at t"
    using assms(1) by (auto simp: fresh_def on_screen_def cell_at_def fun_eq_iff)
  show ?thesis
    unfolding window_ok_def
  proof (intro allI impI, elim conjE)
    fix x y assume xy: "on_screen t' x y" and clean: "\<not> t_dirty t' ! nat (cell_at t' x y)"
    have "nat (cell_at t x y) < length (t_dirty t)" using cell_in [OF assms(2)] xy unfolding on by blast
    then have "\<not> t_dirty t ! nat (cell_at t x y) \<and> t_buf t' ! nat (cell_at t x y) = t_buf t ! nat (cell_at t x y) \<and>
        t_color t' ! nat (cell_at t x y) = t_color t ! nat (cell_at t x y)"
      using assms(1) clean unfolding on by (simp add: fresh_def)
    then show "painted w x y = Some (cell_shown t' x y)"
      using assms(3) xy unfolding window_ok_def cell_shown_def on by simp
  qed
qed

lemma length_colors: "length term_colors = 8"
  by (simp add: term_colors_def)

lemma colours_run:
  assumes "shaped t" and "hued t" and "on_screen t x y"
  shows "term_getch x y t = Inr (fst (cell_shown t x y))"
    and "foreground x y t = Inr (fst (snd (cell_shown t x y)))" and "background x y t = Inr (snd (snd (cell_shown t x y)))"
proof -
  note k = cell_in [OF assms(1,3)]
  have "hue (t_color t ! nat (cell_at t x y))" using assms(2) k by (simp add: hued_def)
  then have "unat (drop_bit 4 (t_color t ! nat (cell_at t x y))) < 8" "unat (t_color t ! nat (cell_at t x y) AND 0xf) < 8"
    by (simp_all add: hue_def word_less_nat_alt)
  then show "term_getch x y t = Inr (fst (cell_shown t x y))"
    "foreground x y t = Inr (fst (snd (cell_shown t x y)))" "background x y t = Inr (snd (snd (cell_shown t x y)))"
    using k by (simp_all add: term_getch_def foreground_def background_def cell_shown_def Let_def length_colors)
qed

lemma redraw_cell_run:
  assumes "shaped t" and "hued t" and "on_screen t x y"
  shows "redraw_cell t x y (n, w) = Inr (if t_dirty t ! nat (cell_at t x y)
    then (True, w\<lparr>painted := (painted w)(x := (painted w x)(y := Some (cell_shown t x y)))\<rparr>) else (n, w))"
  using colours_run [OF assms] cell_in [OF assms(1,3)]
  by (simp add: redraw_cell_def is_dirty_def draw_ch_def)

lemma redraw_run:
  assumes "shaped t" and "hued t" and "\<forall>p \<in> set ps. on_screen t (int (fst p)) (int (snd p))"
  shows "\<exists>n' w'. rfold (\<lambda>p. redraw_cell t (int (fst p)) (int (snd p))) ps (n, w) = Inr (n', w') \<and>
    w_last w' = w_last w \<and> w_flip w' = w_flip w \<and>
    (\<forall>x y. painted w' x y = (if (\<exists>p \<in> set ps. x = int (fst p) \<and> y = int (snd p)) \<and> t_dirty t ! nat (cell_at t x y)
       then Some (cell_shown t x y) else painted w x y))"
  using assms(3)
proof (induction ps arbitrary: n w)
  case (Cons p ps)
  let ?r = "if t_dirty t ! nat (cell_at t (int (fst p)) (int (snd p)))
    then (True, w\<lparr>painted := (painted w)(int (fst p) := (painted w (int (fst p)))(int (snd p) := Some (cell_shown t (int (fst p)) (int (snd p)))))\<rparr>)
    else (n, w)"
  have "redraw_cell t (int (fst p)) (int (snd p)) (n, w) = Inr ?r"
    using redraw_cell_run [OF assms(1,2)] Cons.prems by simp
  moreover obtain n1 w1 where r: "?r = (n1, w1)" by (cases ?r)
  ultimately have step: "redraw_cell t (int (fst p)) (int (snd p)) (n, w) = Inr (n1, w1)" by simp
  have w1: "w_last w1 = w_last w" "w_flip w1 = w_flip w"
    "painted w1 x y = (if (x = int (fst p) \<and> y = int (snd p)) \<and> t_dirty t ! nat (cell_at t x y)
       then Some (cell_shown t x y) else painted w x y)" for x y
    using r by (auto split: if_splits)
  obtain n' w' where "rfold (\<lambda>p. redraw_cell t (int (fst p)) (int (snd p))) ps (n1, w1) = Inr (n', w')"
      "w_last w' = w_last w1" "w_flip w' = w_flip w1"
      "\<forall>x y. painted w' x y = (if (\<exists>p \<in> set ps. x = int (fst p) \<and> y = int (snd p)) \<and> t_dirty t ! nat (cell_at t x y)
       then Some (cell_shown t x y) else painted w1 x y)"
    using Cons.IH [of n1 w1] Cons.prems by auto
  then show ?case using step w1 by (intro exI [of _ n'] exI [of _ w']) auto
qed simp

lemma term_clear_run:
  assumes "term_ok t"
  shows "\<exists>d. term_clear t = Inr (t\<lparr>t_dirty := d\<rparr>) \<and> length d = length (t_dirty t) \<and>
    (\<forall>k < length d. d ! k \<longleftrightarrow> k = nat (cell_at t (cur_x t) (cur_y t)))"
proof -
  have sh: "shaped t" and on: "on_screen t (cur_x t) (cur_y t)" using assms by (simp_all add: term_ok_def)
  have n: "nat (t_w t * t_h t) = length (t_dirty t)" using sh by (simp add: shaped_def)
  let ?d = "(replicate (length (t_dirty t)) False)[nat (cell_at t (cur_x t) (cur_y t)) := True]"
  have "term_clear t = Inr (t\<lparr>t_dirty := ?d\<rparr>)"
    using cell_in [OF sh on] set_all_run [OF n, of False] by (simp add: term_clear_def n)
  then show ?thesis by (intro exI [of _ ?d]) (auto simp: nth_update)
qed

lemma draw_cursor_run:
  assumes "shaped t" and "hued t" and "on_screen t (cur_x t) (cur_y t)"
  shows "\<exists>w'. draw_cursor now n t w = Inr w' \<and>
    (\<forall>x y. (x, y) \<noteq> (cur_x t, cur_y t) \<longrightarrow> painted w' x y = painted w x y)"
proof -
  obtain c where c: "(if w_flip w then foreground (cur_x t) (cur_y t) t else background (cur_x t) (cur_y t) t) = Inr c"
    using colours_run [OF assms] by (cases "w_flip w") simp_all
  show ?thesis unfolding draw_cursor_def c by (auto simp: draw_ch_def Let_def)
qed

text \<open>A refresh draws every cell but that of the cursor as it is.\<close>

definition shows_screen :: "terminal \<Rightarrow> term_window \<Rightarrow> bool" where
  "shows_screen t w \<longleftrightarrow> (\<forall>x y. on_screen t x y \<and> (x, y) \<noteq> (cur_x t, cur_y t) \<longrightarrow>
     painted w x y = Some (cell_shown t x y))"

lemma refresh_run:
  assumes "typing l t" and "hued t" and "t_w t = nterm_W" "t_h t = nterm_H" and "window_ok t w"
  shows "\<exists>t' w'. refresh_terminal now t w = Inr (t', w') \<and> typing l t' \<and> hued t' \<and>
    t_w t' = nterm_W \<and> t_h t' = nterm_H \<and> window_ok t' w' \<and> shows_screen t' w' \<and> teletype_of t' = teletype_of t"
proof -
  have ok: "term_ok t" and sh: "shaped t" and on: "on_screen t (cur_x t) (cur_y t)"
    using typing_facts(1) [OF assms(1)] by (simp_all add: term_ok_def)
  let ?ps = "List.product [0..<nat nterm_W] [0..<nat nterm_H]"
  have ps: "(\<exists>p \<in> set ?ps. x = int (fst p) \<and> y = int (snd p)) \<longleftrightarrow> on_screen t x y" for x y
  proof
    assume "on_screen t x y"
    then have "(nat x, nat y) \<in> set ?ps \<and> x = int (nat x) \<and> y = int (nat y)"
      using assms(3,4) by (simp add: on_screen_def)
    then show "\<exists>p \<in> set ?ps. x = int (fst p) \<and> y = int (snd p)" by (metis fst_conv snd_conv)
  next
    assume "\<exists>p \<in> set ?ps. x = int (fst p) \<and> y = int (snd p)"
    then show "on_screen t x y" using assms(3,4) by (auto simp: on_screen_def)
  qed
  have in_: "\<forall>p \<in> set ?ps. on_screen t (int (fst p)) (int (snd p))" using ps by blast
  obtain n w1 where w1: "rfold (\<lambda>p. redraw_cell t (int (fst p)) (int (snd p))) ?ps (False, w) = Inr (n, w1)"
      "\<forall>x y. painted w1 x y = (if on_screen t x y \<and> t_dirty t ! nat (cell_at t x y) then Some (cell_shown t x y) else painted w x y)"
    using redraw_run [OF sh assms(2) in_, of False w] unfolding ps by blast
  have all: "on_screen t x y \<Longrightarrow> painted w1 x y = Some (cell_shown t x y)" for x y
    using w1(2) assms(5) by (simp add: window_ok_def)
  obtain d where d: "term_clear t = Inr (t\<lparr>t_dirty := d\<rparr>)" "length d = length (t_dirty t)"
      "\<forall>k < length d. d ! k \<longleftrightarrow> k = nat (cell_at t (cur_x t) (cur_y t))"
    using term_clear_run [OF ok] by blast
  let ?t = "t\<lparr>t_dirty := d\<rparr>"
  have t: "on_screen ?t = on_screen t" "cell_at ?t = cell_at t" "hued ?t" "shaped ?t" "cell_shown ?t = cell_shown t"
    using assms(2) sh d(2) by (auto simp: on_screen_def cell_at_def cell_shown_def shaped_def fun_eq_iff Let_def)
  have ty: "typing l ?t" using assms(1) t(1,4) by (simp add: typing_def term_ok_def)
  have on': "on_screen ?t (cur_x ?t) (cur_y ?t)" using on t(1) by simp
  from draw_cursor_run [OF t(4,3) this, of now n w1] obtain w2 where w2: "draw_cursor now n ?t w1 = Inr w2"
      "\<forall>x y. (x, y) \<noteq> (cur_x ?t, cur_y ?t) \<longrightarrow> painted w2 x y = painted w1 x y" by blast
  have shows_: "shows_screen ?t w2" using w2(2) all unfolding shows_screen_def t(1,5) by simp
  have "window_ok ?t w2"
    unfolding window_ok_def
  proof (intro allI impI, elim conjE)
    fix x y assume xy: "on_screen ?t x y" and clean: "\<not> t_dirty ?t ! nat (cell_at ?t x y)"
    have "d ! nat (cell_at t (cur_x t) (cur_y t))" using d(2,3) cell_in [OF sh on] by simp
    then have "(x, y) \<noteq> (cur_x ?t, cur_y ?t)" using clean unfolding t(2) by auto
    then show "painted w2 x y = Some (cell_shown ?t x y)" using shows_ xy unfolding shows_screen_def by blast
  qed
  moreover have "teletype_of ?t = teletype_of t" using grid_cong [of ?t t] by (simp add: teletype_of_def)
  moreover have "refresh_terminal now t w = Inr (?t, w2)"
    using w1(1) d(1) w2(1) by (simp add: refresh_terminal_def rfold_product)
  moreover have "t_w ?t = nterm_W" "t_h ?t = nterm_H" using assms(3,4) by simp_all
  ultimately show ?thesis using ty t(3) shows_ by blast
qed

section \<open>The shell\<close>

text \<open>The characters of a list of events, those of no character as zeros.\<close>

fun typed :: "(key_event option \<times> u32) list \<Rightarrow> bool \<Rightarrow> string" where
  "typed [] sh = []"
| "typed ((None, now) # evs) sh = typed evs sh"
| "typed ((Some ev, now) # evs) sh =
     (if ev_type ev = SDL_KEYUP \<or> ev_type ev = SDL_KEYDOWN
      then fst (nterm_key ev sh) # typed evs (snd (nterm_key ev sh)) else typed evs sh)"

text \<open>No key is a tabulator, which the screen could not take.\<close>

lemma nterm_key_no_tab: "fst (nterm_key ev sh) \<noteq> CHR 0x09"
proof -
  have "\<forall>(n, a, b) \<in> set SHIFT. a \<noteq> CHR 0x09 \<and> b \<noteq> CHR 0x09" by code_simp
  moreover have "e \<in> set SHIFT" if "find P SHIFT = Some e" for P e using that by (auto simp: find_Some_iff)
  ultimately have found: "a \<noteq> CHR 0x09" "b \<noteq> CHR 0x09" if "find P SHIFT = Some (n, a, b)" for P n a b
    using that by blast+
  show ?thesis
  proof (cases "find (\<lambda>(n, a, b). SDLK n = ev_sym ev) SHIFT")
    case None
    then show ?thesis by (simp add: nterm_key_def)
  next
    case (Some e)
    then show ?thesis using found by (cases e) (simp add: nterm_key_def)
  qed
qed

text \<open>The shell while a line is typed: the window is up to date but for the cells that are dirty.\<close>

definition sh_ok :: "string \<Rightarrow> nterm \<Rightarrow> bool" where
  "sh_ok l s \<longleftrightarrow> typing l (the_term s) \<and> hued (the_term s) \<and> t_w (the_term s) = nterm_W \<and>
     t_h (the_term s) = nterm_H \<and> window_ok (the_term s) (the_window s)"

lemma typing_shaped: "typing l t \<Longrightarrow> shaped t"
  by (simp add: typing_def term_ok_def)

lemma sh_event_run:
  assumes "sh_ok l s" and "typed [(ev, now)] (shift_down s) = ks" and "CHR 0x0A \<notin> set ks"
  shows "\<exists>s'. sh_event ev s = Inr (None, s') \<and> sh_ok (foldl edit_key l ks) s' \<and>
    (\<forall>evs. typed ((ev, now) # evs) (shift_down s) = ks @ typed evs (shift_down s'))"
proof (cases ev)
  case None
  then show ?thesis using assms by (auto simp: sh_event_def)
next
  case (Some e)
  show ?thesis
  proof (cases "ev_type e = SDL_KEYUP \<or> ev_type e = SDL_KEYDOWN")
    case False
    then show ?thesis using assms Some by (auto simp: sh_event_def)
  next
    case True
    obtain k sh where k: "nterm_key e (shift_down s) = (k, sh)" by (cases "nterm_key e (shift_down s)")
    have ks: "ks = [k]" using assms(2) Some True k by auto
    have "k \<noteq> CHR 0x09" using nterm_key_no_tab [of e "shift_down s"] k by simp
    then obtain t' where t': "keypress k (the_term s) = Inr (None, t')" "typing (edit_key l k) t'" "fresh (the_term s) t'"
      using type_key_run [of l "the_term s" k] assms(1,3) ks by (auto simp: sh_ok_def)
    have "sh_ok (edit_key l k) (s\<lparr>the_term := t', shift_down := sh\<rparr>)"
      using assms(1) t' fresh_window [OF t'(3)] keypress_hued [OF t'(1)] typing_shaped
      by (auto simp: sh_ok_def fresh_def)
    then show ?thesis using Some True k ks t'(1) by (auto simp: sh_event_def)
  qed
qed

lemma typed_Cons: "\<exists>sh'. \<forall>es. typed ((ev, now) # es) sh = typed [(ev, now)] sh @ typed es sh'"
  by (cases ev) auto

lemma sh_loop_run:
  assumes "sh_ok l s" and "CHR 0x0A \<notin> set (typed evs (shift_down s))"
  shows "\<exists>s'. sh_loop evs s = Inr (None, s') \<and> sh_ok (foldl edit_key l (typed evs (shift_down s))) s' \<and>
    (evs \<noteq> [] \<longrightarrow> shows_screen (the_term s') (the_window s')) \<and>
    (\<forall>es. sh_loop (evs @ es) s = sh_loop es s' \<and> typed (evs @ es) (shift_down s) = typed evs (shift_down s) @ typed es (shift_down s'))"
  using assms
proof (induction evs arbitrary: l s)
  case Nil
  then show ?case by simp
next
  case (Cons e evs)
  obtain ev now where e: "e = (ev, now)" by (cases e)
  let ?ks = "typed [(ev, now)] (shift_down s)"
  obtain sh' where "\<forall>es. typed ((ev, now) # es) (shift_down s) = ?ks @ typed es sh'"
    using typed_Cons by blast
  then have "typed (e # evs) (shift_down s) = ?ks @ typed evs sh'" unfolding e by blast
  then have nl: "CHR 0x0A \<notin> set ?ks" using Cons.prems(2) by (simp only: set_append Un_iff) blast
  obtain s1 where s1: "sh_event ev s = Inr (None, s1)" "sh_ok (foldl edit_key l ?ks) s1"
      "\<forall>evs. typed ((ev, now) # evs) (shift_down s) = ?ks @ typed evs (shift_down s1)"
    using sh_event_run [OF Cons.prems(1) refl nl] by blast
  have ok1: "typing (foldl edit_key l ?ks) (the_term s1)" "hued (the_term s1)" "t_w (the_term s1) = nterm_W"
    "t_h (the_term s1) = nterm_H" "window_ok (the_term s1) (the_window s1)"
    using s1(2) by (simp_all add: sh_ok_def)
  obtain t w where r: "refresh_terminal now (the_term s1) (the_window s1) = Inr (t, w)" "typing (foldl edit_key l ?ks) t" "hued t"
      "t_w t = nterm_W" "t_h t = nterm_H" "window_ok t w" "shows_screen t w"
    using refresh_run [OF ok1] by blast
  let ?s2 = "s1\<lparr>the_term := t, the_window := w\<rparr>"
  have ok2: "sh_ok (foldl edit_key l ?ks) ?s2" using r by (simp add: sh_ok_def)
  have step: "sh_loop ((ev, now) # es) s = sh_loop es ?s2" for es using s1(1) r(1) by simp
  have sd: "shift_down ?s2 = shift_down s1" by simp
  have "typed (e # evs) (shift_down s) = ?ks @ typed evs (shift_down s1)" using s1(3) unfolding e by blast
  then have "CHR 0x0A \<notin> set (typed evs (shift_down ?s2))" using Cons.prems(2) unfolding sd by simp
  from Cons.IH [OF ok2 this] obtain s' where s': "sh_loop evs ?s2 = Inr (None, s')"
      "sh_ok (foldl edit_key (foldl edit_key l ?ks) (typed evs (shift_down s1))) s'"
      "evs \<noteq> [] \<longrightarrow> shows_screen (the_term s') (the_window s')"
      "\<forall>es. sh_loop (evs @ es) ?s2 = sh_loop es s' \<and> typed (evs @ es) (shift_down s1) = typed evs (shift_down s1) @ typed es (shift_down s')"
    unfolding sd by blast
  have c3: "shows_screen (the_term s') (the_window s')"
  proof (cases "evs = []")
    case True
    then have "s' = ?s2" using s'(1) by simp
    then show ?thesis using r(7) by simp
  qed (use s'(3) in blast)
  have all: "typed (e # es) (shift_down s) = ?ks @ typed es (shift_down s1)" for es using s1(3) unfolding e by blast
  have c1: "sh_loop (e # evs) s = Inr (None, s')" using trans [OF step s'(1)] unfolding e .
  have c2: "sh_ok (foldl edit_key l (typed (e # evs) (shift_down s))) s'" using s'(2) unfolding all foldl_append .
  have c4: "sh_loop ((e # evs) @ es) s = sh_loop es s'" for es
    using trans [OF step conjunct1 [OF spec [OF s'(4), of es]]] unfolding e append_Cons .
  have c5: "typed ((e # evs) @ es) (shift_down s) = typed (e # evs) (shift_down s) @ typed es (shift_down s')" for es
    unfolding append_Cons all conjunct2 [OF spec [OF s'(4), of es]] append_assoc ..
  show ?case using c1 c2 c3 c4 c5 by blast
qed

lemma sh_start_run:
  "\<exists>s. nterm_main heap evs = sh_loop evs s \<and> sh_ok [] s \<and> shift_down s = False"
proof -
  let ?w = "\<lparr>painted = \<lambda>_ _. None, w_last = 0, w_flip = False\<rparr>"
  have "(0 :: int) < nterm_W" "nterm_W < 2 ^ 15" "(0 :: int) < nterm_H" "nterm_H < 2 ^ 15"
    by (simp_all add: nterm_W_def nterm_H_def)
  from terminal_new_run [OF this] obtain t where t: "terminal_new heap nterm_W nterm_H = Inr t" "typing [] t"
      "t_w t = nterm_W" "t_h t = nterm_H" "hued t" "list_all id (t_dirty t)" by blast
  have w0: "window_ok t ?w"
    using t(6) cell_in(1) [OF typing_shaped [OF t(2)]] by (auto simp: window_ok_def list_all_length)
  have on_line: "typing [] u \<and> hued u \<and> t_w u = nterm_W \<and> t_h u = nterm_H \<and> window_ok u ?w"
    if "term_ok u" "keeps v u" "t_mode u = t_mode v" "typing [] v" "t_w v = nterm_W" "t_h v = nterm_H"
      "sh_printf x v = Inr u" "hued v" "window_ok v ?w" for u v x
    using that term_write_hued fresh_window [OF keeps_fresh [OF that(2)] typing_shaped [OF that(4)] that(9)]
    by (auto simp: typing_def keeps_def sh_printf_def)
  have print: "\<exists>u. sh_printf x v = Inr u \<and> typing [] u \<and> hued u \<and> t_w u = nterm_W \<and> t_h u = nterm_H \<and> window_ok u ?w"
    if v: "typing [] v" "t_w v = nterm_W" "t_h v = nterm_H" "hued v" "window_ok v ?w"
      and x: "set x \<inter> {CHR 0x00, CHR 0x09, ESC} = {}" "length x < 2 ^ 64" for v x
    using term_write_plain [OF x(1) typing_facts(1) [OF v(1)] x(2), of "[CHR 0x00]"] on_line v
    unfolding sh_printf_def by blast
  obtain u where u: "sh_banner t = Inr u" "typing [] u" "hued u" "t_w u = nterm_W" "t_h u = nterm_H" "window_ok u ?w"
    using print [OF t(2,3,4,5) w0] unfolding sh_banner_def by (force simp: ESC_def)
  obtain v where v: "sh_prompt u = Inr v" "typing [] v" "hued v" "t_w v = nterm_W" "t_h v = nterm_H" "window_ok v ?w"
    using print [OF u(2,4,5,3,6)] unfolding sh_prompt_def by (force simp: ESC_def)
  let ?s = "\<lparr>the_term = v, the_window = ?w, shift_down = False\<rparr>"
  have "nterm_main heap evs = sh_loop evs ?s" using t(1) u(1) v(1) by (simp add: nterm_main_def builtin_sh_run_def)
  moreover have "sh_ok [] ?s" using v by (simp add: sh_ok_def)
  ultimately show ?thesis by auto
qed

lemma edit_key_set: "set (foldl edit_key l ks) \<subseteq> set l \<union> set ks"
proof (induction ks arbitrary: l)
  case (Cons k ks)
  have "set (edit_key l k) \<subseteq> insert k (set l)" by (auto simp: edit_key_def dest: in_set_butlastD)
  then show ?case using Cons.IH [of "edit_key l k"] by auto
qed simp

text \<open>C27: Whatever keys are pressed before Enter, the window then shows the screen in every cell but that
  of the cursor: no operation of the terminal changes a cell without marking it.\<close>

theorem window_shows_screen:
  assumes "evs \<noteq> []" and "CHR 0x0A \<notin> set (typed evs False)"
  shows "\<exists>s. nterm_main heap evs = Inr (None, s) \<and> shows_screen (the_term s) (the_window s) \<and>
    typing (foldl edit_key [] (typed evs False)) (the_term s)"
proof -
  obtain s where s: "nterm_main heap evs = sh_loop evs s" "sh_ok [] s" "shift_down s = False" using sh_start_run by blast
  then obtain s' where "sh_loop evs s = Inr (None, s')" "sh_ok (foldl edit_key [] (typed evs False)) s'"
      "shows_screen (the_term s') (the_window s')"
    using sh_loop_run [OF s(2), of evs] assms unfolding s(3) by blast
  then show ?thesis using s(1) by (simp add: sh_ok_def)
qed

text \<open>A key is its entry in the table of characters.\<close>

lemma SDLK_inj:
  assumes "n \<in> set KEYS" and "m \<in> set KEYS"
  shows "SDLK n = SDLK m \<longleftrightarrow> n = m"
proof
  define p where "p k = length (takeWhile (\<lambda>j. j \<noteq> k) (''NONE'' # KEYS))" for k
  have len: "length (''NONE'' # KEYS) = 83" by (simp add: length_KEYS)
  have pos: "p k < 83 \<and> (''NONE'' # KEYS) ! p k = k" if "k \<in> set KEYS" for k
  proof -
    have "k \<in> set (''NONE'' # KEYS)" using that by simp
    from takeWhile_position [OF this] show ?thesis unfolding len p_def .
  qed
  have num: "SDLK k = of_nat (p k)" for k by (simp only: SDLK_def p_def)
  assume "SDLK n = SDLK m"
  then have "unat (of_nat (p n) :: u8) = unat (of_nat (p m) :: u8)" by (simp only: num)
  moreover have "unat (of_nat (p k) :: u8) = p k" if "k \<in> set KEYS" for k
  proof -
    have "p k < 2 ^ LENGTH(8)" using conjunct1 [OF pos [OF that]] by simp
    then show ?thesis by (simp add: unat_of_nat)
  qed
  ultimately have "p n = p m" using assms by metis
  then show "n = m" using pos [OF assms(1)] pos [OF assms(2)] by metis
qed simp

lemma nterm_key_named:
  assumes "name \<in> set KEYS"
  shows "nterm_key \<lparr>ev_type = ty, ev_sym = SDLK name\<rparr> sh =
    (if name = ''LSHIFT'' \<or> name = ''RSHIFT'' then (CHR 0x00, \<not> sh)
     else if ty = SDL_KEYDOWN
     then (case find (\<lambda>(n, a, b). n = name) SHIFT of Some (n, a, b) \<Rightarrow> (if sh then b else a, sh) | None \<Rightarrow> (CHR 0x00, sh))
     else (CHR 0x00, sh))"
proof -
  have names: "\<forall>x \<in> set SHIFT. fst x \<in> set KEYS" "''LSHIFT'' \<in> set KEYS" "''RSHIFT'' \<in> set KEYS" by code_simp+
  have "find (\<lambda>(n, a, b). SDLK n = SDLK name) SHIFT = find (\<lambda>(n, a, b). n = name) SHIFT"
    using names(1) SDLK_inj [OF _ assms] by (intro find_cong) auto
  then show ?thesis using SDLK_inj [OF assms] names by (simp add: nterm_key_def)
qed

definition key_down :: "string \<Rightarrow> key_event option \<times> u32" where
  "key_down name = (Some \<lparr>ev_type = SDL_KEYDOWN, ev_sym = SDLK name\<rparr>, 0)"

definition key_up :: "string \<Rightarrow> key_event option \<times> u32" where
  "key_up name = (Some \<lparr>ev_type = SDL_KEYUP, ev_sym = SDLK name\<rparr>, 0)"

definition ls_keys :: "(key_event option \<times> u32) list" where
  "ls_keys = [key_down ''L'', key_up ''L'', key_down ''D'', key_down ''BACKSPACE'', key_down ''S'']"

lemma ls_typed: "typed ls_keys False = [CHR ''l'', CHR 0x00, CHR ''d'', CHR 0x08, CHR ''s'']"
  "typed (ls_keys @ [key_down ''RETURN'']) False = [CHR ''l'', CHR 0x00, CHR ''d'', CHR 0x08, CHR ''s'', CHR 0x0A]"
proof -
  have f: "find (\<lambda>(n, a, b). n = ''L'') SHIFT = Some (''L'', CHR ''l'', CHR ''L'')"
    "find (\<lambda>(n, a, b). n = ''D'') SHIFT = Some (''D'', CHR ''d'', CHR ''D'')"
    "find (\<lambda>(n, a, b). n = ''S'') SHIFT = Some (''S'', CHR ''s'', CHR ''S'')"
    "find (\<lambda>(n, a, b). n = ''BACKSPACE'') SHIFT = Some (''BACKSPACE'', CHR 0x08, CHR 0x08)"
    "find (\<lambda>(n, a, b). n = ''RETURN'') SHIFT = Some (''RETURN'', CHR 0x0A, CHR 0x0A)"
    by (simp_all add: SHIFT_def letter_entries_def)
  have k: "''L'' \<in> set KEYS" "''D'' \<in> set KEYS" "''S'' \<in> set KEYS" "''BACKSPACE'' \<in> set KEYS" "''RETURN'' \<in> set KEYS"
    by code_simp+
  have v: "nterm_key \<lparr>ev_type = SDL_KEYDOWN, ev_sym = SDLK ''L''\<rparr> False = (CHR ''l'', False)"
    "nterm_key \<lparr>ev_type = SDL_KEYUP, ev_sym = SDLK ''L''\<rparr> False = (CHR 0x00, False)"
    "nterm_key \<lparr>ev_type = SDL_KEYDOWN, ev_sym = SDLK ''D''\<rparr> False = (CHR ''d'', False)"
    "nterm_key \<lparr>ev_type = SDL_KEYDOWN, ev_sym = SDLK ''S''\<rparr> False = (CHR ''s'', False)"
    "nterm_key \<lparr>ev_type = SDL_KEYDOWN, ev_sym = SDLK ''BACKSPACE''\<rparr> False = (CHR 0x08, False)"
    "nterm_key \<lparr>ev_type = SDL_KEYDOWN, ev_sym = SDLK ''RETURN''\<rparr> False = (CHR 0x0A, False)"
    by (simp_all add: nterm_key_named k f) (simp add: SDL_KEYDOWN_def SDL_KEYUP_def)
  show "typed ls_keys False = [CHR ''l'', CHR 0x00, CHR ''d'', CHR 0x08, CHR ''s'']"
    "typed (ls_keys @ [key_down ''RETURN'']) False = [CHR ''l'', CHR 0x00, CHR ''d'', CHR 0x08, CHR ''s'', CHR 0x0A]"
    by (simp_all add: ls_keys_def key_down_def key_up_def v)
qed

lemma window_shows_screen_witness:
  "\<exists>s. nterm_main (\<lambda>_. (CHR ''?'', 0, False)) ls_keys = Inr (None, s) \<and> shows_screen (the_term s) (the_window s) \<and>
    typing ''ls'' (the_term s)"
proof -
  have "ls_keys \<noteq> []" by (simp add: ls_keys_def)
  moreover have "foldl edit_key [] (typed ls_keys False) = ''ls''" unfolding ls_typed by (simp add: edit_key_def ESC_def)
  ultimately show ?thesis using window_shows_screen [of ls_keys "\<lambda>_. (CHR ''?'', 0, False)"] by (simp add: ls_typed)
qed

text \<open>C28: Typing a line and Enter runs it: with keys that type \<open>ks\<close> the shell executes the line that
  editing \<open>ks\<close> leaves, and ends on \<open>exit\<close>; a line of more than 28 characters runs over an array.\<close>

theorem shell_runs_command:
  assumes "CHR 0x0A \<notin> set ks" and "typed evs False = ks" and "typed (evs @ [(Some e, now)]) False = ks @ [CHR 0x0A]"
    and "l = foldl edit_key [] ks"
  shows "if length l \<le> 28
    then \<exists>s. nterm_main heap (evs @ [(Some e, now)]) = Inr (Some (if l = ''exit'' then Sh_exit else Sh_exec l), s)
    else nterm_main heap (evs @ [(Some e, now)]) = Inl Out_of_bounds"
proof -
  obtain s where s: "nterm_main heap (evs @ [(Some e, now)]) = sh_loop (evs @ [(Some e, now)]) s" "sh_ok [] s" "shift_down s = False"
    using sh_start_run by blast
  obtain s' where s': "sh_ok l s'" "sh_loop (evs @ [(Some e, now)]) s = sh_loop [(Some e, now)] s'"
      "typed (evs @ [(Some e, now)]) False = ks @ typed [(Some e, now)] (shift_down s')"
    using sh_loop_run [OF s(2), of evs] assms(1) unfolding s(3) assms(2) assms(4) [symmetric] by blast
  have "typed [(Some e, now)] (shift_down s') = [CHR 0x0A]" using s'(3) assms(3) by simp
  then obtain sh where key: "ev_type e = SDL_KEYUP \<or> ev_type e = SDL_KEYDOWN" "nterm_key e (shift_down s') = (CHR 0x0A, sh)"
    by (cases "nterm_key e (shift_down s')") (auto split: if_splits)
  have "CHR 0x0A \<notin> set l" using edit_key_set [of "[]" ks] assms(1,4) by auto
  then have name: "takeWhile (\<lambda>c. c \<noteq> CHR 0x0A) (l @ [CHR 0x0A]) = l" by (simp add: takeWhile_tail) (induction l, auto)
  have "typing l (the_term s')" using s'(1) by (simp add: sh_ok_def)
  from enter_run [OF this] show ?thesis
    using s(1) s'(2) key name
    by (cases "length l \<le> 254") (auto simp: sh_event_def sh_handle_cmd_def Let_def)
qed

lemma shell_runs_command_witness:
  "\<exists>s. nterm_main (\<lambda>_. (CHR ''?'', 0, False)) (ls_keys @ [key_down ''RETURN'']) = Inr (Some (Sh_exec ''ls''), s)"
proof -
  have l: "''ls'' = foldl edit_key [] [CHR ''l'', CHR 0x00, CHR ''d'', CHR 0x08, CHR ''s'']" by (simp add: edit_key_def ESC_def)
  have "typed (ls_keys @ [(Some \<lparr>ev_type = SDL_KEYDOWN, ev_sym = SDLK ''RETURN''\<rparr>, 0)]) False =
      [CHR ''l'', CHR 0x00, CHR ''d'', CHR 0x08, CHR ''s''] @ [CHR 0x0A]"
    using ls_typed(2) by (simp add: key_down_def)
  from shell_runs_command [OF _ ls_typed(1) this l, of "\<lambda>_. (CHR ''?'', 0, False)"] show ?thesis
    by (simp add: key_down_def)
qed

text \<open>Every printable character has a key.\<close>

lemma printable_keys:
  "\<forall>c \<in> set (map char_of [32..<127]). \<exists>(n, a, b) \<in> set SHIFT. (c = a \<or> c = b)"
  by code_simp

end
