(* ===== verification/Rtl_Modules.thy ===== *)
theory Rtl_Modules
  imports Prelude
begin

text \<open>
  The combinational modules and the registers of the processor that is simulated,
  \<open>simulator/IP/mycpu/*.sv\<close>, one definition per module: a vector of \<open>n\<close> bits is an \<open>n word\<close>, a single
  bit a \<open>bool\<close>. The constants are those of \<open>include/config.sv\<close>.
\<close>

section \<open>Constants\<close>

text \<open>\<open>alu_op\<close>\<close>

definition ALU_ADD :: "5 word" where "ALU_ADD = 0b00000"
definition ALU_SUB :: "5 word" where "ALU_SUB = 0b10000"
definition ALU_AND :: "5 word" where "ALU_AND = 0b00111"
definition ALU_SLT :: "5 word" where "ALU_SLT = 0b00010"
definition ALU_SLTU :: "5 word" where "ALU_SLTU = 0b00011"
definition ALU_OR :: "5 word" where "ALU_OR = 0b00110"
definition ALU_XOR :: "5 word" where "ALU_XOR = 0b00100"
definition ALU_SLL :: "5 word" where "ALU_SLL = 0b00001"
definition ALU_SRL :: "5 word" where "ALU_SRL = 0b00101"
definition ALU_SRA :: "5 word" where "ALU_SRA = 0b10101"
definition ALU_MUL :: "5 word" where "ALU_MUL = 0b01000"
definition ALU_MULH :: "5 word" where "ALU_MULH = 0b01001"
definition ALU_MULHSU :: "5 word" where "ALU_MULHSU = 0b01010"
definition ALU_MULHU :: "5 word" where "ALU_MULHU = 0b01011"
definition ALU_DIV :: "5 word" where "ALU_DIV = 0b01100"
definition ALU_DIVU :: "5 word" where "ALU_DIVU = 0b01101"
definition ALU_REM :: "5 word" where "ALU_REM = 0b01110"
definition ALU_REMU :: "5 word" where "ALU_REMU = 0b01111"

lemmas alu_codes = ALU_ADD_def ALU_SUB_def ALU_AND_def ALU_SLT_def ALU_SLTU_def ALU_OR_def ALU_XOR_def
  ALU_SLL_def ALU_SRL_def ALU_SRA_def ALU_MUL_def ALU_MULH_def ALU_MULHSU_def ALU_MULHU_def ALU_DIV_def
  ALU_DIVU_def ALU_REM_def ALU_REMU_def

text \<open>Branches, accesses to memory, sources of the operands, the vector of privileged instructions.\<close>

definition BR_BEQ :: "3 word" where "BR_BEQ = 0b000"
definition BR_BNE :: "3 word" where "BR_BNE = 0b001"
definition BR_BLT :: "3 word" where "BR_BLT = 0b100"
definition BR_BGE :: "3 word" where "BR_BGE = 0b101"
definition BR_BLTU :: "3 word" where "BR_BLTU = 0b110"
definition BR_BGEU :: "3 word" where "BR_BGEU = 0b111"

definition NO_ACCESS :: "5 word" where "NO_ACCESS = 0b00000"
definition LOAD_B :: "3 word" where "LOAD_B = 0b000"
definition LOAD_UB :: "3 word" where "LOAD_UB = 0b100"
definition LOAD_H :: "3 word" where "LOAD_H = 0b001"
definition LOAD_UH :: "3 word" where "LOAD_UH = 0b101"
definition LOAD_W :: "3 word" where "LOAD_W = 0b010"
definition STORE_B :: "3 word" where "STORE_B = 0b000"
definition STORE_H :: "3 word" where "STORE_H = 0b001"
definition STORE_W :: "3 word" where "STORE_W = 0b010"
definition LOAD_BIT :: nat where "LOAD_BIT = 3"
definition STORE_BIT :: nat where "STORE_BIT = 4"

definition SRC1_REG1 :: "2 word" where "SRC1_REG1 = 0"
definition SRC1_PC :: "2 word" where "SRC1_PC = 1"
definition SRC1_ZERO :: "2 word" where "SRC1_ZERO = 2"
definition SRC2_REG2 :: "2 word" where "SRC2_REG2 = 0"
definition SRC2_IMM :: "2 word" where "SRC2_IMM = 1"
definition SRC2_FOUR :: "2 word" where "SRC2_FOUR = 2"
definition SRC2_CSR :: "2 word" where "SRC2_CSR = 3"
definition FROM_ALU :: bool where "FROM_ALU = False"
definition FROM_MEM :: bool where "FROM_MEM = True"

definition CSR_MSTATUS :: "12 word" where "CSR_MSTATUS = 0x300"
definition CSR_MTVEC :: "12 word" where "CSR_MTVEC = 0x305"
definition CSR_MEPC :: "12 word" where "CSR_MEPC = 0x341"
definition CSR_MCAUSE :: "12 word" where "CSR_MCAUSE = 0x342"

definition CSR_RW :: nat where "CSR_RW = 0"
definition ECALL :: nat where "ECALL = 1"
definition MRET :: nat where "MRET = 2"
definition FENCEI :: nat where "FENCEI = 3"
definition FENCE :: nat where "FENCE = 4"

lemmas rtl_constants = alu_codes BR_BEQ_def BR_BNE_def BR_BLT_def BR_BGE_def BR_BLTU_def BR_BGEU_def
  NO_ACCESS_def LOAD_B_def LOAD_UB_def LOAD_H_def LOAD_UH_def LOAD_W_def STORE_B_def STORE_H_def STORE_W_def
  LOAD_BIT_def STORE_BIT_def SRC1_REG1_def SRC1_PC_def SRC1_ZERO_def SRC2_REG2_def SRC2_IMM_def SRC2_FOUR_def
  SRC2_CSR_def FROM_ALU_def FROM_MEM_def CSR_MSTATUS_def CSR_MTVEC_def CSR_MEPC_def CSR_MCAUSE_def
  CSR_RW_def ECALL_def MRET_def FENCEI_def FENCE_def

section \<open>Part selects and multiplexers\<close>

text \<open>\<open>x[hi:lo]\<close> as a vector of its own width, and the copies \<open>{n{b}}\<close> of a bit.\<close>

definition part :: "nat \<Rightarrow> nat \<Rightarrow> u32 \<Rightarrow> 'a::len word" where
  "part hi lo x = ucast (take_bit (hi - lo + 1) (drop_bit lo x))"

definition copies :: "nat \<Rightarrow> bool \<Rightarrow> u32" where
  "copies n b = (if b then take_bit n (- 1) else 0)"

definition Mux2_1 :: "'a \<Rightarrow> 'a \<Rightarrow> bool \<Rightarrow> 'a" where
  "Mux2_1 din1 din2 sel = (if sel then din2 else din1)"

definition Mux4_1 :: "'a \<Rightarrow> 'a \<Rightarrow> 'a \<Rightarrow> 'a \<Rightarrow> 2 word \<Rightarrow> 'a" where
  "Mux4_1 din1 din2 din3 din4 sel =
     (if sel = 0 then din1 else if sel = 1 then din2 else if sel = 2 then din3 else din4)"

section \<open>ALU\<close>

text \<open>
  A division by zero is not a number in the language; its result is not used, since \<open>sr2 == 0\<close> is
  tested before.
\<close>

definition ALU_result_64 :: "u32 \<Rightarrow> u32 \<Rightarrow> 5 word \<Rightarrow> u64" where
  "ALU_result_64 sr1 sr2 alu_op =
     (if alu_op = ALU_MUL \<or> alu_op = ALU_MULH then scast sr1 * scast sr2
      else if alu_op = ALU_MULHSU then scast sr1 * ucast sr2
      else if alu_op = ALU_MULHU then ucast sr1 * ucast sr2
      else 0)"

definition ALU_div_rem :: "u32 \<Rightarrow> u32 \<Rightarrow> 5 word \<Rightarrow> u32 \<times> u32" where
  "ALU_div_rem sr1 sr2 alu_op =
     (let neg_div = bit sr1 31 \<noteq> bit sr2 31; neg_rem = bit sr1 31;
          sr1_abs = (if bit sr1 31 then - sr1 else sr1); sr2_abs = (if bit sr2 31 then - sr2 else sr2) in
      if alu_op = ALU_DIV \<or> alu_op = ALU_REM
      then (if neg_div then - (sr1_abs div sr2_abs) else sr1_abs div sr2_abs,
            if neg_rem then - (sr1_abs mod sr2_abs) else sr1_abs mod sr2_abs)
      else if alu_op = ALU_DIVU \<or> alu_op = ALU_REMU then (sr1 div sr2, sr1 mod sr2)
      else (0, 0))"

definition ALU :: "u32 \<Rightarrow> u32 \<Rightarrow> 5 word \<Rightarrow> u32" where
  "ALU sr1 sr2 alu_op =
     (let shamt = unat (take_bit 5 sr2); (result_div, result_rem) = ALU_div_rem sr1 sr2 alu_op in
      if alu_op = ALU_ADD then sr1 + sr2
      else if alu_op = ALU_SUB then sr1 - sr2
      else if alu_op = ALU_AND then sr1 AND sr2
      else if alu_op = ALU_SLT then of_bool (sint sr1 < sint sr2)
      else if alu_op = ALU_SLTU then of_bool (sr1 < sr2)
      else if alu_op = ALU_OR then sr1 OR sr2
      else if alu_op = ALU_XOR then sr1 XOR sr2
      else if alu_op = ALU_SLL then push_bit shamt sr1
      else if alu_op = ALU_SRL then drop_bit shamt sr1
      else if alu_op = ALU_SRA then signed_drop_bit shamt sr1
      else if alu_op = ALU_MUL then ucast (ALU_result_64 sr1 sr2 alu_op)
      else if alu_op = ALU_MULH \<or> alu_op = ALU_MULHSU \<or> alu_op = ALU_MULHU
      then ucast (drop_bit 32 (ALU_result_64 sr1 sr2 alu_op))
      else if alu_op = ALU_DIV \<or> alu_op = ALU_DIVU then (if sr2 = 0 then - 1 else result_div)
      else if alu_op = ALU_REM \<or> alu_op = ALU_REMU then (if sr2 = 0 then sr1 else result_rem)
      else 0)"

section \<open>Decoder\<close>

record decoded =
  d_alu_op :: "5 word"
  d_mem_access :: "5 word"
  d_imm :: u32
  d_rf_we :: bool
  d_rs1_sel :: "2 word"
  d_rs2_sel :: "2 word"
  d_wb_sel :: bool
  d_br_type :: "5 word"
  d_priv_vec :: "5 word"

text \<open>The concatenations: two bits above three, three single bits above two, and the immediates.\<close>

definition cat_2_3 :: "bool \<Rightarrow> bool \<Rightarrow> 3 word \<Rightarrow> 5 word" where
  "cat_2_3 a b w = push_bit 4 (of_bool a) OR push_bit 3 (of_bool b) OR ucast w"

definition cat_111_2 :: "bool \<Rightarrow> bool \<Rightarrow> bool \<Rightarrow> 2 word \<Rightarrow> 5 word" where
  "cat_111_2 a b c w = push_bit 4 (of_bool a) OR push_bit 3 (of_bool b) OR push_bit 2 (of_bool c) OR ucast w"

definition imm_U :: "u32 \<Rightarrow> u32" where
  "imm_U inst = push_bit 12 (part 31 12 inst)"

definition imm_J :: "u32 \<Rightarrow> u32" where
  "imm_J inst = push_bit 20 (copies 12 (bit inst 31)) OR push_bit 12 (part 19 12 inst) OR
     push_bit 11 (of_bool (bit inst 20)) OR push_bit 1 (part 30 21 inst)"

definition imm_I :: "u32 \<Rightarrow> u32" where
  "imm_I inst = push_bit 12 (copies 20 (bit inst 31)) OR part 31 20 inst"

definition imm_B :: "u32 \<Rightarrow> u32" where
  "imm_B inst = push_bit 12 (copies 20 (bit inst 31)) OR push_bit 11 (of_bool (bit inst 7)) OR
     push_bit 5 (part 30 25 inst) OR push_bit 1 (part 11 8 inst)"

definition imm_S :: "u32 \<Rightarrow> u32" where
  "imm_S inst = push_bit 12 (copies 20 (bit inst 31)) OR push_bit 5 (part 31 25 inst) OR part 11 7 inst"

definition Decode_priv_vec :: "u32 \<Rightarrow> 5 word" where
  "Decode_priv_vec inst =
     (let op = (part 6 0 inst :: 7 word); f3 = (part 14 12 inst :: 3 word); f12 = (part 31 20 inst :: 12 word) in
      push_bit CSR_RW (of_bool (op = 0x73 \<and> f3 \<noteq> 0)) OR
      push_bit ECALL (of_bool (op = 0x73 \<and> f3 = 0 \<and> f12 = 0)) OR
      push_bit MRET (of_bool (op = 0x73 \<and> f3 = 0 \<and> f12 = 0x302)) OR
      push_bit FENCEI (of_bool (op = 0xf \<and> f3 = 1)) OR
      push_bit FENCE (of_bool (op = 0xf \<and> f3 = 0)))"

definition Decode_unit :: "u32 \<Rightarrow> decoded" where
  "Decode_unit inst =
     (let op = (part 6 0 inst :: 7 word); f3 = (part 14 12 inst :: 3 word); rd = (part 11 7 inst :: 5 word);
          we = (rd \<noteq> 0); pv = Decode_priv_vec inst;
          out = \<lambda>imm mem alu we s1 s2 wb br. \<lparr>d_alu_op = alu, d_mem_access = mem, d_imm = imm, d_rf_we = we,
                  d_rs1_sel = s1, d_rs2_sel = s2, d_wb_sel = wb, d_br_type = br, d_priv_vec = pv\<rparr>;
          br_none = cat_2_3 False (bit inst 2) f3; br_jump = cat_111_2 True (bit inst 2) (bit inst 3) (part 1 0 inst) in
      if op = 0x37 then out (imm_U inst) NO_ACCESS ALU_ADD we SRC1_ZERO SRC2_IMM FROM_ALU (cat_2_3 False False f3)
      else if op = 0x17 then out (imm_U inst) NO_ACCESS ALU_ADD we SRC1_PC SRC2_IMM FROM_ALU br_none
      else if op = 0x6f then out (imm_J inst) NO_ACCESS ALU_ADD we SRC1_PC SRC2_FOUR FROM_ALU br_jump
      else if op = 0x67 then out (imm_I inst) NO_ACCESS ALU_ADD we SRC1_PC SRC2_FOUR FROM_ALU br_jump
      else if op = 0x63 then out (imm_B inst) NO_ACCESS ALU_ADD False SRC1_REG1 SRC2_REG2 FROM_ALU (cat_2_3 True (bit inst 2) f3)
      else if op = 0x03 then out (imm_I inst) (cat_2_3 False True f3) ALU_ADD we SRC1_REG1 SRC2_IMM FROM_MEM br_none
      else if op = 0x23 then out (imm_S inst) (cat_2_3 True False f3) ALU_ADD False SRC1_REG1 SRC2_IMM FROM_ALU br_none
      else if op = 0x13 then out (imm_I inst) NO_ACCESS (cat_2_3 (f3 = 5 \<and> bit inst 30) False f3) we SRC1_REG1 SRC2_IMM FROM_ALU br_none
      else if op = 0x33 then out 0 NO_ACCESS (cat_2_3 (bit inst 30) (bit inst 25) f3) we SRC1_REG1 SRC2_REG2 FROM_ALU br_none
      else if op = 0x73 then out 0 NO_ACCESS ALU_ADD (we \<and> f3 \<noteq> 0) SRC1_ZERO SRC2_CSR FROM_ALU br_none
      else out 0 0 0 False 0 0 False 0)"

section \<open>Branches, CSR values, access to memory\<close>

text \<open>The condition and the target.\<close>

definition Branch_unit :: "5 word \<Rightarrow> u32 \<Rightarrow> u32 \<Rightarrow> u32 \<Rightarrow> u32 \<Rightarrow> bool \<times> u32" where
  "Branch_unit br_type sr1 sr2 pc imm =
     (let is_branch = (bit br_type 4 \<and> \<not> bit br_type 3);
          is_jal = (bit br_type 4 \<and> bit br_type 3 \<and> bit br_type 2);
          is_jalr = (bit br_type 4 \<and> bit br_type 3 \<and> \<not> bit br_type 2);
          op = (ucast br_type :: 3 word);
          jump = (if is_branch
                  then (if op = BR_BEQ then sr1 = sr2 else if op = BR_BNE then sr1 \<noteq> sr2
                        else if op = BR_BLT then sint sr1 < sint sr2 else if op = BR_BGE then sint sr1 \<ge> sint sr2
                        else if op = BR_BLTU then sr1 < sr2 else if op = BR_BGEU then sr1 \<ge> sr2 else False)
                  else is_jal \<or> is_jalr)
      in (jump, if is_jalr then sr1 + imm else pc + imm))"

definition Priv :: "3 word \<Rightarrow> u32 \<Rightarrow> u32 \<Rightarrow> u32 \<Rightarrow> u32" where
  "Priv csr_op csr_rdata rf_rdata1 zimm =
     (if csr_op = 0b001 then rf_rdata1
      else if csr_op = 0b010 then csr_rdata OR rf_rdata1
      else if csr_op = 0b011 then csr_rdata AND NOT rf_rdata1
      else if csr_op = 0b101 then zimm
      else if csr_op = 0b110 then csr_rdata OR zimm
      else if csr_op = 0b111 then csr_rdata AND NOT zimm
      else 0)"

definition DCache_Write_Ctrl :: "u32 \<Rightarrow> u32 \<Rightarrow> 5 word \<Rightarrow> 4 word \<times> u32" where
  "DCache_Write_Ctrl wdata mem_waddr mem_access =
     (let k = unat (take_bit 2 mem_waddr); ty = (ucast mem_access :: 3 word) in
      if bit mem_access STORE_BIT
      then if ty = STORE_B then (push_bit k 0x1, push_bit (8 * k) wdata)
           else if ty = STORE_H then (push_bit k 0x3, push_bit (8 * k) wdata)
           else if ty = STORE_W then (0xf, wdata) else (0, 0)
      else (0, 0))"

definition DCache_Read_Ctrl :: "u32 \<Rightarrow> u32 \<Rightarrow> 5 word \<Rightarrow> u32" where
  "DCache_Read_Ctrl mem_rdata mem_raddr mem_access =
     (let ty = (ucast mem_access :: 3 word); load_data = drop_bit (8 * unat (take_bit 2 mem_raddr)) mem_rdata in
      if ty = LOAD_B then push_bit 8 (copies 24 (bit load_data 7)) OR part 7 0 load_data
      else if ty = LOAD_H then push_bit 16 (copies 16 (bit load_data 15)) OR part 15 0 load_data
      else if ty = LOAD_W then load_data
      else if ty = LOAD_UB then part 7 0 load_data
      else if ty = LOAD_UH then part 15 0 load_data
      else 0)"

section \<open>Registers\<close>

text \<open>The register file reads what is being written in the same cycle.\<close>

definition Regfile_read :: "(nat \<Rightarrow> u32) \<Rightarrow> 5 word \<Rightarrow> 5 word \<Rightarrow> u32 \<Rightarrow> bool \<Rightarrow> u32" where
  "Regfile_read rf raddr waddr wdata we = (if we \<and> waddr = raddr then wdata else rf (unat raddr))"

definition Regfile_write :: "5 word \<Rightarrow> u32 \<Rightarrow> bool \<Rightarrow> (nat \<Rightarrow> u32) \<Rightarrow> nat \<Rightarrow> u32" where
  "Regfile_write waddr wdata we rf = (if we then rf(unat waddr := wdata) else rf)"

record csr_regs =
  r_mstatus :: u32
  r_mtvec :: u32
  r_mcause :: u32
  r_mepc :: u32

definition CSR_reset :: csr_regs where
  "CSR_reset = \<lparr>r_mstatus = 0, r_mtvec = 0, r_mcause = 0, r_mepc = 0\<rparr>"

definition CSR_next :: "12 word \<Rightarrow> bool \<Rightarrow> u32 \<Rightarrow> u32 \<Rightarrow> u32 \<Rightarrow> 5 word \<Rightarrow> csr_regs \<Rightarrow> csr_regs" where
  "CSR_next waddr we wdata pc_wb mcause_in priv_vec_wb s =
     (let has_exp = (mcause_in \<noteq> 0); ms = r_mstatus s in
      \<lparr>r_mstatus = (if has_exp then push_bit 12 (part 31 12 ms) OR push_bit 3 (part 8 0 ms) OR 6
                    else if bit priv_vec_wb MRET then push_bit 12 (part 31 12 ms) OR push_bit 9 1 OR part 11 3 ms
                    else if waddr = CSR_MSTATUS \<and> we then wdata else ms),
       r_mtvec = (if waddr = CSR_MTVEC \<and> we then wdata else r_mtvec s),
       r_mcause = (if has_exp then mcause_in else if waddr = CSR_MCAUSE \<and> we then wdata else r_mcause s),
       r_mepc = (if has_exp then pc_wb else if waddr = CSR_MEPC \<and> we then wdata else r_mepc s)\<rparr>)"

definition CSR_read :: "12 word \<Rightarrow> csr_regs \<Rightarrow> u32" where
  "CSR_read raddr s =
     (if raddr = CSR_MSTATUS then r_mstatus s
      else if raddr = CSR_MTVEC then r_mtvec s
      else if raddr = CSR_MCAUSE then r_mcause s
      else if raddr = CSR_MEPC then r_mepc s
      else 0)"

definition Exp_Commit :: "5 word \<Rightarrow> u32" where
  "Exp_Commit priv_vec = (if bit priv_vec ECALL then 0xb else 0)"

definition NPC_Mux :: "u32 \<Rightarrow> bool \<Rightarrow> u32 \<Rightarrow> u32" where
  "NPC_Mux pc pc_set pc_target = (if pc_set then pc_target else pc + 4)"

definition PC_next :: "bool \<Rightarrow> bool \<Rightarrow> u32 \<Rightarrow> u32 \<Rightarrow> u32" where
  "PC_next stall pc_set next_pc pc_reg = (if pc_set \<or> \<not> stall then next_pc else pc_reg)"

end
