(* ===== verification/Rtl_Cpu.thy ===== *)
theory Rtl_Cpu
  imports Rtl_Modules
begin

text \<open>
  The processor of \<open>simulator/IP/mycpu/CPU.sv\<close>: its six stages, the registers between them
  (\<open>SegReg_*.sv\<close>), the hazard unit (\<open>Hazard.sv\<close>) and one clock cycle. The two caches are the world
  outside: their outputs are arguments of a cycle, their inputs are functions of the state.
\<close>

section \<open>Registers between the stages\<close>

record if1_if2 =
  pc_if2 :: u32
  commit_if2 :: bool

record if2_id =
  pc_id :: u32
  inst_id :: u32
  commit_id :: bool

record id_ex =
  pc_ex :: u32
  inst_ex :: u32
  csr_rdata_ex :: u32
  rdata1_ex :: u32
  rdata2_ex :: u32
  imm_ex :: u32
  mem_access_ex :: "5 word"
  op_ex :: "5 word"
  br_type_ex :: "5 word"
  wb_rf_sel_ex :: bool
  alu_rs1_sel_ex :: "2 word"
  alu_rs2_sel_ex :: "2 word"
  rf_we_ex :: bool
  priv_vec_ex :: "5 word"
  commit_ex :: bool

record ex_ls =
  pc_ls :: u32
  inst_ls :: u32
  priv_vec_ls :: "5 word"
  csr_wdata_ls :: u32
  alu_result_ls :: u32
  mem_access_ls :: "5 word"
  wb_rf_sel_ls :: bool
  rf_we_ls :: bool
  commit_ls :: bool

record ls_wb =
  pc_wb :: u32
  inst_wb :: u32
  alu_result_wb :: u32
  mem_rdata_wb :: u32
  priv_vec_wb :: "5 word"
  csr_wdata_wb :: u32
  wb_rf_sel_wb :: bool
  rf_we_wb :: bool
  uncache_read_wb :: bool
  commit_wb :: bool

definition PC_RESET_VALUE :: u32 where "PC_RESET_VALUE = 0x80000000"

definition if1_if2_reset :: if1_if2 where
  "if1_if2_reset = \<lparr>pc_if2 = PC_RESET_VALUE, commit_if2 = False\<rparr>"

definition if2_id_reset :: if2_id where
  "if2_id_reset = \<lparr>pc_id = PC_RESET_VALUE, inst_id = 0x13, commit_id = False\<rparr>"

definition id_ex_reset :: id_ex where
  "id_ex_reset = \<lparr>pc_ex = PC_RESET_VALUE, inst_ex = 0x13, csr_rdata_ex = 0, rdata1_ex = 0, rdata2_ex = 0,
     imm_ex = 0, mem_access_ex = 0, op_ex = 0, br_type_ex = 0, wb_rf_sel_ex = False, alu_rs1_sel_ex = 0,
     alu_rs2_sel_ex = 0, rf_we_ex = False, priv_vec_ex = 0, commit_ex = False\<rparr>"

definition ex_ls_reset :: ex_ls where
  "ex_ls_reset = \<lparr>pc_ls = PC_RESET_VALUE, inst_ls = 0x13, priv_vec_ls = 0, csr_wdata_ls = 0, alu_result_ls = 0,
     mem_access_ls = 0, wb_rf_sel_ls = False, rf_we_ls = False, commit_ls = False\<rparr>"

definition ls_wb_reset :: ls_wb where
  "ls_wb_reset = \<lparr>pc_wb = PC_RESET_VALUE, inst_wb = 0x13, alu_result_wb = 0, mem_rdata_wb = 0, priv_vec_wb = 0,
     csr_wdata_wb = 0, wb_rf_sel_wb = False, rf_we_wb = False, uncache_read_wb = False, commit_wb = False\<rparr>"

definition SegReg :: "'a \<Rightarrow> bool \<Rightarrow> bool \<Rightarrow> bool \<Rightarrow> 'a \<Rightarrow> 'a \<Rightarrow> 'a" where
  "SegReg reset rstn stall flush d q = (if \<not> rstn \<or> flush then reset else if \<not> stall then d else q)"

text \<open>The last register clears its commit bit while it is stalled.\<close>

definition SegReg_LS_WB :: "bool \<Rightarrow> bool \<Rightarrow> bool \<Rightarrow> ls_wb \<Rightarrow> ls_wb \<Rightarrow> ls_wb" where
  "SegReg_LS_WB rstn stall flush d q =
     (SegReg ls_wb_reset rstn stall flush d q)\<lparr>commit_wb := (if \<not> rstn \<or> flush \<or> stall then False else commit_wb d)\<rparr>"

section \<open>Stages\<close>

definition id_stage :: "u32 \<Rightarrow> u32 \<Rightarrow> bool \<Rightarrow> u32 \<Rightarrow> u32 \<Rightarrow> u32 \<Rightarrow> id_ex" where
  "id_stage pc inst commit csr_rdata rdata1 rdata2 =
     (let d = Decode_unit inst in
      \<lparr>pc_ex = pc, inst_ex = inst, csr_rdata_ex = csr_rdata, rdata1_ex = rdata1, rdata2_ex = rdata2,
       imm_ex = d_imm d, mem_access_ex = d_mem_access d, op_ex = d_alu_op d, br_type_ex = d_br_type d,
       wb_rf_sel_ex = d_wb_sel d, alu_rs1_sel_ex = d_rs1_sel d, alu_rs2_sel_ex = d_rs2_sel d,
       rf_we_ex = d_rf_we d, priv_vec_ex = d_priv_vec d, commit_ex = commit\<rparr>)"

text \<open>The stage EX on the operands after forwarding.\<close>

definition ex_alu :: "id_ex \<Rightarrow> u32 \<Rightarrow> u32 \<Rightarrow> u32" where
  "ex_alu x data1 data2 =
     ALU (Mux4_1 data1 (pc_ex x) 0 0 (alu_rs1_sel_ex x))
         (Mux4_1 data2 (imm_ex x) 4 (csr_rdata_ex x) (alu_rs2_sel_ex x)) (op_ex x)"

definition ex_stage :: "id_ex \<Rightarrow> u32 \<Rightarrow> u32 \<Rightarrow> ex_ls" where
  "ex_stage x data1 data2 =
     \<lparr>pc_ls = pc_ex x, inst_ls = inst_ex x, priv_vec_ls = priv_vec_ex x,
      csr_wdata_ls = Priv (part 14 12 (inst_ex x)) (csr_rdata_ex x) data1 (part 19 15 (inst_ex x)),
      alu_result_ls = ex_alu x data1 data2, mem_access_ls = mem_access_ex x, wb_rf_sel_ls = wb_rf_sel_ex x,
      rf_we_ls = rf_we_ex x, commit_ls = commit_ex x\<rparr>"

definition ex_branch :: "id_ex \<Rightarrow> u32 \<Rightarrow> u32 \<Rightarrow> bool \<times> u32" where
  "ex_branch x data1 data2 = Branch_unit (br_type_ex x) data1 data2 (pc_ex x) (imm_ex x)"

definition ex_write :: "id_ex \<Rightarrow> u32 \<Rightarrow> u32 \<Rightarrow> 4 word \<times> u32" where
  "ex_write x data1 data2 = DCache_Write_Ctrl data2 (ex_alu x data1 data2) (mem_access_ex x)"

definition ls_stage :: "ex_ls \<Rightarrow> u32 \<Rightarrow> ls_wb" where
  "ls_stage l dcache_rdata =
     \<lparr>pc_wb = pc_ls l, inst_wb = inst_ls l, alu_result_wb = alu_result_ls l,
      mem_rdata_wb = DCache_Read_Ctrl dcache_rdata (alu_result_ls l) (mem_access_ls l),
      priv_vec_wb = priv_vec_ls l, csr_wdata_wb = csr_wdata_ls l, wb_rf_sel_wb = wb_rf_sel_ls l,
      rf_we_wb = rf_we_ls l,
      uncache_read_wb = (part 31 28 (alu_result_ls l) = (0xa :: 4 word) \<and> bit (mem_access_ls l) LOAD_BIT),
      commit_wb = commit_ls l\<rparr>"

definition wb_data :: "ls_wb \<Rightarrow> u32" where
  "wb_data w = Mux2_1 (alu_result_wb w) (mem_rdata_wb w) (wb_rf_sel_wb w)"

section \<open>Hazards\<close>

definition forward :: "5 word \<Rightarrow> ex_ls \<Rightarrow> ls_wb \<Rightarrow> u32 \<Rightarrow> u32" where
  "forward rs l w rdata =
     (if rf_we_ls l \<and> part 11 7 (inst_ls l) = rs then alu_result_ls l
      else if rf_we_wb w \<and> part 11 7 (inst_wb w) = rs then wb_data w else rdata)"

definition load_use :: "id_ex \<Rightarrow> u32 \<Rightarrow> bool" where
  "load_use x inst =
     (let rd = (part 11 7 (inst_ex x) :: 5 word) in
      bit (mem_access_ex x) LOAD_BIT \<and> (rd = part 19 15 inst \<or> rd = part 24 20 inst))"

record hazards =
  pc_set :: bool
  pc_target :: u32
  IF1_IF2_flush :: bool
  IF2_ID_flush :: bool
  ID_EX_flush :: bool
  EX_LS_flush :: bool
  LS_WB_flush :: bool
  icache_flush :: bool
  pc_stall :: bool
  IF1_IF2_stall :: bool
  IF2_ID_stall :: bool
  ID_EX_stall :: bool
  EX_LS_stall :: bool
  LS_WB_stall :: bool
  icache_stall :: bool

definition Hazard :: "bool \<Rightarrow> bool \<Rightarrow> bool \<Rightarrow> bool \<Rightarrow> u32 \<Rightarrow> 5 word \<Rightarrow> u32 \<Rightarrow> u32 \<Rightarrow> u32 \<Rightarrow> u32 \<Rightarrow> hazards" where
  "Hazard by_load_use by_icache by_dcache jump jump_target priv_ex here mepc_global mtvec_global mcause =
     (let by_priv = (priv_ex \<noteq> 0); by_exp = (mcause \<noteq> 0);
          redirect = (jump \<or> by_priv \<or> by_exp); id_stall = (by_load_use \<or> by_dcache) in
      \<lparr>pc_set = redirect,
       pc_target = (if by_exp then mtvec_global
                    else if by_priv then (if bit priv_ex MRET then mepc_global else here + 4)
                    else jump_target),
       IF1_IF2_flush = redirect,
       IF2_ID_flush = ((jump \<or> by_icache) \<and> \<not> id_stall \<or> by_priv \<or> by_exp),
       ID_EX_flush = ((jump \<or> by_load_use \<or> by_priv) \<and> \<not> by_dcache \<or> by_exp),
       EX_LS_flush = by_exp, LS_WB_flush = by_exp, icache_flush = redirect,
       pc_stall = (by_load_use \<or> by_icache \<or> by_dcache),
       IF1_IF2_stall = (by_load_use \<or> by_icache \<or> by_dcache),
       IF2_ID_stall = id_stall, ID_EX_stall = by_dcache, EX_LS_stall = by_dcache, LS_WB_stall = by_dcache,
       icache_stall = id_stall\<rparr>)"

section \<open>The processor\<close>

record core =
  pc_if1 :: u32
  seg_if2 :: if1_if2
  seg_id :: if2_id
  seg_ex :: id_ex
  seg_ls :: ex_ls
  seg_wb :: ls_wb
  regfile :: "nat \<Rightarrow> u32"
  csrs :: csr_regs

text \<open>What the caches put out in a cycle.\<close>

record cache_out =
  icache_miss :: bool
  icache_rdata :: u32
  dcache_miss :: bool
  dcache_rdata :: u32

definition ex_data :: "core \<Rightarrow> u32 \<times> u32" where
  "ex_data s =
     (let x = seg_ex s; fw = (\<lambda>rs. forward rs (seg_ls s) (seg_wb s)) in
      (fw (part 19 15 (inst_ex x)) (rdata1_ex x), fw (part 24 20 (inst_ex x)) (rdata2_ex x)))"

definition mcause_global :: "core \<Rightarrow> u32" where
  "mcause_global s = Exp_Commit (priv_vec_wb (seg_wb s))"

definition cpu_hazards :: "cache_out \<Rightarrow> core \<Rightarrow> hazards" where
  "cpu_hazards c s =
     (let x = seg_ex s; (jump, target) = ex_branch x (fst (ex_data s)) (snd (ex_data s)) in
      Hazard (load_use x (inst_id (seg_id s))) (icache_miss c) (dcache_miss c) jump target (priv_vec_ex x) (pc_ex x)
        (r_mepc (csrs s)) (r_mtvec (csrs s)) (mcause_global s))"

text \<open>What the stage ID hands to EX.\<close>

definition cpu_id :: "core \<Rightarrow> id_ex" where
  "cpu_id s =
     (let i = seg_id s; w = seg_wb s; rf = (\<lambda>r. Regfile_read (regfile s) r (part 11 7 (inst_wb w)) (wb_data w) (rf_we_wb w)) in
      id_stage (pc_id i) (inst_id i) (commit_id i) (CSR_read (part 31 20 (inst_id i)) (csrs s))
        (rf (part 19 15 (inst_id i))) (rf (part 24 20 (inst_id i))))"

definition cpu_cycle :: "bool \<Rightarrow> cache_out \<Rightarrow> core \<Rightarrow> core" where
  "cpu_cycle rstn c s =
     (let h = cpu_hazards c s; w = seg_wb s; (data1, data2) = ex_data s in
      \<lparr>pc_if1 = (if \<not> rstn then PC_RESET_VALUE
                 else PC_next (pc_stall h) (pc_set h) (NPC_Mux (pc_if1 s) (pc_set h) (pc_target h)) (pc_if1 s)),
       seg_if2 = SegReg if1_if2_reset rstn (IF1_IF2_stall h) (IF1_IF2_flush h) \<lparr>pc_if2 = pc_if1 s, commit_if2 = rstn\<rparr> (seg_if2 s),
       seg_id = SegReg if2_id_reset rstn (IF2_ID_stall h) (IF2_ID_flush h)
                  \<lparr>pc_id = pc_if2 (seg_if2 s), inst_id = icache_rdata c, commit_id = commit_if2 (seg_if2 s)\<rparr> (seg_id s),
       seg_ex = SegReg id_ex_reset rstn (ID_EX_stall h) (ID_EX_flush h) (cpu_id s) (seg_ex s),
       seg_ls = SegReg ex_ls_reset rstn (EX_LS_stall h) (EX_LS_flush h) (ex_stage (seg_ex s) data1 data2) (seg_ls s),
       seg_wb = SegReg_LS_WB rstn (LS_WB_stall h) (LS_WB_flush h) (ls_stage (seg_ls s) (dcache_rdata c)) w,
       regfile = Regfile_write (part 11 7 (inst_wb w)) (wb_data w) (rf_we_wb w) (regfile s),
       csrs = (if \<not> rstn then CSR_reset
               else CSR_next (part 31 20 (inst_wb w)) (bit (priv_vec_wb w) CSR_RW) (csr_wdata_wb w) (pc_wb w)
                      (mcause_global s) (priv_vec_wb w) (csrs s))\<rparr>)"

text \<open>What the data cache is asked in a cycle: load, store, address, strobes and data.\<close>

record dcache_in =
  d_load :: bool
  d_store :: bool
  d_addr :: u32
  d_strb :: "4 word"
  d_data :: u32

definition dcache_request :: "core \<Rightarrow> dcache_in" where
  "dcache_request s =
     (let x = seg_ex s; (data1, data2) = ex_data s; (strb, d) = ex_write x data1 data2 in
      \<lparr>d_load = bit (mem_access_ex x) LOAD_BIT, d_store = bit (mem_access_ex x) STORE_BIT,
       d_addr = ex_alu x data1 data2, d_strb = strb, d_data = d\<rparr>)"

end
