(* ===== verification/Rtl_Isa.thy ===== *)
theory Rtl_Isa
  imports Rtl_Cpu Nemu_Cpu
begin

text \<open>
  What one instruction does that goes through the stages of \<open>Rtl_Cpu\<close> with no other one around, and
  that the decoder, the immediates and the ALU of the processor compute what \<open>inst.c\<close> of the
  reference emulator does.
\<close>

section \<open>One instruction alone\<close>

text \<open>
  What an instruction does that goes through the stages of the processor with no other one around:
  the same stages, the registers read and written, and the memory behind the data cache. The memory
  has bytes; the cache reads and writes words, a write only the bytes of its strobes.
\<close>

record arch =
  a_pc :: u32
  a_rf :: "nat \<Rightarrow> u32"
  a_csrs :: csr_regs
  a_mem :: "u32 \<Rightarrow> u8"

definition mem_word :: "(u32 \<Rightarrow> u8) \<Rightarrow> u32 \<Rightarrow> u32" where
  "mem_word m a = word_of_bytes (map (\<lambda>k. m ((a AND NOT 3) + of_nat k)) [0..<4])"

definition mem_put :: "u32 \<Rightarrow> 4 word \<Rightarrow> u32 \<Rightarrow> (u32 \<Rightarrow> u8) \<Rightarrow> u32 \<Rightarrow> u8" where
  "mem_put a strb d m =
     (\<lambda>b. if b AND NOT 3 = a AND NOT 3 \<and> bit strb (unat (b AND 3)) then ucast (drop_bit (8 * unat (b AND 3)) d) else m b)"

definition arch_ex :: "u32 \<Rightarrow> arch \<Rightarrow> id_ex" where
  "arch_ex inst a =
     id_stage (a_pc a) inst True (CSR_read (part 31 20 inst) (a_csrs a))
       (a_rf a (unat (part 19 15 inst :: 5 word))) (a_rf a (unat (part 24 20 inst :: 5 word)))"

definition arch_wb :: "u32 \<Rightarrow> arch \<Rightarrow> ls_wb" where
  "arch_wb inst a =
     (let x = arch_ex inst a; l = ex_stage x (rdata1_ex x) (rdata2_ex x) in
      ls_stage l (mem_word (a_mem a) (alu_result_ls l)))"

definition arch_mem :: "u32 \<Rightarrow> arch \<Rightarrow> u32 \<Rightarrow> u8" where
  "arch_mem inst a =
     (let x = arch_ex inst a; (strb, d) = ex_write x (rdata1_ex x) (rdata2_ex x) in
      if bit (mem_access_ex x) STORE_BIT then mem_put (ex_alu x (rdata1_ex x) (rdata2_ex x)) strb d (a_mem a) else a_mem a)"

definition arch_npc :: "u32 \<Rightarrow> arch \<Rightarrow> u32" where
  "arch_npc inst a =
     (let x = arch_ex inst a; (jump, target) = ex_branch x (rdata1_ex x) (rdata2_ex x) in
      if Exp_Commit (priv_vec_ex x) \<noteq> 0 then r_mtvec (a_csrs a)
      else if priv_vec_ex x \<noteq> 0 then (if bit (priv_vec_ex x) MRET then r_mepc (a_csrs a) else a_pc a + 4)
      else if jump then target else a_pc a + 4)"

definition rtl_exec :: "u32 \<Rightarrow> arch \<Rightarrow> arch" where
  "rtl_exec inst a =
     (let w = arch_wb inst a in
      \<lparr>a_pc = arch_npc inst a,
       a_rf = Regfile_write (part 11 7 inst) (wb_data w) (rf_we_wb w) (a_rf a),
       a_csrs = CSR_next (part 31 20 inst) (bit (priv_vec_wb w) CSR_RW) (csr_wdata_wb w) (a_pc a)
                  (Exp_Commit (priv_vec_wb w)) (priv_vec_wb w) (a_csrs a),
       a_mem = arch_mem inst a\<rparr>)"

section \<open>Fields and immediates\<close>

lemma bit_part: "bit (part hi lo x :: 'a::len word) n \<longleftrightarrow> n < LENGTH('a) \<and> n \<le> hi - lo \<and> bit x (lo + n)"
  by (auto simp: part_def bit_simps)

lemma part_ucast:
  "(part 6 0 i :: 7 word) = ucast (opcode i)" "(part 14 12 i :: 3 word) = ucast (funct3 i)"
  "(part 11 7 i :: 5 word) = ucast (rd_field i)" "(part 19 15 i :: 5 word) = ucast (rs1_field i)"
  "(part 24 20 i :: 5 word) = ucast (rs2_field i)" "(part 19 15 i :: u32) = rs1_field i"
  by (simp_all add: part_def field_defs)

lemma part_eq_iff:
  assumes "LENGTH('a) = hi - lo + 1" and "LENGTH('a) \<le> 32"
  shows "part hi lo x = (w :: 'a::len word) \<longleftrightarrow> take_bit (hi - lo + 1) (drop_bit lo x) = ucast w"
proof -
  have up: "ucast (part hi lo x :: 'a word) = take_bit (hi - lo + 1) (drop_bit lo x)"
    using assms by (intro bit_word_eqI) (auto simp: bit_part bit_simps)
  have down: "ucast (ucast v :: u32) = v" for v :: "'a word"
    using assms(2) by (intro bit_word_eqI) (simp add: bit_simps)
  show ?thesis unfolding up [symmetric] using down by metis
qed

lemma part_field:
  "part 6 0 i = (w :: 7 word) \<longleftrightarrow> opcode i = ucast w"
  "part 14 12 i = (v :: 3 word) \<longleftrightarrow> funct3 i = ucast v"
  "part 11 7 i = (u :: 5 word) \<longleftrightarrow> rd_field i = ucast u"
  by (simp_all add: part_eq_iff field_defs)

lemma reg_less: "unat (rd_field i) < 32" "unat (rs1_field i) < 32" "unat (rs2_field i) < 32"
  using unat_take_bit_less [of 5] by (simp_all add: field_defs)

lemma unat_part:
  "unat (part 11 7 i :: 5 word) = unat (rd_field i)" "unat (part 19 15 i :: 5 word) = unat (rs1_field i)"
  "unat (part 24 20 i :: 5 word) = unat (rs2_field i)"
  using reg_less [of i] by (simp_all add: part_ucast unsigned_ucast_eq take_bit_nat_eq_self)

lemma unat_BITS:
  "unat (BITS i 11 7) = unat (rd_field i)" "unat (BITS i 19 15) = unat (rs1_field i)"
  "unat (BITS i 24 20) = unat (rs2_field i)"
proof -
  have "BITS i 11 7 = ucast (rd_field i)" "BITS i 19 15 = ucast (rs1_field i)" "BITS i 24 20 = ucast (rs2_field i)"
    by (rule bit_word_eqI; auto simp: bit_BITS field_defs bit_simps)+
  then show "unat (BITS i 11 7) = unat (rd_field i)" "unat (BITS i 19 15) = unat (rs1_field i)"
    "unat (BITS i 24 20) = unat (rs2_field i)"
    using reg_less [of i] by (simp_all add: unsigned_ucast_eq take_bit_nat_eq_self)
qed

lemma imm_eq: "imm_I i = immI i" "imm_S i = immS i" "imm_B i = immB i" "imm_U i = immU i" "imm_J i = immJ i"
  unfolding word32_eq_iff
  by (simp_all add: imm_bits_below imm_I_def imm_S_def imm_B_def imm_U_def imm_J_def all_less_numeral
      bit_or_iff bit_push_bit_iff bit_part copies_def bit_mask_iff bit_take_bit_iff numeral_2_eq_2 [symmetric] del: push_bit_Suc)

section \<open>The ALU\<close>

lemma sint_sign: "sint (w :: u32) = uint w - (if bit w 31 then 2 ^ 32 else 0)"
proof -
  have "sint w = signed_take_bit 31 (uint w)" by (simp add: sint_uint)
  also have "\<dots> = take_bit 32 (uint w) - (if bit (uint w) 31 then 2 ^ 32 else 0)"
    by (simp add: signed_take_bit_eq_take_bit_minus)
  also have "take_bit 32 (uint w) = uint w" using uint_lt2p [of w] by (simp add: take_bit_int_eq_self)
  finally show ?thesis by (simp add: bit_uint_iff)
qed

lemma uint_abs: "uint (if bit (w :: u32) 31 then - w else w) = \<bar>sint w\<bar>"
proof (cases "bit w 31")
  case True
  have "uint w < 2 ^ 32" using uint_lt2p [of w] by simp
  moreover have "w \<noteq> 0" using True by auto
  then have "0 < uint w" by (metis order_le_less uint_0_iff uint_ge_0)
  ultimately have "(- uint w) mod 2 ^ 32 = 2 ^ 32 - uint w" by (simp add: zmod_zminus1_eq_if)
  then show ?thesis using True \<open>uint w < 2 ^ 32\<close> by (simp add: sint_sign uint_word_ariths(4))
next
  case False
  then show ?thesis by (simp add: sint_sign)
qed

lemma div_rem_signed:
  fixes a b :: u32
  defines "A \<equiv> if bit a 31 then - a else a" and "B \<equiv> if bit b 31 then - b else b"
  shows "(if bit a 31 \<noteq> bit b 31 then - (A div B) else A div B) = word_of_int (sint a sdiv sint b)"
    "(if bit a 31 then - (A mod B) else A mod B) = word_of_int (sint a smod sint b)"
proof -
  have A: "uint A = \<bar>sint a\<bar>" and B: "uint B = \<bar>sint b\<bar>" by (simp_all only: A_def B_def uint_abs)
  have div: "A div B = word_of_int (\<bar>sint a\<bar> div \<bar>sint b\<bar>)" by (simp add: word_div_def A B)
  have rem: "A mod B = word_of_int (\<bar>sint a\<bar> mod \<bar>sint b\<bar>)" by (simp add: word_mod_def A B)
  have neg: "bit w 31 \<longleftrightarrow> sint w < 0" for w :: u32
    using uint_lt2p [of w] by (simp add: sint_sign)
  show "(if bit a 31 \<noteq> bit b 31 then - (A div B) else A div B) = word_of_int (sint a sdiv sint b)"
    "(if bit a 31 then - (A mod B) else A mod B) = word_of_int (sint a smod sint b)"
    unfolding div rem neg signed_divide_int_def signed_modulo_int_def by (auto simp: sgn_if)
qed

lemma ALU_values:
  "ALU a b 0 = a + b" "ALU a b 0x10 = a - b" "ALU a b 7 = a AND b" "ALU a b 2 = of_bool (sint a < sint b)"
  "ALU a b 3 = of_bool (a < b)" "ALU a b 6 = a OR b" "ALU a b 4 = a XOR b"
  "ALU a b 1 = push_bit (unat (take_bit 5 b)) a" "ALU a b 5 = drop_bit (unat (take_bit 5 b)) a"
  "ALU a b 0x15 = signed_drop_bit (unat (take_bit 5 b)) a"
  by (simp_all add: ALU_def alu_codes Let_def case_prod_unfold)

lemma ALU_muldiv:
  assumes "src1 p = a" and "src2 p = b"
  shows "ALU a b 0x8 = muldiv_value I_mul p" "ALU a b 0x9 = muldiv_value I_mulh p"
    "ALU a b 0xa = muldiv_value I_mulhsu p" "ALU a b 0xb = muldiv_value I_mulhu p"
    "ALU a b 0xd = muldiv_value I_divu p" "ALU a b 0xf = muldiv_value I_remu p"
proof -
  have low: "(ucast (scast a * scast b :: u64) :: u32) = a * b"
  proof -
    have "scast a * scast b = (word_of_int (sint a * sint b) :: u64)" by simp
    moreover have "(ucast (word_of_int k :: u64) :: u32) = word_of_int k" for k
      by (rule bit_word_eqI) (simp add: bit_ucast_iff bit_word_of_int_iff)
    ultimately have "(ucast (scast a * scast b :: u64) :: u32) = word_of_int (sint a * sint b)" by (simp only:)
    then show ?thesis by simp
  qed
  show "ALU a b 0x8 = muldiv_value I_mul p" "ALU a b 0x9 = muldiv_value I_mulh p"
    "ALU a b 0xa = muldiv_value I_mulhsu p" "ALU a b 0xb = muldiv_value I_mulhu p"
    "ALU a b 0xd = muldiv_value I_divu p" "ALU a b 0xf = muldiv_value I_remu p"
    using assms low
    by (simp_all add: ALU_def ALU_result_64_def ALU_div_rem_def alu_codes Let_def case_prod_unfold muldiv_value_def high_word_signed)
qed

lemma ALU_signed_div:
  assumes "src1 p = a" and "src2 p = b"
  shows "ALU a b 0xc = muldiv_value I_div p" "ALU a b 0xe = muldiv_value I_rem p"
proof -
  have div: "ALU a b 0xc = (if b = 0 then - 1 else word_of_int (sint a sdiv sint b))"
    "ALU a b 0xe = (if b = 0 then a else word_of_int (sint a smod sint b))"
    unfolding div_rem_signed [symmetric]
    by (simp_all add: ALU_def ALU_div_rem_def alu_codes Let_def)
  show "ALU a b 0xc = muldiv_value I_div p" "ALU a b 0xe = muldiv_value I_rem p"
    unfolding div muldiv_value_def using assms by (auto simp: signed_divide_int_def signed_modulo_int_def signed_eq_0_iff)
qed

section \<open>What is decoded\<close>

text \<open>The operands of the emulator, by the format of the instruction.\<close>

definition ops :: "CPU_state \<Rightarrow> u32 \<Rightarrow> inst_type \<Rightarrow> operands" where
  "ops c i ty =
     \<lparr>rd = unat (rd_field i),
      src1 = (if ty \<in> {TYPE_I, TYPE_S, TYPE_B, TYPE_R, TYPE_RI} then gpr c (unat (rs1_field i)) else 0),
      src2 = (if ty \<in> {TYPE_S, TYPE_B, TYPE_R} then gpr c (unat (rs2_field i)) else 0),
      imm = (case ty of TYPE_I \<Rightarrow> immI i | TYPE_U \<Rightarrow> immU i | TYPE_S \<Rightarrow> immS i | TYPE_J \<Rightarrow> immJ i | TYPE_B \<Rightarrow> immB i
             | TYPE_R \<Rightarrow> 0 | TYPE_RI \<Rightarrow> immRI i | TYPE_N \<Rightarrow> 0)\<rparr>"

lemma decode_operand_ops:
  "decode_operand c i ty no_operands = Inr (ops c i ty)"
  using reg_less [of i]
  by (cases ty) (simp_all add: decode_operand_def ops_def no_operands_def unat_BITS get_R_eq)

text \<open>The low bits of a word and of its opcode.\<close>

lemma opcode_bits:
  "bit i 2 = bit (opcode i) 2" "bit i 3 = bit (opcode i) 3" "(part 1 0 i :: 2 word) = ucast (opcode i)"
proof -
  show "bit i 2 = bit (opcode i) 2" "bit i 3 = bit (opcode i) 3" by (simp_all add: opcode_def bit_simps)
  show "(part 1 0 i :: 2 word) = ucast (opcode i)"
    by (rule bit_word_eqI) (auto simp: bit_part opcode_def bit_simps)
qed

lemma funct7_bits: "bit i 30 = bit (funct7 i) 5" "bit i 25 = bit (funct7 i) 0"
  by (simp_all add: funct7_def bit_simps)

lemma no_priv: "opcode i \<noteq> 0x73 \<Longrightarrow> opcode i \<noteq> 0xf \<Longrightarrow> Decode_priv_vec i = 0"
  by (simp add: Decode_priv_vec_def part_field)

text \<open>An instruction that only computes.\<close>

lemma CSR_idle: "CSR_next w False v p 0 0 s = s"
  by (simp add: CSR_next_def)

lemma no_jump: "\<not> bit br 4 \<Longrightarrow> fst (Branch_unit br a b p n) = False"
  by (simp add: Branch_unit_def Let_def)

lemma rtl_exec_plain:
  assumes "d = Decode_unit i" and "d_mem_access d = 0" and "d_priv_vec d = 0" and "\<not> bit (d_br_type d) 4" and "\<not> d_wb_sel d"
    and "d_rf_we d = (rd_field i \<noteq> 0)" and "x = arch_ex i a" and "v = ex_alu x (rdata1_ex x) (rdata2_ex x)"
  shows "rtl_exec i a = a\<lparr>a_pc := a_pc a + 4,
    a_rf := if rd_field i \<noteq> 0 then (a_rf a)(unat (rd_field i) := v) else a_rf a\<rparr>"
proof -
  have x: "mem_access_ex x = 0" "priv_vec_ex x = 0" "br_type_ex x = d_br_type d" "wb_rf_sel_ex x = False"
    "rf_we_ex x = (rd_field i \<noteq> 0)"
    using assms by (simp_all add: arch_ex_def id_stage_def Let_def)
  have "arch_npc i a = a_pc a + 4"
    using x no_jump [OF assms(4)] by (simp add: arch_npc_def assms(7) [symmetric] ex_branch_def Exp_Commit_def case_prod_unfold Let_def)
  moreover have "arch_mem i a = a_mem a"
    using x by (simp add: arch_mem_def assms(7) [symmetric] Let_def case_prod_unfold)
  moreover have "priv_vec_wb (arch_wb i a) = 0" "rf_we_wb (arch_wb i a) = (rd_field i \<noteq> 0)" "wb_data (arch_wb i a) = v"
    using x assms(8) by (simp_all add: arch_wb_def assms(7) [symmetric] ls_stage_def ex_stage_def wb_data_def Mux2_1_def Let_def)
  ultimately show ?thesis
    by (simp add: rtl_exec_def Let_def CSR_idle Exp_Commit_def Regfile_write_def unat_part)
qed

text \<open>The unit by opcode.\<close>

abbreviation br_plain :: "u32 \<Rightarrow> 5 word" where
  "br_plain i \<equiv> cat_2_3 False (bit (opcode i) 2) (ucast (funct3 i))"

lemma ucast_funct3: "(ucast (funct3 i) :: 3 word) = v \<longleftrightarrow> funct3 i = ucast v"
  by (simp only: part_ucast [symmetric] part_field)

lemmas decode_rules = Decode_unit_def Let_def part_field imm_eq rtl_constants part_ucast(2) ucast_funct3
  no_priv cat_111_2_def

lemma Decode_37: "opcode i = 0x37 \<Longrightarrow> Decode_unit i = \<lparr>d_alu_op = 0, d_mem_access = 0, d_imm = immU i, d_rf_we = rd_field i \<noteq> 0,
     d_rs1_sel = 2, d_rs2_sel = 1, d_wb_sel = False, d_br_type = cat_2_3 False False (ucast (funct3 i)), d_priv_vec = 0\<rparr>"
  by (simp add: decode_rules opcode_bits [of i, unfolded One_nat_def] funct7_bits [of i])

lemma Decode_17: "opcode i = 0x17 \<Longrightarrow> Decode_unit i = \<lparr>d_alu_op = 0, d_mem_access = 0, d_imm = immU i, d_rf_we = rd_field i \<noteq> 0,
     d_rs1_sel = 1, d_rs2_sel = 1, d_wb_sel = False, d_br_type = br_plain i, d_priv_vec = 0\<rparr>"
  by (simp add: decode_rules opcode_bits [of i, unfolded One_nat_def] funct7_bits [of i])

lemma Decode_6f: "opcode i = 0x6f \<Longrightarrow> Decode_unit i = \<lparr>d_alu_op = 0, d_mem_access = 0, d_imm = immJ i, d_rf_we = rd_field i \<noteq> 0,
     d_rs1_sel = 1, d_rs2_sel = 2, d_wb_sel = False, d_br_type = 0x1f, d_priv_vec = 0\<rparr>"
  by (simp add: decode_rules opcode_bits [of i, unfolded One_nat_def] funct7_bits [of i])

lemma Decode_67: "opcode i = 0x67 \<Longrightarrow> Decode_unit i = \<lparr>d_alu_op = 0, d_mem_access = 0, d_imm = immI i, d_rf_we = rd_field i \<noteq> 0,
     d_rs1_sel = 1, d_rs2_sel = 2, d_wb_sel = False, d_br_type = 0x1b, d_priv_vec = 0\<rparr>"
  by (simp add: decode_rules opcode_bits [of i, unfolded One_nat_def] funct7_bits [of i])

lemma Decode_63: "opcode i = 0x63 \<Longrightarrow> Decode_unit i = \<lparr>d_alu_op = 0, d_mem_access = 0, d_imm = immB i, d_rf_we = False,
     d_rs1_sel = 0, d_rs2_sel = 0, d_wb_sel = False, d_br_type = cat_2_3 True False (ucast (funct3 i)), d_priv_vec = 0\<rparr>"
  by (simp add: decode_rules opcode_bits [of i, unfolded One_nat_def] funct7_bits [of i])

lemma Decode_03: "opcode i = 0x03 \<Longrightarrow> Decode_unit i = \<lparr>d_alu_op = 0, d_mem_access = cat_2_3 False True (ucast (funct3 i)), d_imm = immI i,
     d_rf_we = rd_field i \<noteq> 0, d_rs1_sel = 0, d_rs2_sel = 1, d_wb_sel = True, d_br_type = br_plain i, d_priv_vec = 0\<rparr>"
  by (simp add: decode_rules opcode_bits [of i, unfolded One_nat_def] funct7_bits [of i])

lemma Decode_23: "opcode i = 0x23 \<Longrightarrow> Decode_unit i = \<lparr>d_alu_op = 0, d_mem_access = cat_2_3 True False (ucast (funct3 i)), d_imm = immS i,
     d_rf_we = False, d_rs1_sel = 0, d_rs2_sel = 1, d_wb_sel = False, d_br_type = br_plain i, d_priv_vec = 0\<rparr>"
  by (simp add: decode_rules opcode_bits [of i, unfolded One_nat_def] funct7_bits [of i])

lemma Decode_13: "opcode i = 0x13 \<Longrightarrow> Decode_unit i = \<lparr>d_alu_op = cat_2_3 (funct3 i = 5 \<and> bit (funct7 i) 5) False (ucast (funct3 i)),
     d_mem_access = 0, d_imm = immI i, d_rf_we = rd_field i \<noteq> 0, d_rs1_sel = 0, d_rs2_sel = 1, d_wb_sel = False,
     d_br_type = br_plain i, d_priv_vec = 0\<rparr>"
  by (simp add: decode_rules opcode_bits [of i, unfolded One_nat_def] funct7_bits [of i])

lemma Decode_33: "opcode i = 0x33 \<Longrightarrow> Decode_unit i = \<lparr>d_alu_op = cat_2_3 (bit (funct7 i) 5) (bit (funct7 i) 0) (ucast (funct3 i)),
     d_mem_access = 0, d_imm = 0, d_rf_we = rd_field i \<noteq> 0, d_rs1_sel = 0, d_rs2_sel = 0, d_wb_sel = False,
     d_br_type = br_plain i, d_priv_vec = 0\<rparr>"
  by (simp add: decode_rules opcode_bits [of i, unfolded One_nat_def] funct7_bits [of i])

lemma Decode_73: "opcode i = 0x73 \<Longrightarrow> Decode_unit i = \<lparr>d_alu_op = 0, d_mem_access = 0, d_imm = 0,
     d_rf_we = (rd_field i \<noteq> 0 \<and> funct3 i \<noteq> 0), d_rs1_sel = 2, d_rs2_sel = 3, d_wb_sel = False,
     d_br_type = br_plain i, d_priv_vec = Decode_priv_vec i\<rparr>"
  by (simp add: decode_rules opcode_bits [of i, unfolded One_nat_def] funct7_bits [of i])

lemma Decode_0f: "opcode i = 0x0f \<Longrightarrow> Decode_unit i = \<lparr>d_alu_op = 0, d_mem_access = 0, d_imm = 0, d_rf_we = False,
     d_rs1_sel = 0, d_rs2_sel = 0, d_wb_sel = False, d_br_type = 0, d_priv_vec = Decode_priv_vec i\<rparr>"
  by (simp add: decode_rules opcode_bits [of i, unfolded One_nat_def] funct7_bits [of i])

lemmas Decode_opcode = Decode_37 Decode_17 Decode_6f Decode_67 Decode_63 Decode_03 Decode_23 Decode_13 Decode_33 Decode_73 Decode_0f

section \<open>Instructions that compute\<close>

text \<open>What the ALU computes for an instruction.\<close>

definition arch_alu :: "u32 \<Rightarrow> arch \<Rightarrow> u32" where
  "arch_alu i a =
     (let d = Decode_unit i in
      ALU (Mux4_1 (a_rf a (unat (rs1_field i))) (a_pc a) 0 0 (d_rs1_sel d))
        (Mux4_1 (a_rf a (unat (rs2_field i))) (d_imm d) 4 (CSR_read (part 31 20 i) (a_csrs a)) (d_rs2_sel d)) (d_alu_op d))"

lemma arch_ex_alu: "ex_alu (arch_ex i a) (rdata1_ex (arch_ex i a)) (rdata2_ex (arch_ex i a)) = arch_alu i a"
  by (simp add: ex_alu_def arch_ex_def arch_alu_def id_stage_def unat_part Let_def)

definition plain :: "decoded \<Rightarrow> bool" where
  "plain d \<longleftrightarrow> d_mem_access d = 0 \<and> d_priv_vec d = 0 \<and> \<not> bit (d_br_type d) 4 \<and> \<not> d_wb_sel d"

lemma rtl_exec_compute:
  assumes "plain (Decode_unit i)" and "d_rf_we (Decode_unit i) = (rd_field i \<noteq> 0)"
  shows "rtl_exec i a = a\<lparr>a_pc := a_pc a + 4,
    a_rf := if rd_field i \<noteq> 0 then (a_rf a)(unat (rd_field i) := arch_alu i a) else a_rf a\<rparr>"
  using assms rtl_exec_plain [OF refl _ _ _ _ _ refl refl] by (simp add: plain_def arch_ex_alu)

lemma br_plain: "\<not> bit (cat_2_3 False b (ucast (funct3 i))) 4"
proof -
  have "bit (ucast (ucast (funct3 i) :: 3 word) :: 5 word) 4 = False" by (simp add: bit_simps)
  then show ?thesis by (cases b) (simp_all add: cat_2_3_def bit_or_iff)
qed

lemma shamt_imm: "take_bit 5 (immI i) = immRI i"
  unfolding word32_eq_iff by (simp add: imm_bits_below bit_take_bit_iff)

lemma shamt_reg: "unat (take_bit 5 (r :: u32)) = unat (BITS r 4 0)"
  by (simp only: unat_shamt unsigned_take_bit_eq) (simp add: take_bit_eq_mod)

lemma src_ops:
  assumes "\<forall>k < 32. a_rf a k = gpr c k"
  shows "ty \<in> {TYPE_I, TYPE_S, TYPE_B, TYPE_R, TYPE_RI} \<Longrightarrow> a_rf a (unat (rs1_field i)) = src1 (ops c i ty)"
    "ty \<in> {TYPE_S, TYPE_B, TYPE_R} \<Longrightarrow> a_rf a (unat (rs2_field i)) = src2 (ops c i ty)"
  using assms reg_less [of i] by (simp_all add: ops_def)

lemmas f3_cases = funct3_cases [unfolded insert_iff empty_iff]

lemma alu_imm:
  assumes "opcode i = 0x13" and "rv_decode i = (Alu op, ty)" and "\<forall>k < 32. a_rf a k = gpr c k"
  shows "arch_alu i a = alu_value op (ops c i ty) (a_pc a)"
proof -
  have s: "a_rf a (unat (rs1_field i)) = gpr c (unat (rs1_field i))" using assms(3) reg_less [of i] by simp
  have "funct3 i \<in> {1, 5} \<Longrightarrow> funct7 i = 0 \<or> funct3 i = 5 \<and> funct7 i = 0x20"
    using assms(1,2) by (auto simp: rv_decode_def Let_def split: if_splits)
  then show ?thesis
    using f3_cases [of i] assms(1,2) s
    by (elim disjE; auto simp: arch_alu_def Decode_13 Mux4_1_def cat_2_3_def ALU_values rv_decode_def Let_def
        alu_value_def ops_def flag_def shamt_imm)
qed

lemma alu_reg:
  assumes "opcode i = 0x33" and "rv_decode i = (Alu op, ty)" and "\<forall>k < 32. a_rf a k = gpr c k"
  shows "arch_alu i a = alu_value op (ops c i ty) (a_pc a)"
proof -
  have s: "a_rf a (unat (rs1_field i)) = gpr c (unat (rs1_field i))" "a_rf a (unat (rs2_field i)) = gpr c (unat (rs2_field i))"
    using assms(3) reg_less [of i] by simp_all
  have "funct7 i = 0 \<or> funct7 i = 0x20 \<and> (funct3 i = 0 \<or> funct3 i = 5)"
    using assms(1,2) by (auto simp: rv_decode_def Let_def split: if_splits)
  then show ?thesis
    using f3_cases [of i] assms(1,2) s
    by (elim disjE; auto simp: arch_alu_def Decode_33 Mux4_1_def cat_2_3_def ALU_values rv_decode_def Let_def
        alu_value_def ops_def flag_def shamt_reg)
qed

lemma muldiv_reg:
  assumes "rv_decode i = (Muldiv op, ty)" and "\<forall>k < 32. a_rf a k = gpr c k"
  shows "arch_alu i a = muldiv_value op (ops c i ty)"
proof -
  have o: "opcode i = 0x33" "funct7 i = 1" "ty = TYPE_R"
    using assms(1) by (auto simp: rv_decode_def Let_def split: if_splits)
  have s: "src1 (ops c i TYPE_R) = gpr c (unat (rs1_field i))" "src2 (ops c i TYPE_R) = gpr c (unat (rs2_field i))"
    "a_rf a (unat (rs1_field i)) = gpr c (unat (rs1_field i))" "a_rf a (unat (rs2_field i)) = gpr c (unat (rs2_field i))"
    using assms(2) reg_less [of i] by (simp_all add: ops_def)
  note alu = ALU_muldiv [OF s(1,2)] ALU_signed_div [OF s(1,2)]
  have "arch_alu i a = ALU (gpr c (unat (rs1_field i))) (gpr c (unat (rs2_field i))) (cat_2_3 False True (ucast (funct3 i)))"
    by (simp add: arch_alu_def Decode_33 [OF o(1)] Mux4_1_def s o(2))
  then show ?thesis
    using f3_cases [of i] assms(1)
    by (elim disjE; auto simp: cat_2_3_def alu rv_decode_def o Let_def)
qed

lemma alu_upper:
  assumes "rv_decode i = (Alu op, ty)" and "opcode i = 0x37 \<or> opcode i = 0x17"
  shows "arch_alu i a = alu_value op (ops c i ty) (a_pc a)"
  using assms by (auto simp: rv_decode_def arch_alu_def Decode_37 Decode_17 Mux4_1_def ALU_values alu_value_def ops_def)

lemma rv_decode_alu:
  "rv_decode i = (Alu op, ty) \<Longrightarrow> opcode i = 0x37 \<or> opcode i = 0x17 \<or> opcode i = 0x13 \<or> opcode i = 0x33"
  "rv_decode i = (Muldiv mop, ty) \<Longrightarrow> opcode i = 0x33"
  by (auto simp: rv_decode_def Let_def split: if_splits)

lemma plain_opcode:
  "opcode i \<in> {0x37, 0x17, 0x13, 0x33} \<Longrightarrow> plain (Decode_unit i) \<and> d_rf_we (Decode_unit i) = (rd_field i \<noteq> 0)"
  using br_plain [of _ i] by (auto simp: plain_def Decode_opcode)

end
