(* ===== verification/Rtl_Nemu.thy ===== *)
theory Rtl_Nemu
  imports Rtl_Isa
begin

text \<open>
  The processor against the reference emulator, instruction by instruction: with the same registers,
  CSRs and memory before, they have the same after it. Loads and stores go through the word access
  of the data cache with its strobes; jumps, branches, CSR instructions, traps and fences follow.
\<close>

section \<open>Words of the memory\<close>

lemma mod4: "unat (take_bit 2 (a :: u32)) = unat a mod 4" "unat ((a :: u32) AND 3) = unat a mod 4"
proof -
  show "unat (take_bit 2 a) = unat a mod 4" by (simp only: unsigned_take_bit_eq) (simp add: take_bit_eq_mod)
  moreover have "a AND 3 = take_bit 2 a" by (simp add: take_bit_eq_mask mask_eq_exp_minus_1)
  ultimately show "unat (a AND 3) = unat a mod 4" by simp
qed

lemma unat_u32: "unat (a :: u32) < 2 ^ 32"
  using unsigned_less [of a] by simp

lemma base4: "unat ((a :: u32) AND NOT 3) = 4 * (unat a div 4)"
proof -
  have "a AND NOT 3 = push_bit 2 (drop_bit 2 a)"
    using word_and_not_mask [of a 2] by (simp add: mask_eq_exp_minus_1)
  then have "unat (a AND NOT 3) = take_bit 32 (push_bit 2 (unat a div 4))"
    using unat_u32 [of a]
    by (simp only: unsigned_push_bit_eq unsigned_drop_bit_eq) (simp add: drop_bit_eq_div take_bit_nat_eq_self)
  also have "\<dots> = 4 * (unat a div 4)"
    using unat_u32 [of a] by (simp add: push_bit_eq_mult take_bit_nat_eq_self)
  finally show ?thesis .
qed

lemma base_plus:
  assumes "j < 4 - unat (a :: u32) mod 4"
  shows "(a AND NOT 3) + of_nat (unat a mod 4 + j) = a + of_nat j"
proof -
  have "(a AND NOT 3) + of_nat (unat a mod 4) = a"
  proof -
    have "of_nat (unat (a AND NOT 3)) + of_nat (unat a mod 4) = (of_nat (4 * (unat a div 4) + unat a mod 4) :: u32)"
      by (simp only: base4 of_nat_add)
    then show ?thesis by (simp only: mult_div_mod_eq) simp
  qed
  then show ?thesis by (simp add: add.assoc [symmetric])
qed

lemma bit_mem_word: "bit (mem_word m a) k \<longleftrightarrow> k < 32 \<and> bit (m ((a AND NOT 3) + of_nat (k div 8))) (k mod 8)"
  by (auto simp: mem_word_def bit_word_of_bytes simp del: upt_Suc)

lemma mem_word_part:
  assumes "unat a mod 4 + n \<le> 4"
  shows "take_bit (8 * n) (drop_bit (8 * unat (take_bit 2 a)) (mem_word m a)) = word_of_bytes (map (\<lambda>k. m (a + of_nat k)) [0..<n])"
proof (rule bit_word_eqI)
  fix k assume "k < LENGTH(32)"
  have "(8 * (unat a mod 4) + k) div 8 = unat a mod 4 + k div 8" "(8 * (unat a mod 4) + k) mod 8 = k mod 8" by simp_all
  moreover have "k < 8 * n \<longleftrightarrow> k div 8 < n" by auto
  moreover have "k div 8 < n \<Longrightarrow> (a AND NOT 3) + of_nat (unat a mod 4 + k div 8) = a + of_nat (k div 8)"
    using assms by (intro base_plus) linarith
  moreover have "k div 8 < n \<Longrightarrow> 8 * (unat a mod 4) + k < 32" using assms by linarith
  ultimately show "bit (take_bit (8 * n) (drop_bit (8 * unat (take_bit 2 a)) (mem_word m a))) k =
      bit (word_of_bytes (map (\<lambda>k. m (a + of_nat k)) [0..<n]) :: u32) k"
    using \<open>k < LENGTH(32)\<close> by (auto simp: bit_take_bit_iff bit_drop_bit_eq bit_mem_word bit_word_of_bytes mod4 simp del: of_nat_add)
qed

section \<open>Loads and stores\<close>

text \<open>The memory behind the cache is that of the emulator.\<close>

definition same_memory :: "(u32 \<Rightarrow> u8) \<Rightarrow> bytes \<Rightarrow> bool" where
  "same_memory mem p \<longleftrightarrow> (\<forall>b. in_pmem b \<longrightarrow> mem b = p (offset_of b))"

definition aligned :: "u32 \<Rightarrow> nat \<Rightarrow> bool" where
  "aligned a n \<longleftrightarrow> n \<in> {1, 2, 4} \<and> unat a mod n = 0"

lemma aligned_within: "aligned a n \<Longrightarrow> unat a mod 4 + n \<le> 4"
  by (auto simp: aligned_def) presburger+

lemma unat_step:
  assumes "valid_access a n" and "k < n"
  shows "unat (a + of_nat k) = unat a + k" "in_pmem (a + of_nat k)" "offset_of (a + of_nat k) = offset_of a + k"
proof -
  have k: "unat (of_nat k :: u32) = k" using assms by (auto simp: valid_access_def unat_of_nat)
  have b: "unat a + k < 0x88000000" "0x80000000 \<le> unat a" using assms by (auto simp: valid_access_def)
  show u: "unat (a + of_nat k) = unat a + k" using b k by (subst unat_add_lem [THEN iffD1]) simp_all
  show "in_pmem (a + of_nat k)" "offset_of (a + of_nat k) = offset_of a + k"
    using b by (simp_all add: in_pmem_iff u)
qed

lemma load_bytes:
  assumes "same_memory mem p" and "valid_access a n" and "aligned a n"
  shows "paddr_read p a n = Inr (take_bit (8 * n) (drop_bit (8 * unat (take_bit 2 a)) (mem_word mem a)))"
proof -
  have "map (\<lambda>k. mem (a + of_nat k)) [0..<n] = load p (offset_of a) n"
    using assms(1) unat_step [OF assms(2)] by (intro nth_equalityI) (simp_all add: nth_load same_memory_def)
  then show ?thesis
    using mem_word_part [OF aligned_within [OF assms(3)], of mem] paddr_read_valid [OF assms(2)] by simp
qed

lemma Read_Ctrl_values:
  fixes w a :: u32
  defines "v \<equiv> drop_bit (8 * unat (take_bit 2 a)) w"
  shows "DCache_Read_Ctrl w a (cat_2_3 False True 0) = mmsextb (take_bit 8 v)"
    "DCache_Read_Ctrl w a (cat_2_3 False True 1) = mmsexth (take_bit 16 v)"
    "DCache_Read_Ctrl w a (cat_2_3 False True 2) = v"
    "DCache_Read_Ctrl w a (cat_2_3 False True 4) = take_bit 8 v"
    "DCache_Read_Ctrl w a (cat_2_3 False True 5) = take_bit 16 v"
proof -
  have b: "push_bit 8 (copies 24 (bit v 7)) OR part 7 0 v = mmsextb (take_bit 8 v)"
    "push_bit 16 (copies 16 (bit v 15)) OR part 15 0 v = mmsexth (take_bit 16 v)"
    unfolding word32_eq_iff mmsextb_def mmsexth_def bit_to_word
    by (simp_all add: all_less_numeral bit_or_iff bit_push_bit_iff bit_part copies_def bit_mask_iff bit_take_bit_iff
        bit_SEXT bit_BITS numeral_2_eq_2 [symmetric] del: push_bit_Suc)
  have p: "part 7 0 v = take_bit 8 v" "part 15 0 v = take_bit 16 v" by (simp_all add: part_def)
  show "DCache_Read_Ctrl w a (cat_2_3 False True 0) = mmsextb (take_bit 8 v)"
    "DCache_Read_Ctrl w a (cat_2_3 False True 1) = mmsexth (take_bit 16 v)"
    "DCache_Read_Ctrl w a (cat_2_3 False True 2) = v"
    "DCache_Read_Ctrl w a (cat_2_3 False True 4) = take_bit 8 v"
    "DCache_Read_Ctrl w a (cat_2_3 False True 5) = take_bit 16 v"
    using b p by (simp_all add: DCache_Read_Ctrl_def cat_2_3_def rtl_constants Let_def v_def)
qed

lemma Write_Ctrl_values:
  "DCache_Write_Ctrl d a (cat_2_3 True False 0) = (push_bit (unat a mod 4) (mask 1), push_bit (8 * (unat a mod 4)) d)"
  "DCache_Write_Ctrl d a (cat_2_3 True False 1) = (push_bit (unat a mod 4) (mask 2), push_bit (8 * (unat a mod 4)) d)"
  "aligned a 4 \<Longrightarrow> DCache_Write_Ctrl d a (cat_2_3 True False 2) = (push_bit (unat a mod 4) (mask 4), push_bit (8 * (unat a mod 4)) d)"
  by (simp_all add: DCache_Write_Ctrl_def cat_2_3_def rtl_constants Let_def mod4 aligned_def mask_eq_exp_minus_1)

lemma same_block: "(b AND NOT 3) = (a AND NOT 3) \<longleftrightarrow> unat (b :: u32) div 4 = unat (a :: u32) div 4"
  using word_unat_eq_iff [of "b AND NOT 3" "a AND NOT 3"] unfolding base4 by (simp only: mult_cancel1) simp

lemma strobe_inside:
  fixes a b q n :: nat
  assumes "q = a mod 4" and "q + n \<le> 4"
  shows "b div 4 = a div 4 \<and> q \<le> b mod 4 \<and> b mod 4 - q < n \<longleftrightarrow> a \<le> b \<and> b < a + n"
    and "a \<le> b \<Longrightarrow> b < a + n \<Longrightarrow> b mod 4 = q + (b - a)"
proof -
  define x y where "x = a div 4" and "y = b div 4"
  have a: "a = 4 * x + q" and b: "b = 4 * y + b mod 4" and r: "q < 4" "b mod 4 < 4" using assms by (simp_all add: x_def y_def)
  show "b div 4 = a div 4 \<and> q \<le> b mod 4 \<and> b mod 4 - q < n \<longleftrightarrow> a \<le> b \<and> b < a + n"
  proof
    assume "a \<le> b \<and> b < a + n"
    moreover from this have "y = x" using a b r assms(2) by linarith
    ultimately show "b div 4 = a div 4 \<and> q \<le> b mod 4 \<and> b mod 4 - q < n"
      unfolding x_def [symmetric] y_def [symmetric] using a b r assms(2) by linarith
  next
    assume h: "b div 4 = a div 4 \<and> q \<le> b mod 4 \<and> b mod 4 - q < n"
    then have "y = x" "q \<le> b mod 4" "b mod 4 - q < n" unfolding x_def y_def by blast+
    then show "a \<le> b \<and> b < a + n" using a b by linarith
  qed
  show "b mod 4 = q + (b - a)" if "a \<le> b" "b < a + n"
  proof -
    have "y = x" using that a b r assms(2) by linarith
    then show ?thesis using a b that by linarith
  qed
qed

lemma shifted_byte:
  assumes "8 * j + 8 * q + 8 \<le> 32"
  shows "(ucast (drop_bit (8 * q + 8 * j) (push_bit (8 * q) (d :: u32))) :: u8) = ucast (drop_bit (8 * j) d)"
  using assms by (intro bit_word_eqI) (auto simp: bit_ucast_iff bit_drop_bit_eq bit_push_bit_iff)

lemma store_bytes:
  assumes "same_memory mem p" and "valid_access a n" and "aligned a n"
  shows "same_memory (mem_put a (push_bit (unat a mod 4) (mask n)) (push_bit (8 * (unat a mod 4)) d) mem)
    (store p (offset_of a) (bytes_of_word n d))"
  unfolding same_memory_def
proof (intro allI impI)
  fix b assume b: "in_pmem b"
  let ?q = "unat a mod 4" and ?r = "unat b mod 4"
  have w: "?q + n \<le> 4" using aligned_within [OF assms(3)] .
  have pos: "0x80000000 \<le> unat a" "0x80000000 \<le> unat b" using assms(2) b by (auto simp: valid_access_def in_pmem_iff)
  have inside: "(b AND NOT 3) = (a AND NOT 3) \<and> bit (push_bit ?q (mask n) :: 4 word) ?r \<longleftrightarrow> unat a \<le> unat b \<and> unat b < unat a + n"
  proof -
    have "bit (push_bit ?q (mask n) :: 4 word) ?r \<longleftrightarrow> ?q \<le> ?r \<and> ?r - ?q < n"
      using w by (auto simp: bit_push_bit_iff bit_mask_iff)
    then show ?thesis unfolding same_block using strobe_inside(1) [OF refl w, of "unat b"] by simp
  qed
  show "mem_put a (push_bit ?q (mask n)) (push_bit (8 * ?q) d) mem b = store p (offset_of a) (bytes_of_word n d) (offset_of b)"
  proof (cases "unat a \<le> unat b \<and> unat b < unat a + n")
    case True
    then have k: "?r = ?q + (unat b - unat a)" "unat b - unat a < n" using strobe_inside(2) [OF refl w, of "unat b"] by auto
    have "ucast (drop_bit (8 * ?r) (push_bit (8 * ?q) d)) = (ucast (drop_bit (8 * (unat b - unat a)) d) :: u8)"
      unfolding k(1) distrib_left using w k(2) by (intro shifted_byte) linarith
    moreover have "offset_of a \<le> offset_of b" "offset_of b < offset_of a + n" "offset_of b - offset_of a = unat b - unat a"
      using True pos by linarith+
    ultimately show ?thesis
      using True pos k(2) inside by (simp add: mem_put_def mod4 store_def nth_bytes_of_word)
  next
    case False
    then have "mem_put a (push_bit ?q (mask n)) (push_bit (8 * ?q) d) mem b = mem b"
      unfolding mem_put_def mod4 using inside by (simp only: if_False)
    moreover have "\<not> (offset_of a \<le> offset_of b \<and> offset_of b < offset_of a + n)" using False pos by linarith
    then have "store p (offset_of a) (bytes_of_word n d) (offset_of b) = p (offset_of b)"
      unfolding store_def length_bytes_of_word by (simp only: if_False)
    ultimately show ?thesis using assms(1) b by (simp add: same_memory_def)
  qed
qed

section \<open>The processor and the emulator\<close>

text \<open>The registers and the memory of the processor are those of the emulator.\<close>

definition same_csrs :: "csr_regs \<Rightarrow> CSR \<Rightarrow> bool" where
  "same_csrs s r \<longleftrightarrow> r_mstatus s = mstatus r \<and> r_mtvec s = mtvec r \<and> r_mcause s = mcause r \<and> r_mepc s = mepc r"

definition reflects :: "arch \<Rightarrow> machine \<Rightarrow> bool" where
  "reflects a m \<longleftrightarrow> a_pc a = pc (cpu m) \<and> (\<forall>k < 32. a_rf a k = gpr (cpu m) k) \<and> gpr (cpu m) 0 = 0 \<and>
     same_csrs (a_csrs a) (csr (cpu m)) \<and> same_memory (a_mem a) (pmem m)"

text \<open>What the emulator does after the body of an instruction.\<close>

definition retire :: "u32 \<Rightarrow> machine \<Rightarrow> machine" where
  "retire n m = m\<lparr>cpu := (cpu m)\<lparr>gpr := (gpr (cpu m))(0 := 0), pc := n\<rparr>, g_nr_guest_inst := g_nr_guest_inst m + 1\<rparr>"

lemma nemu_step_body:
  assumes "nemu_step m m'" and "paddr_read (pmem m) (pc (cpu m)) 4 = Inr i" and "decode_defined i" and "rv_decode i = (name, ty)"
  obtains m1 s' where "exec_body name (ops (cpu m) i ty) (decoded (pc (cpu m)) i) m = Inr (m1, s')" "m' = retire (dnpc s') m1"
proof -
  obtain s m2 s2 where e: "exec_once s (pc (cpu m)) m = Inr (m2, s2)" "m' = m2\<lparr>g_nr_guest_inst := g_nr_guest_inst m2 + 1\<rparr>"
    using assms(1) by (auto elim: nemu_stepE)
  have "instpat_search instpats i = Inr (Some (name, ty))" using search_rv_decode [OF assms(3)] assms(4) by simp
  from exec_once_eq [OF assms(2) this decode_operand_ops] e that show thesis
    by (auto simp: rbind_eq_Inr_iff retire_def)
qed

text \<open>The register file, unless the register is the first.\<close>

lemma same_registers:
  assumes "\<forall>k < 32. rf k = g k" and "g 0 = 0" and "d = unat (rd_field i)"
  shows "\<forall>k < 32. (if rd_field i \<noteq> 0 then rf(d := v) else rf) k = ((g(d := v))(0 := 0)) k"
proof -
  have "d = 0 \<longleftrightarrow> rd_field i = 0" using assms(3) by (simp add: unat_eq_0)
  then show ?thesis using assms by auto
qed

lemma rtl_exec_user:
  assumes "d = Decode_unit i" and "d_priv_vec d = 0" and "addr = arch_alu i a"
    and "br = Branch_unit (d_br_type d) (a_rf a (unat (rs1_field i))) (a_rf a (unat (rs2_field i))) (a_pc a) (d_imm d)"
    and "wc = DCache_Write_Ctrl (a_rf a (unat (rs2_field i))) addr (d_mem_access d)"
  shows "rtl_exec i a = \<lparr>a_pc = (if fst br then snd br else a_pc a + 4),
    a_rf = (if d_rf_we d then (a_rf a)(unat (rd_field i) :=
      if d_wb_sel d then DCache_Read_Ctrl (mem_word (a_mem a) addr) addr (d_mem_access d) else addr) else a_rf a),
    a_csrs = a_csrs a,
    a_mem = (if bit (d_mem_access d) STORE_BIT then mem_put addr (fst wc) (snd wc) (a_mem a) else a_mem a)\<rparr>"
proof -
  define x where "x = arch_ex i a"
  have x: "mem_access_ex x = d_mem_access d" "priv_vec_ex x = 0" "br_type_ex x = d_br_type d" "wb_rf_sel_ex x = d_wb_sel d"
    "rf_we_ex x = d_rf_we d" "imm_ex x = d_imm d" "pc_ex x = a_pc a" "rdata1_ex x = a_rf a (unat (rs1_field i))"
    "rdata2_ex x = a_rf a (unat (rs2_field i))"
    using assms(1,2) by (simp_all add: x_def arch_ex_def id_stage_def Let_def unat_part)
  have alu: "ex_alu x (a_rf a (unat (rs1_field i))) (a_rf a (unat (rs2_field i))) = addr"
    using arch_ex_alu [of i a] assms(3) unfolding x_def [symmetric] x by simp
  have "arch_npc i a = (if fst br then snd br else a_pc a + 4)"
    using x assms(4) by (simp add: arch_npc_def x_def [symmetric] ex_branch_def Exp_Commit_def case_prod_unfold Let_def)
  moreover have "arch_mem i a = (if bit (d_mem_access d) STORE_BIT then mem_put addr (fst wc) (snd wc) (a_mem a) else a_mem a)"
    using x assms(5) alu by (simp add: arch_mem_def x_def [symmetric] ex_write_def Let_def case_prod_unfold)
  moreover have "priv_vec_wb (arch_wb i a) = 0" "rf_we_wb (arch_wb i a) = d_rf_we d"
    "wb_data (arch_wb i a) = (if d_wb_sel d then DCache_Read_Ctrl (mem_word (a_mem a) addr) addr (d_mem_access d) else addr)"
    using x alu by (simp_all add: arch_wb_def x_def [symmetric] ls_stage_def ex_stage_def wb_data_def Mux2_1_def Let_def)
  ultimately show ?thesis
    by (simp add: rtl_exec_def Let_def CSR_idle Exp_Commit_def Regfile_write_def unat_part)
qed

lemma arch_alu_add:
  "d = Decode_unit i \<Longrightarrow> d_alu_op d = 0 \<Longrightarrow> arch_alu i a =
     Mux4_1 (a_rf a (unat (rs1_field i))) (a_pc a) 0 0 (d_rs1_sel d) +
     Mux4_1 (a_rf a (unat (rs2_field i))) (d_imm d) 4 (CSR_read (part 31 20 i) (a_csrs a)) (d_rs2_sel d)"
  by (simp add: arch_alu_def ALU_values Let_def)

lemma reflects_write:
  assumes "reflects a m" and "same_memory mm p"
  shows "reflects \<lparr>a_pc = n, a_rf = (if rd_field i \<noteq> 0 then (a_rf a)(unat (rd_field i) := v) else a_rf a),
      a_csrs = a_csrs a, a_mem = mm\<rparr>
    (retire n (m\<lparr>cpu := (cpu m)\<lparr>gpr := (gpr (cpu m))(unat (rd_field i) := v)\<rparr>, pmem := p\<rparr>))"
  using assms same_registers [of "a_rf a" "gpr (cpu m)" _ i v, OF _ _ refl] by (simp add: reflects_def retire_def)

lemma reflects_keep:
  assumes "reflects a m" and "same_memory mm p"
  shows "reflects \<lparr>a_pc = n, a_rf = a_rf a, a_csrs = a_csrs a, a_mem = mm\<rparr> (retire n (m\<lparr>pmem := p\<rparr>))"
  using assms by (auto simp: reflects_def retire_def)

lemma reflects_facts:
  assumes "reflects a m"
  shows "a_pc a = pc (cpu m)" "\<forall>k < 32. a_rf a k = gpr (cpu m) k" "same_memory (a_mem a) (pmem m)"
    "a_rf a (unat (rs1_field i)) = gpr (cpu m) (unat (rs1_field i))"
    "a_rf a (unat (rs2_field i)) = gpr (cpu m) (unat (rs2_field i))"
  using assms reg_less [of i] by (auto simp: reflects_def)

lemma put_R_rd: "put_R (unat (rd_field i)) v m = Inr (m\<lparr>cpu := (cpu m)\<lparr>gpr := (gpr (cpu m))(unat (rd_field i) := v)\<rparr>\<rparr>)"
  using reg_less [of i] by (simp add: put_R_eq)

lemma step_compute:
  assumes "reflects a m" and "rv_decode i = (name, ty)" and "name = Alu op \<or> name = Muldiv mop"
    and "exec_body name (ops (cpu m) i ty) (decoded (pc (cpu m)) i) m = Inr (m1, s')"
  shows "reflects (rtl_exec i a) (retire (dnpc s') m1)"
proof -
  note f = reflects_facts [OF assms(1)]
  define v where "v = arch_alu i a"
  have opc: "opcode i \<in> {0x37, 0x17, 0x13, 0x33}"
    using assms(2,3) rv_decode_alu by auto
  have "exec_body name (ops (cpu m) i ty) (decoded (pc (cpu m)) i) m = rbind (put_R (unat (rd_field i)) v m) (\<lambda>m. Inr (m, decoded (pc (cpu m)) i))"
  proof (cases "name = Alu op")
    case True
    then have "v = alu_value op (ops (cpu m) i ty) (a_pc a)"
      using assms(2) rv_decode_alu(1) alu_imm [OF _ _ f(2)] alu_reg [OF _ _ f(2)] alu_upper unfolding v_def by blast
    then show ?thesis using True f(1) reg_less [of i] by (simp add: exec_body_def put_R_eq) (simp add: ops_def put_R_eq)
  next
    case False
    then have "name = Muldiv mop" using assms(3) by blast
    then show ?thesis using muldiv_reg [of i mop ty a "cpu m"] assms(2) f(2) reg_less [of i]
      by (simp add: exec_body_def v_def ops_def put_R_eq)
  qed
  then have m1: "m1 = m\<lparr>cpu := (cpu m)\<lparr>gpr := (gpr (cpu m))(unat (rd_field i) := v)\<rparr>\<rparr>" "dnpc s' = a_pc a + 4"
    using assms(4) f(1) by (auto simp: put_R_rd)
  have "rtl_exec i a = \<lparr>a_pc = a_pc a + 4, a_rf = (if rd_field i \<noteq> 0 then (a_rf a)(unat (rd_field i) := v) else a_rf a),
      a_csrs = a_csrs a, a_mem = a_mem a\<rparr>"
    using rtl_exec_compute [of i a] plain_opcode [OF opc] by (simp add: v_def)
  then show ?thesis
    using reflects_write [OF assms(1) f(3), where v = v and i = i and n = "a_pc a + 4"] m1 by simp
qed

text \<open>Jumps and branches.\<close>

lemma Branch_jump:
  "Branch_unit 0x1f x y p n = (True, p + n)" "Branch_unit 0x1b x y p n = (True, x + n)"
  by (simp_all add: Branch_unit_def Let_def)

lemma step_jump:
  assumes "reflects a m" and "rv_decode i = (name, ty)" and "name = I_jal \<or> name = I_jalr"
    and "exec_body name (ops (cpu m) i ty) (decoded (pc (cpu m)) i) m = Inr (m1, s')"
  shows "reflects (rtl_exec i a) (retire (dnpc s') m1)"
proof -
  note f = reflects_facts [OF assms(1)]
  let ?n = "dnpc s'"
  have o: "opcode i = 0x6f \<and> name = I_jal \<and> ty = TYPE_J \<or> opcode i = 0x67 \<and> name = I_jalr \<and> ty = TYPE_I"
    using assms(2,3) by (auto simp: rv_decode_def Let_def split: if_splits)
  have m1: "m1 = m\<lparr>cpu := (cpu m)\<lparr>gpr := (gpr (cpu m))(unat (rd_field i) := a_pc a + 4)\<rparr>\<rparr>"
    "?n = (if name = I_jal then a_pc a + immJ i else gpr (cpu m) (unat (rs1_field i)) + immI i)"
    using assms(4) o f(1) by (auto simp: exec_body_def ops_def put_R_rd Let_def)
  have "rtl_exec i a = \<lparr>a_pc = ?n, a_rf = (if rd_field i \<noteq> 0 then (a_rf a)(unat (rd_field i) := a_pc a + 4) else a_rf a),
      a_csrs = a_csrs a, a_mem = a_mem a\<rparr>"
    using o m1(2) f(4)
    by (elim disjE conjE; subst rtl_exec_user [OF refl _ refl refl refl];
        simp add: Decode_6f Decode_67 Branch_jump arch_alu_add [OF refl] Mux4_1_def)
  then show ?thesis using reflects_write [OF assms(1) f(3), where v = "a_pc a + 4" and i = i and n = ?n] m1(1) by simp
qed

lemma branch_bits: "bit (cat_2_3 True False (ucast (funct3 i))) 4" "\<not> bit (cat_2_3 True False (ucast (funct3 i))) 3"
  "(ucast (cat_2_3 True False (ucast (funct3 i))) :: 3 word) = ucast (funct3 i)"
proof -
  show "bit (cat_2_3 True False (ucast (funct3 i))) 4" by (simp add: cat_2_3_def bit_or_iff)
  show "\<not> bit (cat_2_3 True False (ucast (funct3 i))) 3" by (simp add: cat_2_3_def bit_or_iff bit_simps)
  show "(ucast (cat_2_3 True False (ucast (funct3 i))) :: 3 word) = ucast (funct3 i)"
    by (rule bit_word_eqI) (auto simp: cat_2_3_def bit_or_iff bit_ucast_iff bit_push_bit_iff less_Suc_eq numeral_3_eq_3)
qed

lemma step_branch:
  assumes "reflects a m" and "rv_decode i = (Branch op, ty)"
    and "exec_body (Branch op) (ops (cpu m) i ty) (decoded (pc (cpu m)) i) m = Inr (m1, s')"
  shows "reflects (rtl_exec i a) (retire (dnpc s') m1)"
proof -
  note f = reflects_facts [OF assms(1)]
  have o: "opcode i = 0x63" "ty = TYPE_B" using assms(2) by (auto simp: rv_decode_def Let_def split: if_splits)
  have br: "Branch_unit (cat_2_3 True False (ucast (funct3 i))) x y p n = (branch_taken op q, p + n)"
    if "src1 q = x" "src2 q = y" for x y p n q
    using f3_cases [of i] assms(2) o(1) that
    by (elim disjE; auto simp: Branch_unit_def Let_def cat_2_3_def rtl_constants branch_taken_def rv_decode_def)
  have m1: "m1 = m" "dnpc s' = (if branch_taken op (ops (cpu m) i TYPE_B) then a_pc a + immB i else a_pc a + 4)"
    using assms(3) o f(1) by (auto simp: exec_body_def ops_def)
  have "rtl_exec i a = \<lparr>a_pc = dnpc s', a_rf = a_rf a, a_csrs = a_csrs a, a_mem = a_mem a\<rparr>"
    unfolding m1(2) using br [of "ops (cpu m) i TYPE_B"] f(4,5) [of i]
    by (subst rtl_exec_user [OF refl _ refl refl refl]) (simp_all add: Decode_63 [OF o(1)] ops_def)
  then show ?thesis using reflects_keep [OF assms(1) f(3), where n = "dnpc s'"] m1(1) by simp
qed

lemma mem_bits:
  "bit (cat_2_3 True False w) STORE_BIT" "\<not> bit (cat_2_3 False True (ucast (funct3 i))) STORE_BIT" "\<not> bit (0 :: 5 word) STORE_BIT"
  using br_plain [of True i] by (simp_all add: cat_2_3_def bit_or_iff STORE_BIT_def)

lemma no_branch: "Branch_unit (br_plain i) x y p n = (False, p + n)"
proof -
  let ?b = "br_plain i"
  have "\<not> bit ?b 4" by (rule br_plain)
  then show ?thesis by (simp add: Branch_unit_def Let_def)
qed

lemma step_load:
  assumes "reflects a m" and "rv_decode i = (Load op, ty)"
    and "exec_body (Load op) (ops (cpu m) i ty) (decoded (pc (cpu m)) i) m = Inr (m1, s')"
    and "addr = a_rf a (unat (rs1_field i)) + immI i" and "valid_access addr (load_size op)" and "aligned addr (load_size op)"
  shows "reflects (rtl_exec i a) (retire (dnpc s') m1)"
proof -
  note f = reflects_facts [OF assms(1)]
  have o: "opcode i = 0x03" "ty = TYPE_I" using assms(2) by (auto simp: rv_decode_def Let_def split: if_splits)
  define v where "v = DCache_Read_Ctrl (mem_word (a_mem a) addr) addr (cat_2_3 False True (ucast (funct3 i)))"
  have addr: "src1 (ops (cpu m) i TYPE_I) + imm (ops (cpu m) i TYPE_I) = addr" using f(4) [of i] assms(4) by (simp add: ops_def)
  have "load_value op (ops (cpu m) i TYPE_I) m = Inr v"
    unfolding load_value_eq addr Mr_def load_bytes [OF f(3) assms(5,6)] rbind_Inr
    using f3_cases [of i] assms(2) o(1)
    by (elim disjE; auto simp: v_def Read_Ctrl_values load_size_def rv_decode_def Let_def)
  then have m1: "m1 = m\<lparr>cpu := (cpu m)\<lparr>gpr := (gpr (cpu m))(unat (rd_field i) := v)\<rparr>\<rparr>" "dnpc s' = a_pc a + 4"
    using assms(3) f(1) o(2) by (auto simp: exec_body_def ops_def put_R_rd)
  have "arch_alu i a = addr" by (simp add: arch_alu_add [OF refl] Decode_03 [OF o(1)] Mux4_1_def assms(4))
  then have "rtl_exec i a = \<lparr>a_pc = a_pc a + 4, a_rf = (if rd_field i \<noteq> 0 then (a_rf a)(unat (rd_field i) := v) else a_rf a),
      a_csrs = a_csrs a, a_mem = a_mem a\<rparr>"
    by (subst rtl_exec_user [OF refl _ refl refl refl]) (simp_all add: Decode_03 [OF o(1)] no_branch mem_bits v_def)
  then show ?thesis using reflects_write [OF assms(1) f(3), where v = v and i = i and n = "a_pc a + 4"] m1 by simp
qed

lemma step_store:
  assumes "reflects a m" and "rv_decode i = (Store op, ty)"
    and "exec_body (Store op) (ops (cpu m) i ty) (decoded (pc (cpu m)) i) m = Inr (m1, s')"
    and "addr = a_rf a (unat (rs1_field i)) + immS i" and "valid_access addr (store_size op)" and "aligned addr (store_size op)"
  shows "reflects (rtl_exec i a) (retire (dnpc s') m1)"
proof -
  note f = reflects_facts [OF assms(1)]
  let ?d = "a_rf a (unat (rs2_field i))" and ?n = "store_size op"
  have o: "opcode i = 0x23" "ty = TYPE_S" using assms(2) by (auto simp: rv_decode_def Let_def split: if_splits)
  have addr: "src1 (ops (cpu m) i TYPE_S) + imm (ops (cpu m) i TYPE_S) = addr" "src2 (ops (cpu m) i TYPE_S) = ?d"
    using f(4,5) [of i] assms(4) by (simp_all add: ops_def)
  define mm where "mm = mem_put addr (push_bit (unat addr mod 4) (mask ?n)) (push_bit (8 * (unat addr mod 4)) ?d) (a_mem a)"
  define p where "p = store (pmem m) (offset_of addr) (bytes_of_word ?n ?d)"
  have mm: "same_memory mm p" unfolding mm_def p_def by (rule store_bytes [OF f(3) assms(5,6)])
  have m1: "m1 = m\<lparr>pmem := p\<rparr>" "dnpc s' = a_pc a + 4"
    using assms(3) f(1) o(2) addr paddr_write_valid [OF assms(5)] by (auto simp: exec_body_def exec_store_eq Mw_def p_def)
  have wc: "DCache_Write_Ctrl ?d addr (cat_2_3 True False (ucast (funct3 i))) =
      (push_bit (unat addr mod 4) (mask ?n), push_bit (8 * (unat addr mod 4)) ?d)"
    using f3_cases [of i] assms(2,6) o(1)
    by (elim disjE; auto simp: Write_Ctrl_values store_size_def rv_decode_def Let_def)
  have "arch_alu i a = addr" by (simp add: arch_alu_add [OF refl] Decode_23 [OF o(1)] Mux4_1_def assms(4))
  then have "rtl_exec i a = \<lparr>a_pc = a_pc a + 4, a_rf = a_rf a, a_csrs = a_csrs a, a_mem = mm\<rparr>"
    by (subst rtl_exec_user [OF refl _ refl refl refl]) (simp_all add: Decode_23 [OF o(1)] no_branch mem_bits wc mm_def)
  then show ?thesis using reflects_keep [OF assms(1) mm, where n = "a_pc a + 4"] m1 by simp
qed

text \<open>CSR instructions, traps and fences.\<close>

lemma rtl_exec_priv:
  assumes "d = Decode_unit i" and "d_priv_vec d \<noteq> 0" and "d_mem_access d = 0" and "\<not> d_wb_sel d"
  shows "rtl_exec i a = \<lparr>a_pc = (if Exp_Commit (d_priv_vec d) \<noteq> 0 then r_mtvec (a_csrs a)
      else if bit (d_priv_vec d) MRET then r_mepc (a_csrs a) else a_pc a + 4),
    a_rf = (if d_rf_we d then (a_rf a)(unat (rd_field i) := arch_alu i a) else a_rf a),
    a_csrs = CSR_next (part 31 20 i) (bit (d_priv_vec d) CSR_RW)
      (Priv (part 14 12 i) (CSR_read (part 31 20 i) (a_csrs a)) (a_rf a (unat (rs1_field i))) (rs1_field i))
      (a_pc a) (Exp_Commit (d_priv_vec d)) (d_priv_vec d) (a_csrs a),
    a_mem = a_mem a\<rparr>"
proof -
  define x where "x = arch_ex i a"
  have x: "mem_access_ex x = 0" "priv_vec_ex x = d_priv_vec d" "wb_rf_sel_ex x = False" "inst_ex x = i"
    "csr_rdata_ex x = CSR_read (part 31 20 i) (a_csrs a)" "rf_we_ex x = d_rf_we d" "rdata1_ex x = a_rf a (unat (rs1_field i))"
    "rdata2_ex x = a_rf a (unat (rs2_field i))"
    using assms by (simp_all add: x_def arch_ex_def id_stage_def Let_def unat_part)
  have alu: "ex_alu x (a_rf a (unat (rs1_field i))) (a_rf a (unat (rs2_field i))) = arch_alu i a"
    using arch_ex_alu [of i a] unfolding x_def [symmetric] x by simp
  show ?thesis
    using x alu assms(2)
    by (simp add: rtl_exec_def arch_npc_def arch_mem_def arch_wb_def x_def [symmetric] ls_stage_def ex_stage_def wb_data_def
        Mux2_1_def Regfile_write_def unat_part part_ucast(6) mem_bits Let_def case_prod_unfold)
qed

lemma csr_numbers:
  assumes "csr_index (immI i)"
  shows "(part 31 20 i :: 12 word) = ucast (immI i)"
proof (rule bit_word_eqI)
  fix n assume "n < LENGTH(12)"
  have "\<not> bit (immI i) 31" using assms by (auto simp: csr_index_def)
  then have "\<not> bit i 31" using imm_bits_below [of i] by simp
  then have "\<not> bit (immI i) 11 \<and> \<not> bit i (20 + 11)" using imm_bits_below [of i] by simp
  then show "bit (part 31 20 i :: 12 word) n = bit (ucast (immI i) :: 12 word) n"
    using \<open>n < LENGTH(12)\<close> imm_bits_below [of i]
    by (cases "n = 11") (auto simp: bit_part bit_ucast_iff add.commute)
qed

lemma CSR_read_number: "csr_index k \<Longrightarrow> same_csrs s r \<Longrightarrow> CSR_read (ucast k) s = csr_get k r"
  by (auto simp: csr_index_def same_csrs_def CSR_read_def csr_get_def rtl_constants)

lemma CSR_write_number:
  "csr_index k \<Longrightarrow> same_csrs s r \<Longrightarrow> same_csrs (CSR_next (ucast k) True v p 0 1 s) (csr_put k v r)"
  by (auto simp: csr_index_def same_csrs_def CSR_next_def csr_put_def rtl_constants Let_def)

lemma step_csr:
  assumes "reflects a m" and "rv_decode i = (Csr op, ty)"
    and "exec_body (Csr op) (ops (cpu m) i ty) (decoded (pc (cpu m)) i) m = Inr (m1, s')"
  shows "reflects (rtl_exec i a) (retire (dnpc s') m1)"
proof -
  note f = reflects_facts [OF assms(1)]
  have o: "opcode i = 0x73" "ty = TYPE_I" "funct3 i \<noteq> 0" using assms(2) by (auto simp: rv_decode_def Let_def split: if_splits)
  let ?k = "immI i" and ?r = "csr (cpu m)" and ?s = "a_csrs a"
  define old where "old = csr_get ?k ?r"
  define new where "new = csr_new op old (a_rf a (unat (rs1_field i))) (rs1_field i)"
  have op: "rd (ops (cpu m) i TYPE_I) = unat (rd_field i)" "imm (ops (cpu m) i TYPE_I) = ?k"
    "src1 (ops (cpu m) i TYPE_I) = a_rf a (unat (rs1_field i))" using f(4) [of i] by (simp_all add: ops_def)
  have idx: "csr_index ?k" and m1: "m1 = m\<lparr>cpu := (cpu m)\<lparr>gpr := if op = I_csrrw \<and> rd_field i = 0 then gpr (cpu m)
      else (gpr (cpu m))(unat (rd_field i) := old), csr := csr_put ?k new ?r\<rparr>\<rparr>" "dnpc s' = a_pc a + 4"
    using assms(3) f(1) reg_less [of i] exec_csr_correct [of "ops (cpu m) i TYPE_I" op i m]
    unfolding o(2) exec_body_def by (auto simp: op unat_eq_0 Let_def old_def new_def split: if_splits)
  have same: "same_csrs ?s ?r" using assms(1) by (simp add: reflects_def)
  have pv: "Decode_priv_vec i = 1" using o by (simp add: Decode_priv_vec_def part_field rtl_constants)
  have rd: "CSR_read (part 31 20 i) ?s = old" unfolding csr_numbers [OF idx] old_def by (rule CSR_read_number [OF idx same])
  have alu: "arch_alu i a = old" by (simp add: arch_alu_add [OF refl] Decode_73 [OF o(1)] Mux4_1_def rd)
  have "Priv (part 14 12 i) old (a_rf a (unat (rs1_field i))) (rs1_field i) = new"
    using f3_cases [of i] assms(2) o(1)
    by (elim disjE; auto simp: Priv_def part_field rv_decode_def new_def csr_new_def split: if_splits)
  then have e: "rtl_exec i a = \<lparr>a_pc = a_pc a + 4, a_rf = (if rd_field i \<noteq> 0 then (a_rf a)(unat (rd_field i) := old) else a_rf a),
      a_csrs = CSR_next (ucast ?k) True new (a_pc a) 0 1 ?s, a_mem = a_mem a\<rparr>"
    using o(3) by (subst rtl_exec_priv [OF refl]) (simp_all add: Decode_73 [OF o(1)] pv Exp_Commit_def rtl_constants alu csr_numbers [OF idx] rd [unfolded csr_numbers [OF idx]])
  have c: "same_csrs (CSR_next (ucast ?k) True new (a_pc a) 0 1 ?s) (csr_put ?k new ?r)" by (rule CSR_write_number [OF idx same])
  have g: "\<forall>k < 32. (if rd_field i \<noteq> 0 then (a_rf a)(unat (rd_field i) := old) else a_rf a) k = (((gpr (cpu m))(unat (rd_field i) := old))(0 := 0)) k"
    using assms(1) by (intro same_registers) (auto simp: reflects_def)
  have z: "rd_field i = 0 \<Longrightarrow> (gpr (cpu m))(0 := 0) = ((gpr (cpu m))(unat (rd_field i) := old))(0 := 0)" by auto
  show ?thesis unfolding e m1 using c g z f(3) by (auto simp: reflects_def retire_def)
qed

lemma mstatus_trap: "push_bit 12 (part 31 12 ms) OR push_bit 3 (part 8 0 ms) OR 6 = push_prv ms"
  "push_bit 12 (part 31 12 ms) OR push_bit 9 1 OR part 11 3 ms = pop_prv ms"
proof -
  have m: "(0xfff :: u32) = mask 12" "(0x1ff :: u32) = mask 9" "(6 :: u32) = push_bit 1 (mask 2)" "(1 :: u32) = mask 1"
    by (simp_all add: mask_eq_exp_minus_1)
  show "push_bit 12 (part 31 12 ms) OR push_bit 3 (part 8 0 ms) OR 6 = push_prv ms"
    "push_bit 12 (part 31 12 ms) OR push_bit 9 1 OR part 11 3 ms = pop_prv ms"
    unfolding push_prv_def pop_prv_def Let_def m word32_eq_iff
    by (simp_all add: all_less_numeral bit_simps bit_part numeral_2_eq_2 [symmetric] del: push_bit_Suc drop_bit_Suc)
qed

lemma step_system:
  assumes "reflects a m" and "rv_decode i = (name, ty)" and "name \<in> {I_ecall, I_mret, I_ebreak, I_fence, I_fence_i}"
    and "exec_body name (ops (cpu m) i ty) (decoded (pc (cpu m)) i) m = Inr (m1, s')"
  shows "reflects (rtl_exec i a) (retire (dnpc s') m1)"
proof -
  note f = reflects_facts [OF assms(1)]
  have csr: "same_csrs (a_csrs a) (csr (cpu m))" and z: "gpr (cpu m) 0 = 0" using assms(1) by (simp_all add: reflects_def)
  consider (trap) "i = 0x00000073" "name = I_ecall" | (ret) "i = 0x30200073" "name = I_mret" | (brk) "i = 0x00100073" "name = I_ebreak"
    | (fence) "opcode i = 0x0f" "funct3 i = 0 \<and> name = I_fence \<or> funct3 i = 1 \<and> name = I_fence_i"
    using assms(2,3) by (auto simp: rv_decode_def Let_def split: if_splits)
  then show ?thesis
  proof cases
    case trap
    then have d: "Decode_unit i = \<lparr>d_alu_op = 0, d_mem_access = 0, d_imm = 0, d_rf_we = False, d_rs1_sel = 2, d_rs2_sel = 3,
        d_wb_sel = False, d_br_type = br_plain i, d_priv_vec = 2\<rparr>"
      by (simp add: Decode_73 field_defs Decode_priv_vec_def part_def rtl_constants)
    have e: "rtl_exec i a = \<lparr>a_pc = r_mtvec (a_csrs a), a_rf = a_rf a,
        a_csrs = \<lparr>r_mstatus = push_prv (r_mstatus (a_csrs a)), r_mtvec = r_mtvec (a_csrs a), r_mcause = 11, r_mepc = a_pc a\<rparr>,
        a_mem = a_mem a\<rparr>"
      by (subst rtl_exec_priv [OF refl])
        (simp_all add: d Exp_Commit_def rtl_constants CSR_next_def Let_def mstatus_trap(1) [simplified])
    show ?thesis unfolding e using assms(4) trap csr z f(1-3)
      by (auto simp: exec_body_def exec_ecall_def isa_raise_intr_def reflects_def retire_def same_csrs_def)
  next
    case ret
    then have d: "Decode_unit i = \<lparr>d_alu_op = 0, d_mem_access = 0, d_imm = 0, d_rf_we = False, d_rs1_sel = 2, d_rs2_sel = 3,
        d_wb_sel = False, d_br_type = br_plain i, d_priv_vec = 4\<rparr>"
      by (simp add: Decode_73 field_defs Decode_priv_vec_def part_def rtl_constants)
    have e: "rtl_exec i a = \<lparr>a_pc = r_mepc (a_csrs a), a_rf = a_rf a,
        a_csrs = (a_csrs a)\<lparr>r_mstatus := pop_prv (r_mstatus (a_csrs a))\<rparr>, a_mem = a_mem a\<rparr>"
      by (subst rtl_exec_priv [OF refl])
        (simp_all add: d Exp_Commit_def rtl_constants CSR_next_def Let_def mstatus_trap(2) [simplified])
    show ?thesis unfolding e using assms(4) ret csr z f(1-3)
      by (auto simp: exec_body_def exec_mret_def reflects_def retire_def same_csrs_def Let_def)
  next
    case brk
    then have d: "Decode_unit i = \<lparr>d_alu_op = 0, d_mem_access = 0, d_imm = 0, d_rf_we = False, d_rs1_sel = 2, d_rs2_sel = 3,
        d_wb_sel = False, d_br_type = br_plain i, d_priv_vec = 0\<rparr>"
      by (simp add: Decode_73 field_defs Decode_priv_vec_def part_def rtl_constants)
    have e: "rtl_exec i a = \<lparr>a_pc = a_pc a + 4, a_rf = a_rf a, a_csrs = a_csrs a, a_mem = a_mem a\<rparr>"
      by (subst rtl_exec_user [OF refl _ refl refl refl]) (simp_all add: d no_branch mem_bits)
    show ?thesis unfolding e using assms(4) brk csr z f(1-3)
      by (auto simp: exec_body_def get_R_eq set_nemu_state_def reflects_def retire_def same_csrs_def)
  next
    case fence
    then have d: "Decode_unit i = \<lparr>d_alu_op = 0, d_mem_access = 0, d_imm = 0, d_rf_we = False, d_rs1_sel = 0, d_rs2_sel = 0,
        d_wb_sel = False, d_br_type = 0, d_priv_vec = (if funct3 i = 1 then 8 else 16)\<rparr>"
      by (auto simp: Decode_0f Decode_priv_vec_def part_field rtl_constants)
    have e: "rtl_exec i a = \<lparr>a_pc = a_pc a + 4, a_rf = a_rf a, a_csrs = a_csrs a, a_mem = a_mem a\<rparr>"
      by (subst rtl_exec_priv [OF refl])
        (auto simp: d Exp_Commit_def rtl_constants CSR_next_def)
    show ?thesis unfolding e using assms(4) fence csr z f(1-3)
      by (auto simp: exec_body_def reflects_def retire_def same_csrs_def)
  qed
qed

text \<open>
  The instructions on which the two agree: those the manual defines, with accesses to the memory
  that are aligned to their size.
\<close>

definition rtl_covers :: "u32 \<Rightarrow> arch \<Rightarrow> bool" where
  "rtl_covers i a \<longleftrightarrow> decode_defined i \<and>
     (case fst (rv_decode i) of
        I_inv \<Rightarrow> False
      | Load op \<Rightarrow> (let addr = a_rf a (unat (rs1_field i)) + immI i in valid_access addr (load_size op) \<and> aligned addr (load_size op))
      | Store op \<Rightarrow> (let addr = a_rf a (unat (rs1_field i)) + immS i in valid_access addr (store_size op) \<and> aligned addr (store_size op))
      | _ \<Rightarrow> True)"

lemma rtl_step:
  assumes "reflects a m" and "paddr_read (pmem m) (pc (cpu m)) 4 = Inr i" and "rtl_covers i a" and "nemu_step m m'"
  shows "reflects (rtl_exec i a) m'"
proof -
  obtain name ty where rv: "rv_decode i = (name, ty)" by fastforce
  have dd: "decode_defined i" using assms(3) by (simp add: rtl_covers_def)
  obtain m1 s' where e: "exec_body name (ops (cpu m) i ty) (decoded (pc (cpu m)) i) m = Inr (m1, s')" "m' = retire (dnpc s') m1"
    using nemu_step_body [OF assms(4,2) dd rv] by blast
  note c = assms(3) [unfolded rtl_covers_def rv fst_conv]
  show ?thesis unfolding e(2)
  proof (cases name)
    case (Alu op) then show "reflects (rtl_exec i a) (retire (dnpc s') m1)" using step_compute [OF assms(1) rv _ e(1)] by blast
  next
    case (Muldiv op) then show "reflects (rtl_exec i a) (retire (dnpc s') m1)" using step_compute [OF assms(1) rv _ e(1)] by blast
  next
    case (Branch op) then show "reflects (rtl_exec i a) (retire (dnpc s') m1)" using step_branch [OF assms(1)] rv e(1) by blast
  next
    case (Load op) then show "reflects (rtl_exec i a) (retire (dnpc s') m1)" using step_load [OF assms(1) _ _ refl] rv e(1) c by (simp add: Let_def)
  next
    case (Store op) then show "reflects (rtl_exec i a) (retire (dnpc s') m1)" using step_store [OF assms(1) _ _ refl] rv e(1) c by (simp add: Let_def)
  next
    case (Csr op) then show "reflects (rtl_exec i a) (retire (dnpc s') m1)" using step_csr [OF assms(1)] rv e(1) by blast
  qed (use step_jump [OF assms(1) rv _ e(1)] step_system [OF assms(1) rv _ e(1)] c in auto)
qed

text \<open>The word that is fetched.\<close>

lemma fetched_word:
  assumes "reflects a m" and "valid_access (a_pc a) 4" and "aligned (a_pc a) 4"
  shows "paddr_read (pmem m) (pc (cpu m)) 4 = Inr (mem_word (a_mem a) (a_pc a))"
proof -
  have "unat (take_bit 2 (a_pc a)) = 0" using assms(3) by (simp add: mod4 aligned_def)
  then show ?thesis
    using load_bytes [OF reflects_facts(3) [OF assms(1)] assms(2,3)] reflects_facts(1) [OF assms(1)] by simp
qed

section \<open>The property\<close>

text \<open>C5: The processor and the reference emulator agree on every instruction of RV32IM with Zicsr that is
  defined and accesses the memory aligned: from the same registers, CSRs and memory, the stages of the
  processor and a step of the emulator lead to the same again.\<close>

theorem rtl_matches_nemu:
  assumes "reflects a m" and "valid_access (a_pc a) 4" and "aligned (a_pc a) 4"
    and "rtl_covers (mem_word (a_mem a) (a_pc a)) a" and "nemu_step m m'"
  shows "reflects (rtl_exec (mem_word (a_mem a) (a_pc a)) a) m'"
  by (rule rtl_step [OF assms(1) fetched_word [OF assms(1-3)] assms(4,5)])

text \<open>The state of the emulator as one of the processor.\<close>

definition arch_of :: "machine \<Rightarrow> arch" where
  "arch_of m = \<lparr>a_pc = pc (cpu m), a_rf = gpr (cpu m),
     a_csrs = \<lparr>r_mstatus = mstatus (csr (cpu m)), r_mtvec = mtvec (csr (cpu m)), r_mcause = mcause (csr (cpu m)),
       r_mepc = mepc (csr (cpu m))\<rparr>,
     a_mem = (\<lambda>b. pmem m (offset_of b))\<rparr>"

lemma arch_of_reflects: "gpr (cpu m) 0 = 0 \<Longrightarrow> reflects (arch_of m) m"
  by (simp add: reflects_def arch_of_def same_csrs_def same_memory_def)

lemma rtl_matches_nemu_witness:
  "\<exists>m'. nemu_step (boot [0x00500093, 0x00108133]) m' \<and> gpr (cpu m') 1 = 5 \<and>
     reflects (rtl_exec 0x00500093 (arch_of (boot [0x00500093, 0x00108133]))) m'"
proof -
  let ?m = "boot [0x00500093, 0x00108133]"
  have r: "gpr (cpu ?m) = (\<lambda>_. 0)" "pc (cpu ?m) = 0x80000000"
    by (simp_all add: boot_def init_isa_def restart_def layout_defs Let_def fun_eq_iff)
  obtain m2 s2 where e: "exec_once idle (pc (cpu ?m)) ?m = Inr (m2, s2)" and v: "gpr (cpu m2) 1 = 5"
    by (simp add: r exec_body_def put_R_eq alu_value_def
        exec_once_eq [OF example_fetch(1) example_decode(1) example_operands(1)])
  have ok: "reflects (arch_of ?m) ?m" by (rule arch_of_reflects) (simp add: r)
  have at: "a_pc (arch_of ?m) = 0x80000000" by (simp add: arch_of_def r)
  have place: "valid_access (a_pc (arch_of ?m)) 4" "aligned (a_pc (arch_of ?m)) 4"
    by (simp_all add: at valid_access_def aligned_def)
  have word: "mem_word (a_mem (arch_of ?m)) (a_pc (arch_of ?m)) = 0x00500093"
    using fetched_word [OF ok place] example_fetch(1) by (simp add: r)
  have "rv_decode 0x00500093 = (Alu I_addi, TYPE_I)" "decode_defined 0x00500093" by (code_simp, code_simp)
  then have "rtl_covers (mem_word (a_mem (arch_of ?m)) (a_pc (arch_of ?m))) (arch_of ?m)"
    unfolding word by (simp add: rtl_covers_def)
  from rtl_matches_nemu [OF ok place this nemu_step.step [OF e]] v show ?thesis
    unfolding word using nemu_step.step [OF e]
    by (intro exI [of _ "m2\<lparr>g_nr_guest_inst := g_nr_guest_inst m2 + 1\<rparr>"]) simp
qed

text \<open>
  Beyond that they differ: the data cache does not know accesses that are not aligned. A half word at
  an address 3 modulo 4 is cut to its first byte, and the emulator reads both.
\<close>

lemma unaligned_load:
  assumes "unat a mod 4 = 3"
  shows "DCache_Read_Ctrl (mem_word m a) a (cat_2_3 False True 5) = ucast (m a)"
proof -
  let ?v = "drop_bit (8 * unat (take_bit 2 a)) (mem_word m a)"
  have "take_bit 8 ?v = word_of_bytes (map (\<lambda>k. m (a + of_nat k)) [0..<1])"
    using mem_word_part [of a 1 m] assms by simp
  moreover have "take_bit 16 ?v = take_bit 8 ?v"
    using assms by (intro bit_word_eqI) (auto simp: bit_take_bit_iff bit_drop_bit_eq bit_mem_word mod4)
  ultimately show ?thesis by (simp add: Read_Ctrl_values)
qed

end
