(* ===== verification/Rtl_Pipeline.thy ===== *)
theory Rtl_Pipeline
  imports Rtl_Nemu
begin

text \<open>
  The processor as a whole: cycles of \<open>Rtl_Cpu\<close> with several instructions in flight do what the
  instructions of \<open>Rtl_Isa\<close> do one after the other. The invariant says what each register between two
  stages holds, in terms of the state before the instruction in it; forwarding, stalls for loads,
  flushes by branches, privileged instructions and exceptions, and stalls by either cache keep it.
\<close>

section \<open>Runs of the processor\<close>

text \<open>
  The processor with its memory: a request of the stage EX is taken in every cycle in which the data
  cache does not stall. \<open>code\<close> is what the addresses hold from which instructions are fetched.
\<close>

definition arch_step :: "(u32 \<Rightarrow> u32) \<Rightarrow> arch \<Rightarrow> arch" where
  "arch_step code a = rtl_exec (code (a_pc a)) a"

definition serve :: "dcache_in \<Rightarrow> (u32 \<Rightarrow> u8) \<Rightarrow> u32 \<Rightarrow> u8" where
  "serve r m = (if d_store r then mem_put (d_addr r) (d_strb r) (d_data r) m else m)"

text \<open>
  What the caches promise: an instruction that is fetched and was not given up is that at its
  address, a slot without an instruction holds a harmless word, a load gets the word of the memory
  after all stores before it, and the data cache stalls only for an access or a fence.
\<close>

definition fetch_ok :: "(u32 \<Rightarrow> u32) \<Rightarrow> cache_out \<Rightarrow> core \<Rightarrow> bool" where
  "fetch_ok code c s \<longleftrightarrow>
     (\<not> icache_miss c \<longrightarrow> \<not> icache_flush (cpu_hazards c s) \<longrightarrow>
        (if commit_if2 (seg_if2 s) then icache_rdata c = code (pc_if2 (seg_if2 s)) else icache_rdata c \<in> {0x13, 0}))"

definition dcache_ok :: "cache_out \<Rightarrow> core \<Rightarrow> (u32 \<Rightarrow> u8) \<Rightarrow> bool" where
  "dcache_ok c s m \<longleftrightarrow>
     (\<not> dcache_miss c \<longrightarrow> bit (mem_access_ls (seg_ls s)) LOAD_BIT \<longrightarrow> dcache_rdata c = mem_word m (alu_result_ls (seg_ls s))) \<and>
     (dcache_miss c \<longrightarrow> mem_access_ls (seg_ls s) \<noteq> 0 \<or> priv_vec_ls (seg_ls s) \<noteq> 0)"

definition caches_ok :: "(u32 \<Rightarrow> u32) \<Rightarrow> cache_out \<Rightarrow> core \<Rightarrow> (u32 \<Rightarrow> u8) \<Rightarrow> bool" where
  "caches_ok code c s m \<longleftrightarrow> fetch_ok code c s \<and> dcache_ok c s m"

section \<open>What the registers hold\<close>

definition quiet_ex :: "id_ex \<Rightarrow> bool" where
  "quiet_ex x \<longleftrightarrow> \<not> rf_we_ex x \<and> mem_access_ex x = 0 \<and> priv_vec_ex x = 0 \<and> \<not> bit (br_type_ex x) 4"

definition quiet_ls :: "ex_ls \<Rightarrow> bool" where
  "quiet_ls l \<longleftrightarrow> \<not> rf_we_ls l \<and> mem_access_ls l = 0 \<and> priv_vec_ls l = 0"

definition arch_ls :: "u32 \<Rightarrow> arch \<Rightarrow> ex_ls" where
  "arch_ls i a = (let x = arch_ex i a in ex_stage x (rdata1_ex x) (rdata2_ex x))"

text \<open>The states before the instruction in each stage, from the one before that in WB.\<close>

definition at_ls :: "(u32 \<Rightarrow> u32) \<Rightarrow> arch \<Rightarrow> core \<Rightarrow> arch" where
  "at_ls code a s = (if commit_wb (seg_wb s) then arch_step code a else a)"

definition at_ex :: "(u32 \<Rightarrow> u32) \<Rightarrow> arch \<Rightarrow> core \<Rightarrow> arch" where
  "at_ex code a s = (if commit_ls (seg_ls s) then arch_step code (at_ls code a s) else at_ls code a s)"

definition at_id :: "(u32 \<Rightarrow> u32) \<Rightarrow> arch \<Rightarrow> core \<Rightarrow> arch" where
  "at_id code a s = (if commit_ex (seg_ex s) then arch_step code (at_ex code a s) else at_ex code a s)"

definition wb_ok :: "(u32 \<Rightarrow> u32) \<Rightarrow> arch \<Rightarrow> core \<Rightarrow> bool" where
  "wb_ok code a s \<longleftrightarrow> (let w = seg_wb s; i = code (a_pc a); v = arch_wb i a in
     if commit_wb w
     then pc_wb w = a_pc a \<and> inst_wb w = i \<and> rf_we_wb w = rf_we_wb v \<and> wb_data w = wb_data v \<and>
       priv_vec_wb w = priv_vec_wb v \<and> csr_wdata_wb w = csr_wdata_wb v
     else priv_vec_wb w = 0 \<and> (rf_we_wb w \<longrightarrow> a_rf a (unat (part 11 7 (inst_wb w) :: 5 word)) = wb_data w))"

definition ls_ok :: "(u32 \<Rightarrow> u32) \<Rightarrow> arch \<Rightarrow> core \<Rightarrow> bool" where
  "ls_ok code a s \<longleftrightarrow> (if commit_ls (seg_ls s) then seg_ls s = arch_ls (code (a_pc a)) a else quiet_ls (seg_ls s))"

definition ex_ok :: "(u32 \<Rightarrow> u32) \<Rightarrow> arch \<Rightarrow> core \<Rightarrow> bool" where
  "ex_ok code a s \<longleftrightarrow> (let x = seg_ex s; y = arch_ex (code (a_pc a)) a in
     if commit_ex x then x = y\<lparr>rdata1_ex := rdata1_ex x, rdata2_ex := rdata2_ex x\<rparr> \<and> ex_data s = (rdata1_ex y, rdata2_ex y)
     else quiet_ex x)"

definition redirects :: "core \<Rightarrow> bool" where
  "redirects s \<longleftrightarrow> fst (ex_branch (seg_ex s) (fst (ex_data s)) (snd (ex_data s))) \<or> priv_vec_ex (seg_ex s) \<noteq> 0"

definition next_fetch :: "core \<Rightarrow> u32 \<Rightarrow> u32" where
  "next_fetch s p = (if commit_id (seg_id s) then pc_id (seg_id s) + 4 else p)"

definition front_ok :: "(u32 \<Rightarrow> u32) \<Rightarrow> u32 \<Rightarrow> core \<Rightarrow> bool" where
  "front_ok code p s \<longleftrightarrow>
     (commit_id (seg_id s) \<longrightarrow> pc_id (seg_id s) = p \<and> inst_id (seg_id s) = code p) \<and>
     (commit_if2 (seg_if2 s) \<longrightarrow> pc_if2 (seg_if2 s) = next_fetch s p) \<and>
     pc_if1 s = (if commit_if2 (seg_if2 s) then pc_if2 (seg_if2 s) + 4 else next_fetch s p)"

definition trapping :: "core \<Rightarrow> bool" where
  "trapping s \<longleftrightarrow> bit (priv_vec_ls (seg_ls s)) ECALL \<or> bit (priv_vec_wb (seg_wb s)) ECALL"

text \<open>The invariant of the processor, with the state before the instruction in the last stage.\<close>

definition pipe_inv :: "(u32 \<Rightarrow> u32) \<Rightarrow> arch \<Rightarrow> core \<Rightarrow> (u32 \<Rightarrow> u8) \<Rightarrow> bool" where
  "pipe_inv code a s m \<longleftrightarrow>
     regfile s = a_rf a \<and> csrs s = a_csrs a \<and> m = a_mem (at_ex code a s) \<and>
     wb_ok code a s \<and> ls_ok code (at_ls code a s) s \<and> ex_ok code (at_ex code a s) s \<and>
     (\<not> commit_id (seg_id s) \<longrightarrow> inst_id (seg_id s) \<in> {0x13, 0}) \<and>
     (priv_vec_ls (seg_ls s) \<noteq> 0 \<longrightarrow> \<not> commit_ex (seg_ex s) \<and> \<not> commit_id (seg_id s) \<and> \<not> commit_if2 (seg_if2 s)) \<and>
     (priv_vec_wb (seg_wb s) \<noteq> 0 \<longrightarrow> \<not> commit_ls (seg_ls s) \<and> \<not> commit_ex (seg_ex s) \<and> \<not> commit_id (seg_id s)) \<and>
     (\<not> redirects s \<longrightarrow> \<not> trapping s \<longrightarrow> front_ok code (a_pc (at_id code a s)) s)"

section \<open>A cycle, register by register\<close>

definition jumps :: "core \<Rightarrow> bool" where
  "jumps s \<longleftrightarrow> fst (ex_branch (seg_ex s) (fst (ex_data s)) (snd (ex_data s)))"

definition excepts :: "core \<Rightarrow> bool" where
  "excepts s \<longleftrightarrow> bit (priv_vec_wb (seg_wb s)) ECALL"

definition uses_load :: "core \<Rightarrow> bool" where
  "uses_load s \<longleftrightarrow> load_use (seg_ex s) (inst_id (seg_id s))"

abbreviation "priv_ex s \<equiv> priv_vec_ex (seg_ex s)"

lemma redirects_jumps: "redirects s \<longleftrightarrow> jumps s \<or> priv_ex s \<noteq> 0"
  by (simp add: redirects_def jumps_def)

lemma excepts_mcause: "mcause_global s \<noteq> 0 \<longleftrightarrow> excepts s"
  by (simp add: mcause_global_def excepts_def Exp_Commit_def)

lemma hazard_signals:
  "pc_set (cpu_hazards c s) \<longleftrightarrow> redirects s \<or> excepts s"
  "pc_target (cpu_hazards c s) = (if excepts s then r_mtvec (csrs s)
     else if priv_ex s \<noteq> 0 then (if bit (priv_ex s) MRET then r_mepc (csrs s) else pc_ex (seg_ex s) + 4)
     else snd (ex_branch (seg_ex s) (fst (ex_data s)) (snd (ex_data s))))"
  "IF1_IF2_flush (cpu_hazards c s) \<longleftrightarrow> redirects s \<or> excepts s"
  "icache_flush (cpu_hazards c s) \<longleftrightarrow> redirects s \<or> excepts s"
  "IF2_ID_flush (cpu_hazards c s) \<longleftrightarrow> (jumps s \<or> icache_miss c) \<and> \<not> (uses_load s \<or> dcache_miss c) \<or> priv_ex s \<noteq> 0 \<or> excepts s"
  "ID_EX_flush (cpu_hazards c s) \<longleftrightarrow> (jumps s \<or> uses_load s \<or> priv_ex s \<noteq> 0) \<and> \<not> dcache_miss c \<or> excepts s"
  "EX_LS_flush (cpu_hazards c s) = excepts s" "LS_WB_flush (cpu_hazards c s) = excepts s"
  "pc_stall (cpu_hazards c s) \<longleftrightarrow> uses_load s \<or> icache_miss c \<or> dcache_miss c"
  "IF1_IF2_stall (cpu_hazards c s) \<longleftrightarrow> uses_load s \<or> icache_miss c \<or> dcache_miss c"
  "IF2_ID_stall (cpu_hazards c s) \<longleftrightarrow> uses_load s \<or> dcache_miss c"
  "ID_EX_stall (cpu_hazards c s) = dcache_miss c" "EX_LS_stall (cpu_hazards c s) = dcache_miss c"
  "LS_WB_stall (cpu_hazards c s) = dcache_miss c"
  by (auto simp: cpu_hazards_def Hazard_def Let_def case_prod_unfold redirects_jumps jumps_def excepts_mcause uses_load_def)

lemma cycle_front:
  "pc_if1 (cpu_cycle True c s) = (if redirects s \<or> excepts s then pc_target (cpu_hazards c s)
     else if uses_load s \<or> icache_miss c \<or> dcache_miss c then pc_if1 s else pc_if1 s + 4)"
  "seg_if2 (cpu_cycle True c s) = (if redirects s \<or> excepts s then if1_if2_reset
     else if uses_load s \<or> icache_miss c \<or> dcache_miss c then seg_if2 s else \<lparr>pc_if2 = pc_if1 s, commit_if2 = True\<rparr>)"
  "seg_id (cpu_cycle True c s) =
     (if (jumps s \<or> icache_miss c) \<and> \<not> (uses_load s \<or> dcache_miss c) \<or> priv_ex s \<noteq> 0 \<or> excepts s then if2_id_reset
      else if uses_load s \<or> dcache_miss c then seg_id s
      else \<lparr>pc_id = pc_if2 (seg_if2 s), inst_id = icache_rdata c, commit_id = commit_if2 (seg_if2 s)\<rparr>)"
  by (auto simp: cpu_cycle_def Let_def case_prod_unfold hazard_signals SegReg_def PC_next_def NPC_Mux_def)

lemma cycle_back:
  "seg_ex (cpu_cycle True c s) =
     (if (jumps s \<or> uses_load s \<or> priv_ex s \<noteq> 0) \<and> \<not> dcache_miss c \<or> excepts s then id_ex_reset
      else if dcache_miss c then seg_ex s else cpu_id s)"
  "seg_ls (cpu_cycle True c s) = (if excepts s then ex_ls_reset else if dcache_miss c then seg_ls s
     else ex_stage (seg_ex s) (fst (ex_data s)) (snd (ex_data s)))"
  "seg_wb (cpu_cycle True c s) = (if excepts s then ls_wb_reset
     else if dcache_miss c then (seg_wb s)\<lparr>commit_wb := False\<rparr> else ls_stage (seg_ls s) (dcache_rdata c))"
  "regfile (cpu_cycle True c s) = Regfile_write (part 11 7 (inst_wb (seg_wb s))) (wb_data (seg_wb s)) (rf_we_wb (seg_wb s)) (regfile s)"
  "csrs (cpu_cycle True c s) = CSR_next (part 31 20 (inst_wb (seg_wb s))) (bit (priv_vec_wb (seg_wb s)) CSR_RW)
     (csr_wdata_wb (seg_wb s)) (pc_wb (seg_wb s)) (mcause_global s) (priv_vec_wb (seg_wb s)) (csrs s)"
  by (auto simp: cpu_cycle_def Let_def case_prod_unfold hazard_signals SegReg_def SegReg_LS_WB_def ls_wb_reset_def ls_stage_def)

section \<open>The last stages\<close>

lemma pipe_invD:
  assumes "pipe_inv code a s m"
  shows "regfile s = a_rf a" "csrs s = a_csrs a" "m = a_mem (at_ex code a s)"
    "wb_ok code a s" "ls_ok code (at_ls code a s) s" "ex_ok code (at_ex code a s) s"
    "\<not> commit_id (seg_id s) \<Longrightarrow> inst_id (seg_id s) \<in> {0x13, 0}"
    "priv_vec_ls (seg_ls s) \<noteq> 0 \<Longrightarrow> \<not> commit_ex (seg_ex s) \<and> \<not> commit_id (seg_id s) \<and> \<not> commit_if2 (seg_if2 s)"
    "priv_vec_wb (seg_wb s) \<noteq> 0 \<Longrightarrow> \<not> commit_ls (seg_ls s) \<and> \<not> commit_ex (seg_ex s) \<and> \<not> commit_id (seg_id s)"
    "\<not> redirects s \<Longrightarrow> \<not> trapping s \<Longrightarrow> front_ok code (a_pc (at_id code a s)) s"
  using assms unfolding pipe_inv_def by blast+

text \<open>WB: the registers after the cycle are those before the instruction in LS.\<close>

lemma arch_wb_fields:
  "pc_wb (arch_wb i a) = a_pc a" "inst_wb (arch_wb i a) = i" "commit_wb (arch_wb i a)"
  by (simp_all add: arch_wb_def ls_stage_def ex_stage_def arch_ex_def id_stage_def Let_def)

lemma wb_retires:
  assumes "pipe_inv code a s m"
  shows "regfile (cpu_cycle True c s) = a_rf (at_ls code a s)" "csrs (cpu_cycle True c s) = a_csrs (at_ls code a s)"
proof -
  note inv = pipe_invD [OF assms]
  show "regfile (cpu_cycle True c s) = a_rf (at_ls code a s)"
  proof (cases "commit_wb (seg_wb s)")
    case True
    then show ?thesis using inv(1,4)
      by (simp add: cycle_back wb_ok_def at_ls_def arch_step_def rtl_exec_def Let_def)
  next
    case False
    then have "Regfile_write (part 11 7 (inst_wb (seg_wb s))) (wb_data (seg_wb s)) (rf_we_wb (seg_wb s)) (a_rf a) = a_rf a"
      using inv(4) by (auto simp: wb_ok_def Regfile_write_def Let_def)
    then show ?thesis using False inv(1) by (simp add: cycle_back at_ls_def)
  qed
  show "csrs (cpu_cycle True c s) = a_csrs (at_ls code a s)"
  proof (cases "commit_wb (seg_wb s)")
    case True
    then show ?thesis using inv(2,4)
      by (simp add: cycle_back wb_ok_def at_ls_def arch_step_def rtl_exec_def mcause_global_def Let_def)
  next
    case False
    then show ?thesis using inv(2,4)
      by (simp add: cycle_back wb_ok_def at_ls_def mcause_global_def Exp_Commit_def CSR_idle Let_def)
  qed
qed

text \<open>Only loads take their value from the memory, and loads do not store.\<close>

lemma wb_sel_load:
  assumes "wb_rf_sel_ex (arch_ex i a)"
  shows "bit (mem_access_ex (arch_ex i a)) LOAD_BIT" "\<not> bit (mem_access_ex (arch_ex i a)) STORE_BIT"
proof -
  have "opcode i = 3" using assms
    by (simp add: arch_ex_def id_stage_def Decode_unit_def part_field rtl_constants Let_def split: if_splits)
  then have "mem_access_ex (arch_ex i a) = cat_2_3 False True (ucast (funct3 i))"
    by (simp add: arch_ex_def id_stage_def Decode_03 Let_def)
  then show "bit (mem_access_ex (arch_ex i a)) LOAD_BIT" "\<not> bit (mem_access_ex (arch_ex i a)) STORE_BIT"
    using mem_bits(2) [of i] by (simp_all add: cat_2_3_def bit_or_iff LOAD_BIT_def)
qed

lemma load_no_store: "bit (mem_access_ex (arch_ex i a)) LOAD_BIT \<Longrightarrow> \<not> bit (mem_access_ex (arch_ex i a)) STORE_BIT"
proof -
  assume l: "bit (mem_access_ex (arch_ex i a)) LOAD_BIT"
  have nl: "\<not> bit (cat_2_3 True False (ucast (funct3 i))) LOAD_BIT"
    using branch_bits(2) [of i] by (simp add: LOAD_BIT_def)
  have "opcode i = 3"
  proof (rule ccontr)
    assume "opcode i \<noteq> 3"
    then have "mem_access_ex (arch_ex i a) = (if opcode i = 0x23 then cat_2_3 True False (ucast (funct3 i)) else 0)"
      by (simp add: arch_ex_def id_stage_def Decode_unit_def part_field part_ucast(2) rtl_constants Let_def)
    then show False using l nl by (auto split: if_splits)
  qed
  then show ?thesis using mem_bits(2) [of i] by (simp add: arch_ex_def id_stage_def Decode_03 Let_def)
qed

lemma arch_mem_load: "bit (mem_access_ex (arch_ex i a)) LOAD_BIT \<Longrightarrow> arch_mem i a = a_mem a"
  using load_no_store [of i a] by (simp add: arch_mem_def Let_def case_prod_unfold)

lemma ex_stage_same:
  assumes "x = y\<lparr>rdata1_ex := rdata1_ex x, rdata2_ex := rdata2_ex x\<rparr>"
  shows "ex_stage x d1 d2 = ex_stage y d1 d2" "ex_alu x d1 d2 = ex_alu y d1 d2" "ex_write x d1 d2 = ex_write y d1 d2"
    "ex_branch x d1 d2 = ex_branch y d1 d2" "mem_access_ex x = mem_access_ex y" "rf_we_ex x = rf_we_ex y"
    "inst_ex x = inst_ex y" "wb_rf_sel_ex x = wb_rf_sel_ex y" "priv_vec_ex x = priv_vec_ex y" "pc_ex x = pc_ex y" "br_type_ex x = br_type_ex y"
  by (subst assms; simp add: ex_stage_def ex_alu_def ex_write_def ex_branch_def)+

text \<open>The instruction in EX, if there is one.\<close>

lemma in_ex:
  assumes "ex_ok code x s" and "commit_ex (seg_ex s)" and "y = arch_ex (code (a_pc x)) x"
  shows "ex_stage (seg_ex s) (fst (ex_data s)) (snd (ex_data s)) = arch_ls (code (a_pc x)) x"
    "dcache_request s = \<lparr>d_load = bit (mem_access_ex y) LOAD_BIT, d_store = bit (mem_access_ex y) STORE_BIT,
      d_addr = ex_alu y (rdata1_ex y) (rdata2_ex y), d_strb = fst (ex_write y (rdata1_ex y) (rdata2_ex y)),
      d_data = snd (ex_write y (rdata1_ex y) (rdata2_ex y))\<rparr>"
    "ex_branch (seg_ex s) (fst (ex_data s)) (snd (ex_data s)) = ex_branch y (rdata1_ex y) (rdata2_ex y)"
    "priv_ex s = priv_vec_ex y" "pc_ex (seg_ex s) = a_pc x" "inst_ex (seg_ex s) = code (a_pc x)"
    "rf_we_ex (seg_ex s) = rf_we_ex y" "mem_access_ex (seg_ex s) = mem_access_ex y"
proof -
  have x: "seg_ex s = y\<lparr>rdata1_ex := rdata1_ex (seg_ex s), rdata2_ex := rdata2_ex (seg_ex s)\<rparr>"
    and d: "ex_data s = (rdata1_ex y, rdata2_ex y)"
    using assms unfolding ex_ok_def Let_def by auto
  note same = ex_stage_same [OF x]
  show "ex_stage (seg_ex s) (fst (ex_data s)) (snd (ex_data s)) = arch_ls (code (a_pc x)) x"
    using d by (simp add: same arch_ls_def assms(3) Let_def)
  show "dcache_request s = \<lparr>d_load = bit (mem_access_ex y) LOAD_BIT, d_store = bit (mem_access_ex y) STORE_BIT,
      d_addr = ex_alu y (rdata1_ex y) (rdata2_ex y), d_strb = fst (ex_write y (rdata1_ex y) (rdata2_ex y)),
      d_data = snd (ex_write y (rdata1_ex y) (rdata2_ex y))\<rparr>"
    using d by (simp add: dcache_request_def same Let_def case_prod_unfold)
  show "ex_branch (seg_ex s) (fst (ex_data s)) (snd (ex_data s)) = ex_branch y (rdata1_ex y) (rdata2_ex y)"
    "priv_ex s = priv_vec_ex y" "pc_ex (seg_ex s) = a_pc x" "inst_ex (seg_ex s) = code (a_pc x)"
    "rf_we_ex (seg_ex s) = rf_we_ex y" "mem_access_ex (seg_ex s) = mem_access_ex y"
    using d by (simp_all add: same assms(3)) (simp_all add: arch_ex_def id_stage_def Let_def)
qed

text \<open>The memory after the request of EX.\<close>

lemma serve_ex:
  assumes "pipe_inv code a s m"
  shows "serve (dcache_request s) m = a_mem (at_id code a s)"
proof (cases "commit_ex (seg_ex s)")
  case True
  define x where "x = at_ex code a s"
  have "a_mem (at_id code a s) = arch_mem (code (a_pc x)) x"
    using True by (simp add: at_id_def arch_step_def rtl_exec_def x_def Let_def)
  moreover have "m = a_mem x" using pipe_invD(3) [OF assms] by (simp add: x_def)
  ultimately show ?thesis
    using in_ex(2) [OF pipe_invD(6) [OF assms] True refl, folded x_def] by (simp add: serve_def arch_mem_def Let_def case_prod_unfold)
next
  case False
  then have "quiet_ex (seg_ex s)" using pipe_invD(6) [OF assms] by (simp add: ex_ok_def Let_def)
  then have "\<not> d_store (dcache_request s)" by (simp add: dcache_request_def quiet_ex_def Let_def case_prod_unfold)
  then show ?thesis using False pipe_invD(3) [OF assms] by (simp add: serve_def at_id_def)
qed

text \<open>LS: what WB gets.\<close>

lemma ls_to_wb:
  assumes "pipe_inv code a s m" and "caches_ok code c s m" and "\<not> dcache_miss c"
    and "seg_wb s' = ls_stage (seg_ls s) (dcache_rdata c)"
  shows "wb_ok code (at_ls code a s) s'"
proof (cases "commit_ls (seg_ls s)")
  case True
  define b i where "b = at_ls code a s" and "i = code (a_pc b)"
  have l: "seg_ls s = arch_ls i b" using pipe_invD(5) [OF assms(1)] True by (simp add: ls_ok_def b_def i_def)
  have m: "m = a_mem (arch_step code b)" using pipe_invD(3) [OF assms(1)] True by (simp add: at_ex_def b_def)
  let ?y = "arch_ex i b"
  have f: "pc_ls (arch_ls i b) = a_pc b" "inst_ls (arch_ls i b) = i" "commit_ls (arch_ls i b)"
    "wb_rf_sel_ls (arch_ls i b) = wb_rf_sel_ex ?y" "mem_access_ls (arch_ls i b) = mem_access_ex ?y"
    "arch_wb i b = ls_stage (arch_ls i b) (mem_word (a_mem b) (alu_result_ls (arch_ls i b)))"
    by (simp_all add: arch_ls_def arch_wb_def ex_stage_def arch_ex_def id_stage_def Let_def)
  have "wb_data (ls_stage (arch_ls i b) (dcache_rdata c)) = wb_data (arch_wb i b)"
  proof (cases "wb_rf_sel_ex ?y")
    case True
    then have ld: "bit (mem_access_ex ?y) LOAD_BIT" by (rule wb_sel_load)
    then have "m = a_mem b" using m arch_mem_load [OF ld] by (simp add: arch_step_def rtl_exec_def i_def Let_def)
    moreover have "dcache_rdata c = mem_word m (alu_result_ls (arch_ls i b))"
      using assms(2,3) ld unfolding caches_ok_def fetch_ok_def dcache_ok_def by (simp add: l f)
    ultimately show ?thesis by (simp add: f)
  next
    case False
    then show ?thesis unfolding f(6) by (simp add: wb_data_def ls_stage_def Mux2_1_def f(4))
  qed
  moreover have "commit_wb (ls_stage (arch_ls i b) (dcache_rdata c))" using f(3) by (simp add: ls_stage_def)
  ultimately show ?thesis
    unfolding b_def [symmetric] wb_ok_def assms(4) l i_def [symmetric] Let_def
    by (simp add: f(6)) (simp add: ls_stage_def f)
next
  case False
  then have "quiet_ls (seg_ls s)" using pipe_invD(5) [OF assms(1)] by (simp add: ls_ok_def)
  then show ?thesis using False by (simp add: wb_ok_def assms(4) ls_stage_def quiet_ls_def Let_def)
qed

lemma ex_to_ls:
  assumes "pipe_inv code a s m" and "seg_ls s' = ex_stage (seg_ex s) (fst (ex_data s)) (snd (ex_data s))"
  shows "ls_ok code (at_ex code a s) s'"
proof (cases "commit_ex (seg_ex s)")
  case True
  then show ?thesis using in_ex(1) [OF pipe_invD(6) [OF assms(1)] True refl]
    by (simp add: ls_ok_def assms(2)) (simp add: arch_ls_def ex_stage_def arch_ex_def id_stage_def Let_def)
next
  case False
  then show ?thesis using pipe_invD(6) [OF assms(1)]
    by (simp add: ls_ok_def assms(2) ex_ok_def quiet_ex_def quiet_ls_def ex_stage_def Let_def)
qed

section \<open>What the stage ID hands on\<close>

lemma unat_same: "unat (r :: 'a::len word) = unat w \<longleftrightarrow> r = w"
  by (simp add: word_unat_eq_iff)

lemma Regfile_read_write: "Regfile_read rf r wa wd we = Regfile_write wa wd we rf (unat r)"
  by (auto simp: Regfile_read_def Regfile_write_def unat_same)

lemma arch_step_rf:
  "a_rf (arch_step code b) = (let i = code (a_pc b) in Regfile_write (part 11 7 i) (wb_data (arch_wb i b)) (rf_we_wb (arch_wb i b)) (a_rf b))"
  by (simp add: arch_step_def rtl_exec_def Let_def)

lemma priv_fields:
  "priv_vec_ls (arch_ls i b) = priv_vec_ex (arch_ex i b)" "priv_vec_wb (arch_wb i b) = priv_vec_ex (arch_ex i b)"
  "rf_we_ls (arch_ls i b) = rf_we_ex (arch_ex i b)" "rf_we_wb (arch_wb i b) = rf_we_ex (arch_ex i b)"
  "inst_ls (arch_ls i b) = i" "inst_ex (arch_ex i b) = i" "commit_ls (arch_ls i b)" "pc_ls (arch_ls i b) = a_pc b"
  "mem_access_ls (arch_ls i b) = mem_access_ex (arch_ex i b)" "commit_ex (arch_ex i b)" "pc_ex (arch_ex i b) = a_pc b"
  by (simp_all add: arch_ls_def arch_wb_def ls_stage_def ex_stage_def arch_ex_def id_stage_def Let_def)

lemma arch_step_csrs: "priv_vec_ex (arch_ex (code (a_pc b)) b) = 0 \<Longrightarrow> a_csrs (arch_step code b) = a_csrs b"
  by (simp add: arch_step_def rtl_exec_def priv_fields Exp_Commit_def CSR_idle Let_def)

text \<open>WB to come: the value that is forwarded from it.\<close>

lemma forward_wb:
  fixes r :: "5 word"
  assumes "pipe_inv code a s m" and "caches_ok code c s m" and "\<not> dcache_miss c" and "w = ls_stage (seg_ls s) (dcache_rdata c)"
  shows "(if rf_we_wb w \<and> part 11 7 (inst_wb w) = r then wb_data w else a_rf (at_ls code a s) (unat r)) = a_rf (at_ex code a s) (unat r)"
proof (cases "commit_ls (seg_ls s)")
  case True
  have w: "seg_wb (s\<lparr>seg_wb := w\<rparr>) = ls_stage (seg_ls s) (dcache_rdata c)" by (simp add: assms(4))
  have "wb_ok code (at_ls code a s) (s\<lparr>seg_wb := w\<rparr>)" by (rule ls_to_wb [OF assms(1-3) w])
  moreover have "commit_wb w" using True assms(4) by (simp add: ls_stage_def)
  ultimately show ?thesis using True by (auto simp: wb_ok_def at_ex_def arch_step_rf Regfile_write_def unat_same Let_def)
next
  case False
  then have "quiet_ls (seg_ls s)" using pipe_invD(5) [OF assms(1)] by (simp add: ls_ok_def)
  then show ?thesis using False assms(4) by (simp add: quiet_ls_def ls_stage_def at_ex_def)
qed

text \<open>LS to come: a load whose value is used is excluded.\<close>

lemma forward_ls:
  fixes r :: "5 word"
  assumes "pipe_inv code a s m" and "l = ex_stage (seg_ex s) (fst (ex_data s)) (snd (ex_data s))"
    and "bit (mem_access_ex (seg_ex s)) LOAD_BIT \<Longrightarrow> part 11 7 (inst_ex (seg_ex s)) \<noteq> r"
  shows "(if rf_we_ls l \<and> part 11 7 (inst_ls l) = r then alu_result_ls l else a_rf (at_ex code a s) (unat r)) = a_rf (at_id code a s) (unat r)"
proof (cases "commit_ex (seg_ex s)")
  case True
  define b i where "b = at_ex code a s" and "i = code (a_pc b)"
  note e = in_ex [OF pipe_invD(6) [OF assms(1)] True refl, folded b_def, folded i_def]
  have l: "l = arch_ls i b" using e(1) assms(2) by simp
  have alu: "wb_data (arch_wb i b) = alu_result_ls (arch_ls i b)" if "rf_we_ls l" "part 11 7 (inst_ls l) = r"
  proof -
    have "\<not> bit (mem_access_ex (arch_ex i b)) LOAD_BIT" using that(2) assms(3) e(6,8) l by (auto simp: priv_fields)
    then have "\<not> wb_rf_sel_ex (arch_ex i b)" using wb_sel_load(1) by blast
    then show ?thesis by (simp add: arch_wb_def arch_ls_def ls_stage_def ex_stage_def wb_data_def Mux2_1_def Let_def)
  qed
  have "at_id code a s = arch_step code b" using True by (simp add: at_id_def b_def)
  then show ?thesis
    using alu unfolding b_def [symmetric] l
    by (auto simp: arch_step_rf i_def [symmetric] priv_fields Regfile_write_def unat_same)
next
  case False
  then have "quiet_ex (seg_ex s)" using pipe_invD(6) [OF assms(1)] by (simp add: ex_ok_def Let_def)
  then show ?thesis using False assms(2) by (simp add: quiet_ex_def ex_stage_def at_id_def)
qed

lemma forwarded:
  assumes "pipe_inv code a s m" and "caches_ok code c s m" and "\<not> dcache_miss c" and "w = seg_wb s"
    and "bit (mem_access_ex (seg_ex s)) LOAD_BIT \<Longrightarrow> part 11 7 (inst_ex (seg_ex s)) \<noteq> r"
  shows "forward r (ex_stage (seg_ex s) (fst (ex_data s)) (snd (ex_data s))) (ls_stage (seg_ls s) (dcache_rdata c))
    (Regfile_read (regfile s) r (part 11 7 (inst_wb w)) (wb_data w) (rf_we_wb w)) = a_rf (at_id code a s) (unat r)"
proof -
  have "Regfile_read (regfile s) r (part 11 7 (inst_wb w)) (wb_data w) (rf_we_wb w) = a_rf (at_ls code a s) (unat r)"
    using wb_retires(1) [OF assms(1)] by (simp add: Regfile_read_write cycle_back(4) assms(4))
  then show ?thesis
    using forward_wb [OF assms(1-3) refl, of r] forward_ls [OF assms(1) refl assms(5)]
    unfolding forward_def by (simp only: if_cancel)
qed

text \<open>A word that is no instruction does nothing.\<close>

lemma quiet_id:
  assumes "i \<in> {0x13, 0}"
  shows "quiet_ex (id_stage p0 i cm v r1 r2)"
proof -
  have "opcode i = i" "rd_field i = 0" "funct3 i = 0" using assms by (auto simp: field_defs)
  moreover have "Decode_unit 0 = \<lparr>d_alu_op = 0, d_mem_access = 0, d_imm = 0, d_rf_we = False, d_rs1_sel = 0, d_rs2_sel = 0,
      d_wb_sel = False, d_br_type = 0, d_priv_vec = 0\<rparr>"
    by (simp add: Decode_unit_def Decode_priv_vec_def part_field field_defs rtl_constants)
  ultimately show ?thesis
    using assms br_plain [of _ i] by (auto simp: quiet_ex_def id_stage_def Decode_13)
qed

text \<open>While no privileged instruction is in the last stages the CSRs stay.\<close>

lemma csrs_same:
  assumes "pipe_inv code a s m" and "priv_vec_wb (seg_wb s) = 0" and "priv_vec_ls (seg_ls s) = 0"
  shows "a_csrs (at_ls code a s) = a_csrs a" "a_csrs (at_ex code a s) = a_csrs a"
    "priv_ex s = 0 \<Longrightarrow> a_csrs (at_id code a s) = a_csrs a"
proof -
  show ls: "a_csrs (at_ls code a s) = a_csrs a"
    using pipe_invD(4) [OF assms(1)] assms(2)
    by (auto simp: at_ls_def wb_ok_def priv_fields Let_def intro!: arch_step_csrs)
  then show ex: "a_csrs (at_ex code a s) = a_csrs a"
    using pipe_invD(5) [OF assms(1)] assms(3)
    by (auto simp: at_ex_def ls_ok_def priv_fields arch_step_csrs)
  show "a_csrs (at_id code a s) = a_csrs a" if "priv_ex s = 0"
    using ex in_ex(4) [OF pipe_invD(6) [OF assms(1)] _ refl] that by (auto simp: at_id_def arch_step_csrs)
qed

lemma no_trap: "priv_vec_ls (seg_ls s) = 0 \<Longrightarrow> priv_vec_wb (seg_wb s) = 0 \<Longrightarrow> \<not> trapping s"
  by (simp add: trapping_def)

lemma id_to_ex:
  assumes "pipe_inv code a s m" and "caches_ok code c s m" and "\<not> dcache_miss c" and "\<not> excepts s" and "\<not> redirects s"
    and "\<not> uses_load s" and "s' = cpu_cycle True c s"
  shows "ex_ok code (at_id code a s) s'"
proof -
  have x: "seg_ex s' = cpu_id s" using assms by (simp add: cycle_back redirects_jumps)
  have l: "seg_ls s' = ex_stage (seg_ex s) (fst (ex_data s)) (snd (ex_data s))" "seg_wb s' = ls_stage (seg_ls s) (dcache_rdata c)"
    using assms by (simp_all add: cycle_back)
  show ?thesis
  proof (cases "commit_id (seg_id s)")
    case True
    define b i where "b = at_id code a s" and "i = code (a_pc b)"
    have p: "priv_vec_ls (seg_ls s) = 0" "priv_vec_wb (seg_wb s) = 0" "priv_ex s = 0"
      using True pipe_invD(8,9) [OF assms(1)] assms(5) by (auto simp: redirects_def)
    have f: "pc_id (seg_id s) = a_pc b" "inst_id (seg_id s) = i"
      using True pipe_invD(10) [OF assms(1) assms(5) no_trap [OF p(1,2)]] by (simp_all add: front_ok_def b_def i_def)
    have cs: "csrs s = a_csrs b" using csrs_same(3) [OF assms(1) p(2,1,3)] pipe_invD(2) [OF assms(1)] by (simp add: b_def)
    have r: "bit (mem_access_ex (seg_ex s)) LOAD_BIT \<Longrightarrow> part 11 7 (inst_ex (seg_ex s)) \<noteq> (part 19 15 i :: 5 word)"
      "bit (mem_access_ex (seg_ex s)) LOAD_BIT \<Longrightarrow> part 11 7 (inst_ex (seg_ex s)) \<noteq> (part 24 20 i :: 5 word)"
      using assms(6) f(2) by (auto simp: uses_load_def load_use_def Let_def)
    note d = forwarded [OF assms(1-3) refl r(1)] forwarded [OF assms(1-3) refl r(2)]
    have "ex_data s' = (a_rf b (unat (part 19 15 i :: 5 word)), a_rf b (unat (part 24 20 i :: 5 word)))"
      using d f unfolding ex_data_def x l b_def [symmetric] by (simp add: cpu_id_def id_stage_def Let_def)
    then have "ex_data s' = (rdata1_ex (arch_ex i b), rdata2_ex (arch_ex i b))"
      by (simp add: arch_ex_def id_stage_def Let_def)
    moreover have "seg_ex s' = (arch_ex i b)\<lparr>rdata1_ex := rdata1_ex (seg_ex s'), rdata2_ex := rdata2_ex (seg_ex s')\<rparr>"
      using True f cs unfolding x by (simp add: cpu_id_def arch_ex_def id_stage_def Let_def)
    moreover have "commit_ex (seg_ex s')" using True unfolding x by (simp add: cpu_id_def id_stage_def Let_def)
    ultimately show ?thesis
      unfolding ex_ok_def b_def [symmetric] i_def [symmetric] Let_def by simp
  next
    case False
    have "quiet_ex (seg_ex s')" unfolding x cpu_id_def Let_def by (rule quiet_id [OF pipe_invD(7) [OF assms(1) False]])
    moreover have "\<not> commit_ex (seg_ex s')" using False unfolding x by (simp add: cpu_id_def id_stage_def Let_def)
    ultimately show ?thesis by (simp add: ex_ok_def Let_def)
  qed
qed

section \<open>The instruction after EX\<close>

lemma jump_no_load:
  assumes "ex_ok code x s" and "jumps s"
  shows "\<not> uses_load s" "commit_ex (seg_ex s)"
proof -
  show c: "commit_ex (seg_ex s)"
    using assms no_jump [of "br_type_ex (seg_ex s)"] by (auto simp: ex_ok_def quiet_ex_def jumps_def ex_branch_def Let_def split: if_splits)
  show "\<not> uses_load s"
  proof
    assume "uses_load s"
    define i where "i = code (a_pc x)"
    have "bit (mem_access_ex (arch_ex i x)) LOAD_BIT"
      using \<open>uses_load s\<close> in_ex(8) [OF assms(1) c refl] by (simp add: uses_load_def load_use_def i_def Let_def)
    moreover have "\<not> bit (cat_2_3 True False (ucast (funct3 i))) LOAD_BIT"
      using branch_bits(2) [of i] by (simp add: LOAD_BIT_def)
    ultimately have "opcode i = 3"
      by (simp add: arch_ex_def id_stage_def Decode_unit_def part_field part_ucast(2) rtl_constants Let_def split: if_splits)
    then have "\<not> bit (br_type_ex (arch_ex i x)) 4" using br_plain [of _ i] by (simp add: arch_ex_def id_stage_def Decode_03 Let_def)
    then show False
      using assms(2) in_ex(3) [OF assms(1) c refl] no_jump unfolding jumps_def i_def by (simp add: ex_branch_def)
  qed
qed

text \<open>Where the next one is: the address EX asks for, or the next.\<close>

lemma next_pc:
  assumes "ex_ok code x s" and "commit_ex (seg_ex s)" and "\<not> bit (priv_ex s) ECALL"
  shows "a_pc (arch_step code x) =
    (if priv_ex s \<noteq> 0 then (if bit (priv_ex s) MRET then r_mepc (a_csrs x) else pc_ex (seg_ex s) + 4)
     else if jumps s then snd (ex_branch (seg_ex s) (fst (ex_data s)) (snd (ex_data s))) else a_pc x + 4)"
  using in_ex [OF assms(1,2) refl] assms(3)
  by (simp add: arch_step_def rtl_exec_def arch_npc_def Exp_Commit_def jumps_def case_prod_unfold Let_def)

lemma redirect_commits:
  assumes "ex_ok code x s" and "redirects s"
  shows "commit_ex (seg_ex s)"
  using assms jump_no_load(2) [OF assms(1)] by (auto simp: redirects_jumps ex_ok_def quiet_ex_def Let_def split: if_splits)

section \<open>Exceptions\<close>

lemma inv_exception:
  assumes "pipe_inv code a s m" and "excepts s" and "m' = (if dcache_miss c then m else serve (dcache_request s) m)"
  shows "pipe_inv code (at_ls code a s) (cpu_cycle True c s) m'"
proof -
  note inv = pipe_invD [OF assms(1)]
  define s' where "s' = cpu_cycle True c s"
  have p: "priv_vec_wb (seg_wb s) \<noteq> 0" using assms(2) by (auto simp: excepts_def)
  then have w: "commit_wb (seg_wb s)" using inv(4) by (auto simp: wb_ok_def Let_def split: if_splits)
  have n: "\<not> commit_ls (seg_ls s)" "\<not> commit_ex (seg_ex s)" using inv(9) p by auto
  have s': "seg_if2 s' = if1_if2_reset" "seg_id s' = if2_id_reset" "seg_ex s' = id_ex_reset" "seg_ls s' = ex_ls_reset"
    "seg_wb s' = ls_wb_reset" "pc_if1 s' = r_mtvec (csrs s)"
    using assms(2) by (simp_all add: s'_def cycle_front cycle_back hazard_signals)
  have "priv_vec_ex (arch_ex (code (a_pc a)) a) = priv_vec_wb (seg_wb s)"
    using w inv(4) by (simp add: wb_ok_def priv_fields Let_def)
  then have pc': "a_pc (at_ls code a s) = r_mtvec (csrs s)"
    using w inv(2) assms(2)
    by (simp add: at_ls_def arch_step_def rtl_exec_def arch_npc_def Exp_Commit_def excepts_def case_prod_unfold Let_def)
  have m: "m' = a_mem (at_ls code a s)"
    using n inv(3) serve_ex [OF assms(1)] assms(3) by (simp add: at_ex_def at_id_def)
  show ?thesis
    unfolding pipe_inv_def s'_def [symmetric] s' at_ls_def at_ex_def at_id_def wb_ok_def ls_ok_def ex_ok_def front_ok_def next_fetch_def
    using wb_retires [OF assms(1), of c] pc' m unfolding s'_def [symmetric]
    by (simp add: ls_wb_reset_def ex_ls_reset_def id_ex_reset_def if2_id_reset_def if1_if2_reset_def quiet_ls_def quiet_ex_def at_ls_def)
qed

section \<open>The data cache stalls\<close>

lemma inv_stall:
  assumes "pipe_inv code a s m" and "\<not> excepts s" and "dcache_miss c" and "caches_ok code c s m"
  shows "pipe_inv code (at_ls code a s) (cpu_cycle True c s) m"
proof -
  note inv = pipe_invD [OF assms(1)]
  define s' where "s' = cpu_cycle True c s"
  have l: "mem_access_ls (seg_ls s) \<noteq> 0 \<or> priv_vec_ls (seg_ls s) \<noteq> 0" using assms(3,4) by (simp add: caches_ok_def fetch_ok_def dcache_ok_def)
  then have "commit_ls (seg_ls s)" using inv(5) by (auto simp: ls_ok_def quiet_ls_def split: if_splits)
  then have p: "priv_vec_wb (seg_wb s) = 0" using inv(9) by auto
  have s': "seg_ex s' = seg_ex s" "seg_ls s' = seg_ls s" "seg_wb s' = (seg_wb s)\<lparr>commit_wb := False\<rparr>"
    "seg_id s' = (if priv_ex s \<noteq> 0 then if2_id_reset else seg_id s)"
    "seg_if2 s' = (if redirects s then if1_if2_reset else seg_if2 s)"
    "\<not> redirects s \<Longrightarrow> pc_if1 s' = pc_if1 s"
    using assms(2,3) by (simp_all add: s'_def cycle_front cycle_back)
  have d: "ex_data s' = ex_data s" by (simp add: ex_data_def s' forward_def wb_data_def Let_def)
  have r: "redirects s' = redirects s" "trapping s' = trapping s" by (simp_all add: redirects_def trapping_def d s')
  have at: "at_ls code (at_ls code a s) s' = at_ls code a s" "at_ex code (at_ls code a s) s' = at_ex code a s"
    "at_id code (at_ls code a s) s' = at_id code a s"
    by (simp_all add: at_ls_def at_ex_def at_id_def s')
  note rf = wb_retires [OF assms(1), of c, folded s'_def]
  have "rf_we_wb (seg_wb s) \<Longrightarrow> a_rf (at_ls code a s) (unat (part 11 7 (inst_wb (seg_wb s)) :: 5 word)) = wb_data (seg_wb s)"
    by (simp add: rf(1) [symmetric]) (simp add: s'_def cycle_back Regfile_write_def)
  then have w: "wb_ok code (at_ls code a s) s'" using p by (simp add: wb_ok_def wb_data_def s' Let_def)
  have "ls_ok code (at_ls code a s) s'" using inv(5) unfolding ls_ok_def s'(2) .
  moreover have "ex_ok code (at_ex code a s) s'" using inv(6) unfolding ex_ok_def s'(1) d .
  moreover have "\<not> redirects s \<Longrightarrow> \<not> trapping s \<Longrightarrow> front_ok code (a_pc (at_id code a s)) s'"
    using inv(10) s' by (auto simp: front_ok_def next_fetch_def redirects_jumps)
  ultimately show ?thesis
    unfolding pipe_inv_def s'_def [symmetric] at r using rf w inv(3,7,8) p
    by (auto simp: s' if2_id_reset_def if1_if2_reset_def)
qed

section \<open>A cycle in which the pipeline moves\<close>

lemma no_trap_before:
  assumes "\<not> excepts s" and "\<not> dcache_miss c" and "\<not> trapping (cpu_cycle True c s)"
  shows "\<not> trapping s" "\<not> bit (priv_ex s) ECALL"
  using assms by (simp_all add: trapping_def cycle_back excepts_def ls_stage_def ex_stage_def)

text \<open>The instructions behind EX.\<close>

lemma front_redirect:
  assumes "pipe_inv code a s m" and "\<not> excepts s" and "\<not> dcache_miss c" and "redirects s"
    and "\<not> trapping (cpu_cycle True c s)"
  shows "front_ok code (a_pc (at_id code a s)) (cpu_cycle True c s)"
proof -
  note ex = pipe_invD(6) [OF assms(1)]
  have c: "commit_ex (seg_ex s)" by (rule redirect_commits [OF ex assms(4)])
  have p: "priv_vec_wb (seg_wb s) = 0" "priv_vec_ls (seg_ls s) = 0" using pipe_invD(8,9) [OF assms(1)] c by auto
  have "r_mepc (a_csrs (at_ex code a s)) = r_mepc (csrs s)" using csrs_same(2) [OF assms(1) p] pipe_invD(2) [OF assms(1)] by simp
  then have "a_pc (at_id code a s) = pc_target (cpu_hazards c s)"
    using c next_pc [OF ex c no_trap_before(2) [OF assms(2,3,5)]] assms(2,4)
    by (auto simp: at_id_def hazard_signals redirects_jumps)
  moreover have "seg_id (cpu_cycle True c s) = if2_id_reset"
    using assms(3,4) jump_no_load(1) [OF ex] by (auto simp: cycle_front redirects_jumps)
  ultimately show ?thesis
    using assms(4) by (simp add: front_ok_def next_fetch_def cycle_front if2_id_reset_def if1_if2_reset_def)
qed

lemma front_load_use:
  assumes "pipe_inv code a s m" and "\<not> excepts s" and "\<not> dcache_miss c" and "\<not> redirects s" and "uses_load s"
    and "\<not> trapping (cpu_cycle True c s)"
  shows "front_ok code (a_pc (at_id code a s)) (cpu_cycle True c s)"
  using pipe_invD(10) [OF assms(1,4) no_trap_before(1) [OF assms(2,3,6)]] assms
  by (simp add: front_ok_def next_fetch_def cycle_front redirects_jumps)

lemma front_move:
  assumes "pipe_inv code a s m" and "caches_ok code c s m" and "\<not> excepts s" and "\<not> dcache_miss c" and "\<not> redirects s"
    and "\<not> uses_load s" and "\<not> trapping (cpu_cycle True c s)" and "b = at_id code a s"
    and "q = (if commit_id (seg_id s) then a_pc b + 4 else a_pc b)"
  shows "front_ok code q (cpu_cycle True c s)"
proof -
  define s' where "s' = cpu_cycle True c s"
  have f: "front_ok code (a_pc b) s"
    using pipe_invD(10) [OF assms(1,5) no_trap_before(1) [OF assms(3,4,7)]] by (simp add: assms(8))
  then have q: "next_fetch s (a_pc b) = q" by (simp add: front_ok_def next_fetch_def assms(9))
  have s': "pc_if1 s' = (if icache_miss c then pc_if1 s else pc_if1 s + 4)"
    "seg_if2 s' = (if icache_miss c then seg_if2 s else \<lparr>pc_if2 = pc_if1 s, commit_if2 = True\<rparr>)"
    "seg_id s' = (if icache_miss c then if2_id_reset
       else \<lparr>pc_id = pc_if2 (seg_if2 s), inst_id = icache_rdata c, commit_id = commit_if2 (seg_if2 s)\<rparr>)"
    using assms(3-6) by (simp_all add: s'_def cycle_front redirects_jumps)
  have "\<not> icache_miss c \<Longrightarrow> commit_if2 (seg_if2 s) \<Longrightarrow> icache_rdata c = code (pc_if2 (seg_if2 s))"
    using assms(2,3,5) by (simp add: caches_ok_def fetch_ok_def dcache_ok_def hazard_signals)
  then show ?thesis
    using f unfolding front_ok_def q s'_def [symmetric]
    by (simp add: s' next_fetch_def if2_id_reset_def)
qed

text \<open>The word in ID.\<close>

lemma id_word:
  assumes "pipe_inv code a s m" and "caches_ok code c s m" and "\<not> excepts s" and "\<not> dcache_miss c"
    and "\<not> commit_id (seg_id (cpu_cycle True c s))"
  shows "inst_id (seg_id (cpu_cycle True c s)) \<in> {0x13, 0}"
proof (cases "redirects s \<or> icache_miss c \<or> uses_load s")
  case True
  then show ?thesis
    using assms(3-5) pipe_invD(7) [OF assms(1)] jump_no_load(1) [OF pipe_invD(6) [OF assms(1)]]
    by (auto simp: cycle_front redirects_jumps if2_id_reset_def split: if_splits)
next
  case False
  then have f: "seg_id (cpu_cycle True c s) =
      \<lparr>pc_id = pc_if2 (seg_if2 s), inst_id = icache_rdata c, commit_id = commit_if2 (seg_if2 s)\<rparr>"
    using assms(3,4) by (simp add: cycle_front redirects_jumps)
  moreover have "\<not> icache_flush (cpu_hazards c s)" using False assms(3) by (simp add: hazard_signals)
  ultimately show ?thesis using assms(2,5) False by (auto simp: caches_ok_def fetch_ok_def dcache_ok_def)
qed

lemma inv_move:
  assumes "pipe_inv code a s m" and "\<not> excepts s" and "\<not> dcache_miss c" and "caches_ok code c s m"
  shows "pipe_inv code (at_ls code a s) (cpu_cycle True c s) (serve (dcache_request s) m)"
proof -
  note inv = pipe_invD [OF assms(1)]
  define s' where "s' = cpu_cycle True c s"
  have l: "seg_ls s' = ex_stage (seg_ex s) (fst (ex_data s)) (snd (ex_data s))" "seg_wb s' = ls_stage (seg_ls s) (dcache_rdata c)"
    using assms(2,3) by (simp_all add: s'_def cycle_back)
  have x: "seg_ex s' = (if redirects s \<or> uses_load s then id_ex_reset else cpu_id s)"
    using assms(2,3) by (auto simp: s'_def cycle_back redirects_jumps)
  have cm: "commit_wb (seg_wb s') = commit_ls (seg_ls s)" "commit_ls (seg_ls s') = commit_ex (seg_ex s)"
    "commit_ex (seg_ex s') = (\<not> (redirects s \<or> uses_load s) \<and> commit_id (seg_id s))"
    by (simp_all add: l x ls_stage_def ex_stage_def cpu_id_def id_stage_def id_ex_reset_def Let_def)
  have pv: "priv_vec_wb (seg_wb s') = priv_vec_ls (seg_ls s)" "priv_vec_ls (seg_ls s') = priv_ex s"
    by (simp_all add: l ls_stage_def ex_stage_def)
  have at: "at_ls code (at_ls code a s) s' = at_ex code a s" "at_ex code (at_ls code a s) s' = at_id code a s"
    by (simp_all add: at_ls_def at_ex_def at_id_def cm)
  have ex: "ex_ok code (at_id code a s) s'"
  proof (cases "redirects s \<or> uses_load s")
    case True
    then show ?thesis by (simp add: ex_ok_def x id_ex_reset_def quiet_ex_def Let_def)
  next
    case False
    then show ?thesis using id_to_ex [OF assms(1,4,3,2) _ _ s'_def] by simp
  qed
  have fr: "front_ok code (a_pc (at_id code (at_ls code a s) s')) s'" if t: "\<not> redirects s'" "\<not> trapping s'"
  proof (cases "redirects s \<or> uses_load s")
    case True
    then have "at_id code (at_ls code a s) s' = at_id code a s" by (simp add: at_id_def [of code "at_ls code a s"] cm at)
    then show ?thesis
      using True front_redirect [OF assms(1-3)] front_load_use [OF assms(1-3)] t unfolding s'_def by (cases "redirects s") auto
  next
    case False
    define b where "b = at_id code a s"
    have "a_pc (at_id code (at_ls code a s) s') = (if commit_id (seg_id s) then a_pc b + 4 else a_pc b)"
      using False next_pc [OF ex] t(1)
      by (simp add: at_id_def [of code "at_ls code a s"] cm at b_def [symmetric] redirects_jumps)
    then show ?thesis using front_move [OF assms(1,4,2,3) _ _ _ b_def refl] False t unfolding s'_def by simp
  qed
  have "priv_ex s \<noteq> 0 \<Longrightarrow> \<not> commit_id (seg_id s') \<and> \<not> commit_if2 (seg_if2 s')"
    by (simp add: s'_def cycle_front redirects_jumps if2_id_reset_def if1_if2_reset_def)
  moreover have "priv_vec_ls (seg_ls s) \<noteq> 0 \<Longrightarrow> \<not> commit_id (seg_id s')"
    using inv(8) by (simp add: s'_def cycle_front if2_id_reset_def)
  ultimately have "priv_vec_ls (seg_ls s') \<noteq> 0 \<longrightarrow> \<not> commit_ex (seg_ex s') \<and> \<not> commit_id (seg_id s') \<and> \<not> commit_if2 (seg_if2 s')"
    "priv_vec_wb (seg_wb s') \<noteq> 0 \<longrightarrow> \<not> commit_ls (seg_ls s') \<and> \<not> commit_ex (seg_ex s') \<and> \<not> commit_id (seg_id s')"
    using inv(8) by (auto simp: pv cm redirects_jumps)
  then show ?thesis
    unfolding pipe_inv_def s'_def [symmetric] at
    using wb_retires [OF assms(1), of c, folded s'_def] serve_ex [OF assms(1)] ls_to_wb [OF assms(1,4,3) l(2)]
      ex_to_ls [OF assms(1) l(1)] ex id_word [OF assms(1,4,2,3), folded s'_def] fr by simp
qed

theorem inv_cycle:
  assumes "pipe_inv code a s m" and "caches_ok code c s m" and "m' = (if dcache_miss c then m else serve (dcache_request s) m)"
  shows "pipe_inv code (at_ls code a s) (cpu_cycle True c s) m'"
  using inv_exception [OF assms(1) _ assms(3)] inv_stall [OF assms(1)] inv_move [OF assms(1)] assms(2,3)
  by (cases "excepts s"; cases "dcache_miss c") simp_all

section \<open>Runs\<close>

definition rtl_start :: "(nat \<Rightarrow> u32) \<Rightarrow> core" where
  "rtl_start rf = \<lparr>pc_if1 = PC_RESET_VALUE, seg_if2 = if1_if2_reset, seg_id = if2_id_reset, seg_ex = id_ex_reset,
     seg_ls = ex_ls_reset, seg_wb = ls_wb_reset, regfile = rf, csrs = CSR_reset\<rparr>"

definition arch_start :: "(nat \<Rightarrow> u32) \<Rightarrow> (u32 \<Rightarrow> u8) \<Rightarrow> arch" where
  "arch_start rf m = \<lparr>a_pc = PC_RESET_VALUE, a_rf = rf, a_csrs = CSR_reset, a_mem = m\<rparr>"

lemma reset_cycle: "cpu_cycle False c s = rtl_start (regfile (cpu_cycle False c s))"
  by (simp add: cpu_cycle_def rtl_start_def SegReg_def SegReg_LS_WB_def ls_wb_reset_def Let_def case_prod_unfold)

lemma start_inv: "pipe_inv code (arch_start rf m) (rtl_start rf) m"
  by (simp add: pipe_inv_def arch_start_def rtl_start_def at_ls_def at_ex_def at_id_def wb_ok_def ls_ok_def ex_ok_def
      front_ok_def next_fetch_def ls_wb_reset_def ex_ls_reset_def id_ex_reset_def if2_id_reset_def if1_if2_reset_def
      quiet_ls_def quiet_ex_def Let_def)

text \<open>The number of cycles in which neither cache stalls, and of instructions that have left the last stage.\<close>

inductive rtl_run :: "(u32 \<Rightarrow> u32) \<Rightarrow> core \<times> (u32 \<Rightarrow> u8) \<Rightarrow> nat \<Rightarrow> nat \<Rightarrow> core \<times> (u32 \<Rightarrow> u8) \<Rightarrow> bool" for code start where
  run_start: "rtl_run code start 0 0 start"
| run_cycle: "rtl_run code start h n (s, m) \<Longrightarrow> caches_ok code c s m \<Longrightarrow>
    m' = (if dcache_miss c then m else serve (dcache_request s) m) \<Longrightarrow>
    rtl_run code start (if icache_miss c \<or> dcache_miss c then h else Suc h) (if commit_wb (seg_wb s) then Suc n else n)
      (cpu_cycle True c s, m')"

lemma run_inv:
  assumes "rtl_run code (rtl_start rf, m0) h n (s, m)"
  shows "pipe_inv code ((arch_step code ^^ n) (arch_start rf m0)) s m"
  using assms
proof (induction h n "(s, m)" arbitrary: s m)
  case run_start
  then show ?case by (simp add: start_inv)
next
  case (run_cycle h n s m c m')
  have "(arch_step code ^^ (if commit_wb (seg_wb s) then Suc n else n)) (arch_start rf m0) =
      at_ls code ((arch_step code ^^ n) (arch_start rf m0)) s"
    by (simp add: at_ls_def)
  then show ?case using inv_cycle [OF run_cycle(2-4)] by simp
qed

section \<open>Progress\<close>

text \<open>How many cycles without a stall the oldest instruction is from being done.\<close>

definition distance :: "core \<Rightarrow> nat" where
  "distance s = (if commit_wb (seg_wb s) then 0 else if commit_ls (seg_ls s) then 1 else if commit_ex (seg_ex s) then 2
     else if commit_id (seg_id s) then 3 else if commit_if2 (seg_if2 s) then 4 else 5)"

lemma distance_bound: "distance s \<le> 5" by (simp add: distance_def)

lemma commit_stages:
  "commit_ls (ex_stage x d e) = commit_ex x" "commit_wb (ls_stage l v) = commit_ls l" "commit_ex (cpu_id s) = commit_id (seg_id s)"
  by (simp_all add: ex_stage_def ls_stage_def cpu_id_def id_stage_def Let_def)

lemma quiet_front:
  assumes "pipe_inv code a s m" and "\<not> commit_ex (seg_ex s)"
  shows "\<not> redirects s" "\<not> uses_load s"
  using redirect_commits [OF pipe_invD(6) [OF assms(1)]] pipe_invD(6) [OF assms(1)] assms(2)
  by (auto simp: ex_ok_def quiet_ex_def uses_load_def load_use_def Let_def)

lemma distance_step:
  assumes "pipe_inv code a s m" and "caches_ok code c s m" and "\<not> commit_wb (seg_wb s)"
  shows "distance (cpu_cycle True c s) + (if icache_miss c \<or> dcache_miss c then 0 else 1) \<le> distance s"
proof -
  have e: "\<not> excepts s" using pipe_invD(4) [OF assms(1)] assms(3) by (simp add: excepts_def wb_ok_def Let_def)
  consider "commit_ls (seg_ls s) \<or> commit_ex (seg_ex s)" | "\<not> commit_ls (seg_ls s)" "\<not> commit_ex (seg_ex s)" by blast
  then show ?thesis
  proof cases
    case 1
    then show ?thesis using assms(3) e
      by (cases "dcache_miss c"; cases "commit_ls (seg_ls s)") (simp_all add: distance_def cycle_back commit_stages)
  next
    case 2
    then have "quiet_ls (seg_ls s)" using pipe_invD(5) [OF assms(1)] by (simp add: ls_ok_def)
    then have "\<not> dcache_miss c" using assms(2) by (auto simp: caches_ok_def fetch_ok_def dcache_ok_def quiet_ls_def)
    then show ?thesis using 2 assms(3) e quiet_front [OF assms(1) 2(2)]
      by (simp add: distance_def cycle_back cycle_front commit_stages redirects_jumps if2_id_reset_def)
  qed
qed

lemma run_progress:
  assumes "rtl_run code (rtl_start rf, m0) h n (s, m)"
  shows "h + distance s \<le> 6 * n + 5"
  using assms
proof (induction h n "(s, m)" arbitrary: s m)
  case run_start
  then show ?case by (simp add: distance_bound)
next
  case (run_cycle h n s m c m')
  note step = distance_step [OF run_inv [OF run_cycle(1)] run_cycle(3)]
  show ?case using run_cycle(2) step distance_bound [of "cpu_cycle True c s"]
    by (cases "commit_wb (seg_wb s)") (auto simp: distance_def [of s] split: if_splits)
qed

text \<open>There are caches that never stall, and with them runs of any length.\<close>

definition ideal_caches :: "(u32 \<Rightarrow> u32) \<Rightarrow> core \<Rightarrow> (u32 \<Rightarrow> u8) \<Rightarrow> cache_out" where
  "ideal_caches code s m = \<lparr>icache_miss = False, icache_rdata = (if commit_if2 (seg_if2 s) then code (pc_if2 (seg_if2 s)) else 0x13),
     dcache_miss = False, dcache_rdata = mem_word m (alu_result_ls (seg_ls s))\<rparr>"

lemma ideal_caches_ok: "caches_ok code (ideal_caches code s m) s m"
  by (simp add: caches_ok_def fetch_ok_def dcache_ok_def ideal_caches_def)

lemma run_reaches:
  "\<exists>h s m. rtl_run code (rtl_start rf, m0) h n (s, m)"
proof (induction n)
  case 0
  show ?case by (metis run_start)
next
  case (Suc n)
  then obtain h s m where "rtl_run code (rtl_start rf, m0) h n (s, m)" by blast
  then show ?case
  proof (induction "distance s" arbitrary: h s m rule: less_induct)
    case less
    let ?c = "ideal_caches code s m"
    note next_run = run_cycle [OF less(2) ideal_caches_ok refl]
    show ?case
    proof (cases "commit_wb (seg_wb s)")
      case True
      then show ?thesis using next_run by auto
    next
      case False
      moreover have "\<not> (icache_miss ?c \<or> dcache_miss ?c)" by (simp add: ideal_caches_def)
      ultimately have "distance (cpu_cycle True ?c s) < distance s"
        using distance_step [OF run_inv [OF less(2)] ideal_caches_ok False] by simp
      then show ?thesis using less(1) next_run False by auto
    qed
  qed
qed

section \<open>What a run computes\<close>

text \<open>The n-th state of the program, one instruction after the other.\<close>

definition arch_after :: "(u32 \<Rightarrow> u32) \<Rightarrow> (nat \<Rightarrow> u32) \<Rightarrow> (u32 \<Rightarrow> u8) \<Rightarrow> nat \<Rightarrow> arch" where
  "arch_after code rf m n = (arch_step code ^^ n) (arch_start rf m)"

lemma run_facts:
  assumes "rtl_run code (rtl_start rf, m0) h n (s, m)" and "a = arch_after code rf m0 n"
  shows "regfile s = a_rf a" "csrs s = a_csrs a"
    "commit_wb (seg_wb s) \<Longrightarrow> pc_wb (seg_wb s) = a_pc a \<and> inst_wb (seg_wb s) = code (a_pc a)"
    "regfile (cpu_cycle True c s) = a_rf (if commit_wb (seg_wb s) then arch_step code a else a)"
  using run_inv [OF assms(1), folded arch_after_def, folded assms(2)] pipe_invD(1,2,4) [OF run_inv [OF assms(1), folded arch_after_def, folded assms(2)]]
    wb_retires(1) [of code a s m c]
  by (simp_all add: wb_ok_def at_ls_def Let_def)

lemma reset_run:
  "rtl_run code (cpu_cycle False c0 s0, m0) h n t \<Longrightarrow> rtl_run code (rtl_start (regfile (cpu_cycle False c0 s0)), m0) h n t"
  by (simp only: reset_cycle [symmetric])

text \<open>C2: The processor executes the program in order: after a reset, in every run in which the caches keep their
  promise, the register file and the CSRs are those after exactly the instructions that have left the last
  stage, executed one after the other, and the instruction in the last stage is the next of the program.\<close>

theorem pipeline_in_order:
  assumes "rtl_run code (cpu_cycle False c0 s0, m0) h n (s, m)" and "a = arch_after code (regfile (cpu_cycle False c0 s0)) m0 n"
  shows "regfile s = a_rf a \<and> csrs s = a_csrs a \<and>
    (commit_wb (seg_wb s) \<longrightarrow> pc_wb (seg_wb s) = a_pc a \<and> inst_wb (seg_wb s) = code (a_pc a))"
  using run_facts [OF reset_run [OF assms(1)] assms(2)] by blast

text \<open>C3: The processor does not hang: among any six cycles in which no cache stalls an instruction is done, but for
  the five that fill the stages after a reset.\<close>

theorem pipeline_progress:
  assumes "rtl_run code (cpu_cycle False c0 s0, m0) h n (s, m)"
  shows "h \<le> 6 * n + 5"
  using run_progress [OF reset_run [OF assms]] by simp

text \<open>The program that is run: what is fetched is in the memory, and the two agree on it.\<close>

definition follows :: "(u32 \<Rightarrow> u32) \<Rightarrow> arch \<Rightarrow> bool" where
  "follows code a \<longleftrightarrow> valid_access (a_pc a) 4 \<and> aligned (a_pc a) 4 \<and> code (a_pc a) = mem_word (a_mem a) (a_pc a) \<and>
     rtl_covers (code (a_pc a)) a"

lemma nemu_follows:
  assumes "follows code a" and "reflects a e" and "nemu_step e e'"
  shows "reflects (arch_step code a) e'"
proof -
  have f: "valid_access (a_pc a) 4" "aligned (a_pc a) 4" "mem_word (a_mem a) (a_pc a) = code (a_pc a)" "rtl_covers (code (a_pc a)) a"
    using assms(1) unfolding follows_def by metis+
  show ?thesis
    using rtl_step [OF assms(2) fetched_word [OF assms(2) f(1,2), unfolded f(3)] f(4) assms(3)] by (simp add: arch_step_def)
qed

lemma nemu_steps:
  assumes "reflects (arch_start rf m0) e0"
  shows "(\<And>k. k < n \<Longrightarrow> follows code (arch_after code rf m0 k)) \<Longrightarrow> (nemu_step ^^ n) e0 e \<Longrightarrow> reflects (arch_after code rf m0 n) e"
proof (induction n arbitrary: e)
  case 0
  then show ?case using assms by (simp add: arch_after_def)
next
  case (Suc n)
  then obtain e1 where e1: "(nemu_step ^^ n) e0 e1" "nemu_step e1 e" by auto
  have "reflects (arch_after code rf m0 n) e1" using Suc.IH [OF _ e1(1)] Suc.prems(1) less_SucI by blast
  from nemu_follows [OF Suc.prems(1) this e1(2)] show ?case by (simp add: arch_after_def)
qed

text \<open>C1: The processor computes what the reference emulator does: when it has finished n instructions of a program,
  with whatever stalls of the caches, its registers and CSRs are those of the emulator after n steps, and the
  instruction it is about to finish is the one at the program counter of the emulator.\<close>

theorem processor_matches_nemu:
  assumes "rtl_run code (cpu_cycle False c0 s0, m0) h n (s, m)" and "rf = regfile (cpu_cycle False c0 s0)"
    and "reflects (arch_start rf m0) e0" and "\<forall>k < n. follows code (arch_after code rf m0 k)" and "(nemu_step ^^ n) e0 e"
  shows "(\<forall>r < 32. regfile s r = gpr (cpu e) r) \<and> same_csrs (csrs s) (csr (cpu e)) \<and>
    (commit_wb (seg_wb s) \<longrightarrow> pc_wb (seg_wb s) = pc (cpu e))"
proof -
  have "reflects (arch_after code rf m0 n) e" using nemu_steps [OF assms(3) _ assms(5)] assms(4) by blast
  then show ?thesis
    using run_facts [OF reset_run [OF assms(1)] refl] by (auto simp: reflects_def assms(2))
qed

text \<open>Two instructions, and the processor with caches that do not stall.\<close>

definition demo_memory :: "u32 \<Rightarrow> u8" where "demo_memory = a_mem (arch_of (boot [0x00500093, 0x00108133]))"

definition demo_reset :: core where
  "demo_reset = cpu_cycle False (ideal_caches (\<lambda>_. 0) (rtl_start (\<lambda>_. 0)) demo_memory) (rtl_start (\<lambda>_. 0))"

lemma demo_reset: "demo_reset = rtl_start (\<lambda>_. 0)"
  unfolding demo_reset_def
  by (subst reset_cycle) (simp add: cpu_cycle_def rtl_start_def ls_wb_reset_def Regfile_write_def Let_def case_prod_unfold)

lemma demo_run: "\<exists>h s m. rtl_run code (demo_reset, demo_memory) h n (s, m)"
  unfolding demo_reset by (rule run_reaches)

lemma pipeline_in_order_witness:
  "\<exists>h s m. rtl_run (\<lambda>_. 0x00108093) (demo_reset, demo_memory) h 3 (s, m) \<and>
     regfile s = a_rf (arch_after (\<lambda>_. 0x00108093) (regfile demo_reset) demo_memory 3)"
proof -
  obtain h s m where "rtl_run (\<lambda>_. 0x00108093) (demo_reset, demo_memory) h 3 (s, m)" using demo_run by blast
  with pipeline_in_order [OF this [unfolded demo_reset_def] refl] show ?thesis unfolding demo_reset_def by blast
qed

lemma pipeline_progress_witness: "\<exists>h s m. rtl_run (\<lambda>_. 0x00108093) (demo_reset, demo_memory) h 3 (s, m) \<and> h \<le> 23"
proof -
  obtain h s m where "rtl_run (\<lambda>_. 0x00108093) (demo_reset, demo_memory) h 3 (s, m)" using demo_run by blast
  with pipeline_progress [OF this [unfolded demo_reset_def]] show ?thesis by auto
qed

lemma processor_matches_nemu_witness:
  "\<exists>h s m e. rtl_run (\<lambda>_. 0x00500093) (demo_reset, demo_memory) h 1 (s, m) \<and>
     (nemu_step ^^ 1) (boot [0x00500093, 0x00108133]) e \<and> gpr (cpu e) 1 = 5 \<and> regfile s 1 = 5"
proof -
  let ?m = "boot [0x00500093, 0x00108133]"
  have r: "gpr (cpu ?m) = (\<lambda>_. 0)" "pc (cpu ?m) = 0x80000000" "csr (cpu ?m) = \<lparr>mepc = 0, mstatus = 0, mcause = 0, mtvec = 0\<rparr>"
    by (simp_all add: boot_def init_isa_def restart_def layout_defs Let_def fun_eq_iff)
  obtain m2 s2 where e: "exec_once idle (pc (cpu ?m)) ?m = Inr (m2, s2)" and v: "gpr (cpu m2) 1 = 5"
    by (simp add: r exec_body_def put_R_eq alu_value_def
        exec_once_eq [OF example_fetch(1) example_decode(1) example_operands(1)])
  have st: "(nemu_step ^^ 1) ?m (m2\<lparr>g_nr_guest_inst := g_nr_guest_inst m2 + 1\<rparr>)"
    using nemu_step.step [OF e] by (simp add: eq_OO)
  have a: "arch_start (regfile demo_reset) demo_memory = arch_of ?m"
    by (simp add: arch_start_def arch_of_def demo_reset rtl_start_def demo_memory_def r PC_RESET_VALUE_def CSR_reset_def)
  have ok: "reflects (arch_of ?m) ?m" by (rule arch_of_reflects) (simp add: r)
  have at: "a_pc (arch_of ?m) = 0x80000000" by (simp add: arch_of_def r)
  have place: "valid_access (a_pc (arch_of ?m)) 4" "aligned (a_pc (arch_of ?m)) 4"
    by (simp_all add: at valid_access_def aligned_def)
  have word: "mem_word (a_mem (arch_of ?m)) (a_pc (arch_of ?m)) = 0x00500093"
    using fetched_word [OF ok place] example_fetch(1) by (simp add: r)
  have "rv_decode 0x00500093 = (Alu I_addi, TYPE_I)" "decode_defined 0x00500093" by (code_simp, code_simp)
  then have fo: "\<forall>k < 1. follows (\<lambda>_. 0x00500093) (arch_after (\<lambda>_. 0x00500093) (regfile demo_reset) demo_memory k)"
    using place word by (simp add: arch_after_def a follows_def rtl_covers_def)
  obtain h s m where run: "rtl_run (\<lambda>_. 0x00500093) (demo_reset, demo_memory) h 1 (s, m)" using demo_run by blast
  have "regfile s 1 = 5"
    using processor_matches_nemu [OF run [unfolded demo_reset_def] refl _ fo [unfolded demo_reset_def] st] ok v a
    unfolding demo_reset_def by simp
  then show ?thesis using run st v by (intro exI [of _ h] exI [of _ s] exI [of _ m] exI [of _ "m2\<lparr>g_nr_guest_inst := g_nr_guest_inst m2 + 1\<rparr>"]) simp
qed

end
