(* ===== verification/Rtl_Icache.thy ===== *)
theory Rtl_Icache
  imports Rtl_Pipeline
begin

text \<open>
  The instruction cache (\<open>simulator/IP/mycpu/ICache.sv\<close> with the memories of \<open>BRAM_common.sv\<close>): two
  ways of 16 lines of four words, filled by bursts. It keeps every line equal to the memory and gives
  the pipeline the word at its address, so that \<open>fetch_ok\<close> of \<open>Rtl_Pipeline\<close> is a theorem; and a fence
  does not empty it in every case.
\<close>

section \<open>Memories\<close>

text \<open>\<open>BRAM_common\<close>: the address is registered, the contents are read through it.\<close>

record 'a bram =
  addr_r :: "4 word"
  ram :: "4 word \<Rightarrow> 'a"

definition BRAM_common :: "4 word \<Rightarrow> 4 word \<Rightarrow> 'a \<Rightarrow> bool \<Rightarrow> 'a bram \<Rightarrow> 'a bram" where
  "BRAM_common raddr waddr din we b =
     \<lparr>addr_r = (if raddr = waddr then waddr else raddr), ram = (if we then (ram b)(waddr := din) else ram b)\<rparr>"

definition bram_dout :: "'a bram \<Rightarrow> 'a" where
  "bram_dout b = ram b (addr_r b)"

section \<open>State and ports\<close>

text \<open>
  Two ways, 16 lines of four words each; a way is a bit. The word offset is bits 3 and 2 of the
  address, the index bits 7 to 4, the tag the rest.
\<close>

datatype ic_state = IDLE | MISS | REFILL

record icache =
  addr_pipe :: u32
  rvalid_pipe :: bool
  ret_buf :: "128 word"
  flush_buf :: bool
  data_mem :: "bool \<Rightarrow> 128 word bram"
  tag_mem :: "bool \<Rightarrow> 24 word bram"
  valid_bit_mem :: "bool \<Rightarrow> 4 word \<Rightarrow> bool"
  tag_valid :: "bool \<Rightarrow> bool"
  lru :: "4 word \<Rightarrow> bool"
  ic_fsm :: ic_state

record icache_in =
  rvalid :: bool
  raddr :: u32
  fencei_valid :: bool
  fence_valid :: bool
  flush :: bool
  stall :: bool
  i_rready :: bool
  i_rdata :: u32
  i_rlast :: bool

definition ic_index :: "u32 \<Rightarrow> 4 word" where "ic_index a = part 7 4 a"
definition ic_tag :: "u32 \<Rightarrow> 24 word" where "ic_tag a = part 31 8 a"

text \<open>Hits.\<close>

definition ic_hit :: "icache \<Rightarrow> bool \<Rightarrow> bool" where
  "ic_hit s way \<longleftrightarrow> tag_valid s way \<and> bram_dout (tag_mem s way) = ic_tag (addr_pipe s)"

definition hit_way :: "icache \<Rightarrow> bool" where
  "hit_way s = (if ic_hit s False then False else True)"

definition cache_hit :: "icache \<Rightarrow> bool" where
  "cache_hit s \<longleftrightarrow> ic_hit s False \<or> ic_hit s True"

definition lru_sel :: "icache \<Rightarrow> bool" where
  "lru_sel s = (\<not> lru s (ic_index (addr_pipe s)))"

text \<open>The word of a line.\<close>

definition line_word :: "128 word \<Rightarrow> u32 \<Rightarrow> u32" where
  "line_word line a = ucast (drop_bit (32 * unat (part 3 2 a :: 2 word)) line)"

section \<open>Outputs\<close>

definition ic_req_buf_we :: "icache_in \<Rightarrow> icache \<Rightarrow> bool" where
  "ic_req_buf_we p s = (case ic_fsm s of
     IDLE \<Rightarrow> if rvalid_pipe s then cache_hit s \<and> \<not> stall p else True
   | MISS \<Rightarrow> False
   | REFILL \<Rightarrow> \<not> stall p)"

definition ic_miss :: "icache \<Rightarrow> bool" where
  "ic_miss s = (case ic_fsm s of IDLE \<Rightarrow> rvalid_pipe s \<and> \<not> cache_hit s | MISS \<Rightarrow> True | REFILL \<Rightarrow> False)"

definition i_rvalid :: "icache \<Rightarrow> bool" where
  "i_rvalid s \<longleftrightarrow> ic_fsm s = MISS"

definition i_raddr :: "icache \<Rightarrow> u32" where
  "i_raddr s = addr_pipe s AND NOT 15"

definition ic_rdata :: "bool \<Rightarrow> icache \<Rightarrow> u32" where
  "ic_rdata fl s =
     (if fl \<or> flush_buf s then 0x13
      else if ic_fsm s \<noteq> REFILL then line_word (bram_dout (data_mem s (hit_way s))) (addr_pipe s)
      else line_word (ret_buf s) (addr_pipe s))"

definition ic_refill_we :: "icache \<Rightarrow> bool \<Rightarrow> bool" where
  "ic_refill_we s way \<longleftrightarrow> ic_fsm s = REFILL \<and> way = (if lru_sel s then False else True)"

section \<open>A cycle\<close>

definition ic_next_state :: "icache_in \<Rightarrow> icache \<Rightarrow> ic_state" where
  "ic_next_state p s = (case ic_fsm s of
     IDLE \<Rightarrow> if rvalid_pipe s then (if cache_hit s then IDLE else MISS) else IDLE
   | MISS \<Rightarrow> if i_rready p \<and> i_rlast p then REFILL else MISS
   | REFILL \<Rightarrow> IDLE)"

definition ICache :: "bool \<Rightarrow> icache_in \<Rightarrow> icache \<Rightarrow> icache" where
  "ICache rstn p s =
     (let w_index = ic_index (addr_pipe s);
          r_index = (if ic_miss s \<or> stall p then ic_index (addr_pipe s) else ic_index (raddr p));
          we = ic_req_buf_we p s;
          lru_hit_update = (ic_fsm s = IDLE \<and> rvalid_pipe s \<and> cache_hit s \<and> \<not> stall p) in
      \<lparr>addr_pipe = (if \<not> rstn then 0 else if we then raddr p else addr_pipe s),
       rvalid_pipe = (if \<not> rstn then False else if we then rvalid p else rvalid_pipe s),
       ret_buf = (if \<not> rstn then 0 else if i_rvalid s \<and> i_rready p then push_bit 96 (ucast (i_rdata p)) OR drop_bit 32 (ret_buf s)
                  else ret_buf s),
       flush_buf = (if \<not> rstn then False else if flush p then True else if we then False else flush_buf s),
       data_mem = (\<lambda>way. BRAM_common r_index w_index (ret_buf s) (ic_refill_we s way) (data_mem s way)),
       tag_mem = (\<lambda>way. BRAM_common r_index w_index (ic_tag (addr_pipe s)) (ic_refill_we s way) (tag_mem s way)),
       valid_bit_mem = (\<lambda>way. if \<not> rstn \<or> fence_valid p \<or> fencei_valid p then (\<lambda>_. False)
                          else if ic_refill_we s way then (valid_bit_mem s way)(w_index := True) else valid_bit_mem s way),
       tag_valid = (\<lambda>way. if w_index = r_index then True else valid_bit_mem s way r_index),
       lru = (if \<not> rstn then (\<lambda>_. False)
              else if lru_hit_update then (lru s)(w_index := hit_way s)
              else if ic_fsm s = REFILL then (lru s)(w_index := \<not> lru s w_index)
              else lru s),
       ic_fsm = (if \<not> rstn then IDLE else ic_next_state p s)\<rparr>)"

section \<open>Lines\<close>

text \<open>A line holds the four words of its address; while it is read it holds the first ones at its end.\<close>

definition holds_line :: "(u32 \<Rightarrow> u32) \<Rightarrow> u32 \<Rightarrow> 128 word \<Rightarrow> bool" where
  "holds_line code a line \<longleftrightarrow> (\<forall>j < 4. (ucast (drop_bit (32 * j) line) :: u32) = code ((a AND NOT 15) + 4 * of_nat j))"

definition holds_part :: "(u32 \<Rightarrow> u32) \<Rightarrow> u32 \<Rightarrow> nat \<Rightarrow> 128 word \<Rightarrow> bool" where
  "holds_part code a k line \<longleftrightarrow> (\<forall>j < k. (ucast (drop_bit (32 * (4 - k + j)) line) :: u32) = code ((a AND NOT 15) + 4 * of_nat j))"

lemma ucast_drop_eqI:
  fixes x :: "128 word" and y :: u32
  assumes "\<And>i. i < 32 \<Longrightarrow> bit x (n + i) \<longleftrightarrow> bit y i" and "n \<le> 96"
  shows "ucast (drop_bit n x) = y"
  using assms by (intro bit_word_eqI) (simp add: bit_ucast_iff bit_drop_bit_eq)

lemma shift_in:
  fixes r :: "128 word" and d :: u32
  defines "r' \<equiv> push_bit 96 (ucast d) OR drop_bit 32 r"
  shows "ucast (drop_bit 96 r') = d" "n \<le> 64 \<Longrightarrow> ucast (drop_bit n r') = (ucast (drop_bit (n + 32) r) :: u32)"
proof -
  show "ucast (drop_bit 96 r') = d"
    by (rule ucast_drop_eqI) (auto simp: r'_def bit_or_iff bit_push_bit_iff bit_drop_bit_eq bit_ucast_iff dest: bit_imp_le_length)
  show "ucast (drop_bit n r') = (ucast (drop_bit (n + 32) r) :: u32)" if "n \<le> 64"
    using that by (intro bit_word_eqI)
      (auto simp: r'_def bit_or_iff bit_push_bit_iff bit_drop_bit_eq bit_ucast_iff add.commute add.left_commute)
qed

lemma holds_next:
  assumes "holds_part code a k r" and "k < 4" and "d = code ((a AND NOT 15) + 4 * of_nat k)"
  shows "holds_part code a (Suc k) (push_bit 96 (ucast d) OR drop_bit 32 r)"
  unfolding holds_part_def
proof (intro allI impI)
  fix j assume j: "j < Suc k"
  show "ucast (drop_bit (32 * (4 - Suc k + j)) (push_bit 96 (ucast d) OR drop_bit 32 r)) = code ((a AND NOT 15) + 4 * of_nat j)"
  proof (cases "j = k")
    case True
    then have "32 * (4 - Suc k + j) = 96" using assms(2) by simp
    then show ?thesis using True assms(3) by (simp only: shift_in(1))
  next
    case False
    then have le: "32 * (4 - Suc k + j) \<le> 64" and eq: "32 * (4 - Suc k + j) + 32 = 32 * (4 - k + j)" and jk: "j < k"
      using j assms(2) by auto
    show ?thesis unfolding shift_in(2) [OF le] eq using assms(1) jk unfolding holds_part_def by blast
  qed
qed

lemma holds_all: "holds_part code a 4 r \<longleftrightarrow> holds_line code a r"
  by (simp add: holds_part_def holds_line_def)

lemma word_in_line: "(a AND NOT 15) + 4 * of_nat (unat (part 3 2 a :: 2 word)) = a AND NOT (3 :: u32)"
proof -
  have "4 * (of_nat (unat (part 3 2 a :: 2 word)) :: u32) = push_bit 2 (ucast (part 3 2 a :: 2 word))"
    by (simp add: push_bit_eq_mult)
  also have "\<dots> = a AND 12"
    unfolding word32_eq_iff by (simp add: all_less_numeral bit_push_bit_iff bit_ucast_iff bit_part bit_and_iff)
        (simp add: numeral_2_eq_2 numeral_3_eq_3)
  finally have e: "4 * (of_nat (unat (part 3 2 a :: 2 word)) :: u32) = a AND 12" .
  have "(a AND NOT 15) AND (a AND 12) = 0"
    unfolding word32_eq_iff by (simp add: all_less_numeral bit_and_iff bit_not_iff)
  then have "(a AND NOT 15) + (a AND 12) = (a AND NOT 15) OR (a AND 12)" by (rule disjunctive_add_eq_or)
  also have "\<dots> = a AND NOT 3"
    unfolding word32_eq_iff by (simp add: all_less_numeral bit_and_iff bit_or_iff bit_not_iff)
  finally show ?thesis unfolding e .
qed

lemma line_word_code:
  assumes "holds_line code a line" and "\<And>b. code (b AND NOT 3) = code b"
  shows "line_word line a = code a"
proof -
  have "unat (part 3 2 a :: 2 word) < 4" using unsigned_less [of "part 3 2 a :: 2 word"] by simp
  then have "line_word line a = code ((a AND NOT 15) + 4 * of_nat (unat (part 3 2 a :: 2 word)))"
    using assms(1) unfolding holds_line_def line_word_def by blast
  then show ?thesis unfolding word_in_line assms(2) .
qed

text \<open>The address of a line from its tag and its index.\<close>

definition line_addr :: "24 word \<Rightarrow> 4 word \<Rightarrow> u32" where
  "line_addr t k = push_bit 8 (ucast t) OR push_bit 4 (ucast k)"

lemma line_addr_mask: "line_addr t k AND NOT 15 = line_addr t k"
  unfolding word32_eq_iff line_addr_def by (simp add: all_less_numeral bit_and_iff bit_or_iff bit_not_iff bit_push_bit_iff)

lemma line_addr_of: "line_addr (ic_tag a) (ic_index a) = a AND NOT 15"
  unfolding word32_eq_iff line_addr_def ic_tag_def ic_index_def
  by (simp add: all_less_numeral bit_and_iff bit_or_iff bit_not_iff bit_push_bit_iff bit_ucast_iff bit_part)

lemma holds_line_addr: "holds_line code (line_addr (ic_tag a) (ic_index a)) line \<longleftrightarrow> holds_line code a line"
  by (simp add: holds_line_def line_addr_of)

section \<open>The invariant\<close>

text \<open>The port to the memory: while a line is read, the next of its four words with every beat.\<close>

definition burst_ok :: "(u32 \<Rightarrow> u32) \<Rightarrow> nat \<Rightarrow> icache_in \<Rightarrow> icache \<Rightarrow> bool" where
  "burst_ok code k p s \<longleftrightarrow> (i_rvalid s \<and> i_rready p \<longrightarrow> i_rdata p = code (i_raddr s + 4 * of_nat k) \<and> i_rlast p = (k = 3))"

definition next_beat :: "icache_in \<Rightarrow> icache \<Rightarrow> nat \<Rightarrow> nat" where
  "next_beat p s k = (if i_rvalid s \<and> i_rready p then (if k = 3 then 0 else Suc k) else k)"

definition icache_inv :: "(u32 \<Rightarrow> u32) \<Rightarrow> nat \<Rightarrow> icache \<Rightarrow> bool" where
  "icache_inv code k s \<longleftrightarrow>
     (\<forall>way j. holds_line code (line_addr (ram (tag_mem s way) j) j) (ram (data_mem s way) j)) \<and>
     (rvalid_pipe s \<longrightarrow> (\<forall>way. addr_r (data_mem s way) = ic_index (addr_pipe s) \<and> addr_r (tag_mem s way) = ic_index (addr_pipe s))) \<and>
     (ic_fsm s \<noteq> IDLE \<longrightarrow> rvalid_pipe s) \<and>
     (if ic_fsm s = MISS then k \<le> 3 \<and> holds_part code (addr_pipe s) k (ret_buf s) else k = 0) \<and>
     (ic_fsm s = REFILL \<longrightarrow> holds_line code (addr_pipe s) (ret_buf s))"

lemma icache_invD:
  assumes "icache_inv code k s"
  shows "holds_line code (line_addr (ram (tag_mem s way) j) j) (ram (data_mem s way) j)"
    "rvalid_pipe s \<Longrightarrow> addr_r (data_mem s way) = ic_index (addr_pipe s)"
    "rvalid_pipe s \<Longrightarrow> addr_r (tag_mem s way) = ic_index (addr_pipe s)"
    "ic_fsm s \<noteq> IDLE \<Longrightarrow> rvalid_pipe s" "ic_fsm s \<noteq> MISS \<Longrightarrow> k = 0"
    "ic_fsm s = MISS \<Longrightarrow> k \<le> 3 \<and> holds_part code (addr_pipe s) k (ret_buf s)"
    "ic_fsm s = REFILL \<Longrightarrow> holds_line code (addr_pipe s) (ret_buf s)"
  using assms by (auto simp: icache_inv_def split: if_splits)

text \<open>What is read when there is no miss.\<close>

lemma icache_reads:
  assumes "icache_inv code k s" and "rvalid_pipe s" and "\<not> ic_miss s" and "\<not> flush_buf s" and "\<And>b. code (b AND NOT 3) = code b"
  shows "ic_rdata False s = code (addr_pipe s)"
proof (cases "ic_fsm s")
  case IDLE
  then have "cache_hit s" using assms(2,3) by (simp add: ic_miss_def)
  then have h: "ic_hit s (hit_way s)" by (auto simp: cache_hit_def hit_way_def)
  let ?w = "hit_way s" and ?i = "ic_index (addr_pipe s)"
  have t: "ram (tag_mem s ?w) ?i = ic_tag (addr_pipe s)"
    using h icache_invD(3) [OF assms(1,2)] by (simp add: ic_hit_def bram_dout_def)
  have "holds_line code (addr_pipe s) (ram (data_mem s ?w) ?i)"
    using icache_invD(1) [OF assms(1), of ?w ?i] by (simp add: t holds_line_addr)
  then show ?thesis
    using line_word_code assms(4,5) IDLE icache_invD(2) [OF assms(1,2)] by (simp add: ic_rdata_def bram_dout_def)
next
  case MISS
  then show ?thesis using assms(3) by (simp add: ic_miss_def)
next
  case REFILL
  then show ?thesis using line_word_code [OF icache_invD(7) [OF assms(1) REFILL]] assms(4,5) by (simp add: ic_rdata_def)
qed

lemma ICache_fields:
  "addr_pipe (ICache True p s) = (if ic_req_buf_we p s then raddr p else addr_pipe s)"
  "rvalid_pipe (ICache True p s) = (if ic_req_buf_we p s then rvalid p else rvalid_pipe s)"
  "ret_buf (ICache True p s) = (if i_rvalid s \<and> i_rready p then push_bit 96 (ucast (i_rdata p)) OR drop_bit 32 (ret_buf s) else ret_buf s)"
  "flush_buf (ICache True p s) = (flush p \<or> (\<not> ic_req_buf_we p s \<and> flush_buf s))"
  "ic_fsm (ICache True p s) = ic_next_state p s"
  "addr_r (data_mem (ICache True p s) way) = (if ic_miss s \<or> stall p then ic_index (addr_pipe s) else ic_index (raddr p))"
  "addr_r (tag_mem (ICache True p s) way) = (if ic_miss s \<or> stall p then ic_index (addr_pipe s) else ic_index (raddr p))"
  "ram (data_mem (ICache True p s) way) = (if ic_refill_we s way then (ram (data_mem s way))(ic_index (addr_pipe s) := ret_buf s) else ram (data_mem s way))"
  "ram (tag_mem (ICache True p s) way) = (if ic_refill_we s way then (ram (tag_mem s way))(ic_index (addr_pipe s) := ic_tag (addr_pipe s)) else ram (tag_mem s way))"
  by (simp_all add: ICache_def BRAM_common_def Let_def)

text \<open>The index that is read is that of the address that is looked up next.\<close>

lemma read_index:
  assumes "icache_inv code k s" and "\<not> rvalid_pipe s \<Longrightarrow> \<not> stall p"
  shows "(if ic_miss s \<or> stall p then ic_index (addr_pipe s) else ic_index (raddr p)) = ic_index (addr_pipe (ICache True p s))"
  using assms(2) icache_invD(4) [OF assms(1)]
  by (cases "ic_fsm s") (auto simp: ICache_fields ic_req_buf_we_def ic_miss_def)

lemma lines_kept:
  assumes "icache_inv code k s"
  shows "holds_line code (line_addr (ram (tag_mem (ICache True p s) way) j) j) (ram (data_mem (ICache True p s) way) j)"
proof (cases "ic_refill_we s way \<and> j = ic_index (addr_pipe s)")
  case True
  then have "holds_line code (addr_pipe s) (ret_buf s)" using icache_invD(7) [OF assms(1)] by (simp add: ic_refill_we_def)
  then show ?thesis using True by (simp add: ICache_fields holds_line_addr)
next
  case False
  then show ?thesis using icache_invD(1) [OF assms(1), of way j] by (auto simp: ICache_fields)
qed

lemma burst_step:
  assumes "icache_inv code k s" and "burst_ok code k p s" and "s' = ICache True p s" and "k' = next_beat p s k"
  shows "if ic_fsm s' = MISS then k' \<le> 3 \<and> holds_part code (addr_pipe s') k' (ret_buf s') else k' = 0"
    "ic_fsm s' = REFILL \<Longrightarrow> holds_line code (addr_pipe s') (ret_buf s')"
proof -
  note inv = icache_invD [OF assms(1)]
  have "(if ic_fsm s' = MISS then k' \<le> 3 \<and> holds_part code (addr_pipe s') k' (ret_buf s') else k' = 0) \<and>
    (ic_fsm s' = REFILL \<longrightarrow> holds_line code (addr_pipe s') (ret_buf s'))"
  proof (cases "ic_fsm s")
    case MISS
    have k: "k \<le> 3" "holds_part code (addr_pipe s) k (ret_buf s)" using inv(6) [OF MISS] by auto
    have a: "addr_pipe s' = addr_pipe s" using MISS by (simp add: assms(3) ICache_fields ic_req_buf_we_def)
    show ?thesis
    proof (cases "i_rready p")
      case True
      have d: "i_rdata p = code ((addr_pipe s AND NOT 15) + 4 * of_nat k)" "i_rlast p = (k = 3)"
        using assms(2) MISS True unfolding burst_ok_def i_rvalid_def i_raddr_def by blast+
      have h: "holds_part code (addr_pipe s) (Suc k) (ret_buf s')"
        using holds_next [OF k(2) _ d(1)] k(1) MISS True by (simp add: assms(3) ICache_fields i_rvalid_def)
      have f: "ic_fsm s' = (if k = 3 then REFILL else MISS)" "k' = (if k = 3 then 0 else Suc k)"
        using MISS True d(2) by (simp_all add: assms(3,4) ICache_fields ic_next_state_def next_beat_def i_rvalid_def)
      show ?thesis
      proof (cases "k = 3")
        case True
        then show ?thesis using h f a holds_all by simp
      next
        case False
        then show ?thesis using h f a k(1) by simp
      qed
    next
      case False
      then show ?thesis using MISS k a by (simp add: assms(3,4) ICache_fields ic_next_state_def next_beat_def)
    qed
  next
    case IDLE
    then show ?thesis using inv(5)
      by (auto simp: assms(3,4) ICache_fields ic_next_state_def next_beat_def i_rvalid_def ic_req_buf_we_def holds_part_def)
  next
    case REFILL
    then show ?thesis using inv(5) by (simp add: assms(3,4) ICache_fields ic_next_state_def next_beat_def i_rvalid_def)
  qed
  then show "if ic_fsm s' = MISS then k' \<le> 3 \<and> holds_part code (addr_pipe s') k' (ret_buf s') else k' = 0"
    "ic_fsm s' = REFILL \<Longrightarrow> holds_line code (addr_pipe s') (ret_buf s')" by blast+
qed

lemma icache_inv_step:
  assumes "icache_inv code k s" and "burst_ok code k p s" and "rvalid p" and "\<not> rvalid_pipe s \<Longrightarrow> \<not> stall p"
  shows "icache_inv code (next_beat p s k) (ICache True p s)"
proof -
  have r: "ic_fsm (ICache True p s) \<noteq> IDLE \<longrightarrow> rvalid_pipe (ICache True p s)"
    using assms(3) icache_invD(4) [OF assms(1)] by (cases "ic_fsm s") (auto simp: ICache_fields ic_next_state_def ic_req_buf_we_def)
  show ?thesis
    unfolding icache_inv_def
    using lines_kept [OF assms(1), of p] r burst_step [OF assms(1,2) refl refl] read_index [OF assms(1), of p] assms(4)
    by (auto simp: ICache_fields(6,7))
qed

text \<open>After a reset of memories that hold nothing.\<close>

definition icache_start :: "icache \<Rightarrow> bool" where
  "icache_start s \<longleftrightarrow> addr_pipe s = 0 \<and> \<not> rvalid_pipe s \<and> \<not> flush_buf s \<and> ic_fsm s = IDLE \<and>
     (\<forall>way. ram (tag_mem s way) = (\<lambda>_. 0) \<and> ram (data_mem s way) = (\<lambda>_. 0))"

text \<open>What is fetched is words, and nothing is at the first 256 addresses, whose tag is that of an empty line.\<close>

definition fetchable :: "(u32 \<Rightarrow> u32) \<Rightarrow> bool" where
  "fetchable code \<longleftrightarrow> (\<forall>b. code (b AND NOT 3) = code b) \<and> (\<forall>b < 256. code b = 0)"

lemma empty_line:
  assumes "fetchable code"
  shows "holds_line code (line_addr 0 j) 0"
  unfolding holds_line_def
proof (intro allI impI)
  fix i :: nat assume i: "i < 4"
  have "unat j < 2 ^ LENGTH(4)" by (rule unsigned_less)
  then have "unat (ucast j :: u32) < 16" by (simp add: unsigned_ucast_eq take_bit_nat_eq_self)
  then have "unat (16 * (ucast j :: u32)) < 241" "unat (4 * of_nat i :: u32) < 13"
    using i by (simp_all add: unat_word_ariths unsigned_of_nat take_bit_nat_eq_self mod_less)
  then have "unat (16 * ucast j + 4 * of_nat i :: u32) < 256" by (simp add: unat_word_ariths mod_less)
  moreover have "line_addr 0 j AND NOT 15 = 16 * ucast j" unfolding line_addr_mask by (simp add: line_addr_def push_bit_eq_mult)
  ultimately have "(line_addr 0 j AND NOT 15) + 4 * of_nat i < 256" by (simp only: word_less_nat_alt) simp
  then show "(ucast (drop_bit (32 * i) (0 :: 128 word)) :: u32) = code ((line_addr 0 j AND NOT 15) + 4 * of_nat i)"
    using assms by (simp only: fetchable_def) simp
qed

lemma start_icache_inv: "icache_start s \<Longrightarrow> fetchable code \<Longrightarrow> icache_inv code 0 s"
  using empty_line [of code] by (simp add: icache_start_def icache_inv_def)

section \<open>The processor with its instruction cache\<close>

text \<open>What \<open>CPU.sv\<close> connects to the cache.\<close>

definition icache_ports :: "cache_out \<Rightarrow> core \<Rightarrow> icache_in \<Rightarrow> bool" where
  "icache_ports c s p \<longleftrightarrow> rvalid p \<and> raddr p = pc_if1 s \<and> fencei_valid p = bit (priv_ex s) FENCEI \<and>
     fence_valid p = bit (priv_ex s) FENCE \<and> flush p = icache_flush (cpu_hazards c s) \<and> stall p = icache_stall (cpu_hazards c s)"

definition from_icache :: "cache_out \<Rightarrow> core \<Rightarrow> icache \<Rightarrow> bool" where
  "from_icache c s ic \<longleftrightarrow> icache_miss c = ic_miss ic \<and> icache_rdata c = ic_rdata (icache_flush (cpu_hazards c s)) ic"

definition fetch_inv :: "core \<Rightarrow> icache \<Rightarrow> bool" where
  "fetch_inv s ic \<longleftrightarrow>
     (if rvalid_pipe ic
      then (if commit_if2 (seg_if2 s) then addr_pipe ic = pc_if2 (seg_if2 s) \<and> \<not> flush_buf ic else flush_buf ic)
      else s = rtl_start (regfile s) \<and> \<not> flush_buf ic \<and> (\<forall>way. ram (data_mem ic way) = (\<lambda>_. 0)))"

lemma icache_stall_eq: "icache_stall (cpu_hazards c s) \<longleftrightarrow> uses_load s \<or> dcache_miss c"
  by (simp add: cpu_hazards_def Hazard_def uses_load_def Let_def case_prod_unfold)

lemma start_signals:
  "\<not> redirects (rtl_start rf)" "\<not> excepts (rtl_start rf)" "\<not> uses_load (rtl_start rf)"
  "\<not> commit_if2 (seg_if2 (rtl_start rf))" "mem_access_ls (seg_ls (rtl_start rf)) = 0" "priv_vec_ls (seg_ls (rtl_start rf)) = 0"
  by (simp_all add: rtl_start_def redirects_def excepts_def uses_load_def load_use_def ex_branch_def no_jump Let_def
      id_ex_reset_def ls_wb_reset_def if1_if2_reset_def ex_ls_reset_def)

text \<open>The cache keeps what the processor relies on.\<close>

lemma icache_fetches:
  assumes "icache_inv code k ic" and "fetch_inv s ic" and "from_icache c s ic" and "fetchable code"
  shows "fetch_ok code c s"
  unfolding fetch_ok_def
proof (intro impI)
  assume m: "\<not> icache_miss c" and f: "\<not> icache_flush (cpu_hazards c s)"
  have c: "icache_rdata c = ic_rdata False ic" "\<not> ic_miss ic" using assms(3) m f by (auto simp: from_icache_def)
  show "if commit_if2 (seg_if2 s) then icache_rdata c = code (pc_if2 (seg_if2 s)) else icache_rdata c \<in> {0x13, 0}"
  proof (cases "rvalid_pipe ic")
    case True
    then show ?thesis
      using assms(2,4) c icache_reads [OF assms(1) True c(2)] by (auto simp: fetch_inv_def fetchable_def ic_rdata_def split: if_splits)
  next
    case False
    then have "ic_fsm ic = IDLE" "s = rtl_start (regfile s)" using icache_invD(4) [OF assms(1)] assms(2) by (auto simp: fetch_inv_def)
    then show ?thesis
      using False assms(2) c(1) start_signals(4) [of "regfile s"] by (simp add: fetch_inv_def ic_rdata_def line_word_def bram_dout_def)
  qed
qed

lemma fetch_inv_step:
  assumes "icache_inv code k ic" and "fetch_inv s ic" and "from_icache c s ic" and "icache_ports c s p" and "dcache_ok c s m"
  shows "fetch_inv (cpu_cycle True c s) (ICache True p ic)" "\<not> rvalid_pipe ic \<Longrightarrow> \<not> stall p"
proof -
  have p: "rvalid p" "raddr p = pc_if1 s" "flush p = (redirects s \<or> excepts s)" "stall p = (uses_load s \<or> dcache_miss c)"
    using assms(4) by (auto simp: icache_ports_def hazard_signals icache_stall_eq)
  have first: "\<not> redirects s \<and> \<not> excepts s \<and> \<not> uses_load s \<and> \<not> dcache_miss c \<and> ic_fsm ic = IDLE" if "\<not> rvalid_pipe ic"
  proof -
    have "s = rtl_start (regfile s)" using assms(2) that by (simp add: fetch_inv_def)
    then have "\<not> redirects s" "\<not> excepts s" "\<not> uses_load s" "mem_access_ls (seg_ls s) = 0" "priv_vec_ls (seg_ls s) = 0"
      using start_signals [of "regfile s"] by metis+
    then show ?thesis using icache_invD(4) [OF assms(1)] that assms(5) by (auto simp: dcache_ok_def)
  qed
  then show "\<not> rvalid_pipe ic \<Longrightarrow> \<not> stall p" by (simp add: p)
  have v: "rvalid_pipe (ICache True p ic)" using first p(1) by (auto simp: ICache_fields ic_req_buf_we_def)
  have miss: "icache_miss c = ic_miss ic" using assms(3) by (simp add: from_icache_def)
  consider "redirects s \<or> excepts s" | "\<not> redirects s" "\<not> excepts s" "uses_load s \<or> icache_miss c \<or> dcache_miss c"
    | "\<not> redirects s" "\<not> excepts s" "\<not> (uses_load s \<or> icache_miss c \<or> dcache_miss c)" by blast
  then show "fetch_inv (cpu_cycle True c s) (ICache True p ic)"
  proof cases
    case 1
    then show ?thesis using v p(3) by (auto simp: fetch_inv_def ICache_fields cycle_front if1_if2_reset_def)
  next
    case 2
    then have r: "rvalid_pipe ic" using first miss by (auto simp: ic_miss_def split: ic_state.splits)
    have "\<not> ic_req_buf_we p ic" using 2(3) r p(4) miss by (cases "ic_fsm ic") (auto simp: ic_req_buf_we_def ic_miss_def)
    then show ?thesis using 2 v r p(3) assms(2) by (auto simp: fetch_inv_def ICache_fields cycle_front)
  next
    case 3
    then have "ic_req_buf_we p ic" using p(4) miss by (cases "ic_fsm ic") (auto simp: ic_req_buf_we_def ic_miss_def)
    then show ?thesis using 3 v p by (simp add: fetch_inv_def ICache_fields cycle_front)
  qed
qed

text \<open>Runs of the processor with the cache, which reads its lines in bursts.\<close>

inductive soc_run :: "(u32 \<Rightarrow> u32) \<Rightarrow> (nat \<Rightarrow> u32) \<Rightarrow> (u32 \<Rightarrow> u8) \<Rightarrow> nat \<Rightarrow> nat \<Rightarrow> core \<Rightarrow> (u32 \<Rightarrow> u8) \<Rightarrow> icache \<Rightarrow> nat \<Rightarrow> bool"
  for code rf m0 where
  soc_start: "icache_start ic \<Longrightarrow> soc_run code rf m0 0 0 (rtl_start rf) m0 ic 0"
| soc_cycle: "soc_run code rf m0 h n s m ic k \<Longrightarrow> from_icache c s ic \<Longrightarrow> dcache_ok c s m \<Longrightarrow>
    icache_ports c s p \<Longrightarrow> burst_ok code k p ic \<Longrightarrow> m' = (if dcache_miss c then m else serve (dcache_request s) m) \<Longrightarrow>
    soc_run code rf m0 (if icache_miss c \<or> dcache_miss c then h else Suc h) (if commit_wb (seg_wb s) then Suc n else n)
      (cpu_cycle True c s) m' (ICache True p ic) (next_beat p ic k)"

lemma soc_facts:
  assumes "soc_run code rf m0 h n s m ic k" and "fetchable code"
  shows "icache_inv code k ic \<and> fetch_inv s ic \<and> rtl_run code (rtl_start rf, m0) h n (s, m)"
  using assms(1)
proof induction
  case (soc_start ic)
  then show ?case
    using start_icache_inv [OF soc_start assms(2)] by (simp add: icache_start_def fetch_inv_def rtl_start_def run_start)
next
  case (soc_cycle h n s m ic k c p m')
  then have inv: "icache_inv code k ic" "fetch_inv s ic" and run: "rtl_run code (rtl_start rf, m0) h n (s, m)" by simp_all
  note step = fetch_inv_step [OF inv soc_cycle.hyps(2,4,3)]
  have "rvalid p" using soc_cycle.hyps(4) by (simp add: icache_ports_def)
  then have i: "icache_inv code (next_beat p ic k) (ICache True p ic)"
    using icache_inv_step [OF inv(1) soc_cycle.hyps(5) _ step(2)] by blast
  have "caches_ok code c s m"
    using icache_fetches [OF inv soc_cycle.hyps(2) assms(2)] soc_cycle.hyps(3) by (simp add: caches_ok_def)
  from run_cycle [OF run this soc_cycle.hyps(6)] i step(1) show ?case by simp
qed

section \<open>The cache answers\<close>

text \<open>How many cycles the cache needs, when the memory sends a word in every cycle.\<close>

definition ic_wait :: "nat \<Rightarrow> icache \<Rightarrow> nat" where
  "ic_wait k ic = (case ic_fsm ic of IDLE \<Rightarrow> if rvalid_pipe ic \<and> \<not> cache_hit ic then 5 else 0 | MISS \<Rightarrow> 4 - k | REFILL \<Rightarrow> 0)"

definition ready_ports :: "(u32 \<Rightarrow> u32) \<Rightarrow> nat \<Rightarrow> core \<Rightarrow> icache \<Rightarrow> icache_in" where
  "ready_ports code k s ic = \<lparr>rvalid = True, raddr = pc_if1 s, fencei_valid = bit (priv_ex s) FENCEI, fence_valid = bit (priv_ex s) FENCE,
     flush = (redirects s \<or> excepts s), stall = uses_load s, i_rready = True, i_rdata = code (i_raddr ic + 4 * of_nat k), i_rlast = (k = 3)\<rparr>"

definition ready_caches :: "core \<Rightarrow> (u32 \<Rightarrow> u8) \<Rightarrow> icache \<Rightarrow> cache_out" where
  "ready_caches s m ic = \<lparr>icache_miss = ic_miss ic, icache_rdata = ic_rdata (redirects s \<or> excepts s) ic, dcache_miss = False,
     dcache_rdata = mem_word m (alu_result_ls (seg_ls s))\<rparr>"

lemma ready_step:
  assumes "soc_run code rf m0 h n s m ic k"
  shows "soc_run code rf m0 (if ic_miss ic then h else Suc h) (if commit_wb (seg_wb s) then Suc n else n)
    (cpu_cycle True (ready_caches s m ic) s) (serve (dcache_request s) m)
    (ICache True (ready_ports code k s ic) ic) (next_beat (ready_ports code k s ic) ic k)"
proof -
  let ?c = "ready_caches s m ic" and ?p = "ready_ports code k s ic"
  have "from_icache ?c s ic" by (simp add: from_icache_def ready_caches_def hazard_signals)
  moreover have "dcache_ok ?c s m" by (simp add: dcache_ok_def ready_caches_def)
  moreover have "icache_ports ?c s ?p" by (simp add: icache_ports_def ready_ports_def hazard_signals icache_stall_eq) (simp add: ready_caches_def)
  moreover have "burst_ok code k ?p ic" by (simp add: burst_ok_def ready_ports_def)
  ultimately show ?thesis using soc_cycle [OF assms, of ?c ?p] by (simp add: ready_caches_def)
qed

lemma ic_wait_step:
  assumes "icache_inv code k ic" and "ic_miss ic"
  shows "ic_wait (next_beat (ready_ports code k s ic) ic k) (ICache True (ready_ports code k s ic) ic) < ic_wait k ic"
proof (cases "ic_fsm ic")
  case MISS
  then show ?thesis using icache_invD(6) [OF assms(1) MISS]
    by (auto simp: ic_wait_def next_beat_def i_rvalid_def ICache_fields ic_next_state_def ready_ports_def)
next
  case IDLE
  then show ?thesis using icache_invD(5) [OF assms(1)] assms(2)
    by (simp add: ic_wait_def next_beat_def i_rvalid_def ICache_fields ic_next_state_def ic_miss_def)
next
  case REFILL
  then show ?thesis using assms(2) by (simp add: ic_miss_def)
qed

definition empty_icache :: icache where
  "empty_icache = \<lparr>addr_pipe = 0, rvalid_pipe = False, ret_buf = 0, flush_buf = False, data_mem = (\<lambda>_. \<lparr>addr_r = 0, ram = \<lambda>_. 0\<rparr>),
     tag_mem = (\<lambda>_. \<lparr>addr_r = 0, ram = \<lambda>_. 0\<rparr>), valid_bit_mem = (\<lambda>_ _. False), tag_valid = (\<lambda>_. False), lru = (\<lambda>_. False), ic_fsm = IDLE\<rparr>"

lemma soc_reaches:
  assumes "fetchable code"
  shows "\<exists>n s m ic k. soc_run code rf m0 h n s m ic k"
proof (induction h)
  case 0
  have "icache_start empty_icache" by (simp add: icache_start_def empty_icache_def)
  then show ?case using soc_start by blast
next
  case (Suc h)
  then obtain n s m ic k where "soc_run code rf m0 h n s m ic k" by blast
  then show ?case
  proof (induction "ic_wait k ic" arbitrary: n s m ic k rule: less_induct)
    case less
    show ?case
    proof (cases "ic_miss ic")
      case True
      have "icache_inv code k ic" using soc_facts [OF less(2) assms] by blast
      from less(1) [OF ic_wait_step [OF this True]] ready_step [OF less(2)] True show ?thesis by auto
    next
      case False
      show ?thesis using ready_step [OF less(2)] unfolding if_not_P [OF False] by blast
    qed
  qed
qed

section \<open>The properties\<close>

text \<open>C4: With its instruction cache, which fetches lines in bursts, keeps two ways and survives flushes, stalls and
  fences in any state, the processor still executes the program in order, and every instruction it takes from the
  cache is that of the memory at its address.\<close>

theorem icache_serves_pipeline:
  assumes "soc_run code rf m0 h n s m ic k" and "fetchable code" and "a = arch_after code rf m0 n"
  shows "regfile s = a_rf a \<and> csrs s = a_csrs a \<and>
    (commit_if2 (seg_if2 s) \<and> \<not> ic_miss ic \<longrightarrow> ic_rdata False ic = code (pc_if2 (seg_if2 s)))"
proof (intro conjI impI)
  note f = soc_facts [OF assms(1,2)]
  show "regfile s = a_rf a" "csrs s = a_csrs a" using run_facts [of code rf m0 h n s m] f assms(3) by blast+
  assume c: "commit_if2 (seg_if2 s) \<and> \<not> ic_miss ic"
  then have v: "rvalid_pipe ic" using f start_signals(4) unfolding fetch_inv_def by metis
  then show "ic_rdata False ic = code (pc_if2 (seg_if2 s))"
    using icache_reads [OF _ v] f c assms(2) by (auto simp: fetch_inv_def fetchable_def)
qed

lemma below_line: "(b AND NOT 3 < 256) = (b < (256 :: u32))"
proof -
  have small: "b < 256 \<longleftrightarrow> drop_bit 8 b = 0" for b :: u32
    by (simp add: word_less_nat_alt word_unat_eq_iff drop_bit_eq_div unat_div_distrib div_eq_0_iff)
  have "drop_bit 8 (b AND NOT 3) = drop_bit 8 b"
  proof -
    have m: "(3 :: u32) = mask 2" by (simp add: mask_eq_exp_minus_1)
    show ?thesis unfolding m
      by (rule bit_word_eqI) (auto simp: bit_drop_bit_eq bit_and_iff bit_not_iff bit_mask_iff dest: bit_imp_le_length)
  qed
  then show ?thesis by (simp only: small)
qed

lemma icache_serves_pipeline_witness:
  "\<exists>n s m ic k. 5 \<le> n \<and> soc_run (\<lambda>a. if a < 256 then 0 else 0x00108093) (\<lambda>_. 0) (\<lambda>_. 0) 40 n s m ic k \<and>
     regfile s = a_rf (arch_after (\<lambda>a. if a < 256 then 0 else 0x00108093) (\<lambda>_. 0) (\<lambda>_. 0) n)"
proof -
  let ?code = "\<lambda>a :: u32. if a < 256 then 0 else 0x00108093 :: u32"
  have c: "fetchable ?code" unfolding fetchable_def below_line by simp
  obtain n s m ic k where run: "soc_run ?code (\<lambda>_. 0) (\<lambda>_. 0) 40 n s m ic k" using soc_reaches [OF c] by blast
  have "rtl_run ?code (rtl_start (\<lambda>_. 0), \<lambda>_. 0) 40 n (s, m)" using soc_facts [OF run c] by blast
  from run_progress [OF this] have "5 \<le> n" by simp
  with icache_serves_pipeline [OF run c refl] run show ?thesis by blast
qed

text \<open>C35: A fence does not always empty the cache: a line is still hit after it, with its old contents, when the next
  address looked up has the index of the last one, since the valid bit is then taken to be set.\<close>

theorem fence_keeps_line:
  assumes "icache_inv code k ic" and "ic_fsm ic = IDLE" and "rvalid_pipe ic" and "ic_hit ic way" and "fencei_valid p"
    and "raddr p AND NOT 15 = addr_pipe ic AND NOT 15" and "ic' = ICache True p ic"
  shows "valid_bit_mem ic' = (\<lambda>_ _. False) \<and> ic_hit ic' way \<and> \<not> ic_miss ic' \<and>
    bram_dout (data_mem ic' way) = bram_dout (data_mem ic way)"
proof -
  have same: "ic_index (raddr p) = ic_index (addr_pipe ic)" "ic_tag (raddr p) = ic_tag (addr_pipe ic)"
  proof -
    have m: "(15 :: u32) = mask 4" by (simp add: mask_eq_exp_minus_1)
    have "bit (raddr p) (4 + j) = bit (addr_pipe ic) (4 + j)" if "j < 28" for j
    proof -
      have b: "bit (x AND NOT 15) (4 + j) = bit x (4 + j)" for x :: u32
        using that unfolding m by (simp add: bit_and_iff bit_not_iff bit_mask_iff)
      show ?thesis using arg_cong [OF assms(6), of "\<lambda>x. bit x (4 + j)"] unfolding b .
    qed
    then have e: "bit (raddr p) n = bit (addr_pipe ic) n" if "4 \<le> n" "n < 32" for n using that by (auto simp: le_iff_add)
    show "ic_index (raddr p) = ic_index (addr_pipe ic)" "ic_tag (raddr p) = ic_tag (addr_pipe ic)"
      using e by (intro bit_word_eqI; simp add: ic_index_def ic_tag_def bit_part)+
  qed
  have e: "ic_refill_we ic w = False" "ic_miss ic = False" for w
    using assms(2,4) by (cases way; simp add: ic_refill_we_def ic_miss_def cache_hit_def)+
  note idx = icache_invD(2,3) [OF assms(1,3)]
  have h: "ic_hit ic' way"
    using assms(4) idx unfolding assms(7)
    by (auto simp: ic_hit_def bram_dout_def ICache_fields e same) (simp_all add: ICache_def Let_def same)
  moreover have "valid_bit_mem ic' = (\<lambda>_ _. False)" using assms(5) unfolding assms(7) by (simp add: ICache_def Let_def)
  moreover have "\<not> ic_miss ic'"
    using h assms(2-4) unfolding assms(7) by (cases way) (auto simp: ic_miss_def cache_hit_def ICache_fields ic_next_state_def split: ic_state.splits)
  moreover have "bram_dout (data_mem ic' way) = bram_dout (data_mem ic way)"
    using idx unfolding assms(7) by (simp add: bram_dout_def ICache_fields e same)
  ultimately show ?thesis by blast
qed

text \<open>A cache that holds the line of the reset vector, and a fence while its second word is looked up.\<close>

definition line_cached :: icache where
  "line_cached = empty_icache\<lparr>addr_pipe := 0x80000004, rvalid_pipe := True,
     tag_mem := (\<lambda>_. \<lparr>addr_r = 0, ram = (\<lambda>_. 0)(0 := 0x800000)\<rparr>), tag_valid := (\<lambda>_. True)\<rparr>"

definition fence_now :: icache_in where
  "fence_now = \<lparr>rvalid = True, raddr = 0x80000008, fencei_valid = True, fence_valid = False, flush = True, stall = False,
     i_rready = False, i_rdata = 0, i_rlast = False\<rparr>"

lemma fence_keeps_line_witness:
  "valid_bit_mem (ICache True fence_now line_cached) = (\<lambda>_ _. False) \<and> ic_hit (ICache True fence_now line_cached) False"
proof -
  have idx: "ic_index 0x80000004 = 0" "ic_tag 0x80000004 = 0x800000" by code_simp+
  have inv: "icache_inv (\<lambda>_. 0) 0 line_cached"
    by (simp add: icache_inv_def line_cached_def empty_icache_def holds_line_def idx)
  have "ic_hit line_cached False" by (simp add: ic_hit_def bram_dout_def line_cached_def idx)
  moreover have "ic_fsm line_cached = IDLE" "rvalid_pipe line_cached" by (simp_all add: line_cached_def empty_icache_def)
  moreover have "fencei_valid fence_now" "raddr fence_now AND NOT 15 = addr_pipe line_cached AND NOT 15"
    by (simp_all add: fence_now_def line_cached_def)
  ultimately show ?thesis using fence_keeps_line [OF inv _ _ _ _ _ refl] by blast
qed

end
