(* ===== verification/Spec2Isabelle.thy ===== *)
theory Spec2Isabelle
  imports Nemu_Cpu Sim_Sdb Base_Services Tool_Int64 Tool_Stdio Os_Loader Lib_Fixed Lib_Surfaces Func_Programs App_Nterm Rtl_Icache
begin

text \<open>
  A model of this repository's own programs: a RISC-V processor in SystemVerilog, the simulator that
  runs it next to a reference emulator, and the software that runs on it, from the runtime and its
  drivers over a small operating system to the display libraries, a terminal and the test programs.

  \<^bold>\<open>The parts and how they interact.\<close> \<open>simulator/sim\<close> drives the Verilated processor clock by clock.
  The processor fetches, loads and stores through the AXI port of \<open>sim/memory/paddr.cpp\<close>, which serves
  the memory array and the memory-mapped devices of \<open>sim/device\<close>. Each instruction that leaves the
  processor is executed again by the emulator \<open>simulator/nemu\<close> and the registers are compared
  (\<open>sim/difftest\<close>); a debugger (\<open>sim/sdb\<close>) controls the run. Software reaches the devices through
  \<open>software/base-port\<close>; the operating system (\<open>software/os\<close>) builds on it and offers system calls,
  which the libraries of \<open>software/os-app/libs\<close> wrap for the applications.

  \<^bold>\<open>Conventions.\<close> A C integer is a word of its width; arithmetic wraps. Where the C code uses a signed
  \<open>int\<close> for counting or indexing the model uses \<open>int\<close> or keeps the word, as the definition says. A
  struct or a module's registers are a record, an enum a datatype. Failed assertions, panics and
  accesses outside an array are values: \<open>fault + 'a\<close> (\<open>Prelude\<close>), or the outcomes \<open>Returns\<close>, \<open>Halted\<close>
  and \<open>Faulted\<close> of a program that runs on the simulated machine (\<open>Guest\<close>). What the host decides
  (time, SDL events, files, addresses of static objects) is an argument: \<open>host\<close>, \<open>kenv\<close>, \<open>clib\<close>.
  A loop that is not structural has its termination proof; one that need not end is a
  \<open>partial_function\<close> whose value is None when it does not return.

  \<^bold>\<open>Shared theories.\<close> \<open>Prelude\<close> (words, faults, sequencing), \<open>Bytes\<close> (byte memory, little-endian
  words), \<open>Pixels\<close> (copy loops of 32-bit pixels), \<open>Fifo\<close> (the locale of bounded queues, interpreted on
  the key queue of the simulator, alone and behind the bus), \<open>Guest\<close> (programs on the machine),
  \<open>Func_Base\<close> (arrays with bounds, \<open>check\<close>). The locale \<open>word_memory\<close> of \<open>Nemu_Memory\<close> states the laws
  of loads and stores; it is interpreted on the emulator's memory, on its machine states and on the
  simulator's device space. The locale \<open>bounded_history\<close> of \<open>Sim_Trace\<close> is interpreted on the ring of
  traced instructions.

  \<^bold>\<open>Reference emulator\<close> (\<open>simulator/nemu\<close>). \<open>Nemu_Memory\<close>: \<open>paddr.c\<close>, \<open>host.h\<close>. \<open>Nemu_Pattern\<close>: the
  pattern compiler of \<open>cpu/decode.h\<close>. \<open>Nemu_Isa\<close>, \<open>Nemu_Exec\<close>: registers, CSRs, the operands and the
  57-entry table of \<open>isa/riscv32/inst.c\<close> with the body of every instruction. \<open>Nemu_Decode\<close>: the table
  selects the instruction of the manual for each word the manual defines, and the operands are those
  encoded. \<open>Nemu_Semantics\<close>: multiplication, division, CSRs and traps against the manual. \<open>Nemu_Cpu\<close>:
  the loop of \<open>cpu-exec.c\<close> and the interface of \<open>difftest/ref.c\<close>; \<open>nemu_step\<close> is one instruction, and
  \<open>cpu_exec n\<close> is exactly n such steps.

  \<^bold>\<open>Processor\<close> (\<open>simulator/IP/mycpu\<close>). \<open>Rtl_Modules\<close>: one definition per combinational module and
  register (\<open>ALU.sv\<close>, \<open>Decode.sv\<close>, \<open>Branch.sv\<close>, \<open>CSR.sv\<close>, \<open>Regfile.sv\<close>, ...). \<open>Rtl_Cpu\<close>: the registers
  between the six stages, \<open>Hazard.sv\<close> and \<open>cpu_cycle\<close>, one clock cycle of \<open>CPU.sv\<close>. \<open>Rtl_Isa\<close>:
  \<open>rtl_exec\<close>, the stages applied to a single instruction. \<open>Rtl_Nemu\<close>: \<open>rtl_exec\<close> and \<open>nemu_step\<close> agree
  on every defined instruction whose accesses are aligned. \<open>Rtl_Pipeline\<close>: the invariant of the
  pipeline (what each register holds, relative to the state before the instruction in it), its
  preservation by every cycle, and from it that the processor retires the program in order, agrees
  with the emulator after n instructions, and does not hang: of the cycles without a stall at most
  six go by per instruction (\<open>distance\<close> is the measure). \<open>caches_ok\<close> is what the pipeline needs of the
  caches: \<open>fetch_ok\<close> for instructions, \<open>dcache_ok\<close> for data. \<open>Rtl_Icache\<close>: \<open>ICache.sv\<close> with
  \<open>BRAM_common.sv\<close>, one definition per output and \<open>ICache\<close> for a cycle; connected to the pipeline it
  fulfils \<open>fetch_ok\<close>, so that only the data cache and the bursts of the memory remain assumptions.
  Self-modifying code is outside: the words fetched do not change during a run.

  \<^bold>\<open>Simulator\<close> (\<open>simulator/sim\<close>). \<open>Sim_Map\<close>: the device space and the table of regions
  (\<open>device/io/map.c\<close>, \<open>mmio.c\<close>). \<open>Sim_Devices\<close>, \<open>Sim_Drawing\<close>: keyboard, serial port, clock, screen, disk
  and \<open>device.c\<close>. \<open>Sim_Bus\<close>: the direct port and the AXI slave of \<open>memory/paddr.cpp\<close>, in the build with
  AXI and devices; both have the same effect, and a burst ends. \<open>Sim_Trace\<close>: \<open>CircularQueue\<close> of
  \<open>sim.cpp\<close> shows the last instructions. \<open>Sim_Cosim\<close>: the clock, \<open>cpu_exec\<close> and \<open>difftest.cpp\<close>; the
  Verilated processor is a parameter there. \<open>Sim_Lockstep\<close>: when the simulation goes on after a cycle,
  every instruction so far agreed with a step of the emulator. \<open>Sim_Expr\<close>, \<open>Sim_Eval\<close>, \<open>Sim_Lex\<close>: the
  expressions of the debugger; a printed expression is read back and evaluates to its value, and
  what does not (no fuel: \<open>eval\<close> is a partial function, and the inputs on which it does not return
  are characterised). \<open>Sim_Sdb\<close>: the commands, the loop over the input lines and the exit code.

  \<^bold>\<open>Runtime and drivers\<close> (\<open>software/base-port\<close>). \<open>Base_Drivers\<close>: \<open>trm.c\<close>, \<open>ioe.c\<close> and the drivers.
  \<open>Base_Services\<close>: what they achieve together with the simulated devices. \<open>Tool_String\<close>, \<open>Tool_Int64\<close>,
  \<open>Tool_Stdio\<close>: \<open>string.c\<close>, the 64-bit division of \<open>int64.c\<close>, the formatted output of \<open>stdio.c\<close>.

  \<^bold>\<open>Operating system\<close> (\<open>software/os\<close>). \<open>Os_Fs\<close>, \<open>Os_Files\<close>: \<open>fs.c\<close>, \<open>files.h\<close>, \<open>device.c\<close> and the table
  of files. \<open>Os_Kernel\<close>, \<open>Os_Traps\<close>: \<open>mem.c\<close>, \<open>proc.c\<close>, \<open>context.c\<close>, \<open>irq.c\<close>, \<open>trap.S\<close>, \<open>syscall.c\<close>,
  \<open>main.c\<close>; a system call returns to the program with every register but \<open>a0\<close> as it was. \<open>Os_Loader\<close>:
  \<open>loader.c\<close> from the image on the disk to the segments in memory. The loop over program headers is
  bounded by \<open>2 ^ 16\<close>, which a 16-bit count cannot exceed.

  \<^bold>\<open>Libraries and applications\<close> (\<open>software/os-app\<close>). \<open>Lib_Fixed\<close>: \<open>libfixedptc\<close>. \<open>Lib_Sdl\<close>: the system
  call stubs of \<open>libos\<close> and \<open>libndl\<close>. \<open>Lib_Video\<close>, \<open>Lib_Drawing\<close>, \<open>Lib_Surfaces\<close>: \<open>libSDL\<close> and \<open>libbmp\<close>,
  with bounds on where they write. Waiting loops (for an event, for the window manager) take the
  number of tries as an argument and report when it is used up. \<open>App_Terminal\<close>, \<open>App_Screen\<close>,
  \<open>App_Nterm\<close>: \<open>apps/nterm\<close>, its screen, escape sequences, line editing, window and built-in shell.

  \<^bold>\<open>Test programs\<close> (\<open>software/functest\<close>). \<open>Func_Sort\<close>, \<open>Func_Numbers\<close>, \<open>Func_Bits\<close>, \<open>Func_Programs\<close>: the
  algorithms against their specifications, and each modelled program passes all its checks.

  \<^bold>\<open>Not modelled.\<close> The data cache and the arbiter of the processor (their contract \<open>dcache_ok\<close> is an
  assumption of the runs of \<open>Rtl_Pipeline\<close>); the C library, compiler runtime, Lua, stb, Vorbis, which
  are third-party code; audio, fonts and images, which only wrap those; the C++ programs \<open>bird\<close>, \<open>nwm\<close>,
  \<open>menu\<close>, \<open>nslider\<close> and the player; assembly tests and start-up code; printing of registers,
  statistics and disassembly, wave tracing, and the build system.
\<close>

end
